(* ===== verification/Prelude.thy ===== *)
theory Prelude
  imports Main "HOL-Library.Word"
begin

text \<open>
  Shared vocabulary of the development: the machine types of the C sources, bytes and text,
  the result type of fallible operations, and the list and word facts the components share.
  A C \<^verbatim>\<open>size_t\<close> is a 64-bit word (every supported target is 64-bit), a \<^verbatim>\<open>char *\<close> string
  is a HOL \<open>string\<close> without its terminating NUL, and raw memory or file contents are lists
  of \<open>8 word\<close>.
\<close>

unbundle bit_operations_syntax

section \<open>Machine types\<close>

type_synonym byte = "8 word"
type_synonym u32 = "32 word"
type_synonym u64 = "64 word"
type_synonym size_t = "64 word"

abbreviation SIZE_MAX :: size_t where
  "SIZE_MAX \<equiv> - 1"

abbreviation UINT64_MAX :: u64 where
  "UINT64_MAX \<equiv> - 1"

abbreviation UINT32_MAX :: u64 where
  "UINT32_MAX \<equiv> 0xFFFFFFFF"

abbreviation NUL :: char where
  "NUL \<equiv> CHR 0x00"

named_theorems word_nat \<open>rules that move word arithmetic to the naturals\<close>
named_theorems fs_simps \<open>unfolding rules of the file-system operations\<close>

section \<open>Words read as naturals\<close>

lemma unat_SIZE_MAX [simp]: "unat SIZE_MAX = 2 ^ 64 - 1"
  by (simp add: unsigned_minus_1_eq_mask mask_eq_exp_minus_1)

lemma unat_of_nat64: "n < 2 ^ 64 \<Longrightarrow> unat (of_nat n :: 64 word) = n"
  by (simp add: unsigned_of_nat take_bit_nat_eq_self)

lemma unat_of_nat32: "n < 2 ^ 32 \<Longrightarrow> unat (of_nat n :: 32 word) = n"
  by (simp add: unsigned_of_nat take_bit_nat_eq_self)

lemma unat_lt64: "unat (w :: 64 word) < 2 ^ 64"
  using unsigned_less [of w, where 'a = nat] by simp

lemma unat_lt32: "unat (w :: 32 word) < 2 ^ 32"
  using unsigned_less [of w, where 'a = nat] by simp

lemma unat_add64: "unat (a :: 64 word) + unat b < 2 ^ 64 \<Longrightarrow> unat (a + b) = unat a + unat b"
  by (simp add: unat_word_ariths)

lemma unat_mult64: "unat (a :: 64 word) * unat b < 2 ^ 64 \<Longrightarrow> unat (a * b) = unat a * unat b"
  by (simp add: unat_word_ariths)

lemma unat_sub64: "b \<le> (a :: 64 word) \<Longrightarrow> unat (a - b) = unat a - unat b"
  by (rule unat_sub)

lemma unat_max_minus [simp]: "unat (SIZE_MAX - a) = 2 ^ 64 - 1 - unat a"
  by (subst unat_sub64) auto

lemma max_minus_less_iff:
  "UINT64_MAX - a < b \<longleftrightarrow> 2 ^ 64 \<le> unat a + unat (b :: 64 word)"
  using unat_lt64 [of a] unat_lt64 [of b] by (simp add: word_less_nat_alt) arith

lemma max_minus_not_less: "\<not> UINT64_MAX - a < b \<Longrightarrow> unat (a + b :: 64 word) = unat a + unat b"
  by (rule unat_add64) (simp add: max_minus_less_iff)

lemma sint_of_nat32: "n < 2 ^ 31 \<Longrightarrow> sint (of_nat n :: u32) = int n"
  by (simp add: signed_of_nat signed_take_bit_int_eq_self_iff)

lemma of_nat32_nz: "0 < n \<Longrightarrow> n < 2 ^ 32 \<Longrightarrow> (of_nat n :: u32) \<noteq> 0"
  using unat_of_nat32 [of n] by (metis unat_0 less_irrefl)

lemma ucast_of_nat32: "n < 2 ^ 32 \<Longrightarrow> unat (ucast (of_nat n :: u32) :: u64) = n"
  by (simp add: unsigned_ucast_eq unat_of_nat32 take_bit_nat_eq_self)

section \<open>Text and bytes\<close>

text \<open>The bytes of a text, and the text of some bytes: a cast between \<^verbatim>\<open>char *\<close> and
  \<^verbatim>\<open>uint8_t *\<close>.\<close>

definition bytes_of :: "string \<Rightarrow> byte list" where
  "bytes_of s = map of_char s"

definition text_of :: "byte list \<Rightarrow> string" where
  "text_of bs = map (\<lambda>b. char_of (unat b)) bs"

lemma char_of_unat_of_char [simp]: "char_of (unat (of_char c :: byte)) = c"
proof -
  have "unat (of_char c :: byte) = of_char c"
    by (cases c) (auto simp: unat_word_ariths)
  then show ?thesis by simp
qed

lemma text_of_bytes_of [simp]: "text_of (bytes_of s) = s"
  by (simp add: bytes_of_def text_of_def o_def)

lemma length_bytes_of [simp]: "length (bytes_of s) = length s"
  by (simp add: bytes_of_def)

lemma length_text_of [simp]: "length (text_of s) = length s"
  by (simp add: text_of_def)

lemma bytes_of_append [simp]: "bytes_of (s @ t) = bytes_of s @ bytes_of t"
  by (simp add: bytes_of_def)

lemma bytes_of_inject [simp]: "bytes_of s = bytes_of t \<longleftrightarrow> s = t"
  by (metis text_of_bytes_of)

lemma take_bytes_of: "take n (bytes_of s) = bytes_of (take n s)"
  by (simp add: bytes_of_def take_map)

lemma drop_bytes_of: "drop n (bytes_of s) = bytes_of (drop n s)"
  by (simp add: bytes_of_def drop_map)

section \<open>The C character classes and decimal parsing\<close>

text \<open>The classes of \<^verbatim>\<open>ctype.h\<close> in the C locale, on the unsigned value of a character.\<close>

definition ord :: "char \<Rightarrow> nat" where
  "ord c = of_char c"

definition isdigit :: "char \<Rightarrow> bool" where
  "isdigit c \<longleftrightarrow> 48 \<le> ord c \<and> ord c \<le> 57"

definition isspace :: "char \<Rightarrow> bool" where
  "isspace c \<longleftrightarrow> ord c = 32 \<or> (9 \<le> ord c \<and> ord c \<le> 13)"

definition isxdigit :: "char \<Rightarrow> bool" where
  "isxdigit c \<longleftrightarrow> isdigit c \<or> (65 \<le> ord c \<and> ord c \<le> 70) \<or> (97 \<le> ord c \<and> ord c \<le> 102)"

definition tolower :: "char \<Rightarrow> char" where
  "tolower c = (if 65 \<le> ord c \<and> ord c \<le> 90 then char_of (ord c + 32) else c)"

fun digits_val :: "nat \<Rightarrow> string \<Rightarrow> nat" where
  "digits_val acc [] = acc"
| "digits_val acc (c # cs) = digits_val (acc * 10 + (ord c - 48)) cs"

text \<open>\<^verbatim>\<open>strtoull(s, NULL, 10)\<close> and \<^verbatim>\<open>strtoul\<close> on a text of digits: \<open>None\<close> when the value
  does not fit and \<^verbatim>\<open>errno\<close> is set to \<^verbatim>\<open>ERANGE\<close>.\<close>

definition strtoull10 :: "string \<Rightarrow> u64 option" where
  "strtoull10 s = (let v = digits_val 0 s in if v < 2 ^ 64 then Some (of_nat v) else None)"

lemma ord_lt: "ord c < 256"
  unfolding ord_def by simp

text \<open>A C string ends before the first NUL; \<^verbatim>\<open>strstr\<close>; the decimal digits \<^verbatim>\<open>printf\<close> writes for an
  unsigned number.\<close>

definition cstr :: "string \<Rightarrow> string" where
  "cstr s = takeWhile (\<lambda>c. c \<noteq> NUL) s"

lemma cstr_id: "NUL \<notin> set s \<Longrightarrow> cstr s = s"
  by (auto simp: cstr_def takeWhile_eq_all_conv)

definition strstr :: "string \<Rightarrow> string \<Rightarrow> bool" where
  "strstr s needle \<longleftrightarrow>
     list_ex (\<lambda>i. take (length needle) (drop i s) = needle) [0..<Suc (length s)]"

fun nat_dec :: "nat \<Rightarrow> string" where
  "nat_dec n = (if n < 10 then [char_of (48 + n)] else nat_dec (n div 10) @ [char_of (48 + n mod 10)])"

declare nat_dec.simps [simp del]

section \<open>Memory blocks\<close>

text \<open>\<^verbatim>\<open>memcpy(dst + i, xs, n)\<close> on the list of a block's cells.\<close>

definition store_at :: "nat \<Rightarrow> 'a list \<Rightarrow> 'a list \<Rightarrow> 'a list" where
  "store_at i xs m = take i m @ xs @ drop (i + length xs) m"

lemma length_store_at [simp]: "i + length xs \<le> length m \<Longrightarrow> length (store_at i xs m) = length m"
  by (simp add: store_at_def)

lemma take_store_at: "i + length xs \<le> length m \<Longrightarrow> take (i + length xs) (store_at i xs m) = take i m @ xs"
  by (simp add: store_at_def)

lemma drop_store_at: "i + length xs \<le> length m \<Longrightarrow> drop (i + length xs) (store_at i xs m) = drop (i + length xs) m"
  by (simp add: store_at_def)

lemma store_at_0: "store_at 0 xs (ys @ zs) = xs @ zs" if "length xs = length ys"
  using that by (simp add: store_at_def)

section \<open>Files\<close>

text \<open>The contents of the file system, by path.\<close>

type_synonym fs = "string \<rightharpoonup> byte list"

section \<open>Results of fallible operations\<close>

definition bind_res :: "'e + 'a \<Rightarrow> ('a \<Rightarrow> 'e + 'b) \<Rightarrow> 'e + 'b" where
  "bind_res r f = (case r of Inl e \<Rightarrow> Inl e | Inr a \<Rightarrow> f a)"

lemma bind_res_simps [simp]:
  "bind_res (Inl e) f = Inl e"
  "bind_res (Inr a) f = f a"
  by (simp_all add: bind_res_def)

lemma bind_res_InrE [elim!]:
  assumes "bind_res r f = Inr b"
  obtains a where "r = Inr a" "f a = Inr b"
  using assms by (cases r) auto

end
