(* ===== verification/Ssd.thy ===== *)
theory Ssd
  imports Prelude
begin

text \<open>
  The SSD-streaming budget helpers of \<^verbatim>\<open>ds4_ssd.c\<close>: parsing of sizes and expert counts, the
  plan that divides the memory budget between the resident weights and the expert cache, and
  the simulated memory load that maps, locks and later releases a block of memory. Output
  parameters are the values returned (\<open>None\<close> where the C function returns \<^verbatim>\<open>false\<close> and leaves
  them zero). The lemmas show that accepted arguments denote exactly the value written, that the
  plan's products do not wrap and stay within the budget, and that a failed lock leaves no
  mapping and no locked page behind.
\<close>

section \<open>Arguments\<close>

definition DS4_GIB :: u64 where
  "DS4_GIB = 1024 * 1024 * 1024"

definition has_gb_suffix :: "string \<Rightarrow> bool" where
  "has_gb_suffix s \<longleftrightarrow>
     (let len = length s in
      len > 2 \<and> s ! (len - 2) \<in> {CHR ''g'', CHR ''G''} \<and> s ! (len - 1) \<in> {CHR ''b'', CHR ''B''})"

definition ds4_parse_gib_arg :: "string option \<Rightarrow> u64 option" where
  "ds4_parse_gib_arg arg =
     (case arg of None \<Rightarrow> None
      | Some s \<Rightarrow>
        if s = [] then None
        else
          let len = (if has_gb_suffix s then length s - 2 else length s); num = take len s in
          if len = 0 then None
          else if \<not> list_all isdigit num then None
          else if 32 \<le> len then None
          else (case strtoull10 num of None \<Rightarrow> None
                | Some v \<Rightarrow> if v = 0 \<or> UINT64_MAX div DS4_GIB < v then None else Some (v * DS4_GIB)))"

text \<open>The pair is the number of experts and the number of bytes; one of them is zero.\<close>

definition ds4_parse_streaming_cache_experts_arg :: "string option \<Rightarrow> (u32 \<times> u64) option" where
  "ds4_parse_streaming_cache_experts_arg arg =
     (case arg of None \<Rightarrow> None
      | Some s \<Rightarrow>
        if s = [] then None
        else if has_gb_suffix s then map_option (\<lambda>b. (0, b)) (ds4_parse_gib_arg (Some s))
        else if \<not> list_all isdigit s then None
        else (case strtoull10 s of None \<Rightarrow> None
              | Some v \<Rightarrow> if v = 0 \<or> UINT32_MAX < v then None else Some (ucast v, 0)))"

section \<open>The cache plan\<close>

definition ds4_ssd_cache_experts_for_byte_budget :: "u64 \<Rightarrow> u64 \<Rightarrow> u32" where
  "ds4_ssd_cache_experts_for_byte_budget bytes per_expert_bytes =
     (if bytes = 0 \<or> per_expert_bytes = 0 then 0
      else let experts = bytes div per_expert_bytes in
        if experts = 0 \<or> UINT32_MAX < experts then 0 else ucast experts)"

record ds4_ssd_cache_plan =
  model_target_bytes :: u64
  cache_bytes :: u64
  effective_cache_bytes :: u64
  cache_experts :: u32

definition ds4_ssd_auto_cache_plan :: "u64 \<Rightarrow> u64 \<Rightarrow> u64 \<Rightarrow> u64 \<Rightarrow> bool \<times> ds4_ssd_cache_plan" where
  "ds4_ssd_auto_cache_plan recommended_bytes non_routed_bytes per_expert_bytes max_model_experts =
     (if recommended_bytes = 0 \<or> per_expert_bytes = 0
      then (False, \<lparr>model_target_bytes = 0, cache_bytes = 0, effective_cache_bytes = 0, cache_experts = 0\<rparr>)
      else
        let target = (if UINT64_MAX div 4 < recommended_bytes then UINT64_MAX
                      else (recommended_bytes * 4) div 5);
            cbytes = (if non_routed_bytes < target then target - non_routed_bytes else 0);
            e0 = cbytes div per_expert_bytes;
            e1 = (if e0 = 0 then 1 else e0);
            e2 = (if max_model_experts \<noteq> 0 \<and> max_model_experts < e1 then max_model_experts else e1);
            e3 = (if UINT32_MAX < e2 then UINT32_MAX else e2);
            experts = (ucast e3 :: u32)
        in (experts \<noteq> 0,
            \<lparr>model_target_bytes = target, cache_bytes = cbytes,
             effective_cache_bytes = e3 * per_expert_bytes, cache_experts = experts\<rparr>))"

section \<open>Simulated memory pressure\<close>

text \<open>The process's mappings and its locked ranges, as (address, length) pairs. \<^verbatim>\<open>mmap\<close> and
  \<^verbatim>\<open>mlock\<close> succeed as the arguments \<open>mmap_at\<close> (the address, \<open>None\<close> for \<^verbatim>\<open>MAP_FAILED\<close>) and
  \<open>mlock_ok\<close> say. The bytes written to touch the pages are never read and are left out.\<close>

record vm =
  vm_maps :: "(u64 \<times> u64) list"
  vm_locked :: "(u64 \<times> u64) list"

record ds4_ssd_memory_lock =
  lk_ptr :: "u64 option"
  lk_bytes :: u64

definition mlock_vm :: "u64 \<Rightarrow> u64 \<Rightarrow> vm \<Rightarrow> vm" where
  "mlock_vm a n v = v\<lparr>vm_locked := (a, n) # vm_locked v\<rparr>"

text \<open>\<^verbatim>\<open>munlock\<close> and \<^verbatim>\<open>munmap\<close> act on every range inside the one they are given.\<close>

definition within :: "u64 \<Rightarrow> u64 \<Rightarrow> u64 \<times> u64 \<Rightarrow> bool" where
  "within a n r \<longleftrightarrow> unat a \<le> unat (fst r) \<and> unat (fst r) + unat (snd r) \<le> unat a + unat n"

definition munlock_vm :: "u64 \<Rightarrow> u64 \<Rightarrow> vm \<Rightarrow> vm" where
  "munlock_vm a n v = v\<lparr>vm_locked := filter (\<lambda>r. \<not> within a n r) (vm_locked v)\<rparr>"

definition munmap_vm :: "u64 \<Rightarrow> u64 \<Rightarrow> vm \<Rightarrow> vm" where
  "munmap_vm a n v = v\<lparr>vm_maps := filter (\<lambda>r. \<not> within a n r) (vm_maps v)\<rparr>"

definition chunk_bytes :: u64 where
  "chunk_bytes = 256 * 1024 * 1024"

text \<open>The locking loop: \<open>Inl\<close> the bytes locked when \<^verbatim>\<open>mlock\<close> fails; \<open>None\<close> when the offset wraps
  for ever.\<close>

partial_function (option) lock_loop ::
  "(u64 \<Rightarrow> u64 \<Rightarrow> bool) \<Rightarrow> u64 \<Rightarrow> u64 \<Rightarrow> u64 \<Rightarrow> u64 \<Rightarrow> vm \<Rightarrow> ((u64 + u64) \<times> vm) option" where
  "lock_loop mlock_ok p bytes off locked v =
     (if off < bytes then
        (let n = (if chunk_bytes < bytes - off then chunk_bytes else bytes - off) in
         if mlock_ok (p + off) n
         then lock_loop mlock_ok p bytes (off + chunk_bytes) (locked + n) (mlock_vm (p + off) n v)
         else Some (Inl locked, v))
      else Some (Inr locked, v))"

definition ds4_ssd_memory_lock_acquire ::
  "(u64 \<Rightarrow> u64 option) \<Rightarrow> (u64 \<Rightarrow> u64 \<Rightarrow> bool) \<Rightarrow> u64 \<Rightarrow> vm \<Rightarrow> (bool \<times> ds4_ssd_memory_lock \<times> vm) option" where
  "ds4_ssd_memory_lock_acquire mmap_at mlock_ok bytes v =
     (let none = \<lparr>lk_ptr = None, lk_bytes = 0\<rparr> in
      if bytes = 0 then Some (True, none, v)
      else (case mmap_at bytes of None \<Rightarrow> Some (False, none, v)
            | Some p \<Rightarrow>
              (let v0 = v\<lparr>vm_maps := (p, bytes) # vm_maps v\<rparr> in
               case lock_loop mlock_ok p bytes 0 0 v0 of
                 None \<Rightarrow> None
               | Some (Inl locked, v1) \<Rightarrow>
                   Some (False, none,
                         munmap_vm p bytes (if locked \<noteq> 0 then munlock_vm p locked v1 else v1))
               | Some (Inr locked, v1) \<Rightarrow> Some (True, \<lparr>lk_ptr = Some p, lk_bytes = bytes\<rparr>, v1))))"

definition ds4_ssd_memory_lock_release :: "ds4_ssd_memory_lock \<Rightarrow> vm \<Rightarrow> ds4_ssd_memory_lock \<times> vm" where
  "ds4_ssd_memory_lock_release lock v =
     (case lk_ptr lock of None \<Rightarrow> (lock, v)
      | Some p \<Rightarrow>
        if lk_bytes lock = 0 then (lock, v)
        else (\<lparr>lk_ptr = None, lk_bytes = 0\<rparr>,
              munmap_vm p (lk_bytes lock) (munlock_vm p (lk_bytes lock) v)))"

section \<open>Lemmas\<close>

lemma DS4_GIB_val: "DS4_GIB = 0x40000000" "unat DS4_GIB = 2 ^ 30"
  by (simp_all add: DS4_GIB_def)

lemma strtoull10_Some: "strtoull10 s = Some v \<longleftrightarrow> digits_val 0 s < 2 ^ 64 \<and> v = of_nat (digits_val 0 s)"
  by (auto simp: strtoull10_def Let_def)

lemma gib_product:
  assumes "\<not> UINT64_MAX div DS4_GIB < v"
  shows "unat (v * DS4_GIB) = unat v * 2 ^ 30"
proof -
  have "unat v \<le> (2 ^ 64 - 1) div 2 ^ 30"
    using assms by (simp add: word_less_nat_alt not_less unat_div DS4_GIB_val)
  then show ?thesis by (subst unat_mult64) (simp_all add: DS4_GIB_val)
qed

lemma parse_gib_sound:
  assumes "ds4_parse_gib_arg (Some s) = Some b"
  shows "\<exists>num. num \<noteq> [] \<and> list_all isdigit num
           \<and> s = num @ drop (length num) s \<and> length s \<le> length num + 2
           \<and> unat b = digits_val 0 num * 2 ^ 30 \<and> 0 < digits_val 0 num"
proof -
  define len where "len = (if has_gb_suffix s then length s - 2 else length s)"
  from assms obtain v where v: "strtoull10 (take len s) = Some v" "v \<noteq> 0"
      "\<not> UINT64_MAX div DS4_GIB < v" "b = v * DS4_GIB" "len \<noteq> 0" "list_all isdigit (take len s)" "s \<noteq> []"
    by (auto simp: ds4_parse_gib_arg_def Let_def len_def split: if_splits option.splits)
  have lt: "digits_val 0 (take len s) < 2 ^ 64" and vd: "unat v = digits_val 0 (take len s)"
    using v(1) by (auto simp: strtoull10_Some unat_of_nat64)
  have "unat b = digits_val 0 (take len s) * 2 ^ 30"
    using gib_product [OF v(3)] v(4) vd by simp
  moreover have "0 < unat v" using v(2) by (simp add: unat_gt_0)
  ultimately show ?thesis using v vd
    by (intro exI [of _ "take len s"]) (auto simp: len_def min_def)
qed

text \<open>The bounds of the plan: with a positive budget it always has at least one expert, its
  product does not wrap, and it exceeds the cache share of the budget only for that one expert.\<close>

lemma auto_cache_plan_bounds:
  assumes "recommended \<noteq> 0" "per \<noteq> 0"
  shows "\<exists>plan. ds4_ssd_auto_cache_plan recommended non_routed per max_experts = (True, plan)
     \<and> 1 \<le> unat (cache_experts plan)
     \<and> unat (effective_cache_bytes plan) = unat (cache_experts plan) * unat per
     \<and> (unat (effective_cache_bytes plan) \<le> unat (cache_bytes plan) \<or> cache_experts plan = 1)
     \<and> (max_experts \<noteq> 0 \<longrightarrow> unat (cache_experts plan) \<le> unat max_experts)"
proof -
  define target where "target = (if UINT64_MAX div 4 < recommended then UINT64_MAX else (recommended * 4) div 5)"
  define cb where "cb = (if non_routed < target then target - non_routed else 0)"
  define e1 where "e1 = (if cb div per = 0 then 1 else cb div per)"
  define e2 where "e2 = (if max_experts \<noteq> 0 \<and> max_experts < e1 then max_experts else e1)"
  define e3 where "e3 = (if UINT32_MAX < e2 then UINT32_MAX else e2)"
  have p: "0 < unat per" using assms(2) by (simp add: unat_gt_0)
  have q: "unat (cb div per) * unat per \<le> unat cb" by (simp add: unat_div)
  then have e1: "0 < unat e1" "unat e1 * unat per \<le> unat cb \<or> unat e1 = 1"
    by (auto simp: e1_def unat_gt_0)
  have e1': "unat e1 * unat per \<le> max (unat cb) (unat per)" using e1(2) by auto
  have e2: "0 < unat e2" "unat e2 \<le> unat e1" "max_experts \<noteq> 0 \<longrightarrow> unat e2 \<le> unat max_experts"
    using e1(1) by (auto simp: e2_def unat_gt_0 word_less_nat_alt)
  have e3: "0 < unat e3" "unat e3 \<le> unat e2" "unat e3 < 2 ^ 32"
    using e2(1) by (auto simp: e3_def word_less_nat_alt)
  have uc: "unat (ucast e3 :: u32) = unat e3"
    using e3(3) by (simp add: unsigned_ucast_eq take_bit_nat_eq_self)
  have le: "unat e3 * unat per \<le> unat e1 * unat per"
    using e3(2) e2(2) by simp
  have prod: "unat (e3 * per) = unat e3 * unat per"
    using le e1' unat_lt64 [of cb] unat_lt64 [of per] by (intro unat_mult64) linarith
  have fit: "unat e3 * unat per \<le> unat cb \<or> unat e3 = 1"
    using e1(2) le e3 e2 by linarith
  have one: "unat e3 = 1 \<Longrightarrow> (ucast e3 :: u32) = 1"
    using uc by (metis unat_1 word_unat_eq_iff)
  have nz: "(ucast e3 :: u32) \<noteq> 0" using uc e3(1) by (metis unat_0 less_irrefl)
  have eq: "ds4_ssd_auto_cache_plan recommended non_routed per max_experts =
    (True, \<lparr>model_target_bytes = target, cache_bytes = cb, effective_cache_bytes = e3 * per,
            cache_experts = ucast e3\<rparr>)"
    unfolding ds4_ssd_auto_cache_plan_def Let_def target_def [symmetric] cb_def [symmetric]
      e1_def [symmetric] e2_def [symmetric] e3_def [symmetric]
    using assms nz by simp
  show ?thesis using e2(3) e3 uc prod fit one by (auto simp: eq)
qed

text \<open>The loop visits the block chunk by chunk: it ends, touches no mapping, and has locked exactly
  the ranges that lie in the first \<open>l\<close> bytes, where \<open>l\<close> is what it reports.\<close>

lemma chunk_bytes_val: "chunk_bytes = 0x10000000" "unat chunk_bytes = 2 ^ 28"
  by (simp_all add: chunk_bytes_def)

lemma lock_loop_ends:
  assumes "unat p + unat bytes < 2 ^ 64" "unat bytes + 2 ^ 28 < 2 ^ 64"
    "locked = (if off < bytes then off else bytes)" "unat off < unat bytes + 2 ^ 28"
  shows "\<exists>r v' cs l. lock_loop ok p bytes off locked v = Some (r, v')
     \<and> vm_maps v' = vm_maps v \<and> vm_locked v' = cs @ vm_locked v \<and> (\<forall>c \<in> set cs. within p l c \<and> 0 < unat (snd c))
     \<and> unat l \<le> unat bytes \<and> (r = Inl l \<or> (r = Inr l \<and> l = bytes)) \<and> locked \<le> l"
  using assms
proof (induction "unat bytes - unat off" arbitrary: off locked v rule: less_induct)
  case less
  show ?case
  proof (cases "off < bytes")
    case False
    with less.prems show ?thesis by (subst lock_loop.simps) auto
  next
    case lt: True
    define n where "n = (if chunk_bytes < bytes - off then chunk_bytes else bytes - off)"
    have lo: "locked = off" using less.prems(3) lt by simp
    have bo: "unat (bytes - off) = unat bytes - unat off" and ob: "unat off < unat bytes"
      using lt by (simp_all add: unat_sub64 less_imp_le flip: word_less_nat_alt)
    have n: "unat n \<le> unat bytes - unat off" "0 < unat n"
      using bo ob by (auto simp: n_def word_less_nat_alt chunk_bytes_val)
    have offn: "unat (off + n) = unat off + unat n"
      using n less.prems(1) ob by (intro unat_add64) linarith
    have offc: "unat (off + chunk_bytes) = unat off + 2 ^ 28"
      using less.prems(2) ob by (subst unat_add64) (simp_all add: chunk_bytes_val)
    have po: "unat (p + off) = unat p + unat off"
      using less.prems(1) ob by (intro unat_add64) linarith
    have step: "lock_loop ok p bytes off locked v =
       (if ok (p + off) n then lock_loop ok p bytes (off + chunk_bytes) (off + n) (mlock_vm (p + off) n v)
        else Some (Inl locked, v))"
      using lt lo by (subst lock_loop.simps) (simp add: n_def Let_def)
    show ?thesis
    proof (cases "ok (p + off) n")
      case False
      then show ?thesis using step ob lo by (auto simp: word_less_nat_alt)
    next
      case True
      have next_locked: "off + n = (if off + chunk_bytes < bytes then off + chunk_bytes else bytes)"
        unfolding word_unat_eq_iff using offn offc bo ob
        by (auto simp: n_def word_less_nat_alt chunk_bytes_val)
      have m: "unat bytes - unat (off + chunk_bytes) < unat bytes - unat off"
        using offc ob by simp
      have b: "unat (off + chunk_bytes) < unat bytes + 2 ^ 28" using offc ob by simp
      obtain r v' cs l where ih: "lock_loop ok p bytes (off + chunk_bytes) (off + n) (mlock_vm (p + off) n v) = Some (r, v')"
        "vm_maps v' = vm_maps (mlock_vm (p + off) n v)" "vm_locked v' = cs @ vm_locked (mlock_vm (p + off) n v)"
        "\<forall>c \<in> set cs. within p l c \<and> 0 < unat (snd c)" "unat l \<le> unat bytes" "r = Inl l \<or> (r = Inr l \<and> l = bytes)" "off + n \<le> l"
        using less.hyps [OF m less.prems(1,2) next_locked b] by metis
      have "within p l (p + off, n)"
        using ih(7) offn po by (simp add: within_def word_le_nat_alt)
      moreover have "locked \<le> l" using ih(7) offn lo by (simp add: word_le_nat_alt)
      ultimately show ?thesis
        using True step ih n(2)
        by (intro exI [of _ r] exI [of _ v'] exI [of _ "cs @ [(p + off, n)]"] exI [of _ l])
           (auto simp: mlock_vm_def)
    qed
  qed
qed

lemma filter_all_within: "\<forall>c \<in> set cs. within p n c \<Longrightarrow> filter (\<lambda>r. \<not> within p n r) cs = []"
  by simp

definition vm_free :: "u64 \<Rightarrow> u64 \<Rightarrow> vm \<Rightarrow> bool" where
  "vm_free p n v \<longleftrightarrow> unat p + unat n < 2 ^ 64
     \<and> list_all (\<lambda>r. \<not> within p n r) (vm_maps v) \<and> list_all (\<lambda>r. \<not> within p n r) (vm_locked v)"

lemma vm_free_filters:
  assumes "vm_free p n v"
  shows "filter (\<lambda>r. \<not> within p n r) (vm_maps v) = vm_maps v"
    and "filter (\<lambda>r. \<not> within p n r) (vm_locked v) = vm_locked v"
    and "l \<le> n \<Longrightarrow> filter (\<lambda>r. \<not> within p l r) (vm_locked v) = vm_locked v"
proof -
  show "filter (\<lambda>r. \<not> within p n r) (vm_maps v) = vm_maps v"
    and "filter (\<lambda>r. \<not> within p n r) (vm_locked v) = vm_locked v"
    using assms by (simp_all add: vm_free_def list_all_iff)
  assume "l \<le> n"
  then have "within p l r \<Longrightarrow> within p n r" for r by (auto simp: within_def word_le_nat_alt)
  then show "filter (\<lambda>r. \<not> within p l r) (vm_locked v) = vm_locked v"
    using assms by (auto simp: vm_free_def list_all_iff filter_id_conv)
qed

lemma memory_lock_cases:
  assumes m: "mmap_at bytes = Some p" and fr: "vm_free p bytes v"
    and b: "unat bytes + 2 ^ 28 < 2 ^ 64" "bytes \<noteq> 0"
  shows "ds4_ssd_memory_lock_acquire mmap_at ok bytes v = Some (False, \<lparr>lk_ptr = None, lk_bytes = 0\<rparr>, v)
    \<or> (\<exists>cs. ds4_ssd_memory_lock_acquire mmap_at ok bytes v =
         Some (True, \<lparr>lk_ptr = Some p, lk_bytes = bytes\<rparr>,
               \<lparr>vm_maps = (p, bytes) # vm_maps v, vm_locked = cs @ vm_locked v\<rparr>)
        \<and> (\<forall>c \<in> set cs. within p bytes c))"
proof -
  let ?v0 = "v\<lparr>vm_maps := (p, bytes) # vm_maps v\<rparr>"
  have pb: "unat p + unat bytes < 2 ^ 64" using fr by (simp add: vm_free_def)
  have "(0 :: u64) < bytes" using b(2) by (simp add: word_gt_0)
  then obtain r v1 cs l where e: "lock_loop ok p bytes 0 0 ?v0 = Some (r, v1)"
      "vm_maps v1 = vm_maps ?v0" "vm_locked v1 = cs @ vm_locked ?v0"
      "\<forall>c \<in> set cs. within p l c \<and> 0 < unat (snd c)"
      "unat l \<le> unat bytes" "r = Inl l \<or> (r = Inr l \<and> l = bytes)"
    using lock_loop_ends [OF pb b(1), of 0 0 ok ?v0] by (simp only: if_True) auto
  have wp: "within p bytes (p, bytes)" by (simp add: within_def)
  have none: "l = 0 \<Longrightarrow> cs = []"
    using e(4) by (cases cs) (auto simp: within_def)
  have acq: "ds4_ssd_memory_lock_acquire mmap_at ok bytes v =
     (case (r, v1) of
        (Inl locked, v1) \<Rightarrow> Some (False, \<lparr>lk_ptr = None, lk_bytes = 0\<rparr>,
           munmap_vm p bytes (if locked \<noteq> 0 then munlock_vm p locked v1 else v1))
      | (Inr locked, v1) \<Rightarrow> Some (True, \<lparr>lk_ptr = Some p, lk_bytes = bytes\<rparr>, v1))"
    using b(2) m e(1) by (simp add: ds4_ssd_memory_lock_acquire_def)
  show ?thesis
  proof (cases r)
    case (Inl l')
    then have l: "l' = l" "l \<le> bytes" using e(5,6) by (auto simp: word_le_nat_alt)
    have "filter (\<lambda>r. \<not> within p l r) (vm_locked v1) = vm_locked v"
      using e(3,4) vm_free_filters(3) [OF fr l(2)] by (simp add: filter_id_conv)
    then have "munmap_vm p bytes (if l \<noteq> 0 then munlock_vm p l v1 else v1) = v"
      using e(2,3) none wp vm_free_filters(1) [OF fr] by (auto simp: munmap_vm_def munlock_vm_def)
    then show ?thesis using acq Inl l by simp
  next
    case (Inr l')
    then have "l = bytes" using e(6) by auto
    then show ?thesis using acq Inr e(2,3,4) by (cases v1) auto
  qed
qed

text \<open>A failed acquisition leaves the address space as it was, and releasing an acquired lock
  undoes the acquisition.\<close>

lemma memory_lock_release_undoes:
  assumes m: "mmap_at bytes = Some p" and fr: "vm_free p bytes v"
    and b: "unat bytes + 2 ^ 28 < 2 ^ 64" "bytes \<noteq> 0"
  shows "\<exists>ok lk v'. ds4_ssd_memory_lock_acquire mmap_at mlock_ok bytes v = Some (ok, lk, v')
           \<and> (\<not> ok \<longrightarrow> v' = v)
           \<and> ds4_ssd_memory_lock_release lk v' = (\<lparr>lk_ptr = None, lk_bytes = 0\<rparr>, v)"
  using memory_lock_cases [of mmap_at, OF assms, of mlock_ok]
proof (elim disjE exE conjE)
  fix cs
  assume a: "ds4_ssd_memory_lock_acquire mmap_at mlock_ok bytes v =
         Some (True, \<lparr>lk_ptr = Some p, lk_bytes = bytes\<rparr>,
               \<lparr>vm_maps = (p, bytes) # vm_maps v, vm_locked = cs @ vm_locked v\<rparr>)"
    and cs: "\<forall>c \<in> set cs. within p bytes c"
  have "within p bytes (p, bytes)" by (simp add: within_def)
  with a cs show ?thesis
    using b(2) vm_free_filters(1,2) [OF fr]
    by (auto simp: ds4_ssd_memory_lock_release_def munmap_vm_def munlock_vm_def)
qed (auto simp: ds4_ssd_memory_lock_release_def)

end
