(* ===== verification/DynBuf.thy ===== *)
theory DynBuf
  imports Prelude
begin

text \<open>
  The growable byte buffer of \<^verbatim>\<open>buf.c\<close>, which the server, the evaluator and the checkpoint
  store share. A block of memory is a list of cells, a cell \<open>None\<close> until it is written; the
  buffer keeps the pointer (\<open>None\<close> for NULL), the length and the capacity as the C struct does.
  Every error of the C code calls a handler that ends the process (\<^verbatim>\<open>dynbuf_error_default\<close>,
  \<^verbatim>\<open>kvstore_buf_error\<close>), so an error is the result of the operation. Whether an allocation of
  a given size succeeds is the argument \<open>mok\<close>.
  The interface of a text buffer is the locale \<open>text_buffer\<close>; the lemmas at the end show that
  this buffer provides it, so clients may read a sequence of appends as concatenation.
\<close>

section \<open>Growing the allocation\<close>

datatype buf_error = BufferOverflow | OutOfMemory | VsnprintfFailed | Diverges

record dynbuf =
  db_ptr :: "char option list option"
  db_len :: size_t
  db_cap :: size_t

definition dynbuf_empty :: dynbuf where
  "dynbuf_empty = \<lparr>db_ptr = None, db_len = 0, db_cap = 0\<rparr>"

text \<open>The doubling loop of \<^verbatim>\<open>dynbuf_reserve\<close>; \<open>None\<close> means that it does not end.\<close>

partial_function (option) grow_cap :: "size_t \<Rightarrow> size_t \<Rightarrow> (buf_error + size_t) option" where
  "grow_cap cap need =
     (if cap < need then
        (if SIZE_MAX div 2 < cap then Some (Inl BufferOverflow) else grow_cap (cap * 2) need)
      else Some (Inr cap))"

definition realloc_cells :: "char option list option \<Rightarrow> size_t \<Rightarrow> char option list" where
  "realloc_cells p n =
     (let old = (case p of None \<Rightarrow> [] | Some c \<Rightarrow> c)
      in take (unat n) old @ replicate (unat n - length old) None)"

definition dynbuf_reserve :: "(size_t \<Rightarrow> bool) \<Rightarrow> dynbuf \<Rightarrow> size_t \<Rightarrow> buf_error + dynbuf" where
  "dynbuf_reserve mok b add =
     (if SIZE_MAX - db_len b - 1 < add then Inl BufferOverflow
      else let need = db_len b + add + 1 in
        if need \<le> db_cap b then Inr b
        else (case grow_cap (if db_cap b \<noteq> 0 then db_cap b else 256) need of
                None \<Rightarrow> Inl Diverges
              | Some (Inl e) \<Rightarrow> Inl e
              | Some (Inr cap) \<Rightarrow>
                  if mok cap
                  then Inr (b\<lparr>db_ptr := Some (realloc_cells (db_ptr b) cap), db_cap := cap\<rparr>)
                  else Inl OutOfMemory))"

section \<open>Appending\<close>

definition dynbuf_write :: "dynbuf \<Rightarrow> string \<Rightarrow> dynbuf" where
  "dynbuf_write b p =
     (let len' = db_len b + of_nat (length p);
          cells = store_at (unat (db_len b)) (map Some p) (the (db_ptr b))
      in b\<lparr>db_ptr := Some (cells[unat len' := Some NUL]), db_len := len'\<rparr>)"

definition dynbuf_append :: "(size_t \<Rightarrow> bool) \<Rightarrow> dynbuf \<Rightarrow> string \<Rightarrow> buf_error + dynbuf" where
  "dynbuf_append mok b p =
     bind_res (dynbuf_reserve mok b (of_nat (length p))) (\<lambda>b1. Inr (dynbuf_write b1 p))"

definition dynbuf_putc :: "(size_t \<Rightarrow> bool) \<Rightarrow> dynbuf \<Rightarrow> char \<Rightarrow> buf_error + dynbuf" where
  "dynbuf_putc mok b c = dynbuf_append mok b [c]"

definition dynbuf_puts :: "(size_t \<Rightarrow> bool) \<Rightarrow> dynbuf \<Rightarrow> string \<Rightarrow> buf_error + dynbuf" where
  "dynbuf_puts mok b s = dynbuf_append mok b s"

text \<open>\<^verbatim>\<open>vsnprintf\<close> is run twice, to measure and to write; its output \<open>out\<close> is the argument,
  \<open>None\<close> for a negative return value. The second run writes the terminating NUL.\<close>

definition dynbuf_vprintf :: "(size_t \<Rightarrow> bool) \<Rightarrow> dynbuf \<Rightarrow> string option \<Rightarrow> buf_error + dynbuf" where
  "dynbuf_vprintf mok b out =
     (case out of None \<Rightarrow> Inl VsnprintfFailed
      | Some s \<Rightarrow> bind_res (dynbuf_reserve mok b (of_nat (length s)))
                   (\<lambda>b1. Inr (dynbuf_write b1 s)))"

section \<open>Invariant and contents\<close>

definition dynbuf_inv :: "dynbuf \<Rightarrow> bool" where
  "dynbuf_inv b \<longleftrightarrow>
     (case db_ptr b of
        None \<Rightarrow> db_len b = 0 \<and> db_cap b = 0
      | Some cells \<Rightarrow> length cells = unat (db_cap b) \<and> unat (db_len b) < unat (db_cap b)
                      \<and> None \<notin> set (take (unat (db_len b)) cells))"

text \<open>The text the buffer holds, and that a NUL follows it.\<close>

definition dynbuf_text :: "dynbuf \<Rightarrow> string" where
  "dynbuf_text b =
     (case db_ptr b of None \<Rightarrow> [] | Some cells \<Rightarrow> map the (take (unat (db_len b)) cells))"

definition dynbuf_terminated :: "dynbuf \<Rightarrow> bool" where
  "dynbuf_terminated b \<longleftrightarrow>
     (case db_ptr b of None \<Rightarrow> False | Some cells \<Rightarrow> cells ! unat (db_len b) = Some NUL)"

section \<open>The doubling loop ends\<close>

lemma grow_cap_stop: "\<not> cap < need \<Longrightarrow> grow_cap cap need = Some (Inr cap)"
  by (simp add: grow_cap.simps)

lemma double_cap:
  assumes "\<not> SIZE_MAX div 2 < (cap :: size_t)"
  shows "unat (cap * 2) = 2 * unat cap"
proof -
  have "unat cap \<le> (2 ^ 64 - 1) div 2"
    using assms by (simp add: word_less_nat_alt not_less unat_div)
  then show ?thesis by (subst unat_mult64) simp_all
qed

lemma grow_cap_ends:
  assumes "cap \<noteq> 0"
  shows "(\<exists>c. grow_cap cap need = Some (Inr c) \<and> need \<le> c \<and> cap \<le> c)
         \<or> (grow_cap cap need = Some (Inl BufferOverflow) \<and> 2 ^ 63 < unat need)"
  using assms
proof (induction "2 ^ 64 - unat cap" arbitrary: cap rule: less_induct)
  case less
  show ?case
  proof (cases "cap < need")
    case False
    then show ?thesis by (simp add: grow_cap_stop)
  next
    case lt: True
    show ?thesis
    proof (cases "SIZE_MAX div 2 < cap")
      case True
      then have "2 ^ 63 \<le> unat cap" by (simp add: word_less_nat_alt unat_div)
      with lt have "2 ^ 63 < unat need" by (simp add: word_less_nat_alt)
      with lt True show ?thesis by (simp add: grow_cap.simps)
    next
      case False
      then have d: "unat (cap * 2) = 2 * unat cap" by (rule double_cap)
      have pos: "0 < unat cap" using less.prems by (simp add: unat_gt_0)
      have nz: "cap * 2 \<noteq> 0" using d pos by auto
      have "2 ^ 64 - unat (cap * 2) < 2 ^ 64 - unat cap"
        using d pos unat_lt64 [of "cap * 2"] by simp
      from less.hyps [OF this nz] show ?thesis
        using lt False d pos by (auto simp: grow_cap.simps [of cap] word_le_nat_alt)
    qed
  qed
qed

section \<open>Reserving and appending\<close>

lemma dynbuf_empty_inv [simp]: "dynbuf_inv dynbuf_empty"
  by (simp add: dynbuf_inv_def dynbuf_empty_def)

lemma dynbuf_empty_text [simp]: "dynbuf_text dynbuf_empty = []"
  by (simp add: dynbuf_text_def dynbuf_empty_def)

lemma inv_len_lt: "dynbuf_inv b \<Longrightarrow> unat (db_len b) < 2 ^ 64 - 1"
  using unat_lt64 [of "db_cap b"] by (auto simp: dynbuf_inv_def split: option.splits)

lemma unat_room:
  assumes "dynbuf_inv b"
  shows "unat (SIZE_MAX - db_len b - 1) = 2 ^ 64 - 1 - unat (db_len b) - 1"
proof -
  have l: "unat (db_len b) < 2 ^ 64 - 1" using assms by (rule inv_len_lt)
  then have "1 \<le> SIZE_MAX - db_len b" by (simp add: word_le_nat_alt)
  then show ?thesis by (simp only: unat_sub64 unat_max_minus) simp
qed

lemma reserve_guard:
  assumes "dynbuf_inv b" and "\<not> SIZE_MAX - db_len b - 1 < add"
  shows "unat (db_len b + add + 1) = unat (db_len b) + unat add + 1"
proof -
  have l: "unat (db_len b) < 2 ^ 64 - 1" using assms(1) by (rule inv_len_lt)
  have "unat add \<le> 2 ^ 64 - 1 - unat (db_len b) - 1"
    using assms(2) unfolding not_less word_le_nat_alt unat_room [OF assms(1)] .
  with l have "unat (db_len b) + unat add + 1 < 2 ^ 64" by simp
  then show ?thesis by (simp add: unat_word_ariths)
qed

lemma realloc_cells_length [simp]: "length (realloc_cells p n) = unat n"
  by (simp add: realloc_cells_def Let_def split: option.splits)

lemma dynbuf_reserve_ok:
  assumes inv: "dynbuf_inv b" and r: "dynbuf_reserve mok b add = Inr b'"
  shows "dynbuf_inv b' \<and> dynbuf_text b' = dynbuf_text b \<and> db_len b' = db_len b
         \<and> (\<exists>cells. db_ptr b' = Some cells)
         \<and> unat (db_len b) + unat add < unat (db_cap b')"
proof -
  let ?need = "db_len b + add + 1"
  let ?c0 = "if db_cap b \<noteq> 0 then db_cap b else 256"
  from r have g: "\<not> SIZE_MAX - db_len b - 1 < add"
    by (auto simp: dynbuf_reserve_def split: if_splits)
  from inv g have need: "unat ?need = unat (db_len b) + unat add + 1" by (rule reserve_guard)
  show ?thesis
  proof (cases "?need \<le> db_cap b")
    case True
    with r g have "b' = b" by (simp add: dynbuf_reserve_def)
    moreover have "db_ptr b \<noteq> None"
      using True need inv by (auto simp: dynbuf_inv_def word_le_nat_alt split: option.splits)
    ultimately show ?thesis using inv need True by (auto simp: word_le_nat_alt)
  next
    case False
    have c0: "?c0 \<noteq> 0" by simp
    from r g False obtain c where gc: "grow_cap ?c0 ?need = Some (Inr c)"
      and b': "b' = b\<lparr>db_ptr := Some (realloc_cells (db_ptr b) c), db_cap := c\<rparr>"
      by (auto simp: dynbuf_reserve_def Let_def split: option.splits sum.splits if_splits)
    from grow_cap_ends [OF c0, of ?need] gc have c: "?need \<le> c" by auto
    have "db_cap b \<le> c" using c False by simp
    with inv have "dynbuf_inv b' \<and> dynbuf_text b' = dynbuf_text b"
      using c need b'
      by (auto simp: dynbuf_inv_def dynbuf_text_def realloc_cells_def Let_def word_le_nat_alt min_def
          split: option.splits)
    with b' c need show ?thesis by (simp add: word_le_nat_alt)
  qed
qed

lemma dynbuf_write_ok:
  assumes inv: "dynbuf_inv b" and ptr: "db_ptr b = Some cells"
    and room: "unat (db_len b) + length p < unat (db_cap b)"
  shows "dynbuf_inv (dynbuf_write b p) \<and> dynbuf_text (dynbuf_write b p) = dynbuf_text b @ p
         \<and> dynbuf_terminated (dynbuf_write b p)"
proof -
  let ?n = "unat (db_len b)" and ?m = "unat (db_len b) + length p"
  have lp: "length p < 2 ^ 64" using room unat_lt64 [of "db_cap b"] by simp
  have len': "unat (db_len b + of_nat (length p)) = ?m"
    using room lp unat_lt64 [of "db_cap b"] by (simp add: unat_add64 unat_of_nat64)
  from inv ptr have lc: "length cells = unat (db_cap b)"
    and init: "None \<notin> set (take ?n cells)" by (auto simp: dynbuf_inv_def)
  have st: "take ?m (store_at ?n (map Some p) cells) = take ?n cells @ map Some p"
    using take_store_at [of ?n "map Some p" cells] room lc by simp
  have lst: "length (store_at ?n (map Some p) cells) = length cells"
    using room lc by simp
  have e: "dynbuf_write b p =
      b\<lparr>db_ptr := Some ((store_at ?n (map Some p) cells)[?m := Some NUL]),
        db_len := db_len b + of_nat (length p)\<rparr>"
    by (simp add: dynbuf_write_def Let_def len' ptr)
  show ?thesis
    using init room lc
    by (auto simp: e dynbuf_inv_def dynbuf_text_def dynbuf_terminated_def len' lst st ptr o_def)
qed

lemma dynbuf_append_ok:
  assumes inv: "dynbuf_inv b" and lp: "length p < 2 ^ 64"
    and r: "dynbuf_append mok b p = Inr b'"
  shows "dynbuf_inv b' \<and> dynbuf_text b' = dynbuf_text b @ p \<and> dynbuf_terminated b'"
proof -
  from r obtain b1 where r1: "dynbuf_reserve mok b (of_nat (length p)) = Inr b1"
    and b': "b' = dynbuf_write b1 p"
    by (auto simp: dynbuf_append_def)
  from dynbuf_reserve_ok [OF inv r1] obtain cells where
    "dynbuf_inv b1" "dynbuf_text b1 = dynbuf_text b" "db_ptr b1 = Some cells"
    "unat (db_len b1) + length p < unat (db_cap b1)"
    by (auto simp: unat_of_nat64 [OF lp])
  with dynbuf_write_ok b' show ?thesis by metis
qed

text \<open>The buffer never runs its loop for ever, and refuses only a request whose size does not fit
  or that the allocator refuses.\<close>

lemma dynbuf_reserve_error:
  assumes inv: "dynbuf_inv b" and r: "dynbuf_reserve mok b add = Inl e"
  shows "(e = BufferOverflow \<and> 2 ^ 63 < unat (db_len b) + unat add + 1)
         \<or> (e = OutOfMemory \<and> (\<exists>c. \<not> mok c \<and> unat (db_len b) + unat add < unat c))"
proof (cases "SIZE_MAX - db_len b - 1 < add")
  case True
  have l: "unat (db_len b) < 2 ^ 64 - 1" using inv by (rule inv_len_lt)
  have "2 ^ 64 - 1 - unat (db_len b) - 1 < unat add"
    using True unfolding word_less_nat_alt unat_room [OF inv] .
  with l have "2 ^ 63 < unat (db_len b) + unat add + 1" by simp
  with True r show ?thesis by (auto simp: dynbuf_reserve_def)
next
  case False
  let ?c0 = "if db_cap b \<noteq> 0 then db_cap b else 256"
  have c0: "?c0 \<noteq> 0" by simp
  from inv False have need: "unat (db_len b + add + 1) = unat (db_len b) + unat add + 1"
    by (rule reserve_guard)
  show ?thesis
    using grow_cap_ends [OF c0, of "db_len b + add + 1"] r False need
    by (auto simp: dynbuf_reserve_def Let_def word_le_nat_alt split: if_splits)
qed

section \<open>The interface of a text buffer\<close>

text \<open>\<open>append_all\<close> runs a sequence of appends and stops at the first error, as the code does.\<close>

fun append_all :: "('b \<Rightarrow> string \<Rightarrow> 'e + 'b) \<Rightarrow> 'b \<Rightarrow> string list \<Rightarrow> 'e + 'b" where
  "append_all app b [] = Inr b"
| "append_all app b (p # ps) = bind_res (app b p) (\<lambda>b1. append_all app b1 ps)"

text \<open>\<open>append_capped\<close> stops without an error before the first append to a buffer that is full, and
  counts the appends.\<close>

fun append_capped :: "('b \<Rightarrow> string \<Rightarrow> 'e + 'b) \<Rightarrow> ('b \<Rightarrow> bool) \<Rightarrow> 'b \<Rightarrow> string list \<Rightarrow> 'e + 'b \<times> nat" where
  "append_capped app full b [] = Inr (b, 0)"
| "append_capped app full b (p # ps) =
     (if full b then Inr (b, 0)
      else bind_res (app b p) (\<lambda>b1. bind_res (append_capped app full b1 ps) (\<lambda>(b2, k). Inr (b2, Suc k))))"

locale text_buffer =
  fixes emp :: 'b
    and app :: "'b \<Rightarrow> string \<Rightarrow> 'e + 'b"
    and tx :: "'b \<Rightarrow> string"
    and invar :: "'b \<Rightarrow> bool"
  assumes emp_txt: "tx emp = []"
    and emp_invar: "invar emp"
    and app_txt: "invar b \<Longrightarrow> length p < 2 ^ 64 \<Longrightarrow> app b p = Inr b' \<Longrightarrow> tx b' = tx b @ p"
    and app_invar: "invar b \<Longrightarrow> length p < 2 ^ 64 \<Longrightarrow> app b p = Inr b' \<Longrightarrow> invar b'"
begin

lemma append_all_txt:
  assumes "invar b" and "\<forall>p \<in> set ps. length p < 2 ^ 64" and "append_all app b ps = Inr b'"
  shows "tx b' = tx b @ concat ps \<and> invar b'"
  using assms
proof (induction ps arbitrary: b)
  case Nil
  then show ?case by simp
next
  case (Cons p ps)
  from Cons.prems(3) obtain b1 where b1: "app b p = Inr b1" "append_all app b1 ps = Inr b'"
    by auto
  have "invar b1" and "tx b1 = tx b @ p"
    using Cons.prems b1(1) app_invar [of b p b1] app_txt [of b p b1] by simp_all
  with Cons.IH [of b1] Cons.prems b1 show ?case by simp
qed

lemma build_txt:
  assumes "\<forall>p \<in> set ps. length p < 2 ^ 64" and "append_all app emp ps = Inr b'"
  shows "tx b' = concat ps"
  using append_all_txt [OF emp_invar assms] emp_txt by simp

lemma append_capped_txt:
  assumes "invar b" and "\<forall>p \<in> set ps. length p < 2 ^ 64" and "append_capped app full b ps = Inr (b', k)"
  shows "tx b' = tx b @ concat (take k ps) \<and> invar b' \<and> k \<le> length ps \<and> (k = length ps \<or> full b')"
  using assms
proof (induction ps arbitrary: b k)
  case Nil
  then show ?case by simp
next
  case (Cons p ps)
  show ?case
  proof (cases "full b")
    case True
    then show ?thesis using Cons.prems by auto
  next
    case False
    then obtain b1 j where b1: "app b p = Inr b1" "append_capped app full b1 ps = Inr (b', j)" "k = Suc j"
      using Cons.prems(3) by auto
    have "invar b1" and "tx b1 = tx b @ p"
      using Cons.prems b1(1) app_invar [of b p b1] app_txt [of b p b1] by simp_all
    with Cons.IH [of b1 j] Cons.prems b1 show ?thesis by simp
  qed
qed

end

interpretation db: text_buffer dynbuf_empty "dynbuf_append mok" dynbuf_text dynbuf_inv for mok
  by unfold_locales (auto dest: dynbuf_append_ok)

end
