(* ===== verification/Hash.thy ===== *)
theory Hash
  imports Prelude "HOL-Library.While_Combinator"
begin

text \<open>
  The two hash functions of the C sources: SHA-1 of \<^verbatim>\<open>ds4_kvstore.c\<close>, which names checkpoint
  files, and SHA-256 of \<^verbatim>\<open>ds4_context_blob.c\<close>, which names context blobs. Both keep a partial
  block and a running state and differ in how they feed it (SHA-1 copies runs of bytes, SHA-256
  single bytes, and each pads in its own way). The locale \<open>stream_hash\<close> is their common
  contract; the lemmas show that both digests are those of the padded message processed block
  by block, as FIPS 180-4 describes them.
\<close>

section \<open>Words and bytes, most significant byte first\<close>

definition be_word :: "byte list \<Rightarrow> u32" where
  "be_word b = push_bit 24 (ucast (b ! 0)) OR push_bit 16 (ucast (b ! 1))
               OR push_bit 8 (ucast (b ! 2)) OR ucast (b ! 3)"

definition be_bytes :: "u32 \<Rightarrow> byte list" where
  "be_bytes w = [ucast (drop_bit 24 w), ucast (drop_bit 16 w), ucast (drop_bit 8 w), ucast w]"

definition be_len :: "u64 \<Rightarrow> byte list" where
  "be_len bits = map (\<lambda>i. ucast (drop_bit (8 * (7 - i)) bits)) [0..<8]"

definition hex_digits :: string where
  "hex_digits = ''0123456789abcdef''"

definition hex_bytes :: "byte list \<Rightarrow> string" where
  "hex_bytes d = concat (map (\<lambda>b. [hex_digits ! unat (drop_bit 4 b), hex_digits ! unat (b AND 15)]) d)"

section \<open>Block by block\<close>

text \<open>Bytes collect in a partial block, which is compressed when it reaches 64 bytes.\<close>

definition absorb1 :: "('h \<Rightarrow> byte list \<Rightarrow> 'h) \<Rightarrow> 'h \<times> byte list \<Rightarrow> byte \<Rightarrow> 'h \<times> byte list" where
  "absorb1 f s b =
     (let p = snd s @ [b] in if length p = 64 then (f (fst s) p, []) else (fst s, p))"

definition absorb :: "('h \<Rightarrow> byte list \<Rightarrow> 'h) \<Rightarrow> 'h \<times> byte list \<Rightarrow> byte list \<Rightarrow> 'h \<times> byte list" where
  "absorb f s bs = foldl (absorb1 f) s bs"

function blocks64 :: "byte list \<Rightarrow> byte list list" where
  "blocks64 bs = (if length bs < 64 then [] else take 64 bs # blocks64 (drop 64 bs))"
  by pat_completeness auto
termination
  by (relation "measure length") auto

declare blocks64.simps [simp del]

text \<open>The padding of FIPS 180-4 5.1.1: a one bit, zeros, and the length in bits.\<close>

definition sha_pad :: "byte list \<Rightarrow> byte list" where
  "sha_pad msg = msg @ [0x80] @ replicate ((119 - length msg mod 64) mod 64) 0
                 @ be_len (of_nat (length msg) * 8)"

definition md_hash :: "('h \<Rightarrow> byte list \<Rightarrow> 'h) \<Rightarrow> 'h \<Rightarrow> byte list \<Rightarrow> 'h" where
  "md_hash f iv msg = foldl f iv (blocks64 (sha_pad msg))"

section \<open>SHA-1\<close>

record sha1_ctx =
  s1_h :: "u32 list"
  s1_bytes :: u64
  s1_block :: "byte list"
  s1_used :: nat

definition rol32 :: "u32 \<Rightarrow> nat \<Rightarrow> u32" where
  "rol32 v n = push_bit n v OR drop_bit (32 - n) v"

definition sha1_schedule :: "byte list \<Rightarrow> u32 list" where
  "sha1_schedule block =
     foldl (\<lambda>w i. w @ [rol32 (w ! (i - 3) XOR w ! (i - 8) XOR w ! (i - 14) XOR w ! (i - 16)) 1])
       (map (\<lambda>i. be_word (drop (4 * i) block)) [0..<16]) [16..<80]"

definition sha1_round :: "u32 list \<Rightarrow> u32 \<times> u32 \<times> u32 \<times> u32 \<times> u32 \<Rightarrow> nat
    \<Rightarrow> u32 \<times> u32 \<times> u32 \<times> u32 \<times> u32" where
  "sha1_round w s i = (case s of (a, b, cc, d, e) \<Rightarrow>
     (let (f, k) = (if i < 20 then ((b AND cc) OR (NOT b AND d), 0x5a827999)
                    else if i < 40 then (b XOR cc XOR d, 0x6ed9eba1)
                    else if i < 60 then ((b AND cc) OR (b AND d) OR (cc AND d), 0x8f1bbcdc)
                    else (b XOR cc XOR d, 0xca62c1d6));
          tmp = rol32 a 5 + f + e + k + w ! i
      in (tmp, a, rol32 b 30, cc, d)))"

definition sha1_transform :: "u32 list \<Rightarrow> byte list \<Rightarrow> u32 list" where
  "sha1_transform h block =
     (let w = sha1_schedule block in
      case foldl (sha1_round w) (h ! 0, h ! 1, h ! 2, h ! 3, h ! 4) [0..<80] of
        (a, b, cc, d, e) \<Rightarrow> [h ! 0 + a, h ! 1 + b, h ! 2 + cc, h ! 3 + d, h ! 4 + e])"

definition sha1_iv :: "u32 list" where
  "sha1_iv = [0x67452301, 0xefcdab89, 0x98badcfe, 0x10325476, 0xc3d2e1f0]"

text \<open>\<^verbatim>\<open>sha1_init\<close> leaves the block as it finds it on the stack.\<close>

definition sha1_init :: "byte list \<Rightarrow> sha1_ctx" where
  "sha1_init junk = \<lparr>s1_h = sha1_iv, s1_bytes = 0, s1_block = junk, s1_used = 0\<rparr>"

definition sha1_update_step :: "sha1_ctx \<times> byte list \<Rightarrow> sha1_ctx \<times> byte list" where
  "sha1_update_step s = (case s of (c, p) \<Rightarrow>
     (let n = min (64 - s1_used c) (length p);
          block = store_at (s1_used c) (take n p) (s1_block c);
          used = s1_used c + n
      in (if used = 64
          then c\<lparr>s1_h := sha1_transform (s1_h c) block, s1_block := block, s1_used := 0\<rparr>
          else c\<lparr>s1_block := block, s1_used := used\<rparr>,
          drop n p)))"

definition sha1_update :: "sha1_ctx \<Rightarrow> byte list \<Rightarrow> sha1_ctx" where
  "sha1_update c p =
     fst (while (\<lambda>s. snd s \<noteq> []) sha1_update_step
            (c\<lparr>s1_bytes := s1_bytes c + of_nat (length p)\<rparr>, p))"

definition sha1_final :: "sha1_ctx \<Rightarrow> byte list" where
  "sha1_final c =
     (let bits = s1_bytes c * 8;
          c1 = sha1_update c [0x80];
          c2 = while (\<lambda>c. s1_used c \<noteq> 56) (\<lambda>c. sha1_update c [0]) c1;
          c3 = sha1_update c2 (be_len bits)
      in concat (map (\<lambda>i. be_bytes (s1_h c3 ! i)) [0..<5]))"

definition hex20 :: "byte list \<Rightarrow> string" where
  "hex20 d = hex_bytes (take 20 d)"

definition ds4_kvstore_sha1_bytes_hex :: "byte list \<Rightarrow> string" where
  "ds4_kvstore_sha1_bytes_hex p = hex20 (sha1_final (sha1_update (sha1_init (replicate 64 0)) p))"

section \<open>SHA-256\<close>

record ds4_sha256_ctx =
  s2_h :: "u32 list"
  s2_block :: "byte list"
  s2_bit_len :: u64
  s2_block_len :: nat

definition ds4_sha256_rotr :: "u32 \<Rightarrow> nat \<Rightarrow> u32" where
  "ds4_sha256_rotr x n = drop_bit n x OR push_bit (32 - n) x"

definition ds4_sha256_k :: "u32 list" where
  "ds4_sha256_k =
     [0x428a2f98, 0x71374491, 0xb5c0fbcf, 0xe9b5dba5, 0x3956c25b, 0x59f111f1, 0x923f82a4, 0xab1c5ed5] @
     [0xd807aa98, 0x12835b01, 0x243185be, 0x550c7dc3, 0x72be5d74, 0x80deb1fe, 0x9bdc06a7, 0xc19bf174] @
     [0xe49b69c1, 0xefbe4786, 0x0fc19dc6, 0x240ca1cc, 0x2de92c6f, 0x4a7484aa, 0x5cb0a9dc, 0x76f988da] @
     [0x983e5152, 0xa831c66d, 0xb00327c8, 0xbf597fc7, 0xc6e00bf3, 0xd5a79147, 0x06ca6351, 0x14292967] @
     [0x27b70a85, 0x2e1b2138, 0x4d2c6dfc, 0x53380d13, 0x650a7354, 0x766a0abb, 0x81c2c92e, 0x92722c85] @
     [0xa2bfe8a1, 0xa81a664b, 0xc24b8b70, 0xc76c51a3, 0xd192e819, 0xd6990624, 0xf40e3585, 0x106aa070] @
     [0x19a4c116, 0x1e376c08, 0x2748774c, 0x34b0bcb5, 0x391c0cb3, 0x4ed8aa4a, 0x5b9cca4f, 0x682e6ff3] @
     [0x748f82ee, 0x78a5636f, 0x84c87814, 0x8cc70208, 0x90befffa, 0xa4506ceb, 0xbef9a3f7, 0xc67178f2]"

definition sha256_schedule :: "byte list \<Rightarrow> u32 list" where
  "sha256_schedule block =
     foldl (\<lambda>w i.
         let s0 = ds4_sha256_rotr (w ! (i - 15)) 7 XOR ds4_sha256_rotr (w ! (i - 15)) 18
                  XOR drop_bit 3 (w ! (i - 15));
             s1 = ds4_sha256_rotr (w ! (i - 2)) 17 XOR ds4_sha256_rotr (w ! (i - 2)) 19
                  XOR drop_bit 10 (w ! (i - 2))
         in w @ [w ! (i - 16) + s0 + w ! (i - 7) + s1])
       (map (\<lambda>i. be_word (drop (4 * i) block)) [0..<16]) [16..<64]"

definition sha256_round :: "u32 list \<Rightarrow> u32 \<times> u32 \<times> u32 \<times> u32 \<times> u32 \<times> u32 \<times> u32 \<times> u32 \<Rightarrow> nat
    \<Rightarrow> u32 \<times> u32 \<times> u32 \<times> u32 \<times> u32 \<times> u32 \<times> u32 \<times> u32" where
  "sha256_round w s i = (case s of (a, b, c, d, e, f, g, h) \<Rightarrow>
     (let s1 = ds4_sha256_rotr e 6 XOR ds4_sha256_rotr e 11 XOR ds4_sha256_rotr e 25;
          ch = (e AND f) XOR (NOT e AND g);
          temp1 = h + s1 + ch + ds4_sha256_k ! i + w ! i;
          s0 = ds4_sha256_rotr a 2 XOR ds4_sha256_rotr a 13 XOR ds4_sha256_rotr a 22;
          maj = (a AND b) XOR (a AND c) XOR (b AND c);
          temp2 = s0 + maj
      in (temp1 + temp2, a, b, c, d + temp1, e, f, g)))"

definition ds4_sha256_transform :: "u32 list \<Rightarrow> byte list \<Rightarrow> u32 list" where
  "ds4_sha256_transform h block =
     (let w = sha256_schedule block in
      case foldl (sha256_round w) (h ! 0, h ! 1, h ! 2, h ! 3, h ! 4, h ! 5, h ! 6, h ! 7) [0..<64] of
        (a, b, c, d, e, f, g, k) \<Rightarrow>
          [h ! 0 + a, h ! 1 + b, h ! 2 + c, h ! 3 + d, h ! 4 + e, h ! 5 + f, h ! 6 + g, h ! 7 + k])"

definition sha256_iv :: "u32 list" where
  "sha256_iv = [0x6a09e667, 0xbb67ae85, 0x3c6ef372, 0xa54ff53a,
                0x510e527f, 0x9b05688c, 0x1f83d9ab, 0x5be0cd19]"

definition ds4_sha256_init :: "byte list \<Rightarrow> ds4_sha256_ctx" where
  "ds4_sha256_init junk = \<lparr>s2_h = sha256_iv, s2_block = junk, s2_bit_len = 0, s2_block_len = 0\<rparr>"

definition sha256_update_byte :: "ds4_sha256_ctx \<Rightarrow> byte \<Rightarrow> ds4_sha256_ctx" where
  "sha256_update_byte c b =
     (let block = (s2_block c)[s2_block_len c := b]; n = s2_block_len c + 1 in
      if n = 64
      then c\<lparr>s2_h := ds4_sha256_transform (s2_h c) block, s2_block := block,
             s2_bit_len := s2_bit_len c + 512, s2_block_len := 0\<rparr>
      else c\<lparr>s2_block := block, s2_block_len := n\<rparr>)"

definition ds4_sha256_update :: "ds4_sha256_ctx \<Rightarrow> byte list \<Rightarrow> ds4_sha256_ctx" where
  "ds4_sha256_update c data = foldl sha256_update_byte c data"

definition ds4_sha256_final :: "ds4_sha256_ctx \<Rightarrow> byte list" where
  "ds4_sha256_final c =
     (let blk = (s2_block c)[s2_block_len c := 0x80];
          i = s2_block_len c + 1;
          (h1, blk1, i1) =
            (if 56 < i
             then let full = store_at i (replicate (64 - i) 0) blk
                  in (ds4_sha256_transform (s2_h c) full, full, 0)
             else (s2_h c, blk, i));
          blk2 = store_at i1 (replicate (56 - i1) 0) blk1;
          bits = s2_bit_len c + of_nat (s2_block_len c) * 8;
          h2 = ds4_sha256_transform h1 (store_at 56 (be_len bits) blk2)
      in concat (map (\<lambda>i. be_bytes (h2 ! i)) [0..<8]))"

definition ds4_sha256_hex :: "byte list \<Rightarrow> string" where
  "ds4_sha256_hex data =
     hex_bytes (ds4_sha256_final (ds4_sha256_update (ds4_sha256_init (replicate 64 0)) data))"

section \<open>Absorbing bytes\<close>

lemma absorb_Nil [simp]: "absorb f s [] = s"
  by (simp add: absorb_def)

lemma absorb_Cons [simp]: "absorb f s (b # bs) = absorb f (absorb1 f s b) bs"
  by (simp add: absorb_def)

lemma absorb_append [simp]: "absorb f s (xs @ ys) = absorb f (absorb f s xs) ys"
  by (simp add: absorb_def)

lemma absorb_short: "length p + length xs < 64 \<Longrightarrow> absorb f (h, p) xs = (h, p @ xs)"
  by (induction xs arbitrary: p) (simp_all add: absorb1_def Let_def)

lemma absorb_fill:
  assumes "length p + length xs = 64" "length p < 64"
  shows "absorb f (h, p) xs = (f h (p @ xs), [])"
proof -
  obtain ys y where xs: "xs = ys @ [y]"
    using assms by (cases xs rule: rev_exhaust) auto
  have "absorb f (h, p) ys = (h, p @ ys)"
    using assms xs by (intro absorb_short) simp
  then show ?thesis using assms by (simp add: xs absorb1_def)
qed

lemma absorb_blocks:
  "64 dvd length bs \<Longrightarrow> absorb f (h, []) bs = (foldl f h (blocks64 bs), [])"
proof (induction bs arbitrary: h rule: blocks64.induct)
  case (1 bs)
  show ?case
  proof (cases "length bs < 64")
    case True
    with 1 have "bs = []" by (auto simp: dvd_def)
    then show ?thesis by (simp add: blocks64.simps)
  next
    case False
    have "absorb f (h, []) (take 64 bs @ drop 64 bs) = absorb f (f h (take 64 bs), []) (drop 64 bs)"
      using False absorb_fill [of "[]" "take 64 bs" f h] by (simp del: append_take_drop_id)
    moreover have "64 dvd length (drop 64 bs)" using 1(2) False by (simp add: dvd_minus_self)
    ultimately show ?thesis using 1 False by (simp add: blocks64.simps [of bs])
  qed
qed

lemma length_be_len [simp]: "length (be_len n) = 8"
  by (simp add: be_len_def)

lemma length_sha_pad: "64 dvd length (sha_pad msg)"
proof -
  define m where "m = length msg mod 64"
  have m: "m < 64" by (simp add: m_def)
  have "m + 1 + (119 - m) mod 64 + 8 = (if m < 56 then 64 else 128)"
  proof (cases "m < 56")
    case True
    then have "119 - m = 64 + (55 - m)" by simp
    then have "(119 - m) mod 64 = 55 - m" by (simp only: mod_add_self1) simp
    with True show ?thesis by simp
  qed (use m in simp)
  then have "64 dvd m + 1 + (119 - m) mod 64 + 8" by (simp split: if_splits)
  moreover have "length (sha_pad msg) = 64 * (length msg div 64) + (m + 1 + (119 - m) mod 64 + 8)"
    by (simp add: sha_pad_def m_def)
  ultimately show ?thesis by (simp only: dvd_add_right_iff dvd_triv_left)
qed

lemma absorb_sha_pad: "absorb f (h, []) (sha_pad msg) = (md_hash f h msg, [])"
  by (simp add: md_hash_def absorb_blocks [OF length_sha_pad])

lemma absorb_pending: "length (snd s) < 64 \<Longrightarrow> length (snd (absorb f s xs)) < 64
    \<and> length (snd (absorb f s xs)) = (length (snd s) + length xs) mod 64"
proof (induction xs arbitrary: s)
  case Nil
  then show ?case by simp
next
  case (Cons b bs)
  have "length (snd (absorb1 f s b)) < 64
      \<and> length (snd (absorb1 f s b)) = (length (snd s) + 1) mod 64"
    using Cons.prems by (auto simp: absorb1_def Let_def)
  with Cons.IH [of "absorb1 f s b"] show ?case by (simp add: mod_simps)
qed

section \<open>The contract of a streaming hash\<close>

locale stream_hash =
  fixes update :: "'c \<Rightarrow> byte list \<Rightarrow> 'c"
    and init :: 'c
    and st :: "'c \<Rightarrow> 'h \<times> byte list"
    and ok :: "'c \<Rightarrow> nat \<Rightarrow> bool"
    and f :: "'h \<Rightarrow> byte list \<Rightarrow> 'h"
    and iv :: 'h
  assumes init_st: "st init = (iv, [])"
    and init_ok: "ok init 0"
    and update_st: "ok c n \<Longrightarrow> st (update c p) = absorb f (st c) p"
    and update_ok: "ok c n \<Longrightarrow> ok (update c p) (n + length p)"
begin

text \<open>Feeding a message in pieces or at once is the same.\<close>

lemma update_append: "ok c n \<Longrightarrow> st (update (update c p) q) = st (update c (p @ q))"
  using update_st [of c n] update_st [OF update_ok, of c n p q] by simp

lemma update_concat:
  "ok c n \<Longrightarrow> st (foldl update c ps) = st (update c (concat ps)) \<and> ok (foldl update c ps) (n + length (concat ps))"
proof (induction ps arbitrary: c n)
  case Nil
  have "ok (update c []) n" using update_ok [OF Nil, of "[]"] by simp
  then show ?case using update_st [OF Nil, of "[]"] Nil by simp
next
  case (Cons p ps)
  from Cons.IH [OF update_ok [OF Cons.prems, of p]] show ?case
    using update_append [OF Cons.prems, of p "concat ps"] by (simp add: add.assoc)
qed

lemma update_init_st: "st (update init p) = absorb f (iv, []) p"
  using update_st [OF init_ok] init_st by simp

end

section \<open>SHA-1 is a streaming hash\<close>

definition sha1_st :: "sha1_ctx \<Rightarrow> u32 list \<times> byte list" where
  "sha1_st c = (s1_h c, take (s1_used c) (s1_block c))"

definition sha1_ok :: "sha1_ctx \<Rightarrow> nat \<Rightarrow> bool" where
  "sha1_ok c n \<longleftrightarrow> length (s1_block c) = 64 \<and> s1_used c < 64 \<and> s1_used c = n mod 64
                   \<and> s1_bytes c = of_nat n"

lemma sha1_update_step_ok:
  assumes "length (s1_block c) = 64" "s1_used c < 64" "p \<noteq> []"
    and "sha1_update_step (c, p) = (c', p')"
  shows "length (s1_block c') = 64 \<and> s1_used c' < 64 \<and> s1_bytes c' = s1_bytes c
     \<and> absorb sha1_transform (sha1_st c') p' = absorb sha1_transform (sha1_st c) p
     \<and> length p' < length p \<and> (p' = [] \<or> s1_used c' = 0)"
proof -
  define n where "n = min (64 - s1_used c) (length p)"
  define block where "block = store_at (s1_used c) (take n p) (s1_block c)"
  have n: "n \<le> length p" "s1_used c + n \<le> 64" "0 < n" using assms by (auto simp: n_def)
  have blk: "length block = 64" "take (s1_used c + n) block = take (s1_used c) (s1_block c) @ take n p"
    using n assms(1) take_store_at [of "s1_used c" "take n p" "s1_block c"] by (simp_all add: block_def)
  have step: "p' = drop n p" "c' = (if s1_used c + n = 64
       then c\<lparr>s1_h := sha1_transform (s1_h c) block, s1_block := block, s1_used := 0\<rparr>
       else c\<lparr>s1_block := block, s1_used := s1_used c + n\<rparr>)"
    using assms(4)
    unfolding sha1_update_step_def Let_def prod.case n_def [symmetric] block_def [symmetric]
    by simp_all
  have "absorb sha1_transform (sha1_st c) (take n p @ drop n p)
      = absorb sha1_transform (sha1_st c') (drop n p)"
  proof (cases "s1_used c + n = 64")
    case True
    then show ?thesis
      using absorb_fill [of "take (s1_used c) (s1_block c)" "take n p" sha1_transform "s1_h c"]
        assms(1,2) n blk step by (simp add: sha1_st_def del: append_take_drop_id)
  next
    case False
    then show ?thesis
      using absorb_short [of "take (s1_used c) (s1_block c)" "take n p" sha1_transform "s1_h c"]
        assms(1,2) n blk step by (simp add: sha1_st_def del: append_take_drop_id)
  qed
  moreover have "drop n p = [] \<or> s1_used c' = 0"
    using step assms(2) by (auto simp: n_def min_def split: if_splits)
  ultimately show ?thesis using n blk assms step by auto
qed

lemma sha1_loop_ok:
  assumes "length (s1_block c) = 64" "s1_used c < 64"
  shows "\<exists>c'. fst (while (\<lambda>s. snd s \<noteq> []) sha1_update_step (c, p)) = c'
     \<and> length (s1_block c') = 64 \<and> s1_used c' < 64 \<and> s1_bytes c' = s1_bytes c
     \<and> sha1_st c' = absorb sha1_transform (sha1_st c) p"
  using assms
proof (induction "length p" arbitrary: c p rule: less_induct)
  case less
  show ?case
  proof (cases "p = []")
    case True
    with less.prems show ?thesis by (simp add: while_unfold)
  next
    case False
    obtain c1 p1 where s: "sha1_update_step (c, p) = (c1, p1)" by fastforce
    note f = sha1_update_step_ok [OF less.prems False s]
    have "while (\<lambda>s. snd s \<noteq> []) sha1_update_step (c, p) =
          while (\<lambda>s. snd s \<noteq> []) sha1_update_step (c1, p1)"
      using False s by (subst while_unfold) simp
    with less.hyps [of p1 c1] f show ?thesis by auto
  qed
qed

lemma sha1_update_ok:
  assumes "sha1_ok c n"
  shows "sha1_ok (sha1_update c p) (n + length p)
     \<and> sha1_st (sha1_update c p) = absorb sha1_transform (sha1_st c) p"
proof -
  let ?c = "c\<lparr>s1_bytes := s1_bytes c + of_nat (length p)\<rparr>"
  from assms have c: "length (s1_block ?c) = 64" "s1_used ?c < 64" by (simp_all add: sha1_ok_def)
  have st: "sha1_st ?c = sha1_st c" by (simp add: sha1_st_def)
  from sha1_loop_ok [OF c, of p] have r: "length (s1_block (sha1_update c p)) = 64"
      "s1_used (sha1_update c p) < 64" "s1_bytes (sha1_update c p) = s1_bytes c + of_nat (length p)"
      "sha1_st (sha1_update c p) = absorb sha1_transform (sha1_st c) p"
    by (auto simp: sha1_update_def st)
  have "s1_used (sha1_update c p) = length (snd (sha1_st (sha1_update c p)))"
    using r(1,2) by (simp add: sha1_st_def)
  also have "\<dots> = (length (snd (sha1_st c)) + length p) mod 64"
    unfolding r(4) using assms by (subst absorb_pending [THEN conjunct2]) (simp_all add: sha1_st_def sha1_ok_def)
  also have "\<dots> = (n + length p) mod 64"
    using assms by (simp add: sha1_st_def sha1_ok_def mod_simps)
  finally show ?thesis using r assms by (simp add: sha1_ok_def)
qed

interpretation sha1: stream_hash sha1_update "sha1_init (replicate 64 0)" sha1_st sha1_ok
  sha1_transform sha1_iv
proof unfold_locales
  show "sha1_st (sha1_init (replicate 64 0)) = (sha1_iv, [])"
    and "sha1_ok (sha1_init (replicate 64 0)) 0"
    by (simp_all add: sha1_st_def sha1_ok_def sha1_init_def)
qed (simp_all add: sha1_update_ok)

text \<open>The zero-padding loop of \<^verbatim>\<open>sha1_final\<close> ends with eight bytes of the block left.\<close>

lemma sha1_pad_loop:
  assumes "sha1_ok c n"
  defines "k \<equiv> (120 - n mod 64) mod 64"
  shows "\<exists>c'. while (\<lambda>c. s1_used c \<noteq> 56) (\<lambda>c. sha1_update c [0]) c = c' \<and> sha1_ok c' (n + k)
      \<and> sha1_st c' = absorb sha1_transform (sha1_st c) (replicate k 0)"
  using assms(1) unfolding k_def
proof (induction "(120 - n mod 64) mod 64" arbitrary: c n rule: less_induct)
  case less
  let ?k = "\<lambda>n. (120 - n mod 64) mod 64 :: nat"
  have u: "s1_used c = n mod 64" using less.prems by (simp add: sha1_ok_def)
  show ?case
  proof (cases "s1_used c = 56")
    case True
    with u have "?k n = 0" by simp
    then show ?thesis using True less.prems by (simp add: while_unfold)
  next
    case False
    have step: "?k n = Suc (?k (n + 1))"
    proof (cases "n mod 64 < 56")
      case True
      then have "120 - n mod 64 = 64 + (56 - n mod 64)" "120 - (n + 1) mod 64 = 64 + (55 - n mod 64)"
        by (simp_all add: mod_Suc)
      moreover have "(56 - n mod 64) mod 64 = 56 - n mod 64" "(55 - n mod 64) mod 64 = 55 - n mod 64"
        by (rule mod_less, simp)+
      ultimately have "?k n = 56 - n mod 64" "?k (n + 1) = 55 - n mod 64"
        by (simp_all only: mod_add_self1)
      moreover have "Suc (55 - m) = 56 - m" if "m < 56" for m :: nat using that by simp
      ultimately show ?thesis using True by metis
    next
      case ge: False
      with False u have g: "56 < n mod 64" "n mod 64 < 64" by auto
      then show ?thesis by (auto simp: mod_Suc)
    qed
    have upd: "sha1_ok (sha1_update c [0]) (n + 1)"
        "sha1_st (sha1_update c [0]) = absorb sha1_transform (sha1_st c) [0]"
      using sha1_update_ok [OF less.prems, of "[0]"] by simp_all
    have "while (\<lambda>c. s1_used c \<noteq> 56) (\<lambda>c. sha1_update c [0]) c =
          while (\<lambda>c. s1_used c \<noteq> 56) (\<lambda>c. sha1_update c [0]) (sha1_update c [0])"
      using False by (subst while_unfold) simp
    with less.hyps [of "n + 1", OF _ upd(1)] step upd(2) show ?thesis by auto
  qed
qed

lemma sha1_final_absorb:
  assumes "sha1_ok c n"
  shows "sha1_final c = concat (map (\<lambda>i. be_bytes (fst (absorb sha1_transform (sha1_st c)
     ([0x80] @ replicate ((119 - n mod 64) mod 64) 0 @ be_len (of_nat n * 8))) ! i)) [0..<5])"
proof -
  let ?c1 = "sha1_update c [0x80]"
  have c1: "sha1_ok ?c1 (n + 1)" "sha1_st ?c1 = absorb sha1_transform (sha1_st c) [0x80]"
    using sha1_update_ok [OF assms, of "[0x80]"] by simp_all
  have k: "(120 - (n + 1) mod 64) mod 64 = (119 - n mod 64) mod 64"
    by (auto simp: mod_Suc)
  obtain c2 where c2: "while (\<lambda>c. s1_used c \<noteq> 56) (\<lambda>c. sha1_update c [0]) ?c1 = c2"
     "sha1_ok c2 (n + 1 + (119 - n mod 64) mod 64)"
     "sha1_st c2 = absorb sha1_transform (sha1_st ?c1) (replicate ((119 - n mod 64) mod 64) 0)"
    using sha1_pad_loop [OF c1(1)] unfolding k by auto
  have bits: "s1_bytes c * 8 = of_nat n * 8" using assms by (simp add: sha1_ok_def)
  let ?c3 = "sha1_update c2 (be_len (of_nat n * 8))"
  have "sha1_st ?c3 = absorb sha1_transform (sha1_st c2) (be_len (of_nat n * 8))"
    using sha1_update_ok [OF c2(2)] by simp
  then have c3: "sha1_st ?c3 = absorb sha1_transform (sha1_st c)
     ([0x80] @ replicate ((119 - n mod 64) mod 64) 0 @ be_len (of_nat n * 8))"
    using c1(2) c2(3) by simp
  have "s1_h ?c3 = fst (sha1_st ?c3)" by (simp add: sha1_st_def)
  then show ?thesis unfolding c3 [symmetric] by (simp add: sha1_final_def Let_def c2(1) bits)
qed

section \<open>SHA-256 is a streaming hash\<close>

definition sha256_st :: "ds4_sha256_ctx \<Rightarrow> u32 list \<times> byte list" where
  "sha256_st c = (s2_h c, take (s2_block_len c) (s2_block c))"

definition sha256_ok :: "ds4_sha256_ctx \<Rightarrow> nat \<Rightarrow> bool" where
  "sha256_ok c n \<longleftrightarrow> length (s2_block c) = 64 \<and> s2_block_len c < 64 \<and> s2_block_len c = n mod 64
                     \<and> s2_bit_len c = of_nat (512 * (n div 64))"

lemma sha256_update_byte_ok:
  assumes "sha256_ok c n"
  shows "sha256_ok (sha256_update_byte c b) (Suc n)
     \<and> sha256_st (sha256_update_byte c b) = absorb1 ds4_sha256_transform (sha256_st c) b"
proof -
  let ?k = "s2_block_len c"
  have k: "length (s2_block c) = 64" "?k < 64" "?k = n mod 64" using assms by (simp_all add: sha256_ok_def)
  have tk: "take (Suc ?k) ((s2_block c)[?k := b]) = take ?k (s2_block c) @ [b]"
    using k by (simp add: take_Suc_conv_app_nth)
  show ?thesis
  proof (cases "?k = 63")
    case True
    then have d: "Suc n div 64 = Suc (n div 64)" "Suc n mod 64 = 0"
      using k(3) by (simp_all add: div_Suc mod_Suc)
    have full: "(s2_block c)[?k := b] = take ?k (s2_block c) @ [b]"
      using tk True k(1) by simp
    show ?thesis using True assms k d full
      by (simp add: sha256_update_byte_def sha256_ok_def sha256_st_def absorb1_def Let_def)
  next
    case False
    then have "Suc n div 64 = n div 64" "Suc n mod 64 = Suc (n mod 64)"
      using k by (simp_all add: div_Suc mod_Suc)
    then show ?thesis using False assms k tk
      by (simp add: sha256_update_byte_def sha256_ok_def sha256_st_def absorb1_def)
  qed
qed

lemma sha256_update_ok:
  "sha256_ok c n \<Longrightarrow> sha256_ok (ds4_sha256_update c p) (n + length p)
     \<and> sha256_st (ds4_sha256_update c p) = absorb ds4_sha256_transform (sha256_st c) p"
proof (induction p arbitrary: c n)
  case Nil
  then show ?case by (simp add: ds4_sha256_update_def)
next
  case (Cons b p)
  from Cons.IH [OF sha256_update_byte_ok [OF Cons.prems, THEN conjunct1], of b]
    sha256_update_byte_ok [OF Cons.prems, of b]
  show ?case by (simp add: ds4_sha256_update_def)
qed

interpretation sha256: stream_hash ds4_sha256_update "ds4_sha256_init (replicate 64 0)" sha256_st
  sha256_ok ds4_sha256_transform sha256_iv
proof unfold_locales
  show "sha256_st (ds4_sha256_init (replicate 64 0)) = (sha256_iv, [])"
    and "sha256_ok (ds4_sha256_init (replicate 64 0)) 0"
    by (simp_all add: sha256_st_def sha256_ok_def ds4_sha256_init_def)
qed (simp_all add: sha256_update_ok)

text \<open>The in-place padding of \<^verbatim>\<open>ds4_sha256_final\<close>, with one or two compressions.\<close>

lemma sha256_final_absorb:
  assumes "sha256_ok c n"
  shows "ds4_sha256_final c = concat (map (\<lambda>i. be_bytes (fst (absorb ds4_sha256_transform (sha256_st c)
     ([0x80] @ replicate ((119 - n mod 64) mod 64) 0 @ be_len (of_nat n * 8))) ! i)) [0..<8])"
proof -
  let ?f = ds4_sha256_transform and ?k = "s2_block_len c"
  let ?p = "take ?k (s2_block c)"
  have k: "length (s2_block c) = 64" "?k < 64" "?k = n mod 64"
    and bl: "s2_bit_len c = of_nat (512 * (n div 64))" using assms by (simp_all add: sha256_ok_def)
  have "n = 64 * (n div 64) + ?k" using k(3) by simp
  then have "(of_nat n :: u64) = of_nat (64 * (n div 64) + ?k)" by simp
  then have bits: "s2_bit_len c + of_nat ?k * 8 = of_nat n * 8"
    using bl by (simp add: algebra_simps)
  let ?blk = "(s2_block c)[?k := 0x80]"
  have tblk: "take (Suc ?k) ?blk = ?p @ [0x80]"
    using k by (simp add: take_Suc_conv_app_nth)
  show ?thesis
  proof (cases "?k < 56")
    case True
    have "119 - ?k = 64 + (55 - ?k)" using True by simp
    then have z: "(119 - ?k) mod 64 = 55 - ?k" by (simp only: mod_add_self1) simp
    have full: "store_at 56 (be_len (of_nat n * 8)) (store_at (Suc ?k) (replicate (55 - ?k) 0) ?blk)
      = ?p @ [0x80] @ replicate (55 - ?k) 0 @ be_len (of_nat n * 8)"
      using True k tblk by (simp add: store_at_def take_Cons')
    have "absorb ?f (s2_h c, ?p) ([0x80] @ replicate (55 - ?k) 0 @ be_len (of_nat n * 8))
      = (?f (s2_h c) (?p @ [0x80] @ replicate (55 - ?k) 0 @ be_len (of_nat n * 8)), [])"
      using True k by (intro absorb_fill) auto
    then show ?thesis
      using True full bits z k(3)
      by (simp add: ds4_sha256_final_def Let_def sha256_st_def del: absorb_append absorb_Cons)
  next
    case False
    have z: "(119 - ?k) mod 64 = 119 - ?k" using False k(2) by simp
    let ?full = "?p @ [0x80] @ replicate (63 - ?k) 0"
    have f1: "store_at (Suc ?k) (replicate (63 - ?k) 0) ?blk = ?full"
      using k tblk by (simp add: store_at_def)
    have f2: "store_at 56 (be_len (of_nat n * 8)) (store_at 0 (replicate 56 0) ?full)
      = replicate 56 0 @ be_len (of_nat n * 8)"
      using False k by (simp add: store_at_def)
    have sp: "replicate (119 - ?k) (0 :: byte) = replicate (63 - ?k) 0 @ replicate 56 0"
      using k(2) by (simp flip: replicate_add)
    have "absorb ?f (s2_h c, ?p) ([0x80] @ replicate (63 - ?k) 0) = (?f (s2_h c) ?full, [])"
      using k by (intro absorb_fill) auto
    moreover have "absorb ?f (?f (s2_h c) ?full, []) (replicate 56 0 @ be_len (of_nat n * 8))
      = (?f (?f (s2_h c) ?full) (replicate 56 0 @ be_len (of_nat n * 8)), [])"
      by (subst absorb_fill) simp_all
    ultimately have "absorb ?f (s2_h c, ?p) (([0x80] @ replicate (63 - ?k) 0)
        @ (replicate 56 0 @ be_len (of_nat n * 8)))
      = (?f (?f (s2_h c) ?full) (replicate 56 0 @ be_len (of_nat n * 8)), [])"
      by (simp only: absorb_append)
    then show ?thesis
      using False f1 f2 bits z k(3) sp
      by (simp add: ds4_sha256_final_def Let_def sha256_st_def del: absorb_append absorb_Cons)
  qed
qed

section \<open>The digests are those of the padded message\<close>

lemma length_foldl_const: "(\<And>h b. length (f h b) = k) \<Longrightarrow> length h = k \<Longrightarrow> length (foldl f h bs) = k"
  by (induction bs arbitrary: h) simp_all

lemma length_sha1_transform [simp]: "length (sha1_transform h b) = 5"
  by (simp add: sha1_transform_def Let_def split: prod.splits)

lemma length_sha256_transform [simp]: "length (ds4_sha256_transform h b) = 8"
  by (simp add: ds4_sha256_transform_def Let_def split: prod.splits)

lemma length_md_sha1 [simp]: "length (md_hash sha1_transform sha1_iv p) = 5"
  by (simp add: md_hash_def length_foldl_const sha1_iv_def)

lemma length_md_sha256 [simp]: "length (md_hash ds4_sha256_transform sha256_iv p) = 8"
  by (simp add: md_hash_def length_foldl_const sha256_iv_def)

lemma map_nth_be_bytes: "length h = k \<Longrightarrow> map (\<lambda>i. be_bytes (h ! i)) [0..<k] = map be_bytes h"
  by (rule nth_equalityI) simp_all

lemma sha1_digest:
  "sha1_final (sha1_update (sha1_init (replicate 64 0)) p)
     = concat (map be_bytes (md_hash sha1_transform sha1_iv p))"
proof -
  have ok: "sha1_ok (sha1_update (sha1_init (replicate 64 0)) p) (length p)"
    using sha1.update_ok [OF sha1.init_ok, of p] by simp
  have "absorb sha1_transform (sha1_st (sha1_update (sha1_init (replicate 64 0)) p))
     ([0x80] @ replicate ((119 - length p mod 64) mod 64) 0 @ be_len (of_nat (length p) * 8))
     = (md_hash sha1_transform sha1_iv p, [])"
    unfolding sha1.update_init_st by (simp only: absorb_append [symmetric] absorb_sha_pad [symmetric] sha_pad_def)
  then show ?thesis
    using sha1_final_absorb [OF ok] by (simp add: map_nth_be_bytes del: absorb_append absorb_Cons)
qed

lemma sha256_digest:
  "ds4_sha256_final (ds4_sha256_update (ds4_sha256_init (replicate 64 0)) p)
     = concat (map be_bytes (md_hash ds4_sha256_transform sha256_iv p))"
proof -
  have ok: "sha256_ok (ds4_sha256_update (ds4_sha256_init (replicate 64 0)) p) (length p)"
    using sha256.update_ok [OF sha256.init_ok, of p] by simp
  have "absorb ds4_sha256_transform (sha256_st (ds4_sha256_update (ds4_sha256_init (replicate 64 0)) p))
     ([0x80] @ replicate ((119 - length p mod 64) mod 64) 0 @ be_len (of_nat (length p) * 8))
     = (md_hash ds4_sha256_transform sha256_iv p, [])"
    unfolding sha256.update_init_st by (simp only: absorb_append [symmetric] absorb_sha_pad [symmetric] sha_pad_def)
  then show ?thesis
    using sha256_final_absorb [OF ok] by (simp add: map_nth_be_bytes del: absorb_append absorb_Cons)
qed

section \<open>Hexadecimal names\<close>

lemma length_concat_const: "\<forall>x \<in> set xs. length (f x) = k \<Longrightarrow> length (concat (map f xs)) = k * length xs"
  by (induction xs) simp_all

lemma length_hex_bytes [simp]: "length (hex_bytes d) = 2 * length d"
  by (simp add: hex_bytes_def length_concat_const)

lemma hex_digit_set: "n < 16 \<Longrightarrow> hex_digits ! n \<in> set hex_digits"
  by (rule nth_mem) (simp add: hex_digits_def)

lemma nibbles: "unat (drop_bit 4 (b :: byte)) < 16" "unat (b AND 15) < 16"
proof -
  have "unat b < 256" using unsigned_less [of b, where 'a = nat] by simp
  then show "unat (drop_bit 4 b) < 16" by (simp add: drop_bit_eq_div unat_div)
  have "b AND 15 = take_bit 4 b" by (simp add: take_bit_eq_mask mask_eq_exp_minus_1)
  then show "unat (b AND 15) < 16"
    using take_bit_nat_less_exp [of 4 "unat b"] by (simp add: unsigned_take_bit_eq)
qed

lemma hex_bytes_chars: "set (hex_bytes d) \<subseteq> set hex_digits"
  by (auto simp: hex_bytes_def intro: hex_digit_set nibbles)

lemma length_be_bytes [simp]: "length (be_bytes w) = 4"
  by (simp add: be_bytes_def)

lemma length_concat_be_bytes [simp]: "length (concat (map be_bytes ws)) = 4 * length ws"
  by (simp add: length_concat_const)

lemma sha1_hex_eq:
  "ds4_kvstore_sha1_bytes_hex p = hex_bytes (concat (map be_bytes (md_hash sha1_transform sha1_iv p)))"
  by (simp add: ds4_kvstore_sha1_bytes_hex_def hex20_def sha1_digest)

lemma sha256_hex_eq:
  "ds4_sha256_hex p = hex_bytes (concat (map be_bytes (md_hash ds4_sha256_transform sha256_iv p)))"
  by (simp add: ds4_sha256_hex_def sha256_digest)

lemma length_sha1_hex [simp]: "length (ds4_kvstore_sha1_bytes_hex p) = 40"
  by (simp add: sha1_hex_eq)

lemma length_sha256_hex [simp]: "length (ds4_sha256_hex p) = 64"
  by (simp add: sha256_hex_eq)

end
