(* ===== verification/KvFormat.thy ===== *)
theory KvFormat
  imports DynBuf Hash
begin

text \<open>
  The on-disk format of a KV checkpoint (\<^verbatim>\<open>ds4_kvstore.c\<close>): little-endian integers, the
  48-byte header and its four-byte text length, the validation of an entry file, and the
  names and paths of entry files. A file is the list of its bytes; \<^verbatim>\<open>read_header\<close> works on the
  bytes from the start of the file. The lemmas give the round trips of the integers and of the
  header, what a successful validation guarantees about the sizes recorded in the header, and
  the round trip between a hash and its file name.
\<close>

section \<open>Little-endian integers\<close>

definition ds4_kvstore_le_put32 :: "u32 \<Rightarrow> byte list" where
  "ds4_kvstore_le_put32 v = [ucast v, ucast (drop_bit 8 v), ucast (drop_bit 16 v), ucast (drop_bit 24 v)]"

definition kv_le_put64 :: "u64 \<Rightarrow> byte list" where
  "kv_le_put64 v = map (\<lambda>i. ucast (drop_bit (8 * i) v)) [0..<8]"

definition ds4_kvstore_le_get32 :: "byte list \<Rightarrow> u32" where
  "ds4_kvstore_le_get32 p =
     ucast (p ! 0) OR push_bit 8 (ucast (p ! 1)) OR push_bit 16 (ucast (p ! 2)) OR push_bit 24 (ucast (p ! 3))"

definition kv_le_get64 :: "byte list \<Rightarrow> u64" where
  "kv_le_get64 p = foldl (\<lambda>v i. push_bit 8 v OR ucast (p ! i)) 0 (rev [0..<8])"

section \<open>Entries and headers\<close>

record kv_entry =
  ke_sha :: string
  ke_path :: string
  ke_quant_bits :: byte
  ke_model_id :: byte
  ke_reason :: byte
  ke_tokens :: u32
  ke_hits :: u32
  ke_ctx_size :: u32
  ke_ext_flags :: byte
  ke_created_at :: u64
  ke_last_used :: u64
  ke_payload_bytes :: u64
  ke_text_bytes :: u64
  ke_file_size :: u64

definition DS4_KVSTORE_FIXED_HEADER :: nat where
  "DS4_KVSTORE_FIXED_HEADER = 48"

definition DS4_KVSTORE_REASON_CONTINUED :: byte where
  "DS4_KVSTORE_REASON_CONTINUED = 2"

definition DS4_KVSTORE_REASON_AGENT_SESSION :: byte where
  "DS4_KVSTORE_REASON_AGENT_SESSION = 6"

text \<open>The \<^verbatim>\<open>KV_CACHE_*\<close> constants: magic bytes, version and payload ABI.\<close>

definition kv_magic :: "byte list" where
  "kv_magic = [75, 86, 67, 1]"

definition KV_CACHE_PAYLOAD_ABI :: byte where
  "KV_CACHE_PAYLOAD_ABI = 2"

definition ds4_kvstore_reason_code :: "string option \<Rightarrow> byte" where
  "ds4_kvstore_reason_code reason =
     (case reason of None \<Rightarrow> 0
      | Some r \<Rightarrow>
        if r = ''cold'' then 1
        else if r = ''continued'' then DS4_KVSTORE_REASON_CONTINUED
        else if r = ''evict'' then 3
        else if r = ''shutdown'' then 4
        else if r = ''agent-system'' then 5
        else if r = ''agent-session'' then DS4_KVSTORE_REASON_AGENT_SESSION
        else 0)"

definition ds4_kvstore_key_kind :: "byte \<Rightarrow> string" where
  "ds4_kvstore_key_kind ext_flags =
     (if ext_flags AND 2 \<noteq> 0 then ''responses-visible''
      else if ext_flags AND 4 \<noteq> 0 then ''thinking-visible''
      else ''token-text'')"

definition ds4_kvstore_fill_header ::
  "byte \<Rightarrow> byte \<Rightarrow> byte \<Rightarrow> byte \<Rightarrow> u32 \<Rightarrow> u32 \<Rightarrow> u32 \<Rightarrow> u64 \<Rightarrow> u64 \<Rightarrow> u64 \<Rightarrow> byte list" where
  "ds4_kvstore_fill_header model_id quant_bits reason ext_flags tokens hits ctx_size
      created_at last_used payload_bytes =
     kv_magic @ [quant_bits, reason, ext_flags, model_id]
     @ ds4_kvstore_le_put32 tokens @ ds4_kvstore_le_put32 hits @ ds4_kvstore_le_put32 ctx_size
     @ [KV_CACHE_PAYLOAD_ABI, 0, 0, 0]
     @ kv_le_put64 created_at @ kv_le_put64 last_used @ kv_le_put64 payload_bytes"

text \<open>\<^verbatim>\<open>e\<close> is the zeroed entry of the callers; \<open>None\<close> is the return value \<^verbatim>\<open>false\<close>.\<close>

definition ds4_kvstore_read_header :: "byte list \<Rightarrow> (kv_entry \<times> u32) option" where
  "ds4_kvstore_read_header file =
     (let h = take 48 file; tb = take 4 (drop 48 file) in
      if length h \<noteq> 48 then None
      else if take 4 h \<noteq> kv_magic then None
      else if h ! 20 \<noteq> KV_CACHE_PAYLOAD_ABI then None
      else if length tb \<noteq> 4 then None
      else
        let text_bytes = ds4_kvstore_le_get32 tb;
            e = \<lparr>ke_sha = [], ke_path = [],
                 ke_quant_bits = h ! 4, ke_model_id = h ! 7,
                 ke_reason = (if h ! 5 \<le> DS4_KVSTORE_REASON_AGENT_SESSION then h ! 5 else 0),
                 ke_tokens = ds4_kvstore_le_get32 (drop 8 h),
                 ke_hits = ds4_kvstore_le_get32 (drop 12 h),
                 ke_ctx_size = ds4_kvstore_le_get32 (drop 16 h),
                 ke_ext_flags = h ! 6,
                 ke_created_at = kv_le_get64 (drop 24 h),
                 ke_last_used = kv_le_get64 (drop 32 h),
                 ke_payload_bytes = kv_le_get64 (drop 40 h),
                 ke_text_bytes = ucast text_bytes, ke_file_size = 0\<rparr>
        in if ke_tokens e \<noteq> 0 \<and> (ke_quant_bits e = 2 \<or> ke_quant_bits e = 4)
           then Some (e, text_bytes) else None)"

text \<open>The body of \<^verbatim>\<open>ds4_kvstore_read_entry_file\<close> on the contents of the file; that the file exists
  and can be opened is decided by the caller's file system.\<close>

definition read_entry_bytes :: "byte list \<Rightarrow> string \<Rightarrow> string \<Rightarrow> kv_entry option" where
  "read_entry_bytes file path sha =
     (if length file < DS4_KVSTORE_FIXED_HEADER + 4 then None
      else (case ds4_kvstore_read_header file of None \<Rightarrow> None
            | Some (e, text_bytes) \<Rightarrow>
              let fixed = (52 :: u64); st_size = (of_nat (length file) :: u64) in
              if UINT64_MAX - fixed < ucast text_bytes
                 \<or> UINT64_MAX - fixed - ucast text_bytes < ke_payload_bytes e then None
              else let expected = fixed + ucast text_bytes + ke_payload_bytes e in
                if st_size < expected then None
                else Some (e\<lparr>ke_sha := sha, ke_path := path, ke_file_size := st_size\<rparr>)))"

section \<open>Names and paths\<close>

definition ds4_kvstore_sha_hex_name :: "string \<Rightarrow> string option" where
  "ds4_kvstore_sha_hex_name name =
     (if length name \<noteq> 43 \<or> drop 40 name \<noteq> ''.kv'' then None
      else if \<not> list_all isxdigit (take 40 name) then None
      else Some (map tolower (take 40 name)))"

text \<open>\<^verbatim>\<open>ds4_kvstore_path_join\<close> builds the path in a \<^verbatim>\<open>DynBuf\<close>; \<open>path_join\<close> is the text it builds
  when the allocations succeed (the process exits when they do not).\<close>

definition ds4_kvstore_path_join :: "(size_t \<Rightarrow> bool) \<Rightarrow> string \<Rightarrow> string \<Rightarrow> buf_error + string" where
  "ds4_kvstore_path_join mok dir name =
     bind_res (dynbuf_puts mok dynbuf_empty dir) (\<lambda>b.
     bind_res (if db_len b = 0 \<or> the (db_ptr b) ! unat (db_len b - 1) \<noteq> Some CHR ''/''
               then dynbuf_putc mok b CHR ''/'' else Inr b) (\<lambda>b1.
     bind_res (dynbuf_puts mok b1 name) (\<lambda>b2. Inr (dynbuf_text b2))))"

definition path_join :: "string \<Rightarrow> string \<Rightarrow> string" where
  "path_join dir name = (if dir = [] \<or> last dir \<noteq> CHR ''/'' then dir @ ''/'' @ name else dir @ name)"

definition ds4_kvstore_path_for_sha :: "string \<Rightarrow> string \<Rightarrow> string" where
  "ds4_kvstore_path_for_sha dir sha = path_join dir (take 40 sha @ ''.kv'')"

section \<open>Integers: round trips\<close>

lemma length_le_put [simp]:
  "length (ds4_kvstore_le_put32 v) = 4" "length (kv_le_put64 w) = 8"
  by (simp_all add: ds4_kvstore_le_put32_def kv_le_put64_def)

lemma le_get32_put32: "ds4_kvstore_le_get32 (ds4_kvstore_le_put32 v @ rest) = v"
proof (rule bit_word_eqI)
  fix n
  assume "n < LENGTH(32)"
  then have n: "n < 32" by simp
  consider "n < 8" | "8 \<le> n \<and> n < 16" | "16 \<le> n \<and> n < 24" | "24 \<le> n \<and> n < 32" using n by linarith
  then show "bit (ds4_kvstore_le_get32 (ds4_kvstore_le_put32 v @ rest)) n = bit v n"
    using n
    by cases (auto simp: ds4_kvstore_le_get32_def ds4_kvstore_le_put32_def bit_simps)
qed

lemma le_get64_put64: "kv_le_get64 (kv_le_put64 v @ rest) = v"
proof (rule bit_word_eqI)
  fix n
  assume "n < LENGTH(64)"
  then have n: "n < 64" by simp
  have r: "rev [0..<8] = [7, 6, 5, 4, 3, 2, 1, 0 :: nat]" and u: "[0..<8] = [0, 1, 2, 3, 4, 5, 6, 7 :: nat]"
    by (simp_all add: upt_rec)
  consider "n < 8" | "8 \<le> n \<and> n < 16" | "16 \<le> n \<and> n < 24" | "24 \<le> n \<and> n < 32"
    | "32 \<le> n \<and> n < 40" | "40 \<le> n \<and> n < 48" | "48 \<le> n \<and> n < 56" | "56 \<le> n \<and> n < 64"
    using n by linarith
  then show "bit (kv_le_get64 (kv_le_put64 v @ rest)) n = bit v n"
    using n
    by cases (auto simp: kv_le_get64_def kv_le_put64_def r u bit_simps)
qed

section \<open>The header: round trip\<close>

lemma length_fill_header [simp]: "length (ds4_kvstore_fill_header m q r x t h c ca lu p) = 48"
  by (simp add: ds4_kvstore_fill_header_def kv_magic_def)

text \<open>A header followed by the length of the text is read back exactly, up to unknown reasons,
  and refused when the token count is zero or the quantisation is not 2 or 4 bits.\<close>

lemma read_fill_header:
  "ds4_kvstore_read_header (ds4_kvstore_fill_header m q r x t h c ca lu p @ ds4_kvstore_le_put32 tb @ rest) =
     (if t \<noteq> 0 \<and> (q = 2 \<or> q = 4)
      then Some (\<lparr>ke_sha = [], ke_path = [], ke_quant_bits = q, ke_model_id = m,
                  ke_reason = (if r \<le> 6 then r else 0), ke_tokens = t, ke_hits = h,
                  ke_ctx_size = c, ke_ext_flags = x, ke_created_at = ca, ke_last_used = lu,
                  ke_payload_bytes = p, ke_text_bytes = ucast tb, ke_file_size = 0\<rparr>, tb)
      else None)"
proof -
  let ?H = "ds4_kvstore_fill_header m q r x t h c ca lu p"
  have d8: "drop 8 ?H = ds4_kvstore_le_put32 t @ drop 12 ?H"
    and d12: "drop 12 ?H = ds4_kvstore_le_put32 h @ drop 16 ?H"
    and d16: "drop 16 ?H = ds4_kvstore_le_put32 c @ drop 20 ?H"
    and d24: "drop 24 ?H = kv_le_put64 ca @ drop 32 ?H"
    and d32: "drop 32 ?H = kv_le_put64 lu @ drop 40 ?H"
    and d40: "drop 40 ?H = kv_le_put64 p @ []"
    by (simp_all add: ds4_kvstore_fill_header_def kv_magic_def)
  have g: "ds4_kvstore_le_get32 (drop 8 ?H) = t" "ds4_kvstore_le_get32 (drop 12 ?H) = h"
    "ds4_kvstore_le_get32 (drop 16 ?H) = c" "kv_le_get64 (drop 24 ?H) = ca"
    "kv_le_get64 (drop 32 ?H) = lu" "kv_le_get64 (drop 40 ?H) = p"
    unfolding d8 d12 d16 d24 d32 d40 by (rule le_get32_put32 le_get64_put64)+
  have n: "?H ! 4 = q" "?H ! 5 = r" "?H ! 6 = x" "?H ! 7 = m" "take 4 ?H = kv_magic"
    "?H ! 20 = KV_CACHE_PAYLOAD_ABI"
    by (simp_all add: ds4_kvstore_fill_header_def kv_magic_def nth_append)
  have tb: "ds4_kvstore_le_get32 (ds4_kvstore_le_put32 tb) = tb"
    using le_get32_put32 [of tb "[]"] by simp
  show ?thesis
    by (simp add: ds4_kvstore_read_header_def Let_def g n tb DS4_KVSTORE_REASON_AGENT_SESSION_def)
qed

lemma read_header_length: "ds4_kvstore_read_header file = Some (e, tb) \<Longrightarrow> 52 \<le> length file"
  by (auto simp: ds4_kvstore_read_header_def Let_def split: if_splits)

lemma read_header_Some:
  assumes "ds4_kvstore_read_header file = Some (e, tb)"
  shows "52 \<le> length file \<and> take 4 file = kv_magic \<and> file ! 20 = KV_CACHE_PAYLOAD_ABI
     \<and> ke_tokens e \<noteq> 0 \<and> (ke_quant_bits e = 2 \<or> ke_quant_bits e = 4)
     \<and> ke_reason e \<le> 6 \<and> ke_text_bytes e = ucast tb"
  using assms
  by (auto simp: ds4_kvstore_read_header_def Let_def DS4_KVSTORE_REASON_AGENT_SESSION_def split: if_splits)

section \<open>Validated entries\<close>

text \<open>An accepted entry file holds the whole text and payload its header announces.\<close>

lemma read_entry_bytes_sound:
  assumes r: "read_entry_bytes file path sha = Some e" and l: "length file < 2 ^ 64"
  shows "52 + unat (ke_text_bytes e) + unat (ke_payload_bytes e) \<le> length file
     \<and> unat (ke_file_size e) = length file \<and> ke_sha e = sha \<and> ke_path e = path
     \<and> ke_tokens e \<noteq> 0 \<and> (ke_quant_bits e = 2 \<or> ke_quant_bits e = 4)"
proof -
  from r obtain e0 tb where h: "ds4_kvstore_read_header file = Some (e0, tb)"
    and g1: "\<not> UINT64_MAX - 52 < (ucast tb :: u64)"
    and g2: "\<not> UINT64_MAX - 52 - ucast tb < ke_payload_bytes e0"
    and sz: "\<not> (of_nat (length file) :: u64) < 52 + ucast tb + ke_payload_bytes e0"
    and e: "e = e0\<lparr>ke_sha := sha, ke_path := path, ke_file_size := of_nat (length file)\<rparr>"
    by (auto simp: read_entry_bytes_def Let_def split: if_splits option.splits)
  have tb: "ke_text_bytes e0 = ucast tb" "ke_tokens e0 \<noteq> 0" "ke_quant_bits e0 = 2 \<or> ke_quant_bits e0 = 4"
    using read_header_Some [OF h] by auto
  have a: "unat (52 + ucast tb :: u64) = 52 + unat (ucast tb :: u64)"
    using max_minus_not_less [OF g1] by simp
  have "UINT64_MAX - 52 - ucast tb = UINT64_MAX - (52 + ucast tb)" by (simp only: diff_diff_eq)
  with g2 have "unat (52 + ucast tb + ke_payload_bytes e0) = unat (52 + ucast tb :: u64) + unat (ke_payload_bytes e0)"
    using max_minus_not_less [of "52 + ucast tb"] by simp
  with a sz l have "52 + unat (ucast tb :: u64) + unat (ke_payload_bytes e0) \<le> length file"
    by (simp add: word_less_nat_alt unat_of_nat64)
  then show ?thesis using e tb l by (simp add: unat_of_nat64)
qed

section \<open>Names\<close>

lemma hex_digit_class: "c \<in> set hex_digits \<Longrightarrow> isxdigit c \<and> tolower c = c"
  by (auto simp: hex_digits_def isxdigit_def isdigit_def tolower_def ord_def)

lemma sha_hex_name_of_hash:
  "ds4_kvstore_sha_hex_name (ds4_kvstore_sha1_bytes_hex p @ ''.kv'') = Some (ds4_kvstore_sha1_bytes_hex p)"
proof -
  let ?s = "ds4_kvstore_sha1_bytes_hex p"
  have c: "\<forall>c \<in> set ?s. isxdigit c \<and> tolower c = c"
    using hex_bytes_chars hex_digit_class unfolding sha1_hex_eq by blast
  then have "map tolower ?s = ?s" by (simp add: map_idI)
  with c show ?thesis by (simp add: ds4_kvstore_sha_hex_name_def list_all_iff)
qed

lemma sha_hex_name_Some:
  "ds4_kvstore_sha_hex_name name = Some sha \<Longrightarrow> length sha = 40 \<and> length name = 43"
  by (auto simp: ds4_kvstore_sha_hex_name_def split: if_splits)

lemma path_join_inject: "path_join dir a = path_join dir b \<longleftrightarrow> a = b"
  by (simp add: path_join_def)

text \<open>The buffer version of \<^verbatim>\<open>path_join\<close> computes \<open>path_join\<close>.\<close>

lemma dynbuf_last_char:
  assumes "dynbuf_inv b" "db_ptr b \<noteq> None" "db_len b \<noteq> 0"
  shows "dynbuf_text b \<noteq> [] \<and> the (db_ptr b) ! unat (db_len b - 1) = Some (last (dynbuf_text b))"
proof -
  obtain cells where p: "db_ptr b = Some cells" using assms(2) by auto
  let ?n = "unat (db_len b)"
  have n: "0 < ?n" "?n < length cells" "None \<notin> set (take ?n cells)"
    using assms p by (auto simp: dynbuf_inv_def unat_gt_0)
  have u: "unat (db_len b - 1) = ?n - 1" using assms(3) by (simp add: unat_minus_one)
  have "last (take ?n cells) = cells ! (?n - 1)"
    using n by (subst last_conv_nth) (auto simp: min_def)
  moreover have "take ?n cells \<noteq> []" using n by auto
  moreover have "cells ! (?n - 1) \<noteq> None"
    using n(3) calculation by (metis last_in_set)
  ultimately show ?thesis using p n u by (simp add: dynbuf_text_def last_map)
qed

lemma path_join_buf:
  assumes l: "length dir < 2 ^ 64" "length name < 2 ^ 64"
    and r: "ds4_kvstore_path_join mok dir name = Inr p"
  shows "p = path_join dir name"
proof -
  obtain b b1 b2 where b: "dynbuf_append mok dynbuf_empty dir = Inr b"
    and b1: "(if db_len b = 0 \<or> the (db_ptr b) ! unat (db_len b - 1) \<noteq> Some CHR ''/''
               then dynbuf_append mok b ''/'' else Inr b) = Inr b1"
    and b2: "dynbuf_append mok b1 name = Inr b2" and p: "p = dynbuf_text b2"
    using r unfolding ds4_kvstore_path_join_def dynbuf_puts_def dynbuf_putc_def by auto
  have tb: "dynbuf_inv b" "dynbuf_text b = dir" "dynbuf_terminated b"
    using dynbuf_append_ok [OF dynbuf_empty_inv l(1) b] by simp_all
  have ptr: "db_ptr b \<noteq> None" using tb(3) by (auto simp: dynbuf_terminated_def split: option.splits)
  have len0: "db_len b = 0 \<longleftrightarrow> dir = []"
    using dynbuf_last_char [OF tb(1) ptr] tb(1,2) ptr by (auto simp: dynbuf_text_def)
  have cond: "(db_len b = 0 \<or> the (db_ptr b) ! unat (db_len b - 1) \<noteq> Some CHR ''/'')
      \<longleftrightarrow> (dir = [] \<or> last dir \<noteq> CHR ''/'')"
    using len0 dynbuf_last_char [OF tb(1) ptr] tb(2) by (cases "dir = []") auto
  have t1: "dynbuf_inv b1 \<and> dynbuf_text b1 = (if dir = [] \<or> last dir \<noteq> CHR ''/'' then dir @ ''/'' else dir)"
    using b1 tb dynbuf_append_ok [OF tb(1), of "''/''" mok b1] unfolding cond
    by (auto split: if_splits)
  then show ?thesis
    using p dynbuf_append_ok [OF _ l(2) b2] by (auto simp: path_join_def)
qed

end
