(* ===== verification/KvPolicy.thy ===== *)
theory KvPolicy
  imports KvFormat "HOL-Library.Signed_Division"
begin

text \<open>
  The checkpoint policy of \<^verbatim>\<open>ds4_kvstore.c\<close>: where to cut a prompt before storing it, when a
  growing conversation is due for another checkpoint, and whether a checkpoint fits the disk
  budget. A C \<^verbatim>\<open>int\<close> is an HOL integer (its overflow is undefined behaviour in C and does not
  occur for token counts), with C's truncating division; sizes are 64-bit words and keep
  their wrap-around.
\<close>

section \<open>The store's options and state\<close>

record kv_options =
  min_tokens :: int
  cold_max_tokens :: int
  continued_interval_tokens :: int
  boundary_trim_tokens :: int
  boundary_align_tokens :: int

record kvstore =
  kc_enabled :: bool
  kc_dir :: string
  kc_budget_bytes :: u64
  kc_reject_different_quant :: bool
  kc_opt :: kv_options
  kc_continued_last_store_tokens :: int
  kc_entry :: "kv_entry list"

definition ds4_kvstore_default_options :: kv_options where
  "ds4_kvstore_default_options =
     \<lparr>min_tokens = 512, cold_max_tokens = 30000, continued_interval_tokens = 10000,
      boundary_trim_tokens = 32, boundary_align_tokens = 2048\<rparr>"

section \<open>Boundaries\<close>

definition ds4_kvstore_byte_prefix_match :: "byte list \<Rightarrow> byte list \<Rightarrow> bool" where
  "ds4_kvstore_byte_prefix_match text prefix \<longleftrightarrow>
     length prefix \<le> length text \<and> (length prefix = 0 \<or> take (length prefix) text = prefix)"

definition ds4_kvstore_tokens_copy_prefix :: "int list option \<Rightarrow> int \<Rightarrow> int list" where
  "ds4_kvstore_tokens_copy_prefix src n =
     (case src of None \<Rightarrow> [] | Some v \<Rightarrow> take (nat (min n (int (length v)))) v)"

definition ds4_kvstore_store_len :: "kvstore \<Rightarrow> int \<Rightarrow> int" where
  "ds4_kvstore_store_len kc tokens =
     (let trim = boundary_trim_tokens (kc_opt kc); align = boundary_align_tokens (kc_opt kc) in
      if min_tokens (kc_opt kc) + trim < tokens then
        (let stable0 = tokens - trim;
             stable = (if 0 < align then stable0 - stable0 smod align else stable0)
         in if min_tokens (kc_opt kc) \<le> stable then stable else tokens)
      else tokens)"

text \<open>The scan for the last user marker before the first assistant marker.\<close>

fun last_user_before :: "int \<Rightarrow> int \<Rightarrow> int \<Rightarrow> int \<Rightarrow> int list \<Rightarrow> int" where
  "last_user_before user asst i last_user [] = last_user"
| "last_user_before user asst i last_user (t # ts) =
     (if t = asst then last_user
      else last_user_before user asst (i + 1) (if t = user then i else last_user) ts)"

definition ds4_kvstore_chat_anchor_pos :: "kvstore \<Rightarrow> int list option \<Rightarrow> int \<Rightarrow> int \<Rightarrow> int" where
  "ds4_kvstore_chat_anchor_pos kc prompt user asst =
     (case prompt of None \<Rightarrow> -1
      | Some ts \<Rightarrow>
        if user < 0 \<or> asst < 0 then -1
        else let last_user = last_user_before user asst 0 (-1) ts in
          if min_tokens (kc_opt kc) \<le> last_user then last_user else -1)"

section \<open>Continued checkpoints\<close>

definition kv_cache_continued_step :: "kvstore \<Rightarrow> int" where
  "kv_cache_continued_step kc =
     (if \<not> kc_enabled kc \<or> continued_interval_tokens (kc_opt kc) \<le> 0 then 0
      else
        let step = continued_interval_tokens (kc_opt kc); align = boundary_align_tokens (kc_opt kc) in
        if 0 < align
        then let step' = ((step + align - 1) sdiv align) * align in if step' \<le> 0 then align else step'
        else step)"

definition ds4_kvstore_continued_store_target :: "kvstore \<Rightarrow> int \<Rightarrow> int" where
  "ds4_kvstore_continued_store_target kc live_tokens =
     (let step = kv_cache_continued_step kc in
      if step \<le> 0 then 0
      else if live_tokens < min_tokens (kc_opt kc) then 0
      else if live_tokens smod step \<noteq> 0 then 0
      else if live_tokens \<le> kc_continued_last_store_tokens kc then 0
      else live_tokens)"

definition ds4_kvstore_note_store :: "kvstore \<Rightarrow> int \<Rightarrow> kvstore" where
  "ds4_kvstore_note_store kc tokens =
     (if kc_continued_last_store_tokens kc < tokens
      then kc\<lparr>kc_continued_last_store_tokens := tokens\<rparr> else kc)"

definition ds4_kvstore_suppress_continued_store :: "kvstore \<Rightarrow> int \<Rightarrow> int \<times> kvstore" where
  "ds4_kvstore_suppress_continued_store kc tokens =
     (if ds4_kvstore_continued_store_target kc tokens \<noteq> tokens then (-1, kc)
      else (kc_continued_last_store_tokens kc, ds4_kvstore_note_store kc tokens))"

definition ds4_kvstore_restore_suppressed_continued :: "kvstore \<Rightarrow> int \<Rightarrow> int \<Rightarrow> kvstore" where
  "ds4_kvstore_restore_suppressed_continued kc old_tokens suppressed_tokens =
     (if 0 \<le> old_tokens \<and> kc_continued_last_store_tokens kc = suppressed_tokens
      then kc\<lparr>kc_continued_last_store_tokens := old_tokens\<rparr> else kc)"

section \<open>Sizes\<close>

definition kv_cache_file_size_bytes :: "u64 \<Rightarrow> u64 \<Rightarrow> u64 \<Rightarrow> u64 option" where
  "kv_cache_file_size_bytes text_bytes payload_bytes trailer_bytes =
     (let fixed = 52 in
      if UINT64_MAX - fixed < text_bytes
         \<or> UINT64_MAX - fixed - text_bytes < payload_bytes
         \<or> UINT64_MAX - fixed - text_bytes - payload_bytes < trailer_bytes then None
      else Some (fixed + text_bytes + payload_bytes + trailer_bytes))"

definition kv_cache_budget_required :: "u64 \<Rightarrow> u64 option" where
  "kv_cache_budget_required file_bytes =
     (let slack0 = file_bytes div 100;
          slack = (if file_bytes mod 100 \<noteq> 0 then slack0 + 1 else slack0)
      in if UINT64_MAX - file_bytes < slack then None else Some (file_bytes + slack))"

text \<open>The result, and the file size and the required size where the C function sets them.\<close>

definition ds4_kvstore_file_size_fits ::
  "kvstore \<Rightarrow> u64 \<Rightarrow> u64 \<Rightarrow> u64 \<Rightarrow> bool \<times> u64 option \<times> u64 option" where
  "ds4_kvstore_file_size_fits kc text_bytes payload_bytes trailer_bytes =
     (case kv_cache_file_size_bytes text_bytes payload_bytes trailer_bytes of
        None \<Rightarrow> (False, None, None)
      | Some file_bytes \<Rightarrow>
        if kc_budget_bytes kc = 0 then (True, Some file_bytes, None)
        else (case kv_cache_budget_required file_bytes of
                None \<Rightarrow> (False, Some file_bytes, None)
              | Some required \<Rightarrow> (required \<le> kc_budget_bytes kc, Some file_bytes, Some required)))"

section \<open>Lemmas\<close>

lemma smod_pos: "0 \<le> a \<Longrightarrow> 0 < b \<Longrightarrow> a smod b = a mod (b :: int)"
  by (cases "a = 0") (auto simp: signed_modulo_int_def)

lemma sdiv_pos: "0 \<le> a \<Longrightarrow> 0 < b \<Longrightarrow> a sdiv b = a div (b :: int)"
  by (cases "a = 0") (auto simp: signed_divide_int_def)

lemma byte_prefix_match_iff: "ds4_kvstore_byte_prefix_match text p \<longleftrightarrow> (\<exists>s. text = p @ s)"
  by (auto simp: ds4_kvstore_byte_prefix_match_def)
     (metis append_take_drop_id append_Nil length_0_conv)+

lemma store_len_cases:
  fixes kc :: kvstore and tokens :: int
  assumes "0 \<le> min_tokens (kc_opt kc)" "0 \<le> boundary_trim_tokens (kc_opt kc)"
    "0 < boundary_align_tokens (kc_opt kc)"
  defines "r \<equiv> ds4_kvstore_store_len kc tokens"
  shows "r = tokens
    \<or> (min_tokens (kc_opt kc) \<le> r \<and> r \<le> tokens - boundary_trim_tokens (kc_opt kc)
       \<and> boundary_align_tokens (kc_opt kc) dvd r
       \<and> tokens - boundary_trim_tokens (kc_opt kc) - r < boundary_align_tokens (kc_opt kc))"
proof -
  let ?s = "tokens - boundary_trim_tokens (kc_opt kc)" and ?a = "boundary_align_tokens (kc_opt kc)"
  show ?thesis
  proof (cases "min_tokens (kc_opt kc) < ?s")
    case False
    then show ?thesis by (simp add: r_def ds4_kvstore_store_len_def Let_def)
  next
    case True
    then have s: "?s smod ?a = ?s mod ?a" using assms by (intro smod_pos) simp_all
    have m: "0 \<le> ?s mod ?a" "?s mod ?a < ?a" using assms by simp_all
    have "?a dvd ?s - ?s mod ?a" by (simp add: dvd_minus_mod)
    then show ?thesis
      using True m s assms by (auto simp: r_def ds4_kvstore_store_len_def Let_def)
  qed
qed

lemma last_user_before_spec:
  fixes ts :: "int list" and asst :: int
  defines "pre \<equiv> takeWhile (\<lambda>t. t \<noteq> asst) ts"
  shows "last_user_before user asst i l ts =
     (if user \<in> set pre
      then i + int (length pre) - 1 - int (length (takeWhile (\<lambda>t. t \<noteq> user) (rev pre)))
      else l)"
  unfolding pre_def
proof (induction ts arbitrary: i l)
  case Nil
  then show ?case by simp
next
  case (Cons t ts)
  then show ?case
    by (auto simp: takeWhile_append takeWhile_eq_all_conv algebra_simps length_takeWhile_le)
qed

lemma continued_step_pos:
  assumes "0 \<le> boundary_align_tokens (kc_opt kc)"
  shows "kv_cache_continued_step kc = 0
    \<or> (0 < kv_cache_continued_step kc \<and> continued_interval_tokens (kc_opt kc) \<le> kv_cache_continued_step kc
       \<and> (0 < boundary_align_tokens (kc_opt kc)
            \<longrightarrow> boundary_align_tokens (kc_opt kc) dvd kv_cache_continued_step kc
              \<and> kv_cache_continued_step kc
                  < continued_interval_tokens (kc_opt kc) + boundary_align_tokens (kc_opt kc)))"
proof (cases "kc_enabled kc \<and> 0 < continued_interval_tokens (kc_opt kc)")
  case False
  then show ?thesis by (auto simp: kv_cache_continued_step_def)
next
  case True
  let ?s = "continued_interval_tokens (kc_opt kc)" and ?a = "boundary_align_tokens (kc_opt kc)"
  show ?thesis
  proof (cases "0 < ?a")
    case False
    with True show ?thesis by (auto simp: kv_cache_continued_step_def)
  next
    case a: True
    let ?q = "(?s + ?a - 1) div ?a * ?a"
    have "?q = ?s + ?a - 1 - (?s + ?a - 1) mod ?a" by (simp add: minus_mod_eq_div_mult)
    moreover have "0 \<le> (?s + ?a - 1) mod ?a" "(?s + ?a - 1) mod ?a < ?a" using a by simp_all
    ultimately have q: "?s \<le> ?q" "?q < ?s + ?a" by linarith+
    have "kv_cache_continued_step kc = ?q"
      using True a q by (simp add: kv_cache_continued_step_def Let_def sdiv_pos)
    then show ?thesis using True q a by auto
  qed
qed

lemma target_after_note:
  "ds4_kvstore_continued_store_target (ds4_kvstore_note_store kc n) m \<noteq> 0 \<Longrightarrow> n < m"
  by (auto simp: ds4_kvstore_continued_store_target_def ds4_kvstore_note_store_def Let_def split: if_splits)

lemma suppress_restore:
  assumes "ds4_kvstore_suppress_continued_store kc n = (old, kc1)"
    and "n \<noteq> 0" "0 \<le> kc_continued_last_store_tokens kc"
  shows "ds4_kvstore_restore_suppressed_continued kc1 old n = kc"
  using assms
  by (auto simp: ds4_kvstore_suppress_continued_store_def ds4_kvstore_restore_suppressed_continued_def
      ds4_kvstore_note_store_def ds4_kvstore_continued_store_target_def Let_def split: if_splits)

lemma file_size_bytes_Some:
  assumes "kv_cache_file_size_bytes t p r = Some n"
  shows "unat n = 52 + unat t + unat p + unat r"
proof -
  have g: "\<not> UINT64_MAX - 52 < t" "\<not> UINT64_MAX - (52 + t) < p" "\<not> UINT64_MAX - (52 + t + p) < r"
    and n: "n = 52 + t + p + r"
    using assms by (auto simp: kv_cache_file_size_bytes_def Let_def diff_diff_eq split: if_splits)
  then show ?thesis using max_minus_not_less [OF g(1)] max_minus_not_less [OF g(2)] max_minus_not_less [OF g(3)]
    by simp
qed

lemma file_size_bytes_None:
  "kv_cache_file_size_bytes t p r = None \<longleftrightarrow> 2 ^ 64 \<le> 52 + unat t + unat p + unat r"
proof -
  have "kv_cache_file_size_bytes t p r = None \<longleftrightarrow>
     UINT64_MAX - 52 < t \<or> UINT64_MAX - (52 + t) < p \<or> UINT64_MAX - (52 + t + p) < r"
    by (simp add: kv_cache_file_size_bytes_def Let_def diff_diff_eq)
  also have "\<dots> \<longleftrightarrow> 2 ^ 64 \<le> 52 + unat t + unat p + unat r"
  proof (cases "UINT64_MAX - 52 < t")
    case True
    then have "2 ^ 64 \<le> 52 + unat t" unfolding max_minus_less_iff by simp
    with True show ?thesis by simp
  next
    case F1: False
    then have u1: "unat (52 + t) = 52 + unat t" using max_minus_not_less by fastforce
    show ?thesis
    proof (cases "UINT64_MAX - (52 + t) < p")
      case True
      then have "2 ^ 64 \<le> 52 + unat t + unat p" unfolding max_minus_less_iff u1 by simp
      with True show ?thesis by simp
    next
      case F2: False
      then have "unat (52 + t + p) = 52 + unat t + unat p" using max_minus_not_less u1 by fastforce
      then show ?thesis using F1 F2 max_minus_less_iff [of "52 + t + p" r] by simp
    qed
  qed
  finally show ?thesis .
qed

lemma ceil_100: "((n :: nat) + 99) div 100 = (if n mod 100 = 0 then n div 100 else n div 100 + 1)"
proof -
  have "(n + 99) div 100 = (100 * (n div 100) + (n mod 100 + 99)) div 100" by simp
  also have "\<dots> = n div 100 + (n mod 100 + 99) div 100" by (rule div_mult_self4) simp
  also have "(n mod 100 + 99) div 100 = (if n mod 100 = 0 then 0 else 1)"
    using mod_less_divisor [of 100 n] by (auto simp: div_if)
  finally show ?thesis by simp
qed

lemma slack_unat:
  "unat (if n mod 100 \<noteq> 0 then n div 100 + 1 else n div 100 :: u64) = (unat n + 99) div 100"
proof (cases "n mod 100 = 0")
  case True
  then have "unat (n mod 100) = 0" by simp
  then have "unat n mod 100 = 0" by (simp add: unat_mod)
  then show ?thesis using True by (simp add: unat_div ceil_100)
next
  case False
  then have "0 < unat (n mod 100)" using unat_gt_0 by blast
  then have "unat n mod 100 \<noteq> 0" by (simp add: unat_mod)
  moreover have "unat (n div 100 + 1) = unat n div 100 + 1"
    using unat_lt64 [of n] by (subst unat_add64) (simp_all add: unat_div)
  ultimately show ?thesis using False by (simp add: ceil_100)
qed

lemma budget_required_Some:
  assumes "kv_cache_budget_required n = Some q"
  shows "unat q = unat n + (unat n + 99) div 100"
proof -
  let ?slack = "if n mod 100 \<noteq> 0 then n div 100 + 1 else n div 100"
  have g: "\<not> UINT64_MAX - n < ?slack" and q: "q = n + ?slack"
    using assms by (simp_all only: kv_cache_budget_required_def Let_def split: if_splits) auto
  show ?thesis using max_minus_not_less [OF g] q slack_unat [of n] by simp
qed

end
