(* ===== verification/KvStore.thy ===== *)
theory KvStore
  imports KvPolicy Complex_Main
begin

text \<open>
  The disk checkpoint store of \<^verbatim>\<open>ds4_kvstore.c\<close>: scanning the directory, eviction under the disk
  budget, storing the live session, and finding and loading the longest stored prefix of a
  prompt. The file system is a map from paths to contents. Everything the operating system
  decides is in the record \<open>io\<close>: the clock (read once per operation), the order in which
  \<^verbatim>\<open>readdir\<close> lists names, whether an open, an unlink or a rename succeeds, and after how many
  bytes the writes to a file fail. The inference engine and the session are records of the
  functions the store calls (\<^verbatim>\<open>ds4_engine_*\<close>, \<^verbatim>\<open>ds4_session_*\<close>). Messages to the log are left
  out. The eviction score is computed over the reals, without the rounding of \<^verbatim>\<open>double\<close>.
\<close>

section \<open>File system and environment\<close>

record io =
  io_now :: u64
  io_readdir :: "fs \<Rightarrow> string \<Rightarrow> string list option"
  io_open_ok :: "string \<Rightarrow> bool"
  io_create_ok :: "string \<Rightarrow> bool"
  io_unlink_ok :: "string \<Rightarrow> bool"
  io_rename_ok :: "string \<Rightarrow> string \<Rightarrow> bool"
  io_truncate_ok :: "string \<Rightarrow> bool"
  io_write_short :: "string \<Rightarrow> nat option"
  io_mkdir_ok :: "string \<Rightarrow> bool"
  io_pid :: string

text \<open>\<^verbatim>\<open>fopen\<close> of an existing file: its contents.\<close>

definition fopen_read :: "io \<Rightarrow> fs \<Rightarrow> string \<Rightarrow> byte list option" where
  "fopen_read w f path = (if io_open_ok w path then f path else None)"

definition unlink :: "io \<Rightarrow> fs \<Rightarrow> string \<Rightarrow> bool \<times> fs" where
  "unlink w f path = (if f path \<noteq> None \<and> io_unlink_ok w path then (True, f(path := None)) else (False, f))"

text \<open>What reaches the file of the bytes written, and whether every write succeeded.\<close>

definition written :: "io \<Rightarrow> string \<Rightarrow> byte list \<Rightarrow> bool \<times> byte list" where
  "written w path bs =
     (case io_write_short w path of None \<Rightarrow> (True, bs) | Some k \<Rightarrow> (length bs \<le> k, take k bs))"

definition truncate_bytes :: "nat \<Rightarrow> byte list \<Rightarrow> byte list" where
  "truncate_bytes n bs = take n bs @ replicate (n - length bs) 0"

section \<open>Scanning the directory\<close>

definition ds4_kvstore_read_entry_file :: "io \<Rightarrow> fs \<Rightarrow> string \<Rightarrow> string \<Rightarrow> kv_entry option" where
  "ds4_kvstore_read_entry_file w f path sha =
     (case fopen_read w f path of None \<Rightarrow> None | Some file \<Rightarrow> read_entry_bytes file path sha)"

definition ds4_kvstore_clear :: "kvstore \<Rightarrow> kvstore" where
  "ds4_kvstore_clear kc = kc\<lparr>kc_entry := []\<rparr>"

definition kv_cache_push :: "kvstore \<Rightarrow> kv_entry \<Rightarrow> kvstore" where
  "kv_cache_push kc e = kc\<lparr>kc_entry := kc_entry kc @ [e]\<rparr>"

definition refresh_step :: "io \<Rightarrow> fs \<Rightarrow> kvstore \<Rightarrow> string \<Rightarrow> kvstore" where
  "refresh_step w f kc name =
     (case ds4_kvstore_sha_hex_name name of None \<Rightarrow> kc
      | Some sha \<Rightarrow>
        (case ds4_kvstore_read_entry_file w f (path_join (kc_dir kc) name) sha of
           None \<Rightarrow> kc | Some e \<Rightarrow> kv_cache_push kc e))"

definition kv_cache_refresh :: "io \<Rightarrow> fs \<Rightarrow> kvstore \<Rightarrow> kvstore" where
  "kv_cache_refresh w f kc =
     (if \<not> kc_enabled kc then kc
      else let kc1 = ds4_kvstore_clear kc in
        (case io_readdir w f (kc_dir kc) of None \<Rightarrow> kc1
         | Some names \<Rightarrow> foldl (refresh_step w f) kc1 names))"

definition ds4_kvstore_touch_file :: "io \<Rightarrow> fs \<Rightarrow> string \<Rightarrow> u32 \<Rightarrow> bool \<times> fs" where
  "ds4_kvstore_touch_file w f path hits =
     (case fopen_read w f path of None \<Rightarrow> (False, f)
      | Some file \<Rightarrow>
        (case ds4_kvstore_read_header file of None \<Rightarrow> (False, f)
         | Some (e, _) \<Rightarrow>
           let h = ds4_kvstore_fill_header (ke_model_id e) (ke_quant_bits e) (ke_reason e) (ke_ext_flags e)
                     (ke_tokens e) hits (ke_ctx_size e) (ke_created_at e) (io_now w) (ke_payload_bytes e);
               (ok, bs) = written w path h
           in (ok, f(path \<mapsto> store_at 0 bs file))))"

section \<open>Eviction\<close>

record kv_eviction_context =
  ec_text :: "byte list option"
  ec_model_id :: byte
  ec_quant_bits :: byte
  ec_ctx_size :: u32
  ec_reject_different_quant :: bool

definition kv_cache_incoming_supersedes_continued ::
  "kv_entry \<Rightarrow> kv_eviction_context option \<Rightarrow> bool" where
  "kv_cache_incoming_supersedes_continued e incoming =
     (case incoming of None \<Rightarrow> False
      | Some c \<Rightarrow>
        (case ec_text c of None \<Rightarrow> False
         | Some text \<Rightarrow>
           if ke_reason e \<noteq> DS4_KVSTORE_REASON_CONTINUED then False
           else if ke_text_bytes e = 0 then False
           else if length text \<le> unat (ke_text_bytes e) then False
           else if ke_model_id e \<noteq> ec_model_id c then False
           else if ec_reject_different_quant c \<and> ke_quant_bits e \<noteq> ec_quant_bits c then False
           else if ke_ctx_size e < ec_ctx_size c then False
           else ds4_kvstore_sha1_bytes_hex (take (unat (ke_text_bytes e)) text) = ke_sha e))"

definition kv_cache_reason_is_anchor :: "byte \<Rightarrow> bool" where
  "kv_cache_reason_is_anchor reason \<longleftrightarrow> reason = 1 \<or> reason = 3 \<or> reason = 4"

definition DS4_KVSTORE_HIT_HALF_LIFE_SECONDS :: real where
  "DS4_KVSTORE_HIT_HALF_LIFE_SECONDS = 21600"

definition effective_hits :: "kv_entry \<Rightarrow> u64 \<Rightarrow> real" where
  "effective_hits e now =
     (let hits = real (unat (ke_hits e));
          used_at = (if ke_last_used e \<noteq> 0 then ke_last_used e else ke_created_at e)
      in if used_at = 0 then 0
         else if used_at < now
         then let h = hits * 2 powr (- real (unat (now - used_at)) / DS4_KVSTORE_HIT_HALF_LIFE_SECONDS)
              in if h < 1 / 100 then 0 else h
         else hits)"

definition ds4_kvstore_entry_eviction_score ::
  "kv_entry \<Rightarrow> u64 \<Rightarrow> kv_eviction_context option \<Rightarrow> real" where
  "ds4_kvstore_entry_eviction_score e now incoming =
     (if ke_file_size e = 0 then 0
      else
        let h = effective_hits e now;
            score0 = (h + 1) * real (unat (ke_tokens e)) / real (unat (ke_file_size e));
            score1 = (if kv_cache_reason_is_anchor (ke_reason e) then score0 * 2 else score0)
        in if kv_cache_incoming_supersedes_continued e incoming
           then score1 * (5 / 100 + 45 / 100 * (if 0 < h then h / (h + 1) else 0))
           else score1)"

text \<open>The scan for the entry with the least score, the older one on a tie.\<close>

definition victim_step :: "(kv_entry \<Rightarrow> real) \<Rightarrow> kv_entry list \<Rightarrow> nat \<times> real \<Rightarrow> nat \<Rightarrow> nat \<times> real" where
  "victim_step score es v i =
     (if score (es ! i) < snd v
         \<or> (score (es ! i) = snd v \<and> ke_last_used (es ! i) < ke_last_used (es ! fst v))
      then (i, score (es ! i)) else v)"

definition victim_index :: "(kv_entry \<Rightarrow> real) \<Rightarrow> kv_entry list \<Rightarrow> nat" where
  "victim_index score es =
     fst (foldl (victim_step score es) (0, score (es ! 0)) [1..<length es])"

text \<open>The scan finds an entry of the list, and none has a lower score.\<close>

lemma victim_fold:
  assumes "0 < n"
  shows "\<exists>v. foldl (victim_step score es) (0, score (es ! 0)) [1..<n] = (v, score (es ! v))
     \<and> v < n \<and> (\<forall>i < n. score (es ! v) \<le> score (es ! i))"
  using assms
proof (induction n)
  case (Suc n)
  show ?case
  proof (cases "n = 0")
    case False
    then obtain v where v: "foldl (victim_step score es) (0, score (es ! 0)) [1..<n] = (v, score (es ! v))"
      "v < n" "\<forall>i < n. score (es ! v) \<le> score (es ! i)"
      using Suc.IH by auto
    have "[1..<Suc n] = [1..<n] @ [n]" using False by simp
    then have eq: "foldl (victim_step score es) (0, score (es ! 0)) [1..<Suc n]
        = victim_step score es (v, score (es ! v)) n"
      using v(1) by simp
    have "\<forall>i < Suc n. score (es ! v) \<le> score (es ! i) \<or> score (es ! n) < score (es ! v)"
      using v(3) by (auto simp: less_Suc_eq)
    then show ?thesis
      unfolding eq using v by (force simp: victim_step_def less_Suc_eq)
  qed simp
qed simp

lemma victim_index_props:
  assumes "es \<noteq> []"
  shows "victim_index score es < length es"
    and "e \<in> set es \<Longrightarrow> score (es ! victim_index score es) \<le> score e"
  using victim_fold [of "length es" score es] assms
  by (auto simp: victim_index_def in_set_conv_nth)

function evict_loop ::
  "io \<Rightarrow> (kv_entry \<Rightarrow> real) \<Rightarrow> u64 \<Rightarrow> fs \<Rightarrow> kv_entry list \<Rightarrow> u64 \<Rightarrow> fs \<times> kv_entry list" where
  "evict_loop w score target f es tot =
     (if target < tot \<and> es \<noteq> [] then
        (let v = victim_index score es; e = es ! v; (ok, f') = unlink w f (ke_path e);
             tot' = (if ok then (if ke_file_size e \<le> tot then tot - ke_file_size e else 0) else 0)
         in evict_loop w score target f' (take v es @ drop (Suc v) es) tot')
      else (f, es))"
  by pat_completeness auto
termination
proof (relation "measure (\<lambda>(w, score, target, f, es, tot). length es)")
  fix w :: io and score and target :: u64 and f :: fs and es :: "kv_entry list" and tot
  assume "target < (tot :: u64) \<and> es \<noteq> []"
  then have "victim_index score es < length es" using victim_index_props(1) by blast
  then show "((w, score, target, f', take v es @ drop (Suc v) es, t'), w, score, target, f, es, tot)
      \<in> measure (\<lambda>(w, score, target, f, es, tot). length es)"
    if "v = victim_index score es" for v f' t'
    using that by simp
qed simp

declare evict_loop.simps [simp del]

definition ds4_kvstore_evict ::
  "io \<Rightarrow> fs \<Rightarrow> kvstore \<Rightarrow> u64 \<Rightarrow> kv_eviction_context option \<Rightarrow> fs \<times> kvstore" where
  "ds4_kvstore_evict w f kc extra_bytes incoming =
     (if \<not> kc_enabled kc \<or> kc_budget_bytes kc = 0 then (f, kc)
      else if kc_budget_bytes kc < extra_bytes then (f, kc)
      else
        let kc1 = kv_cache_refresh w f kc;
            tot = foldl (\<lambda>t e. t + ke_file_size e) 0 (kc_entry kc1);
            target = kc_budget_bytes kc - extra_bytes;
            (f', es) = evict_loop w (\<lambda>e. ds4_kvstore_entry_eviction_score e (io_now w) incoming)
                         target f (kc_entry kc1) tot
        in (f', kc1\<lparr>kc_entry := es\<rparr>))"

definition kvstore_zero :: kvstore where
  "kvstore_zero = \<lparr>kc_enabled = False, kc_dir = [], kc_budget_bytes = 0,
     kc_reject_different_quant = False,
     kc_opt = \<lparr>min_tokens = 0, cold_max_tokens = 0, continued_interval_tokens = 0,
               boundary_trim_tokens = 0, boundary_align_tokens = 0\<rparr>,
     kc_continued_last_store_tokens = 0, kc_entry = []\<rparr>"

text \<open>\<^verbatim>\<open>kv_mkdir_p\<close> creates every parent in turn and fails at the first one that can neither be
  created nor exists already; \<open>io_mkdir_ok\<close> says which ones succeed.\<close>

definition kv_mkdir_p :: "io \<Rightarrow> string \<Rightarrow> bool" where
  "kv_mkdir_p w path =
     (path \<noteq> []
      \<and> list_all (\<lambda>i. path ! i \<noteq> CHR ''/'' \<or> io_mkdir_ok w (take i path)) [1..<length path]
      \<and> io_mkdir_ok w path)"

definition ds4_kvstore_open ::
  "io \<Rightarrow> fs \<Rightarrow> string option \<Rightarrow> u64 \<Rightarrow> bool \<Rightarrow> kv_options \<Rightarrow> bool \<times> fs \<times> kvstore" where
  "ds4_kvstore_open w f dir budget_mb reject opt =
     (case dir of None \<Rightarrow> (False, f, kvstore_zero)
      | Some d \<Rightarrow>
        if \<not> kv_mkdir_p w d then (False, f, kvstore_zero)
        else
          let mb = (if budget_mb = 0 then 4096 else budget_mb);
              kc = kvstore_zero\<lparr>kc_enabled := True, kc_dir := d,
                     kc_budget_bytes := mb * 1024 * 1024,
                     kc_reject_different_quant := reject, kc_opt := opt\<rparr>;
              (f', kc') = ds4_kvstore_evict w f kc 0 None
          in (True, f', kc'))"

definition ds4_kvstore_close :: "kvstore \<Rightarrow> kvstore" where
  "ds4_kvstore_close kc = kvstore_zero"

section \<open>The engine, the session and the trailer hooks\<close>

record engine =
  eng_quant_bits :: int
  eng_model_id :: int
  eng_token_text :: "int \<Rightarrow> string"
  eng_tokenize_rendered_chat :: "string \<Rightarrow> int list"

text \<open>A session is read through its token history and context size; staging serialises its graph
  state, and loading reads a payload of a given length from the bytes that follow the text.\<close>

record 's session_ops =
  so_tokens :: "'s \<Rightarrow> int list option"
  so_ctx :: "'s \<Rightarrow> int"
  so_stage_payload :: "'s \<Rightarrow> byte list option"
  so_load_payload :: "'s \<Rightarrow> byte list \<Rightarrow> u64 \<Rightarrow> bool \<times> 's"
  so_invalidate :: "'s \<Rightarrow> 's"

record trailer_hooks =
  hk_ext_flag :: byte
  hk_serialized_size :: "(string \<Rightarrow> u64 option) option"
  hk_write :: "(string \<Rightarrow> byte list option) option"
  hk_load :: bool

definition ds4_kvstore_render_tokens_text :: "engine \<Rightarrow> int list \<Rightarrow> string" where
  "ds4_kvstore_render_tokens_text eng tokens = concat (map (eng_token_text eng) tokens)"

definition tokens_append :: "int list \<Rightarrow> int list \<Rightarrow> int list" where
  "tokens_append dst src = dst @ src"

definition ds4_kvstore_build_prompt_from_exact_prefix_and_text_suffix ::
  "engine \<Rightarrow> int list \<Rightarrow> string \<Rightarrow> int list" where
  "ds4_kvstore_build_prompt_from_exact_prefix_and_text_suffix eng exact_prefix suffix_text =
     tokens_append exact_prefix (eng_tokenize_rendered_chat eng suffix_text)"

definition kv_trailer_serialized_size :: "trailer_hooks option \<Rightarrow> string \<Rightarrow> u64 option" where
  "kv_trailer_serialized_size hooks text =
     (case hooks of None \<Rightarrow> Some 0
      | Some h \<Rightarrow> (case hk_serialized_size h of None \<Rightarrow> Some 0 | Some szf \<Rightarrow> szf text))"

definition kv_trailer_write :: "trailer_hooks option \<Rightarrow> string \<Rightarrow> byte list option" where
  "kv_trailer_write hooks text =
     (case hooks of None \<Rightarrow> Some []
      | Some h \<Rightarrow> (case hk_write h of None \<Rightarrow> Some [] | Some wr \<Rightarrow> wr text))"

section \<open>Storing\<close>

definition kv_cache_file_text_matches :: "io \<Rightarrow> fs \<Rightarrow> string \<Rightarrow> string \<Rightarrow> string \<Rightarrow> bool" where
  "kv_cache_file_text_matches w f path sha text =
     (if 0xFFFFFFFF < length text then False
      else (case fopen_read w f path of None \<Rightarrow> False
            | Some file \<Rightarrow>
              (case ds4_kvstore_read_header file of None \<Rightarrow> False
               | Some (hdr, text_bytes) \<Rightarrow>
                 if text_bytes \<noteq> of_nat (length text) then False
                 else let stored = take (unat text_bytes) (drop 52 file) in
                   if length stored \<noteq> unat text_bytes then False
                   else ds4_kvstore_sha1_bytes_hex stored = sha
                        \<and> (text = [] \<or> stored = bytes_of text))))"

definition kv_cache_existing_compatible ::
  "io \<Rightarrow> fs \<Rightarrow> kvstore \<Rightarrow> string \<Rightarrow> string \<Rightarrow> string \<Rightarrow> int \<Rightarrow> int \<Rightarrow> int \<Rightarrow> bool \<times> fs" where
  "kv_cache_existing_compatible w f kc path sha text model_id quant_bits ctx_size =
     (if f path = None then (False, f)
      else (case ds4_kvstore_read_entry_file w f path sha of None \<Rightarrow> (False, f)
            | Some e \<Rightarrow>
              if ke_model_id e = of_int model_id
                 \<and> (\<not> kc_reject_different_quant kc \<or> ke_quant_bits e = of_int quant_bits)
                 \<and> ke_ctx_size e \<le> of_int ctx_size
                 \<and> kv_cache_file_text_matches w f path sha text
              then (True, f) else (False, snd (unlink w f path))))"

definition kv_cache_rewrite_trailer ::
  "io \<Rightarrow> fs \<Rightarrow> string \<Rightarrow> string \<Rightarrow> trailer_hooks option \<Rightarrow> fs" where
  "kv_cache_rewrite_trailer w f path text hooks =
     (case hooks of None \<Rightarrow> f
      | Some hk \<Rightarrow>
        if hk_write hk = None \<or> hk_serialized_size hk = None
           \<or> kv_trailer_serialized_size hooks text = None
           \<or> kv_trailer_serialized_size hooks text = Some 0 then f
        else (case fopen_read w f path of None \<Rightarrow> f
          | Some file \<Rightarrow>
            (case ds4_kvstore_read_header file of None \<Rightarrow> f
             | Some (hdr, text_bytes) \<Rightarrow>
               let fin = 52 + ucast text_bytes + ke_payload_bytes hdr in
               if fin \<le> 0x7FFFFFFFFFFFFFFF \<and> io_truncate_ok w path then
                 (let base = truncate_bytes (unat fin) file in
                  case kv_trailer_write hooks text of
                    None \<Rightarrow> f(path \<mapsto> base)
                  | Some tr \<Rightarrow>
                    (case written w path tr of
                       (False, bs) \<Rightarrow> f(path \<mapsto> base @ bs)
                     | (True, bs) \<Rightarrow>
                       if bs = [] then f(path \<mapsto> base)
                       else
                         let h = ds4_kvstore_fill_header (ke_model_id hdr) (ke_quant_bits hdr)
                                   (ke_reason hdr) (ke_ext_flags hdr OR hk_ext_flag hk)
                                   (ke_tokens hdr) (ke_hits hdr) (ke_ctx_size hdr)
                                   (ke_created_at hdr) (io_now w) (ke_payload_bytes hdr)
                         in f(path \<mapsto> store_at 0 (snd (written w path h)) (base @ bs))))
               else f)))"

text \<open>Writing the checkpoint to a temporary file and renaming it over the final path.\<close>

definition write_checkpoint ::
  "io \<Rightarrow> fs \<Rightarrow> kvstore \<Rightarrow> string \<Rightarrow> byte list \<Rightarrow> string \<Rightarrow> byte list \<Rightarrow> trailer_hooks option \<Rightarrow> bool \<times> fs" where
  "write_checkpoint w f kc path h text payload hooks =
     (let tmp = path @ ''.tmp.'' @ io_pid w in
      if \<not> io_create_ok w tmp then (False, f)
      else
        let head = h @ ds4_kvstore_le_put32 (of_nat (length text)) @ bytes_of text @ payload;
            (ok, bs, trailer_bytes) =
              (case kv_trailer_write hooks text of
                 None \<Rightarrow> (False, snd (written w tmp head), 0)
               | Some tr \<Rightarrow> (case written w tmp (head @ tr) of (k, bs) \<Rightarrow> (k, bs, length tr)));
            f1 = f(tmp \<mapsto> bs);
            ok1 = (ok \<and> fst (ds4_kvstore_file_size_fits kc (of_nat (length text))
                              (of_nat (length payload)) (of_nat trailer_bytes)));
            ok2 = (ok1 \<and> io_rename_ok w tmp path)
        in if ok2 then (True, f1(path \<mapsto> bs, tmp := None))
           else (False, snd (unlink w f1 tmp)))"

definition ds4_kvstore_store_live_prefix_text ::
  "io \<Rightarrow> engine \<Rightarrow> 's session_ops \<Rightarrow> trailer_hooks option \<Rightarrow> fs \<Rightarrow> kvstore \<Rightarrow> 's
     \<Rightarrow> int list option \<Rightarrow> int \<Rightarrow> string \<Rightarrow> string option \<Rightarrow> byte \<Rightarrow> bool \<times> fs \<times> kvstore" where
  "ds4_kvstore_store_live_prefix_text w eng so hooks f kc s tokens store_len reason override ext =
     (if \<not> kc_enabled kc \<or> tokens = None \<or> store_len < min_tokens (kc_opt kc) then (False, f, kc)
      else
        let store_tokens = ds4_kvstore_tokens_copy_prefix tokens store_len;
            quant_bits = eng_quant_bits eng; model_id = eng_model_id eng in
        if quant_bits \<noteq> 2 \<and> quant_bits \<noteq> 4 then (False, f, kc)
        else if so_tokens so s \<noteq> Some store_tokens then (False, f, kc)
        else
          let text_override = (override \<noteq> None \<and> override \<noteq> Some []);
              text = (if text_override then the override
                      else ds4_kvstore_render_tokens_text eng store_tokens) in
          if 0xFFFFFFFF < length text then (False, f, kc)
          else (case kv_trailer_serialized_size hooks text of None \<Rightarrow> (False, f, kc)
            | Some trailer_est \<Rightarrow>
              let sha = ds4_kvstore_sha1_bytes_hex (bytes_of text);
                  path = ds4_kvstore_path_for_sha (kc_dir kc) sha;
                  (compat, f1) = kv_cache_existing_compatible w f kc path sha text model_id quant_bits (so_ctx so s) in
              if compat then (True, kv_cache_rewrite_trailer w f1 path text hooks, kc)
              else (case so_stage_payload so s of None \<Rightarrow> (False, f1, kc)
                | Some payload \<Rightarrow>
                  (case ds4_kvstore_file_size_fits kc (of_nat (length text)) (of_nat (length payload)) trailer_est of
                     (False, _) \<Rightarrow> (False, f1, kc)
                   | (True, est_file, _) \<Rightarrow>
                     let incoming = \<lparr>ec_text = Some (bytes_of text), ec_model_id = of_int model_id,
                                     ec_quant_bits = of_int quant_bits, ec_ctx_size = of_int (so_ctx so s),
                                     ec_reject_different_quant = kc_reject_different_quant kc\<rparr>;
                         (f2, kc2) = ds4_kvstore_evict w f1 kc (the est_file) (Some incoming);
                         ext_flags = (if 0 < trailer_est then (case hooks of None \<Rightarrow> 0 | Some hk \<Rightarrow> hk_ext_flag hk) else 0);
                         ext_flags' = (if text_override then ext_flags OR ext else ext_flags);
                         h = ds4_kvstore_fill_header (of_int model_id) (of_int quant_bits)
                               (ds4_kvstore_reason_code (Some reason)) ext_flags'
                               (of_nat (length store_tokens)) 0 (of_int (so_ctx so s))
                               (io_now w) (io_now w) (of_nat (length payload));
                         (ok, f3) = write_checkpoint w f2 kc2 path h text payload hooks
                     in (ok, f3, kc2)))))"

definition ds4_kvstore_store_live_prefix ::
  "io \<Rightarrow> engine \<Rightarrow> 's session_ops \<Rightarrow> trailer_hooks option \<Rightarrow> fs \<Rightarrow> kvstore \<Rightarrow> 's
     \<Rightarrow> int list option \<Rightarrow> int \<Rightarrow> string \<Rightarrow> bool \<times> fs \<times> kvstore" where
  "ds4_kvstore_store_live_prefix w eng so hooks f kc s tokens store_len reason =
     ds4_kvstore_store_live_prefix_text w eng so hooks f kc s tokens store_len reason None 0"

definition ds4_kvstore_maybe_store_continued ::
  "io \<Rightarrow> engine \<Rightarrow> 's session_ops \<Rightarrow> trailer_hooks option \<Rightarrow> fs \<Rightarrow> kvstore \<Rightarrow> 's \<Rightarrow> bool \<times> fs \<times> kvstore" where
  "ds4_kvstore_maybe_store_continued w eng so hooks f kc s =
     (case so_tokens so s of None \<Rightarrow> (False, f, kc)
      | Some tokens \<Rightarrow>
        let target = ds4_kvstore_continued_store_target kc (int (length tokens)) in
        if target = 0 then (False, f, kc)
        else (case ds4_kvstore_store_live_prefix w eng so hooks f kc s (Some tokens) target ''continued'' of
                (True, f', kc') \<Rightarrow> (True, f', ds4_kvstore_note_store kc' target)
              | (False, f', kc') \<Rightarrow> (False, f', kc')))"

section \<open>Finding and loading\<close>

definition find_step :: "kvstore \<Rightarrow> byte list \<Rightarrow> int \<Rightarrow> int \<Rightarrow> int \<Rightarrow> nat option \<Rightarrow> nat \<Rightarrow> nat option" where
  "find_step kc prompt model_id quant_bits ctx_size best i =
     (let e = kc_entry kc ! i in
      if length prompt < unat (ke_text_bytes e) then best
      else if sint (ke_tokens e) < min_tokens (kc_opt kc) then best
      else if ke_model_id e \<noteq> of_int model_id then best
      else if of_int ctx_size < ke_ctx_size e then best
      else if kc_reject_different_quant kc \<and> ke_quant_bits e \<noteq> of_int quant_bits then best
      else if (case best of None \<Rightarrow> False
               | Some j \<Rightarrow> let b = kc_entry kc ! j in
                   ke_text_bytes e < ke_text_bytes b
                   \<or> (ke_text_bytes e = ke_text_bytes b \<and> ke_tokens e \<le> ke_tokens b)) then best
      else if ds4_kvstore_sha1_bytes_hex (take (unat (ke_text_bytes e)) prompt) = ke_sha e
      then Some i else best)"

definition ds4_kvstore_find_text_prefix ::
  "io \<Rightarrow> fs \<Rightarrow> kvstore \<Rightarrow> string option \<Rightarrow> int \<Rightarrow> int \<Rightarrow> int \<Rightarrow> nat option \<times> kvstore" where
  "ds4_kvstore_find_text_prefix w f kc prompt_text model_id quant_bits ctx_size =
     (case prompt_text of None \<Rightarrow> (None, kc)
      | Some t \<Rightarrow>
        let kc1 = kv_cache_refresh w f kc in
        (foldl (find_step kc1 (bytes_of t) model_id quant_bits ctx_size) None
           [0..<length (kc_entry kc1)], kc1))"

datatype load_fail = InvalidHeader | DifferentModel | TextLonger | TruncatedText | HashMismatch | PrefixMismatch

text \<open>The checks on the chosen file before its payload is read: the header, its text length and the
  position of the payload.\<close>

definition check_cached :: "byte list \<Rightarrow> kv_entry \<Rightarrow> byte list \<Rightarrow> int \<Rightarrow> load_fail + (kv_entry \<times> u32)" where
  "check_cached file e prompt model_id =
     (case ds4_kvstore_read_header file of None \<Rightarrow> Inl InvalidHeader
      | Some (hdr, text_bytes) \<Rightarrow>
        if ke_model_id hdr \<noteq> of_int model_id then Inl DifferentModel
        else if length prompt < unat text_bytes then Inl TextLonger
        else let cached = take (unat text_bytes) (drop 52 file) in
          if length cached \<noteq> unat text_bytes then Inl TruncatedText
          else if ds4_kvstore_sha1_bytes_hex cached \<noteq> ke_sha e then Inl HashMismatch
          else if \<not> ds4_kvstore_byte_prefix_match prompt cached then Inl PrefixMismatch
          else Inr (hdr, text_bytes))"

record load_result =
  lr_tokens :: int
  lr_text_bytes :: u32
  lr_quant_bits :: byte
  lr_ext_flags :: byte
  lr_consumed :: bool
  lr_path :: string

text \<open>The result of a load: the tokens loaded, the prompt to evaluate, the details of a hit, the
  bytes handed to the trailer hook, and the new session, store and file system.\<close>

record 's load_out =
  lo_loaded :: int
  lo_prompt :: "int list"
  lo_result :: "load_result option"
  lo_trailer :: "byte list option"
  lo_session :: 's
  lo_store :: kvstore
  lo_fs :: fs

definition load_none :: "'s \<Rightarrow> kvstore \<Rightarrow> fs \<Rightarrow> 's load_out" where
  "load_none s kc f = \<lparr>lo_loaded = 0, lo_prompt = [], lo_result = None, lo_trailer = None,
     lo_session = s, lo_store = kc, lo_fs = f\<rparr>"

text \<open>What happens after the tokens of the session have been restored.\<close>

definition load_hit ::
  "io \<Rightarrow> engine \<Rightarrow> trailer_hooks option \<Rightarrow> fs \<Rightarrow> kvstore \<Rightarrow> 's \<Rightarrow> int list \<Rightarrow> string \<Rightarrow> byte list
     \<Rightarrow> string \<Rightarrow> kv_entry \<Rightarrow> u32 \<Rightarrow> 's load_out" where
  "load_hit w eng hooks f kc s tokens prompt_text file path hdr text_bytes =
     (let loaded = sint (ke_tokens hdr);
          prompt = ds4_kvstore_build_prompt_from_exact_prefix_and_text_suffix eng tokens
                     (drop (unat text_bytes) prompt_text);
          trailer = (case hooks of None \<Rightarrow> None
                     | Some hk \<Rightarrow> if hk_load hk \<and> ke_ext_flags hdr AND hk_ext_flag hk \<noteq> 0
                                  then Some (drop (52 + unat text_bytes + unat (ke_payload_bytes hdr)) file)
                                  else None);
          consume = (0 < cold_max_tokens (kc_opt kc) \<and> cold_max_tokens (kc_opt kc) < loaded);
          f' = (if consume then snd (unlink w f path)
                else snd (ds4_kvstore_touch_file w f path (ke_hits hdr + 1)))
      in if 0 < loaded
         then \<lparr>lo_loaded = loaded, lo_prompt = prompt,
               lo_result = Some \<lparr>lr_tokens = loaded, lr_text_bytes = text_bytes,
                 lr_quant_bits = ke_quant_bits hdr, lr_ext_flags = ke_ext_flags hdr,
                 lr_consumed = consume, lr_path = path\<rparr>,
               lo_trailer = trailer, lo_session = s,
               lo_store = kc\<lparr>kc_continued_last_store_tokens := loaded\<rparr>, lo_fs = f'\<rparr>
         else \<lparr>lo_loaded = loaded, lo_prompt = prompt, lo_result = None, lo_trailer = trailer,
               lo_session = s, lo_store = kc, lo_fs = f\<rparr>)"

definition ds4_kvstore_try_load_text ::
  "io \<Rightarrow> engine \<Rightarrow> 's session_ops \<Rightarrow> trailer_hooks option \<Rightarrow> fs \<Rightarrow> kvstore \<Rightarrow> 's \<Rightarrow> string option \<Rightarrow> 's load_out" where
  "ds4_kvstore_try_load_text w eng so hooks f kc s prompt_text =
     (if \<not> kc_enabled kc \<or> prompt_text = None then load_none s kc f
      else if eng_quant_bits eng \<noteq> 2 \<and> eng_quant_bits eng \<noteq> 4 then load_none s kc f
      else
        let pt = the prompt_text; model_id = eng_model_id eng;
            (idx, kc1) = ds4_kvstore_find_text_prefix w f kc prompt_text model_id (eng_quant_bits eng) (so_ctx so s) in
        (case idx of None \<Rightarrow> load_none s kc1 f
         | Some i \<Rightarrow>
           let e = kc_entry kc1 ! i; path = ke_path e in
           (case fopen_read w f path of None \<Rightarrow> load_none s kc1 f
            | Some file \<Rightarrow>
              (case check_cached file e (bytes_of pt) model_id of
                 Inl _ \<Rightarrow> load_none s kc1 f
               | Inr (hdr, text_bytes) \<Rightarrow>
                 (case so_load_payload so s (drop (52 + unat text_bytes) file) (ke_payload_bytes hdr) of
                    (False, s1) \<Rightarrow> load_none (so_invalidate so s1) kc1 f
                  | (True, s1) \<Rightarrow>
                    (case so_tokens so s1 of
                       None \<Rightarrow> load_none (so_invalidate so s1) kc1 (snd (unlink w f path))
                     | Some ts \<Rightarrow>
                       if int (length ts) = sint (ke_tokens hdr)
                       then load_hit w eng hooks f kc1 s1 ts pt file path hdr text_bytes
                       else load_none (so_invalidate so s1) kc1 (snd (unlink w f path))))))))"

section \<open>Scanning: lemmas\<close>

definition entry_of :: "io \<Rightarrow> fs \<Rightarrow> string \<Rightarrow> string \<Rightarrow> kv_entry option" where
  "entry_of w f dir name =
     (case ds4_kvstore_sha_hex_name name of None \<Rightarrow> None
      | Some sha \<Rightarrow> ds4_kvstore_read_entry_file w f (path_join dir name) sha)"

lemma refresh_fold:
  "foldl (refresh_step w f) kc names = kc\<lparr>kc_entry := kc_entry kc @ List.map_filter (entry_of w f (kc_dir kc)) names\<rparr>"
proof (induction names arbitrary: kc)
  case Nil
  then show ?case by simp
next
  case (Cons n names)
  have "refresh_step w f kc n = kc\<lparr>kc_entry := kc_entry kc @ List.map_filter (entry_of w f (kc_dir kc)) [n]\<rparr>"
    by (simp add: refresh_step_def entry_of_def kv_cache_push_def List.map_filter_simps split: option.splits)
  then show ?case by (simp add: Cons.IH List.map_filter_simps split: option.splits)
qed

lemma kv_cache_refresh_enabled:
  "kc_enabled kc \<Longrightarrow> kv_cache_refresh w f kc =
     kc\<lparr>kc_entry := (case io_readdir w f (kc_dir kc) of None \<Rightarrow> []
                     | Some names \<Rightarrow> List.map_filter (entry_of w f (kc_dir kc)) names)\<rparr>"
  by (simp add: kv_cache_refresh_def ds4_kvstore_clear_def refresh_fold Let_def split: option.splits)

lemma refresh_frame [simp]:
  "kc_enabled (kv_cache_refresh w f kc) = kc_enabled kc" "kc_opt (kv_cache_refresh w f kc) = kc_opt kc"
  "kc_dir (kv_cache_refresh w f kc) = kc_dir kc" "kc_budget_bytes (kv_cache_refresh w f kc) = kc_budget_bytes kc"
  "kc_reject_different_quant (kv_cache_refresh w f kc) = kc_reject_different_quant kc"
  "kc_continued_last_store_tokens (kv_cache_refresh w f kc) = kc_continued_last_store_tokens kc"
  by (simp_all add: kv_cache_refresh_def ds4_kvstore_clear_def refresh_fold Let_def split: option.splits)

lemma in_map_filter: "x \<in> set (List.map_filter g xs) \<longleftrightarrow> (\<exists>a \<in> set xs. g a = Some x)"
  by (auto simp: List.map_filter_def image_iff)

section \<open>Eviction: lemmas\<close>

definition disk_usage :: "kv_entry list \<Rightarrow> nat" where
  "disk_usage es = sum_list (map (\<lambda>e. unat (ke_file_size e)) es)"

lemma disk_usage_simps [simp]: "disk_usage [] = 0" "disk_usage (e # es) = unat (ke_file_size e) + disk_usage es"
  "disk_usage (es @ es') = disk_usage es + disk_usage es'"
  by (simp_all add: disk_usage_def)

lemma total_is_disk_usage:
  "unat t + disk_usage es < 2 ^ 64 \<Longrightarrow>
     unat (foldl (\<lambda>t e. t + ke_file_size e) t es) = unat t + disk_usage es"
proof (induction es arbitrary: t)
  case (Cons e es)
  have "unat (t + ke_file_size e) = unat t + unat (ke_file_size e)"
    using Cons.prems by (intro unat_add64) simp
  then show ?case using Cons.IH [of "t + ke_file_size e"] Cons.prems by simp
qed simp

lemma split_at_victim:
  "v < length es \<Longrightarrow> disk_usage es = disk_usage (take v es @ drop (Suc v) es) + unat (ke_file_size (es ! v))"
  using id_take_nth_drop [of v es] disk_usage_simps(2,3) by (metis add.assoc add.commute)

lemma evict_loop_stop: "\<not> target < t \<or> es = [] \<Longrightarrow> evict_loop w score target f es t = (f, es)"
  by (subst evict_loop.simps) auto

lemma evict_loop_step:
  assumes "target < t" "es \<noteq> []" "unlink w f (ke_path (es ! victim_index score es)) = (ok, f')"
  shows "evict_loop w score target f es t =
     (let v = victim_index score es; e = es ! v in
      evict_loop w score target f' (take v es @ drop (Suc v) es)
        (if ok then (if ke_file_size e \<le> t then t - ke_file_size e else 0) else 0))"
  using assms by (subst evict_loop.simps) (simp add: Let_def)

text \<open>Whatever fails, eviction only removes files that the scan found, and keeps the rest.\<close>

lemma evict_loop_frame:
  "evict_loop w score target f es t = (f', es') \<Longrightarrow>
     set es' \<subseteq> set es \<and> (\<forall>p. f' p = f p \<or> (f' p = None \<and> p \<in> ke_path ` set es))"
proof (induction w score target f es t arbitrary: f' es' rule: evict_loop.induct)
  case (1 w score target f es t)
  show ?case
  proof (cases "target < t \<and> es \<noteq> []")
    case False
    with "1.prems" show ?thesis by (auto simp: evict_loop_stop)
  next
    case True
    let ?v = "victim_index score es"
    obtain ok f1 where u: "unlink w f (ke_path (es ! ?v)) = (ok, f1)" by fastforce
    have v: "?v < length es" using True victim_index_props(1) by blast
    have sub: "set (take ?v es @ drop (Suc ?v) es) \<subseteq> set es"
      using set_take_subset set_drop_subset by fastforce
    have f1: "f1 p = f p \<or> (f1 p = None \<and> p \<in> ke_path ` set es)" for p
      using u v by (auto simp: unlink_def split: if_splits)
    have r: "evict_loop w score target f1 (take ?v es @ drop (Suc ?v) es)
        (if ok then (if ke_file_size (es ! ?v) \<le> t then t - ke_file_size (es ! ?v) else 0) else 0) = (f', es')"
      using "1.prems" evict_loop_step [of target t es w f score ok f1] True u by (simp add: Let_def)
    note ih = "1.IH" [OF True refl refl u [symmetric] refl refl r]
    show ?thesis using ih sub f1 by (metis (no_types, lifting) image_mono order_trans subsetD)
  qed
qed

text \<open>When every unlink succeeds the loop stops within the target, having removed from the disk
  exactly the entries it dropped.\<close>

lemma evict_loop_target:
  assumes "evict_loop w score target f es t = (f', es')" "unat t = disk_usage es"
    and "distinct (map ke_path es)" "\<forall>e \<in> set es. f (ke_path e) \<noteq> None \<and> io_unlink_ok w (ke_path e)"
  shows "disk_usage es' \<le> unat target
     \<and> (\<forall>e \<in> set es. f' (ke_path e) = (if e \<in> set es' then f (ke_path e) else None))
     \<and> distinct (map ke_path es')"
  using assms
proof (induction w score target f es t arbitrary: f' es' rule: evict_loop.induct)
  case (1 w score target f es t)
  show ?case
  proof (cases "target < t \<and> es \<noteq> []")
    case False
    then have "f' = f" "es' = es" using "1.prems"(1) by (auto simp: evict_loop_stop)
    moreover have "disk_usage es \<le> unat target"
      using False "1.prems"(2) by (cases "es = []") (auto simp: word_less_nat_alt not_less)
    ultimately show ?thesis using "1.prems" by simp
  next
    case True
    let ?v = "victim_index score es" and ?e = "es ! victim_index score es"
    let ?es = "take ?v es @ drop (Suc ?v) es" and ?f = "f(ke_path ?e := None)"
    have v: "?v < length es" using True victim_index_props(1) by blast
    then have mem: "?e \<in> set es" by simp
    have split: "es = take ?v es @ ?e # drop (Suc ?v) es" using v by (rule id_take_nth_drop)
    have u: "unlink w f (ke_path ?e) = (True, ?f)"
      using "1.prems"(4) mem by (simp add: unlink_def)
    have us: "disk_usage es = disk_usage ?es + unat (ke_file_size ?e)" using v by (rule split_at_victim)
    then have le: "ke_file_size ?e \<le> t" using "1.prems"(2) by (simp add: word_le_nat_alt)
    have t': "unat (t - ke_file_size ?e) = disk_usage ?es"
      using us "1.prems"(2) le by (simp add: unat_sub64)
    have r: "evict_loop w score target ?f ?es (t - ke_file_size ?e) = (f', es')"
      using "1.prems"(1) evict_loop_step [of target t es w f score True ?f] True u le by (simp add: Let_def)
    have dist: "distinct (map ke_path ?es)" and fresh: "ke_path ?e \<notin> ke_path ` set ?es"
      using "1.prems"(3) by (subst (asm) split, force)+
    have sub: "set ?es \<subseteq> set es" and whole: "set es = insert ?e (set ?es)"
      by (subst (2) split, force) (subst split, force)
    have ne: "ke_path e \<noteq> ke_path ?e" if "e \<in> set ?es" for e
      using fresh that by (metis image_eqI)
    have pre: "\<forall>e \<in> set ?es. ?f (ke_path e) \<noteq> None \<and> io_unlink_ok w (ke_path e)"
    proof
      fix e assume e: "e \<in> set ?es"
      then have "e \<in> set es" using sub by blast
      with "1.prems"(4) ne [OF e] show "?f (ke_path e) \<noteq> None \<and> io_unlink_ok w (ke_path e)" by simp
    qed
    let ?t = "if True then (if ke_file_size ?e \<le> t then t - ke_file_size ?e else 0) else 0"
    have t: "?t = t - ke_file_size ?e" using le by (simp only: if_True)
    have "evict_loop w score target ?f ?es ?t = (f', es')" "unat ?t = disk_usage ?es"
      unfolding t by (fact r t')+
    note ih = "1.IH" [OF True refl refl u [symmetric] refl refl this dist pre]
    have "set es' \<subseteq> set ?es" using evict_loop_frame [OF r] by blast
    then have "?e \<notin> set es'" using fresh by (metis image_eqI subsetD)
    moreover have "f' (ke_path ?e) = None"
      using evict_loop_frame [OF r, THEN conjunct2, rule_format, of "ke_path ?e"] by (metis fun_upd_same)
    moreover have "f' (ke_path e) = (if e \<in> set es' then f (ke_path e) else None)" if "e \<in> set ?es" for e
      using ih that ne [OF that] by (metis fun_upd_other)
    ultimately show ?thesis using ih whole by auto
  qed
qed

end
