(* ===== verification/KvTheorems.thy ===== *)
theory KvTheorems
  imports KvStore
begin

text \<open>
  What the checkpoint store guarantees: the properties of the format, of the policy, of
  eviction, of the lookup and of storing and loading, with the lemmas that connect them to the
  definitions of \<^verbatim>\<open>KvFormat\<close>, \<^verbatim>\<open>KvPolicy\<close> and \<^verbatim>\<open>KvStore\<close>.
\<close>

section \<open>Lookup: the longest stored prefix\<close>

text \<open>An entry that may serve a prompt: it fits the model, the context and the quantisation, has
  enough tokens, and its name is the hash of that many bytes of the prompt.\<close>

definition eligible :: "kvstore \<Rightarrow> byte list \<Rightarrow> int \<Rightarrow> int \<Rightarrow> int \<Rightarrow> kv_entry \<Rightarrow> bool" where
  "eligible kc prompt model_id quant_bits ctx_size e \<longleftrightarrow>
     unat (ke_text_bytes e) \<le> length prompt
     \<and> min_tokens (kc_opt kc) \<le> sint (ke_tokens e)
     \<and> ke_model_id e = of_int model_id
     \<and> ke_ctx_size e \<le> of_int ctx_size
     \<and> (kc_reject_different_quant kc \<longrightarrow> ke_quant_bits e = of_int quant_bits)
     \<and> ds4_kvstore_sha1_bytes_hex (take (unat (ke_text_bytes e)) prompt) = ke_sha e"

definition no_better :: "kv_entry \<Rightarrow> kv_entry \<Rightarrow> bool" where
  "no_better e b \<longleftrightarrow> ke_text_bytes e < ke_text_bytes b
     \<or> (ke_text_bytes e = ke_text_bytes b \<and> ke_tokens e \<le> ke_tokens b)"

lemma no_better_refl [simp]: "no_better e e"
  by (simp add: no_better_def)

lemma no_better_trans: "no_better a b \<Longrightarrow> no_better b c \<Longrightarrow> no_better a c"
  by (auto simp: no_better_def)

lemma no_better_total: "no_better a b \<or> no_better b a"
  by (auto simp: no_better_def)

lemma find_step_eq:
  "find_step kc p m q c best i =
     (if eligible kc p m q c (kc_entry kc ! i)
         \<and> (case best of None \<Rightarrow> True | Some j \<Rightarrow> \<not> no_better (kc_entry kc ! i) (kc_entry kc ! j))
      then Some i else best)"
  by (auto simp: find_step_def eligible_def no_better_def Let_def not_less not_le split: option.splits)

lemma find_fold:
  "case foldl (find_step kc p m q c) None [0..<n] of
     None \<Rightarrow> \<forall>i < n. \<not> eligible kc p m q c (kc_entry kc ! i)
   | Some b \<Rightarrow> b < n \<and> eligible kc p m q c (kc_entry kc ! b)
       \<and> (\<forall>i < n. eligible kc p m q c (kc_entry kc ! i) \<longrightarrow> no_better (kc_entry kc ! i) (kc_entry kc ! b))"
proof (induction n)
  case 0
  then show ?case by simp
next
  case (Suc n)
  let ?r = "foldl (find_step kc p m q c) None [0..<n]"
  have step: "foldl (find_step kc p m q c) None [0..<Suc n] = find_step kc p m q c ?r n" by simp
  show ?case
  proof (cases ?r)
    case None
    have "foldl (find_step kc p m q c) None [0..<Suc n]
        = (if eligible kc p m q c (kc_entry kc ! n) then Some n else None)"
      unfolding step None by (subst find_step_eq) simp
    then show ?thesis using Suc None by (auto simp del: upt_Suc simp: less_Suc_eq)
  next
    case (Some b)
    have "foldl (find_step kc p m q c) None [0..<Suc n]
        = (if eligible kc p m q c (kc_entry kc ! n) \<and> \<not> no_better (kc_entry kc ! n) (kc_entry kc ! b)
           then Some n else Some b)"
      unfolding step Some by (subst find_step_eq) simp
    moreover have "no_better (kc_entry kc ! i) (kc_entry kc ! n)"
      if "no_better (kc_entry kc ! i) (kc_entry kc ! b)" "\<not> no_better (kc_entry kc ! n) (kc_entry kc ! b)" for i
      using that no_better_total no_better_trans by blast
    ultimately show ?thesis using Suc Some by (auto simp del: upt_Suc simp: less_Suc_eq)
  qed
qed

section \<open>Writing a checkpoint\<close>

lemma written_True: "written w p bs = (True, bs') \<Longrightarrow> bs' = bs"
  by (auto simp: written_def split: option.splits)

lemma tmp_ne_path [simp]: "path @ ''.tmp.'' @ s \<noteq> path" "path \<noteq> path @ ''.tmp.'' @ s"
  by simp_all

lemma write_checkpoint_cases:
  assumes "write_checkpoint w f kc path h text payload hooks = (ok, f')"
  shows "(ok \<longrightarrow> (\<exists>tr. kv_trailer_write hooks text = Some tr
            \<and> f' path = Some (h @ ds4_kvstore_le_put32 (of_nat (length text)) @ bytes_of text @ payload @ tr)
            \<and> (\<forall>q. q \<noteq> path \<and> q \<noteq> path @ ''.tmp.'' @ io_pid w \<longrightarrow> f' q = f q)))
    \<and> (\<not> ok \<longrightarrow> (\<forall>q. q \<noteq> path @ ''.tmp.'' @ io_pid w \<longrightarrow> f' q = f q))"
  using assms written_True [of w "path @ ''.tmp.'' @ io_pid w"]
  by (auto simp: write_checkpoint_def Let_def unlink_def split: if_splits option.splits prod.splits)

section \<open>Storing: the successful run\<close>

text \<open>A store that finds no file under its name and succeeds has written exactly the header, the
  text and the payload under that name.\<close>

lemma evict_keeps_path:
  assumes "ds4_kvstore_evict w f kc extra inc = (f', kc')" "f p = None"
  shows "f' p = None"
proof (cases "kc_enabled kc \<and> kc_budget_bytes kc \<noteq> 0 \<and> \<not> kc_budget_bytes kc < extra")
  case False
  then show ?thesis using assms by (auto simp: ds4_kvstore_evict_def split: if_splits)
next
  case True
  obtain es where "evict_loop w (\<lambda>e. ds4_kvstore_entry_eviction_score e (io_now w) inc)
      (kc_budget_bytes kc - extra) f (kc_entry (kv_cache_refresh w f kc))
      (foldl (\<lambda>t e. t + ke_file_size e) 0 (kc_entry (kv_cache_refresh w f kc))) = (f', es)"
    using assms(1) True by (auto simp: ds4_kvstore_evict_def Let_def split: prod.splits)
  from evict_loop_frame [OF this] assms(2) show ?thesis by metis
qed

lemma evict_frame:
  assumes "ds4_kvstore_evict w f kc extra inc = (f', kc')"
  shows "kc_enabled kc' = kc_enabled kc \<and> kc_dir kc' = kc_dir kc \<and> kc_opt kc' = kc_opt kc
     \<and> kc_reject_different_quant kc' = kc_reject_different_quant kc"
  using assms by (auto simp: ds4_kvstore_evict_def Let_def split: if_splits prod.splits)

lemma store_new_file:
  assumes r: "ds4_kvstore_store_live_prefix_text w eng so None f kc s (Some tokens) n reason override ext
       = (True, f', kc')"
    and live: "so_tokens so s = Some tokens" "length tokens \<le> nat n" "0 \<le> n"
    and stage: "so_stage_payload so s = Some payload"
    and tx: "text = (if override \<noteq> None \<and> override \<noteq> Some [] then the override
                       else ds4_kvstore_render_tokens_text eng tokens)"
    and path: "path = ds4_kvstore_path_for_sha (kc_dir kc) (ds4_kvstore_sha1_bytes_hex (bytes_of text))"
    and fresh: "f path = None"
  shows "\<exists>x. f' path = Some (ds4_kvstore_fill_header (of_int (eng_model_id eng)) (of_int (eng_quant_bits eng))
             (ds4_kvstore_reason_code (Some reason)) x (of_nat (length tokens)) 0 (of_int (so_ctx so s))
             (io_now w) (io_now w) (of_nat (length payload))
           @ ds4_kvstore_le_put32 (of_nat (length text)) @ bytes_of text @ payload)
      \<and> kc_enabled kc' \<and> kc_dir kc' = kc_dir kc \<and> kc_opt kc' = kc_opt kc
      \<and> kc_reject_different_quant kc' = kc_reject_different_quant kc
      \<and> length text \<le> 0xFFFFFFFF \<and> (eng_quant_bits eng = 2 \<or> eng_quant_bits eng = 4)"
proof -
  have cp: "ds4_kvstore_tokens_copy_prefix (Some tokens) n = tokens"
    using live by (simp add: ds4_kvstore_tokens_copy_prefix_def)
  have ts: "kv_trailer_serialized_size None text = Some 0"
    by (simp add: kv_trailer_serialized_size_def)
  have ex: "kv_cache_existing_compatible w f kc path sha text m q c = (False, f)" for sha m q c
    using fresh by (simp add: kv_cache_existing_compatible_def)
  have g: "kc_enabled kc" "eng_quant_bits eng = 2 \<or> eng_quant_bits eng = 4" "\<not> 0xFFFFFFFF < length text"
    using r unfolding ds4_kvstore_store_live_prefix_text_def Let_def cp tx [symmetric]
    by (auto split: if_splits)
  obtain f2 kc2 x est where
    ev: "ds4_kvstore_evict w f kc (the est) (Some \<lparr>ec_text = Some (bytes_of text),
        ec_model_id = of_int (eng_model_id eng), ec_quant_bits = of_int (eng_quant_bits eng),
        ec_ctx_size = of_int (so_ctx so s), ec_reject_different_quant = kc_reject_different_quant kc\<rparr>) = (f2, kc2)"
    and wr: "write_checkpoint w f2 kc2 path (ds4_kvstore_fill_header (of_int (eng_model_id eng)) (of_int (eng_quant_bits eng))
             (ds4_kvstore_reason_code (Some reason)) x (of_nat (length tokens)) 0 (of_int (so_ctx so s))
             (io_now w) (io_now w) (of_nat (length payload))) text payload None = (True, f')"
    and kc': "kc' = kc2"
    using r g unfolding ds4_kvstore_store_live_prefix_text_def Let_def cp tx [symmetric] path [symmetric]
    by (auto simp: live(1) ts ex stage split: if_splits prod.splits bool.splits)
  from write_checkpoint_cases [OF wr] have
    "f' path = Some (ds4_kvstore_fill_header (of_int (eng_model_id eng)) (of_int (eng_quant_bits eng))
             (ds4_kvstore_reason_code (Some reason)) x (of_nat (length tokens)) 0 (of_int (so_ctx so s))
             (io_now w) (io_now w) (of_nat (length payload))
           @ ds4_kvstore_le_put32 (of_nat (length text)) @ bytes_of text @ payload)"
    by (auto simp: kv_trailer_write_def)
  then show ?thesis using g evict_frame [OF ev] kc' by (intro exI [of _ x]) auto
qed

section \<open>Reading back what was stored\<close>

text \<open>The bytes of a checkpoint with these fields.\<close>

definition checkpoint_bytes ::
  "byte \<Rightarrow> byte \<Rightarrow> byte \<Rightarrow> byte \<Rightarrow> nat \<Rightarrow> u32 \<Rightarrow> u64 \<Rightarrow> string \<Rightarrow> byte list \<Rightarrow> byte list" where
  "checkpoint_bytes m q r x n ctx now text payload =
     ds4_kvstore_fill_header m q r x (of_nat n) 0 ctx now now (of_nat (length payload))
     @ ds4_kvstore_le_put32 (of_nat (length text)) @ bytes_of text @ payload"

lemma checkpoint_drop_text:
  "drop 52 (checkpoint_bytes m q r x n ctx now text payload) = bytes_of text @ payload"
  by (simp add: checkpoint_bytes_def)

lemma checkpoint_header:
  assumes "0 < n" "n < 2 ^ 32" "q = 2 \<or> q = 4" "r \<le> 6"
  shows "ds4_kvstore_read_header (checkpoint_bytes m q r x n ctx now text payload) =
     Some (\<lparr>ke_sha = [], ke_path = [], ke_quant_bits = q, ke_model_id = m, ke_reason = r,
            ke_tokens = of_nat n, ke_hits = 0, ke_ctx_size = ctx, ke_ext_flags = x, ke_created_at = now,
            ke_last_used = now, ke_payload_bytes = of_nat (length payload),
            ke_text_bytes = ucast (of_nat (length text) :: u32), ke_file_size = 0\<rparr>, of_nat (length text))"
  using assms by (simp add: checkpoint_bytes_def read_fill_header of_nat32_nz)

lemma checkpoint_entry:
  assumes "0 < n" "n < 2 ^ 32" "q = 2 \<or> q = 4" "r \<le> 6"
    and l: "length text < 2 ^ 32" "52 + length text + length payload < 2 ^ 64"
  shows "\<exists>e. read_entry_bytes (checkpoint_bytes m q r x n ctx now text payload) path sha = Some e
     \<and> ke_sha e = sha \<and> ke_path e = path \<and> ke_quant_bits e = q \<and> ke_model_id e = m
     \<and> ke_tokens e = of_nat n \<and> ke_ctx_size e = ctx \<and> unat (ke_text_bytes e) = length text"
proof -
  let ?b = "checkpoint_bytes m q r x n ctx now text payload"
  let ?t = "ucast (of_nat (length text) :: u32) :: u64" and ?p = "of_nat (length payload) :: u64"
  have len: "length ?b = 52 + length text + length payload" by (simp add: checkpoint_bytes_def)
  have t: "unat ?t = length text" using l(1) by (rule ucast_of_nat32)
  have p: "unat ?p = length payload" using l(2) by (intro unat_of_nat64) simp
  have g1: "\<not> UINT64_MAX - 52 < ?t" unfolding max_minus_less_iff using t l by simp
  have a: "unat (52 + ?t) = 52 + length text" using max_minus_not_less [OF g1] t by simp
  have g2: "\<not> UINT64_MAX - 52 - ?t < ?p"
    unfolding diff_diff_eq max_minus_less_iff a p using l by simp
  have "unat (52 + ?t + ?p) = length ?b"
    using max_minus_not_less [of "52 + ?t" ?p] g2 a p len unfolding diff_diff_eq by simp
  moreover have "unat (of_nat (length ?b) :: u64) = length ?b"
    using l(2) len by (intro unat_of_nat64) simp
  ultimately have sz: "\<not> (of_nat (length ?b) :: u64) < 52 + ?t + ?p" by (simp add: word_less_nat_alt)
  show ?thesis
    using g1 g2 sz t len
    by (simp only: read_entry_bytes_def Let_def checkpoint_header [OF assms(1-4)] option.case prod.case)
       (simp add: DS4_KVSTORE_FIXED_HEADER_def)
qed

lemma reason_code_le: "ds4_kvstore_reason_code r \<le> 6"
  by (simp add: ds4_kvstore_reason_code_def DS4_KVSTORE_REASON_CONTINUED_def
      DS4_KVSTORE_REASON_AGENT_SESSION_def split: option.splits)

lemma path_for_sha_name: "ds4_kvstore_path_for_sha dir (ds4_kvstore_sha1_bytes_hex p)
    = path_join dir (ds4_kvstore_sha1_bytes_hex p @ ''.kv'')"
  by (simp add: ds4_kvstore_path_for_sha_def)

lemma map_filter_only:
  assumes "filter P names = [x]" "\<And>n. \<not> P n \<Longrightarrow> g n = None" "g x = Some y"
  shows "List.map_filter g names = [y]"
proof -
  have "List.map_filter g names = List.map_filter g (filter P names)"
    using assms(2) by (induction names) (auto simp: List.map_filter_simps split: option.splits)
  then show ?thesis using assms(1,3) by (simp add: List.map_filter_simps)
qed

text \<open>Loading, when the scan of the directory finds exactly one checkpoint and it holds a prefix of
  the prompt.\<close>

lemma load_single:
  assumes stored: "f path = Some (checkpoint_bytes m q r x (length tokens) ctx now text payload)"
    and path: "path = ds4_kvstore_path_for_sha (kc_dir kc) (ds4_kvstore_sha1_bytes_hex (bytes_of text))"
    and opens: "io_open_ok w path"
    and names: "io_readdir w f (kc_dir kc) = Some names"
      "filter (\<lambda>n. ds4_kvstore_sha_hex_name n \<noteq> None) names = [ds4_kvstore_sha1_bytes_hex (bytes_of text) @ ''.kv'']"
    and n: "0 < length tokens" "length tokens < 2 ^ 31" "min_tokens (kc_opt kc) \<le> int (length tokens)"
    and hdr: "q = of_int (eng_quant_bits eng)" "eng_quant_bits eng = 2 \<or> eng_quant_bits eng = 4"
      "m = of_int (eng_model_id eng)" "ctx = of_int (so_ctx so s)" "r \<le> 6"
    and l: "length text < 2 ^ 32" "52 + length text + length payload < 2 ^ 64"
    and load: "so_load_payload so s payload (of_nat (length payload)) = (True, s')" "so_tokens so s' = Some tokens"
    and en: "kc_enabled kc"
  shows "lo_loaded (ds4_kvstore_try_load_text w eng so hooks f kc s (Some (text @ suffix))) = int (length tokens)
     \<and> lo_prompt (ds4_kvstore_try_load_text w eng so hooks f kc s (Some (text @ suffix)))
         = tokens @ eng_tokenize_rendered_chat eng suffix
     \<and> lo_session (ds4_kvstore_try_load_text w eng so hooks f kc s (Some (text @ suffix))) = s'"
proof -
  let ?b = "checkpoint_bytes m q r x (length tokens) ctx now text payload"
  let ?sha = "ds4_kvstore_sha1_bytes_hex (bytes_of text)"
  have q: "q = 2 \<or> q = 4" using hdr(1,2) by auto
  have n32: "length tokens < 2 ^ 32" using n(2) by simp
  obtain e where e: "read_entry_bytes ?b path ?sha = Some e" "ke_sha e = ?sha" "ke_path e = path"
      "ke_quant_bits e = q" "ke_model_id e = m" "ke_tokens e = of_nat (length tokens)" "ke_ctx_size e = ctx"
      "unat (ke_text_bytes e) = length text"
    using checkpoint_entry [OF n(1) n32 q hdr(5) l] by blast
  have p: "path_join (kc_dir kc) (?sha @ ''.kv'') = path" using path path_for_sha_name by simp
  have "entry_of w f (kc_dir kc) (?sha @ ''.kv'') = Some e"
    using stored opens e(1) p
    by (simp add: entry_of_def sha_hex_name_of_hash ds4_kvstore_read_entry_file_def fopen_read_def)
  then have "List.map_filter (entry_of w f (kc_dir kc)) names = [e]"
    by (rule map_filter_only [OF names(2), rotated 1]) (simp add: entry_of_def)
  then have ref: "kv_cache_refresh w f kc = kc\<lparr>kc_entry := [e]\<rparr>"
    using en names(1) by (simp add: kv_cache_refresh_enabled)
  let ?kc = "kc\<lparr>kc_entry := [e]\<rparr>"
  have tb: "unat (of_nat (length text) :: u32) = length text" using l(1) by (rule unat_of_nat32)
  have el: "eligible ?kc (bytes_of (text @ suffix)) (eng_model_id eng) (eng_quant_bits eng) (so_ctx so s) e"
    using e n hdr by (simp add: eligible_def sint_of_nat32)
  have "find_step ?kc (bytes_of (text @ suffix)) (eng_model_id eng) (eng_quant_bits eng) (so_ctx so s) None 0 = Some 0"
    using el by (subst find_step_eq) simp
  then have find: "ds4_kvstore_find_text_prefix w f kc (Some (text @ suffix)) (eng_model_id eng)
      (eng_quant_bits eng) (so_ctx so s) = (Some 0, ?kc)"
    by (simp add: ds4_kvstore_find_text_prefix_def ref)
  note h = checkpoint_header [OF n(1) n32 q hdr(5), of m x ctx now "text" payload]
  have chk: "check_cached ?b e (bytes_of (text @ suffix)) (eng_model_id eng)
     = Inr (fst (the (ds4_kvstore_read_header ?b)), of_nat (length text))"
    using e(2) hdr(3) [symmetric] tb by (simp add: check_cached_def h checkpoint_drop_text byte_prefix_match_iff)
  have d: "drop (52 + length text) ?b = payload"
    using checkpoint_drop_text [of m q r x "length tokens" ctx now "text" payload]
    by (metis add.commute append_eq_conv_conj drop_drop length_bytes_of)
  have qb: "(eng_quant_bits eng \<noteq> 2 \<and> eng_quant_bits eng \<noteq> 4) = False" using hdr(2) by auto
  have "ds4_kvstore_try_load_text w eng so hooks f kc s (Some (text @ suffix)) =
     load_hit w eng hooks f ?kc s' tokens (text @ suffix) ?b path (fst (the (ds4_kvstore_read_header ?b))) (of_nat (length text))"
    using en find stored opens e(3) chk load tb d n(2)
    by (simp add: ds4_kvstore_try_load_text_def fopen_read_def h sint_of_nat32 qb)
  then show ?thesis
    using n tb by (simp add: load_hit_def h sint_of_nat32 Let_def
        ds4_kvstore_build_prompt_from_exact_prefix_and_text_suffix_def tokens_append_def)
qed

lemma lo_loaded_none [simp]: "lo_loaded (load_none a b c) = 0"
  by (simp add: load_none_def)

section \<open>A small instance\<close>

text \<open>An engine whose tokens are characters, a session that is its token list, and an environment in
  which every call succeeds and a directory lists the given names. The witnesses run the store on
  them.\<close>

definition char_engine :: engine where
  "char_engine = \<lparr>eng_quant_bits = 2, eng_model_id = 1, eng_token_text = (\<lambda>t. [char_of (nat t)]),
     eng_tokenize_rendered_chat = map (\<lambda>c. int (of_char c))\<rparr>"

definition list_session :: "int list session_ops" where
  "list_session = \<lparr>so_tokens = Some, so_ctx = (\<lambda>_. 4096), so_stage_payload = (\<lambda>s. Some (map of_int s)),
     so_load_payload = (\<lambda>s bs n. (True, map uint (take (unat n) bs))), so_invalidate = (\<lambda>_. [])\<rparr>"

definition good_io :: "string list \<Rightarrow> io" where
  "good_io names = \<lparr>io_now = 7, io_readdir = (\<lambda>f d. Some names), io_open_ok = (\<lambda>_. True),
     io_create_ok = (\<lambda>_. True), io_unlink_ok = (\<lambda>_. True), io_rename_ok = (\<lambda>_ _. True),
     io_truncate_ok = (\<lambda>_. True), io_write_short = (\<lambda>_. None), io_mkdir_ok = (\<lambda>_. True), io_pid = ''9''\<rparr>"

definition open_store :: "u64 \<Rightarrow> kvstore" where
  "open_store budget = kvstore_zero\<lparr>kc_enabled := True, kc_dir := ''kv'', kc_budget_bytes := budget\<rparr>"

text \<open>A directory with one checkpoint of 56 bytes.\<close>

definition sample_name :: string where
  "sample_name = replicate 40 CHR ''a'' @ ''.kv''"

definition sample_path :: string where
  "sample_path = ''kv/'' @ sample_name"

definition sample_disk :: fs where
  "sample_disk = [sample_path \<mapsto> checkpoint_bytes 1 2 1 0 2 4096 7 ''hi'' [104, 105]]"

lemmas instance_defs = char_engine_def list_session_def good_io_def open_store_def kvstore_zero_def

lemma sample_scan:
  "\<exists>e. kv_cache_refresh (good_io [sample_name]) sample_disk (open_store b) = (open_store b)\<lparr>kc_entry := [e]\<rparr>
     \<and> ke_path e = sample_path \<and> unat (ke_file_size e) = 56"
proof -
  let ?b = "checkpoint_bytes 1 2 1 0 2 4096 7 ''hi'' [104, 105]"
  obtain e where e: "read_entry_bytes ?b sample_path (replicate 40 CHR ''a'') = Some e" "ke_path e = sample_path"
    using checkpoint_entry [of 2 2 1 "''hi''" "[104, 105]" 1 0 4096 7 sample_path "replicate 40 CHR ''a''"] by auto
  have "length ?b = 56" by (simp add: checkpoint_bytes_def)
  then have sz: "unat (ke_file_size e) = 56" using read_entry_bytes_sound [OF e(1)] by simp
  have n: "ds4_kvstore_sha_hex_name sample_name = Some (replicate 40 CHR ''a'')"
    by (simp add: ds4_kvstore_sha_hex_name_def sample_name_def isxdigit_def tolower_def isdigit_def ord_def list_all_iff)
  have p: "path_join ''kv'' sample_name = sample_path"
    by (simp add: path_join_def sample_path_def)
  have "kv_cache_refresh (good_io [sample_name]) sample_disk (open_store b) = (open_store b)\<lparr>kc_entry := [e]\<rparr>"
    using e n p by (simp add: kv_cache_refresh_enabled entry_of_def ds4_kvstore_read_entry_file_def fopen_read_def
        sample_disk_def List.map_filter_simps instance_defs)
  then show ?thesis using e sz by blast
qed

section \<open>Properties\<close>

text \<open>C1: storing a session's checkpoint and then asking for a prompt that continues its text restores
  the stored token history and appends the tokens of the remaining text only. The payload of a
  session is assumed to restore its tokens when it is loaded, and the directory to list the new
  file as its only checkpoint.\<close>

theorem store_then_load:
  assumes store: "ds4_kvstore_store_live_prefix_text w eng so None f kc s (Some tokens) n reason override ext
       = (True, f', kc')"
    and live: "so_tokens so s = Some tokens" "length tokens \<le> nat n"
    and n: "0 < length tokens" "length tokens < 2 ^ 31" "min_tokens (kc_opt kc) \<le> int (length tokens)"
    and stage: "so_stage_payload so s = Some payload" "52 + length text + length payload < 2 ^ 64"
    and tx: "text = (if override \<noteq> None \<and> override \<noteq> Some [] then the override
                       else ds4_kvstore_render_tokens_text eng tokens)"
    and path: "path = ds4_kvstore_path_for_sha (kc_dir kc) (ds4_kvstore_sha1_bytes_hex (bytes_of text))"
    and fresh: "f path = None" and opens: "io_open_ok w path"
    and names: "io_readdir w f' (kc_dir kc) = Some names"
      "filter (\<lambda>n. ds4_kvstore_sha_hex_name n \<noteq> None) names = [ds4_kvstore_sha1_bytes_hex (bytes_of text) @ ''.kv'']"
    and load: "so_load_payload so s2 payload (of_nat (length payload)) = (True, s3)" "so_tokens so s3 = Some tokens"
      "so_ctx so s2 = so_ctx so s"
  shows "lo_loaded (ds4_kvstore_try_load_text w eng so hooks f' kc' s2 (Some (text @ suffix))) = int (length tokens)
     \<and> lo_prompt (ds4_kvstore_try_load_text w eng so hooks f' kc' s2 (Some (text @ suffix)))
         = tokens @ eng_tokenize_rendered_chat eng suffix
     \<and> lo_session (ds4_kvstore_try_load_text w eng so hooks f' kc' s2 (Some (text @ suffix))) = s3"
proof -
  have n0: "0 \<le> n" using live(2) n(1) by (cases "0 \<le> n") simp_all
  obtain x where x: "f' path = Some (checkpoint_bytes (of_int (eng_model_id eng)) (of_int (eng_quant_bits eng))
        (ds4_kvstore_reason_code (Some reason)) x (length tokens) (of_int (so_ctx so s)) (io_now w) text payload)"
    and kc: "kc_enabled kc'" "kc_dir kc' = kc_dir kc" "kc_opt kc' = kc_opt kc"
    and tl: "length text \<le> 0xFFFFFFFF" "eng_quant_bits eng = 2 \<or> eng_quant_bits eng = 4"
    using store_new_file [OF store live n0 stage(1) tx path fresh] unfolding checkpoint_bytes_def by blast
  show ?thesis
    by (rule load_single [where f = f' and path = path and x = x])
       (use x path opens names n kc tl reason_code_le load stage(2) in simp_all)
qed

lemma store_then_load_witness:
  "\<exists>f' kc'.
     ds4_kvstore_store_live_prefix_text (good_io [ds4_kvstore_sha1_bytes_hex (bytes_of ''hi'') @ ''.kv'']) char_engine
       list_session None Map.empty (open_store 0) [104, 105] (Some [104, 105]) 2 ''cold'' None 0 = (True, f', kc')
   \<and> lo_loaded (ds4_kvstore_try_load_text (good_io [ds4_kvstore_sha1_bytes_hex (bytes_of ''hi'') @ ''.kv''])
       char_engine list_session None f' kc' [] (Some ''hi!'')) = 2
   \<and> lo_prompt (ds4_kvstore_try_load_text (good_io [ds4_kvstore_sha1_bytes_hex (bytes_of ''hi'') @ ''.kv''])
       char_engine list_session None f' kc' [] (Some ''hi!'')) = [104, 105, 33]"
proof -
  let ?w = "good_io [ds4_kvstore_sha1_bytes_hex (bytes_of ''hi'') @ ''.kv'']"
  have "\<exists>f' kc'. ds4_kvstore_store_live_prefix_text ?w char_engine list_session None Map.empty (open_store 0)
      [104, 105] (Some [104, 105]) 2 ''cold'' None 0 = (True, f', kc')"
    by (simp add: ds4_kvstore_store_live_prefix_text_def ds4_kvstore_tokens_copy_prefix_def instance_defs
        ds4_kvstore_render_tokens_text_def kv_trailer_serialized_size_def kv_cache_existing_compatible_def Let_def
        ds4_kvstore_file_size_fits_def ds4_kvstore_evict_def write_checkpoint_def kv_trailer_write_def written_def
        kv_cache_file_size_bytes_def kv_cache_budget_required_def char_of_def)
  then obtain f' kc' where st: "ds4_kvstore_store_live_prefix_text ?w char_engine list_session None Map.empty
      (open_store 0) [104, 105] (Some [104, 105]) 2 ''cold'' None 0 = (True, f', kc')" by blast
  have "lo_loaded (ds4_kvstore_try_load_text ?w char_engine list_session None f' kc' [] (Some (''hi'' @ ''!''))) = int (length [104, 105 :: int])
     \<and> lo_prompt (ds4_kvstore_try_load_text ?w char_engine list_session None f' kc' [] (Some (''hi'' @ ''!'')))
         = [104, 105] @ eng_tokenize_rendered_chat char_engine ''!''
     \<and> lo_session (ds4_kvstore_try_load_text ?w char_engine list_session None f' kc' [] (Some (''hi'' @ ''!''))) = [104, 105]"
    by (rule store_then_load [OF st, where payload = "[104, 105]" and names = "[ds4_kvstore_sha1_bytes_hex (bytes_of ''hi'') @ ''.kv'']"])
       (simp_all add: instance_defs ds4_kvstore_render_tokens_text_def char_of_def bit_0 sha_hex_name_of_hash)
  then show ?thesis using st by (intro exI [of _ f'] exI [of _ kc']) (simp add: char_engine_def)
qed

text \<open>C2: a successful load is sound whatever is on the disk: some file of the disk was written for the
  engine's model, its recorded text is a byte prefix of the prompt, the session is what its payload
  restores and holds as many tokens as its header says, and the prompt to evaluate is those tokens
  followed by the tokens of the rest of the prompt only.\<close>

theorem load_sound:
  assumes "lo_loaded (ds4_kvstore_try_load_text w eng so hooks f kc s (Some t)) \<noteq> 0"
  shows "\<exists>path bytes hdr tb text suffix ts s1.
       f path = Some bytes \<and> ds4_kvstore_read_header bytes = Some (hdr, tb)
     \<and> ke_model_id hdr = of_int (eng_model_id eng)
     \<and> unat tb = length text \<and> take (length text) (drop 52 bytes) = bytes_of text \<and> t = text @ suffix
     \<and> so_load_payload so s (drop (52 + length text) bytes) (ke_payload_bytes hdr) = (True, s1)
     \<and> lo_session (ds4_kvstore_try_load_text w eng so hooks f kc s (Some t)) = s1
     \<and> so_tokens so s1 = Some ts \<and> int (length ts) = sint (ke_tokens hdr)
     \<and> lo_loaded (ds4_kvstore_try_load_text w eng so hooks f kc s (Some t)) = int (length ts)
     \<and> lo_prompt (ds4_kvstore_try_load_text w eng so hooks f kc s (Some t)) = ts @ eng_tokenize_rendered_chat eng suffix"
proof -
  let ?out = "ds4_kvstore_try_load_text w eng so hooks f kc s (Some t)"
  obtain idx kc1 where find: "ds4_kvstore_find_text_prefix w f kc (Some t) (eng_model_id eng)
      (eng_quant_bits eng) (so_ctx so s) = (idx, kc1)" by fastforce
  have en: "kc_enabled kc" "eng_quant_bits eng = 2 \<or> eng_quant_bits eng = 4"
  proof -
    have "?out = load_none s kc f" if "\<not> kc_enabled kc \<or> eng_quant_bits eng \<noteq> 2 \<and> eng_quant_bits eng \<noteq> 4"
      using that unfolding ds4_kvstore_try_load_text_def by auto
    then show "kc_enabled kc" "eng_quant_bits eng = 2 \<or> eng_quant_bits eng = 4"
      using assms by (metis lo_loaded_none)+
  qed
  have qb: "(eng_quant_bits eng \<noteq> 2 \<and> eng_quant_bits eng \<noteq> 4) = False" using en(2) by auto
  note unfold = ds4_kvstore_try_load_text_def [of w eng so hooks f kc s "Some t"] qb
  obtain i where i: "idx = Some i"
    using assms en(1) by (cases idx) (simp_all add: unfold find)
  let ?e = "kc_entry kc1 ! i"
  obtain bytes where fl: "fopen_read w f (ke_path ?e) = Some bytes"
    using assms en(1) i by (cases "fopen_read w f (ke_path ?e)") (simp_all add: unfold find)
  have "\<exists>p. check_cached bytes ?e (bytes_of t) (eng_model_id eng) = Inr p"
    using assms en(1) i fl by (cases "check_cached bytes ?e (bytes_of t) (eng_model_id eng)") (simp_all add: unfold find)
  then obtain hdr tb where chk: "check_cached bytes ?e (bytes_of t) (eng_model_id eng) = Inr (hdr, tb)"
    by auto
  obtain ok s1 where ld0: "so_load_payload so s (drop (52 + unat tb) bytes) (ke_payload_bytes hdr) = (ok, s1)"
    by fastforce
  have ok: "ok" using assms en(1) i fl chk ld0 by (cases ok) (simp_all add: unfold find)
  then have ld: "so_load_payload so s (drop (52 + unat tb) bytes) (ke_payload_bytes hdr) = (True, s1)"
    using ld0 by simp
  obtain ts where ts1: "so_tokens so s1 = Some ts"
    using assms en(1) i fl chk ld by (cases "so_tokens so s1") (simp_all add: unfold find)
  have ts2: "int (length ts) = sint (ke_tokens hdr)"
    using assms en(1) i fl chk ld ts1 by (rule_tac ccontr) (simp_all add: unfold find)
  note ts = ts1 ts2
  have out: "?out = load_hit w eng hooks f kc1 s1 ts t bytes (ke_path ?e) hdr tb"
    using en(1) i fl chk ld ts by (simp_all add: unfold find)
  have fp: "f (ke_path ?e) = Some bytes" using fl by (auto simp: fopen_read_def split: if_splits)
  have c: "ds4_kvstore_read_header bytes = Some (hdr, tb)" "ke_model_id hdr = of_int (eng_model_id eng)"
      "unat tb \<le> length t" "length (take (unat tb) (drop 52 bytes)) = unat tb"
      "ds4_kvstore_byte_prefix_match (bytes_of t) (take (unat tb) (drop 52 bytes))"
    using chk by (auto simp: check_cached_def Let_def split: option.splits if_splits)
  let ?text = "take (unat tb) t"
  have lt: "length ?text = unat tb" using c(3) by simp
  have pre: "take (unat tb) (drop 52 bytes) = bytes_of ?text"
    using c(4,5) unfolding ds4_kvstore_byte_prefix_match_def
    by (metis length_0_conv take_bytes_of take_eq_Nil)
  have "lo_session ?out = s1" "lo_loaded ?out = int (length ts)"
    "lo_prompt ?out = ts @ eng_tokenize_rendered_chat eng (drop (unat tb) t)"
    unfolding out using ts(2)
    by (simp_all add: load_hit_def Let_def ds4_kvstore_build_prompt_from_exact_prefix_and_text_suffix_def tokens_append_def)
  moreover have "t = ?text @ drop (unat tb) t" by simp
  ultimately show ?thesis
    using fp c(1,2) lt pre ld ts
    by (intro exI [of _ "ke_path (kc_entry kc1 ! i)"] exI [of _ bytes] exI [of _ hdr] exI [of _ tb]
        exI [of _ ?text] exI [of _ "drop (unat tb) t"] exI [of _ ts] exI [of _ s1]) simp
qed

lemma load_sound_witness:
  "\<exists>path bytes hdr tb text suffix. ''hi!'' = text @ suffix \<and> unat tb = length text
     \<and> take (length text) (drop 52 bytes) = bytes_of text
     \<and> ds4_kvstore_read_header bytes = Some (hdr, tb)
     \<and> (\<lambda>p. if p = ds4_kvstore_path_for_sha ''kv'' (ds4_kvstore_sha1_bytes_hex (bytes_of ''hi''))
          then Some (checkpoint_bytes 1 2 1 0 2 4096 7 ''hi'' [104, 105]) else None) path = Some bytes"
proof -
  let ?w = "good_io [ds4_kvstore_sha1_bytes_hex (bytes_of ''hi'') @ ''.kv'']"
  let ?f = "\<lambda>p. if p = ds4_kvstore_path_for_sha ''kv'' (ds4_kvstore_sha1_bytes_hex (bytes_of ''hi''))
          then Some (checkpoint_bytes 1 2 1 0 2 4096 7 ''hi'' [104, 105]) else None"
  have "lo_loaded (ds4_kvstore_try_load_text ?w char_engine list_session None ?f (open_store 0) [] (Some (''hi'' @ ''!''))) = int (length [104, 105 :: int])
     \<and> lo_prompt (ds4_kvstore_try_load_text ?w char_engine list_session None ?f (open_store 0) [] (Some (''hi'' @ ''!'')))
         = [104, 105] @ eng_tokenize_rendered_chat char_engine ''!''
     \<and> lo_session (ds4_kvstore_try_load_text ?w char_engine list_session None ?f (open_store 0) [] (Some (''hi'' @ ''!''))) = [104, 105]"
    by (rule load_single [where path = "ds4_kvstore_path_for_sha ''kv'' (ds4_kvstore_sha1_bytes_hex (bytes_of ''hi''))"
          and names = "[ds4_kvstore_sha1_bytes_hex (bytes_of ''hi'') @ ''.kv'']" and m = 1 and q = 2 and r = 1 and x = 0
          and ctx = 4096 and now = 7 and payload = "[104, 105]"])
       (simp_all add: instance_defs sha_hex_name_of_hash numeral_2_eq_2 [symmetric])
  then have "lo_loaded (ds4_kvstore_try_load_text ?w char_engine list_session None ?f (open_store 0) [] (Some ''hi!'')) \<noteq> 0"
    by simp
  from load_sound [OF this] show ?thesis by blast
qed

end
