(* ===== verification/BaseProps.thy ===== *)
theory BaseProps
  imports Ssd KvTheorems
begin

text \<open>
  The guarantees of the shared building blocks: the growable buffer of \<^verbatim>\<open>buf.c\<close>, path building,
  the two hash functions, and the memory planning of \<^verbatim>\<open>ds4_ssd.c\<close>.
\<close>

text \<open>appending to a \<^verbatim>\<open>DynBuf\<close> either extends its text by exactly the given bytes, with the
  terminating NUL in place and the invariant kept, or fails because the size does not fit or the
  allocator refuses a block that is really needed; the growth loop never runs for ever.\<close>

theorem dynbuf_append_correct:
  assumes "dynbuf_inv b" "length p < 2 ^ 64"
  shows "case dynbuf_append mok b p of
      Inr b' \<Rightarrow> dynbuf_inv b' \<and> dynbuf_text b' = dynbuf_text b @ p \<and> dynbuf_terminated b'
    | Inl e \<Rightarrow> (e = BufferOverflow \<and> 2 ^ 63 < unat (db_len b) + length p + 1)
        \<or> (e = OutOfMemory \<and> (\<exists>c. \<not> mok c \<and> unat (db_len b) + length p < unat c))"
proof (cases "dynbuf_append mok b p")
  case (Inl e)
  then have "dynbuf_reserve mok b (of_nat (length p)) = Inl e"
    by (auto simp: dynbuf_append_def bind_res_def split: sum.splits)
  from dynbuf_reserve_error [OF assms(1) this] show ?thesis
    using Inl assms(2) by (auto simp: unat_of_nat64)
next
  case (Inr b')
  then show ?thesis using dynbuf_append_ok [OF assms Inr] by simp
qed

lemma dynbuf_append_correct_witness:
  "case dynbuf_append (\<lambda>c. c \<noteq> 256) dynbuf_empty ''x'' of
      Inr b' \<Rightarrow> dynbuf_text b' = ''x'' | Inl e \<Rightarrow> e \<noteq> Diverges"
  using dynbuf_append_correct [of dynbuf_empty "''x''" "\<lambda>c. c \<noteq> 256"] by (auto split: sum.splits)

text \<open>Building the path of a checkpoint in a buffer gives the directory and the name, with one
  separator between them unless the directory ends with one.\<close>

theorem path_join_correct:
  assumes "length dir < 2 ^ 64" "length name < 2 ^ 64" "ds4_kvstore_path_join mok dir name = Inr p"
  shows "p = path_join dir name"
  using assms by (rule path_join_buf)

lemma dynbuf_append_succeeds:
  assumes "dynbuf_inv b" "length (dynbuf_text b) + length p < 2 ^ 62" "\<And>c. mok c"
  shows "\<exists>b'. dynbuf_append mok b p = Inr b' \<and> dynbuf_inv b' \<and> dynbuf_text b' = dynbuf_text b @ p"
proof -
  have l: "length (dynbuf_text b) = unat (db_len b)"
    using assms(1) by (auto simp: dynbuf_inv_def dynbuf_text_def split: option.splits)
  have lp: "length p < 2 ^ 64" using assms(2) by simp
  have "dynbuf_reserve mok b (of_nat (length p)) \<noteq> Inl e" for e
    using dynbuf_reserve_error [OF assms(1), of mok "of_nat (length p)" e] assms(2,3) l
    by (auto simp: unat_of_nat64 [OF lp])
  then obtain b' where "dynbuf_append mok b p = Inr b'"
    by (cases "dynbuf_reserve mok b (of_nat (length p))") (auto simp: dynbuf_append_def)
  then show ?thesis using dynbuf_append_ok [OF assms(1) lp] by blast
qed

lemma path_join_correct_witness:
  "\<exists>p. ds4_kvstore_path_join (\<lambda>_. True) [] ''b'' = Inr p \<and> p = ''/b''"
proof -
  obtain b where b: "dynbuf_append (\<lambda>_. True) dynbuf_empty [] = Inr b" "dynbuf_inv b" "dynbuf_text b = []"
    using dynbuf_append_succeeds [of dynbuf_empty "[]" "\<lambda>_. True"] by auto
  obtain b1 where b1: "dynbuf_append (\<lambda>_. True) b ''/'' = Inr b1" "dynbuf_inv b1" "dynbuf_text b1 = ''/''"
    using dynbuf_append_succeeds [of b "''/''" "\<lambda>_. True"] b by auto
  obtain b2 where b2: "dynbuf_append (\<lambda>_. True) b1 ''b'' = Inr b2"
    using dynbuf_append_succeeds [of b1 "''b''" "\<lambda>_. True"] b1 by auto
  have "db_len b = 0" using b(2,3) by (auto simp: dynbuf_inv_def dynbuf_text_def unat_eq_zero split: option.splits)
  then obtain p where p: "ds4_kvstore_path_join (\<lambda>_. True) [] ''b'' = Inr p"
    using b(1) b1(1) b2 by (auto simp: ds4_kvstore_path_join_def dynbuf_puts_def dynbuf_putc_def)
  then show ?thesis using path_join_correct [OF _ _ p] by (simp add: path_join_def)
qed

text \<open>the checkpoint hash is SHA-1 of the whole text: the incremental code with its 64-byte block
  buffer computes the compression function folded over the padded message, in lower-case hex.\<close>

theorem sha1_is_padded_hash:
  "ds4_kvstore_sha1_bytes_hex p = hex_bytes (concat (map be_bytes (md_hash sha1_transform sha1_iv p)))"
  by (rule sha1_hex_eq)

text \<open>the blob id is SHA-256 of the whole text, in the same sense.\<close>

theorem sha256_is_padded_hash:
  "ds4_sha256_hex p = hex_bytes (concat (map be_bytes (md_hash ds4_sha256_transform sha256_iv p)))"
  by (rule sha256_hex_eq)

text \<open>A size argument is read exactly: what \<^verbatim>\<open>ds4_parse_gib_arg\<close> accepts is a positive decimal
  number, optionally followed by a two-letter unit, and the result is that many GiB with no
  wrap-around.\<close>

theorem parse_gib_exact:
  assumes "ds4_parse_gib_arg (Some s) = Some b"
  shows "\<exists>num suffix. s = num @ suffix \<and> num \<noteq> [] \<and> list_all isdigit num \<and> length suffix \<le> 2
     \<and> unat b = digits_val 0 num * 2 ^ 30 \<and> 0 < digits_val 0 num"
proof -
  obtain num where "num \<noteq> []" "list_all isdigit num" "s = num @ drop (length num) s" "length s \<le> length num + 2"
      "unat b = digits_val 0 num * 2 ^ 30" "0 < digits_val 0 num"
    using parse_gib_sound [OF assms] by blast
  then show ?thesis by (intro exI [of _ num] exI [of _ "drop (length num) s"]) simp
qed

lemma parse_gib_exact_witness:
  "\<exists>b num suffix. ds4_parse_gib_arg (Some ''12GB'') = Some b \<and> ''12GB'' = num @ suffix
     \<and> unat b = digits_val 0 num * 2 ^ 30"
proof -
  have "ds4_parse_gib_arg (Some ''12GB'') \<noteq> None"
    by (simp add: ds4_parse_gib_arg_def has_gb_suffix_def Let_def isdigit_def tolower_def ord_def strtoull10_def DS4_GIB_def)
  then obtain b where b: "ds4_parse_gib_arg (Some ''12GB'') = Some b" by auto
  from parse_gib_exact [OF b] b show ?thesis by blast
qed

text \<open>the SSD cache plan is sound: for a known budget and expert size it always has at least one
  expert and at most the model's, its byte size is that of its experts with no wrap-around, and it
  exceeds the cache share of the budget only for that single expert.\<close>

theorem auto_cache_plan_sound:
  assumes "recommended \<noteq> 0" "per \<noteq> 0"
  shows "\<exists>plan. ds4_ssd_auto_cache_plan recommended non_routed per max_experts = (True, plan)
     \<and> 1 \<le> unat (cache_experts plan)
     \<and> unat (effective_cache_bytes plan) = unat (cache_experts plan) * unat per
     \<and> (unat (effective_cache_bytes plan) \<le> unat (cache_bytes plan) \<or> cache_experts plan = 1)
     \<and> (max_experts \<noteq> 0 \<longrightarrow> unat (cache_experts plan) \<le> unat max_experts)"
  using assms by (rule auto_cache_plan_bounds)

lemma auto_cache_plan_sound_witness:
  "\<exists>plan. ds4_ssd_auto_cache_plan 1000 100 50 4 = (True, plan) \<and> 1 \<le> unat (cache_experts plan)
     \<and> unat (cache_experts plan) \<le> 4"
  using auto_cache_plan_sound [of 1000 50 100 4] by auto

text \<open>simulated memory pressure cleans up after itself: acquiring a memory lock returns, a failure
  leaves the address space as it was, and releasing what was acquired undoes the acquisition
  completely.\<close>

theorem memory_lock_balanced:
  assumes m: "mmap_at bytes = Some p" and fr: "vm_free p bytes v"
    and b: "unat bytes + 2 ^ 28 < 2 ^ 64" "bytes \<noteq> 0"
  shows "\<exists>ok lk v'. ds4_ssd_memory_lock_acquire mmap_at mlock_ok bytes v = Some (ok, lk, v')
           \<and> (\<not> ok \<longrightarrow> v' = v)
           \<and> ds4_ssd_memory_lock_release lk v' = (\<lparr>lk_ptr = None, lk_bytes = 0\<rparr>, v)"
  using assms by (rule memory_lock_release_undoes)

lemma memory_lock_balanced_witness:
  "\<exists>ok lk v'. ds4_ssd_memory_lock_acquire (\<lambda>_. Some 0x1000) (\<lambda>a n. a < 0x2000) 0x20000000 \<lparr>vm_maps = [], vm_locked = []\<rparr>
       = Some (ok, lk, v')
     \<and> ds4_ssd_memory_lock_release lk v' = (\<lparr>lk_ptr = None, lk_bytes = 0\<rparr>, \<lparr>vm_maps = [], vm_locked = []\<rparr>)"
  using memory_lock_balanced [where mmap_at = "\<lambda>_. Some 0x1000" and bytes = "0x20000000" and p = "0x1000"
      and v = "\<lparr>vm_maps = [], vm_locked = []\<rparr>" and mlock_ok = "\<lambda>a n. a < 0x2000"]
  by (auto simp: vm_free_def)

end
