(* ===== verification/KvProps.thy ===== *)
theory KvProps
  imports KvTheorems
begin

text \<open>
  The remaining guarantees of the checkpoint store: what a scan accepts, that eviction reaches the
  disk budget, that the lookup returns the longest stored prefix, that a store never leaves a
  partial checkpoint under a checkpoint's name, that a hit updates only the counters of a file, and
  the policy for when and how much to store.
\<close>

section \<open>Scanned entries\<close>

lemma read_entry_bytes_id:
  "read_entry_bytes file path sha = Some e \<Longrightarrow> ke_path e = path \<and> ke_sha e = sha"
  by (auto simp: read_entry_bytes_def Let_def split: if_splits option.splits)

lemma entry_of_Some:
  assumes "entry_of w f dir name = Some e"
  shows "ds4_kvstore_sha_hex_name name = Some (ke_sha e) \<and> ke_path e = path_join dir name
     \<and> io_open_ok w (ke_path e)
     \<and> (\<exists>file. f (ke_path e) = Some file \<and> read_entry_bytes file (ke_path e) (ke_sha e) = Some e)"
proof -
  obtain sha fb where n: "ds4_kvstore_sha_hex_name name = Some sha"
    and o: "io_open_ok w (path_join dir name)" "f (path_join dir name) = Some fb"
    and r: "read_entry_bytes fb (path_join dir name) sha = Some e"
    using assms by (auto simp: entry_of_def ds4_kvstore_read_entry_file_def fopen_read_def
        split: option.splits if_splits)
  then show ?thesis using read_entry_bytes_id [OF r] by auto
qed

lemma scanned:
  assumes "kc_enabled kc" "e \<in> set (kc_entry (kv_cache_refresh w f kc))"
  shows "\<exists>names name. io_readdir w f (kc_dir kc) = Some names \<and> name \<in> set names
     \<and> entry_of w f (kc_dir kc) name = Some e"
  using assms
  by (cases "io_readdir w f (kc_dir kc)") (auto simp: kv_cache_refresh_enabled in_map_filter)

lemma distinct_scan:
  assumes "kc_enabled kc" "io_readdir w f (kc_dir kc) = Some names" "distinct names"
  shows "distinct (map ke_path (kc_entry (kv_cache_refresh w f kc)))"
proof -
  have "distinct (map ke_path (List.map_filter (entry_of w f (kc_dir kc)) names))"
    using assms(3)
  proof (induction names)
    case (Cons n ns)
    have "ke_path e \<notin> ke_path ` set (List.map_filter (entry_of w f (kc_dir kc)) ns)"
      if "entry_of w f (kc_dir kc) n = Some e" for e
      using Cons.prems entry_of_Some [OF that] entry_of_Some
      by (fastforce simp: in_map_filter path_join_inject)
    then show ?case using Cons by (auto simp: List.map_filter_simps split: option.splits)
  qed (simp add: List.map_filter_simps)
  then show ?thesis using assms by (simp add: kv_cache_refresh_enabled)
qed

section \<open>Properties of the scan, of eviction and of the lookup\<close>

text \<open>C3: eviction reaches the budget: when the directory can be scanned, its names are distinct and
  its files can be removed, the entries that remain together with the room asked for fit the budget,
  exactly the files of the dropped entries are gone, and no other file of the disk changes.\<close>

theorem evict_within_budget:
  assumes r: "ds4_kvstore_evict w f kc extra inc = (f', kc')"
    and en: "kc_enabled kc" "kc_budget_bytes kc \<noteq> 0" "extra \<le> kc_budget_bytes kc"
    and names: "io_readdir w f (kc_dir kc) = Some names" "distinct names"
    and rm: "\<And>p. io_unlink_ok w p"
    and sz: "disk_usage (kc_entry (kv_cache_refresh w f kc)) < 2 ^ 64"
  shows "disk_usage (kc_entry kc') + unat extra \<le> unat (kc_budget_bytes kc)
     \<and> set (kc_entry kc') \<subseteq> set (kc_entry (kv_cache_refresh w f kc))
     \<and> (\<forall>e \<in> set (kc_entry (kv_cache_refresh w f kc)).
          f' (ke_path e) = (if e \<in> set (kc_entry kc') then f (ke_path e) else None))
     \<and> (\<forall>p. p \<notin> ke_path ` set (kc_entry (kv_cache_refresh w f kc)) \<longrightarrow> f' p = f p)"
proof -
  let ?kc = "kv_cache_refresh w f kc"
  obtain es where l: "evict_loop w (\<lambda>e. ds4_kvstore_entry_eviction_score e (io_now w) inc)
      (kc_budget_bytes kc - extra) f (kc_entry ?kc) (foldl (\<lambda>t e. t + ke_file_size e) 0 (kc_entry ?kc)) = (f', es)"
    and kc': "kc_entry kc' = es"
    using r en leD [OF en(3)] by (auto simp: ds4_kvstore_evict_def Let_def split: prod.splits)
  have t: "unat (foldl (\<lambda>t e. t + ke_file_size e) 0 (kc_entry ?kc)) = disk_usage (kc_entry ?kc)"
    using total_is_disk_usage [of 0] sz by simp
  have ex: "\<forall>e \<in> set (kc_entry ?kc). f (ke_path e) \<noteq> None \<and> io_unlink_ok w (ke_path e)"
    using rm scanned [OF en(1)] entry_of_Some by fastforce
  have "unat (kc_budget_bytes kc - extra) + unat extra = unat (kc_budget_bytes kc)"
    using en(3) by (simp add: unat_sub64 word_le_nat_alt)
  with evict_loop_target [OF l t distinct_scan [OF en(1) names] ex] evict_loop_frame [OF l] kc'
  show ?thesis by (metis (no_types, lifting) add_le_cancel_right)
qed

lemma evict_within_budget_witness:
  "disk_usage (kc_entry (kv_cache_refresh (good_io [sample_name]) sample_disk (open_store 100))) = 56
   \<and> fst (ds4_kvstore_evict (good_io [sample_name]) sample_disk (open_store 100) 60 None) sample_path = None"
proof -
  obtain e where e: "kv_cache_refresh (good_io [sample_name]) sample_disk (open_store 100) = (open_store 100)\<lparr>kc_entry := [e]\<rparr>"
      "ke_path e = sample_path" "unat (ke_file_size e) = 56"
    using sample_scan by blast
  obtain f' kc' where r: "ds4_kvstore_evict (good_io [sample_name]) sample_disk (open_store 100) 60 None = (f', kc')"
    by fastforce
  have c: "disk_usage (kc_entry kc') + unat (60 :: u64) \<le> unat (kc_budget_bytes (open_store 100))
     \<and> set (kc_entry kc') \<subseteq> set (kc_entry (kv_cache_refresh (good_io [sample_name]) sample_disk (open_store 100)))
     \<and> (\<forall>e \<in> set (kc_entry (kv_cache_refresh (good_io [sample_name]) sample_disk (open_store 100))).
          f' (ke_path e) = (if e \<in> set (kc_entry kc') then sample_disk (ke_path e) else None))
     \<and> (\<forall>p. p \<notin> ke_path ` set (kc_entry (kv_cache_refresh (good_io [sample_name]) sample_disk (open_store 100)))
          \<longrightarrow> f' p = sample_disk p)"
    by (rule evict_within_budget [OF r, where names = "[sample_name]"])
       (use e in \<open>simp_all add: instance_defs\<close>)
  have "f' sample_path = (if e \<in> set (kc_entry kc') then sample_disk sample_path else None)"
    using c [THEN conjunct2, THEN conjunct2, THEN conjunct1, THEN bspec, of e] e(2) unfolding e(1) by simp
  moreover have "disk_usage (kc_entry kc') \<le> 40" using c by (simp add: open_store_def)
  moreover have "e \<in> set (kc_entry kc') \<Longrightarrow> 56 \<le> disk_usage (kc_entry kc')"
    using e(3) member_le_sum_list [of 56 "map (\<lambda>e. unat (ke_file_size e)) (kc_entry kc')"]
    by (force simp: disk_usage_def)
  ultimately have "f' sample_path = None" by auto
  then show ?thesis using e r by simp
qed

text \<open>C37: the lookup returns the longest usable checkpoint: the entry it picks fits the model, the
  context and the options and is named by the hash of that prefix of the prompt, no other such entry
  of the directory holds more text (or as much text and more tokens), and it reports none only when
  there is none.\<close>

theorem find_longest_prefix:
  "case ds4_kvstore_find_text_prefix w f kc (Some t) model_id quant_bits ctx_size of (r, kc1) \<Rightarrow>
     kc1 = kv_cache_refresh w f kc
     \<and> (case r of
          None \<Rightarrow> \<not> (\<exists>e \<in> set (kc_entry kc1). eligible kc1 (bytes_of t) model_id quant_bits ctx_size e)
        | Some i \<Rightarrow> i < length (kc_entry kc1)
            \<and> eligible kc1 (bytes_of t) model_id quant_bits ctx_size (kc_entry kc1 ! i)
            \<and> list_all (\<lambda>e. no_better e (kc_entry kc1 ! i))
                 (filter (eligible kc1 (bytes_of t) model_id quant_bits ctx_size) (kc_entry kc1)))"
  using find_fold [where kc = "kv_cache_refresh w f kc" and p = "bytes_of t" and m = model_id and q = quant_bits and c = ctx_size
      and n = "length (kc_entry (kv_cache_refresh w f kc))"]
  by (auto simp: ds4_kvstore_find_text_prefix_def Let_def list_all_iff in_set_conv_nth split: option.splits)

text \<open>a scan accepts only complete checkpoints: each of its entries comes from an existing file
  of the directory whose name carries the hash, whose header is valid, and whose size covers the
  header, the text and the payload it announces.\<close>

theorem scan_accepts_complete_files:
  assumes "kc_enabled kc" "e \<in> set (kc_entry (kv_cache_refresh w f kc))"
    and "\<And>p file. f p = Some file \<Longrightarrow> length file < 2 ^ 64"
  shows "\<exists>name file. ds4_kvstore_sha_hex_name name = Some (ke_sha e) \<and> ke_path e = path_join (kc_dir kc) name
     \<and> f (ke_path e) = Some file \<and> take 4 file = kv_magic \<and> unat (ke_file_size e) = length file
     \<and> 52 + unat (ke_text_bytes e) + unat (ke_payload_bytes e) \<le> length file
     \<and> ke_tokens e \<noteq> 0 \<and> (ke_quant_bits e = 2 \<or> ke_quant_bits e = 4)"
proof -
  obtain name where n: "entry_of w f (kc_dir kc) name = Some e" using scanned [OF assms(1,2)] by blast
  then obtain fb where fl: "f (ke_path e) = Some fb" "read_entry_bytes fb (ke_path e) (ke_sha e) = Some e"
    using entry_of_Some by blast
  then have "take 4 fb = kv_magic"
    using read_header_Some by (auto simp: read_entry_bytes_def Let_def split: if_splits option.splits)
  with fl show ?thesis
    using entry_of_Some [OF n] read_entry_bytes_sound [OF fl(2) assms(3) [OF fl(1)]] by blast
qed

lemma scan_accepts_complete_files_witness:
  "\<exists>e fb. kc_entry (kv_cache_refresh (good_io [sample_name]) sample_disk (open_store 0)) = [e]
     \<and> sample_disk (ke_path e) = Some fb \<and> unat (ke_file_size e) = length fb"
proof -
  obtain e where e: "kv_cache_refresh (good_io [sample_name]) sample_disk (open_store 0) = (open_store 0)\<lparr>kc_entry := [e]\<rparr>"
    using sample_scan by blast
  have "\<exists>name fb. ds4_kvstore_sha_hex_name name = Some (ke_sha e) \<and> ke_path e = path_join (kc_dir (open_store 0)) name
     \<and> sample_disk (ke_path e) = Some fb \<and> take 4 fb = kv_magic \<and> unat (ke_file_size e) = length fb
     \<and> 52 + unat (ke_text_bytes e) + unat (ke_payload_bytes e) \<le> length fb
     \<and> ke_tokens e \<noteq> 0 \<and> (ke_quant_bits e = 2 \<or> ke_quant_bits e = 4)"
  proof (rule scan_accepts_complete_files [where w = "good_io [sample_name]"])
    show "length fb < 2 ^ 64" if "sample_disk p = Some fb" for p fb
      using that by (auto simp: sample_disk_def checkpoint_bytes_def split: if_splits)
  qed (use e in \<open>simp_all add: instance_defs\<close>)
  then show ?thesis using e by auto
qed

section \<open>Storing and touching\<close>

lemma le_put32_get32:
  assumes "length bs = 4"
  shows "ds4_kvstore_le_put32 (ds4_kvstore_le_get32 bs) = bs"
proof -
  obtain a b c d where bs: "bs = [a, b, c, d]"
    using assms by (auto simp: numeral_eq_Suc length_Suc_conv)
  have over: "\<not> bit x (8 + n)" "\<not> bit x (16 + n)" "\<not> bit x (24 + n)" for x :: byte and n
    using bit_imp_le_length [of x] by fastforce+
  show ?thesis
    unfolding bs ds4_kvstore_le_put32_def ds4_kvstore_le_get32_def
    by (auto intro!: bit_word_eqI simp: bit_simps over)
qed

lemma rewrite_trailer_frame: "q \<noteq> path \<Longrightarrow> kv_cache_rewrite_trailer w f path t hooks q = f q"
  by (auto simp: kv_cache_rewrite_trailer_def Let_def split: option.splits prod.splits bool.splits)

lemma existing_compatible_frame:
  "kv_cache_existing_compatible w f kc path sha t m q c = (ok, f') \<Longrightarrow> f' p = f p \<or> f' p = None"
  by (auto simp: kv_cache_existing_compatible_def unlink_def split: if_splits option.splits)

lemma evict_only_removes:
  assumes "ds4_kvstore_evict w f kc extra inc = (f', kc')"
  shows "f' p = f p \<or> f' p = None"
proof (cases "kc_enabled kc \<and> kc_budget_bytes kc \<noteq> 0 \<and> \<not> kc_budget_bytes kc < extra")
  case False
  then show ?thesis using assms by (auto simp: ds4_kvstore_evict_def split: if_splits)
next
  case True
  obtain es where "evict_loop w (\<lambda>e. ds4_kvstore_entry_eviction_score e (io_now w) inc)
      (kc_budget_bytes kc - extra) f (kc_entry (kv_cache_refresh w f kc))
      (foldl (\<lambda>t e. t + ke_file_size e) 0 (kc_entry (kv_cache_refresh w f kc))) = (f', es)"
    using assms True by (auto simp: ds4_kvstore_evict_def Let_def split: prod.splits)
  from evict_loop_frame [OF this] show ?thesis by metis
qed

lemma write_checkpoint_frame:
  assumes "write_checkpoint w f kc path h t payload hooks = (ok, f')"
    and "\<not> (\<exists>p. q = p @ ''.tmp.'' @ io_pid w)" "\<not> (ok \<and> q = path)"
  shows "f' q = f q"
  using write_checkpoint_cases [OF assms(1)] assms(2,3) by blast

text \<open>C38: a store never leaves a partial checkpoint: whether it succeeds or fails, at whichever call,
  every file of the disk is unchanged or removed, except temporary files, which no scan reads, and
  on success the one file named by the hash of the stored text.\<close>

theorem store_never_partial:
  assumes r: "ds4_kvstore_store_live_prefix_text w eng so hooks f kc s tokens n reason override ext = (ok, f', kc')"
    and tx: "stored = (if override \<noteq> None \<and> override \<noteq> Some [] then the override
                 else ds4_kvstore_render_tokens_text eng (ds4_kvstore_tokens_copy_prefix tokens n))"
  shows "f' q = f q \<or> f' q = None \<or> (\<exists>p. q = p @ ''.tmp.'' @ io_pid w)
     \<or> (ok \<and> q = ds4_kvstore_path_for_sha (kc_dir kc) (ds4_kvstore_sha1_bytes_hex (bytes_of stored)))"
proof (rule ccontr)
  assume neg: "\<not> ?thesis"
  let ?path = "ds4_kvstore_path_for_sha (kc_dir kc) (ds4_kvstore_sha1_bytes_hex (bytes_of stored))"
  obtain compat f1 where ex: "kv_cache_existing_compatible w f kc ?path
      (ds4_kvstore_sha1_bytes_hex (bytes_of stored)) stored (eng_model_id eng) (eng_quant_bits eng) (so_ctx so s) = (compat, f1)"
    by fastforce
  have f1: "f1 q = f q \<or> f1 q = None" using existing_compatible_frame [OF ex] .
  have ne: "f' \<noteq> f" "f' q \<noteq> f1 q" using neg f1 by auto
  note r' = r [unfolded ds4_kvstore_store_live_prefix_text_def Let_def, folded tx]
  show False
  proof (cases compat)
    case True
    then have "ok \<and> f' = kv_cache_rewrite_trailer w f1 ?path stored hooks"
      using r' ne(1) ex by (auto split: if_splits option.splits)
    then show False using neg ne(2) rewrite_trailer_frame [of q ?path] by metis
  next
    case False
    then obtain est inc f2 kc2 h payload where
      ev: "ds4_kvstore_evict w f1 kc est inc = (f2, kc2)"
      and wr: "write_checkpoint w f2 kc2 ?path h stored payload hooks = (ok, f')"
      using r' ne ex by (auto split: if_splits option.splits prod.splits bool.splits)
    have "f2 q = f1 q \<or> f2 q = None" using evict_only_removes [OF ev] .
    moreover have "f' q = f2 q" using write_checkpoint_frame [OF wr] neg by blast
    ultimately show False using neg f1 by auto
  qed
qed

lemma store_never_partial_witness:
  "\<exists>f' kc'. ds4_kvstore_store_live_prefix_text ((good_io [])\<lparr>io_write_short := (\<lambda>_. Some 10)\<rparr>) char_engine list_session None
       Map.empty (open_store 0) [104, 105] (Some [104, 105]) 2 ''cold'' None 0 = (False, f', kc') \<and> f' ''a'' = None"
proof -
  let ?w = "(good_io [])\<lparr>io_write_short := (\<lambda>_. Some 10)\<rparr>"
  have "\<exists>f' kc'. ds4_kvstore_store_live_prefix_text ?w char_engine list_session None Map.empty (open_store 0)
      [104, 105] (Some [104, 105]) 2 ''cold'' None 0 = (False, f', kc')"
    by (simp add: ds4_kvstore_store_live_prefix_text_def ds4_kvstore_tokens_copy_prefix_def instance_defs
        ds4_kvstore_render_tokens_text_def kv_trailer_serialized_size_def kv_cache_existing_compatible_def Let_def
        ds4_kvstore_file_size_fits_def ds4_kvstore_evict_def write_checkpoint_def kv_trailer_write_def written_def
        kv_cache_file_size_bytes_def kv_cache_budget_required_def char_of_def)
  then obtain f' kc' where r: "ds4_kvstore_store_live_prefix_text ?w char_engine list_session None Map.empty (open_store 0)
      [104, 105] (Some [104, 105]) 2 ''cold'' None 0 = (False, f', kc')" by blast
  have "f' ''a'' = Map.empty ''a'' \<or> f' ''a'' = None \<or> (\<exists>p. ''a'' = p @ ''.tmp.'' @ io_pid ?w)"
    using store_never_partial [OF r refl, of "''a''"] by blast
  then have "f' ''a'' = None" by (auto dest: arg_cong [where f = length])
  then show ?thesis using r by blast
qed

text \<open>a hit rewrites only the counters: after touching a checkpoint its header reads back with the
  new hit count and the time of use, every other field as before, and the bytes after the header are
  untouched, as is every other file.\<close>

theorem touch_keeps_checkpoint:
  assumes "ds4_kvstore_touch_file w f path hits = (True, f')"
  shows "\<exists>before after e tb. f path = Some before \<and> ds4_kvstore_read_header before = Some (e, tb)
     \<and> f' = f(path \<mapsto> after) \<and> length after = length before \<and> drop 48 after = drop 48 before
     \<and> ds4_kvstore_read_header after = Some (e\<lparr>ke_hits := hits, ke_last_used := io_now w\<rparr>, tb)"
proof -
  obtain old e tb where o: "f path = Some old" "ds4_kvstore_read_header old = Some (e, tb)"
    and f': "f' = f(path \<mapsto> store_at 0 (ds4_kvstore_fill_header (ke_model_id e) (ke_quant_bits e) (ke_reason e)
      (ke_ext_flags e) (ke_tokens e) hits (ke_ctx_size e) (ke_created_at e) (io_now w) (ke_payload_bytes e)) old)"
    using assms by (auto simp: ds4_kvstore_touch_file_def fopen_read_def Let_def dest!: written_True
        split: option.splits prod.splits if_splits)
  let ?h = "ds4_kvstore_fill_header (ke_model_id e) (ke_quant_bits e) (ke_reason e) (ke_ext_flags e)
      (ke_tokens e) hits (ke_ctx_size e) (ke_created_at e) (io_now w) (ke_payload_bytes e)"
  note h = read_header_Some [OF o(2)]
  have st: "store_at 0 ?h old = ?h @ drop 48 old" by (simp add: store_at_def)
  have e0: "e = e\<lparr>ke_sha := [], ke_path := [], ke_file_size := 0\<rparr>" "tb = ds4_kvstore_le_get32 (take 4 (drop 48 old))"
    using o(2) by (auto simp: ds4_kvstore_read_header_def Let_def split: if_splits)
  have "ds4_kvstore_le_put32 tb @ drop 4 (drop 48 old) = drop 48 old"
    unfolding e0(2) using h by (subst le_put32_get32) (auto simp: min_def simp del: drop_drop)
  then have tb: "ds4_kvstore_le_put32 tb @ drop 52 old = drop 48 old" by simp
  have "ds4_kvstore_read_header (?h @ drop 48 old) = Some (e\<lparr>ke_hits := hits, ke_last_used := io_now w\<rparr>, tb)"
    unfolding tb [symmetric] read_fill_header using h by (subst (7) e0(1)) simp
  then show ?thesis using o f' h unfolding st
    by (intro exI [of _ old] exI [of _ "?h @ drop 48 old"] exI [of _ e] exI [of _ tb]) simp
qed

lemma touch_keeps_checkpoint_witness:
  "\<exists>f' after. ds4_kvstore_touch_file (good_io []) sample_disk sample_path 3 = (True, f') \<and> f' sample_path = Some after
     \<and> drop 48 after = drop 48 (checkpoint_bytes 1 2 1 0 2 4096 7 ''hi'' [104, 105])"
proof -
  have "\<exists>f'. ds4_kvstore_touch_file (good_io []) sample_disk sample_path 3 = (True, f')"
    using checkpoint_header [of 2 2 1 1 0 4096 7 "''hi''" "[104, 105]"]
    by (simp add: ds4_kvstore_touch_file_def fopen_read_def sample_disk_def good_io_def written_def Let_def)
  then obtain f' where r: "ds4_kvstore_touch_file (good_io []) sample_disk sample_path 3 = (True, f')" by blast
  from touch_keeps_checkpoint [OF r] show ?thesis using r by (auto simp: sample_disk_def)
qed

text \<open>the checkpoint header round trips: what a store writes is read back field by field, and a
  header is refused exactly when it has no tokens or a quantisation other than 2 or 4 bits; unknown
  reason codes read as zero.\<close>

theorem header_roundtrip:
  "ds4_kvstore_read_header (ds4_kvstore_fill_header m q r x t h c ca lu p @ ds4_kvstore_le_put32 tb @ rest) =
     (if t \<noteq> 0 \<and> (q = 2 \<or> q = 4)
      then Some (\<lparr>ke_sha = [], ke_path = [], ke_quant_bits = q, ke_model_id = m,
                  ke_reason = (if r \<le> 6 then r else 0), ke_tokens = t, ke_hits = h,
                  ke_ctx_size = c, ke_ext_flags = x, ke_created_at = ca, ke_last_used = lu,
                  ke_payload_bytes = p, ke_text_bytes = ucast tb, ke_file_size = 0\<rparr>, tb)
      else None)"
  by (rule read_fill_header)

section \<open>Policy\<close>

lemma budget_required_None:
  assumes "kv_cache_budget_required n = None"
  shows "2 ^ 64 \<le> unat n + (unat n + 99) div 100"
proof -
  let ?slack = "if n mod 100 \<noteq> 0 then n div 100 + 1 else n div 100"
  have g: "UINT64_MAX - n < ?slack"
    using assms by (simp only: kv_cache_budget_required_def Let_def split: if_splits) auto
  then show ?thesis unfolding max_minus_less_iff slack_unat .
qed

text \<open>the size check is exact: a checkpoint is accepted when and only when its header, text,
  payload and trailer fit 64 bits and, unless the budget is unlimited, their size plus one percent,
  rounded up, is within the budget.\<close>

theorem file_size_fits_exact:
  defines "req n \<equiv> n + (n + 99) div 100"
  shows "fst (ds4_kvstore_file_size_fits kc t p r) \<longleftrightarrow>
     52 + unat t + unat p + unat r < 2 ^ 64
     \<and> (kc_budget_bytes kc = 0 \<or> req (52 + unat t + unat p + unat r) \<le> unat (kc_budget_bytes kc))"
proof (cases "kv_cache_file_size_bytes t p r")
  case None
  then show ?thesis using file_size_bytes_None [of t p r] by (simp add: ds4_kvstore_file_size_fits_def)
next
  case (Some n)
  then have n: "unat n = 52 + unat t + unat p + unat r" by (rule file_size_bytes_Some)
  have lt: "unat n < 2 ^ 64" by (rule unat_lt64)
  show ?thesis
  proof (cases "kv_cache_budget_required n")
    case None
    then have "2 ^ 64 \<le> req (unat n)" unfolding req_def by (rule budget_required_None)
    then have "\<not> req (unat n) \<le> unat (kc_budget_bytes kc)" using unat_lt64 [of "kc_budget_bytes kc"] by simp
    then show ?thesis using Some None lt by (simp add: ds4_kvstore_file_size_fits_def n)
  next
    case (Some q)
    from budget_required_Some [OF this] have "unat q = req (unat n)" by (simp add: req_def)
    then show ?thesis using Some \<open>kv_cache_file_size_bytes t p r = Some n\<close> lt
      by (simp add: ds4_kvstore_file_size_fits_def n word_le_nat_alt)
  qed
qed

text \<open>The cut before storing a prompt is stable: it never exceeds the prompt; when it cuts, it
  drops at least the trimmed tokens and less than one alignment unit more, at a multiple of the
  alignment that is still long enough to store; and every prompt with room for both is cut.\<close>

theorem store_len_boundary:
  assumes "0 \<le> min_tokens (kc_opt kc)" "0 \<le> boundary_trim_tokens (kc_opt kc)"
    "0 < boundary_align_tokens (kc_opt kc)"
  shows "ds4_kvstore_store_len kc tokens \<le> tokens
     \<and> (ds4_kvstore_store_len kc tokens \<noteq> tokens
          \<or> min_tokens (kc_opt kc) + boundary_trim_tokens (kc_opt kc) + boundary_align_tokens (kc_opt kc) \<le> tokens
        \<longrightarrow> min_tokens (kc_opt kc) \<le> ds4_kvstore_store_len kc tokens
          \<and> ds4_kvstore_store_len kc tokens \<le> tokens - boundary_trim_tokens (kc_opt kc)
          \<and> boundary_align_tokens (kc_opt kc) dvd ds4_kvstore_store_len kc tokens
          \<and> tokens - boundary_trim_tokens (kc_opt kc) - ds4_kvstore_store_len kc tokens
              < boundary_align_tokens (kc_opt kc))"
proof (cases "ds4_kvstore_store_len kc tokens = tokens")
  case False
  then show ?thesis using store_len_cases [OF assms, of tokens] assms(2) by auto
next
  case True
  let ?s = "tokens - boundary_trim_tokens (kc_opt kc)" and ?a = "boundary_align_tokens (kc_opt kc)"
  have "?a dvd tokens \<and> tokens \<le> ?s \<and> ?s - tokens < ?a"
    if "min_tokens (kc_opt kc) + boundary_trim_tokens (kc_opt kc) + ?a \<le> tokens"
  proof -
    obtain r where r: "?s mod ?a = r" "0 \<le> r" "r < ?a" using assms(3) by simp
    have "?s smod ?a = r" using that assms r(1) by (subst smod_pos) simp_all
    then have e: "tokens = ?s - r"
      using True that r(2,3) assms by (simp add: ds4_kvstore_store_len_def Let_def)
    have "?a dvd ?s - r" unfolding r(1) [symmetric] by (rule dvd_minus_mod)
    then show ?thesis using e r by simp
  qed
  then show ?thesis using True assms(2,3) by auto
qed

lemma store_len_boundary_witness:
  "ds4_kvstore_store_len ((open_store 0)\<lparr>kc_opt := ds4_kvstore_default_options\<rparr>) 9000 \<le> 9000 \<and>
   2048 dvd ds4_kvstore_store_len ((open_store 0)\<lparr>kc_opt := ds4_kvstore_default_options\<rparr>) 9000"
  using store_len_boundary [of "(open_store 0)\<lparr>kc_opt := ds4_kvstore_default_options\<rparr>" 9000]
  by (simp add: ds4_kvstore_default_options_def)

text \<open>Continued checkpoints are due on a regular grid and once each: a due length is the live
  length itself, past the last stored one and long enough to store, a multiple of the step and of the
  alignment; and once noted, no length up to it is due again.\<close>

theorem continued_schedule:
  assumes "ds4_kvstore_continued_store_target kc live \<noteq> 0" "0 \<le> boundary_align_tokens (kc_opt kc)"
    "0 \<le> live" "m \<le> live"
  shows "ds4_kvstore_continued_store_target kc live = live \<and> kc_continued_last_store_tokens kc < live
     \<and> min_tokens (kc_opt kc) \<le> live \<and> kv_cache_continued_step kc dvd live
     \<and> (boundary_align_tokens (kc_opt kc) = 0 \<or> boundary_align_tokens (kc_opt kc) dvd live)
     \<and> ds4_kvstore_continued_store_target (ds4_kvstore_note_store kc live) m = 0"
proof -
  have t: "ds4_kvstore_continued_store_target kc live = live" "kc_continued_last_store_tokens kc < live"
      "min_tokens (kc_opt kc) \<le> live" "live smod kv_cache_continued_step kc = 0" "0 < kv_cache_continued_step kc"
    using assms(1) by (auto simp: ds4_kvstore_continued_store_target_def Let_def split: if_splits)
  have d: "kv_cache_continued_step kc dvd live"
    using t(4,5) assms(3) by (simp add: smod_pos dvd_eq_mod_eq_0)
  have "boundary_align_tokens (kc_opt kc) = 0 \<or> boundary_align_tokens (kc_opt kc) dvd kv_cache_continued_step kc"
    using continued_step_pos [OF assms(2)] t(5) assms(2) by auto
  moreover have "ds4_kvstore_continued_store_target (ds4_kvstore_note_store kc live) m = 0"
    using target_after_note [of kc live m] assms(4) by force
  ultimately show ?thesis using t d by (auto intro: dvd_trans)
qed

lemma continued_schedule_witness:
  "ds4_kvstore_continued_store_target
     (ds4_kvstore_note_store ((open_store 0)\<lparr>kc_opt := ds4_kvstore_default_options\<rparr>) 20480) 10240 = 0"
  using continued_schedule [of "(open_store 0)\<lparr>kc_opt := ds4_kvstore_default_options\<rparr>" 20480 10240]
  by (simp add: ds4_kvstore_default_options_def ds4_kvstore_continued_store_target_def kv_cache_continued_step_def
      instance_defs smod_pos sdiv_pos)

text \<open>Suppressing a continued checkpoint while a request is prepared and restoring it afterwards
  leaves the store as it was.\<close>

theorem suppress_then_restore:
  assumes "ds4_kvstore_suppress_continued_store kc n = (old, kc1)"
    and "n \<noteq> 0" "0 \<le> kc_continued_last_store_tokens kc"
  shows "ds4_kvstore_restore_suppressed_continued kc1 old n = kc"
  using assms by (rule suppress_restore)

lemma suppress_then_restore_witness:
  "ds4_kvstore_restore_suppressed_continued
     ((open_store 0)\<lparr>kc_opt := ds4_kvstore_default_options, kc_continued_last_store_tokens := 10240\<rparr>) 0 10240
   = (open_store 0)\<lparr>kc_opt := ds4_kvstore_default_options\<rparr>"
proof (rule suppress_then_restore)
  show "ds4_kvstore_suppress_continued_store ((open_store 0)\<lparr>kc_opt := ds4_kvstore_default_options\<rparr>) 10240
      = (0, (open_store 0)\<lparr>kc_opt := ds4_kvstore_default_options, kc_continued_last_store_tokens := 10240\<rparr>)"
    by (simp add: ds4_kvstore_suppress_continued_store_def ds4_kvstore_note_store_def ds4_kvstore_default_options_def
        ds4_kvstore_continued_store_target_def kv_cache_continued_step_def instance_defs smod_pos sdiv_pos)
qed (simp_all add: instance_defs)

end
