(* ===== verification/TcBuf.thy ===== *)
theory TcBuf
  imports DynBuf
begin

text \<open>
  The output buffer and the line table of the tool-output compressor (\<^verbatim>\<open>ds4_tool_compress.c\<close>). The
  struct \<^verbatim>\<open>ds4_tc_buf\<close> has the fields of \<^verbatim>\<open>DynBuf\<close> and is modelled by the same record; its
  growth policy and its treatment of empty appends and of errors are its own: a failing operation
  returns false to the caller. The lemmas show that it is a text buffer as well, that its growth
  loop ends for every capacity below \<open>2^63\<close>, and that the lines cut a text without losing a byte.
\<close>

section \<open>The buffer\<close>

type_synonym ds4_tc_buf = dynbuf

partial_function (option) tc_grow_cap :: "size_t \<Rightarrow> size_t \<Rightarrow> size_t option" where
  "tc_grow_cap cap need =
     (if cap < need then
        (if SIZE_MAX div 2 < cap then Some need else tc_grow_cap (cap * 2) need)
      else Some cap)"

definition ds4_tc_buf_reserve :: "(size_t \<Rightarrow> bool) \<Rightarrow> ds4_tc_buf \<Rightarrow> size_t \<Rightarrow> buf_error + ds4_tc_buf" where
  "ds4_tc_buf_reserve mok b add =
     (if SIZE_MAX - db_len b - 1 < add then Inl BufferOverflow
      else let need = db_len b + add + 1 in
        if need \<le> db_cap b then Inr b
        else (case tc_grow_cap (if db_cap b \<noteq> 0 then db_cap b * 2 else 1024) need of
                None \<Rightarrow> Inl Diverges
              | Some cap \<Rightarrow>
                  if mok cap
                  then Inr (b\<lparr>db_ptr := Some (realloc_cells (db_ptr b) cap), db_cap := cap\<rparr>)
                  else Inl OutOfMemory))"

definition ds4_tc_buf_append :: "(size_t \<Rightarrow> bool) \<Rightarrow> ds4_tc_buf \<Rightarrow> string \<Rightarrow> buf_error + ds4_tc_buf" where
  "ds4_tc_buf_append mok b s =
     (if s = [] then Inr b
      else bind_res (ds4_tc_buf_reserve mok b (of_nat (length s))) (\<lambda>b1. Inr (dynbuf_write b1 s)))"

definition ds4_tc_buf_puts :: "(size_t \<Rightarrow> bool) \<Rightarrow> ds4_tc_buf \<Rightarrow> string \<Rightarrow> buf_error + ds4_tc_buf" where
  "ds4_tc_buf_puts mok b s = ds4_tc_buf_append mok b (cstr s)"

text \<open>The formatted output is the argument, as for \<^verbatim>\<open>dynbuf_vprintf\<close>.\<close>

definition ds4_tc_buf_printf :: "(size_t \<Rightarrow> bool) \<Rightarrow> ds4_tc_buf \<Rightarrow> string \<Rightarrow> buf_error + ds4_tc_buf" where
  "ds4_tc_buf_printf mok b out =
     bind_res (ds4_tc_buf_reserve mok b (of_nat (length out))) (\<lambda>b1. Inr (dynbuf_write b1 out))"

definition ds4_tc_buf_take :: "(size_t \<Rightarrow> bool) \<Rightarrow> ds4_tc_buf \<Rightarrow> string option" where
  "ds4_tc_buf_take mok b =
     (case db_ptr b of None \<Rightarrow> if mok 1 then Some [] else None | Some _ \<Rightarrow> Some (dynbuf_text b))"

section \<open>The growth loop\<close>

lemma tc_grow_cap_ends:
  assumes "cap \<noteq> 0"
  shows "\<exists>c. tc_grow_cap cap need = Some c \<and> need \<le> c \<and> (cap \<le> c \<or> c = need)"
  using assms
proof (induction "2 ^ 64 - unat cap" arbitrary: cap rule: less_induct)
  case less
  show ?case
  proof (cases "cap < need \<and> \<not> SIZE_MAX div 2 < cap")
    case False
    then show ?thesis by (subst tc_grow_cap.simps) auto
  next
    case True
    then have d: "unat (cap * 2) = 2 * unat cap" by (intro double_cap) simp
    have pos: "0 < unat cap" using less.prems by (simp add: unat_gt_0)
    have nz: "cap * 2 \<noteq> 0" using d pos by auto
    have "2 ^ 64 - unat (cap * 2) < 2 ^ 64 - unat cap"
      using d pos unat_lt64 [of "cap * 2"] by simp
    from less.hyps [OF this nz] obtain c where
      c: "tc_grow_cap (cap * 2) need = Some c" "need \<le> c" "cap * 2 \<le> c \<or> c = need" by blast
    moreover have "cap \<le> cap * 2" using d by (simp add: word_le_nat_alt)
    ultimately show ?thesis using True by (subst tc_grow_cap.simps) (auto intro: order_trans)
  qed
qed

lemma tc_grow_cap_Some:
  "tc_grow_cap cap need = Some c \<Longrightarrow> need \<le> c"
  by (rule tc_grow_cap.raw_induct [where P = "\<lambda>cap need c. need \<le> c"]) (auto split: if_splits)

section \<open>The buffer is a text buffer\<close>

lemma tc_reserve_ok:
  assumes inv: "dynbuf_inv b" and r: "ds4_tc_buf_reserve mok b add = Inr b'"
  shows "dynbuf_inv b' \<and> dynbuf_text b' = dynbuf_text b \<and> db_len b' = db_len b
     \<and> (\<exists>cells. db_ptr b' = Some cells) \<and> unat (db_len b) + unat add < unat (db_cap b')"
proof -
  let ?need = "db_len b + add + 1"
  from r have g: "\<not> SIZE_MAX - db_len b - 1 < add"
    by (auto simp: ds4_tc_buf_reserve_def split: if_splits)
  from inv g have need: "unat ?need = unat (db_len b) + unat add + 1" by (rule reserve_guard)
  show ?thesis
  proof (cases "?need \<le> db_cap b")
    case True
    with r g have "b' = b" by (simp add: ds4_tc_buf_reserve_def)
    moreover have "db_ptr b \<noteq> None"
      using True need inv by (auto simp: dynbuf_inv_def word_le_nat_alt split: option.splits)
    ultimately show ?thesis using inv need True by (auto simp: word_le_nat_alt)
  next
    case False
    from r g False obtain c0 c where gc: "tc_grow_cap c0 ?need = Some c"
      and b': "b' = b\<lparr>db_ptr := Some (realloc_cells (db_ptr b) c), db_cap := c\<rparr>"
      by (auto simp: ds4_tc_buf_reserve_def Let_def split: option.splits if_splits)
    have c: "?need \<le> c" using gc by (rule tc_grow_cap_Some)
    have "db_cap b \<le> c" using c False by simp
    with inv have "dynbuf_inv b' \<and> dynbuf_text b' = dynbuf_text b"
      using c need b'
      by (auto simp: dynbuf_inv_def dynbuf_text_def realloc_cells_def Let_def word_le_nat_alt min_def
          split: option.splits)
    with b' c need show ?thesis by (simp add: word_le_nat_alt)
  qed
qed

lemma tc_write_reserved:
  assumes inv: "dynbuf_inv b" and lp: "length p < 2 ^ 64"
    and r: "ds4_tc_buf_reserve mok b (of_nat (length p)) = Inr b1"
  shows "dynbuf_inv (dynbuf_write b1 p) \<and> dynbuf_text (dynbuf_write b1 p) = dynbuf_text b @ p"
proof -
  from tc_reserve_ok [OF inv r] obtain cells where
    "dynbuf_inv b1" "dynbuf_text b1 = dynbuf_text b" "db_ptr b1 = Some cells"
    "unat (db_len b1) + length p < unat (db_cap b1)"
    by (auto simp: unat_of_nat64 [OF lp])
  then show ?thesis using dynbuf_write_ok by metis
qed

lemma tc_append_ok:
  assumes "dynbuf_inv b" "length p < 2 ^ 64" "ds4_tc_buf_append mok b p = Inr b'"
  shows "dynbuf_inv b' \<and> dynbuf_text b' = dynbuf_text b @ p"
  using assms tc_write_reserved [OF assms(1,2)]
  by (auto simp: ds4_tc_buf_append_def split: if_splits)

lemma tc_printf_ok:
  assumes "dynbuf_inv b" "length p < 2 ^ 64" "ds4_tc_buf_printf mok b p = Inr b'"
  shows "dynbuf_inv b' \<and> dynbuf_text b' = dynbuf_text b @ p"
  using assms tc_write_reserved [OF assms(1,2)]
  by (auto simp: ds4_tc_buf_printf_def)

interpretation tc: text_buffer dynbuf_empty "ds4_tc_buf_append mok" dynbuf_text dynbuf_inv for mok
  by unfold_locales (auto dest: tc_append_ok)

section \<open>Without allocation failures no append fails\<close>

lemma tc_reserve_total:
  assumes inv: "dynbuf_inv b" and l: "unat (db_len b) + unat add < 2 ^ 62" and mok: "\<And>c. mok c"
  shows "\<exists>b'. ds4_tc_buf_reserve mok b add = Inr b'"
proof -
  let ?need = "db_len b + add + 1"
  have g: "\<not> SIZE_MAX - db_len b - 1 < add"
    using l unat_room [OF inv] by (simp add: word_less_nat_alt)
  have need: "unat ?need = unat (db_len b) + unat add + 1" using inv g by (rule reserve_guard)
  show ?thesis
  proof (cases "?need \<le> db_cap b")
    case True
    then show ?thesis using g by (simp add: ds4_tc_buf_reserve_def)
  next
    case False
    then have cap: "unat (db_cap b) < 2 ^ 62" using need l by (simp add: word_le_nat_alt)
    then have "db_cap b \<noteq> 0 \<Longrightarrow> unat (db_cap b * 2) = unat (db_cap b) * 2"
      by (subst unat_mult64) simp_all
    then have "db_cap b \<noteq> 0 \<Longrightarrow> db_cap b * 2 \<noteq> 0" by (metis mult_eq_0_iff unat_eq_zero zero_neq_numeral)
    then have "(if db_cap b \<noteq> 0 then db_cap b * 2 else 1024) \<noteq> 0" by simp
    from tc_grow_cap_ends [OF this, of ?need] show ?thesis
      using g False mok by (auto simp: ds4_tc_buf_reserve_def)
  qed
qed

lemma text_length: "dynbuf_inv b \<Longrightarrow> length (dynbuf_text b) = unat (db_len b)"
  by (auto simp: dynbuf_inv_def dynbuf_text_def split: option.splits)

lemma tc_append_total:
  assumes "dynbuf_inv b" "length (dynbuf_text b) + length p < 2 ^ 62" "\<And>c. mok c"
  shows "\<exists>b'. ds4_tc_buf_append mok b p = Inr b' \<and> dynbuf_inv b' \<and> dynbuf_text b' = dynbuf_text b @ p"
proof (cases "p = []")
  case False
  have "unat (of_nat (length p) :: size_t) = length p" using assms(2) by (intro unat_of_nat64) simp
  then obtain b1 where "ds4_tc_buf_reserve mok b (of_nat (length p)) = Inr b1"
    using tc_reserve_total [of b "of_nat (length p)" mok] assms text_length [of b] by auto
  then show ?thesis
    using tc_write_reserved [of b p mok b1] assms(1,2) False by (simp add: ds4_tc_buf_append_def)
qed (use assms in \<open>simp add: ds4_tc_buf_append_def\<close>)

lemma tc_printf_total:
  assumes "dynbuf_inv b" "length (dynbuf_text b) + length p < 2 ^ 62" "\<And>c. mok c"
  shows "\<exists>b'. ds4_tc_buf_printf mok b p = Inr b' \<and> dynbuf_inv b' \<and> dynbuf_text b' = dynbuf_text b @ p"
proof -
  have "unat (of_nat (length p) :: size_t) = length p" using assms(2) by (intro unat_of_nat64) simp
  then obtain b1 where "ds4_tc_buf_reserve mok b (of_nat (length p)) = Inr b1"
    using tc_reserve_total [of b "of_nat (length p)" mok] assms text_length [of b] by auto
  then show ?thesis
    using tc_write_reserved [of b p mok b1] assms(1,2) by (simp add: ds4_tc_buf_printf_def)
qed

lemma tc_capped_total:
  assumes "dynbuf_inv b" "length (dynbuf_text b) + length (concat ps) < 2 ^ 62" "\<And>c. mok c"
  shows "\<exists>b' k. append_capped (ds4_tc_buf_append mok) full b ps = Inr (b', k)"
  using assms(1,2)
proof (induction ps arbitrary: b)
  case (Cons p ps)
  show ?case
  proof (cases "full b")
    case False
    obtain b1 where b1: "ds4_tc_buf_append mok b p = Inr b1" "dynbuf_inv b1" "dynbuf_text b1 = dynbuf_text b @ p"
      using tc_append_total [of b p mok] Cons.prems assms(3) by auto
    with Cons.IH [of b1] Cons.prems False show ?thesis by auto
  qed simp
qed simp

section \<open>Lines\<close>

record ds4_tc_line =
  ln_start :: nat
  ln_content_end :: nat
  ln_end :: nat

text \<open>\<^verbatim>\<open>ds4_tc_lines\<close>: the lines and the capacity of the array, of 24 bytes a line.\<close>

record ds4_tc_lines =
  lns_v :: "ds4_tc_line list"
  lns_cap :: nat

definition lines_empty :: ds4_tc_lines where
  "lines_empty = \<lparr>lns_v = [], lns_cap = 0\<rparr>"

definition ds4_tc_lines_push :: "(size_t \<Rightarrow> bool) \<Rightarrow> ds4_tc_lines \<Rightarrow> ds4_tc_line \<Rightarrow> ds4_tc_lines option" where
  "ds4_tc_lines_push mok lines line =
     (if length (lns_v lines) = lns_cap lines
      then let cap = (if lns_cap lines \<noteq> 0 then lns_cap lines * 2 else 256) in
        if mok (of_nat (cap * 24)) then Some \<lparr>lns_v = lns_v lines @ [line], lns_cap = cap\<rparr> else None
      else Some (lines\<lparr>lns_v := lns_v lines @ [line]\<rparr>))"

text \<open>The end of the content of the line at \<open>pos\<close>, and the position after its line break.\<close>

definition line_content_end :: "string \<Rightarrow> nat \<Rightarrow> nat" where
  "line_content_end s pos = pos + length (takeWhile (\<lambda>c. c \<noteq> CHR 0x0A \<and> c \<noteq> CHR 0x0D) (drop pos s))"

definition line_next :: "string \<Rightarrow> nat \<Rightarrow> nat" where
  "line_next s pos =
     (let e = line_content_end s pos in
      if e < length s
      then (if s ! e = CHR 0x0D \<and> e + 1 < length s \<and> s ! (e + 1) = CHR 0x0A then e + 2 else e + 1)
      else e)"

lemma line_positions:
  assumes "pos < length s"
  shows "pos \<le> line_content_end s pos" "line_content_end s pos \<le> line_next s pos"
    "pos < line_next s pos" "line_next s pos \<le> length s"
proof -
  let ?w = "takeWhile (\<lambda>c. c \<noteq> CHR 0x0A \<and> c \<noteq> CHR 0x0D) (drop pos s)"
  have l: "length ?w \<le> length s - pos" using length_takeWhile_le [of _ "drop pos s"] by simp
  then show "pos \<le> line_content_end s pos" "line_content_end s pos \<le> line_next s pos"
    "line_next s pos \<le> length s"
    using assms by (auto simp: line_next_def line_content_end_def Let_def)
  show "pos < line_next s pos"
    using assms by (auto simp: line_next_def line_content_end_def Let_def)
qed

function ds4_tc_split_from :: "(size_t \<Rightarrow> bool) \<Rightarrow> string \<Rightarrow> nat \<Rightarrow> ds4_tc_lines \<Rightarrow> ds4_tc_lines option" where
  "ds4_tc_split_from mok s pos lines =
     (if pos < length s then
        (case ds4_tc_lines_push mok lines
            \<lparr>ln_start = pos, ln_content_end = line_content_end s pos, ln_end = line_next s pos\<rparr> of
           None \<Rightarrow> None
         | Some lines' \<Rightarrow> ds4_tc_split_from mok s (line_next s pos) lines')
      else Some lines)"
  by pat_completeness auto
termination
  by (relation "measure (\<lambda>(mok, s, pos, lines). length s - pos)")
     (auto intro: diff_less_mono2 simp: line_positions(3))

declare ds4_tc_split_from.simps [simp del]

definition ds4_tc_split_lines :: "(size_t \<Rightarrow> bool) \<Rightarrow> string \<Rightarrow> ds4_tc_lines option" where
  "ds4_tc_split_lines mok s = ds4_tc_split_from mok s 0 lines_empty"

text \<open>The text of a line with its line break, and without it.\<close>

definition line_text :: "string \<Rightarrow> ds4_tc_line \<Rightarrow> string" where
  "line_text s l = take (ln_end l - ln_start l) (drop (ln_start l) s)"

definition line_content :: "string \<Rightarrow> ds4_tc_line \<Rightarrow> string" where
  "line_content s l = take (ln_content_end l - ln_start l) (drop (ln_start l) s)"

definition ds4_tc_append_line :: "(size_t \<Rightarrow> bool) \<Rightarrow> ds4_tc_buf \<Rightarrow> string \<Rightarrow> ds4_tc_line \<Rightarrow> buf_error + ds4_tc_buf" where
  "ds4_tc_append_line mok b s l = ds4_tc_buf_append mok b (line_text s l)"

text \<open>The lines of a text are its cut at the line breaks: joined they give the text back.\<close>

lemma lines_push_v: "ds4_tc_lines_push mok lines l = Some lines' \<Longrightarrow> lns_v lines' = lns_v lines @ [l]"
  by (auto simp: ds4_tc_lines_push_def Let_def split: if_splits)

lemma split_from_text:
  assumes "ds4_tc_split_from mok s pos lines = Some out" "pos \<le> length s"
  shows "\<exists>ls. lns_v out = lns_v lines @ ls \<and> concat (map (line_text s) ls) = drop pos s
     \<and> (\<forall>l \<in> set ls. ln_start l \<le> ln_content_end l \<and> ln_content_end l \<le> ln_end l \<and> ln_end l \<le> length s
          \<and> ln_start l < ln_end l)"
  using assms
proof (induction mok s pos lines rule: ds4_tc_split_from.induct)
  case (1 mok s pos lines)
  show ?case
  proof (cases "pos < length s")
    case False
    then show ?thesis using 1 by (simp add: ds4_tc_split_from.simps)
  next
    case True
    let ?l = "\<lparr>ln_start = pos, ln_content_end = line_content_end s pos, ln_end = line_next s pos\<rparr>"
    note p = line_positions [OF True]
    obtain lines' where pu: "ds4_tc_lines_push mok lines ?l = Some lines'"
      and rec: "ds4_tc_split_from mok s (line_next s pos) lines' = Some out"
      using 1(2) True by (subst (asm) ds4_tc_split_from.simps) (auto split: option.splits)
    from "1.IH" [OF True pu rec p(4)] obtain ls where
      ls: "lns_v out = lns_v lines' @ ls" "concat (map (line_text s) ls) = drop (line_next s pos) s"
      "\<forall>l \<in> set ls. ln_start l \<le> ln_content_end l \<and> ln_content_end l \<le> ln_end l \<and> ln_end l \<le> length s
          \<and> ln_start l < ln_end l" by blast
    have "line_text s ?l @ drop (line_next s pos) s = drop pos s"
      using p by (simp add: line_text_def)
        (metis append_take_drop_id drop_drop le_add_diff_inverse2 less_imp_le)
    then show ?thesis using ls lines_push_v [OF pu] p
      by (intro exI [of _ "?l # ls"]) simp
  qed
qed

lemma split_lines_text:
  assumes "ds4_tc_split_lines mok s = Some out"
  shows "concat (map (line_text s) (lns_v out)) = s"
    and "l \<in> set (lns_v out) \<Longrightarrow> ln_start l \<le> ln_content_end l \<and> ln_content_end l \<le> ln_end l
          \<and> ln_end l \<le> length s \<and> ln_start l < ln_end l"
  using split_from_text [OF assms [unfolded ds4_tc_split_lines_def]] by (auto simp: lines_empty_def)

end
