(* ===== verification/ContextBlob.thy ===== *)
theory ContextBlob
  imports Hash
begin

text \<open>
  The content-addressed store of long texts (\<^verbatim>\<open>ds4_context_blob.c\<close>): a text is stored under
  \<^verbatim>\<open>base/sha256/<hex>.txt\<close> and later read back in ranges by its id \<^verbatim>\<open>sha256:<hex>\<close>. The record
  \<open>blob_io\<close> holds what the operating system decides: which directories can be made, whether a file can
  be created, opened and sought, the outcomes of the successive \<^verbatim>\<open>write\<close> calls (once the listed
  outcomes are used up, a write takes all it is given), the number of bytes after which reading
  fails, and which allocations succeed. Error messages are values of \<open>blob_error\<close>.
\<close>

section \<open>Environment and errors\<close>

datatype write_outcome = Interrupted | WriteError | Wrote nat

record blob_io =
  bo_now :: u64
  bo_mkdir_ok :: "string \<Rightarrow> bool"
  bo_create_ok :: "string \<Rightarrow> bool"
  bo_writes :: "write_outcome list"
  bo_close_ok :: bool
  bo_unlink_ok :: "string \<Rightarrow> bool"
  bo_open_ok :: "string \<Rightarrow> bool"
  bo_seek_ok :: "string \<Rightarrow> bool"
  bo_read_fails_at :: "nat option"
  bo_malloc_ok :: "u64 \<Rightarrow> bool"

datatype blob_error =
    MissingText | MissingDirectory | DirectoryTooLong | MkdirFailed string | InvalidPathInput | PathTooLong
  | CreateFailed string | WriteFailed | CloseFailed string | InvalidId | LengthTooLarge | OpenFailed string
  | SeekFailed string | ReadFailed string | OutOfMemory

record ds4_context_blob_ref =
  br_id :: string
  br_path :: string
  br_bytes :: u64
  br_created_at :: u64

section \<open>Paths and ids\<close>

text \<open>Every parent directory in turn, then the directory itself.\<close>

definition ds4_blob_mkdir_p :: "blob_io \<Rightarrow> string \<Rightarrow> blob_error + unit" where
  "ds4_blob_mkdir_p w path =
     (if path = [] then Inl MissingDirectory
      else (case find (\<lambda>p. \<not> bo_mkdir_ok w p)
                   (map (\<lambda>i. take i path) (filter (\<lambda>i. path ! i = CHR ''/'') [1..<length path]) @ [path]) of
              None \<Rightarrow> Inr () | Some p \<Rightarrow> Inl (MkdirFailed p)))"

definition ds4_blob_join_path :: "string option \<Rightarrow> string option \<Rightarrow> nat \<Rightarrow> blob_error + string" where
  "ds4_blob_join_path base_dir hex path_len =
     (case (base_dir, hex) of
        (Some b, Some h) \<Rightarrow>
          if b = [] \<or> length h \<noteq> 64 then Inl InvalidPathInput
          else let p = b @ ''/sha256/'' @ h @ ''.txt'' in
            if path_len \<le> length p then Inl PathTooLong else Inr p
      | _ \<Rightarrow> Inl InvalidPathInput)"

definition ds4_context_blob_id_valid :: "string option \<Rightarrow> bool" where
  "ds4_context_blob_id_valid ident =
     (case ident of None \<Rightarrow> False
      | Some s \<Rightarrow>
        if take 7 s \<noteq> ''sha256:'' then False
        else let hex = drop 7 s in
          length hex = 64
          \<and> list_all (\<lambda>c. (48 \<le> ord c \<and> ord c \<le> 57) \<or> (97 \<le> ord c \<and> ord c \<le> 102)) hex)"

section \<open>Writing\<close>

text \<open>The loop of \<^verbatim>\<open>ds4_blob_write_all\<close>: what has reached the file, and whether all of it did.\<close>

fun ds4_blob_write_all :: "write_outcome list \<Rightarrow> byte list \<Rightarrow> byte list \<Rightarrow> bool \<times> byte list" where
  "ds4_blob_write_all ws acc [] = (True, acc)"
| "ds4_blob_write_all [] acc (b # p) = (True, acc @ b # p)"
| "ds4_blob_write_all (Interrupted # ws) acc (b # p) = ds4_blob_write_all ws acc (b # p)"
| "ds4_blob_write_all (WriteError # ws) acc (b # p) = (False, acc)"
| "ds4_blob_write_all (Wrote k # ws) acc (b # p) =
     (if k = 0 then (False, acc)
      else ds4_blob_write_all ws (acc @ take k (b # p)) (drop k (b # p)))"

text \<open>\<^verbatim>\<open>text\<close> and \<^verbatim>\<open>len\<close> are a pointer and the number of bytes to store, \<^verbatim>\<open>PATH_MAX\<close> is 4096, and
  \<^verbatim>\<open>out->path\<close> has 1024 bytes.\<close>

definition ds4_context_blob_put_text ::
  "blob_io \<Rightarrow> fs \<Rightarrow> string option \<Rightarrow> string option \<Rightarrow> nat \<Rightarrow> (blob_error + ds4_context_blob_ref) \<times> fs" where
  "ds4_context_blob_put_text w f base_dir txt len =
     (if txt = None \<and> len \<noteq> 0 then (Inl MissingText, f)
      else
        let bytes = bytes_of (take len (case txt of None \<Rightarrow> [] | Some t \<Rightarrow> t));
            hex = ds4_sha256_hex bytes;
            algo_dir = (case base_dir of None \<Rightarrow> [] | Some b \<Rightarrow> b) @ ''/sha256'' in
        if 4096 \<le> length algo_dir then (Inl DirectoryTooLong, f)
        else (case ds4_blob_mkdir_p w algo_dir of
            Inl e \<Rightarrow> (Inl e, f)
          | Inr _ \<Rightarrow>
            (case ds4_blob_join_path base_dir (Some hex) 1024 of
               Inl e \<Rightarrow> (Inl e, f)
             | Inr path \<Rightarrow>
               let out = \<lparr>br_id = ''sha256:'' @ hex, br_path = path, br_bytes = of_nat len, br_created_at = bo_now w\<rparr> in
               if f path \<noteq> None then (Inr out, f)
               else if \<not> bo_create_ok w path then (Inl (CreateFailed path), f)
               else
                 let (ok, written) = ds4_blob_write_all (bo_writes w) [] bytes;
                     f1 = f(path \<mapsto> written) in
                 if ok \<and> bo_close_ok w then (Inr out, f1)
                 else (Inl (if ok then CloseFailed path else WriteFailed),
                       if bo_unlink_ok w path then f1(path := None) else f1))))"

section \<open>Reading a range\<close>

definition ds4_context_blob_read_range ::
  "blob_io \<Rightarrow> fs \<Rightarrow> string option \<Rightarrow> string option \<Rightarrow> u64 \<Rightarrow> u64 \<Rightarrow> blob_error + byte list" where
  "ds4_context_blob_read_range w f base_dir ident offset len =
     (if \<not> ds4_context_blob_id_valid ident then Inl InvalidId
      else if SIZE_MAX - 1 < len then Inl LengthTooLarge
      else (case ds4_blob_join_path base_dir (map_option (drop 7) ident) 4096 of
          Inl e \<Rightarrow> Inl e
        | Inr path \<Rightarrow>
          (case (if bo_open_ok w path then f path else None) of
             None \<Rightarrow> Inl (OpenFailed (the ident))
           | Some data \<Rightarrow>
             if \<not> bo_seek_ok w path then Inl (SeekFailed (the ident))
             else
               let end_pos = (of_nat (length data) :: u64) in
               if end_pos \<le> offset \<or> len = 0
               then (if bo_malloc_ok w 1 then Inr [] else Inl OutOfMemory)
               else
                 let available = end_pos - offset;
                     n = (if available < len then available else len) in
                 if 0x7FFFFFFFFFFFFFFF < offset then Inl (SeekFailed (the ident))
                 else if \<not> bo_malloc_ok w (n + 1) then Inl OutOfMemory
                 else
                   let whole = take (unat n) (drop (unat offset) data);
                       got = (case bo_read_fails_at w of None \<Rightarrow> whole | Some k \<Rightarrow> take k whole) in
                   if length got \<noteq> unat n \<and> bo_read_fails_at w \<noteq> None then Inl (ReadFailed (the ident))
                   else Inr got)))"

section \<open>Lemmas\<close>

lemma take_whole: "\<exists>k. xs = take k xs"
  by (rule exI [of _ "length xs"]) simp

lemma write_all_prefix:
  assumes "ds4_blob_write_all ws acc p = (ok, out)"
  shows "\<exists>k. out = acc @ take k p" and "ok \<Longrightarrow> out = acc @ p"
  using assms
proof (induction ws acc p arbitrary: ok out rule: ds4_blob_write_all.induct)
  case (5 k ws acc b p)
  { case 1
    show ?case
    proof (cases "k = 0")
      case True
      then show ?thesis using 1 by (intro exI [of _ 0]) simp
    next
      case False
      then obtain j where "out = (acc @ take k (b # p)) @ take j (drop k (b # p))"
        using 5(1) 1 by (metis ds4_blob_write_all.simps(5))
      then show ?thesis by (intro exI [of _ "k + j"]) (simp add: take_add)
    qed
  next
    case 2
    then show ?case using 5(2) by (auto split: if_splits)
  }
qed (auto intro: exI [of _ 0] take_whole)

lemma write_all_True: "ds4_blob_write_all ws acc p = (True, out) \<Longrightarrow> out = acc @ p"
  by (rule write_all_prefix(2)) simp_all

lemma hex_digit_range:
  "c \<in> set hex_digits \<Longrightarrow> (48 \<le> ord c \<and> ord c \<le> 57) \<or> (97 \<le> ord c \<and> ord c \<le> 102)"
  by (auto simp: hex_digits_def ord_def)

lemma id_valid_of_hash: "ds4_context_blob_id_valid (Some (''sha256:'' @ ds4_sha256_hex p))"
proof -
  have "\<forall>c \<in> set (ds4_sha256_hex p). c \<in> set hex_digits"
    using hex_bytes_chars unfolding sha256_hex_eq by blast
  then have "list_all (\<lambda>c. (48 \<le> ord c \<and> ord c \<le> 57) \<or> (97 \<le> ord c \<and> ord c \<le> 102)) (ds4_sha256_hex p)"
    unfolding list_all_iff using hex_digit_range by blast
  then show ?thesis by (simp add: ds4_context_blob_id_valid_def)
qed

lemma join_path_Inr:
  "ds4_blob_join_path base_dir hex n = Inr path \<longleftrightarrow>
     (\<exists>b h. base_dir = Some b \<and> hex = Some h \<and> b \<noteq> [] \<and> length h = 64
        \<and> path = b @ ''/sha256/'' @ h @ ''.txt'' \<and> length path < n)"
  by (auto simp: ds4_blob_join_path_def Let_def split: option.splits if_splits)

text \<open>The successful runs: the blob is found under its name or has just been written in full.\<close>

lemma put_text_Inr:
  assumes "ds4_context_blob_put_text w f base_dir (Some t) len = (Inr r, f')"
  shows "\<exists>b. base_dir = Some b \<and> b \<noteq> [] \<and> length (br_path r) < 1024
     \<and> br_id r = ''sha256:'' @ ds4_sha256_hex (bytes_of (take len t))
     \<and> br_path r = b @ ''/sha256/'' @ ds4_sha256_hex (bytes_of (take len t)) @ ''.txt''
     \<and> br_bytes r = of_nat len
     \<and> (if f (br_path r) \<noteq> None then f' = f else f' = f(br_path r \<mapsto> bytes_of (take len t)))"
  using assms
  by (auto simp: ds4_context_blob_put_text_def Let_def join_path_Inr dest!: write_all_True
      split: if_splits sum.splits prod.splits)

lemma put_then_read:
  assumes put: "ds4_context_blob_put_text w f base_dir (Some t) len = (Inr r, f')"
    and stored: "f (br_path r) = None \<or> f (br_path r) = Some (bytes_of (take len t))"
    and io: "bo_open_ok w' (br_path r)" "bo_seek_ok w' (br_path r)" "bo_read_fails_at w' = None" "\<And>n. bo_malloc_ok w' n"
    and sz: "length t < 2 ^ 63" "n < UINT64_MAX"
  shows "ds4_context_blob_read_range w' f' base_dir (Some (br_id r)) offset n
     = Inr (take (unat n) (drop (unat offset) (bytes_of (take len t))))"
proof -
  let ?d = "bytes_of (take len t)"
  obtain b where b: "base_dir = Some b" "b \<noteq> []" "length (br_path r) < 1024"
      "br_id r = ''sha256:'' @ ds4_sha256_hex ?d" "br_path r = b @ ''/sha256/'' @ ds4_sha256_hex ?d @ ''.txt''"
    and f': "f' (br_path r) = Some ?d"
    using put_text_Inr [OF put] stored by (auto split: if_splits)
  have j: "ds4_blob_join_path base_dir (map_option (drop 7) (Some (br_id r))) 4096 = Inr (br_path r)"
    using b by (simp add: ds4_blob_join_path_def Let_def)
  have v: "ds4_context_blob_id_valid (Some (br_id r))" unfolding b(4) by (rule id_valid_of_hash)
  have n: "\<not> SIZE_MAX - 1 < n" using sz(2) by (simp add: word_less_nat_alt unat_minus_one)
  have len: "length ?d < 2 ^ 63" using sz(1) by simp
  then have e: "unat (of_nat (length ?d) :: u64) = length ?d" by (intro unat_of_nat64) simp
  show ?thesis
  proof (cases "of_nat (length ?d) \<le> offset \<or> n = 0")
    case True
    then have "length ?d \<le> unat offset \<or> unat n = 0" using e by (auto simp: word_le_nat_alt)
    then show ?thesis using True v n j io f'
      by (auto simp: ds4_context_blob_read_range_def)
  next
    case False
    have o: "unat offset < length ?d" using False e by (simp add: word_le_nat_alt not_le)
    have "\<not> 0x7FFFFFFFFFFFFFFF < offset" using o len by (auto simp: word_less_nat_alt min_def split: if_splits)
    moreover have "unat (of_nat (length ?d) - offset) = length ?d - unat offset"
      using False e by (simp add: unat_sub64 not_le less_imp_le)
    then have "take (unat (if of_nat (length ?d) - offset < n then of_nat (length ?d) - offset else n)) (drop (unat offset) ?d)
        = take (unat n) (drop (unat offset) ?d)"
      by (auto simp: word_less_nat_alt)
    ultimately show ?thesis using False v n j io f'
      by (simp add: ds4_context_blob_read_range_def Let_def del: length_bytes_of)
  qed
qed

text \<open>An environment in which every call succeeds, after one interrupted and one short write.\<close>

definition good_blob_io :: blob_io where
  "good_blob_io = \<lparr>bo_now = 7, bo_mkdir_ok = (\<lambda>_. True), bo_create_ok = (\<lambda>_. True),
     bo_writes = [Interrupted, Wrote 1], bo_close_ok = True, bo_unlink_ok = (\<lambda>_. False),
     bo_open_ok = (\<lambda>_. True), bo_seek_ok = (\<lambda>_. True), bo_read_fails_at = None, bo_malloc_ok = (\<lambda>_. True)\<rparr>"

section \<open>Properties\<close>

text \<open>what is put is what is read: after a text has been stored (or found stored intact under
  its hash), reading any range of its id gives exactly those bytes of it, cut at its end.\<close>

theorem blob_put_then_read:
  assumes put: "ds4_context_blob_put_text w f base_dir (Some t) len = (Inr r, f')"
    and stored: "f (br_path r) = None \<or> f (br_path r) = Some (bytes_of (take len t))"
    and io: "bo_open_ok w' (br_path r)" "bo_seek_ok w' (br_path r)" "bo_read_fails_at w' = None" "\<And>n. bo_malloc_ok w' n"
    and sz: "length t < 2 ^ 63" "n < UINT64_MAX"
  shows "ds4_context_blob_read_range w' f' base_dir (Some (br_id r)) offset n
     = Inr (take (unat n) (drop (unat offset) (bytes_of (take len t))))"
  using assms by (rule put_then_read)

lemma blob_put_then_read_witness:
  "\<exists>r f'. ds4_context_blob_put_text good_blob_io Map.empty (Some ''b'') (Some ''hello'') 5 = (Inr r, f')
     \<and> ds4_context_blob_read_range good_blob_io f' (Some ''b'') (Some (br_id r)) 1 3 = Inr (bytes_of ''ell'')"
proof -
  have "\<exists>r f'. ds4_context_blob_put_text good_blob_io Map.empty (Some ''b'') (Some ''hello'') 5 = (Inr r, f')"
    by (simp add: ds4_context_blob_put_text_def ds4_blob_mkdir_p_def ds4_blob_join_path_def good_blob_io_def
        bytes_of_def Let_def)
  then obtain r f' where put: "ds4_context_blob_put_text good_blob_io Map.empty (Some ''b'') (Some ''hello'') 5 = (Inr r, f')"
    by blast
  have "ds4_context_blob_read_range good_blob_io f' (Some ''b'') (Some (br_id r)) 1 3
      = Inr (take (unat (3 :: u64)) (drop (unat (1 :: u64)) (bytes_of (take 5 ''hello''))))"
    by (rule blob_put_then_read [OF put]) (simp_all add: good_blob_io_def)
  then show ?thesis using put by (auto simp: bytes_of_def)
qed

text \<open>a failed put leaves no partial blob behind: whichever write, close or create fails, the
  disk is as it was when the partial file can be removed, and otherwise only the blob's own path has
  changed.\<close>

theorem blob_put_failure:
  assumes "ds4_context_blob_put_text w f base_dir txt len = (Inl e, f')"
    and "f' \<noteq> f"
  shows "\<exists>path k. \<not> bo_unlink_ok w path \<and> f path = None \<and> (e = WriteFailed \<or> e = CloseFailed path)
     \<and> f' = f(path \<mapsto> bytes_of (take k (case txt of None \<Rightarrow> [] | Some t \<Rightarrow> t)))"
proof -
  have "\<exists>path bs ok. \<not> bo_unlink_ok w path \<and> f path = None \<and> (e = WriteFailed \<or> e = CloseFailed path)
     \<and> f' = f(path \<mapsto> bs) \<and> ds4_blob_write_all (bo_writes w) [] (bytes_of (take len (case txt of None \<Rightarrow> [] | Some t \<Rightarrow> t))) = (ok, bs)"
    using assms
    by (auto simp: ds4_context_blob_put_text_def Let_def split: if_splits sum.splits prod.splits)
  then obtain path bs ok where p: "\<not> bo_unlink_ok w path" "f path = None" "e = WriteFailed \<or> e = CloseFailed path"
      "f' = f(path \<mapsto> bs)"
    and w: "ds4_blob_write_all (bo_writes w) [] (bytes_of (take len (case txt of None \<Rightarrow> [] | Some t \<Rightarrow> t))) = (ok, bs)"
    by blast
  obtain k where "bs = take k (bytes_of (take len (case txt of None \<Rightarrow> [] | Some t \<Rightarrow> t)))"
    using write_all_prefix(1) [OF w] by auto
  then have "bs = bytes_of (take (min k len) (case txt of None \<Rightarrow> [] | Some t \<Rightarrow> t))"
    by (simp add: take_bytes_of)
  then show ?thesis using p by blast
qed

lemma blob_put_failure_witness:
  "\<exists>e f' path k. ds4_context_blob_put_text (good_blob_io\<lparr>bo_writes := [Wrote 2, WriteError]\<rparr>) Map.empty
       (Some ''b'') (Some ''hello'') 5 = (Inl e, f') \<and> f' = [path \<mapsto> bytes_of (take k ''hello'')]"
proof -
  let ?w = "good_blob_io\<lparr>bo_writes := [Wrote 2, WriteError]\<rparr>"
  have "\<exists>e f'. ds4_context_blob_put_text ?w Map.empty (Some ''b'') (Some ''hello'') 5 = (Inl e, f') \<and> f' \<noteq> Map.empty"
    by (simp add: ds4_context_blob_put_text_def ds4_blob_mkdir_p_def ds4_blob_join_path_def good_blob_io_def
        bytes_of_def Let_def)
  then obtain e f' where put: "ds4_context_blob_put_text ?w Map.empty (Some ''b'') (Some ''hello'') 5 = (Inl e, f')"
    and ne: "f' \<noteq> Map.empty" by blast
  from blob_put_failure [OF put ne] show ?thesis using put by auto
qed

end
