(* ===== verification/ToolCompress.thy ===== *)
theory ToolCompress
  imports TcBuf ContextBlob
begin

text \<open>
  Compression of tool output (\<^verbatim>\<open>ds4_tool_compress.c\<close>): the classification of an output, one lossy
  compressor per kind, and \<^verbatim>\<open>ds4_tool_compress_result_text\<close>, which keeps the exact original in the
  blob store before it replaces it. A text is given with its length, as in the C code, and is
  followed by a NUL (\<^verbatim>\<open>strstr\<close> stops at the first NUL, \<open>cstr\<close>). \<open>mok\<close> says which allocations
  succeed. A tool name is \<open>None\<close> for NULL; a NULL text is the empty text.
\<close>

abbreviation NL :: string where
  "NL \<equiv> [CHR 0x0A]"

definition DS4_TOOL_COMPRESS_MIN_BYTES :: nat where "DS4_TOOL_COMPRESS_MIN_BYTES = 4096"
definition DS4_TOOL_COMPRESS_HUGE_BYTES :: nat where "DS4_TOOL_COMPRESS_HUGE_BYTES = 32768"
definition DS4_TOOL_COMPRESS_MAX_INLINE_BYTES :: size_t where "DS4_TOOL_COMPRESS_MAX_INLINE_BYTES = 12000"

section \<open>Looking at lines\<close>

definition ds4_tc_line_starts_with :: "string \<Rightarrow> ds4_tc_line \<Rightarrow> string \<Rightarrow> bool" where
  "ds4_tc_line_starts_with s l prefix \<longleftrightarrow>
     length prefix \<le> ln_content_end l - ln_start l \<and> take (length prefix) (line_content s l) = prefix"

definition ds4_tc_line_contains_ci :: "string \<Rightarrow> ds4_tc_line \<Rightarrow> string \<Rightarrow> bool" where
  "ds4_tc_line_contains_ci s l needle =
     (let c = line_content s l; nn = length needle in
      if nn = 0 \<or> length c < nn then False
      else list_ex (\<lambda>i. map tolower (take nn (drop i c)) = map tolower needle) [0..<Suc (length c - nn)])"

definition ds4_tc_line_important :: "string \<Rightarrow> ds4_tc_line \<Rightarrow> bool" where
  "ds4_tc_line_important s l =
     list_ex (ds4_tc_line_contains_ci s l)
       [''error'', ''fatal'', ''failed'', ''traceback'', ''panic'', ''exception'',
        ''warning'', ''undefined reference'', ''segmentation fault'', ''todo'', ''fail'']"

definition ds4_tc_first_nonspace :: "string \<Rightarrow> string" where
  "ds4_tc_first_nonspace s = dropWhile isspace s"

definition ds4_tc_count_substring :: "string \<Rightarrow> string \<Rightarrow> nat" where
  "ds4_tc_count_substring s needle =
     (let nn = length needle in
      if nn = 0 \<or> length s < nn then 0
      else length (filter (\<lambda>i. take nn (drop i s) = needle) [0..<Suc (length s - nn)]))"

definition blank :: "char \<Rightarrow> bool" where
  "blank c \<longleftrightarrow> c = CHR '' '' \<or> c = CHR 0x09"

definition ds4_tc_looks_grep_line :: "string \<Rightarrow> bool" where
  "ds4_tc_looks_grep_line p =
     (if p = [] \<or> blank (hd p) then False
      else let i = length (takeWhile (\<lambda>c. c \<noteq> CHR '':'' \<and> c \<noteq> CHR 0x0A \<and> c \<noteq> CHR 0x0D) p) in
        if i = 0 \<or> length p \<le> i + 2 \<or> p ! i \<noteq> CHR '':'' then False
        else let r = drop (Suc i) p; after = dropWhile isdigit r in
          takeWhile isdigit r \<noteq> [] \<and> after \<noteq> [] \<and> hd after = CHR '':'')"

definition ds4_tc_looks_numbered_match_line :: "string \<Rightarrow> bool" where
  "ds4_tc_looks_numbered_match_line p =
     (let r = dropWhile blank p; after = dropWhile isdigit r in
      takeWhile isdigit r \<noteq> [] \<and> after \<noteq> [] \<and> blank (hd after))"

section \<open>Classification\<close>

datatype ds4_tool_content_kind =
    DS4_TOOL_CONTENT_UNKNOWN | DS4_TOOL_CONTENT_SEARCH | DS4_TOOL_CONTENT_LOG | DS4_TOOL_CONTENT_JSON_ARRAY
  | DS4_TOOL_CONTENT_DIFF | DS4_TOOL_CONTENT_FILE | DS4_TOOL_CONTENT_TRACE

definition ds4_tool_content_kind_name :: "ds4_tool_content_kind \<Rightarrow> string" where
  "ds4_tool_content_kind_name kind =
     (case kind of
        DS4_TOOL_CONTENT_SEARCH \<Rightarrow> ''search'' | DS4_TOOL_CONTENT_LOG \<Rightarrow> ''log''
      | DS4_TOOL_CONTENT_JSON_ARRAY \<Rightarrow> ''json_array'' | DS4_TOOL_CONTENT_DIFF \<Rightarrow> ''diff''
      | DS4_TOOL_CONTENT_FILE \<Rightarrow> ''file'' | DS4_TOOL_CONTENT_TRACE \<Rightarrow> ''trace''
      | DS4_TOOL_CONTENT_UNKNOWN \<Rightarrow> ''unknown'')"

text \<open>Among the first 300 lines, how many look like grep output and like numbered matches; no line
  counts when the table of lines cannot be allocated.\<close>

definition search_evidence :: "(size_t \<Rightarrow> bool) \<Rightarrow> string \<Rightarrow> nat \<times> nat" where
  "search_evidence mok s =
     (case ds4_tc_split_lines mok s of None \<Rightarrow> (0, 0)
      | Some lines \<Rightarrow>
        let cs = map (line_content s) (take 300 (lns_v lines)) in
        (length (filter ds4_tc_looks_grep_line cs), length (filter ds4_tc_looks_numbered_match_line cs)))"

definition ds4_tool_classify_output :: "(size_t \<Rightarrow> bool) \<Rightarrow> string option \<Rightarrow> string \<Rightarrow> ds4_tool_content_kind" where
  "ds4_tool_classify_output mok tool s =
     (let has = strstr (cstr s); p = ds4_tc_first_nonspace s; search = (tool = Some ''search'');
          (grepish, numbered) = search_evidence mok s in
      if tool = Some ''retrieve_context_blob'' then DS4_TOOL_CONTENT_UNKNOWN
      else if tool = Some ''read'' \<or> tool = Some ''more'' \<or> tool = Some ''cat'' \<or> tool = Some ''crawl''
      then DS4_TOOL_CONTENT_FILE
      else if take 10 p = ''diff --git'' \<or> has (NL @ ''diff --git '')
              \<or> 2 \<le> ds4_tc_count_substring s (NL @ ''@@ '') then DS4_TOOL_CONTENT_DIFF
      else if p \<noteq> [] \<and> hd p = CHR ''['' \<and> CHR ''{'' \<in> set (cstr p) \<and> DS4_TOOL_COMPRESS_MIN_BYTES < length s
      then DS4_TOOL_CONTENT_JSON_ARRAY
      else if (search \<or> has (''matches shown'' @ NL) \<or> 20 < ds4_tc_count_substring s '':'')
              \<and> (8 \<le> grepish \<or> 8 \<le> numbered \<or> search) then DS4_TOOL_CONTENT_SEARCH
      else if has ''Traceback'' \<or> has ''FAILED'' \<or> has ''panic'' \<or> has ''error:'' \<or> has ''warning:''
              \<or> has ''Exception'' \<or> has ''undefined reference'' then DS4_TOOL_CONTENT_LOG
      else if tool = Some ''bash'' \<or> tool = Some ''bash_status'' \<or> tool = Some ''bash_stop''
      then DS4_TOOL_CONTENT_LOG
      else if (has ''Tool result'' \<and> (has ''(read)'' \<or> has ''(more)'')) \<or> has ''continue_offset=''
              \<or> has ''[Read truncated'' then DS4_TOOL_CONTENT_FILE
      else DS4_TOOL_CONTENT_UNKNOWN)"

section \<open>Candidates\<close>

record ds4_tc_candidate =
  cd_text :: "string option"
  cd_omitted_lines :: u64
  cd_strategy :: string

definition full :: "ds4_tc_buf \<Rightarrow> bool" where
  "full b \<longleftrightarrow> DS4_TOOL_COMPRESS_MAX_INLINE_BYTES < db_len b"

definition taken :: "(size_t \<Rightarrow> bool) \<Rightarrow> buf_error + ds4_tc_buf \<Rightarrow> string option" where
  "taken mok r = (case r of Inl _ \<Rightarrow> None | Inr b \<Rightarrow> ds4_tc_buf_take mok b)"

subsection \<open>Logs\<close>

text \<open>The loop that marks important lines, until 200 that were not shown have been added; a pair is
  whether the line is important and whether it is shown already.\<close>

fun mark_important :: "nat \<Rightarrow> (bool \<times> bool) list \<Rightarrow> bool list" where
  "mark_important added [] = []"
| "mark_important added ((imp, sh) # r) =
     (if 200 \<le> added then sh # map snd r
      else if imp then True # mark_important (if sh then added else Suc added) r
      else sh # mark_important added r)"

definition log_show :: "string \<Rightarrow> ds4_tc_line list \<Rightarrow> bool list" where
  "log_show s ls =
     (let n = length ls; head = (if n < 40 then n else 40); tail_start = (if 80 < n then n - 80 else 0) in
      mark_important 0 (map (\<lambda>i. (ds4_tc_line_important s (ls ! i), i < head \<or> tail_start \<le> i)) [0..<n]))"

definition log_header :: "nat \<Rightarrow> nat \<Rightarrow> u64 \<Rightarrow> string" where
  "log_header n shown omitted =
     ''[log output compressed]'' @ NL @ ''original_lines: '' @ nat_dec n @ NL @ ''shown_lines: '' @ nat_dec shown
     @ NL @ ''omitted_lines: '' @ nat_dec (unat omitted) @ NL @ NL @ ''important/head/tail lines:'' @ NL"

definition shown_indices :: "bool list \<Rightarrow> nat list" where
  "shown_indices show = filter (\<lambda>i. show ! i) [0..<length show]"

definition omitted_of :: "nat \<Rightarrow> nat \<Rightarrow> u64" where
  "omitted_of n shown = (if shown < n then of_nat (n - shown) else 0)"

text \<open>The loop over the lines skips those not shown and stops, when the buffer is full, at the next
  shown line \<open>i\<close>, adding \<open>shown - i\<close> to the omitted lines, in 64-bit arithmetic.\<close>

definition ds4_tc_compress_log :: "(size_t \<Rightarrow> bool) \<Rightarrow> string \<Rightarrow> ds4_tc_candidate" where
  "ds4_tc_compress_log mok s =
     (let cand = \<lparr>cd_text = None, cd_omitted_lines = 0, cd_strategy = ''log_compressor''\<rparr> in
      case ds4_tc_split_lines mok s of None \<Rightarrow> cand
      | Some lines \<Rightarrow>
        let ls = lns_v lines; n = length ls in
        if \<not> mok (of_nat (if n = 0 then 1 else n)) then cand
        else
          let show = log_show s ls; is = shown_indices show; shown = length is;
              omitted = omitted_of n shown in
          case bind_res (ds4_tc_buf_printf mok dynbuf_empty (log_header n shown omitted))
                 (\<lambda>b. append_capped (ds4_tc_buf_append mok) full b (map (\<lambda>i. line_text s (ls ! i)) is)) of
            Inl _ \<Rightarrow> cand\<lparr>cd_omitted_lines := omitted\<rparr>
          | Inr (b, k) \<Rightarrow>
            cand\<lparr>cd_text := ds4_tc_buf_take mok b,
                 cd_omitted_lines :=
                   (if k < shown then omitted + (of_nat shown - of_nat (is ! k)) else omitted)\<rparr>)"

subsection \<open>Search results\<close>

record ds4_tc_file_stat =
  fs_name :: string
  fs_total :: int
  fs_shown :: int

definition ds4_tc_find_file :: "ds4_tc_file_stat list \<Rightarrow> string \<Rightarrow> nat option" where
  "ds4_tc_find_file stats name =
     find (\<lambda>i. cstr (fs_name (stats ! i)) = take 191 name) [0..<length stats]"

text \<open>The state of the loop: the statistics (at most 96 files, names of at most 191 bytes) and the
  current file heading.\<close>

record search_state =
  ss_stats :: "ds4_tc_file_stat list"
  ss_current :: "string option"

definition search_match :: "bool \<Rightarrow> string \<Rightarrow> search_state \<Rightarrow> search_state \<times> bool" where
  "search_match important file_name st =
     (let stats = ss_stats st;
          (si, stats1) =
            (case ds4_tc_find_file stats file_name of
               Some i \<Rightarrow> (Some i, stats)
             | None \<Rightarrow>
               if length stats < 96
               then (Some (length stats), stats @ [\<lparr>fs_name = take 191 file_name, fs_total = 0, fs_shown = 0\<rparr>])
               else (None, stats)) in
      case si of
        None \<Rightarrow> (st\<lparr>ss_stats := stats1\<rparr>, important)
      | Some i \<Rightarrow>
        let e = (stats1 ! i)\<lparr>fs_total := fs_total (stats1 ! i) + 1\<rparr> in
        if fs_shown e < 5 \<or> important
        then (st\<lparr>ss_stats := stats1[i := e\<lparr>fs_shown := fs_shown e + 1\<rparr>]\<rparr>, True)
        else (st\<lparr>ss_stats := stats1[i := e]\<rparr>, False))"

text \<open>One line. The test for \<^verbatim>\<open>matches shown\<close> searches from the start of the line to the end of the
  whole text, as the code's \<^verbatim>\<open>strstr(lp, ...)\<close> does.\<close>

definition search_line :: "string \<Rightarrow> search_state \<Rightarrow> ds4_tc_line \<Rightarrow> search_state \<times> bool" where
  "search_line s st l =
     (let lp = line_content s l; important = ds4_tc_line_important s l in
      if lp = [] then (st, False)
      else if ds4_tc_looks_grep_line lp
      then search_match important (takeWhile (\<lambda>c. c \<noteq> CHR '':'') lp) st
      else if ds4_tc_looks_numbered_match_line lp \<and> ss_current st \<noteq> None
      then search_match important (the (ss_current st)) st
      else if \<not> blank (hd lp) \<and> \<not> strstr (cstr (drop (ln_start l) s)) ''matches shown''
      then (st\<lparr>ss_current := Some lp,
               ss_stats := (if length (ss_stats st) < 96 \<and> ds4_tc_find_file (ss_stats st) lp = None
                            then ss_stats st @ [\<lparr>fs_name = take 191 lp, fs_total = 0, fs_shown = 0\<rparr>]
                            else ss_stats st)\<rparr>, True)
      else (st, False))"

fun search_lines :: "string \<Rightarrow> search_state \<Rightarrow> ds4_tc_line list \<Rightarrow> search_state \<times> bool list" where
  "search_lines s st [] = (st, [])"
| "search_lines s st (l # ls) =
     (let (st1, sh) = search_line s st l; (st2, shs) = search_lines s st1 ls in (st2, sh # shs))"

definition search_header :: "nat \<Rightarrow> nat \<Rightarrow> u64 \<Rightarrow> string" where
  "search_header n shown omitted =
     ''[search output compressed]'' @ NL @ ''original_lines: '' @ nat_dec n @ NL @ ''shown_lines: '' @ nat_dec shown
     @ NL @ ''omitted_lines: '' @ nat_dec (unat omitted) @ NL @ ''matches_by_file:'' @ NL"

definition int_dec :: "int \<Rightarrow> string" where
  "int_dec i = (if i < 0 then CHR ''-'' # nat_dec (nat (- i)) else nat_dec (nat i))"

definition stat_line :: "ds4_tc_file_stat \<Rightarrow> string" where
  "stat_line e = ''- '' @ cstr (fs_name e) @ '': '' @ int_dec (fs_total e) @ '' matches, shown ''
     @ int_dec (fs_shown e) @ NL"

definition ds4_tc_compress_search :: "(size_t \<Rightarrow> bool) \<Rightarrow> string \<Rightarrow> ds4_tc_candidate" where
  "ds4_tc_compress_search mok s =
     (let cand = \<lparr>cd_text = None, cd_omitted_lines = 0, cd_strategy = ''search_compressor''\<rparr> in
      case ds4_tc_split_lines mok s of None \<Rightarrow> cand
      | Some lines \<Rightarrow>
        let ls = lns_v lines; n = length ls in
        if \<not> mok (of_nat (if n = 0 then 1 else n)) then cand
        else
          let (st, show) = search_lines s \<lparr>ss_stats = [], ss_current = None\<rparr> ls;
              is = shown_indices show; shown = length is; omitted = omitted_of n shown;
              named = filter (\<lambda>e. cstr (fs_name e) \<noteq> []) (ss_stats st);
              out = bind_res (ds4_tc_buf_printf mok dynbuf_empty (search_header n shown omitted)) (\<lambda>b.
                    bind_res (append_all (ds4_tc_buf_printf mok) b (map stat_line named)) (\<lambda>b.
                    bind_res (ds4_tc_buf_puts mok b (NL @ ''Top matches:'' @ NL)) (\<lambda>b.
                    bind_res (append_capped (ds4_tc_buf_append mok) full b (map (\<lambda>i. line_text s (ls ! i)) is))
                      (\<lambda>(b, k). Inr b))))
          in cand\<lparr>cd_text := taken mok out, cd_omitted_lines := omitted\<rparr>)"

subsection \<open>Diffs\<close>

record diff_state =
  df_files :: nat
  df_plus :: nat
  df_minus :: nat
  df_shown :: nat
  df_body :: ds4_tc_buf

text \<open>The counters after looking at a line, and whether it is kept.\<close>

definition diff_keep :: "string \<Rightarrow> ds4_tc_line \<Rightarrow> diff_state \<Rightarrow> diff_state \<times> bool" where
  "diff_keep s l d =
     (let c = line_content s l; starts = ds4_tc_line_starts_with s l in
      if starts ''diff --git'' then (d\<lparr>df_files := df_files d + 1\<rparr>, True)
      else if starts ''@@ '' then (d, True)
      else if starts ''+++ '' \<or> starts ''--- '' then (d, True)
      else if c \<noteq> [] \<and> hd c = CHR ''+'' \<and> \<not> starts ''+++'' then (d\<lparr>df_plus := df_plus d + 1\<rparr>, True)
      else if c \<noteq> [] \<and> hd c = CHR ''-'' \<and> \<not> starts ''---'' then (d\<lparr>df_minus := df_minus d + 1\<rparr>, True)
      else (d, False))"

definition diff_line :: "(size_t \<Rightarrow> bool) \<Rightarrow> string \<Rightarrow> diff_state \<Rightarrow> ds4_tc_line \<Rightarrow> diff_state" where
  "diff_line mok s d l =
     (let (d1, keep) = diff_keep s l d in
      if keep \<and> db_len (df_body d1) < DS4_TOOL_COMPRESS_MAX_INLINE_BYTES
      then (case ds4_tc_append_line mok (df_body d1) s l of
              Inl _ \<Rightarrow> d1
            | Inr b \<Rightarrow> d1\<lparr>df_body := b, df_shown := df_shown d1 + 1\<rparr>)
      else d1)"

definition diff_header :: "diff_state \<Rightarrow> u64 \<Rightarrow> string" where
  "diff_header d omitted =
     ''[diff compressed]'' @ NL @ ''files_changed: '' @ nat_dec (df_files d) @ NL @ ''summary: +'' @ nat_dec (df_plus d)
     @ '' -'' @ nat_dec (df_minus d) @ NL @ ''shown_lines: '' @ nat_dec (df_shown d) @ NL
     @ ''omitted_lines: '' @ nat_dec (unat omitted) @ NL @ ''shown_hunks:'' @ NL"

definition ds4_tc_compress_diff :: "(size_t \<Rightarrow> bool) \<Rightarrow> string \<Rightarrow> ds4_tc_candidate" where
  "ds4_tc_compress_diff mok s =
     (let cand = \<lparr>cd_text = None, cd_omitted_lines = 0, cd_strategy = ''diff_compressor''\<rparr> in
      case ds4_tc_split_lines mok s of None \<Rightarrow> cand
      | Some lines \<Rightarrow>
        let d = foldl (diff_line mok s)
              \<lparr>df_files = 0, df_plus = 0, df_minus = 0, df_shown = 0, df_body = dynbuf_empty\<rparr> (lns_v lines);
            omitted = omitted_of (length (lns_v lines)) (df_shown d);
            out = bind_res (ds4_tc_buf_printf mok dynbuf_empty (diff_header d omitted))
                    (\<lambda>b. ds4_tc_buf_puts mok b (dynbuf_text (df_body d)))
        in cand\<lparr>cd_text := taken mok out, cd_omitted_lines := omitted\<rparr>)"

subsection \<open>JSON arrays\<close>

definition json_header :: "nat \<Rightarrow> nat \<Rightarrow> bool \<Rightarrow> string" where
  "json_header objects head tail =
     ''[json array compressed]'' @ NL @ ''estimated_items: '' @ nat_dec objects @ NL @ ''shown: first '' @ nat_dec head
     @ '' bytes'' @ (if tail then '' + last 4000 bytes'' else []) @ NL @ NL @ ''sample_first:'' @ NL"

text \<open>A line break unless the text ends with one.\<close>

definition end_line :: "(size_t \<Rightarrow> bool) \<Rightarrow> ds4_tc_buf \<Rightarrow> buf_error + ds4_tc_buf" where
  "end_line mok b =
     (if the (db_ptr b) ! unat (db_len b - 1) \<noteq> Some (CHR 0x0A) then ds4_tc_buf_puts mok b NL else Inr b)"

definition ds4_tc_compress_json_array :: "(size_t \<Rightarrow> bool) \<Rightarrow> string \<Rightarrow> ds4_tc_candidate" where
  "ds4_tc_compress_json_array mok s =
     (let objects = length (filter (\<lambda>c. c = CHR ''{'') s);
          head = (if length s < 6000 then length s else 6000);
          tail = (if head + 4000 < length s then 4000 else 0);
          out = bind_res (ds4_tc_buf_printf mok dynbuf_empty (json_header objects head (tail \<noteq> 0))) (\<lambda>b.
                bind_res (ds4_tc_buf_append mok b (take head s)) (\<lambda>b.
                bind_res (if head \<noteq> 0 then end_line mok b else Inr b) (\<lambda>b.
                if tail \<noteq> 0
                then bind_res (ds4_tc_buf_puts mok b (NL @ ''sample_last:'' @ NL)) (\<lambda>b.
                     bind_res (ds4_tc_buf_append mok b (drop (length s - tail) s)) (end_line mok))
                else Inr b)))
      in \<lparr>cd_text = taken mok out, cd_omitted_lines = 0, cd_strategy = ''json_array_compressor''\<rparr>)"

subsection \<open>Files\<close>

definition file_header :: "nat \<Rightarrow> nat \<Rightarrow> bool \<Rightarrow> u64 \<Rightarrow> string" where
  "file_header n head tail omitted =
     ''[file content compressed]'' @ NL @ ''original_lines: '' @ nat_dec n @ NL @ ''shown: head '' @ nat_dec head
     @ '' lines'' @ (if tail then '' + tail 80 lines'' else []) @ NL @ ''omitted_lines: '' @ nat_dec (unat omitted)
     @ NL @ NL @ ''head:'' @ NL"

definition ds4_tc_compress_file :: "(size_t \<Rightarrow> bool) \<Rightarrow> string \<Rightarrow> string \<Rightarrow> ds4_tc_candidate" where
  "ds4_tc_compress_file mok s strategy =
     (let cand = \<lparr>cd_text = None, cd_omitted_lines = 0, cd_strategy = strategy\<rparr> in
      case ds4_tc_split_lines mok s of None \<Rightarrow> cand
      | Some lines \<Rightarrow>
        let ls = lns_v lines; n = length ls;
            head = (if n < 100 then n else 100); tail = (if head + 80 < n then 80 else 0);
            omitted = omitted_of n (head + tail);
            out = bind_res (ds4_tc_buf_printf mok dynbuf_empty (file_header n head (tail \<noteq> 0) omitted)) (\<lambda>b.
                  bind_res (append_capped (ds4_tc_buf_append mok) full b (map (line_text s) (take head ls))) (\<lambda>(b, k).
                  if tail \<noteq> 0
                  then bind_res (ds4_tc_buf_puts mok b (NL @ ''tail:'' @ NL)) (\<lambda>b.
                       bind_res (append_capped (ds4_tc_buf_append mok) full b (map (line_text s) (drop (n - tail) ls)))
                         (\<lambda>(b, k). Inr b))
                  else Inr b))
        in cand\<lparr>cd_text := taken mok out, cd_omitted_lines := omitted\<rparr>)"

section \<open>The compressed result\<close>

record ds4_tool_compress_result =
  tr_changed :: bool
  tr_original_saved :: bool
  tr_kind :: ds4_tool_content_kind
  tr_strategy :: string
  tr_blob_id :: string
  tr_original_bytes :: u64
  tr_compressed_bytes :: u64
  tr_omitted_lines :: u64
  tr_text :: "string option"

datatype tc_error = MissingBlobDirectory | BlobFailed blob_error | MarkerMemory

definition marker_head :: "ds4_tool_compress_result \<Rightarrow> u64 \<Rightarrow> string" where
  "marker_head r compressed_bytes =
     ''[ds4 compressed tool output]'' @ NL @ ''strategy: '' @ tr_strategy r @ NL
     @ ''kind: '' @ ds4_tool_content_kind_name (tr_kind r) @ NL
     @ ''original_bytes: '' @ nat_dec (unat (tr_original_bytes r)) @ NL
     @ ''compressed_bytes: '' @ nat_dec (unat compressed_bytes) @ NL
     @ ''blob_id: '' @ tr_blob_id r @ NL
     @ ''retrieve: retrieve_context_blob id='' @ tr_blob_id r @ '' offset=0 length=20000'' @ NL
     @ ''note: lossy live-zone compression; use retrieve_context_blob for exact original bytes.'' @ NL @ NL"

definition ds4_tc_build_marker :: "(size_t \<Rightarrow> bool) \<Rightarrow> ds4_tool_compress_result \<Rightarrow> u64 \<Rightarrow> string \<Rightarrow> string option" where
  "ds4_tc_build_marker mok r compressed_bytes body =
     taken mok (bind_res (ds4_tc_buf_printf mok dynbuf_empty (marker_head r compressed_bytes))
       (\<lambda>b. ds4_tc_buf_puts mok b body))"

text \<open>The loop that states the size of the marked text inside that text, at most four times; the
  result is the size it ends with and the last text built.\<close>

fun marker_loop :: "(size_t \<Rightarrow> bool) \<Rightarrow> ds4_tool_compress_result \<Rightarrow> string \<Rightarrow> nat \<Rightarrow> u64 \<Rightarrow> string
    \<Rightarrow> tc_error + u64 \<times> string" where
  "marker_loop mok r body 0 cb final = Inr (cb, final)"
| "marker_loop mok r body (Suc n) cb final =
     (case ds4_tc_build_marker mok r cb body of
        None \<Rightarrow> Inl MarkerMemory
      | Some m \<Rightarrow>
        let actual = (of_nat (length (cstr m)) :: u64) in
        if actual = cb then Inr (cb, m) else marker_loop mok r body n actual m)"

definition result_zero :: ds4_tool_compress_result where
  "result_zero = \<lparr>tr_changed = False, tr_original_saved = False, tr_kind = DS4_TOOL_CONTENT_UNKNOWN,
     tr_strategy = [], tr_blob_id = [], tr_original_bytes = 0, tr_compressed_bytes = 0, tr_omitted_lines = 0,
     tr_text = None\<rparr>"

text \<open>The compressor chosen for a kind, and the kind the result then carries.\<close>

definition compress_candidate ::
  "(size_t \<Rightarrow> bool) \<Rightarrow> ds4_tool_content_kind \<Rightarrow> string \<Rightarrow> ds4_tool_content_kind \<times> ds4_tc_candidate" where
  "compress_candidate mok kind s =
     (case kind of
        DS4_TOOL_CONTENT_SEARCH \<Rightarrow> (kind, ds4_tc_compress_search mok s)
      | DS4_TOOL_CONTENT_DIFF \<Rightarrow> (kind, ds4_tc_compress_diff mok s)
      | DS4_TOOL_CONTENT_JSON_ARRAY \<Rightarrow> (kind, ds4_tc_compress_json_array mok s)
      | DS4_TOOL_CONTENT_FILE \<Rightarrow> (kind, ds4_tc_compress_file mok s ''file_head_tail_compressor'')
      | DS4_TOOL_CONTENT_LOG \<Rightarrow> (kind, ds4_tc_compress_log mok s)
      | _ \<Rightarrow>
        if DS4_TOOL_COMPRESS_HUGE_BYTES \<le> length s
        then (DS4_TOOL_CONTENT_FILE, ds4_tc_compress_file mok s ''generic_head_tail_compressor'')
        else (kind, \<lparr>cd_text = None, cd_omitted_lines = 0, cd_strategy = []\<rparr>))"

definition ds4_tool_compress_result_text ::
  "(size_t \<Rightarrow> bool) \<Rightarrow> blob_io \<Rightarrow> fs \<Rightarrow> string option \<Rightarrow> string \<Rightarrow> string option
     \<Rightarrow> (tc_error + ds4_tool_compress_result) \<times> fs" where
  "ds4_tool_compress_result_text mok w f tool s blob_base_dir =
     (let kind = ds4_tool_classify_output mok tool s;
          out = result_zero\<lparr>tr_original_bytes := of_nat (length s), tr_kind := kind\<rparr>;
          paginated_read = (tool = Some ''read'' \<or> tool = Some ''more'' \<or> tool = Some ''cat'');
          min_bytes = (if paginated_read then DS4_TOOL_COMPRESS_HUGE_BYTES else DS4_TOOL_COMPRESS_MIN_BYTES) in
      if tool = Some ''retrieve_context_blob'' then (Inr out, f)
      else if length s < min_bytes then (Inr out, f)
      else
        let (kind1, cand) = compress_candidate mok kind s; out1 = out\<lparr>tr_kind := kind1\<rparr>;
            len = (of_nat (length s) :: size_t) in
        (case cd_text cand of None \<Rightarrow> (Inr out1, f)
         | Some c \<Rightarrow>
           let cand_len = (of_nat (length (cstr c)) :: size_t) in
           if len * 4 \<le> cand_len * 5 then (Inr out1, f)
           else if blob_base_dir = None \<or> blob_base_dir = Some [] then (Inl MissingBlobDirectory, f)
           else (case ds4_context_blob_put_text w f blob_base_dir (Some s) (length s) of
               (Inl e, f1) \<Rightarrow> (Inl (BlobFailed e), f1)
             | (Inr ref, f1) \<Rightarrow>
               let out2 = out1\<lparr>tr_strategy := take 63 (cd_strategy cand), tr_blob_id := take 79 (br_id ref),
                             tr_original_saved := True, tr_omitted_lines := cd_omitted_lines cand\<rparr> in
               (case marker_loop mok out2 c 4 cand_len [] of
                  Inl e \<Rightarrow> (Inl e, f1)
                | Inr (cb, final) \<Rightarrow>
                  if len * 4 \<le> cb * 5 then (Inr out, f1)
                  else (Inr (out2\<lparr>tr_changed := True, tr_compressed_bytes := cb, tr_text := Some final\<rparr>), f1)))))"

end
