(* ===== verification/ToolProps.thy ===== *)
theory ToolProps
  imports ToolCompress
begin

text \<open>
  What the tool-output compressor guarantees: its lines cut a text losslessly, its log summary
  consists of whole lines in order and keeps the head, the tail and the important ones, and a
  replaced output is shorter, states its own size and its blob's id, and can be read back byte for
  byte under that id; restating the size settles within the rounds the loop has.
\<close>

section \<open>Decimal numbers\<close>

lemma length_nat_dec: "n < 10 ^ k \<Longrightarrow> 0 < k \<Longrightarrow> length (nat_dec n) \<le> k"
proof (induction n arbitrary: k rule: nat_dec.induct)
  case (1 n)
  show ?case
  proof (cases "n < 10")
    case True
    then show ?thesis using 1(3) by (simp add: nat_dec.simps)
  next
    case False
    then have k: "1 < k" using 1(2) by (cases "k = 1") (auto intro: Suc_lessI simp: 1(3))
    then obtain j where j: "k = Suc j" by (cases k) auto
    then have "n div 10 < 10 ^ (k - 1)" using 1(2) by (simp add: less_mult_imp_div_less mult.commute)
    then have "length (nat_dec (n div 10)) \<le> k - 1" using 1(1) False k by simp
    then show ?thesis using False k by (subst nat_dec.simps) simp
  qed
qed

lemma nat_dec_64: "n < 2 ^ 64 \<Longrightarrow> length (nat_dec n) \<le> 20"
  by (rule length_nat_dec) simp_all

section \<open>Marking the lines of a log\<close>

lemma length_mark [simp]: "length (mark_important a ps) = length ps"
  by (induction a ps rule: mark_important.induct) auto

lemma mark_keeps: "i < length ps \<Longrightarrow> snd (ps ! i) \<Longrightarrow> mark_important a ps ! i"
proof (induction a ps arbitrary: i rule: mark_important.induct)
  case (2 added imp sh r)
  then show ?case by (cases i) auto
qed simp

lemma mark_only: "i < length ps \<Longrightarrow> mark_important a ps ! i \<Longrightarrow> fst (ps ! i) \<or> snd (ps ! i)"
proof (induction a ps arbitrary: i rule: mark_important.induct)
  case (2 added imp sh r)
  then show ?case by (cases i) (auto split: if_splits)
qed simp

lemma mark_adds:
  "a + length (filter (\<lambda>(imp, sh). imp \<and> \<not> sh) ps) \<le> 200 \<Longrightarrow> i < length ps \<Longrightarrow> fst (ps ! i)
     \<Longrightarrow> mark_important a ps ! i"
proof (induction a ps arbitrary: i rule: mark_important.induct)
  case (2 added imp sh r)
  show ?case
  proof (cases "200 \<le> added")
    case True
    then have "filter (\<lambda>(imp, sh). imp \<and> \<not> sh) ((imp, sh) # r) = []"
      using 2(3) by (metis add_leD1 add_diff_cancel_left' le_antisym length_0_conv diff_is_0_eq le_trans)
    then have "\<not> ((\<lambda>(imp, sh). imp \<and> \<not> sh) (((imp, sh) # r) ! i))"
      using 2(4) by (metis filter_empty_conv nth_mem)
    then have "snd (((imp, sh) # r) ! i)" using 2(5) by (simp add: case_prod_unfold)
    then show ?thesis by (rule mark_keeps [OF 2(4)])
  next
    case False
    then show ?thesis using 2 by (cases i) (auto split: if_splits)
  qed
qed simp

lemma shown_indices_props:
  "sorted (shown_indices sh)" "distinct (shown_indices sh)"
  "set (shown_indices sh) = {i. i < length sh \<and> sh ! i}"
  by (auto simp: shown_indices_def sorted_wrt_filter)

lemma length_shown: "length (shown_indices sh) \<le> length sh"
  by (simp add: shown_indices_def) (metis diff_zero length_filter_le length_upt)

lemma sorted_distinct_nth: "sorted is \<Longrightarrow> distinct is \<Longrightarrow> k < length is \<Longrightarrow> k \<le> is ! (k :: nat)"
proof (induction k)
  case (Suc k)
  then have "is ! k < is ! Suc k"
    using sorted_wrt_nth_less [of "(<)" "is" k "Suc k"] by (simp add: strict_sorted_iff)
  with Suc show ?case by simp
qed simp

section \<open>The log summary\<close>

lemma log_header_length:
  assumes "n < 2 ^ 64" "shown \<le> n"
  shows "length (log_header n shown omitted) < 2 ^ 64"
  using nat_dec_64 [OF assms(1)] nat_dec_64 [of shown] nat_dec_64 [of "unat omitted"] assms unat_lt64 [of omitted]
  by (simp add: log_header_def)

lemma line_text_length: "length (line_text s l) \<le> length s"
  by (simp add: line_text_def)

lemma split_lines_count:
  assumes "ds4_tc_split_lines mok s = Some out"
  shows "length (lns_v out) \<le> length s"
proof -
  have "length ls \<le> length (concat (map (line_text s) ls))"
    if "\<forall>l \<in> set ls. ln_start l < ln_end l \<and> ln_end l \<le> length s" for ls
    using that
  proof (induction ls)
    case (Cons l ls)
    then have "1 \<le> length (line_text s l)" by (auto simp: line_text_def)
    moreover have "length ls \<le> length (concat (map (line_text s) ls))" using Cons by simp
    ultimately show ?case by (simp del: One_nat_def)
  qed simp
  from this [of "lns_v out"] show ?thesis using split_lines_text [OF assms] by simp
qed

lemma compress_log_run:
  assumes sp: "ds4_tc_split_lines mok s = Some lines" and l: "length s < 2 ^ 63"
    and t: "cd_text (ds4_tc_compress_log mok s) = Some t"
  defines "ls \<equiv> lns_v lines" and "is \<equiv> shown_indices (log_show s (lns_v lines))"
  shows "\<exists>k. k \<le> length is
     \<and> t = log_header (length ls) (length is) (omitted_of (length ls) (length is))
            @ concat (map (\<lambda>i. line_text s (ls ! i)) (take k is))
     \<and> (k = length is \<or> 12000 < length t)
     \<and> cd_omitted_lines (ds4_tc_compress_log mok s)
       = (if k < length is
          then omitted_of (length ls) (length is) + (of_nat (length is) - of_nat (is ! k))
          else omitted_of (length ls) (length is))"
proof -
  let ?h = "log_header (length ls) (length is) (omitted_of (length ls) (length is))"
  let ?ps = "map (\<lambda>i. line_text s (ls ! i)) is"
  have n: "length ls < 2 ^ 63" using split_lines_count [OF sp] l by (simp add: ls_def)
  have isl: "length is \<le> length ls" using length_shown [of "log_show s (lns_v lines)"]
    by (simp add: is_def ls_def log_show_def Let_def)
  obtain b b' k where b: "ds4_tc_buf_printf mok dynbuf_empty ?h = Inr b"
    and b': "append_capped (ds4_tc_buf_append mok) full b ?ps = Inr (b', k)"
    and t': "ds4_tc_buf_take mok b' = Some t"
    and om: "cd_omitted_lines (ds4_tc_compress_log mok s)
       = (if k < length is then omitted_of (length ls) (length is) + (of_nat (length is) - of_nat (is ! k))
          else omitted_of (length ls) (length is))"
    using t sp unfolding ds4_tc_compress_log_def
    by (auto simp: Let_def ls_def is_def bind_res_def split: if_splits sum.splits prod.splits)
  have hl: "length ?h < 2 ^ 64" using n isl by (intro log_header_length) simp_all
  have ib: "dynbuf_inv b" "dynbuf_text b = ?h"
    using tc_printf_ok [OF dynbuf_empty_inv hl b] by simp_all
  have pl: "\<forall>p \<in> set ?ps. length p < 2 ^ 64"
    using l le_less_trans [OF line_text_length] by fastforce
  note c = tc.append_capped_txt [OF ib(1) pl b']
  have tt: "t = dynbuf_text b'"
    using t' c by (auto simp: ds4_tc_buf_take_def dynbuf_text_def split: option.splits if_splits)
  have "full b' \<Longrightarrow> 12000 < length t"
    using c text_length [of b']
    by (simp add: full_def tt DS4_TOOL_COMPRESS_MAX_INLINE_BYTES_def word_less_nat_alt)
  then show ?thesis using c tt ib(2) om by (intro exI [of _ k]) (auto simp: take_map)
qed

section \<open>The head and tail of a file\<close>

lemma file_header_length:
  assumes "n < 2 ^ 64" "h \<le> 100"
  shows "length (file_header n h t omitted) < 500"
  using nat_dec_64 [OF assms(1)] nat_dec_64 [of h] nat_dec_64 [of "unat omitted"] assms unat_lt64 [of omitted]
  by (simp add: file_header_def)

lemma length_cstr: "length (cstr s) \<le> length s"
  by (simp add: cstr_def length_takeWhile_le)

text \<open>With an allocator that does not fail the compressor produces a text of at most the header and
  the lines of the head and the tail.\<close>

lemma compress_file_total:
  assumes sp: "ds4_tc_split_lines mok s = Some lines" and l: "length s < 2 ^ 60" and mok: "\<And>c. mok c"
    and w: "\<And>x. x \<in> set (lns_v lines) \<Longrightarrow> length (line_text s x) \<le> m" and m: "180 * m < 2 ^ 60"
  shows "\<exists>t. cd_text (ds4_tc_compress_file mok s strategy) = Some t \<and> length t \<le> 520 + 180 * m"
proof -
  let ?ls = "lns_v lines"
  let ?n = "length ?ls"
  let ?head = "if ?n < 100 then ?n else 100"
  let ?tail = "if ?head + 80 < ?n then 80 else 0 :: nat"
  let ?h = "file_header ?n ?head (?tail \<noteq> 0) (omitted_of ?n (?head + ?tail))"
  have n: "?n < 2 ^ 64" using split_lines_count [OF sp] l by simp
  have hl: "length ?h < 500" by (rule file_header_length [OF n]) simp
  have len: "length (concat (map (line_text s) ys)) \<le> length ys * m" if "set ys \<subseteq> set ?ls" for ys
    using that by (induction ys) (auto intro: add_mono w)
  have h100: "length (concat (map (line_text s) (take ?head ?ls))) \<le> 100 * m"
    by (rule order_trans [OF len]) (auto dest: in_set_takeD)
  have t80: "length (concat (map (line_text s) (drop (?n - 80) ?ls))) \<le> 80 * m"
    by (rule order_trans [OF len]) (auto dest: in_set_dropD)
  have sub: "length (concat (take k (map (line_text s) ys))) \<le> length (concat (map (line_text s) ys))" for k ys
    by (metis append_take_drop_id concat_append le_add1 length_append)
  have mm: "100 * m < 2 ^ 60" "80 * m < 2 ^ 60" using m by simp_all
  obtain b where b: "ds4_tc_buf_printf mok dynbuf_empty ?h = Inr b" "dynbuf_inv b" "dynbuf_text b = ?h"
    using tc_printf_total [of dynbuf_empty ?h mok] hl mok by auto
  obtain b1 k1 where b1: "append_capped (ds4_tc_buf_append mok) full b (map (line_text s) (take ?head ?ls)) = Inr (b1, k1)"
    using tc_capped_total [of b "map (line_text s) (take ?head ?ls)" mok full] b hl h100 mm mok by fastforce
  have pl: "\<forall>p \<in> set (map (line_text s) ys). length p < 2 ^ 64" for ys
    using l le_less_trans [OF line_text_length] by fastforce
  have c1: "dynbuf_inv b1" "length (dynbuf_text b1) \<le> 500 + 100 * m"
    using tc.append_capped_txt [OF b(2) pl b1] b(3) hl h100 sub [of k1 "take ?head ?ls"] by auto
  have cap: "DS4_TOOL_COMPRESS_MAX_INLINE_BYTES = 12000" by (simp add: DS4_TOOL_COMPRESS_MAX_INLINE_BYTES_def)
  show ?thesis
  proof (cases "?tail = 0")
    case True
    obtain t where t: "ds4_tc_buf_take mok b1 = Some t" "length t \<le> 500 + 100 * m"
      using c1 mok by (auto simp: ds4_tc_buf_take_def dynbuf_text_def split: option.splits)
    have "cd_text (ds4_tc_compress_file mok s strategy) = Some t"
      using b(1) b1 t(1) True unfolding ds4_tc_compress_file_def
      by (simp only: sp option.case Let_def bind_res_simps prod.case taken_def sum.case if_False if_True
          not_True_eq_False not_False_eq_True ds4_tc_candidate.simps ds4_tc_candidate.update_convs refl)
    then show ?thesis using t(2) by simp
  next
    case False
    have ct: "cstr (NL @ ''tail:'' @ NL) = NL @ ''tail:'' @ NL" by (simp add: cstr_def)
    obtain b2 where b2: "ds4_tc_buf_puts mok b1 (NL @ ''tail:'' @ NL) = Inr b2" "dynbuf_inv b2"
        "dynbuf_text b2 = dynbuf_text b1 @ NL @ ''tail:'' @ NL"
      using tc_append_total [of b1 "NL @ ''tail:'' @ NL" mok] c1 mm mok unfolding ds4_tc_buf_puts_def ct by auto
    have l2: "length (dynbuf_text b2) \<le> 507 + 100 * m" using b2(3) c1(2) by simp
    obtain b3 k3 where b3: "append_capped (ds4_tc_buf_append mok) full b2 (map (line_text s) (drop (?n - 80) ?ls)) = Inr (b3, k3)"
      using tc_capped_total [of b2 "map (line_text s) (drop (?n - 80) ?ls)" mok full] b2(2) l2 t80 m mok by fastforce
    have c3: "dynbuf_inv b3" "length (dynbuf_text b3) \<le> 520 + 180 * m"
      using tc.append_capped_txt [OF b2(2) pl b3] l2 t80 sub [of k3 "drop (?n - 80) ?ls"] by auto
    obtain t where t: "ds4_tc_buf_take mok b3 = Some t" "length t \<le> 520 + 180 * m"
      using c3 mok by (auto simp: ds4_tc_buf_take_def dynbuf_text_def split: option.splits)
    have tl: "?tail = 80" using False by presburger
    have "cd_text (ds4_tc_compress_file mok s strategy) = Some t"
      using b(1) b1 b2(1) b3 t(1) False tl unfolding ds4_tc_compress_file_def
      by (simp only: sp option.case Let_def bind_res_simps prod.case taken_def sum.case if_False if_True
          not_True_eq_False not_False_eq_True ds4_tc_candidate.simps ds4_tc_candidate.update_convs refl)
    then show ?thesis using t(2) by blast
  qed
qed

section \<open>The marker\<close>

lemma build_marker_text:
  assumes "ds4_tc_build_marker mok r cb body = Some m" "length (marker_head r cb) < 2 ^ 64" "length body < 2 ^ 64"
  shows "m = marker_head r cb @ cstr body"
proof -
  obtain b b' where b: "ds4_tc_buf_printf mok dynbuf_empty (marker_head r cb) = Inr b"
    and b': "ds4_tc_buf_append mok b (cstr body) = Inr b'" and m: "ds4_tc_buf_take mok b' = Some m"
    using assms(1) by (auto simp: ds4_tc_build_marker_def taken_def ds4_tc_buf_puts_def bind_res_def split: sum.splits)
  have "length (cstr body) < 2 ^ 64"
    using assms(3) length_takeWhile_le [of "\<lambda>c. c \<noteq> NUL" body] by (simp add: cstr_def)
  then have "dynbuf_text b' = marker_head r cb @ cstr body"
    using tc_printf_ok [OF dynbuf_empty_inv assms(2) b] tc_append_ok [OF _ _ b'] by simp
  then show ?thesis using m by (auto simp: ds4_tc_buf_take_def dynbuf_text_def split: option.splits if_splits)
qed

text \<open>Whether or not the stated size settles within the four rounds, the size returned is the size
  of the text returned.\<close>

lemma marker_loop_size:
  assumes "marker_loop mok r body n cb final = Inr (cb', m)" "0 < n \<or> cb = of_nat (length (cstr final))"
  shows "cb' = of_nat (length (cstr m))"
  using assms
  by (induction mok r body n cb final rule: marker_loop.induct) (auto simp: Let_def split: option.splits if_splits)

lemma take_length:
  assumes "ds4_tc_buf_take mok b = Some c"
  shows "length c < 2 ^ 64"
proof -
  have "length (dynbuf_text b) \<le> unat (db_len b)" by (simp add: dynbuf_text_def split: option.splits)
  then show ?thesis using assms unat_lt64 [of "db_len b"] by (auto simp: ds4_tc_buf_take_def split: option.splits if_splits)
qed

lemma taken_length:
  assumes "taken mok x = Some c"
  shows "length c < 2 ^ 64"
proof -
  obtain b where "ds4_tc_buf_take mok b = Some c" using assms by (auto simp: taken_def split: sum.splits)
  then show ?thesis by (rule take_length)
qed

lemma nat_dec_no_NUL: "NUL \<notin> set (nat_dec n)"
proof (induction n rule: nat_dec.induct)
  case (1 n)
  have "NUL \<noteq> char_of (48 + m)" if "m < 10" for m :: nat
  proof
    assume e: "NUL = char_of (48 + m)"
    have "of_char (char_of (48 + m) :: char) = 48 + m" using that by (simp add: of_char_of)
    then show False unfolding e [symmetric] by simp
  qed
  then show ?case using 1 by (subst nat_dec.simps) auto
qed

lemma candidate_text:
  assumes "compress_candidate mok kind s = (kind', cand)" "cd_text cand = Some c"
  shows "length c < 2 ^ 64 \<and> NUL \<notin> set (cd_strategy cand)"
proof -
  have "length c < 2 ^ 64" if "cd_text (ds4_tc_compress_search mok s) = Some c"
    using that by (auto simp: ds4_tc_compress_search_def Let_def dest: taken_length split: option.splits if_splits prod.splits)
  moreover have "length c < 2 ^ 64" if "cd_text (ds4_tc_compress_diff mok s) = Some c"
    using that by (auto simp: ds4_tc_compress_diff_def Let_def dest: taken_length split: option.splits)
  moreover have "length c < 2 ^ 64" if "cd_text (ds4_tc_compress_json_array mok s) = Some c"
    using that taken_length unfolding ds4_tc_compress_json_array_def Let_def by (simp only: ds4_tc_candidate.simps)
  moreover have "length c < 2 ^ 64" if "cd_text (ds4_tc_compress_file mok s st) = Some c" for st
    using that taken_length unfolding ds4_tc_compress_file_def Let_def
    by (cases "ds4_tc_split_lines mok s") (simp_all only: option.case ds4_tc_candidate.simps ds4_tc_candidate.update_convs option.distinct)
  moreover have "length c < 2 ^ 64" if "cd_text (ds4_tc_compress_log mok s) = Some c"
    using that by (auto simp: ds4_tc_compress_log_def Let_def split: option.splits if_splits sum.splits) (drule take_length, simp)+
  moreover have "NUL \<notin> set (cd_strategy (ds4_tc_compress_search mok s))" "NUL \<notin> set (cd_strategy (ds4_tc_compress_diff mok s))"
    "NUL \<notin> set (cd_strategy (ds4_tc_compress_json_array mok s))" "NUL \<notin> set (cd_strategy (ds4_tc_compress_log mok s))"
    by (auto simp: ds4_tc_compress_search_def ds4_tc_compress_diff_def ds4_tc_compress_json_array_def
        ds4_tc_compress_log_def Let_def split: option.splits sum.splits prod.splits)
  moreover have "cd_strategy (ds4_tc_compress_file mok s st) = st" for st
    by (auto simp: ds4_tc_compress_file_def Let_def split: option.splits sum.splits prod.splits)
  ultimately show ?thesis using assms
    by (auto simp: compress_candidate_def split: ds4_tool_content_kind.splits if_splits)
qed

lemma marker_head_length:
  "length (tr_strategy r) \<le> 63 \<Longrightarrow> length (tr_blob_id r) \<le> 79 \<Longrightarrow> length (marker_head r cb) \<le> 800"
  using nat_dec_64 [of "unat (tr_original_bytes r)"] nat_dec_64 [of "unat cb"] unat_lt64 [of cb]
    unat_lt64 [of "tr_original_bytes r"]
  by (cases "tr_kind r") (simp_all add: marker_head_def ds4_tool_content_kind_name_def)

text \<open>The size stated in the head changes the size of the head only by its digits.\<close>

definition digits :: "nat \<Rightarrow> nat" where
  "digits n = length (nat_dec n)"

lemma digits_pos: "0 < digits n"
  by (simp add: digits_def nat_dec.simps [of n])

lemma digits_bounds: "n < 10 ^ digits n \<and> (0 < n \<longrightarrow> 10 ^ (digits n - 1) \<le> n)"
proof (induction n rule: nat_dec.induct)
  case (1 n)
  show ?case
  proof (cases "n < 10")
    case True
    then show ?thesis by (simp add: digits_def nat_dec.simps [of n])
  next
    case False
    then have d: "digits n = Suc (digits (n div 10))" by (simp add: digits_def nat_dec.simps [of n])
    obtain k where k: "digits (n div 10) = Suc k" using digits_pos [of "n div 10"] by (cases "digits (n div 10)") auto
    have "n div 10 < 10 ^ Suc k" "10 ^ k \<le> n div 10" using 1 [OF False] False by (auto simp: k)
    then have "n < 10 ^ Suc (Suc k)" "10 ^ Suc k \<le> n" by simp_all
    then show ?thesis by (simp add: d k)
  qed
qed

lemma digits_le:
  assumes "n < 10 ^ k" "0 < k"
  shows "digits n \<le> k"
  unfolding digits_def by (rule length_nat_dec [OF assms])

lemma digits_mono: "m \<le> n \<Longrightarrow> digits m \<le> digits n"
  using digits_le [of m "digits n"] digits_bounds [of n] digits_pos by (simp add: le_less_trans)

lemma digits_less: "digits m < digits n \<Longrightarrow> m < 10 ^ digits m \<and> 10 ^ digits m \<le> n"
  using digits_bounds [of m] digits_le [of n "digits m"] digits_pos [of m] by (meson leD leI)

text \<open>A size that is restated settles within four rounds: a second change would need a power of ten
  and ten times that power within twenty of each other.\<close>

lemma sizes_settle:
  fixes x0 x1 x2 x3 :: nat
  assumes "x1 = k + digits x0" "x2 = k + digits x1" "x3 = k + digits x2" "x0 \<le> k" "x2 < 2 ^ 64"
  shows "digits x3 = digits x2"
proof (rule ccontr)
  assume ne: "digits x3 \<noteq> digits x2"
  have a: "digits x0 \<le> digits x1" using assms by (intro digits_mono) simp
  then have b: "digits x1 \<le> digits x2" using assms by (intro digits_mono) simp
  then have "digits x2 \<le> digits x3" using assms by (intro digits_mono) simp
  then have dc: "digits x2 < digits x3" using ne by simp
  have cb: "digits x1 < digits x2"
  proof (rule ccontr)
    assume "\<not> digits x1 < digits x2"
    then have "x3 = x2" using assms b by simp
    then show False using ne by simp
  qed
  have x1: "x1 < 10 ^ digits x1" using digits_bounds [of x1] by simp
  have x3: "10 ^ digits x2 \<le> x3" using digits_less [OF dc] by simp
  have "(10 :: nat) ^ Suc (digits x1) \<le> 10 ^ digits x2" using cb by (intro power_increasing) simp_all
  then have big: "10 * 10 ^ digits x1 \<le> x3" using x3 by simp
  have "digits x2 \<le> 20" unfolding digits_def by (rule nat_dec_64 [OF assms(5)])
  then have near: "x3 \<le> x1 + 20" using assms by simp
  have "(10 :: nat) ^ 1 \<le> 10 ^ digits x1" using digits_pos [of x1] by (intro power_increasing) simp_all
  then show False using big near x1 by simp
qed

lemma length_marker_head: "\<exists>k. \<forall>cb. length (marker_head r cb) = k + digits (unat cb)"
  by (rule exI [of _ "length (marker_head r 0) - digits 0"]) (simp add: marker_head_def digits_def)

lemma build_marker_size:
  assumes "ds4_tc_build_marker mok r cb body = Some m" "length (marker_head r cb) < 2 ^ 64" "length body < 2 ^ 64"
  shows "m = marker_head r cb @ cstr body" "length m < 2 ^ 64"
proof -
  show "m = marker_head r cb @ cstr body" by (rule build_marker_text [OF assms])
  show "length m < 2 ^ 64" using assms(1) taken_length by (auto simp: ds4_tc_build_marker_def)
qed

text \<open>The loop ends with the marked text, and the size it states is its own.\<close>

lemma marker_loop_exact:
  assumes ml: "marker_loop mok r body 4 (of_nat (length (cstr body))) [] = Inr (cb, m)"
    and b: "length body < 2 ^ 64"
    and r: "length (tr_strategy r) \<le> 63" "length (tr_blob_id r) \<le> 79" "NUL \<notin> set (tr_strategy r)" "NUL \<notin> set (tr_blob_id r)"
  shows "m = marker_head r cb @ cstr body \<and> unat cb = length m"
proof -
  obtain k where k: "\<And>c. length (marker_head r c) = k + digits (unat c)" using length_marker_head by blast
  have hd64: "length (marker_head r c) < 2 ^ 64" for c using marker_head_length [OF r(1,2), of c] by simp
  have nul: "NUL \<notin> set (marker_head r c @ cstr body)" for c
    using r(3,4) nat_dec_no_NUL by (cases "tr_kind r") (auto simp: marker_head_def ds4_tool_content_kind_name_def cstr_def dest: set_takeWhileD)
  let ?L = "length (cstr body)"
  define f where "f c = (of_nat (k + digits (unat c) + ?L) :: u64)" for c :: u64
  have step: "m' = marker_head r c @ cstr body \<and> (of_nat (length (cstr m')) :: u64) = f c
      \<and> length m' = unat (f c)" "unat (f c) = k + digits (unat c) + ?L"
    if "ds4_tc_build_marker mok r c body = Some m'" for c m'
  proof -
    note e = build_marker_size [OF that hd64 b]
    have "cstr m' = m'" using e(1) nul by (simp add: cstr_id)
    moreover have l: "length m' = k + digits (unat c) + ?L" using e(1) k by simp
    moreover have "unat (f c) = length m'" unfolding f_def l [symmetric] using e(2) by (intro unat_of_nat64)
    ultimately show "m' = marker_head r c @ cstr body \<and> (of_nat (length (cstr m')) :: u64) = f c \<and> length m' = unat (f c)"
      "unat (f c) = k + digits (unat c) + ?L"
      using e(1) by (simp_all add: f_def)
  qed
  have u0: "unat (of_nat ?L :: u64) = ?L" using b length_cstr [of body] by (intro unat_of_nat64) simp
  define c0 where "c0 = (of_nat ?L :: u64)"
  have four: "(4 :: nat) = Suc (Suc (Suc (Suc 0)))" by simp
  have settle: "f (f (f (f c0))) = f (f (f c0))"
    if "ds4_tc_build_marker mok r c0 body = Some m1" "ds4_tc_build_marker mok r (f c0) body = Some m2"
      "ds4_tc_build_marker mok r (f (f c0)) body = Some m3" for m1 m2 m3
  proof -
    have "digits (unat (f (f (f c0)))) = digits (unat (f (f c0)))"
      by (rule sizes_settle [of _ "k + ?L" "unat c0" _])
        (use step(2) [OF that(1)] step(2) [OF that(2)] step(2) [OF that(3)] u0 unat_lt64 [of "f (f c0)"] in \<open>simp_all add: c0_def\<close>)
    then show ?thesis by (simp add: f_def)
  qed
  show ?thesis
    using ml unfolding four c0_def [symmetric]
    by (auto simp: Let_def step(1) settle split: option.splits if_splits)
qed

section \<open>The result\<close>

lemma hash_no_NUL: "NUL \<notin> set (''sha256:'' @ ds4_sha256_hex p)"
proof -
  have "set (ds4_sha256_hex p) \<subseteq> set hex_digits" unfolding ds4_sha256_hex_def by (rule hex_bytes_chars)
  moreover have "NUL \<notin> set hex_digits" by (simp add: hex_digits_def)
  ultimately show ?thesis by auto
qed

lemma result_changed:
  assumes "ds4_tool_compress_result_text mok w f tool s base = (Inr r, f')" "tr_changed r"
  obtains kind cand c ref out2 cb final where
    "compress_candidate mok (ds4_tool_classify_output mok tool s) s = (kind, cand)" "cd_text cand = Some c"
    "ds4_context_blob_put_text w f base (Some s) (length s) = (Inr ref, f')"
    "tr_strategy out2 = take 63 (cd_strategy cand)" "tr_blob_id out2 = take 79 (br_id ref)"
    "tr_original_saved out2" "tr_original_bytes out2 = of_nat (length s)"
    "marker_loop mok out2 c 4 (of_nat (length (cstr c))) [] = Inr (cb, final)"
    "cb * 5 < of_nat (length s) * 4"
    "r = out2\<lparr>tr_changed := True, tr_compressed_bytes := cb, tr_text := Some final\<rparr>"
proof -
  have z: "\<not> tr_changed result_zero" by (simp add: result_zero_def)
  have upd: "x\<lparr>tr_kind := a, tr_kind := b\<rparr> = x\<lparr>tr_kind := b\<rparr>" for x :: ds4_tool_compress_result and a b by simp
  obtain kind cand where k: "compress_candidate mok (ds4_tool_classify_output mok tool s) s = (kind, cand)"
    by (cases "compress_candidate mok (ds4_tool_classify_output mok tool s) s")
  obtain c where c: "cd_text cand = Some c"
    using assms k by (cases "cd_text cand") (auto simp: ds4_tool_compress_result_text_def Let_def result_zero_def split: if_splits)
  let ?put = "ds4_context_blob_put_text w f base (Some s) (length s)"
  obtain ref f1 where p: "?put = (Inr ref, f1)"
    using assms k c by (cases ?put; cases "fst ?put")
      (auto simp: ds4_tool_compress_result_text_def Let_def result_zero_def split: if_splits)
  define out2 where "out2 = result_zero\<lparr>tr_original_bytes := of_nat (length s), tr_kind := kind,
    tr_strategy := take 63 (cd_strategy cand), tr_blob_id := take 79 (br_id ref),
    tr_original_saved := True, tr_omitted_lines := cd_omitted_lines cand\<rparr>"
  let ?loop = "marker_loop mok out2 c 4 (of_nat (length (cstr c))) []"
  have r: "(case ?loop of Inl e \<Rightarrow> (Inl e, f1) | Inr (cb, final) \<Rightarrow>
       if of_nat (length s) * 4 \<le> cb * 5
       then (Inr (result_zero\<lparr>tr_original_bytes := of_nat (length s), tr_kind := ds4_tool_classify_output mok tool s\<rparr>), f1)
       else (Inr (out2\<lparr>tr_changed := True, tr_compressed_bytes := cb, tr_text := Some final\<rparr>), f1)) = (Inr r, f')"
    using assms k c p z unfolding ds4_tool_compress_result_text_def Let_def out2_def upd
    by (auto split: if_splits)
  obtain cb final where l: "?loop = Inr (cb, final)" using r by (cases ?loop) auto
  have "\<not> tr_changed (result_zero\<lparr>tr_original_bytes := of_nat (length s), tr_kind := ds4_tool_classify_output mok tool s\<rparr>)"
    by (simp add: result_zero_def)
  with r assms(2) have r2: "\<not> of_nat (length s) * 4 \<le> cb * 5" "f1 = f'"
    "r = out2\<lparr>tr_changed := True, tr_compressed_bytes := cb, tr_text := Some final\<rparr>"
    by (auto simp: l split: if_splits)
  show thesis
    by (rule that [OF k c p [unfolded r2(2)] _ _ _ _ l _ r2(3)]) (use r2(1) in \<open>simp_all add: out2_def not_le\<close>)
qed

section \<open>Properties\<close>

text \<open>C4: compression never loses the original: when a tool output has been replaced, the replacement is
  the marker and then the compressor's text; the marker prints, in this order, the strategy, the kind,
  the size of the original, the size of the replacement itself, the blob id and the call that retrieves
  the blob, and the exact original can be read back from the blob store under the id printed there.
  When the replacement has less than 2 ^ 61 bytes it is shorter than four fifths of the original (the
  test multiplies in 64 bits).\<close>

theorem compressed_output_recoverable:
  assumes r: "ds4_tool_compress_result_text mok w f tool s (Some base) = (Inr r, f')" "tr_changed r"
    and stored: "f (base @ ''/sha256/'' @ ds4_sha256_hex (bytes_of s) @ ''.txt'') \<in> {None, Some (bytes_of s)}"
    and io: "\<And>p. bo_open_ok w' p" "\<And>p. bo_seek_ok w' p" "bo_read_fails_at w' = None" "\<And>n. bo_malloc_ok w' n"
    and l: "length s < 2 ^ 61"
  shows "\<exists>id final c.
     ds4_context_blob_read_range w' f' (Some base) (Some id) 0 (of_nat (length s)) = Inr (bytes_of s)
     \<and> cd_text (snd (compress_candidate mok (ds4_tool_classify_output mok tool s) s)) = Some c
     \<and> tr_text r = Some final
     \<and> final = ''[ds4 compressed tool output]'' @ NL
         @ ''strategy: '' @ tr_strategy r @ NL
         @ ''kind: '' @ ds4_tool_content_kind_name (tr_kind r) @ NL
         @ ''original_bytes: '' @ nat_dec (length s) @ NL
         @ ''compressed_bytes: '' @ nat_dec (length final) @ NL
         @ ''blob_id: '' @ id @ NL
         @ ''retrieve: retrieve_context_blob id='' @ id @ '' offset=0 length=20000'' @ NL
         @ ''note: lossy live-zone compression; use retrieve_context_blob for exact original bytes.'' @ NL @ NL
         @ cstr c
     \<and> tr_original_saved r \<and> tr_blob_id r = id
     \<and> unat (tr_original_bytes r) = length s \<and> unat (tr_compressed_bytes r) = length final
     \<and> (length final < 2 ^ 61 \<longrightarrow> 5 * length final < 4 * length s)"
proof -
  obtain kind cand c ref out2 cb final where cand: "compress_candidate mok (ds4_tool_classify_output mok tool s) s = (kind, cand)"
      "cd_text cand = Some c"
    and put: "ds4_context_blob_put_text w f (Some base) (Some s) (length s) = (Inr ref, f')"
    and o2: "tr_strategy out2 = take 63 (cd_strategy cand)" "tr_blob_id out2 = take 79 (br_id ref)"
    and so: "tr_original_saved out2" "tr_original_bytes out2 = of_nat (length s)"
    and ml: "marker_loop mok out2 c 4 (of_nat (length (cstr c))) [] = Inr (cb, final)"
    and lt: "cb * 5 < of_nat (length s) * 4"
    and rr: "r = out2\<lparr>tr_changed := True, tr_compressed_bytes := cb, tr_text := Some final\<rparr>"
    by (rule result_changed [OF r])
  have sv: "tr_original_saved r" "tr_text r = Some final" and ob: "tr_original_bytes r = of_nat (length s)"
    and cbr: "tr_compressed_bytes r = cb" and idr2: "tr_blob_id r = take 79 (br_id ref)"
    and hd: "marker_head out2 cb = marker_head r cb" using so o2 by (simp_all add: rr marker_head_def)
  note p = put_text_Inr [OF put, simplified]
  have idr: "tr_blob_id r = br_id ref" using idr2 p by simp
  have us: "unat (of_nat (length s) :: u64) = length s" using l by (intro unat_of_nat64) simp
  have ne: "of_nat (length s) < UINT64_MAX" using us l by (simp add: word_less_nat_alt)
  have "ds4_context_blob_read_range w' f' (Some base) (Some (br_id ref)) 0 (of_nat (length s))
      = Inr (take (unat (of_nat (length s) :: u64)) (drop (unat (0 :: u64)) (bytes_of (take (length s) s))))"
    by (rule put_then_read [OF put]) (use stored io l ne p in auto)
  then have read: "ds4_context_blob_read_range w' f' (Some base) (Some (tr_blob_id r)) 0 (of_nat (length s)) = Inr (bytes_of s)"
    using us by (simp add: idr take_bytes_of)
  note ct = candidate_text [OF cand]
  have nn: "NUL \<notin> set (tr_strategy out2)" "NUL \<notin> set (tr_blob_id out2)"
    using ct p hash_no_NUL by (auto simp: o2 dest: in_set_takeD)
  have fin: "final = marker_head r (tr_compressed_bytes r) @ cstr c" "unat (tr_compressed_bytes r) = length final"
    using marker_loop_exact [OF ml _ _ _ nn] ct o2 hd cbr by simp_all
  have "5 * length final < 4 * length s" if "length final < 2 ^ 61"
  proof -
    have "unat (tr_compressed_bytes r * 5) = unat (tr_compressed_bytes r) * 5"
      using that fin(2) by (subst unat_mult64) simp_all
    moreover have "unat (of_nat (length s) * 4 :: u64) = length s * 4"
      using us l by (subst unat_mult64) simp_all
    ultimately show ?thesis using lt fin(2) cbr by (simp add: word_less_nat_alt mult.commute)
  qed
  then have rat: "length final < 2 ^ 61 \<longrightarrow> 5 * length final < 4 * length s" by blast
  have mh: "marker_head r (tr_compressed_bytes r) = ''[ds4 compressed tool output]'' @ NL
         @ ''strategy: '' @ tr_strategy r @ NL
         @ ''kind: '' @ ds4_tool_content_kind_name (tr_kind r) @ NL
         @ ''original_bytes: '' @ nat_dec (length s) @ NL
         @ ''compressed_bytes: '' @ nat_dec (length final) @ NL
         @ ''blob_id: '' @ tr_blob_id r @ NL
         @ ''retrieve: retrieve_context_blob id='' @ tr_blob_id r @ '' offset=0 length=20000'' @ NL
         @ ''note: lossy live-zone compression; use retrieve_context_blob for exact original bytes.'' @ NL @ NL"
    by (simp only: marker_head_def ob us fin(2))
  have cc: "cd_text (snd (compress_candidate mok (ds4_tool_classify_output mok tool s) s)) = Some c"
    using cand by simp
  have ub: "unat (tr_original_bytes r) = length s" using ob us by simp
  note fh = fin(1) [unfolded mh append_assoc]
  show ?thesis
    by (intro exI conjI) (rule read cc sv(2) fh sv(1) refl ub fin(2) rat)+
qed

subsection \<open>An output of five thousand empty lines\<close>

lemma split_newlines:
  "pos \<le> n \<Longrightarrow> \<exists>out. ds4_tc_split_from (\<lambda>_. True) (replicate n (CHR 0x0A)) pos lines = Some out
     \<and> lns_v out = lns_v lines @ map (\<lambda>i. \<lparr>ln_start = i, ln_content_end = i, ln_end = Suc i\<rparr>) [pos..<n]"
proof (induction "n - pos" arbitrary: pos lines)
  case 0
  then show ?case by (simp add: ds4_tc_split_from.simps)
next
  case (Suc m)
  then have lt: "pos < n" by simp
  have e: "line_content_end (replicate n (CHR 0x0A)) pos = pos" "line_next (replicate n (CHR 0x0A)) pos = Suc pos"
    using lt by (simp_all add: line_content_end_def line_next_def Let_def takeWhile_replicate)
  let ?l = "\<lparr>ln_start = pos, ln_content_end = pos, ln_end = Suc pos\<rparr>"
  have "\<exists>lines'. ds4_tc_lines_push (\<lambda>_. True) lines ?l = Some lines'"
    by (simp add: ds4_tc_lines_push_def Let_def)
  then obtain lines' where p: "ds4_tc_lines_push (\<lambda>_. True) lines ?l = Some lines'" by blast
  have up: "[pos..<n] = pos # [Suc pos..<n]" using lt by (simp add: upt_conv_Cons)
  from Suc(1) [of "Suc pos" lines'] Suc(2,3) lt show ?case
    by (subst ds4_tc_split_from.simps) (simp add: e p lines_push_v [OF p] up)
qed

lemma build_marker_total:
  assumes "length (tr_strategy r) \<le> 63" "length (tr_blob_id r) \<le> 79" "length body \<le> 700"
  shows "\<exists>m. ds4_tc_build_marker (\<lambda>_. True) r cb body = Some m \<and> length m \<le> 1500"
proof -
  note h = marker_head_length [OF assms(1,2), of cb]
  obtain b where b: "ds4_tc_buf_printf (\<lambda>_. True) dynbuf_empty (marker_head r cb) = Inr b" "dynbuf_inv b"
      "dynbuf_text b = marker_head r cb"
    using tc_printf_total [of dynbuf_empty "marker_head r cb" "\<lambda>_. True"] h by auto
  have "length (cstr body) \<le> 700" using length_cstr [of body] assms(3) by simp
  then obtain b' where b': "ds4_tc_buf_append (\<lambda>_. True) b (cstr body) = Inr b'"
    using tc_append_total [of b "cstr body" "\<lambda>_. True"] b h by auto
  have "\<exists>m. ds4_tc_buf_take (\<lambda>_. True) b' = Some m" by (cases "db_ptr b'") (simp_all add: ds4_tc_buf_take_def)
  then obtain m where m: "ds4_tc_build_marker (\<lambda>_. True) r cb body = Some m"
    using b b' by (auto simp: ds4_tc_build_marker_def ds4_tc_buf_puts_def taken_def)
  have "m = marker_head r cb @ cstr body"
    by (rule build_marker_text [OF m]) (use h assms(3) in simp_all)
  then show ?thesis using m h length_cstr [of body] assms(3) by auto
qed

lemma marker_loop_total:
  assumes "length (tr_strategy r) \<le> 63" "length (tr_blob_id r) \<le> 79" "length body \<le> 700" "length final \<le> 1500"
  shows "\<exists>cb' m. marker_loop (\<lambda>_. True) r body n cb final = Inr (cb', m) \<and> length m \<le> 1500"
  using assms(4)
proof (induction n arbitrary: cb final)
  case (Suc n)
  obtain m where m: "ds4_tc_build_marker (\<lambda>_. True) r cb body = Some m" "length m \<le> 1500"
    using build_marker_total [OF assms(1-3)] by blast
  with Suc.IH [OF m(2)] show ?case by (auto simp: Let_def)
qed simp

definition empty_lines :: string where
  "empty_lines = replicate 5000 (CHR 0x0A)"

lemma put_empty_lines:
  "\<exists>ref f'. ds4_context_blob_put_text (good_blob_io\<lparr>bo_writes := []\<rparr>) Map.empty (Some ''b'') (Some empty_lines)
     (length empty_lines) = (Inr ref, f')"
proof -
  have w: "ds4_blob_write_all [] [] p = (True, p)" for p by (cases p) simp_all
  show ?thesis
    by (simp add: ds4_context_blob_put_text_def ds4_blob_mkdir_p_def ds4_blob_join_path_def good_blob_io_def Let_def w)
qed

lemma compress_empty_lines:
  "\<exists>r f'. ds4_tool_compress_result_text (\<lambda>_. True) (good_blob_io\<lparr>bo_writes := []\<rparr>) Map.empty (Some ''crawl'')
     empty_lines (Some ''b'') = (Inr r, f') \<and> tr_changed r"
proof -
  let ?w = "good_blob_io\<lparr>bo_writes := []\<rparr>"
  obtain lines where sp: "ds4_tc_split_lines (\<lambda>_. True) empty_lines = Some lines"
    and v: "lns_v lines = map (\<lambda>i. \<lparr>ln_start = i, ln_content_end = i, ln_end = Suc i\<rparr>) [0..<5000]"
    using split_newlines [of 0 5000 lines_empty] by (auto simp: ds4_tc_split_lines_def empty_lines_def lines_empty_def)
  have "length (line_text empty_lines x) \<le> 1" if "x \<in> set (lns_v lines)" for x
    using that by (auto simp: v line_text_def)
  then obtain t where t: "cd_text (ds4_tc_compress_file (\<lambda>_. True) empty_lines ''file_head_tail_compressor'') = Some t"
      "length t \<le> 700"
    using compress_file_total [OF sp, where m = 1 and strategy = "''file_head_tail_compressor''"]
    by (auto simp: empty_lines_def)
  have st: "cd_strategy (ds4_tc_compress_file (\<lambda>_. True) empty_lines ''file_head_tail_compressor'')
      = ''file_head_tail_compressor''"
    by (simp add: ds4_tc_compress_file_def Let_def split: option.splits)
  have k: "ds4_tool_classify_output (\<lambda>_. True) (Some ''crawl'') empty_lines = DS4_TOOL_CONTENT_FILE"
    by (simp add: ds4_tool_classify_output_def Let_def split: prod.splits)
  have l: "length empty_lines = 5000" by (simp add: empty_lines_def)
  obtain ref f' where put: "ds4_context_blob_put_text ?w Map.empty (Some ''b'') (Some empty_lines) 5000 = (Inr ref, f')"
    using put_empty_lines l by auto
  have small: "unat (of_nat n :: u64) = n" if "n \<le> 1500" for n using that by (intro unat_of_nat64) simp
  have ratio: "\<not> of_nat 5000 * 4 \<le> (of_nat (length (cstr x)) :: u64) * 5" if "length x \<le> 1500" for x
  proof -
    have "length (cstr x) \<le> 1500" using that length_cstr [of x] by simp
    then have "unat ((of_nat (length (cstr x)) :: u64) * 5) = length (cstr x) * 5"
      by (subst unat_mult64) (simp_all add: small)
    then show ?thesis using \<open>length (cstr x) \<le> 1500\<close> by (simp add: word_le_nat_alt)
  qed
  let ?r = "result_zero\<lparr>tr_original_bytes := of_nat 5000, tr_kind := DS4_TOOL_CONTENT_FILE,
      tr_strategy := take 63 ''file_head_tail_compressor'', tr_blob_id := take 79 (br_id ref),
      tr_original_saved := True, tr_omitted_lines := cd_omitted_lines (ds4_tc_compress_file (\<lambda>_. True) empty_lines ''file_head_tail_compressor'')\<rparr>"
  obtain cb m where m: "marker_loop (\<lambda>_. True) ?r t 4 (of_nat (length (cstr t))) [] = Inr (cb, m)" "length m \<le> 1500"
    using marker_loop_total [of ?r t "[]" 4 "of_nat (length (cstr t))"] t(2) by auto
  have cb: "cb = of_nat (length (cstr m))" using marker_loop_size [OF m(1)] by simp
  show ?thesis
    using m(1) ratio [OF m(2)] ratio [of t] t st put l
    by (simp add: ds4_tool_compress_result_text_def k compress_candidate_def Let_def cb
        DS4_TOOL_COMPRESS_MIN_BYTES_def DS4_TOOL_COMPRESS_HUGE_BYTES_def)
qed

lemma compressed_output_recoverable_witness:
  "\<exists>r f' id final before after. ds4_tool_compress_result_text (\<lambda>_. True) (good_blob_io\<lparr>bo_writes := []\<rparr>) Map.empty
       (Some ''crawl'') empty_lines (Some ''b'') = (Inr r, f')
     \<and> tr_text r = Some final \<and> final = before @ ''blob_id: '' @ id @ NL @ after
     \<and> ds4_context_blob_read_range good_blob_io f' (Some ''b'') (Some id) 0 (of_nat 5000) = Inr (bytes_of empty_lines)"
proof -
  obtain r f' where r: "ds4_tool_compress_result_text (\<lambda>_. True) (good_blob_io\<lparr>bo_writes := []\<rparr>) Map.empty (Some ''crawl'')
       empty_lines (Some ''b'') = (Inr r, f')" "tr_changed r"
    using compress_empty_lines by blast
  have l: "length empty_lines = 5000" by (simp add: empty_lines_def)
  have p: "Map.empty p \<in> {None, Some (bytes_of empty_lines)}" "length empty_lines < 2 ^ 61" for p :: string
    by (simp_all add: l)
  have io: "bo_open_ok good_blob_io p" "bo_seek_ok good_blob_io p" "bo_read_fails_at good_blob_io = None"
    "bo_malloc_ok good_blob_io n" for p n by (simp_all add: good_blob_io_def)
  obtain id final c where t: "ds4_context_blob_read_range good_blob_io f' (Some ''b'') (Some id) 0 (of_nat (length empty_lines))
        = Inr (bytes_of empty_lines)" "tr_text r = Some final"
      "final = ''[ds4 compressed tool output]'' @ NL
         @ ''strategy: '' @ tr_strategy r @ NL
         @ ''kind: '' @ ds4_tool_content_kind_name (tr_kind r) @ NL
         @ ''original_bytes: '' @ nat_dec (length empty_lines) @ NL
         @ ''compressed_bytes: '' @ nat_dec (length final) @ NL
         @ ''blob_id: '' @ id @ NL
         @ ''retrieve: retrieve_context_blob id='' @ id @ '' offset=0 length=20000'' @ NL
         @ ''note: lossy live-zone compression; use retrieve_context_blob for exact original bytes.'' @ NL @ NL
         @ cstr c"
    using compressed_output_recoverable [OF r p(1) io p(2)] by blast
  have split: "final = (''[ds4 compressed tool output]'' @ NL
         @ ''strategy: '' @ tr_strategy r @ NL
         @ ''kind: '' @ ds4_tool_content_kind_name (tr_kind r) @ NL
         @ ''original_bytes: '' @ nat_dec (length empty_lines) @ NL
         @ ''compressed_bytes: '' @ nat_dec (length final) @ NL)
         @ ''blob_id: '' @ id @ NL
         @ ''retrieve: retrieve_context_blob id='' @ id @ '' offset=0 length=20000'' @ NL
         @ ''note: lossy live-zone compression; use retrieve_context_blob for exact original bytes.'' @ NL @ NL
         @ cstr c"
    using t(3) by (simp only: append_assoc)
  show ?thesis
    by (intro exI conjI, rule r(1), rule t(2), rule split, use t(1) l in simp)
qed

text \<open>a log summary is honest about its lines: it is a header followed by whole lines of the log
  in their order, cut only when the text has passed 12000 bytes; the lines chosen are the first 40,
  the last 80 and only important ones besides, and every important line is chosen when at most 200
  lie outside the head and the tail.\<close>

theorem log_summary_lines:
  assumes sp: "ds4_tc_split_lines mok s = Some lines" and l: "length s < 2 ^ 63"
    and t: "cd_text (ds4_tc_compress_log mok s) = Some t"
    and n: "n = length (lns_v lines)"
  shows "\<exists>is k. sorted is \<and> distinct is \<and> k \<le> length is
     \<and> t = log_header n (length is) (omitted_of n (length is))
            @ concat (map (\<lambda>i. line_text s (lns_v lines ! i)) (take k is))
     \<and> (k = length is \<or> 12000 < length t)
     \<and> (\<forall>i < n. i < 40 \<or> n \<le> i + 80 \<longrightarrow> i \<in> set is)
     \<and> (\<forall>i \<in> set is. i < n \<and> (i < 40 \<or> n \<le> i + 80 \<or> ds4_tc_line_important s (lns_v lines ! i)))
     \<and> (length (filter (\<lambda>i. ds4_tc_line_important s (lns_v lines ! i) \<and> 40 \<le> i \<and> i + 80 < n) [0..<n]) \<le> 200
         \<longrightarrow> (\<forall>i < n. ds4_tc_line_important s (lns_v lines ! i) \<longrightarrow> i \<in> set is))"
proof -
  let ?ps = "map (\<lambda>i. (ds4_tc_line_important s (lns_v lines ! i),
      i < (if n < 40 then n else 40) \<or> (if 80 < n then n - 80 else 0) \<le> i)) [0..<n]"
  let ?is = "shown_indices (log_show s (lns_v lines))"
  have show_eq: "log_show s (lns_v lines) = mark_important 0 ?ps" by (simp add: log_show_def Let_def n)
  have mem: "i \<in> set ?is \<longleftrightarrow> i < n \<and> mark_important 0 ?ps ! i" for i
    by (simp add: shown_indices_props(3) show_eq)
  have sh: "snd (?ps ! i) \<longleftrightarrow> i < 40 \<or> n \<le> i + 80" if "i < n" for i using that by auto
  have imp: "fst (?ps ! i) \<longleftrightarrow> ds4_tc_line_important s (lns_v lines ! i)" if "i < n" for i using that by simp
  have keep: "i \<in> set ?is" if "i < n" "i < 40 \<or> n \<le> i + 80" for i
    using that sh [of i] mark_keeps [of i ?ps 0] by (simp add: mem)
  have only: "i < n \<and> (i < 40 \<or> n \<le> i + 80 \<or> ds4_tc_line_important s (lns_v lines ! i))" if "i \<in> set ?is" for i
    using that sh [of i] imp [of i] mark_only [of i ?ps 0] by (auto simp: mem)
  have "filter (\<lambda>(imp, sh). imp \<and> \<not> sh) ?ps = map (\<lambda>i. ?ps ! i)
      (filter (\<lambda>i. ds4_tc_line_important s (lns_v lines ! i) \<and> 40 \<le> i \<and> i + 80 < n) [0..<n])"
    by (auto simp: filter_map o_def intro!: map_cong filter_cong)
  then have cnt: "length (filter (\<lambda>(imp, sh). imp \<and> \<not> sh) ?ps)
      = length (filter (\<lambda>i. ds4_tc_line_important s (lns_v lines ! i) \<and> 40 \<le> i \<and> i + 80 < n) [0..<n])"
    by simp
  have all: "i \<in> set ?is" if "length (filter (\<lambda>i. ds4_tc_line_important s (lns_v lines ! i) \<and> 40 \<le> i \<and> i + 80 < n) [0..<n]) \<le> 200"
      "i < n" "ds4_tc_line_important s (lns_v lines ! i)" for i
    using that imp [of i] mark_adds [of 0 ?ps i] cnt by (simp add: mem)
  obtain k where k: "k \<le> length ?is"
      "t = log_header n (length ?is) (omitted_of n (length ?is))
           @ concat (map (\<lambda>i. line_text s (lns_v lines ! i)) (take k ?is))"
      "k = length ?is \<or> 12000 < length t"
    using compress_log_run [OF sp l t] unfolding n by (elim exE conjE) iprover
  show ?thesis
  proof (intro exI [of _ ?is] exI [of _ k] conjI)
    show "\<forall>i \<in> set ?is. i < n \<and> (i < 40 \<or> n \<le> i + 80 \<or> ds4_tc_line_important s (lns_v lines ! i))"
      using only by (rule ballI)
  qed (use k shown_indices_props(1,2) keep all in simp_all)
qed

lemma compress_log_total:
  assumes sp: "ds4_tc_split_lines mok s = Some lines" and l: "length s < 2 ^ 30" and mok: "\<And>c. mok c"
  shows "\<exists>t. cd_text (ds4_tc_compress_log mok s) = Some t"
proof -
  let ?ls = "lns_v lines" and ?is = "shown_indices (log_show s (lns_v lines))"
  let ?h = "log_header (length ?ls) (length ?is) (omitted_of (length ?ls) (length ?is))"
  let ?ps = "map (\<lambda>i. line_text s (?ls ! i)) ?is"
  have n: "length ?ls < 2 ^ 30" using split_lines_count [OF sp] l by simp
  have isl: "length ?is \<le> length ?ls"
    using length_shown [of "log_show s ?ls"] by (simp add: log_show_def Let_def)
  have hl: "length ?h \<le> 300"
    using nat_dec_64 [of "length ?ls"] nat_dec_64 [of "length ?is"] n isl unat_lt64
      nat_dec_64 [of "unat (omitted_of (length ?ls) (length ?is))"] by (simp add: log_header_def)
  have "length (concat (map (\<lambda>i. line_text s (?ls ! i)) js)) \<le> length js * 2 ^ 30" for js
    using l line_text_length [of s] by (induction js) (auto intro!: add_mono order_trans [OF line_text_length])
  then have "length (concat ?ps) \<le> length ?is * 2 ^ 30" .
  also have "\<dots> \<le> 2 ^ 30 * 2 ^ 30" using isl n by (intro mult_right_mono) simp_all
  finally have cl: "length (concat ?ps) \<le> 2 ^ 60" by simp
  obtain b where b: "ds4_tc_buf_printf mok dynbuf_empty ?h = Inr b" "dynbuf_inv b" "dynbuf_text b = ?h"
    using tc_printf_total [of dynbuf_empty ?h mok] hl mok by auto
  obtain b' k where b': "append_capped (ds4_tc_buf_append mok) full b ?ps = Inr (b', k)"
    using tc_capped_total [of b ?ps mok full] b(2,3) hl cl mok by fastforce
  have "\<exists>t. ds4_tc_buf_take mok b' = Some t"
    using mok by (cases "db_ptr b'") (simp_all add: ds4_tc_buf_take_def)
  then show ?thesis using b(1) b' sp mok by (auto simp: ds4_tc_compress_log_def Let_def)
qed

lemma split_one_newline:
  "ds4_tc_split_lines (\<lambda>_. True) NL
   = Some \<lparr>lns_v = [\<lparr>ln_start = 0, ln_content_end = 0, ln_end = 1\<rparr>], lns_cap = 256\<rparr>"
  by (simp add: ds4_tc_split_lines_def ds4_tc_split_from.simps ds4_tc_lines_push_def lines_empty_def Let_def
      line_content_end_def line_next_def)

lemma log_summary_lines_witness:
  "\<exists>t (is :: nat list) k. cd_text (ds4_tc_compress_log (\<lambda>_. True) NL) = Some t \<and> 0 \<in> set is \<and> k \<le> length is
     \<and> t = log_header 1 (length is) (omitted_of 1 (length is)) @ concat (map (\<lambda>i. NL) (take k is))"
proof -
  obtain t where t: "cd_text (ds4_tc_compress_log (\<lambda>_. True) NL) = Some t"
    using compress_log_total [OF split_one_newline] by auto
  obtain "is" k where *: "k \<le> length is" "0 \<in> set is" "\<forall>i \<in> set is. i < 1"
     "t = log_header 1 (length is) (omitted_of 1 (length is))
            @ concat (map (\<lambda>i. line_text NL ([\<lparr>ln_start = 0, ln_content_end = 0, ln_end = 1\<rparr>] ! i)) (take k is))"
    using log_summary_lines [OF split_one_newline _ t refl] by auto
  have m: "map (\<lambda>i. line_text NL ([\<lparr>ln_start = 0, ln_content_end = 0, ln_end = 1\<rparr>] ! i)) (take k is) = map (\<lambda>i. NL) (take k is)"
  proof (intro map_cong refl)
    fix x assume "x \<in> set (take k is)"
    then have "x = 0" using *(3) by (auto dest: in_set_takeD)
    then show "line_text NL ([\<lparr>ln_start = 0, ln_content_end = 0, ln_end = 1\<rparr>] ! x) = NL" by (simp add: line_text_def)
  qed
  show ?thesis using t *(1,2) *(4) [unfolded m] by blast
qed

text \<open>The number of omitted lines a log summary reports never exceeds the lines that are really
  missing from it, and is exact when the summary was not cut at the inline limit.\<close>

theorem log_omitted_count:
  assumes sp: "ds4_tc_split_lines mok s = Some lines" and l: "length s < 2 ^ 63"
    and t: "cd_text (ds4_tc_compress_log mok s) = Some t"
    and n: "n = length (lns_v lines)"
  shows "\<exists>is. distinct is \<and> length is \<le> n
     \<and> (\<exists>head. t = head @ concat (map (\<lambda>i. line_text s (lns_v lines ! i)) is))
     \<and> unat (cd_omitted_lines (ds4_tc_compress_log mok s)) \<le> n - length is
     \<and> (length t \<le> 12000 \<longrightarrow> unat (cd_omitted_lines (ds4_tc_compress_log mok s)) = n - length is)"
proof -
  let ?is = "shown_indices (log_show s (lns_v lines))"
  have n63: "n < 2 ^ 63" using split_lines_count [OF sp] l by (simp add: n)
  have isl: "length ?is \<le> n"
    using length_shown [of "log_show s (lns_v lines)"] by (simp add: n log_show_def Let_def)
  obtain k where k: "k \<le> length ?is"
     "t = log_header n (length ?is) (omitted_of n (length ?is))
            @ concat (map (\<lambda>i. line_text s (lns_v lines ! i)) (take k ?is))"
     "k = length ?is \<or> 12000 < length t"
     "cd_omitted_lines (ds4_tc_compress_log mok s)
       = (if k < length ?is then omitted_of n (length ?is) + (of_nat (length ?is) - of_nat (?is ! k))
          else omitted_of n (length ?is))"
    using compress_log_run [OF sp l t] unfolding n by (elim exE conjE) iprover
  have om: "omitted_of n (length ?is) = of_nat n - of_nat (length ?is)"
    using isl by (auto simp: omitted_of_def of_nat_diff)
  have small: "unat (of_nat n - of_nat j :: u64) = n - j" if "j \<le> n" for j
    using that n63 by (simp flip: of_nat_diff) (intro unat_of_nat64, simp)
  have "unat (cd_omitted_lines (ds4_tc_compress_log mok s)) \<le> n - k
     \<and> (k = length ?is \<longrightarrow> unat (cd_omitted_lines (ds4_tc_compress_log mok s)) = n - k)"
  proof (cases "k < length ?is")
    case True
    then have "?is ! k \<in> set ?is" by simp
    then have lt: "?is ! k < n" by (simp add: shown_indices_props(3) log_show_def Let_def n)
    have ge: "k \<le> ?is ! k" using sorted_distinct_nth [OF shown_indices_props(1,2) True] .
    have "cd_omitted_lines (ds4_tc_compress_log mok s) = of_nat n - of_nat (?is ! k)"
      using k(4) True om by simp
    then show ?thesis using small [of "?is ! k"] lt ge True by simp
  next
    case False
    then show ?thesis using k(1,4) om small [OF isl] by simp
  qed
  then have c: "unat (cd_omitted_lines (ds4_tc_compress_log mok s)) \<le> n - k"
    "length t \<le> 12000 \<longrightarrow> unat (cd_omitted_lines (ds4_tc_compress_log mok s)) = n - k"
    using k(3) by auto
  have lk: "length (take k ?is) = k" using k(1) by simp
  have "distinct (take k ?is)" using shown_indices_props(2) by (rule distinct_take)
  then show ?thesis
    using c k(1) isl k(2) by (intro exI [of _ "take k ?is"] conjI) (simp_all only: lk, simp_all)
qed

lemma log_omitted_count_witness:
  "\<exists>t (is :: nat list). cd_text (ds4_tc_compress_log (\<lambda>_. True) NL) = Some t \<and> length is \<le> 1
     \<and> unat (cd_omitted_lines (ds4_tc_compress_log (\<lambda>_. True) NL)) \<le> 1 - length is"
proof -
  obtain t where t: "cd_text (ds4_tc_compress_log (\<lambda>_. True) NL) = Some t"
    using compress_log_total [OF split_one_newline] by auto
  obtain "is" :: "nat list" where "length is \<le> 1"
    "unat (cd_omitted_lines (ds4_tc_compress_log (\<lambda>_. True) NL)) \<le> 1 - length is"
    using log_omitted_count [OF split_one_newline _ t refl] by auto
  with t show ?thesis by blast
qed

lemma split_from_shape:
  assumes "ds4_tc_split_from mok s pos lines = Some out"
    and "\<forall>l \<in> set (lns_v lines). line_content s l = takeWhile (\<lambda>c. c \<noteq> CHR 0x0A \<and> c \<noteq> CHR 0x0D) (drop (ln_start l) s)"
  shows "\<forall>l \<in> set (lns_v out). line_content s l = takeWhile (\<lambda>c. c \<noteq> CHR 0x0A \<and> c \<noteq> CHR 0x0D) (drop (ln_start l) s)"
  using assms
proof (induction mok s pos lines rule: ds4_tc_split_from.induct)
  case (1 mok s pos lines)
  show ?case
  proof (cases "pos < length s")
    case False
    then show ?thesis using 1(2,3) by (simp add: ds4_tc_split_from.simps)
  next
    case True
    let ?l = "\<lparr>ln_start = pos, ln_content_end = line_content_end s pos, ln_end = line_next s pos\<rparr>"
    obtain lines' where pu: "ds4_tc_lines_push mok lines ?l = Some lines'"
      and rec: "ds4_tc_split_from mok s (line_next s pos) lines' = Some out"
      using 1(2) True by (subst (asm) ds4_tc_split_from.simps) (auto split: option.splits)
    have "line_content s ?l = takeWhile (\<lambda>c. c \<noteq> CHR 0x0A \<and> c \<noteq> CHR 0x0D) (drop (ln_start ?l) s)"
      by (simp only: line_content_def line_content_end_def ds4_tc_line.select_convs diff_add_inverse)
        (rule takeWhile_eq_take [symmetric])
    moreover have "set (lns_v lines') = insert ?l (set (lns_v lines))" by (simp add: lines_push_v [OF pu])
    ultimately have "\<forall>l \<in> set (lns_v lines').
        line_content s l = takeWhile (\<lambda>c. c \<noteq> CHR 0x0A \<and> c \<noteq> CHR 0x0D) (drop (ln_start l) s)"
      using 1(3) by (simp only: ball_simps)
    then show ?thesis by (rule "1.IH" [OF True pu rec])
  qed
qed

text \<open>cutting a text into lines loses nothing: the lines joined with their line breaks are the
  text again, every line is a non-empty range inside the text, and no line's content holds a line
  break.\<close>

theorem split_lines_lossless:
  assumes "ds4_tc_split_lines mok s = Some out"
  shows "concat (map (line_text s) (lns_v out)) = s
     \<and> (\<forall>l \<in> set (lns_v out). ln_start l \<le> ln_content_end l \<and> ln_content_end l \<le> ln_end l
          \<and> ln_end l \<le> length s \<and> ln_start l < ln_end l
          \<and> CHR 0x0A \<notin> set (line_content s l) \<and> CHR 0x0D \<notin> set (line_content s l))"
proof -
  have "\<forall>l \<in> set (lns_v out). line_content s l = takeWhile (\<lambda>c. c \<noteq> CHR 0x0A \<and> c \<noteq> CHR 0x0D) (drop (ln_start l) s)"
    by (rule split_from_shape [OF assms [unfolded ds4_tc_split_lines_def]]) (simp add: lines_empty_def)
  then have c: "CHR 0x0A \<notin> set (line_content s l) \<and> CHR 0x0D \<notin> set (line_content s l)" if "l \<in> set (lns_v out)" for l
    using that by (auto dest: set_takeWhileD)
  show ?thesis
  proof (intro conjI [OF split_lines_text(1) [OF assms]] ballI)
    fix l assume l: "l \<in> set (lns_v out)"
    show "ln_start l \<le> ln_content_end l \<and> ln_content_end l \<le> ln_end l \<and> ln_end l \<le> length s
        \<and> ln_start l < ln_end l \<and> CHR 0x0A \<notin> set (line_content s l) \<and> CHR 0x0D \<notin> set (line_content s l)"
      using split_lines_text(2) [OF assms l] c [OF l] by simp
  qed
qed

lemma split_lines_lossless_witness:
  "\<exists>out. ds4_tc_split_lines (\<lambda>_. True) NL = Some out \<and> concat (map (line_text NL) (lns_v out)) = NL"
  using split_lines_lossless [OF split_one_newline] split_one_newline by blast

text \<open>the compressor's buffer does not fail by itself: when every allocation succeeds, appending
  to a buffer of less than \<open>2^62\<close> bytes succeeds, its growth loop ends, and the text is extended by
  exactly what was appended.\<close>

theorem tc_append_never_fails:
  assumes "dynbuf_inv b" "length (dynbuf_text b) + length p < 2 ^ 62" "\<And>c. mok c"
  shows "\<exists>b'. ds4_tc_buf_append mok b p = Inr b' \<and> dynbuf_inv b' \<and> dynbuf_text b' = dynbuf_text b @ p"
  using assms by (rule tc_append_total)

lemma tc_append_never_fails_witness:
  "\<exists>b'. ds4_tc_buf_append (\<lambda>_. True) dynbuf_empty ''line'' = Inr b' \<and> dynbuf_inv b' \<and> dynbuf_text b' = ''line''"
  using tc_append_never_fails [of dynbuf_empty "''line''" "\<lambda>_. True"] by simp

end
