(* ===== verification/SessionStore.thy ===== *)
theory SessionStore
  imports KvStore
begin

text \<open>
  Freezing a live session and bringing it back (\<^verbatim>\<open>ds4_agent_session_store.c\<close> and the two snapshot
  functions of \<^verbatim>\<open>ds4.c\<close>): the RAM snapshot, and the session file, which is a checkpoint of the
  format of \<open>KvFormat\<close> followed by a title trailer. A stream opened for reading is its contents and
  a position. The graph state of a session is a parameter: the record \<open>session_api\<close> holds the
  functions of \<^verbatim>\<open>ds4.c\<close> that serialise, restore and rebuild it. Messages are the values of the
  left injection; the callers pass error buffers of 256 bytes.
\<close>

section \<open>Streams\<close>

record rfile =
  rf_data :: "byte list"
  rf_pos :: nat

definition fread :: "nat \<Rightarrow> rfile \<Rightarrow> byte list \<times> rfile" where
  "fread n fp = (let bs = take n (drop (rf_pos fp) (rf_data fp)) in (bs, fp\<lparr>rf_pos := rf_pos fp + length bs\<rparr>))"

text \<open>\<^verbatim>\<open>fseeko(fp, off, SEEK_CUR)\<close>: the resulting offset must fit an \<^verbatim>\<open>off_t\<close>; it may lie behind the
  end of the file.\<close>

definition fseek_cur :: "nat \<Rightarrow> rfile \<Rightarrow> rfile option" where
  "fseek_cur off fp = (if rf_pos fp + off < 2 ^ 63 then Some (fp\<lparr>rf_pos := rf_pos fp + off\<rparr>) else None)"

section \<open>The session functions of the engine\<close>

text \<open>Saving writes some bytes and ends with a message when it fails; synchronising evaluates a token
  list. \<open>sa_uninit\<close> are the contents of memory that \<^verbatim>\<open>realloc\<close> has just added.\<close>

record 's session_api = "'s session_ops" +
  sa_create :: "engine \<Rightarrow> int \<Rightarrow> 's option"
  sa_payload_bytes :: "'s \<Rightarrow> u64"
  sa_distributed :: "'s \<Rightarrow> bool"
  sa_save_payload :: "'s \<Rightarrow> byte list \<times> string option"
  sa_load_error :: "'s \<Rightarrow> byte list \<Rightarrow> u64 \<Rightarrow> string"
  sa_sync :: "'s \<Rightarrow> int list \<Rightarrow> string option \<times> 's"
  sa_uninit :: "nat \<Rightarrow> byte list"
  sa_realloc_ok :: "u64 \<Rightarrow> bool"
  sa_memopen_ok :: "u64 \<Rightarrow> bool"

record 's sess_env =
  se_io :: io
  se_eng :: engine
  se_api :: "'s session_api"
  se_mkstemp :: "fs \<Rightarrow> string \<Rightarrow> string option"
  se_fdopen_ok :: bool
  se_fclose_ok :: bool
  se_strerror :: "string \<Rightarrow> string"
  se_write_errno :: "string option"

definition err_text :: "string \<Rightarrow> string" where
  "err_text s = take 255 s"

section \<open>Snapshots in memory\<close>

record snapshot =
  ss_ptr :: "byte list option"
  ss_len :: u64

definition snapshot_zero :: snapshot where
  "snapshot_zero = \<lparr>ss_ptr = None, ss_len = 0\<rparr>"

text \<open>The capacity is the length of the block. \<^verbatim>\<open>fmemopen\<close> of \<open>bytes\<close> bytes accepts what fits and makes
  \<^verbatim>\<open>fclose\<close> fail otherwise.\<close>

definition ss_cap :: "snapshot \<Rightarrow> nat" where
  "ss_cap sn = (case ss_ptr sn of None \<Rightarrow> 0 | Some p \<Rightarrow> length p)"

definition snapshot_reserve :: "'s session_api \<Rightarrow> snapshot \<Rightarrow> u64 \<Rightarrow> snapshot option" where
  "snapshot_reserve api sn bytes =
     (if ss_cap sn < unat bytes then
        (if sa_realloc_ok api bytes
         then (let old = (case ss_ptr sn of None \<Rightarrow> [] | Some p \<Rightarrow> p) in
               Some (sn\<lparr>ss_ptr := Some (take (unat bytes) (old @ sa_uninit api (unat bytes)
                                          @ replicate (unat bytes) 0))\<rparr>))
         else None)
      else Some sn)"

definition ds4_session_save_snapshot :: "'s session_api \<Rightarrow> 's \<Rightarrow> snapshot \<Rightarrow> string option \<times> snapshot" where
  "ds4_session_save_snapshot api s sn =
     (if sa_distributed api s then (Some ''distributed session snapshots are not supported yet'', sn)
      else let bytes = sa_payload_bytes api s in
        if bytes = 0 then (Some ''session has no valid checkpoint to snapshot'', sn)
        else (case snapshot_reserve api sn bytes of
            None \<Rightarrow> (Some ''out of memory while allocating session snapshot'', sn)
          | Some sn1 \<Rightarrow>
            if \<not> sa_memopen_ok api bytes then (Some ''failed to open memory stream for session snapshot'', sn1)
            else
              let (payload, rc) = sa_save_payload api s;
                  stored = take (unat bytes) payload;
                  sn2 = sn1\<lparr>ss_ptr := map_option (store_at 0 stored) (ss_ptr sn1)\<rparr>
              in (case rc of Some msg \<Rightarrow> (Some msg, sn2)
                  | None \<Rightarrow> if unat bytes < length payload
                            then (Some ''failed to finalize memory session snapshot'', sn2)
                            else (None, sn2\<lparr>ss_len := bytes\<rparr>))))"

definition ds4_session_load_snapshot :: "'s session_api \<Rightarrow> 's \<Rightarrow> snapshot \<Rightarrow> string option \<times> 's" where
  "ds4_session_load_snapshot api s sn =
     (case ss_ptr sn of None \<Rightarrow> (Some ''invalid session snapshot load'', s)
      | Some p \<Rightarrow>
        if ss_len sn = 0 then (Some ''invalid session snapshot load'', s)
        else if sa_distributed api s then (Some ''distributed session snapshots are not supported yet'', s)
        else if \<not> sa_memopen_ok api (ss_len sn)
        then (Some ''failed to open memory stream for session snapshot restore'', s)
        else let data = take (unat (ss_len sn)) p in
          (case so_load_payload api s data (ss_len sn) of
             (True, s1) \<Rightarrow> (None, s1)
           | (False, s1) \<Rightarrow> (Some (sa_load_error api s data (ss_len sn)), s1)))"

definition ds4_session_snapshot_free :: "snapshot \<Rightarrow> snapshot" where
  "ds4_session_snapshot_free sn = snapshot_zero"

definition ds4_sess_store_ram :: "'s session_api \<Rightarrow> 's option \<Rightarrow> snapshot \<Rightarrow> string option \<times> snapshot" where
  "ds4_sess_store_ram api session sn =
     (case session of None \<Rightarrow> (Some ''invalid session or snapshot'', sn)
      | Some s \<Rightarrow> ds4_session_save_snapshot api s sn)"

definition ds4_sess_load_ram :: "'s session_api \<Rightarrow> 's \<Rightarrow> snapshot \<Rightarrow> string option \<times> 's" where
  "ds4_sess_load_ram api s sn =
     (if ss_ptr sn = None \<or> ss_len sn = 0 then (Some ''invalid RAM snapshot'', s)
      else ds4_session_load_snapshot api s sn)"

section \<open>The session file\<close>

text \<open>The flag \<^verbatim>\<open>DS4_KVSTORE_EXT_SESSION_TITLE\<close>.\<close>

definition DS4_KVSTORE_EXT_SESSION_TITLE :: byte where
  "DS4_KVSTORE_EXT_SESSION_TITLE = 8"

definition store_le_put64 :: "u64 \<Rightarrow> byte list" where
  "store_le_put64 v = map (\<lambda>i. ucast (drop_bit (8 * i) v)) [0..<8]"

definition ds4_sess_disk_exists :: "fs \<Rightarrow> string \<Rightarrow> bool" where
  "ds4_sess_disk_exists f path \<longleftrightarrow> f path \<noteq> None"

definition ds4_agent_kv_read_text :: "rfile \<Rightarrow> u32 \<Rightarrow> string + (byte list \<times> rfile)" where
  "ds4_agent_kv_read_text fp text_bytes =
     (let (bs, fp') = fread (unat text_bytes) fp in
      if length bs \<noteq> unat text_bytes then Inl ''truncated cached text'' else Inr (bs, fp'))"

text \<open>The bytes the writer puts behind the payload.\<close>

definition ds4_agent_kv_write_title_trailer :: "string option \<Rightarrow> string + byte list" where
  "ds4_agent_kv_write_title_trailer title =
     (let t = (case title of None \<Rightarrow> [] | Some t \<Rightarrow> t) in
      if 0xFFFFFFFF < length t then Inl ''agent session title is too large''
      else Inr (ds4_kvstore_le_put32 (of_nat (length t)) @ bytes_of t))"

text \<open>Every return, failed or not, leaves the stream at the payload; \<open>einval\<close> is the text of the error
  of a refused seek.\<close>

definition ds4_agent_kv_read_title_trailer :: "string \<Rightarrow> rfile \<Rightarrow> kv_entry \<Rightarrow> string + (string \<times> rfile)" where
  "ds4_agent_kv_read_title_trailer einval fp hdr =
     (if 0x7FFFFFFFFFFFFFFF < ke_payload_bytes hdr then Inl einval
      else (case fseek_cur (unat (ke_payload_bytes hdr)) fp of None \<Rightarrow> Inl einval
        | Some fp1 \<Rightarrow>
          let (tb, fp2) = fread 4 fp1 in
          if length tb \<noteq> 4 then Inl ''missing agent session title trailer''
          else let title_bytes = unat (ds4_kvstore_le_get32 tb); (title, fp3) = fread title_bytes fp2 in
            if length title \<noteq> title_bytes then Inl ''truncated agent session title trailer''
            else Inr (text_of title, fp3\<lparr>rf_pos := rf_pos fp\<rparr>)))"

definition ds4_agent_session_identity_sha :: "string option \<Rightarrow> u64 \<Rightarrow> string" where
  "ds4_agent_session_identity_sha title created_at =
     ds4_kvstore_sha1_bytes_hex
       (bytes_of (case title of None \<Rightarrow> [] | Some t \<Rightarrow> t) @ store_le_put64 created_at)"

definition ds4_agent_kv_identity_sha :: "kv_entry \<Rightarrow> byte list \<Rightarrow> string option \<Rightarrow> string" where
  "ds4_agent_kv_identity_sha hdr text title =
     (if ke_ext_flags hdr AND DS4_KVSTORE_EXT_SESSION_TITLE \<noteq> 0
      then ds4_agent_session_identity_sha (Some (case title of None \<Rightarrow> [] | Some t \<Rightarrow> t)) (ke_created_at hdr)
      else ds4_kvstore_sha1_bytes_hex text)"

text \<open>The checks made before anything is written: the tokens of the live session, and what goes into
  the header.\<close>

definition sess_store_tokens :: "int list option \<Rightarrow> int list option \<Rightarrow> string + int list" where
  "sess_store_tokens live tokens =
     (case live of None \<Rightarrow> Inl ''live KV state is not initialized''
      | Some l \<Rightarrow>
        (case tokens of None \<Rightarrow> Inr l
         | Some t \<Rightarrow>
           if length l \<noteq> length t \<or> \<not> list_all2 (=) l t
           then Inl ''live KV state does not match session transcript'' else Inr t))"

definition sess_header :: "'s sess_env \<Rightarrow> 's \<Rightarrow> int list \<Rightarrow> string option \<Rightarrow> u64 \<Rightarrow> byte list" where
  "sess_header en s tokens title created_at =
     (let now = io_now (se_io en);
          real_created_at = (if title \<noteq> None \<and> created_at \<noteq> 0 then created_at else now)
      in ds4_kvstore_fill_header (of_int (eng_model_id (se_eng en))) (of_int (eng_quant_bits (se_eng en)))
           (ds4_kvstore_reason_code (Some (if title \<noteq> None then ''agent_session'' else ''agent_system'')))
           (if title \<noteq> None then DS4_KVSTORE_EXT_SESSION_TITLE else 0)
           (of_nat (length tokens)) 0 (of_int (so_ctx (se_api en) s))
           real_created_at now (sa_payload_bytes (se_api en) s))"

text \<open>What the chain of \<^verbatim>\<open>fwrite\<close>s sends to the temporary file, with the message of the first of them
  that fails for a reason of its own.\<close>

definition sess_body :: "'s sess_env \<Rightarrow> 's \<Rightarrow> string \<Rightarrow> string option \<Rightarrow> byte list \<times> string option" where
  "sess_body en s text title =
     (let (payload, rc) = sa_save_payload (se_api en) s;
          head = ds4_kvstore_le_put32 (of_nat (length text)) @ bytes_of text @ payload in
      case rc of Some msg \<Rightarrow> (head, Some msg)
      | None \<Rightarrow>
        if title = None then (head, None)
        else (case ds4_agent_kv_write_title_trailer title of
                Inl msg \<Rightarrow> (head, Some msg) | Inr tr \<Rightarrow> (head @ tr, None)))"

text \<open>The file is complete only under its final name; on any failure the temporary file is unlinked.\<close>

definition write_session_file ::
  "'s sess_env \<Rightarrow> fs \<Rightarrow> string \<Rightarrow> string \<Rightarrow> byte list \<Rightarrow> byte list \<times> string option \<Rightarrow> (string + unit) \<times> fs" where
  "write_session_file en f tmp path h body =
     (let w = se_io en;
          (wrote, bs) = written w tmp (h @ fst body);
          f1 = f(tmp \<mapsto> bs);
          ok = (wrote \<and> snd body = None);
          ok1 = (ok \<and> se_fclose_ok en)
      in if ok1 \<and> io_rename_ok w tmp path then (Inr (), f1(tmp := None, path \<mapsto> bs))
         else
           let save_err = take 159 (case snd body of None \<Rightarrow> [] | Some m \<Rightarrow> m);
               msg = (if ok1 then se_strerror en ''rename''
                      else case se_write_errno en of Some m \<Rightarrow> m
                           | None \<Rightarrow> if \<not> se_fclose_ok en then se_strerror en ''fclose''
                                     else if save_err \<noteq> [] then save_err else ''failed to write KV file'')
           in (Inl (err_text msg), snd (unlink w f1 tmp)))"

definition ds4_sess_store_disk ::
  "'s sess_env \<Rightarrow> fs \<Rightarrow> 's \<Rightarrow> int list option \<Rightarrow> string \<Rightarrow> string option \<Rightarrow> u64 \<Rightarrow> (string + unit) \<times> fs" where
  "ds4_sess_store_disk en f s tokens0 path title created_at =
     (case sess_store_tokens (so_tokens (se_api en) s) tokens0 of Inl e \<Rightarrow> (Inl e, f)
      | Inr tokens \<Rightarrow>
        let quant_bits = eng_quant_bits (se_eng en) in
        if quant_bits \<noteq> 2 \<and> quant_bits \<noteq> 4
        then (Inl ''unsupported routed quantization for KV save'', f)
        else
          let text = ds4_kvstore_render_tokens_text (se_eng en) tokens in
          if 0xFFFFFFFF < length text then (Inl ''rendered KV text key is too large'', f)
          else if sa_payload_bytes (se_api en) s = 0 then (Inl ''session has no valid KV payload'', f)
          else (case se_mkstemp en f (path @ ''.tmp.'') of
              None \<Rightarrow> (Inl (err_text (''mkstemp failed: '' @ se_strerror en ''mkstemp'')), f)
            | Some tmp \<Rightarrow>
              if \<not> se_fdopen_ok en
              then (Inl (err_text (''fdopen failed: '' @ se_strerror en ''fdopen'')),
                    snd (unlink (se_io en) (f(tmp \<mapsto> [])) tmp))
              else write_session_file en f tmp path (sess_header en s tokens title created_at)
                     (sess_body en s text title)))"

text \<open>Restoring: the header, the text, the title of a titled file, then the payload, or the rebuilt
  tokens when the file has none. \<open>want\<close> says whether the caller asks for the tokens.\<close>

definition sess_restore ::
  "'s sess_env \<Rightarrow> 's \<Rightarrow> kv_entry \<Rightarrow> string \<Rightarrow> byte list \<Rightarrow> bool \<Rightarrow> (string + int list) \<times> 's" where
  "sess_restore en s hdr text rest want =
     (let api = se_api en in
      if ke_payload_bytes hdr = 0 then
        (let rebuilt = eng_tokenize_rendered_chat (se_eng en) (cstr text) in
         case sa_sync api s rebuilt of
           (Some e, s1) \<Rightarrow>
             (Inl (if take 159 e \<noteq> [] then take 159 e else ''failed to sync rebuilt tokens''), so_invalidate api s1)
         | (None, s1) \<Rightarrow> (Inr (if want then rebuilt else []), s1))
      else (case so_load_payload api s rest (ke_payload_bytes hdr) of
          (False, s1) \<Rightarrow>
            (let e = take 159 (sa_load_error api s rest (ke_payload_bytes hdr)) in
             (Inl (if e \<noteq> [] then e else ''failed to load KV payload''), so_invalidate api s1))
        | (True, s1) \<Rightarrow>
          if \<not> want then (Inr [], s1)
          else (case so_tokens api s1 of
              None \<Rightarrow> (Inl ''KV payload token count mismatch'', so_invalidate api s1)
            | Some live \<Rightarrow>
              if int (length live) \<noteq> sint (ke_tokens hdr)
              then (Inl ''KV payload token count mismatch'', so_invalidate api s1)
              else (Inr live, s1))))"

definition ds4_sess_load_disk ::
  "'s sess_env \<Rightarrow> fs \<Rightarrow> 's \<Rightarrow> string \<Rightarrow> bool \<Rightarrow> (string + (int list \<times> load_result)) \<times> 's" where
  "ds4_sess_load_disk en f s path want =
     (case fopen_read (se_io en) f path of None \<Rightarrow> (Inl (err_text (se_strerror en ''fopen'')), s)
      | Some file \<Rightarrow>
        (case ds4_kvstore_read_header file of None \<Rightarrow> (Inl ''invalid KV header'', s)
         | Some (hdr, text_bytes) \<Rightarrow>
           (case ds4_agent_kv_read_text \<lparr>rf_data = file, rf_pos = 52\<rparr> text_bytes of Inl e \<Rightarrow> (Inl e, s)
            | Inr (text, fp) \<Rightarrow>
              (case (if ke_ext_flags hdr AND DS4_KVSTORE_EXT_SESSION_TITLE \<noteq> 0
                     then ds4_agent_kv_read_title_trailer (err_text (se_strerror en ''fseeko'')) fp hdr
                     else Inr ([], fp)) of
                 Inl e \<Rightarrow> (Inl e, s)
               | Inr (_, fp1) \<Rightarrow>
                 if ke_payload_bytes hdr \<noteq> 0 \<and> ke_model_id hdr \<noteq> of_int (eng_model_id (se_eng en))
                 then (Inl ''KV checkpoint was written for a different model'', s)
                 else if ke_payload_bytes hdr \<noteq> 0 \<and> ke_quant_bits hdr \<noteq> of_int (eng_quant_bits (se_eng en))
                 then (Inl ''KV checkpoint was written for a different quantization'', s)
                 else (case sess_restore en s hdr (text_of text) (drop (rf_pos fp1) file) want of
                     (Inl e, s1) \<Rightarrow> (Inl e, s1)
                   | (Inr toks, s1) \<Rightarrow>
                     (Inr (toks, \<lparr>lr_tokens = sint (ke_tokens hdr), lr_text_bytes = text_bytes,
                        lr_quant_bits = ke_quant_bits hdr, lr_ext_flags = ke_ext_flags hdr,
                        lr_consumed = True, lr_path = path\<rparr>), s1))))))"

section \<open>What the engine promises\<close>

text \<open>Saving a session and loading the result into a fresh one restores it: \<open>restores api s fresh s'\<close>
  is the contract of \<^verbatim>\<open>ds4_session_save_payload\<close> and \<^verbatim>\<open>ds4_session_load_payload\<close>. What follows the
  payload in a file does not disturb the load.\<close>

definition restores :: "'s session_api \<Rightarrow> 's \<Rightarrow> 's \<Rightarrow> 's \<Rightarrow> bool" where
  "restores api s fresh s' \<longleftrightarrow>
     (case sa_save_payload api s of (payload, rc) \<Rightarrow>
        rc = None \<and> length payload = unat (sa_payload_bytes api s)
        \<and> \<not> sa_distributed api fresh \<and> sa_memopen_ok api (sa_payload_bytes api s)
        \<and> so_tokens api s' = so_tokens api s
        \<and> (\<forall>rest. so_load_payload api fresh (payload @ rest) (sa_payload_bytes api s) = (True, s')))"

lemma restoresE:
  assumes "restores api s fresh s'"
  obtains payload where "sa_save_payload api s = (payload, None)"
    "length payload = unat (sa_payload_bytes api s)" "\<not> sa_distributed api fresh"
    "sa_memopen_ok api (sa_payload_bytes api s)" "so_tokens api s' = so_tokens api s"
    "\<And>rest. so_load_payload api fresh (payload @ rest) (sa_payload_bytes api s) = (True, s')"
  using assms by (auto simp: restores_def)

section \<open>The contract of a frozen session\<close>

text \<open>A store into a medium (the snapshot of a session, or the file system), a load from it, and the
  condition under which a session stored can be thawed into a fresh one.\<close>

locale freezer =
  fixes store :: "'s \<Rightarrow> 'm \<Rightarrow> 'e option \<times> 'm"
    and load :: "'s \<Rightarrow> 'm \<Rightarrow> 'e option \<times> 's"
    and ok :: "'s \<Rightarrow> 's \<Rightarrow> 's \<Rightarrow> bool"
  assumes load_store: "\<lbrakk>ok s fresh s'; store s m = (None, m')\<rbrakk> \<Longrightarrow> load fresh m' = (None, s')"
begin

text \<open>The last session stored is the one that comes back.\<close>

lemma last_store_wins:
  assumes "store s1 m = (None, m1)" "store s2 m1 = (None, m2)" "ok s2 fresh s'"
  shows "load fresh m2 = (None, s')"
  using load_store assms(2,3) by blast

text \<open>A chain of freezing and thawing through the medium keeps what \<open>ok\<close> keeps: here the value of any
  observer that a thaw preserves.\<close>

lemma observed:
  assumes "store s m = (None, m')" "ok s fresh s'" "\<And>a b c. ok a b c \<Longrightarrow> obs c = obs a"
  shows "\<exists>s'. load fresh m' = (None, s') \<and> obs s' = obs s"
  using load_store [OF assms(2,1)] assms(2,3) by blast

end

lemma snapshot_reserve_Some:
  assumes "snapshot_reserve api sn bytes = Some sn1"
  shows "unat bytes \<le> ss_cap sn1 \<and> (0 < unat bytes \<longrightarrow> ss_ptr sn1 \<noteq> None)"
  using assms
  by (auto simp: snapshot_reserve_def ss_cap_def Let_def split: if_splits option.splits)

lemma load_snapshot_store:
  assumes r: "restores api s fresh s'" and st: "ds4_session_save_snapshot api s sn = (None, sn')"
  shows "ss_ptr sn' \<noteq> None \<and> ss_len sn' \<noteq> 0 \<and> ds4_session_load_snapshot api fresh sn' = (None, s')"
proof -
  let ?n = "sa_payload_bytes api s"
  obtain payload where p: "sa_save_payload api s = (payload, None)" "length payload = unat ?n"
    "\<not> sa_distributed api fresh" "sa_memopen_ok api ?n"
    "\<And>rest. so_load_payload api fresh (payload @ rest) ?n = (True, s')"
    using r by (rule restoresE) blast
  have n0: "?n \<noteq> 0" using st by (auto simp: ds4_session_save_snapshot_def Let_def split: if_splits)
  obtain sn1 where s1: "snapshot_reserve api sn ?n = Some sn1"
    using st n0 by (auto simp: ds4_session_save_snapshot_def Let_def split: if_splits option.splits)
  have n1: "0 < unat ?n" using n0 by (simp add: unat_gt_0)
  obtain cells where c: "ss_ptr sn1 = Some cells" "unat ?n \<le> length cells"
    using snapshot_reserve_Some [OF s1] n1 by (auto simp: ss_cap_def)
  have sn': "sn' = sn1\<lparr>ss_ptr := Some (store_at 0 payload cells), ss_len := ?n\<rparr>"
    using st n0 s1 p(1,2,4) c by (auto simp: ds4_session_save_snapshot_def Let_def split: if_splits)
  have "take (unat ?n) (store_at 0 payload cells) = payload"
    using take_store_at [of 0 payload cells] c(2) p(2) by simp
  then show ?thesis
    using sn' n0 p(3,4) p(5) [of "[]"] by (simp add: ds4_session_load_snapshot_def Let_def)
qed

text \<open>The RAM snapshot is a freezer.\<close>

interpretation ram: freezer "\<lambda>s. ds4_sess_store_ram api (Some s)" "ds4_sess_load_ram api" "restores api" for api
  by unfold_locales (auto simp: ds4_sess_store_ram_def ds4_sess_load_ram_def dest: load_snapshot_store)

section \<open>The session file: what a successful store leaves\<close>

definition title_trailer :: "string option \<Rightarrow> byte list" where
  "title_trailer title =
     (case title of None \<Rightarrow> [] | Some t \<Rightarrow> ds4_kvstore_le_put32 (of_nat (length t)) @ bytes_of t)"

definition session_file :: "'s sess_env \<Rightarrow> 's \<Rightarrow> int list \<Rightarrow> byte list \<Rightarrow> string option \<Rightarrow> u64 \<Rightarrow> byte list" where
  "session_file en s ts payload title created_at =
     (let text = ds4_kvstore_render_tokens_text (se_eng en) ts in
      sess_header en s ts title created_at @ ds4_kvstore_le_put32 (of_nat (length text)) @ bytes_of text
      @ payload @ title_trailer title)"

text \<open>A store changes at most the final path, and that only when it succeeds, apart from a temporary
  file that a failing \<^verbatim>\<open>unlink\<close> leaves.\<close>

lemma write_session_file_cases:
  assumes "write_session_file en f tmp path h body = (r, f')"
  shows "(r = Inr () \<and> snd body = None \<and> f' = f(tmp := None, path \<mapsto> h @ fst body))
     \<or> (\<exists>e. r = Inl e \<and> (\<forall>p. p \<noteq> tmp \<longrightarrow> f' p = f p) \<and> (io_unlink_ok (se_io en) tmp \<longrightarrow> f' tmp = None))"
proof -
  obtain wrote bs where w: "written (se_io en) tmp (h @ fst body) = (wrote, bs)" by fastforce
  show ?thesis
  proof (cases "wrote \<and> snd body = None \<and> se_fclose_ok en \<and> io_rename_ok (se_io en) tmp path")
    case True
    then have "bs = h @ fst body" using w by (auto simp: written_def split: option.splits)
    then show ?thesis using assms w True by (auto simp: write_session_file_def Let_def fun_upd_twist)
  next
    case False
    then show ?thesis
      using assms w by (auto simp: write_session_file_def Let_def unlink_def split: if_splits)
  qed
qed

lemma sess_body_None:
  assumes "sess_body en s text title = (body, None)"
  obtains payload where "sa_save_payload (se_api en) s = (payload, None)"
    "body = ds4_kvstore_le_put32 (of_nat (length text)) @ bytes_of text @ payload @ title_trailer title"
    "length (case title of None \<Rightarrow> [] | Some t \<Rightarrow> t) \<le> 0xFFFFFFFF"
  using assms
  by (auto simp: sess_body_def Let_def title_trailer_def ds4_agent_kv_write_title_trailer_def
      split: prod.splits option.splits if_splits)

lemma sess_store_tokens_Inr:
  assumes "sess_store_tokens live tokens = Inr ts"
  shows "live = Some ts"
proof -
  obtain l where l: "live = Some l" using assms by (cases live) (auto simp: sess_store_tokens_def)
  then show ?thesis
    using assms by (auto simp: sess_store_tokens_def list.rel_eq split: option.splits if_splits)
qed

lemma store_disk_Inr:
  assumes "ds4_sess_store_disk en f s tokens0 path title created_at = (Inr (), f')"
  obtains ts tmp payload where "so_tokens (se_api en) s = Some ts"
    "se_mkstemp en f (path @ ''.tmp.'') = Some tmp"
    "sa_save_payload (se_api en) s = (payload, None)"
    "f' = f(tmp := None, path \<mapsto> session_file en s ts payload title created_at)"
    "length (ds4_kvstore_render_tokens_text (se_eng en) ts) \<le> 0xFFFFFFFF"
    "length (case title of None \<Rightarrow> [] | Some t \<Rightarrow> t) \<le> 0xFFFFFFFF"
    "eng_quant_bits (se_eng en) = 2 \<or> eng_quant_bits (se_eng en) = 4" "sa_payload_bytes (se_api en) s \<noteq> 0"
proof -
  obtain ts where ts: "sess_store_tokens (so_tokens (se_api en) s) tokens0 = Inr ts"
    using assms by (auto simp: ds4_sess_store_disk_def split: sum.splits)
  let ?text = "ds4_kvstore_render_tokens_text (se_eng en) ts"
  have g: "eng_quant_bits (se_eng en) = 2 \<or> eng_quant_bits (se_eng en) = 4" "length ?text \<le> 0xFFFFFFFF"
    "sa_payload_bytes (se_api en) s \<noteq> 0"
    using assms ts by (auto simp: ds4_sess_store_disk_def Let_def split: if_splits)
  obtain tmp where tmp: "se_mkstemp en f (path @ ''.tmp.'') = Some tmp"
    using assms ts g by (auto simp: ds4_sess_store_disk_def Let_def split: if_splits option.splits)
  have wr: "write_session_file en f tmp path (sess_header en s ts title created_at)
      (sess_body en s ?text title) = (Inr (), f')"
    using assms ts g tmp by (auto simp: ds4_sess_store_disk_def Let_def split: if_splits)
  obtain body where b: "sess_body en s ?text title = (body, None)"
    "f' = f(tmp := None, path \<mapsto> sess_header en s ts title created_at @ body)"
    using write_session_file_cases [OF wr] by (cases "sess_body en s ?text title") auto
  obtain payload where p: "sa_save_payload (se_api en) s = (payload, None)"
    "body = ds4_kvstore_le_put32 (of_nat (length ?text)) @ bytes_of ?text @ payload @ title_trailer title"
    "length (case title of None \<Rightarrow> [] | Some t \<Rightarrow> t) \<le> 0xFFFFFFFF"
    using b(1) by (rule sess_body_None) blast
  show thesis
    by (rule that [OF sess_store_tokens_Inr [OF ts] tmp p(1) _ g(2) p(3) g(1,3)])
       (simp add: b(2) p(2) session_file_def Let_def)
qed

section \<open>The session file: reading it back\<close>

lemma fread_at:
  "fread (length bs) \<lparr>rf_data = pre @ bs @ rest, rf_pos = length pre\<rparr>
     = (bs, \<lparr>rf_data = pre @ bs @ rest, rf_pos = length pre + length bs\<rparr>)"
  by (simp add: fread_def Let_def)

lemma read_title_trailer_file:
  assumes "length pre + length payload < 2 ^ 63" "unat (ke_payload_bytes hdr) = length payload"
    and "length t \<le> 0xFFFFFFFF"
  shows "ds4_agent_kv_read_title_trailer einval
      \<lparr>rf_data = pre @ payload @ title_trailer (Some t), rf_pos = length pre\<rparr> hdr
    = Inr (t, \<lparr>rf_data = pre @ payload @ title_trailer (Some t), rf_pos = length pre\<rparr>)"
proof -
  let ?d = "pre @ payload @ title_trailer (Some t)"
  have small: "\<not> 0x7FFFFFFFFFFFFFFF < ke_payload_bytes hdr"
    using assms(1,2) by (simp add: word_less_nat_alt)
  have sk: "fseek_cur (unat (ke_payload_bytes hdr)) \<lparr>rf_data = ?d, rf_pos = length pre\<rparr>
      = Some \<lparr>rf_data = ?d, rf_pos = length pre + length payload\<rparr>"
    using assms(1,2) by (simp add: fseek_cur_def)
  have tl: "unat (ds4_kvstore_le_get32 (ds4_kvstore_le_put32 (of_nat (length t)))) = length t"
    using le_get32_put32 [of "of_nat (length t)" "[]"] assms(3) by (simp add: unat_of_nat32)
  show ?thesis
    using sk by (simp add: ds4_agent_kv_read_title_trailer_def small fread_def title_trailer_def tl Let_def)
qed

text \<open>The condition under which a session stored under \<open>path\<close> can be thawed from it.\<close>

definition disk_ok :: "'s sess_env \<Rightarrow> string \<Rightarrow> 's \<Rightarrow> 's \<Rightarrow> 's \<Rightarrow> bool" where
  "disk_ok en path s fresh s' \<longleftrightarrow>
     restores (se_api en) s fresh s' \<and> io_open_ok (se_io en) path
     \<and> unat (sa_payload_bytes (se_api en) s) < 2 ^ 62
     \<and> (case so_tokens (se_api en) s of None \<Rightarrow> False | Some ts \<Rightarrow> ts \<noteq> [] \<and> length ts < 2 ^ 31)"

lemma quant_byte: "q = 2 \<or> q = 4 \<Longrightarrow> (of_int q :: byte) = 2 \<or> (of_int q :: byte) = 4"
  by auto

lemma load_session_file:
  assumes ok: "disk_ok en path s fresh s'" and ts: "so_tokens (se_api en) s = Some ts"
    and p: "sa_save_payload (se_api en) s = (payload, None)" and nz: "sa_payload_bytes (se_api en) s \<noteq> 0"
    and q: "eng_quant_bits (se_eng en) = 2 \<or> eng_quant_bits (se_eng en) = 4"
    and tl: "length (ds4_kvstore_render_tokens_text (se_eng en) ts) \<le> 0xFFFFFFFF"
    and ttl: "length (case title of None \<Rightarrow> [] | Some t \<Rightarrow> t) \<le> 0xFFFFFFFF"
    and f: "f path = Some (session_file en s ts payload title created_at)"
  shows "\<exists>res. ds4_sess_load_disk en f fresh path True = (Inr (ts, res), s')
      \<and> lr_tokens res = int (length ts)"
proof -
  let ?text = "ds4_kvstore_render_tokens_text (se_eng en) ts" and ?n = "sa_payload_bytes (se_api en) s"
  let ?tb = "of_nat (length ?text) :: u32" and ?H = "sess_header en s ts title created_at"
  let ?file = "session_file en s ts payload title created_at"
  let ?pre = "?H @ ds4_kvstore_le_put32 ?tb @ bytes_of ?text"
  let ?q = "of_int (eng_quant_bits (se_eng en)) :: byte" and ?m = "of_int (eng_model_id (se_eng en)) :: byte"
  have l: "length ts < 2 ^ 31" "ts \<noteq> []" "unat ?n < 2 ^ 62" "io_open_ok (se_io en) path"
    using ok ts by (auto simp: disk_ok_def)
  have r: "length payload = unat ?n" "so_tokens (se_api en) s' = Some ts"
    "\<And>rest. so_load_payload (se_api en) fresh (payload @ rest) ?n = (True, s')"
    using ok p ts by (auto simp: disk_ok_def restores_def)
  have fl: "?file = ?pre @ payload @ title_trailer title" by (simp add: session_file_def Let_def)
  have H48: "length ?H = 48" by (simp add: sess_header_def Let_def)
  have tn: "(of_nat (length ts) :: u32) \<noteq> 0" "sint (of_nat (length ts) :: u32) = int (length ts)"
    using l(1,2) by (simp_all add: of_nat32_nz sint_of_nat32)
  obtain hdr where hdr: "ds4_kvstore_read_header ?file = Some (hdr, ?tb)"
    "ke_payload_bytes hdr = ?n" "ke_model_id hdr = ?m" "ke_quant_bits hdr = ?q"
    "ke_tokens hdr = of_nat (length ts)"
    "ke_ext_flags hdr = (if title \<noteq> None then DS4_KVSTORE_EXT_SESSION_TITLE else 0)"
    unfolding fl append_assoc using tn(1) quant_byte [OF q] by (simp add: sess_header_def Let_def read_fill_header)
  have ut: "unat ?tb = length ?text" using tl by (simp add: unat_of_nat32)
  have rtx: "ds4_agent_kv_read_text \<lparr>rf_data = ?file, rf_pos = 52\<rparr> ?tb
      = Inr (bytes_of ?text, \<lparr>rf_data = ?file, rf_pos = length ?pre\<rparr>)"
    unfolding fl
    by (simp add: ds4_agent_kv_read_text_def fread_def Let_def ut H48)
  have trailer: "(if ke_ext_flags hdr AND DS4_KVSTORE_EXT_SESSION_TITLE \<noteq> 0
      then ds4_agent_kv_read_title_trailer e \<lparr>rf_data = ?file, rf_pos = length ?pre\<rparr> hdr
      else Inr ([], \<lparr>rf_data = ?file, rf_pos = length ?pre\<rparr>))
    = Inr (case title of None \<Rightarrow> [] | Some t \<Rightarrow> t, \<lparr>rf_data = ?file, rf_pos = length ?pre\<rparr>)" for e
  proof (cases title)
    case None
    then show ?thesis by (simp add: hdr(6))
  next
    case (Some t)
    have "length ?pre + length payload < 2 ^ 63" using l(3) r(1) tl H48 by simp
    then have "ds4_agent_kv_read_title_trailer e \<lparr>rf_data = ?file, rf_pos = length ?pre\<rparr> hdr
        = Inr (t, \<lparr>rf_data = ?file, rf_pos = length ?pre\<rparr>)"
      unfolding Some fl [unfolded Some] by (rule read_title_trailer_file) (use hdr(2) r(1) ttl Some in simp_all)
    then show ?thesis using Some by (simp add: hdr(6) DS4_KVSTORE_EXT_SESSION_TITLE_def)
  qed
  have rest: "drop (length ?pre) ?file = payload @ title_trailer title" unfolding fl by simp
  have res: "sess_restore en fresh hdr x (payload @ title_trailer title) True = (Inr ts, s')" for x
    using nz r tn(2) by (simp add: sess_restore_def hdr(2,5))
  show ?thesis
    using l(4) f hdr(1) rtx trailer rest res tn(2)
    by (simp add: ds4_sess_load_disk_def fopen_read_def hdr(2-5) del: length_append)
qed

section \<open>The session file is a freezer\<close>

definition err_of :: "('e + 'a) \<times> 'b \<Rightarrow> 'e option \<times> 'b" where
  "err_of r = (case r of (Inl e, b) \<Rightarrow> (Some e, b) | (Inr _, b) \<Rightarrow> (None, b))"

lemma err_of_None: "err_of r = (None, b) \<longleftrightarrow> (\<exists>a. r = (Inr a, b))"
  by (auto simp: err_of_def split: prod.splits sum.splits)

lemma load_stored_file:
  assumes st: "ds4_sess_store_disk en f s tokens0 path title created_at = (Inr (), f')"
    and ok: "disk_ok en path s fresh s'"
  shows "\<exists>ts res. so_tokens (se_api en) s = Some ts
     \<and> ds4_sess_load_disk en f' fresh path True = (Inr (ts, res), s') \<and> lr_tokens res = int (length ts)"
proof -
  obtain ts tmp payload where p: "so_tokens (se_api en) s = Some ts"
      "se_mkstemp en f (path @ ''.tmp.'') = Some tmp"
      "sa_save_payload (se_api en) s = (payload, None)"
      "f' = f(tmp := None, path \<mapsto> session_file en s ts payload title created_at)"
      "length (ds4_kvstore_render_tokens_text (se_eng en) ts) \<le> 0xFFFFFFFF"
      "length (case title of None \<Rightarrow> [] | Some t \<Rightarrow> t) \<le> 0xFFFFFFFF"
      "eng_quant_bits (se_eng en) = 2 \<or> eng_quant_bits (se_eng en) = 4" "sa_payload_bytes (se_api en) s \<noteq> 0"
    using st by (rule store_disk_Inr)
  have "f' path = Some (session_file en s ts payload title created_at)" using p(4) by simp
  from load_session_file [where f = f', OF ok p(1,3,8,7,5,6) this] p(1) show ?thesis by blast
qed

interpretation disk: freezer
  "\<lambda>s f. err_of (ds4_sess_store_disk en f s (so_tokens (se_api en) s) path title created_at)"
  "\<lambda>fresh f. err_of (ds4_sess_load_disk en f fresh path True)"
  "disk_ok en path"
  for en path title created_at
  by unfold_locales (auto simp: err_of_None dest: load_stored_file)

lemma store_disk_cases:
  "(\<exists>e. ds4_sess_store_disk en f s tokens0 path title created_at = (Inl e, f))
   \<or> (\<exists>tmp e. se_mkstemp en f (path @ ''.tmp.'') = Some tmp
        \<and> ds4_sess_store_disk en f s tokens0 path title created_at
            = (Inl e, snd (unlink (se_io en) (f(tmp \<mapsto> [])) tmp)))
   \<or> (\<exists>tmp h body. se_mkstemp en f (path @ ''.tmp.'') = Some tmp
        \<and> ds4_sess_store_disk en f s tokens0 path title created_at = write_session_file en f tmp path h body)"
  by (auto simp: ds4_sess_store_disk_def Let_def simp del: split_paired_All split_paired_Ex
      split: sum.split option.split)

text \<open>A store that fails leaves every file but its temporary one alone.\<close>

lemma store_disk_Inl:
  assumes "ds4_sess_store_disk en f s tokens0 path title created_at = (Inl e, f')"
  shows "f' = f \<or> (\<exists>tmp. se_mkstemp en f (path @ ''.tmp.'') = Some tmp \<and> (\<forall>p. p \<noteq> tmp \<longrightarrow> f' p = f p)
          \<and> (io_unlink_ok (se_io en) tmp \<longrightarrow> f' tmp = None))"
  using store_disk_cases [of en f s tokens0 path title created_at] unfolding assms
proof (elim disjE exE conjE)
  fix tmp h body
  assume tmp: "se_mkstemp en f (path @ ''.tmp.'') = Some tmp"
    and w: "(Inl e, f') = write_session_file en f tmp path h body"
  then show ?thesis using write_session_file_cases [OF w [symmetric]] by auto
qed (auto simp: unlink_def)

text \<open>When the file cannot be renamed to its final path, no store succeeds.\<close>

lemma store_disk_no_rename:
  assumes "\<And>tmp. \<not> io_rename_ok (se_io en) tmp path"
  shows "\<exists>e f'. ds4_sess_store_disk en f s tokens0 path title created_at = (Inl e, f')"
proof -
  have "\<exists>e f'. write_session_file en f tmp path h body = (Inl e, f')" for tmp h body
    using assms by (simp add: write_session_file_def Let_def split: prod.splits)
  then show ?thesis using store_disk_cases [of en f s tokens0 path title created_at] by metis
qed

end
