(* ===== verification/Wrapper.thy ===== *)
theory Wrapper
  imports SessionStore
begin

text \<open>
  The wrapper that shares one engine between the HTTP server and the agent
  (\<^verbatim>\<open>ds4_wrapper_state.c\<close>, \<^verbatim>\<open>ds4_wrapper.h\<close>, \<^verbatim>\<open>ds4_wrapper.c\<close>, the freeze and thaw endpoints of
  \<^verbatim>\<open>ds4_wrapper_http.c\<close> and the session hand-over of \<^verbatim>\<open>ds4_agent_runtime_init\<close>): one live session,
  which belongs to the active mode, while the session of the other mode is frozen in memory or in
  a file. Every function takes the file system and the wrapper and returns them changed. A section
  that holds the mutex is one definition, so that the interleavings of \<open>WrapperRace\<close> are those of
  the threads. Elapsed times are parameters of the environment; the log is left out.
\<close>

section \<open>Modes, states and the wrapper\<close>

datatype wrap_mode = MODE_SERVER | MODE_AGENT

datatype wrap_state = STATE_STARTING | STATE_READY | STATE_BUSY | STATE_SWITCHING | STATE_ERROR | STATE_STOPPING

datatype frozen_kind = FROZEN_NONE | FROZEN_RAM | FROZEN_DISK

definition ds4_wrap_mode_name :: "wrap_mode \<Rightarrow> string" where
  "ds4_wrap_mode_name mode = (case mode of MODE_SERVER \<Rightarrow> ''server'' | MODE_AGENT \<Rightarrow> ''agent'')"

definition ds4_wrap_state_name :: "wrap_state \<Rightarrow> string" where
  "ds4_wrap_state_name st =
     (case st of STATE_STARTING \<Rightarrow> ''starting'' | STATE_READY \<Rightarrow> ''ready'' | STATE_BUSY \<Rightarrow> ''busy''
      | STATE_SWITCHING \<Rightarrow> ''switching'' | STATE_ERROR \<Rightarrow> ''error'' | STATE_STOPPING \<Rightarrow> ''stopping'')"

definition ds4_wrap_frozen_kind_name :: "frozen_kind \<Rightarrow> string" where
  "ds4_wrap_frozen_kind_name k =
     (case k of FROZEN_NONE \<Rightarrow> ''none'' | FROZEN_RAM \<Rightarrow> ''ram'' | FROZEN_DISK \<Rightarrow> ''disk'')"

record wrap_meta =
  sm_title :: string
  sm_disk_path :: string
  sm_ram :: snapshot
  sm_frozen_kind :: frozen_kind
  sm_exists :: bool
  sm_active :: bool
  sm_tokens :: int
  sm_last_freeze_ms :: real
  sm_last_thaw_ms :: real

record 's wrapper =
  w_active_session :: "'s option"
  w_configured_ctx_size :: int
  w_configured_tokens :: int
  w_active_mode :: wrap_mode
  w_state :: wrap_state
  w_busy :: bool
  w_prefer_ram_freeze :: bool
  w_ram_freeze_max_bytes :: u64
  w_server_meta :: wrap_meta
  w_agent_meta :: wrap_meta
  w_total_requests :: u64
  w_rejected_busy :: u64
  w_rejected_wrong_mode :: u64
  w_switch_count :: u64
  w_freeze_count :: u64
  w_thaw_count :: u64
  w_last_freeze_ms :: real
  w_last_thaw_ms :: real
  w_last_switch_ms :: real
  w_agent_rt :: bool
  w_agent_system_prompt :: string
  w_agent_n_predict :: int
  w_agent_allow_browser :: bool
  w_last_error :: string

text \<open>The part of \<^verbatim>\<open>ds4_wrapper_config\<close> that \<^verbatim>\<open>ds4_wrapper_init\<close> reads.\<close>

record wrap_init_config =
  ic_ctx_size :: int
  ic_default_tokens :: int
  ic_startup_mode :: wrap_mode
  ic_ram_freeze_max_mb :: u64
  ic_agent_system_prompt :: string
  ic_allow_browser :: bool

text \<open>What the functions call: the session functions, the elapsed times, and the start of the agent
  worker, which fails or ends with or without a session of its own.\<close>

record 's wrap_env =
  we_sess :: "'s sess_env"
  we_freeze_ms :: real
  we_thaw_ms :: real
  we_switch_ms :: real
  we_agent_worker :: "'s option option"

definition meta_zero :: wrap_meta where
  "meta_zero = \<lparr>sm_title = [], sm_disk_path = [], sm_ram = snapshot_zero, sm_frozen_kind = FROZEN_NONE,
     sm_exists = False, sm_active = False, sm_tokens = 0, sm_last_freeze_ms = 0, sm_last_thaw_ms = 0\<rparr>"

definition meta_of :: "wrap_mode \<Rightarrow> 's wrapper \<Rightarrow> wrap_meta" where
  "meta_of mode w = (case mode of MODE_SERVER \<Rightarrow> w_server_meta w | MODE_AGENT \<Rightarrow> w_agent_meta w)"

definition set_meta :: "wrap_mode \<Rightarrow> wrap_meta \<Rightarrow> 's wrapper \<Rightarrow> 's wrapper" where
  "set_meta mode m w =
     (case mode of MODE_SERVER \<Rightarrow> w\<lparr>w_server_meta := m\<rparr> | MODE_AGENT \<Rightarrow> w\<lparr>w_agent_meta := m\<rparr>)"

section \<open>Starting and closing\<close>

definition ds4_wrapper_init :: "wrap_init_config \<Rightarrow> 's wrapper" where
  "ds4_wrapper_init cfg =
     \<lparr>w_active_session = None, w_configured_ctx_size = ic_ctx_size cfg,
      w_configured_tokens = ic_default_tokens cfg, w_active_mode = ic_startup_mode cfg,
      w_state = STATE_STARTING, w_busy = False,
      w_prefer_ram_freeze = (0 < ic_ram_freeze_max_mb cfg),
      w_ram_freeze_max_bytes = ic_ram_freeze_max_mb cfg * 1024 * 1024,
      w_server_meta = meta_zero, w_agent_meta = meta_zero,
      w_total_requests = 0, w_rejected_busy = 0, w_rejected_wrong_mode = 0,
      w_switch_count = 0, w_freeze_count = 0, w_thaw_count = 0,
      w_last_freeze_ms = 0, w_last_thaw_ms = 0, w_last_switch_ms = 0,
      w_agent_rt = False, w_agent_system_prompt = ic_agent_system_prompt cfg,
      w_agent_n_predict = ic_default_tokens cfg, w_agent_allow_browser = ic_allow_browser cfg,
      w_last_error = []\<rparr>"

definition ds4_wrapper_close :: "'s wrapper \<Rightarrow> 's wrapper" where
  "ds4_wrapper_close w =
     w\<lparr>w_active_session := None,
       w_server_meta := (w_server_meta w)\<lparr>sm_ram := ds4_session_snapshot_free (sm_ram (w_server_meta w))\<rparr>,
       w_agent_meta := (w_agent_meta w)\<lparr>sm_ram := ds4_session_snapshot_free (sm_ram (w_agent_meta w))\<rparr>\<rparr>"

definition session_create :: "'s wrap_env \<Rightarrow> 's wrapper \<Rightarrow> 's option" where
  "session_create en w =
     sa_create (se_api (we_sess en)) (se_eng (we_sess en)) (w_configured_ctx_size w)"

definition ds4_wrapper_startup_session ::
  "'s wrap_env \<Rightarrow> 's wrapper \<Rightarrow> wrap_mode \<Rightarrow> (string + unit) \<times> 's wrapper" where
  "ds4_wrapper_startup_session en w mode =
     (case session_create en w of
        None \<Rightarrow> (Inl (''failed to create ds4_session for '' @ ds4_wrap_mode_name mode @ '' mode''), w)
      | Some s \<Rightarrow>
        let w1 = w\<lparr>w_active_session := Some s, w_active_mode := mode\<rparr>;
            m = (meta_of mode w1)\<lparr>sm_active := True, sm_exists := True, sm_tokens := 0\<rparr>
        in (Inr (), (set_meta mode m w1)\<lparr>w_state := STATE_READY\<rparr>))"

section \<open>Requests\<close>

definition ds4_wrapper_enter_request :: "'s wrapper \<Rightarrow> wrap_mode \<Rightarrow> (int \<times> string) \<times> 's wrapper" where
  "ds4_wrapper_enter_request w required =
     (if w_state w = STATE_SWITCHING then ((409, ''wrapper is switching mode''), w)
      else if w_active_mode w \<noteq> required
      then ((409, ''wrong mode: active='' @ ds4_wrap_mode_name (w_active_mode w)
                  @ '' required='' @ ds4_wrap_mode_name required),
            w\<lparr>w_rejected_wrong_mode := w_rejected_wrong_mode w + 1\<rparr>)
      else if w_busy w then ((409, ''wrapper is busy''), w\<lparr>w_rejected_busy := w_rejected_busy w + 1\<rparr>)
      else if w_active_session w = None then ((503, ''no active session (frozen or not loaded)''), w)
      else ((0, []), w\<lparr>w_busy := True, w_state := STATE_BUSY, w_total_requests := w_total_requests w + 1\<rparr>))"

definition ds4_wrapper_leave_request :: "'s wrapper \<Rightarrow> 's wrapper" where
  "ds4_wrapper_leave_request w =
     (let w1 = w\<lparr>w_busy := False\<rparr> in
      if w_state w1 \<noteq> STATE_ERROR \<and> w_state w1 \<noteq> STATE_STOPPING then w1\<lparr>w_state := STATE_READY\<rparr> else w1)"

section \<open>Freezing and thawing\<close>

definition freeze_done ::
  "'s wrap_env \<Rightarrow> wrap_mode \<Rightarrow> frozen_kind \<Rightarrow> nat \<Rightarrow> wrap_meta \<Rightarrow> 's wrapper \<Rightarrow> 's wrapper" where
  "freeze_done en mode kind n m w =
     (set_meta mode (m\<lparr>sm_frozen_kind := kind, sm_exists := True, sm_active := False, sm_tokens := int n,
                       sm_last_freeze_ms := we_freeze_ms en\<rparr>) w)
     \<lparr>w_last_freeze_ms := we_freeze_ms en, w_freeze_count := w_freeze_count w + 1, w_active_session := None\<rparr>"

definition ds4_wrapper_freeze_active_session ::
  "'s wrap_env \<Rightarrow> fs \<Rightarrow> 's wrapper \<Rightarrow> (string + unit) \<times> fs \<times> 's wrapper" where
  "ds4_wrapper_freeze_active_session en f w =
     (case w_active_session w of None \<Rightarrow> (Inr (), f, w)
      | Some s \<Rightarrow>
        let mode = w_active_mode w; m = meta_of mode w; api = se_api (we_sess en);
            tokens = (case so_tokens api s of None \<Rightarrow> [] | Some ts \<Rightarrow> ts)
        in if tokens = []
           then (Inr (), f, (set_meta mode (m\<lparr>sm_exists := False, sm_frozen_kind := FROZEN_NONE, sm_tokens := 0\<rparr>) w)
                              \<lparr>w_active_session := None\<rparr>)
           else
             let payload_bytes = sa_payload_bytes api s;
                 use_ram = (w_prefer_ram_freeze w \<and> 0 < payload_bytes \<and> payload_bytes \<le> w_ram_freeze_max_bytes w)
             in if use_ram
                then (case ds4_sess_store_ram api (Some s) (sm_ram m) of
                    (Some e, sn) \<Rightarrow> (Inl e, f, set_meta mode (m\<lparr>sm_ram := sn\<rparr>) w)
                  | (None, sn) \<Rightarrow> (Inr (), f, freeze_done en mode FROZEN_RAM (length tokens) (m\<lparr>sm_ram := sn\<rparr>) w))
                else (case ds4_sess_store_disk (we_sess en) f s (Some tokens) (sm_disk_path m) (Some (sm_title m)) 0 of
                    (Inl e, f') \<Rightarrow> (Inl e, f', w)
                  | (Inr _, f') \<Rightarrow> (Inr (), f', freeze_done en mode FROZEN_DISK (length tokens) m w)))"

definition thaw_done :: "'s wrap_env \<Rightarrow> wrap_mode \<Rightarrow> bool \<Rightarrow> 's \<Rightarrow> 's wrapper \<Rightarrow> 's wrapper" where
  "thaw_done en mode mark s w =
     (let m = meta_of mode w in
      (set_meta mode (m\<lparr>sm_active := (mark \<or> sm_active m), sm_last_thaw_ms := we_thaw_ms en\<rparr>) w)
      \<lparr>w_active_session := Some s, w_last_thaw_ms := we_thaw_ms en, w_thaw_count := w_thaw_count w + 1\<rparr>)"

definition ds4_wrapper_thaw_session ::
  "'s wrap_env \<Rightarrow> fs \<Rightarrow> 's wrapper \<Rightarrow> wrap_mode \<Rightarrow> (string + unit) \<times> 's wrapper" where
  "ds4_wrapper_thaw_session en f w target =
     (case session_create en w of None \<Rightarrow> (Inl ''failed to create ds4_session'', w)
      | Some s \<Rightarrow>
        let m = meta_of target w in
        if \<not> sm_exists m \<or> sm_frozen_kind m = FROZEN_NONE then (Inr (), thaw_done en target False s w)
        else if sm_frozen_kind m = FROZEN_RAM
        then (case ds4_sess_load_ram (se_api (we_sess en)) s (sm_ram m) of
                (Some e, _) \<Rightarrow> (Inl e, w)
              | (None, s1) \<Rightarrow> (Inr (), thaw_done en target True s1 w))
        else (case ds4_sess_load_disk (we_sess en) f s (sm_disk_path m) True of
                (Inl e, _) \<Rightarrow> (Inl e, w)
              | (Inr _, s1) \<Rightarrow> (Inr (), thaw_done en target True s1 w)))"

section \<open>Switching modes\<close>

text \<open>The two critical sections of \<^verbatim>\<open>ds4_wrapper_switch_mode\<close> and the unlocked part between them. The
  first waits until no request runs; \<open>None\<close> is that wait.\<close>

datatype switch_entry = AlreadyThere | SwitchFrom wrap_mode

definition switch_begin :: "'s wrapper \<Rightarrow> wrap_mode \<Rightarrow> (switch_entry \<times> 's wrapper) option" where
  "switch_begin w target =
     (if w_busy w then None
      else if w_active_mode w = target then Some (AlreadyThere, w)
      else Some (SwitchFrom (w_active_mode w), w\<lparr>w_state := STATE_SWITCHING\<rparr>))"

definition switch_failed :: "'s wrapper \<Rightarrow> string \<Rightarrow> 's wrapper" where
  "switch_failed w e = w\<lparr>w_state := STATE_ERROR, w_last_error := take 255 e\<rparr>"

definition switch_end :: "'s wrap_env \<Rightarrow> 's wrapper \<Rightarrow> wrap_mode \<Rightarrow> 's wrapper" where
  "switch_end en w target =
     w\<lparr>w_active_mode := target,
       w_server_meta := (w_server_meta w)\<lparr>sm_active := (target = MODE_SERVER)\<rparr>,
       w_agent_meta := (w_agent_meta w)\<lparr>sm_active := (target = MODE_AGENT)\<rparr>,
       w_state := STATE_READY, w_switch_count := w_switch_count w + 1, w_last_switch_ms := we_switch_ms en\<rparr>"

definition switch_work ::
  "'s wrap_env \<Rightarrow> fs \<Rightarrow> 's wrapper \<Rightarrow> wrap_mode \<Rightarrow> (int \<times> string) \<times> fs \<times> 's wrapper" where
  "switch_work en f w target =
     (case ds4_wrapper_freeze_active_session en f w of
        (Inl e, f1, w1) \<Rightarrow> ((500, e), f1, switch_failed w1 e)
      | (Inr _, f1, w1) \<Rightarrow>
        (case ds4_wrapper_thaw_session en f1 w1 target of
           (Inl e, w2) \<Rightarrow> ((500, e), f1, switch_failed w2 e)
         | (Inr _, w2) \<Rightarrow> ((0, []), f1, switch_end en w2 target)))"

definition ds4_wrapper_switch_mode ::
  "'s wrap_env \<Rightarrow> fs \<Rightarrow> 's wrapper \<Rightarrow> wrap_mode \<Rightarrow> ((int \<times> string) \<times> fs \<times> 's wrapper) option" where
  "ds4_wrapper_switch_mode en f w target =
     (case switch_begin w target of
        None \<Rightarrow> None
      | Some (AlreadyThere, w1) \<Rightarrow> Some ((0, []), f, w1)
      | Some (SwitchFrom _, w1) \<Rightarrow> Some (switch_work en f w1 target))"

section \<open>The freeze and thaw endpoints\<close>

datatype endpoint_entry = Refused int string | Answered string | Proceed wrap_mode

definition freeze_begin :: "'s wrapper \<Rightarrow> endpoint_entry \<times> 's wrapper" where
  "freeze_begin w =
     (if w_busy w then (Refused 409 ''cannot freeze while a request is running'', w)
      else if w_active_session w = None then (Answered ''no active session'', w)
      else (Proceed (w_active_mode w), w\<lparr>w_state := STATE_SWITCHING\<rparr>))"

definition thaw_begin :: "'s wrapper \<Rightarrow> endpoint_entry \<times> 's wrapper" where
  "thaw_begin w =
     (if w_busy w then (Refused 409 ''cannot thaw while a request is running'', w)
      else if w_active_session w \<noteq> None then (Answered ''session already active'', w)
      else (Proceed (w_active_mode w), w\<lparr>w_state := STATE_SWITCHING\<rparr>))"

definition endpoint_end :: "string + unit \<Rightarrow> 's wrapper \<Rightarrow> (int \<times> string) \<times> 's wrapper" where
  "endpoint_end r w =
     (case r of Inl e \<Rightarrow> ((500, e), switch_failed w e) | Inr _ \<Rightarrow> ((200, []), w\<lparr>w_state := STATE_READY\<rparr>))"

definition freeze_endpoint :: "'s wrap_env \<Rightarrow> fs \<Rightarrow> 's wrapper \<Rightarrow> (int \<times> string) \<times> fs \<times> 's wrapper" where
  "freeze_endpoint en f w =
     (case freeze_begin w of
        (Refused c m, w1) \<Rightarrow> ((c, m), f, w1)
      | (Answered m, w1) \<Rightarrow> ((200, m), f, w1)
      | (Proceed _, w1) \<Rightarrow>
        (case ds4_wrapper_freeze_active_session en f w1 of
           (r, f2, w2) \<Rightarrow> (case endpoint_end r w2 of (code, w3) \<Rightarrow> (code, f2, w3))))"

definition thaw_endpoint :: "'s wrap_env \<Rightarrow> fs \<Rightarrow> 's wrapper \<Rightarrow> (int \<times> string) \<times> fs \<times> 's wrapper" where
  "thaw_endpoint en f w =
     (case thaw_begin w of
        (Refused c m, w1) \<Rightarrow> ((c, m), f, w1)
      | (Answered m, w1) \<Rightarrow> ((200, m), f, w1)
      | (Proceed mode, w1) \<Rightarrow>
        (case ds4_wrapper_thaw_session en f w1 mode of
           (r, w2) \<Rightarrow> (case endpoint_end r w2 of (code, w3) \<Rightarrow> (code, f, w3))))"

section \<open>The agent runtime\<close>

text \<open>The hand-over of the session in \<^verbatim>\<open>ds4_agent_runtime_init\<close>: the placeholder session is freed before
  the worker starts, and the session the worker has prepared takes its place.\<close>

definition agent_runtime_session :: "'s wrap_env \<Rightarrow> 's wrapper \<Rightarrow> bool \<times> 's wrapper" where
  "agent_runtime_session en w =
     (let w1 = w\<lparr>w_active_session := None\<rparr> in
      case we_agent_worker en of None \<Rightarrow> (False, w1)
      | Some None \<Rightarrow> (True, w1)
      | Some (Some s) \<Rightarrow>
        let ts = (case so_tokens (se_api (we_sess en)) s of None \<Rightarrow> [] | Some t \<Rightarrow> t) in
        (True, w1\<lparr>w_active_session := Some s,
                  w_agent_meta := (w_agent_meta w1)\<lparr>sm_exists := True, sm_active := True,
                                                    sm_tokens := int (length ts)\<rparr>\<rparr>))"

definition ds4_wrapper_ensure_agent_rt :: "'s wrap_env \<Rightarrow> 's wrapper \<Rightarrow> (string + unit) \<times> 's wrapper" where
  "ds4_wrapper_ensure_agent_rt en w =
     (if w_agent_rt w then (Inr (), w)
      else (case agent_runtime_session en w of
          (False, w1) \<Rightarrow> (Inl ''failed to initialize agent runtime'', w1)
        | (True, w1) \<Rightarrow> (Inr (), w1\<lparr>w_agent_rt := True\<rparr>)))"

record command_result =
  cr_ok :: bool
  cr_http_status :: int
  cr_message :: string
  cr_switch_to_server :: bool

text \<open>\<open>run\<close> is \<^verbatim>\<open>ds4_agent_runtime_command\<close>: its return code, its result and the wrapper it leaves.\<close>

definition execute_native_agent_command ::
  "'s wrap_env \<Rightarrow> fs \<Rightarrow> 's wrapper \<Rightarrow> ('s wrapper \<Rightarrow> int \<times> command_result \<times> 's wrapper)
     \<Rightarrow> (int \<times> command_result \<times> fs \<times> 's wrapper) option" where
  "execute_native_agent_command en f w run =
     (case ds4_wrapper_enter_request w MODE_AGENT of
        ((code, err), w1) \<Rightarrow>
          if code \<noteq> 0
          then Some (-1, \<lparr>cr_ok = False, cr_http_status = code,
                 cr_message = (if err \<noteq> [] then err else ''failed to enter agent mode''),
                 cr_switch_to_server = False\<rparr>, f, w1)
          else (case ds4_wrapper_ensure_agent_rt en w1 of
              (Inl e, w2) \<Rightarrow>
                Some (-1, \<lparr>cr_ok = False, cr_http_status = 500,
                  cr_message = (if e \<noteq> [] then e else ''failed to initialize agent runtime''),
                  cr_switch_to_server = False\<rparr>, f, ds4_wrapper_leave_request w2)
            | (Inr _, w2) \<Rightarrow>
              (case run w2 of (rc, res, w3) \<Rightarrow>
                 if rc = 0 \<and> cr_switch_to_server res
                 then (case ds4_wrapper_switch_mode en f (ds4_wrapper_leave_request w3) MODE_SERVER of
                     None \<Rightarrow> None
                   | Some ((sc, e), f1, w4) \<Rightarrow>
                     if sc \<noteq> 0
                     then Some (-1, res\<lparr>cr_ok := False, cr_http_status := sc,
                            cr_message := (if e \<noteq> [] then e else ''failed to switch to server mode''),
                            cr_switch_to_server := False\<rparr>, f1, w4)
                     else Some (rc, res, f1, w4))
                 else Some (rc, res, f, ds4_wrapper_leave_request w3))))"

section \<open>What the operations leave alone\<close>

named_theorems wrapper_defs \<open>unfolding rules of the wrapper's operations\<close>

lemmas [wrapper_defs] =
  ds4_wrapper_enter_request_def ds4_wrapper_leave_request_def freeze_done_def thaw_done_def
  switch_begin_def switch_failed_def switch_end_def freeze_begin_def thaw_begin_def endpoint_end_def
  agent_runtime_session_def ds4_wrapper_ensure_agent_rt_def set_meta_def meta_of_def Let_def

lemma set_meta_simps [simp]:
  "meta_of mode (set_meta mode m w) = m"
  "mode \<noteq> mode' \<Longrightarrow> meta_of mode' (set_meta mode m w) = meta_of mode' w"
  "w_active_session (set_meta mode m w) = w_active_session w"
  "w_active_mode (set_meta mode m w) = w_active_mode w"
  "w_state (set_meta mode m w) = w_state w" "w_busy (set_meta mode m w) = w_busy w"
  "w_configured_ctx_size (set_meta mode m w) = w_configured_ctx_size w"
  "w_prefer_ram_freeze (set_meta mode m w) = w_prefer_ram_freeze w"
  "w_ram_freeze_max_bytes (set_meta mode m w) = w_ram_freeze_max_bytes w"
  by (auto simp: set_meta_def meta_of_def split: wrap_mode.splits)

lemma meta_of_update [simp]:
  "meta_of mode (w\<lparr>w_active_session := x\<rparr>) = meta_of mode w"
  "meta_of mode (w\<lparr>w_state := st\<rparr>) = meta_of mode w"
  "meta_of mode (w\<lparr>w_last_error := e\<rparr>) = meta_of mode w"
  "meta_of mode (w\<lparr>w_last_freeze_ms := r\<rparr>) = meta_of mode w"
  "meta_of mode (w\<lparr>w_freeze_count := n\<rparr>) = meta_of mode w"
  "meta_of mode (w\<lparr>w_last_thaw_ms := r\<rparr>) = meta_of mode w"
  "meta_of mode (w\<lparr>w_thaw_count := n\<rparr>) = meta_of mode w"
  "meta_of mode (w\<lparr>w_busy := b\<rparr>) = meta_of mode w"
  by (auto simp: meta_of_def split: wrap_mode.splits)

text \<open>Freezing touches neither the mode, the state nor the requests, and only the record of the
  active mode.\<close>

lemma freeze_frame:
  assumes "ds4_wrapper_freeze_active_session en f w = (r, f', w')"
  shows "w_active_mode w' = w_active_mode w" "w_state w' = w_state w" "w_busy w' = w_busy w"
    "w_configured_ctx_size w' = w_configured_ctx_size w"
    "w_prefer_ram_freeze w' = w_prefer_ram_freeze w" "w_ram_freeze_max_bytes w' = w_ram_freeze_max_bytes w"
    "mode \<noteq> w_active_mode w \<Longrightarrow> meta_of mode w' = meta_of mode w"
    "sm_disk_path (meta_of m w') = sm_disk_path (meta_of m w)"
    "sm_title (meta_of m w') = sm_title (meta_of m w)"
  using assms
  by (auto simp: ds4_wrapper_freeze_active_session_def freeze_done_def Let_def
      split: option.splits if_splits prod.splits sum.splits; cases "m = w_active_mode w"; auto)+

lemma thaw_frame:
  assumes "ds4_wrapper_thaw_session en f w target = (r, w')"
  shows "w_active_mode w' = w_active_mode w" "w_state w' = w_state w" "w_busy w' = w_busy w"
    "w_configured_ctx_size w' = w_configured_ctx_size w"
    "w_prefer_ram_freeze w' = w_prefer_ram_freeze w" "w_ram_freeze_max_bytes w' = w_ram_freeze_max_bytes w"
    "mode \<noteq> target \<Longrightarrow> meta_of mode w' = meta_of mode w"
    "sm_disk_path (meta_of m w') = sm_disk_path (meta_of m w)"
    "sm_title (meta_of m w') = sm_title (meta_of m w)"
  using assms
  by (auto simp: ds4_wrapper_thaw_session_def thaw_done_def Let_def
      split: option.splits if_splits prod.splits sum.splits; cases "m = target"; auto)+

lemma freeze_Inl:
  assumes "ds4_wrapper_freeze_active_session en f w = (Inl e, f', w')"
  shows "w_active_session w' = w_active_session w \<and> w_active_session w \<noteq> None
     \<and> (w' = w \<or> (\<exists>sn. w' = set_meta (w_active_mode w) ((meta_of (w_active_mode w) w)\<lparr>sm_ram := sn\<rparr>) w))"
  using assms
  by (auto simp: ds4_wrapper_freeze_active_session_def freeze_done_def Let_def
      split: option.splits if_splits prod.splits sum.splits)

lemma freeze_Inr: "ds4_wrapper_freeze_active_session en f w = (Inr u, f', w') \<Longrightarrow> w_active_session w' = None"
  by (auto simp: ds4_wrapper_freeze_active_session_def freeze_done_def Let_def
      split: option.splits if_splits prod.splits sum.splits)

lemma thaw_Inr: "ds4_wrapper_thaw_session en f w target = (Inr u, w') \<Longrightarrow> w_active_session w' \<noteq> None"
  by (auto simp: ds4_wrapper_thaw_session_def thaw_done_def Let_def
      split: option.splits if_splits prod.splits sum.splits)

lemma thaw_Inl: "ds4_wrapper_thaw_session en f w target = (Inl e, w') \<Longrightarrow> w' = w"
  by (auto simp: ds4_wrapper_thaw_session_def Let_def split: option.splits if_splits prod.splits sum.splits)

end
