(* ===== verification/WrapperRace.thy ===== *)
theory WrapperRace
  imports Wrapper
begin

text \<open>
  The threads of the wrapper: one per HTTP connection (\<^verbatim>\<open>client_thread_main\<close> of
  \<^verbatim>\<open>ds4_wrapper_http.c\<close>), all working on one \<^verbatim>\<open>ds4_wrapper\<close>. A thread is at one of the points
  between its critical sections; a step of the system is one critical section, one unlocked call to
  freeze or thaw, or some work of the thread that has entered a request. The steps are those of
  \<open>Wrapper\<close>, so the relation adds only the interleaving.
\<close>

section \<open>Threads and steps\<close>

datatype wpc =
    Idle
  | InRequest
  | WantSwitch wrap_mode
  | SwitchFreeze wrap_mode
  | SwitchThaw wrap_mode
  | SwitchEnd wrap_mode
  | SwitchErr string
  | EpFreeze
  | EpThaw wrap_mode
  | EpEnd "string + unit"

record 's config =
  cf_fs :: fs
  cf_w :: "'s wrapper"
  cf_pc :: "nat \<Rightarrow> wpc"

definition goto :: "'s config \<Rightarrow> nat \<Rightarrow> wpc \<Rightarrow> fs \<Rightarrow> 's wrapper \<Rightarrow> 's config" where
  "goto c t pc f w = \<lparr>cf_fs = f, cf_w = w, cf_pc = (cf_pc c)(t := pc)\<rparr>"

inductive wstep :: "'s wrap_env \<Rightarrow> nat \<Rightarrow> 's config \<Rightarrow> 's config \<Rightarrow> bool" for en t where
  Enter: "cf_pc c t = Idle \<Longrightarrow> ds4_wrapper_enter_request (cf_w c) mode = ((0, e), w)
    \<Longrightarrow> wstep en t c (goto c t InRequest (cf_fs c) w)"
| Reject: "cf_pc c t = Idle \<Longrightarrow> ds4_wrapper_enter_request (cf_w c) mode = ((code, e), w) \<Longrightarrow> code \<noteq> 0
    \<Longrightarrow> wstep en t c (goto c t Idle (cf_fs c) w)"
| EnsureRt: "cf_pc c t = InRequest \<Longrightarrow> ds4_wrapper_ensure_agent_rt en (cf_w c) = (r, w)
    \<Longrightarrow> wstep en t c (goto c t InRequest (cf_fs c) w)"
| Work: "cf_pc c t = InRequest
    \<Longrightarrow> wstep en t c (goto c t InRequest (cf_fs c) ((cf_w c)\<lparr>w_active_session := s\<rparr>))"
| Leave: "cf_pc c t = InRequest
    \<Longrightarrow> wstep en t c (goto c t Idle (cf_fs c) (ds4_wrapper_leave_request (cf_w c)))"
| SwitchCall: "cf_pc c t = Idle \<Longrightarrow> wstep en t c (goto c t (WantSwitch target) (cf_fs c) (cf_w c))"
| SwitchSkip: "cf_pc c t = WantSwitch target \<Longrightarrow> switch_begin (cf_w c) target = Some (AlreadyThere, w)
    \<Longrightarrow> wstep en t c (goto c t Idle (cf_fs c) w)"
| SwitchBegin: "cf_pc c t = WantSwitch target \<Longrightarrow> switch_begin (cf_w c) target = Some (SwitchFrom p, w)
    \<Longrightarrow> wstep en t c (goto c t (SwitchFreeze target) (cf_fs c) w)"
| SwFreezeOk: "cf_pc c t = SwitchFreeze target
    \<Longrightarrow> ds4_wrapper_freeze_active_session en (cf_fs c) (cf_w c) = (Inr u, f, w)
    \<Longrightarrow> wstep en t c (goto c t (SwitchThaw target) f w)"
| SwFreezeErr: "cf_pc c t = SwitchFreeze target
    \<Longrightarrow> ds4_wrapper_freeze_active_session en (cf_fs c) (cf_w c) = (Inl e, f, w)
    \<Longrightarrow> wstep en t c (goto c t (SwitchErr e) f w)"
| SwThawOk: "cf_pc c t = SwitchThaw target
    \<Longrightarrow> ds4_wrapper_thaw_session en (cf_fs c) (cf_w c) target = (Inr u, w)
    \<Longrightarrow> wstep en t c (goto c t (SwitchEnd target) (cf_fs c) w)"
| SwThawErr: "cf_pc c t = SwitchThaw target
    \<Longrightarrow> ds4_wrapper_thaw_session en (cf_fs c) (cf_w c) target = (Inl e, w)
    \<Longrightarrow> wstep en t c (goto c t (SwitchErr e) (cf_fs c) w)"
| SwErr: "cf_pc c t = SwitchErr e
    \<Longrightarrow> wstep en t c (goto c t Idle (cf_fs c) (switch_failed (cf_w c) e))"
| SwEnd: "cf_pc c t = SwitchEnd target
    \<Longrightarrow> wstep en t c (goto c t Idle (cf_fs c) (switch_end en (cf_w c) target))"
| EpFreezeBegin: "cf_pc c t = Idle \<Longrightarrow> freeze_begin (cf_w c) = (Proceed m, w)
    \<Longrightarrow> wstep en t c (goto c t EpFreeze (cf_fs c) w)"
| EpFreezeRun: "cf_pc c t = EpFreeze
    \<Longrightarrow> ds4_wrapper_freeze_active_session en (cf_fs c) (cf_w c) = (r, f, w)
    \<Longrightarrow> wstep en t c (goto c t (EpEnd r) f w)"
| EpThawBegin: "cf_pc c t = Idle \<Longrightarrow> thaw_begin (cf_w c) = (Proceed m, w)
    \<Longrightarrow> wstep en t c (goto c t (EpThaw m) (cf_fs c) w)"
| EpThawRun: "cf_pc c t = EpThaw m \<Longrightarrow> ds4_wrapper_thaw_session en (cf_fs c) (cf_w c) m = (r, w)
    \<Longrightarrow> wstep en t c (goto c t (EpEnd r) (cf_fs c) w)"
| EpFinish: "cf_pc c t = EpEnd r \<Longrightarrow> endpoint_end r (cf_w c) = (code, w)
    \<Longrightarrow> wstep en t c (goto c t Idle (cf_fs c) w)"

inductive_cases wstepE: "wstep en t c c'"

lemma goto_simps [simp]:
  "cf_fs (goto c t pc f w) = f" "cf_w (goto c t pc f w) = w"
  "cf_pc (goto c t pc f w) = (cf_pc c)(t := pc)"
  by (simp_all add: goto_def)

section \<open>Reachable configurations\<close>

text \<open>The main thread initialises the wrapper and starts the first session before it starts the
  HTTP server.\<close>

definition started :: "'s wrap_env \<Rightarrow> wrap_init_config \<Rightarrow> fs \<Rightarrow> 's config \<Rightarrow> bool" where
  "started en cfg f c \<longleftrightarrow>
     (\<exists>w. ds4_wrapper_startup_session en (ds4_wrapper_init cfg) (ic_startup_mode cfg) = (Inr (), w)
        \<and> c = \<lparr>cf_fs = f, cf_w = w, cf_pc = (\<lambda>_. Idle)\<rparr>)"

inductive wreach :: "'s wrap_env \<Rightarrow> wrap_init_config \<Rightarrow> fs \<Rightarrow> 's config \<Rightarrow> bool" for en cfg f where
  Start: "started en cfg f c \<Longrightarrow> wreach en cfg f c"
| Step: "wreach en cfg f c \<Longrightarrow> wstep en t c c' \<Longrightarrow> wreach en cfg f c'"

text \<open>A thread is between the two critical sections of a switch, a freeze or a thaw.\<close>

fun switching :: "wpc \<Rightarrow> bool" where
  "switching (SwitchFreeze _) = True"
| "switching (SwitchThaw _) = True"
| "switching (SwitchEnd _) = True"
| "switching (SwitchErr _) = True"
| "switching EpFreeze = True"
| "switching (EpThaw _) = True"
| "switching (EpEnd _) = True"
| "switching _ = False"

definition one_switcher :: "'s config \<Rightarrow> bool" where
  "one_switcher c \<longleftrightarrow> (\<forall>t u. switching (cf_pc c t) \<longrightarrow> switching (cf_pc c u) \<longrightarrow> t = u)"

inductive sreach :: "'s wrap_env \<Rightarrow> wrap_init_config \<Rightarrow> fs \<Rightarrow> 's config \<Rightarrow> bool" for en cfg f where
  SStart: "started en cfg f c \<Longrightarrow> sreach en cfg f c"
| SStep: "sreach en cfg f c \<Longrightarrow> wstep en t c c' \<Longrightarrow> one_switcher c' \<Longrightarrow> sreach en cfg f c'"

section \<open>At most one request\<close>

definition mutex_inv :: "'s config \<Rightarrow> bool" where
  "mutex_inv c \<longleftrightarrow> (w_busy (cf_w c) \<longleftrightarrow> (\<exists>t. cf_pc c t = InRequest))
     \<and> (\<forall>t u. cf_pc c t = InRequest \<longrightarrow> cf_pc c u = InRequest \<longrightarrow> t = u)"

lemma startedE:
  assumes "started en cfg f c"
  obtains s where "session_create en (ds4_wrapper_init cfg) = Some s" "cf_fs c = f" "cf_pc c = (\<lambda>_. Idle)"
    "w_active_session (cf_w c) = Some s" "w_active_mode (cf_w c) = ic_startup_mode cfg"
    "w_state (cf_w c) = STATE_READY" "\<not> w_busy (cf_w c)"
    "sm_disk_path (meta_of m (cf_w c)) = []" "sm_title (meta_of m (cf_w c)) = []"
  using assms
  by (auto simp: started_def ds4_wrapper_startup_session_def ds4_wrapper_init_def meta_zero_def Let_def
      meta_of_def set_meta_def split: option.splits wrap_mode.splits)

lemma enter_Some:
  assumes "ds4_wrapper_enter_request w mode = ((0, e), w')"
  shows "\<not> w_busy w \<and> w_busy w' \<and> w_state w \<noteq> STATE_SWITCHING \<and> w_active_session w' = w_active_session w
     \<and> w_active_session w \<noteq> None \<and> w_active_mode w = mode"
  using assms by (auto simp: ds4_wrapper_enter_request_def split: if_splits)

lemma enter_rejected:
  assumes "ds4_wrapper_enter_request w mode = ((code, e), w')" "code \<noteq> 0"
  shows "w_busy w' = w_busy w \<and> w_state w' = w_state w \<and> w_active_session w' = w_active_session w"
  using assms by (auto simp: ds4_wrapper_enter_request_def split: if_splits)

lemma busy_frame [simp]:
  "w_busy (switch_failed w e) = w_busy w" "w_busy (switch_end en w target) = w_busy w"
  "\<not> w_busy (ds4_wrapper_leave_request w)"
  by (simp_all add: wrapper_defs)

lemma busy_calls:
  "switch_begin w target = Some (r, w1) \<Longrightarrow> w_busy w1 = w_busy w \<and> \<not> w_busy w"
  "freeze_begin w = (Proceed m, w1) \<Longrightarrow> w_busy w1 = w_busy w \<and> \<not> w_busy w"
  "thaw_begin w = (Proceed m, w1) \<Longrightarrow> w_busy w1 = w_busy w \<and> \<not> w_busy w"
  "endpoint_end x w = (code, w1) \<Longrightarrow> w_busy w1 = w_busy w"
  "ds4_wrapper_ensure_agent_rt en w = (y, w1) \<Longrightarrow> w_busy w1 = w_busy w"
  by (auto simp: wrapper_defs split: if_splits sum.splits option.splits)

text \<open>A step is one of four: it enters a request, leaves it, works inside it, or concerns none.\<close>

lemma wstep_requests:
  assumes "wstep en t c c'"
  shows "(\<forall>u. u \<noteq> t \<longrightarrow> cf_pc c' u = cf_pc c u)
     \<and> ((cf_pc c t \<noteq> InRequest \<and> cf_pc c' t = InRequest \<and> \<not> w_busy (cf_w c) \<and> w_busy (cf_w c'))
        \<or> (cf_pc c t = InRequest \<and> cf_pc c' t = Idle \<and> \<not> w_busy (cf_w c'))
        \<or> ((cf_pc c t = InRequest) = (cf_pc c' t = InRequest) \<and> w_busy (cf_w c') = w_busy (cf_w c)))"
  using assms
  by (cases rule: wstepE) (auto dest: enter_Some enter_rejected busy_calls freeze_frame(3) thaw_frame(3))

lemma mutex_holder:
  "mutex_inv c \<longleftrightarrow> (\<exists>r. (\<forall>u. cf_pc c u = InRequest \<longleftrightarrow> r = Some u) \<and> w_busy (cf_w c) = (r \<noteq> None))"
proof
  assume inv: "mutex_inv c"
  show "\<exists>r. (\<forall>u. cf_pc c u = InRequest \<longleftrightarrow> r = Some u) \<and> w_busy (cf_w c) = (r \<noteq> None)"
  proof (cases "\<exists>t. cf_pc c t = InRequest")
    case True
    then obtain t where "cf_pc c t = InRequest" by blast
    then show ?thesis using inv by (intro exI [of _ "Some t"]) (auto simp: mutex_inv_def)
  qed (use inv in \<open>auto simp: mutex_inv_def\<close>)
qed (auto simp: mutex_inv_def)

lemma mutex_step:
  assumes st: "wstep en t c c'" and inv: "mutex_inv c"
  shows "mutex_inv c'"
proof -
  have other: "\<forall>u. u \<noteq> t \<longrightarrow> cf_pc c' u = cf_pc c u" using wstep_requests [OF st] by blast
  obtain r where r: "\<forall>u. cf_pc c u = InRequest \<longleftrightarrow> r = Some u" "w_busy (cf_w c) = (r \<noteq> None)"
    using inv by (auto simp: mutex_holder)
  consider "r = None" "cf_pc c' t = InRequest" "w_busy (cf_w c')"
    | "r = Some t" "cf_pc c' t = Idle" "\<not> w_busy (cf_w c')"
    | "(r = Some t) = (cf_pc c' t = InRequest)" "w_busy (cf_w c') = (r \<noteq> None)"
    using wstep_requests [OF st, THEN conjunct2] r(1) [rule_format, of t] r(2) by (elim disjE) auto
  then show ?thesis
  proof cases
    case 1
    have "cf_pc c' u = InRequest \<longleftrightarrow> Some t = Some u" for u
      using other r(1) 1(1,2) by (cases "u = t") auto
    then show ?thesis using 1(3) unfolding mutex_holder by (intro exI [of _ "Some t"]) simp
  next
    case 2
    have "cf_pc c' u \<noteq> InRequest" for u
      using other r(1) 2(1,2) by (cases "u = t") auto
    then show ?thesis using 2(3) unfolding mutex_holder by (intro exI [of _ None]) simp
  next
    case 3
    have "cf_pc c' u = InRequest \<longleftrightarrow> r = Some u" for u
      using other r(1) 3(1) by (cases "u = t") auto
    then show ?thesis using 3(2) unfolding mutex_holder by (intro exI [of _ r]) blast
  qed
qed

lemma mutex_reach: "wreach en cfg f c \<Longrightarrow> mutex_inv c"
proof (induction rule: wreach.induct)
  case (Start c)
  then show ?case by (auto simp: mutex_inv_def elim!: startedE)
next
  case (Step c t c')
  then show ?case using mutex_step by blast
qed

section \<open>One switch at a time\<close>

definition region_inv :: "'s config \<Rightarrow> bool" where
  "region_inv c \<longleftrightarrow>
     ((\<exists>t. switching (cf_pc c t)) \<longrightarrow> \<not> w_busy (cf_w c) \<and> w_state (cf_w c) = STATE_SWITCHING)"

lemma call_states:
  "switch_begin w target = Some (SwitchFrom p, w1) \<Longrightarrow> \<not> w_busy w1 \<and> w_state w1 = STATE_SWITCHING"
  "switch_begin w target = Some (AlreadyThere, w1) \<Longrightarrow> w_busy w1 = w_busy w \<and> w_state w1 = w_state w"
  "freeze_begin w = (Proceed m, w1) \<Longrightarrow> \<not> w_busy w1 \<and> w_state w1 = STATE_SWITCHING"
  "thaw_begin w = (Proceed m, w1) \<Longrightarrow> \<not> w_busy w1 \<and> w_state w1 = STATE_SWITCHING"
  "ds4_wrapper_freeze_active_session en f w = (r, f', w1) \<Longrightarrow> w_busy w1 = w_busy w \<and> w_state w1 = w_state w"
  "ds4_wrapper_thaw_session en f w target = (r, w1) \<Longrightarrow> w_busy w1 = w_busy w \<and> w_state w1 = w_state w"
  using freeze_frame(2,3) [of en f w r f' w1] thaw_frame(2,3) [of en f w target r w1]
  by (auto simp: wrapper_defs split: if_splits)

text \<open>What a step does to the set of switching threads and to the state they rely on.\<close>

lemma wstep_switching:
  assumes "wstep en t c c'"
  shows "(\<forall>u. u \<noteq> t \<longrightarrow> cf_pc c' u = cf_pc c u)
     \<and> ((switching (cf_pc c t) \<and> \<not> switching (cf_pc c' t))
        \<or> (cf_pc c t = InRequest \<and> \<not> switching (cf_pc c' t))
        \<or> (\<not> switching (cf_pc c' t) \<and> w_state (cf_w c) \<noteq> STATE_SWITCHING)
        \<or> (switching (cf_pc c' t) \<longrightarrow> switching (cf_pc c t)) \<and> w_busy (cf_w c') = w_busy (cf_w c)
              \<and> w_state (cf_w c') = w_state (cf_w c)
        \<or> \<not> w_busy (cf_w c') \<and> w_state (cf_w c') = STATE_SWITCHING)"
  by (rule wstepE [OF assms];
      (drule enter_Some | drule (1) enter_rejected | drule call_states(1) | drule call_states(2)
        | drule call_states(3) | drule call_states(4) | drule call_states(5) | drule call_states(6))?;
      simp)

lemma region_step:
  assumes st: "wstep en t c c'" and m: "mutex_inv c" and o: "one_switcher c" and inv: "region_inv c"
  shows "region_inv c'"
proof -
  have other: "cf_pc c' u = cf_pc c u" if "u \<noteq> t" for u
    using wstep_switching [OF st] that by blast
  have none: "region_inv c'" if "\<not> switching (cf_pc c' t)" "\<And>u. u \<noteq> t \<Longrightarrow> \<not> switching (cf_pc c u)"
  proof -
    have "\<not> switching (cf_pc c' u)" for u using that other by (cases "u = t") auto
    then show ?thesis by (simp add: region_inv_def)
  qed
  show ?thesis
    using wstep_switching [OF st, THEN conjunct2]
  proof (elim disjE conjE)
    assume "switching (cf_pc c t)" "\<not> switching (cf_pc c' t)"
    then show ?thesis using o by (intro none) (auto simp: one_switcher_def)
  next
    assume "cf_pc c t = InRequest" "\<not> switching (cf_pc c' t)"
    moreover then have "w_busy (cf_w c)" using m by (auto simp: mutex_inv_def)
    ultimately show ?thesis using inv by (intro none) (auto simp: region_inv_def)
  next
    assume "\<not> switching (cf_pc c' t)" "w_state (cf_w c) \<noteq> STATE_SWITCHING"
    then show ?thesis using inv by (intro none) (auto simp: region_inv_def)
  next
    assume *: "switching (cf_pc c' t) \<longrightarrow> switching (cf_pc c t)" "w_busy (cf_w c') = w_busy (cf_w c)"
      "w_state (cf_w c') = w_state (cf_w c)"
    have "switching (cf_pc c' u) \<Longrightarrow> switching (cf_pc c u)" for u
      using *(1) other by (cases "u = t") auto
    then show ?thesis using inv *(2,3) by (auto simp: region_inv_def)
  next
    assume "\<not> w_busy (cf_w c')" "w_state (cf_w c') = STATE_SWITCHING"
    then show ?thesis by (simp add: region_inv_def)
  qed
qed

lemma sreach_wreach: "sreach en cfg f c \<Longrightarrow> wreach en cfg f c"
  by (induction rule: sreach.induct) (auto intro: wreach.intros)

lemma sreach_inv: "sreach en cfg f c \<Longrightarrow> mutex_inv c \<and> one_switcher c \<and> region_inv c"
proof (induction rule: sreach.induct)
  case (SStart c)
  then show ?case by (auto simp: mutex_inv_def one_switcher_def region_inv_def elim!: startedE)
next
  case (SStep c t c')
  then show ?case using mutex_step region_step by blast
qed

text \<open>Who may replace the session: a thread inside a request, or one that is switching.\<close>

lemma calls_session:
  "switch_begin w target = Some (r, w1) \<Longrightarrow> w_active_session w1 = w_active_session w"
  "freeze_begin w = (x, w1) \<Longrightarrow> w_active_session w1 = w_active_session w"
  "thaw_begin w = (x, w1) \<Longrightarrow> w_active_session w1 = w_active_session w"
  "endpoint_end y w = (z, w1) \<Longrightarrow> w_active_session w1 = w_active_session w"
  "w_active_session (switch_failed w e) = w_active_session w"
  "w_active_session (switch_end en w m) = w_active_session w"
  by (auto simp: wrapper_defs split: if_splits sum.splits)

lemma wstep_session:
  assumes "wstep en t c c'" "w_active_session (cf_w c') \<noteq> w_active_session (cf_w c)"
  shows "cf_pc c t = InRequest \<or> switching (cf_pc c t)"
  using assms
  by (cases rule: wstepE) (auto simp: calls_session(5,6) dest: enter_Some enter_rejected calls_session(1-4))

end
