(* ===== verification/WrapperProps.thy ===== *)
theory WrapperProps
  imports WrapperRace KvTheorems
begin

text \<open>
  What the wrapper and the session files guarantee, with the lemmas that connect a freeze with the
  thaw that undoes it, and a sample environment for the witnesses: a session is its list of tokens,
  and \<^verbatim>\<open>rename\<close> refuses an empty name as POSIX says.
\<close>

section \<open>A sample environment\<close>

definition sample_api :: "int list session_api" where
  "sample_api =
     \<lparr>so_tokens = Some, so_ctx = (\<lambda>_. 4096), so_stage_payload = (\<lambda>s. Some (map of_int s)),
      so_load_payload = (\<lambda>s bs n. (True, map uint (take (unat n) bs))), so_invalidate = (\<lambda>_. []),
      sa_create = (\<lambda>_ _. Some []), sa_payload_bytes = (\<lambda>s. of_nat (length s)),
      sa_distributed = (\<lambda>_. False), sa_save_payload = (\<lambda>s. (map of_int s, None)),
      sa_load_error = (\<lambda>_ _ _. []), sa_sync = (\<lambda>_ ts. (None, ts)), sa_uninit = (\<lambda>n. replicate n 0),
      sa_realloc_ok = (\<lambda>_. True), sa_memopen_ok = (\<lambda>_. True)\<rparr>"

definition sample_sess_env :: "int list sess_env" where
  "sample_sess_env =
     \<lparr>se_io = (good_io [])\<lparr>io_rename_ok := (\<lambda>_ p. p \<noteq> [])\<rparr>, se_eng = char_engine, se_api = sample_api,
      se_mkstemp = (\<lambda>f p. if f (p @ ''abcdef'') = None then Some (p @ ''abcdef'') else None),
      se_fdopen_ok = True, se_fclose_ok = True, se_strerror = (\<lambda>s. s), se_write_errno = None\<rparr>"

definition sample_env :: "int list wrap_env" where
  "sample_env = \<lparr>we_sess = sample_sess_env, we_freeze_ms = 1, we_thaw_ms = 1, we_switch_ms = 2,
     we_agent_worker = Some (Some [])\<rparr>"

definition sample_cfg :: "u64 \<Rightarrow> wrap_init_config" where
  "sample_cfg mb = \<lparr>ic_ctx_size = 4096, ic_default_tokens = 100, ic_startup_mode = MODE_SERVER,
     ic_ram_freeze_max_mb = mb, ic_agent_system_prompt = [], ic_allow_browser = False\<rparr>"

text \<open>A running wrapper whose session holds the given tokens.\<close>

definition sample_wrapper :: "u64 \<Rightarrow> int list \<Rightarrow> int list wrapper" where
  "sample_wrapper mb s =
     (snd (ds4_wrapper_startup_session sample_env (ds4_wrapper_init (sample_cfg mb)) MODE_SERVER))
       \<lparr>w_active_session := Some s\<rparr>"

lemmas sample_defs = sample_api_def sample_sess_env_def sample_env_def sample_cfg_def sample_wrapper_def
  good_io_def char_engine_def

lemma sample_restores:
  assumes "\<forall>t \<in> set s. 0 \<le> t \<and> t < 256" "length s < 2 ^ 63"
  shows "restores sample_api s fresh s"
proof -
  have "map (uint \<circ> (of_int :: int \<Rightarrow> byte)) s = s"
    using assms(1) by (induction s) (auto simp: unsigned_of_int take_bit_int_eq_self)
  then show ?thesis using assms(2) by (simp add: restores_def sample_api_def unat_of_nat64)
qed

lemma sample_started: "started sample_env (sample_cfg mb) f \<lparr>cf_fs = f, cf_w = sample_wrapper mb [], cf_pc = (\<lambda>_. Idle)\<rparr>"
  by (simp add: started_def ds4_wrapper_startup_session_def ds4_wrapper_init_def session_create_def sample_defs
      set_meta_def meta_of_def Let_def)

section \<open>Freezing and thawing undo each other\<close>

lemma load_disk_cong: "f path = g path \<Longrightarrow> ds4_sess_load_disk en f s path want = ds4_sess_load_disk en g s path want"
  by (simp add: ds4_sess_load_disk_def fopen_read_def)

lemma freeze_stores:
  assumes fr: "ds4_wrapper_freeze_active_session en f w = (Inr u, f1, w1)"
    and s: "w_active_session w = Some s" "so_tokens (se_api (we_sess en)) s = Some ts" "ts \<noteq> []"
  defines "m \<equiv> meta_of (w_active_mode w) w" and "m1 \<equiv> meta_of (w_active_mode w) w1"
  shows "sm_exists m1 \<and> sm_disk_path m1 = sm_disk_path m \<and>
     ((sm_frozen_kind m1 = FROZEN_RAM \<and> ds4_sess_store_ram (se_api (we_sess en)) (Some s) (sm_ram m) = (None, sm_ram m1))
      \<or> (sm_frozen_kind m1 = FROZEN_DISK
         \<and> ds4_sess_store_disk (we_sess en) f s (Some ts) (sm_disk_path m) (Some (sm_title m)) 0 = (Inr (), f1)))"
  using assms
  by (auto simp: ds4_wrapper_freeze_active_session_def freeze_done_def Let_def
      split: if_splits prod.splits sum.splits option.splits)

text \<open>\<^verbatim>\<open>mkstemp\<close> creates a file that did not exist.\<close>

definition mkstemp_fresh :: "'s sess_env \<Rightarrow> bool" where
  "mkstemp_fresh en \<longleftrightarrow> (\<forall>g p tmp. se_mkstemp en g p = Some tmp \<longrightarrow> g tmp = None)"

lemma freeze_other_file:
  assumes fr: "ds4_wrapper_freeze_active_session en f w = (r, f1, w1)"
    and fresh: "mkstemp_fresh (we_sess en)"
    and p: "f p \<noteq> None" "p \<noteq> sm_disk_path (meta_of (w_active_mode w) w)"
  shows "f1 p = f p"
proof (cases "f1 = f")
  case False
  then obtain s ts r' where st: "ds4_sess_store_disk (we_sess en) f s (Some ts)
      (sm_disk_path (meta_of (w_active_mode w) w)) (Some (sm_title (meta_of (w_active_mode w) w))) 0 = (r', f1)"
    using fr by (auto simp: ds4_wrapper_freeze_active_session_def Let_def
        split: if_splits prod.splits sum.splits option.splits)
  show ?thesis
  proof (cases r')
    case (Inl e)
    then show ?thesis using store_disk_Inl [of "we_sess en" f s "Some ts"] st fresh p(1) False
      unfolding mkstemp_fresh_def by (metis (no_types))
  next
    case (Inr u)
    then have "ds4_sess_store_disk (we_sess en) f s (Some ts)
      (sm_disk_path (meta_of (w_active_mode w) w)) (Some (sm_title (meta_of (w_active_mode w) w))) 0 = (Inr (), f1)"
      using st by simp
    then obtain tmp bs where mk: "se_mkstemp (we_sess en) f (sm_disk_path (meta_of (w_active_mode w) w) @ ''.tmp.'') = Some tmp"
      "f1 = f(tmp := None, sm_disk_path (meta_of (w_active_mode w) w) \<mapsto> bs)"
      by (rule store_disk_Inr)
    then show ?thesis using fresh [unfolded mkstemp_fresh_def, rule_format, OF mk(1)] p by auto
  qed
qed simp

lemma thaw_restores:
  assumes th: "ds4_wrapper_thaw_session en f w mode = (Inr u, w')"
    and ex: "sm_exists (meta_of mode w)" and c: "session_create en w = Some fresh"
    and k: "(sm_frozen_kind (meta_of mode w) = FROZEN_RAM
              \<and> ds4_sess_load_ram (se_api (we_sess en)) fresh (sm_ram (meta_of mode w)) = (None, s'))
      \<or> (sm_frozen_kind (meta_of mode w) = FROZEN_DISK
              \<and> (\<exists>x. ds4_sess_load_disk (we_sess en) f fresh (sm_disk_path (meta_of mode w)) True = (Inr x, s')))"
  shows "w_active_session w' = Some s'"
  using assms
  by (auto simp: ds4_wrapper_thaw_session_def thaw_done_def Let_def)

lemma thaw_succeeds:
  assumes ex: "sm_exists (meta_of mode w)" and c: "session_create en w = Some fresh"
    and k: "(sm_frozen_kind (meta_of mode w) = FROZEN_RAM
              \<and> ds4_sess_load_ram (se_api (we_sess en)) fresh (sm_ram (meta_of mode w)) = (None, s'))
      \<or> (sm_frozen_kind (meta_of mode w) = FROZEN_DISK
              \<and> (\<exists>x. ds4_sess_load_disk (we_sess en) f fresh (sm_disk_path (meta_of mode w)) True = (Inr x, s')))"
  shows "\<exists>w'. ds4_wrapper_thaw_session en f w mode = (Inr (), w') \<and> w_active_session w' = Some s'"
  using assms
  by (auto simp: ds4_wrapper_thaw_session_def thaw_done_def Let_def)

text \<open>A session frozen with success is there to be loaded: what a thaw reads is the record of its mode
  without its marks and times, and the session file.\<close>

definition thawable :: "wrap_meta \<Rightarrow> bool \<times> frozen_kind \<times> snapshot \<times> string" where
  "thawable m = (sm_exists m, sm_frozen_kind m, sm_ram m, sm_disk_path m)"

lemma thawable_switch_end [simp]: "thawable (meta_of m (switch_end en w target)) = thawable (meta_of m w)"
  by (cases m) (simp_all add: thawable_def switch_end_def meta_of_def)

lemma frozen_loads:
  assumes fr: "ds4_wrapper_freeze_active_session en f w = (Inr u, f1, w1)"
    and s: "w_active_mode w = a" "w_active_session w = Some s"
    and ok: "disk_ok (we_sess en) p s fresh s'" and p: "p = sm_disk_path (meta_of a w)"
    and same: "thawable (meta_of a w2) = thawable (meta_of a w1)" "f1 p \<noteq> None \<Longrightarrow> f2 p = f1 p"
  shows "sm_exists (meta_of a w2) \<and>
     ((sm_frozen_kind (meta_of a w2) = FROZEN_RAM
         \<and> ds4_sess_load_ram (se_api (we_sess en)) fresh (sm_ram (meta_of a w2)) = (None, s'))
      \<or> (sm_frozen_kind (meta_of a w2) = FROZEN_DISK
         \<and> (\<exists>x. ds4_sess_load_disk (we_sess en) f2 fresh (sm_disk_path (meta_of a w2)) True = (Inr x, s'))))"
proof -
  obtain ts where ts: "so_tokens (se_api (we_sess en)) s = Some ts" "ts \<noteq> []"
    using ok by (auto simp: disk_ok_def split: option.splits)
  have r: "restores (se_api (we_sess en)) s fresh s'" using ok by (simp add: disk_ok_def)
  have m: "sm_exists (meta_of a w2) = sm_exists (meta_of a w1)" "sm_ram (meta_of a w2) = sm_ram (meta_of a w1)"
    "sm_frozen_kind (meta_of a w2) = sm_frozen_kind (meta_of a w1)"
    "sm_disk_path (meta_of a w2) = sm_disk_path (meta_of a w1)"
    using same(1) by (simp_all add: thawable_def)
  show ?thesis
    using freeze_stores [OF fr s(2) ts] unfolding s(1)
  proof (elim conjE disjE)
    assume "sm_exists (meta_of a w1)" "sm_frozen_kind (meta_of a w1) = FROZEN_RAM"
      "ds4_sess_store_ram (se_api (we_sess en)) (Some s) (sm_ram (meta_of a w)) = (None, sm_ram (meta_of a w1))"
    then show ?thesis using ram.load_store [OF r] m by simp
  next
    assume *: "sm_exists (meta_of a w1)" "sm_frozen_kind (meta_of a w1) = FROZEN_DISK"
      "sm_disk_path (meta_of a w1) = sm_disk_path (meta_of a w)"
      and sd: "ds4_sess_store_disk (we_sess en) f s (Some ts) (sm_disk_path (meta_of a w))
          (Some (sm_title (meta_of a w))) 0 = (Inr (), f1)"
    obtain x where x: "ds4_sess_load_disk (we_sess en) f1 fresh p True = (Inr x, s')"
      using load_stored_file [OF sd] ok p by blast
    then have "f1 p \<noteq> None" by (auto simp: ds4_sess_load_disk_def fopen_read_def split: if_splits option.splits)
    then have "ds4_sess_load_disk (we_sess en) f2 fresh p True = (Inr x, s')"
      using x same(2) load_disk_cong [of f2 p f1 "we_sess en" fresh True] by simp
    then show ?thesis using * m p by simp
  qed
qed

lemma switch_succeeds:
  assumes "ds4_wrapper_switch_mode en f w b = Some ((0, e), f1, w1)" "w_active_mode w \<noteq> b"
  shows "\<exists>wf wt. ds4_wrapper_freeze_active_session en f (w\<lparr>w_state := STATE_SWITCHING\<rparr>) = (Inr (), f1, wf)
     \<and> ds4_wrapper_thaw_session en f1 wf b = (Inr (), wt) \<and> w1 = switch_end en wt b"
  using assms
  by (auto simp: ds4_wrapper_switch_mode_def switch_begin_def switch_work_def
      split: if_splits prod.splits sum.splits)

section \<open>Switching away and back\<close>

text \<open>C14: switching away from a mode and back restores its session: whatever the other mode did in
  between, as long as the first mode's record and its session file are as the first switch left them,
  the second switch, when it succeeds, makes the session that the engine restores from the frozen
  one live again, with the same tokens, in the first mode and ready.\<close>

theorem switch_back_restores:
  assumes away: "ds4_wrapper_switch_mode en f w b = Some ((0, e1), f1, w1)" "w_active_mode w = a" "a \<noteq> b"
      "w_active_session w = Some s"
    and between: "w_active_mode w2 = b" "meta_of a w2 = meta_of a w1"
      "f2 (sm_disk_path (meta_of a w)) = f1 (sm_disk_path (meta_of a w))"
    and again: "ds4_wrapper_switch_mode en f2 w2 a = Some ((0, e2), f3, w3)"
    and engine: "session_create en w2 = Some fresh" "disk_ok (we_sess en) (sm_disk_path (meta_of a w)) s fresh s'"
    and paths: "f1 (sm_disk_path (meta_of a w)) \<noteq> None \<Longrightarrow> sm_disk_path (meta_of b w2) \<noteq> sm_disk_path (meta_of a w)"
    and mk: "mkstemp_fresh (we_sess en)"
  shows "w_active_session w3 = Some s' \<and> so_tokens (se_api (we_sess en)) s' = so_tokens (se_api (we_sess en)) s
     \<and> w_active_mode w3 = a \<and> w_state w3 = STATE_READY"
proof -
  obtain wf wt where fr: "ds4_wrapper_freeze_active_session en f (w\<lparr>w_state := STATE_SWITCHING\<rparr>) = (Inr (), f1, wf)"
    and th: "ds4_wrapper_thaw_session en f1 wf b = (Inr (), wt)" and w1: "w1 = switch_end en wt b"
    using switch_succeeds [OF away(1)] away(2,3) by auto
  obtain wf2 wt2 where fr2: "ds4_wrapper_freeze_active_session en f2 (w2\<lparr>w_state := STATE_SWITCHING\<rparr>) = (Inr (), f3, wf2)"
    and th2: "ds4_wrapper_thaw_session en f3 wf2 a = (Inr (), wt2)" and w3: "w3 = switch_end en wt2 a"
    using switch_succeeds [OF again] between(1) away(3) by auto
  have m1: "thawable (meta_of a w1) = thawable (meta_of a wf)"
    using thaw_frame(7) [OF th, of a] away(3) by (simp add: w1)
  have m2: "meta_of a wf2 = meta_of a w2" using freeze_frame(7) [OF fr2, of a] between(1) away(3) by simp
  have same: "thawable (meta_of a wf2) = thawable (meta_of a wf)" using m1 m2 between(2) by simp
  have f3: "f3 (sm_disk_path (meta_of a w)) = f2 (sm_disk_path (meta_of a w))"
    if "f1 (sm_disk_path (meta_of a w)) \<noteq> None"
    using freeze_other_file [OF fr2 mk, of "sm_disk_path (meta_of a w)"] that between(1,3) paths by simp
  have c: "session_create en wf2 = Some fresh"
    using engine(1) freeze_frame(4) [OF fr2] by (simp add: session_create_def)
  have "w_active_session wt2 = Some s'"
    using frozen_loads [OF fr _ _ engine(2) _ same] thaw_restores [OF th2 _ c] away(2,4) f3 between(3) by simp
  then show ?thesis
    using engine(2) by (auto simp: w3 switch_end_def disk_ok_def elim: restoresE)
qed

lemmas switch_defs = ds4_wrapper_switch_mode_def switch_work_def ds4_wrapper_freeze_active_session_def
  ds4_wrapper_thaw_session_def ds4_sess_store_ram_def ds4_session_save_snapshot_def snapshot_reserve_def
  ds4_sess_load_ram_def ds4_session_load_snapshot_def session_create_def ds4_wrapper_startup_session_def
  ds4_wrapper_init_def meta_zero_def snapshot_zero_def ss_cap_def

lemma sample_switches:
  "\<exists>w1 w3. ds4_wrapper_switch_mode sample_env Map.empty (sample_wrapper 1 [5, 6]) MODE_AGENT = Some ((0, []), Map.empty, w1)
     \<and> w_active_mode w1 = MODE_AGENT \<and> session_create sample_env w1 = Some []
     \<and> ds4_wrapper_switch_mode sample_env Map.empty w1 MODE_SERVER = Some ((0, []), Map.empty, w3)"
  by (simp add: switch_defs wrapper_defs sample_defs store_at_def)

lemma sample_mkstemp: "mkstemp_fresh sample_sess_env"
  by (auto simp: mkstemp_fresh_def sample_sess_env_def split: if_splits)

lemma sample_disk_ok:
  assumes "\<forall>t \<in> set s. 0 \<le> t \<and> t < 256" "s \<noteq> []" "length s < 2 ^ 31"
  shows "disk_ok sample_sess_env p s fresh s"
proof -
  have "restores sample_api s fresh s" using assms by (intro sample_restores) auto
  then show ?thesis
    using assms by (simp add: disk_ok_def sample_sess_env_def sample_api_def good_io_def unat_of_nat64)
qed

lemma switch_back_restores_witness:
  "\<exists>w1 w3. ds4_wrapper_switch_mode sample_env Map.empty (sample_wrapper 1 [5, 6]) MODE_AGENT = Some ((0, []), Map.empty, w1)
     \<and> ds4_wrapper_switch_mode sample_env Map.empty w1 MODE_SERVER = Some ((0, []), Map.empty, w3)
     \<and> w_active_session w3 = Some [5, 6] \<and> w_active_mode w3 = MODE_SERVER"
proof -
  obtain w1 w3 where sw: "ds4_wrapper_switch_mode sample_env Map.empty (sample_wrapper 1 [5, 6]) MODE_AGENT = Some ((0, []), Map.empty, w1)"
    "w_active_mode w1 = MODE_AGENT" "session_create sample_env w1 = Some []"
    "ds4_wrapper_switch_mode sample_env Map.empty w1 MODE_SERVER = Some ((0, []), Map.empty, w3)"
    using sample_switches by blast
  have w: "w_active_mode (sample_wrapper 1 [5, 6]) = MODE_SERVER" "w_active_session (sample_wrapper 1 [5, 6]) = Some [5, 6]"
    by (simp_all add: switch_defs wrapper_defs sample_defs)
  have se: "we_sess sample_env = sample_sess_env" by (simp add: sample_env_def)
  have "w_active_session w3 = Some [5, 6] \<and> so_tokens (se_api (we_sess sample_env)) [5, 6] = so_tokens (se_api (we_sess sample_env)) [5, 6]
     \<and> w_active_mode w3 = MODE_SERVER \<and> w_state w3 = STATE_READY"
    by (rule switch_back_restores [OF sw(1) w(1) _ w(2) sw(2) refl refl sw(4,3)])
      (simp_all add: se sample_mkstemp sample_disk_ok)
  then show ?thesis using sw by blast
qed

section \<open>When a switch fails\<close>

lemma switch_fails:
  assumes "ds4_wrapper_switch_mode en f w b = Some ((code, e), f1, w1)" "code \<noteq> 0"
  shows "w_active_mode w \<noteq> b \<and> \<not> w_busy w \<and> code = 500
    \<and> ((\<exists>wf. ds4_wrapper_freeze_active_session en f (w\<lparr>w_state := STATE_SWITCHING\<rparr>) = (Inl e, f1, wf)
            \<and> w1 = switch_failed wf e)
       \<or> (\<exists>wf. ds4_wrapper_freeze_active_session en f (w\<lparr>w_state := STATE_SWITCHING\<rparr>) = (Inr (), f1, wf)
            \<and> ds4_wrapper_thaw_session en f1 wf b = (Inl e, wf) \<and> w1 = switch_failed wf e))"
  using assms
  by (auto simp: ds4_wrapper_switch_mode_def switch_begin_def switch_work_def dest: thaw_Inl
      split: if_splits prod.splits sum.splits)

text \<open>a switch that fails never changes the mode, reports the error and enters the error state; the
  session is still live when freezing failed, with every file but a temporary one as before, and
  otherwise it has been frozen.\<close>

theorem failed_switch_outcome:
  assumes fail: "ds4_wrapper_switch_mode en f w b = Some ((code, e), f1, w1)" "code \<noteq> 0"
    and mk: "mkstemp_fresh (we_sess en)"
  shows "code = 500 \<and> w_active_mode w1 = w_active_mode w \<and> w_state w1 = STATE_ERROR \<and> w_last_error w1 = take 255 e
     \<and> ((w_active_session w1 = w_active_session w \<and> w_active_session w \<noteq> None
          \<and> (\<forall>p. f p \<noteq> None \<and> p \<noteq> sm_disk_path (meta_of (w_active_mode w) w) \<longrightarrow> f1 p = f p))
        \<or> (w_active_session w1 = None
          \<and> (\<exists>wf. ds4_wrapper_freeze_active_session en f (w\<lparr>w_state := STATE_SWITCHING\<rparr>) = (Inr (), f1, wf)
               \<and> meta_of (w_active_mode w) w1 = meta_of (w_active_mode w) wf)))"
  using switch_fails [OF fail]
proof (elim conjE disjE exE)
  fix wf
  assume c: "code = 500" and fr: "ds4_wrapper_freeze_active_session en f (w\<lparr>w_state := STATE_SWITCHING\<rparr>) = (Inl e, f1, wf)"
    and w1: "w1 = switch_failed wf e"
  have "w_active_session wf = w_active_session w" "w_active_session w \<noteq> None" using freeze_Inl [OF fr] by simp_all
  moreover have "\<forall>p. f p \<noteq> None \<and> p \<noteq> sm_disk_path (meta_of (w_active_mode w) w) \<longrightarrow> f1 p = f p"
    using freeze_other_file [OF fr mk] by simp
  ultimately show ?thesis
    using c freeze_frame(1) [OF fr] unfolding w1 by (simp add: switch_failed_def)
next
  fix wf
  assume c: "code = 500" and fr: "ds4_wrapper_freeze_active_session en f (w\<lparr>w_state := STATE_SWITCHING\<rparr>) = (Inr (), f1, wf)"
    and w1: "w1 = switch_failed wf e"
  show ?thesis
    using c fr freeze_frame(1) [OF fr] freeze_Inr [OF fr] unfolding w1 by (simp add: switch_failed_def)
qed

lemma failed_switch_outcome_witness:
  "\<exists>e f1 w1. ds4_wrapper_switch_mode sample_env Map.empty (sample_wrapper 0 [5, 6]) MODE_AGENT = Some ((500, e), f1, w1)
     \<and> w_active_session w1 = Some [5, 6] \<and> w_active_mode w1 = MODE_SERVER \<and> w_state w1 = STATE_ERROR"
proof -
  have s: "w_active_session (sample_wrapper 0 [5, 6]) = Some [5, 6]" "w_active_mode (sample_wrapper 0 [5, 6]) = MODE_SERVER"
    by (simp_all add: switch_defs wrapper_defs sample_defs)
  have "\<exists>e f1 w1. ds4_wrapper_switch_mode sample_env Map.empty (sample_wrapper 0 [5, 6]) MODE_AGENT = Some ((500, e), f1, w1)
      \<and> w_active_session w1 \<noteq> None"
    by (simp add: switch_defs wrapper_defs sample_defs ds4_sess_store_disk_def sess_store_tokens_def
        ds4_kvstore_render_tokens_text_def write_session_file_def sess_body_def ds4_agent_kv_write_title_trailer_def
        written_def unlink_def)
  then obtain e f1 w1 where sw: "ds4_wrapper_switch_mode sample_env Map.empty (sample_wrapper 0 [5, 6]) MODE_AGENT = Some ((500, e), f1, w1)"
    "w_active_session w1 \<noteq> None" by blast
  have m: "mkstemp_fresh (we_sess sample_env)" by (simp add: sample_env_def sample_mkstemp)
  have "(500 :: int) \<noteq> 0" by simp
  from failed_switch_outcome [OF sw(1) this m] sw(2) s show ?thesis using sw(1) by auto
qed

text \<open>after a switch whose thaw failed the wrapper has no session: requests of the mode it is still
  in are answered 503 and switching to that mode answers success without restoring anything, but the
  thaw endpoint brings back the session that was live before.\<close>

theorem failed_thaw_recovery:
  assumes fail: "ds4_wrapper_switch_mode en f w b = Some ((500, e), f1, w1)" "w_active_session w1 = None"
    and live: "w_active_session w = Some s" "w_active_mode w = a"
    and engine: "session_create en w1 = Some fresh" "disk_ok (we_sess en) (sm_disk_path (meta_of a w)) s fresh s'"
  shows "fst (fst (ds4_wrapper_enter_request w1 a)) = 503
     \<and> ds4_wrapper_switch_mode en f1 w1 a = Some ((0, []), f1, w1)
     \<and> (\<exists>w2. thaw_endpoint en f1 w1 = ((200, []), f1, w2) \<and> w_active_session w2 = Some s'
          \<and> w_active_mode w2 = a \<and> w_state w2 = STATE_READY)"
proof -
  have "(500 :: int) \<noteq> 0" by simp
  then obtain wf where fr: "ds4_wrapper_freeze_active_session en f (w\<lparr>w_state := STATE_SWITCHING\<rparr>) = (Inr (), f1, wf)"
    and w1: "w1 = switch_failed wf e" and idle: "\<not> w_busy w"
    using switch_fails [OF fail(1)] fail(2) freeze_Inl by (fastforce simp: switch_failed_def)
  have c: "w_active_mode w1 = a" "\<not> w_busy w1" "w_state w1 = STATE_ERROR" "meta_of m w1 = meta_of m wf" for m
    using freeze_frame(1,3) [OF fr] idle live(2) by (simp_all add: w1 switch_failed_def)
  let ?w = "w1\<lparr>w_state := STATE_SWITCHING\<rparr>"
  have "session_create en ?w = Some fresh" using engine(1) by (simp add: session_create_def)
  moreover have "sm_exists (meta_of a ?w) \<and>
     ((sm_frozen_kind (meta_of a ?w) = FROZEN_RAM
         \<and> ds4_sess_load_ram (se_api (we_sess en)) fresh (sm_ram (meta_of a ?w)) = (None, s'))
      \<or> (sm_frozen_kind (meta_of a ?w) = FROZEN_DISK
         \<and> (\<exists>x. ds4_sess_load_disk (we_sess en) f1 fresh (sm_disk_path (meta_of a ?w)) True = (Inr x, s'))))"
    using live engine(2) by (intro frozen_loads [OF fr]) (simp_all add: c)
  ultimately obtain w2 where th: "ds4_wrapper_thaw_session en f1 ?w a = (Inr (), w2)" "w_active_session w2 = Some s'"
    using thaw_succeeds [of a ?w en fresh s' f1] by auto
  have "w_active_mode w2 = a" using thaw_frame(1) [OF th(1)] c(1) by simp
  then have "\<exists>w2. thaw_endpoint en f1 w1 = ((200, []), f1, w2) \<and> w_active_session w2 = Some s'
          \<and> w_active_mode w2 = a \<and> w_state w2 = STATE_READY"
    using th fail(2) c(1,2) by (simp add: thaw_endpoint_def thaw_begin_def endpoint_end_def)
  moreover have "fst (fst (ds4_wrapper_enter_request w1 a)) = 503"
    using c fail(2) by (simp add: ds4_wrapper_enter_request_def)
  moreover have "ds4_wrapper_switch_mode en f1 w1 a = Some ((0, []), f1, w1)"
    using c(1,2) by (simp add: ds4_wrapper_switch_mode_def switch_begin_def)
  ultimately show ?thesis by blast
qed

text \<open>A wrapper whose agent record announces a RAM snapshot that is not there.\<close>

definition sample_broken :: "int list wrapper" where
  "sample_broken = (sample_wrapper 1 [5, 6])\<lparr>w_agent_meta := meta_zero\<lparr>sm_exists := True, sm_frozen_kind := FROZEN_RAM\<rparr>\<rparr>"

lemma failed_thaw_recovery_witness:
  "\<exists>e f1 w1 w2. ds4_wrapper_switch_mode sample_env Map.empty sample_broken MODE_AGENT = Some ((500, e), f1, w1)
     \<and> fst (fst (ds4_wrapper_enter_request w1 MODE_SERVER)) = 503
     \<and> thaw_endpoint sample_env f1 w1 = ((200, []), f1, w2) \<and> w_active_session w2 = Some [5, 6]"
proof -
  have s: "w_active_session sample_broken = Some [5, 6]" "w_active_mode sample_broken = MODE_SERVER"
    by (simp_all add: sample_broken_def switch_defs wrapper_defs sample_defs)
  have "\<exists>e f1 w1. ds4_wrapper_switch_mode sample_env Map.empty sample_broken MODE_AGENT = Some ((500, e), f1, w1)
      \<and> w_active_session w1 = None \<and> session_create sample_env w1 = Some []"
    by (simp add: sample_broken_def switch_defs wrapper_defs sample_defs)
  then obtain e f1 w1 where sw: "ds4_wrapper_switch_mode sample_env Map.empty sample_broken MODE_AGENT = Some ((500, e), f1, w1)"
    "w_active_session w1 = None" "session_create sample_env w1 = Some []" by blast
  have ok: "disk_ok (we_sess sample_env) (sm_disk_path (meta_of MODE_SERVER sample_broken)) [5, 6] [] [5, 6]"
    by (simp add: sample_env_def sample_disk_ok)
  from failed_thaw_recovery [OF sw(1,2) s sw(3) ok] sw(1) show ?thesis by blast
qed

section \<open>The threads\<close>

text \<open>C15: whatever the connections do and in whatever order, at most one thread is inside a request, and
  the wrapper is busy exactly when one is.\<close>

theorem wrapper_mutual_exclusion:
  assumes "wreach en cfg f c"
  shows "(cf_pc c t = InRequest \<longrightarrow> cf_pc c u = InRequest \<longrightarrow> t = u)
     \<and> (w_busy (cf_w c) \<longleftrightarrow> (\<exists>t. cf_pc c t = InRequest))"
  using mutex_reach [OF assms] by (simp add: mutex_inv_def)

definition entered :: "'s wrapper \<Rightarrow> 's wrapper" where
  "entered w = w\<lparr>w_busy := True, w_state := STATE_BUSY, w_total_requests := w_total_requests w + 1\<rparr>"

lemma enter_step:
  assumes "cf_pc c t = Idle" "w_state (cf_w c) \<noteq> STATE_SWITCHING" "\<not> w_busy (cf_w c)"
    "w_active_session (cf_w c) \<noteq> None"
  shows "wstep en t c (goto c t InRequest (cf_fs c) (entered (cf_w c)))"
proof (rule wstep.Enter [OF assms(1)])
  show "ds4_wrapper_enter_request (cf_w c) (w_active_mode (cf_w c)) = ((0, []), entered (cf_w c))"
    using assms(2-4) by (simp add: ds4_wrapper_enter_request_def entered_def)
qed

lemma sample_ready:
  "w_active_session (sample_wrapper mb s) = Some s" "w_active_mode (sample_wrapper mb s) = MODE_SERVER"
  "w_state (sample_wrapper mb s) = STATE_READY" "\<not> w_busy (sample_wrapper mb s)"
  by (simp_all add: switch_defs wrapper_defs sample_defs)

definition sample_start :: "u64 \<Rightarrow> int list config" where
  "sample_start mb = \<lparr>cf_fs = Map.empty, cf_w = sample_wrapper mb [], cf_pc = (\<lambda>_. Idle)\<rparr>"

definition sample_busy :: "int list config" where
  "sample_busy = goto (sample_start 0) 0 InRequest Map.empty (entered (sample_wrapper 0 []))"

lemma sample_busy_step: "wstep sample_env 0 (sample_start 0) sample_busy"
  using enter_step [of "sample_start 0" 0 sample_env] by (simp add: sample_start_def sample_busy_def sample_ready)

lemma sample_start: "started sample_env (sample_cfg mb) Map.empty (sample_start mb)"
  unfolding sample_start_def by (rule sample_started)

lemma wrapper_mutual_exclusion_witness:
  "\<exists>c. wreach sample_env (sample_cfg 0) Map.empty c \<and> cf_pc c 0 = InRequest \<and> w_busy (cf_w c) \<and> cf_pc c 1 \<noteq> InRequest"
proof -
  have c: "wreach sample_env (sample_cfg 0) Map.empty sample_busy" "cf_pc sample_busy 0 = InRequest"
    using wreach.Step [OF wreach.Start [OF sample_start] sample_busy_step] by (simp_all add: sample_busy_def)
  from wrapper_mutual_exclusion [OF c(1), of 0 1] c show ?thesis by (intro exI [of _ sample_busy]) auto
qed

text \<open>C16: as long as the operator's clients never run two switches, freezes or thaws at once, no other
  thread replaces or frees the session of a request in progress, or ends the request.\<close>

theorem serial_switch_safe:
  assumes "sreach en cfg f c" "cf_pc c t = InRequest" "wstep en u c c'" "u \<noteq> t"
  shows "w_active_session (cf_w c') = w_active_session (cf_w c) \<and> cf_pc c' t = InRequest"
proof -
  have inv: "mutex_inv c" "region_inv c" using sreach_inv [OF assms(1)] by simp_all
  have "w_busy (cf_w c)" "cf_pc c u \<noteq> InRequest" using inv(1) assms(2,4) by (auto simp: mutex_inv_def)
  moreover then have "\<not> switching (cf_pc c u)" using inv(2) by (auto simp: region_inv_def)
  ultimately show ?thesis
    using wstep_session [OF assms(3)] wstep_requests [OF assms(3)] assms(2,4) by auto
qed

lemma serial_switch_safe_witness:
  "\<exists>c c'. sreach sample_env (sample_cfg 0) Map.empty c \<and> cf_pc c 0 = InRequest \<and> wstep sample_env 1 c c'
     \<and> cf_pc c' 1 = WantSwitch MODE_AGENT \<and> w_active_session (cf_w c') = w_active_session (cf_w c)"
proof -
  let ?c' = "goto sample_busy 1 (WantSwitch MODE_AGENT) (cf_fs sample_busy) (cf_w sample_busy)"
  have pc: "cf_pc sample_busy 0 = InRequest" "cf_pc sample_busy 1 = Idle"
    by (simp_all add: sample_busy_def sample_start_def)
  have r: "sreach sample_env (sample_cfg 0) Map.empty sample_busy"
    by (rule sreach.SStep [OF sreach.SStart [OF sample_start] sample_busy_step])
      (simp add: one_switcher_def sample_busy_def sample_start_def)
  have st: "wstep sample_env 1 sample_busy ?c'" using pc(2) by (rule wstep.SwitchCall)
  have "w_active_session (cf_w ?c') = w_active_session (cf_w sample_busy) \<and> cf_pc ?c' 0 = InRequest"
    by (rule serial_switch_safe [OF r pc(1) st]) simp
  then show ?thesis using r st pc(1) by (intro exI [of _ sample_busy] exI [of _ ?c']) simp
qed

text \<open>Two clients ask for the agent mode at once. The second one passes its first critical section while
  the first is switching, and freezes after the first has finished and a request has entered.\<close>

lemma race_work:
  "\<exists>wf wt wx. ds4_wrapper_freeze_active_session sample_env Map.empty ((sample_wrapper 0 [])\<lparr>w_state := STATE_SWITCHING\<rparr>)
       = (Inr (), Map.empty, wf)
     \<and> ds4_wrapper_thaw_session sample_env Map.empty wf MODE_AGENT = (Inr (), wt)
     \<and> w_active_session wt = Some [] \<and> \<not> w_busy wt
     \<and> ds4_wrapper_freeze_active_session sample_env Map.empty (entered (switch_end sample_env wt MODE_AGENT))
       = (Inr (), Map.empty, wx) \<and> w_active_session wx = None"
  by (simp add: switch_defs wrapper_defs sample_defs entered_def)

lemma begin_agent:
  "\<not> w_busy w \<Longrightarrow> w_active_mode w = MODE_SERVER \<Longrightarrow>
     switch_begin w MODE_AGENT = Some (SwitchFrom MODE_SERVER, w\<lparr>w_state := STATE_SWITCHING\<rparr>)"
  by (simp add: switch_begin_def)

text \<open>C17: concurrent switches are not serialised: with two clients asking for the agent mode at the same
  time there is a run in which one of them frees the session while a request of a third client is
  using it.\<close>

theorem concurrent_switches_free_used_session:
  "\<exists>c c'. wreach sample_env (sample_cfg 0) Map.empty c \<and> cf_pc c 3 = InRequest \<and> w_active_session (cf_w c) \<noteq> None
     \<and> wstep sample_env 2 c c' \<and> cf_pc c' 3 = InRequest \<and> w_active_session (cf_w c') = None"
proof -
  let ?w = "sample_wrapper 0 [] :: int list wrapper" and ?f = "Map.empty :: fs" and ?A = "MODE_AGENT"
  let ?sw = "?w\<lparr>w_state := STATE_SWITCHING\<rparr>"
  obtain wf wt wx where wk: "ds4_wrapper_freeze_active_session sample_env ?f ?sw = (Inr (), ?f, wf)"
    "ds4_wrapper_thaw_session sample_env ?f wf ?A = (Inr (), wt)" "w_active_session wt = Some []" "\<not> w_busy wt"
    "ds4_wrapper_freeze_active_session sample_env ?f (entered (switch_end sample_env wt ?A)) = (Inr (), ?f, wx)"
    "w_active_session wx = None"
    using race_work by blast
  let ?e = "switch_end sample_env wt ?A"
  have e: "w_state ?e = STATE_READY" "\<not> w_busy ?e" "w_active_session ?e = Some []"
    using wk(3,4) by (simp_all add: switch_end_def)
  define c0 where "c0 = sample_start 0"
  define c1 where "c1 = goto c0 1 (WantSwitch ?A) ?f ?w"
  define c2 where "c2 = goto c1 2 (WantSwitch ?A) ?f ?w"
  define c3 where "c3 = goto c2 1 (SwitchFreeze ?A) ?f ?sw"
  define c4 where "c4 = goto c3 2 (SwitchFreeze ?A) ?f ?sw"
  define c5 where "c5 = goto c4 1 (SwitchThaw ?A) ?f wf"
  define c6 where "c6 = goto c5 1 (SwitchEnd ?A) ?f wt"
  define c7 where "c7 = goto c6 1 Idle ?f ?e"
  define c8 where "c8 = goto c7 3 InRequest ?f (entered ?e)"
  define c9 where "c9 = goto c8 2 (SwitchThaw ?A) ?f wx"
  note cs = c0_def c1_def c2_def c3_def c4_def c5_def c6_def c7_def c8_def c9_def sample_start_def
  have s1: "wstep sample_env 1 c0 c1" using wstep.SwitchCall [of c0 1 sample_env ?A] by (simp add: cs)
  have s2: "wstep sample_env 2 c1 c2" using wstep.SwitchCall [of c1 2 sample_env ?A] by (simp add: cs)
  have s3: "wstep sample_env 1 c2 c3"
    using wstep.SwitchBegin [of c2 1 ?A MODE_SERVER ?sw sample_env] by (simp add: cs begin_agent sample_ready)
  have s4: "wstep sample_env 2 c3 c4"
    using wstep.SwitchBegin [of c3 2 ?A MODE_SERVER ?sw sample_env] by (simp add: cs begin_agent sample_ready)
  have s5: "wstep sample_env 1 c4 c5"
    using wstep.SwFreezeOk [of c4 1 ?A sample_env "()" ?f wf] wk(1) by (simp add: cs)
  have s6: "wstep sample_env 1 c5 c6"
    using wstep.SwThawOk [of c5 1 ?A sample_env "()" wt] wk(2) by (simp add: cs)
  have s7: "wstep sample_env 1 c6 c7" using wstep.SwEnd [of c6 1 ?A sample_env] by (simp add: cs)
  have s8: "wstep sample_env 3 c7 c8" using enter_step [of c7 3 sample_env] e by (simp add: cs)
  have s9: "wstep sample_env 2 c8 c9"
    using wstep.SwFreezeOk [of c8 2 ?A sample_env "()" ?f wx] wk(5) by (simp add: cs)
  have "wreach sample_env (sample_cfg 0) ?f c8"
    by (rule wreach.Step [OF wreach.Step [OF wreach.Step [OF wreach.Step [OF wreach.Step [OF wreach.Step
          [OF wreach.Step [OF wreach.Step [OF wreach.Start s1] s2] s3] s4] s5] s6] s7] s8])
      (simp add: c0_def sample_start)
  then show ?thesis using s9 wk(6) e by (intro exI [of _ c8] exI [of _ c9]) (simp add: cs entered_def)
qed

section \<open>Where the session files go\<close>

text \<open>No operation of the wrapper ever gives a session file a name, or changes the memory budget.\<close>

definition conf_inv :: "wrap_init_config \<Rightarrow> 's wrapper \<Rightarrow> bool" where
  "conf_inv cfg w \<longleftrightarrow> (\<forall>m. sm_disk_path (meta_of m w) = []) \<and> w_prefer_ram_freeze w = (0 < ic_ram_freeze_max_mb cfg)
     \<and> w_ram_freeze_max_bytes w = ic_ram_freeze_max_mb cfg * 1024 * 1024"

lemma conf_inv_metas:
  "conf_inv cfg w \<longleftrightarrow> sm_disk_path (w_server_meta w) = [] \<and> sm_disk_path (w_agent_meta w) = []
     \<and> w_prefer_ram_freeze w = (0 < ic_ram_freeze_max_mb cfg)
     \<and> w_ram_freeze_max_bytes w = ic_ram_freeze_max_mb cfg * 1024 * 1024"
  by (auto simp: conf_inv_def meta_of_def split: wrap_mode.splits)

lemma conf_calls:
  "conf_inv cfg w \<Longrightarrow> ds4_wrapper_freeze_active_session en f w = (r, f1, w1) \<Longrightarrow> conf_inv cfg w1"
  "conf_inv cfg w \<Longrightarrow> ds4_wrapper_thaw_session en f w target = (r, w1) \<Longrightarrow> conf_inv cfg w1"
  "conf_inv cfg w \<Longrightarrow> ds4_wrapper_enter_request w mode = (x, w1) \<Longrightarrow> conf_inv cfg w1"
  "conf_inv cfg w \<Longrightarrow> ds4_wrapper_ensure_agent_rt en w = (r, w1) \<Longrightarrow> conf_inv cfg w1"
  "conf_inv cfg w \<Longrightarrow> switch_begin w target = Some (y, w1) \<Longrightarrow> conf_inv cfg w1"
  "conf_inv cfg w \<Longrightarrow> freeze_begin w = (z, w1) \<Longrightarrow> conf_inv cfg w1"
  "conf_inv cfg w \<Longrightarrow> thaw_begin w = (z, w1) \<Longrightarrow> conf_inv cfg w1"
  "conf_inv cfg w \<Longrightarrow> endpoint_end r w = (v, w1) \<Longrightarrow> conf_inv cfg w1"
  "conf_inv cfg w \<Longrightarrow> conf_inv cfg (ds4_wrapper_leave_request w)"
  "conf_inv cfg w \<Longrightarrow> conf_inv cfg (switch_failed w e)"
  "conf_inv cfg w \<Longrightarrow> conf_inv cfg (switch_end en w target)"
  "conf_inv cfg w \<Longrightarrow> conf_inv cfg (w\<lparr>w_active_session := s\<rparr>)"
  using freeze_frame(5,6,8) [of en f w r f1 w1] thaw_frame(5,6,8) [of en f w target r w1]
  by (auto simp: conf_inv_def)
    (auto simp: wrapper_defs split: if_splits sum.splits option.splits wrap_mode.splits)

lemma conf_reach: "wreach en cfg f c \<Longrightarrow> conf_inv cfg (cf_w c)"
proof (induction rule: wreach.induct)
  case (Start c)
  then show ?case
    by (auto simp: started_def ds4_wrapper_startup_session_def ds4_wrapper_init_def meta_zero_def conf_inv_metas
        set_meta_def meta_of_def Let_def split: option.splits wrap_mode.splits)
next
  case (Step c t c')
  note k = conf_calls(1-8) [OF Step(3)]
  show ?case
    by (rule wstepE [OF Step(2)];
      (drule k(1) | drule k(2) | drule k(3) | drule k(4)
        | drule k(5) | drule k(6) | drule k(7) | drule k(8))?;
      simp add: conf_calls(9-12) Step(3))
qed

text \<open>with the default memory budget of zero every switch away from a session with tokens fails: no
  operation ever names a session file, and \<^verbatim>\<open>rename\<close> to the empty name fails. The session stays
  live, the mode stays as it is and the wrapper reports an error.\<close>

theorem default_switch_always_fails:
  assumes reach: "wreach en cfg f0 c" and budget: "ic_ram_freeze_max_mb cfg = 0"
    and posix: "\<And>tmp. \<not> io_rename_ok (se_io (we_sess en)) tmp []"
    and live: "w_active_session (cf_w c) = Some s" "so_tokens (se_api (we_sess en)) s = Some ts" "ts \<noteq> []"
    and idle: "\<not> w_busy (cf_w c)" "w_active_mode (cf_w c) \<noteq> target"
  shows "\<exists>e f w. ds4_wrapper_switch_mode en (cf_fs c) (cf_w c) target = Some ((500, e), f, w)
     \<and> w_active_session w = Some s \<and> w_active_mode w = w_active_mode (cf_w c) \<and> w_state w = STATE_ERROR"
proof -
  have inv: "conf_inv cfg (cf_w c)" by (rule conf_reach [OF reach])
  let ?w = "(cf_w c)\<lparr>w_state := STATE_SWITCHING\<rparr>"
  obtain e f where st: "ds4_sess_store_disk (we_sess en) (cf_fs c) s (Some ts) [] (Some (sm_title (meta_of (w_active_mode (cf_w c)) (cf_w c)))) 0 = (Inl e, f)"
    using store_disk_no_rename [OF posix, of "cf_fs c" s "Some ts"] by blast
  have "ds4_wrapper_freeze_active_session en (cf_fs c) ?w = (Inl e, f, ?w)"
    using live inv budget st by (simp add: ds4_wrapper_freeze_active_session_def conf_inv_def Let_def)
  then show ?thesis
    using idle live(1) by (simp add: ds4_wrapper_switch_mode_def switch_begin_def switch_work_def switch_failed_def)
qed

lemma default_switch_always_fails_witness:
  "\<exists>c e f w. wreach sample_env (sample_cfg 0) Map.empty c \<and> w_active_session (cf_w c) = Some [5]
     \<and> ds4_wrapper_switch_mode sample_env (cf_fs c) (cf_w c) MODE_AGENT = Some ((500, e), f, w)
     \<and> w_active_session w = Some [5]"
proof -
  let ?c2 = "goto sample_busy 0 InRequest (cf_fs sample_busy) ((cf_w sample_busy)\<lparr>w_active_session := Some [5]\<rparr>)"
  let ?c3 = "goto ?c2 0 Idle (cf_fs ?c2) (ds4_wrapper_leave_request (cf_w ?c2))"
  have pc: "cf_pc sample_busy 0 = InRequest" by (simp add: sample_busy_def)
  have "wstep sample_env 0 sample_busy ?c2" using pc by (rule wstep.Work)
  moreover have "wstep sample_env 0 ?c2 ?c3" by (rule wstep.Leave) simp
  ultimately have r: "wreach sample_env (sample_cfg 0) Map.empty ?c3"
    by (intro wreach.Step [OF wreach.Step [OF wreach.Step [OF wreach.Start [OF sample_start] sample_busy_step]]])
  have w: "w_active_session (cf_w ?c3) = Some [5]" "\<not> w_busy (cf_w ?c3)" "w_active_mode (cf_w ?c3) \<noteq> MODE_AGENT"
    by (simp_all add: sample_busy_def entered_def ds4_wrapper_leave_request_def sample_ready)
  have "\<exists>e f w. ds4_wrapper_switch_mode sample_env (cf_fs ?c3) (cf_w ?c3) MODE_AGENT = Some ((500, e), f, w)
     \<and> w_active_session w = Some [5] \<and> w_active_mode w = w_active_mode (cf_w ?c3) \<and> w_state w = STATE_ERROR"
    by (rule default_switch_always_fails [OF r _ _ w(1) _ _ w(2,3), where ts = "[5]"]) (simp_all add: sample_defs)
  then show ?thesis using r w(1) by blast
qed

section \<open>Session files\<close>

text \<open>a session file gives back what was stored: a successful store, loaded into a fresh session,
  restores the session the engine rebuilds from its payload and reports its tokens, however the title
  reads; no other file than the temporary one has changed.\<close>

theorem session_file_roundtrip:
  assumes st: "ds4_sess_store_disk en f s tokens0 path title created_at = (Inr (), f')"
    and ok: "disk_ok en path s fresh s'" and mk: "mkstemp_fresh en"
  shows "\<exists>ts res. so_tokens (se_api en) s = Some ts
     \<and> ds4_sess_load_disk en f' fresh path True = (Inr (ts, res), s') \<and> lr_tokens res = int (length ts)
     \<and> (\<forall>p. p \<noteq> path \<longrightarrow> f' p = f p)"
proof -
  obtain tmp bs where "se_mkstemp en f (path @ ''.tmp.'') = Some tmp" "f' = f(tmp := None, path \<mapsto> bs)"
    using st by (rule store_disk_Inr)
  moreover have "f tmp = None" if "se_mkstemp en f (path @ ''.tmp.'') = Some tmp" for tmp
    using mk that by (simp add: mkstemp_fresh_def)
  ultimately have "\<forall>p. p \<noteq> path \<longrightarrow> f' p = f p" by auto
  with load_stored_file [OF st ok] show ?thesis by blast
qed

lemma sample_store:
  "\<exists>f'. ds4_sess_store_disk sample_sess_env Map.empty [5, 6] None ''kv'' (Some ''t'') 3 = (Inr (), f')"
  by (simp add: sample_defs ds4_sess_store_disk_def sess_store_tokens_def
      ds4_kvstore_render_tokens_text_def write_session_file_def sess_body_def ds4_agent_kv_write_title_trailer_def
      written_def Let_def)

lemma session_file_roundtrip_witness:
  "\<exists>f' res. ds4_sess_store_disk sample_sess_env Map.empty [5, 6] None ''kv'' (Some ''t'') 3 = (Inr (), f')
     \<and> ds4_sess_load_disk sample_sess_env f' [] ''kv'' True = (Inr ([5, 6], res), [5, 6])"
proof -
  obtain f' where f': "ds4_sess_store_disk sample_sess_env Map.empty [5, 6] None ''kv'' (Some ''t'') 3 = (Inr (), f')"
    using sample_store by blast
  have t: "so_tokens (se_api sample_sess_env) [5, 6] = Some [5, 6]" by (simp add: sample_defs)
  have "disk_ok sample_sess_env ''kv'' [5, 6] [] [5, 6]" by (rule sample_disk_ok) simp_all
  from session_file_roundtrip [OF f' this sample_mkstemp] t f' show ?thesis by auto
qed

text \<open>a store that fails leaves every file as it was but the temporary one, which is gone when it can
  be unlinked.\<close>

theorem session_store_atomic:
  assumes st: "ds4_sess_store_disk en f s tokens0 path title created_at = (Inl e, f')"
    and mk: "mkstemp_fresh en" and un: "\<And>p. io_unlink_ok (se_io en) p"
  shows "f' = f"
  using store_disk_Inl [OF st]
proof (elim disjE exE conjE)
  fix tmp
  assume "se_mkstemp en f (path @ ''.tmp.'') = Some tmp" "\<forall>p. p \<noteq> tmp \<longrightarrow> f' p = f p"
    "io_unlink_ok (se_io en) tmp \<longrightarrow> f' tmp = None"
  then show ?thesis using mk un by (intro ext) (metis mkstemp_fresh_def)
qed

lemma session_store_atomic_witness:
  "\<exists>e. ds4_sess_store_disk sample_sess_env (Map.empty(''a'' \<mapsto> [1])) [5, 6] None [] (Some ''t'') 3
     = (Inl e, Map.empty(''a'' \<mapsto> [1]))"
proof -
  have "\<exists>e f'. ds4_sess_store_disk sample_sess_env (Map.empty(''a'' \<mapsto> [1])) [5, 6] None [] (Some ''t'') 3 = (Inl e, f')"
    by (rule store_disk_no_rename) (simp add: sample_sess_env_def)
  then obtain e f' where st: "ds4_sess_store_disk sample_sess_env (Map.empty(''a'' \<mapsto> [1])) [5, 6] None [] (Some ''t'') 3 = (Inl e, f')"
    by blast
  have "f' = Map.empty(''a'' \<mapsto> [1])"
    by (rule session_store_atomic [OF st sample_mkstemp]) (simp add: sample_sess_env_def good_io_def)
  with st show ?thesis by blast
qed

text \<open>The header of a session file records the reason 0, unknown, not the code of an agent session:
  the names the store passes are spelled with underscores. Its flag says whether a title follows.\<close>

theorem session_file_reason_unknown:
  assumes st: "ds4_sess_store_disk en f s tokens0 path title created_at = (Inr (), f')"
    and ts: "so_tokens (se_api en) s = Some ts" "ts \<noteq> []" "length ts < 2 ^ 31"
  shows "\<exists>bytes hdr tb. f' path = Some bytes \<and> ds4_kvstore_read_header bytes = Some (hdr, tb)
     \<and> ke_reason hdr = 0 \<and> ke_reason hdr \<noteq> DS4_KVSTORE_REASON_AGENT_SESSION
     \<and> (ke_ext_flags hdr AND DS4_KVSTORE_EXT_SESSION_TITLE \<noteq> 0 \<longleftrightarrow> title \<noteq> None)
     \<and> ke_tokens hdr = of_nat (length ts) \<and> ke_payload_bytes hdr = sa_payload_bytes (se_api en) s"
proof -
  obtain payload where p: "f' path = Some (session_file en s ts payload title created_at)"
    "eng_quant_bits (se_eng en) = 2 \<or> eng_quant_bits (se_eng en) = 4"
    using ts(1) by (rule_tac store_disk_Inr [OF st]) auto
  have tn: "(of_nat (length ts) :: u32) \<noteq> 0" using ts(2,3) by (simp add: of_nat32_nz)
  show ?thesis
    using p(1) tn quant_byte [OF p(2)]
    by (simp add: session_file_def sess_header_def Let_def read_fill_header ds4_kvstore_reason_code_def
        DS4_KVSTORE_EXT_SESSION_TITLE_def DS4_KVSTORE_REASON_AGENT_SESSION_def)
qed

lemma session_file_reason_unknown_witness:
  "\<exists>f' bytes hdr tb. ds4_sess_store_disk sample_sess_env Map.empty [5, 6] None ''kv'' (Some ''t'') 3 = (Inr (), f')
     \<and> f' ''kv'' = Some bytes \<and> ds4_kvstore_read_header bytes = Some (hdr, tb) \<and> ke_reason hdr = 0"
proof -
  obtain f' where f': "ds4_sess_store_disk sample_sess_env Map.empty [5, 6] None ''kv'' (Some ''t'') 3 = (Inr (), f')"
    using sample_store by blast
  have t: "so_tokens (se_api sample_sess_env) [5, 6] = Some [5, 6]" by (simp add: sample_defs)
  from session_file_reason_unknown [OF f' t] f' show ?thesis by auto
qed

end
