(* ===== verification/CText.thy ===== *)
theory CText
  imports Prelude
begin

text \<open>
  Functions of the C library on text that the command line and the HTTP front end use. A C string
  is a HOL \<open>string\<close> without its NUL; a pointer into it is the rest of the string from there.
\<close>

section \<open>strtol\<close>

abbreviation LONG_MAX :: int where
  "LONG_MAX \<equiv> 9223372036854775807"

abbreviation LONG_MIN :: int where
  "LONG_MIN \<equiv> - 9223372036854775808"

abbreviation INT_MAX :: int where
  "INT_MAX \<equiv> 2147483647"

text \<open>\<^verbatim>\<open>strtol(s, &end, 10)\<close>: white space, an optional sign and digits; the value is clamped to the range
  of \<^verbatim>\<open>long\<close>, and \<^verbatim>\<open>end\<close> is \<^verbatim>\<open>s\<close> itself when there is no digit.\<close>

definition strtol10 :: "string \<Rightarrow> int \<times> string" where
  "strtol10 s =
     (let t = dropWhile isspace s;
          neg = (t \<noteq> [] \<and> hd t = CHR ''-'');
          u = (if t \<noteq> [] \<and> (hd t = CHR ''-'' \<or> hd t = CHR ''+'') then tl t else t);
          ds = takeWhile isdigit u
      in if ds = [] then (0, s)
         else let v = int (digits_val 0 ds) in
           (if neg then max LONG_MIN (- v) else min LONG_MAX v, drop (length ds) u))"

text \<open>A text whose \<^verbatim>\<open>strtol\<close> stops at its end is a number after optional white space and a sign.\<close>

lemma digits_val_digits: "digits_val a ds = a * 10 ^ length ds + digits_val 0 ds"
proof (induction ds arbitrary: a)
  case (Cons d ds)
  show ?case
    using Cons.IH [of "a * 10 + (ord d - 48)"] Cons.IH [of "ord d - 48"] by (simp add: algebra_simps)
qed simp

lemma strtol10_digits:
  assumes "ds \<noteq> []" "list_all isdigit ds"
  shows "strtol10 ds = (min LONG_MAX (int (digits_val 0 ds)), [])"
proof -
  have d: "\<not> isspace c \<and> c \<noteq> CHR ''-'' \<and> c \<noteq> CHR ''+''" if "isdigit c" for c
    using that by (auto simp: isdigit_def isspace_def ord_def)
  obtain c cs where ds: "ds = c # cs" using assms(1) by (cases ds) auto
  have "dropWhile isspace ds = ds" "hd ds \<noteq> CHR ''-''" "hd ds \<noteq> CHR ''+''"
    using d [of c] assms(2) by (simp_all add: ds)
  moreover have tk: "takeWhile isdigit ds = ds" using assms(2) by (simp add: list_all_iff takeWhile_eq_all_conv)
  ultimately show ?thesis using assms(1) by (simp add: strtol10_def Let_def tk)
qed

section \<open>Searching\<close>

text \<open>\<^verbatim>\<open>strchr(s, c)\<close> as the text from the first occurrence on, and \<^verbatim>\<open>strstr\<close> likewise.\<close>

definition strchr_at :: "char \<Rightarrow> string \<Rightarrow> string option" where
  "strchr_at c s = (let t = dropWhile (\<lambda>x. x \<noteq> c) s in if t = [] then None else Some t)"

fun strstr_at :: "string \<Rightarrow> string \<Rightarrow> string option" where
  "strstr_at needle s =
     (if take (length needle) s = needle then Some s
      else case s of [] \<Rightarrow> None | _ # r \<Rightarrow> strstr_at needle r)"

declare strstr_at.simps [simp del]

definition strcasecmp_n :: "nat \<Rightarrow> string \<Rightarrow> string \<Rightarrow> bool" where
  "strcasecmp_n n a b \<longleftrightarrow> map tolower (take n a) = map tolower (take n b)"

lemma strchr_at_Some:
  "strchr_at c s = Some t \<Longrightarrow> \<exists>pre. s = pre @ t \<and> c \<notin> set pre \<and> t \<noteq> [] \<and> hd t = c"
proof -
  assume "strchr_at c s = Some t"
  then have t: "t = dropWhile (\<lambda>x. x \<noteq> c) s" "t \<noteq> []" by (auto simp: strchr_at_def Let_def split: if_splits)
  then have "s = takeWhile (\<lambda>x. x \<noteq> c) s @ t" by simp
  moreover have "c \<notin> set (takeWhile (\<lambda>x. x \<noteq> c) s)" using set_takeWhileD by fastforce
  moreover have "hd t = c" using t hd_dropWhile by blast
  ultimately show ?thesis using t(2) by blast
qed

lemma strstr_at_Some:
  "strstr_at needle s = Some t \<Longrightarrow> \<exists>pre. s = pre @ t \<and> take (length needle) t = needle"
proof (induction needle s rule: strstr_at.induct)
  case (1 needle s)
  show ?case
  proof (cases "take (length needle) s = needle")
    case True
    then show ?thesis using 1(2) by (subst (asm) strstr_at.simps) (auto intro: exI [of _ "[]"])
  next
    case False
    then obtain c r where s: "s = c # r" "strstr_at needle r = Some t"
      using 1(2) by (subst (asm) strstr_at.simps) (auto split: list.splits)
    then obtain pre where "r = pre @ t" "take (length needle) t = needle" using 1(1) [OF False s(1)] by blast
    then show ?thesis using s(1) by (intro exI [of _ "c # pre"]) simp
  qed
qed

end
