(* ===== verification/WrapperConfig.thy ===== *)
theory WrapperConfig
  imports Wrapper CText
begin

text \<open>
  The command line of the wrapper (\<^verbatim>\<open>ds4_wrapper_config.c\<close>). Every place where the program exits
  is a value of \<open>opt_exit\<close>. The C library's \<^verbatim>\<open>strtof\<close> is a parameter, since its rounding is not the
  wrapper's: a value (\<open>None\<close> is a NaN, which compares false with every bound) and the text after
  the number.
\<close>

section \<open>The configuration\<close>

datatype backend = BACKEND_METAL | BACKEND_CUDA | BACKEND_CPU

text \<open>The engine options that the wrapper sets.\<close>

record engine_options =
  eo_model_path :: string
  eo_mtp_path :: "string option"
  eo_backend :: backend
  eo_n_threads :: int
  eo_mtp_draft_tokens :: int
  eo_mtp_margin :: "real option"
  eo_steering_file :: "string option"
  eo_steering_attn :: "real option"
  eo_steering_ffn :: "real option"
  eo_power_percent :: int
  eo_warm_weights :: bool
  eo_quality :: bool

record wrapper_config =
  wc_engine :: engine_options
  wc_ctx_size :: int
  wc_default_tokens :: int
  wc_host :: string
  wc_port :: int
  wc_trace_path :: "string option"
  wc_kv_disk_dir :: "string option"
  wc_kv_disk_space_mb :: u64
  wc_kv_options :: kv_options
  wc_kv_reject_different_quant :: bool
  wc_max_queued_jobs :: int
  wc_tool_memory_max_ids :: int
  wc_startup_mode :: wrap_mode
  wc_freeze_on_switch :: bool
  wc_free_inactive_session :: bool
  wc_allow_browser :: bool
  wc_ram_freeze_max_mb :: u64
  wc_agent_system_prompt :: string

datatype opt_exit =
    ShowHelp
  | InvalidValue string string
  | MissingValue string
  | InvalidBackend string string
  | PowerOutOfRange
  | InvalidStartupMode string
  | JobsNotOne
  | UnknownOption string
  | ColdBelowMin

section \<open>Reading one value\<close>

definition parse_int_arg :: "string \<Rightarrow> string \<Rightarrow> opt_exit + int" where
  "parse_int_arg s opt =
     (let (v, fin) = strtol10 s in
      if s = [] \<or> fin \<noteq> [] \<or> v \<le> 0 \<or> INT_MAX < v then Inl (InvalidValue opt s) else Inr v)"

definition parse_nonneg_int_arg :: "string \<Rightarrow> string \<Rightarrow> opt_exit + int" where
  "parse_nonneg_int_arg s opt =
     (let (v, fin) = strtol10 s in
      if s = [] \<or> fin \<noteq> [] \<or> v < 0 \<or> INT_MAX < v then Inl (InvalidValue opt s) else Inr v)"

definition parse_float_arg ::
  "(string \<Rightarrow> real option \<times> string) \<Rightarrow> string \<Rightarrow> string \<Rightarrow> real \<Rightarrow> real \<Rightarrow> opt_exit + real option" where
  "parse_float_arg strtof s opt minv maxv =
     (let (v, fin) = strtof s in
      if s = [] \<or> fin \<noteq> [] \<or> (case v of None \<Rightarrow> False | Some x \<Rightarrow> x < minv \<or> maxv < x)
      then Inl (InvalidValue opt s) else Inr v)"

text \<open>The value of an option is the next argument.\<close>

definition need_arg :: "string list \<Rightarrow> string \<Rightarrow> opt_exit + (string \<times> string list)" where
  "need_arg rest opt = (case rest of [] \<Rightarrow> Inl (MissingValue opt) | a # r \<Rightarrow> Inr (a, r))"

definition parse_backend_arg :: "string \<Rightarrow> string \<Rightarrow> opt_exit + backend" where
  "parse_backend_arg s arg =
     (if s = ''metal'' then Inr BACKEND_METAL
      else if s = ''cuda'' then Inr BACKEND_CUDA
      else if s = ''cpu'' then Inr BACKEND_CPU
      else Inl (InvalidBackend arg s))"

text \<open>\<open>dflt\<close> is the backend the build chooses (\<^verbatim>\<open>default_backend\<close>).\<close>

definition ds4_wrapper_default_config :: "backend \<Rightarrow> wrapper_config" where
  "ds4_wrapper_default_config dflt =
     \<lparr>wc_engine = \<lparr>eo_model_path = ''ds4flash.gguf'', eo_mtp_path = None, eo_backend = dflt, eo_n_threads = 0,
        eo_mtp_draft_tokens = 1, eo_mtp_margin = Some 3, eo_steering_file = None, eo_steering_attn = Some 0,
        eo_steering_ffn = Some 0, eo_power_percent = 0, eo_warm_weights = False, eo_quality = False\<rparr>,
      wc_ctx_size = 32768, wc_default_tokens = 393216, wc_host = ''127.0.0.1'', wc_port = 8000,
      wc_trace_path = None, wc_kv_disk_dir = None, wc_kv_disk_space_mb = 0,
      wc_kv_options = ds4_kvstore_default_options, wc_kv_reject_different_quant = False,
      wc_max_queued_jobs = 1, wc_tool_memory_max_ids = 1000, wc_startup_mode = MODE_SERVER,
      wc_freeze_on_switch = False, wc_free_inactive_session = False, wc_allow_browser = False,
      wc_ram_freeze_max_mb = 0,
      wc_agent_system_prompt = ''You are a helpful coding assistant running inside ds4-studio.''\<rparr>"

section \<open>The options\<close>

definition upd_engine :: "(engine_options \<Rightarrow> engine_options) \<Rightarrow> wrapper_config \<Rightarrow> wrapper_config" where
  "upd_engine f c = c\<lparr>wc_engine := f (wc_engine c)\<rparr>"

definition with_arg ::
  "string list \<Rightarrow> string \<Rightarrow> (string \<Rightarrow> opt_exit + 'c) \<Rightarrow> opt_exit + ('c \<times> string list)" where
  "with_arg rest opt k = bind_res (need_arg rest opt) (\<lambda>(v, r). bind_res (k v) (\<lambda>c. Inr (c, r)))"

text \<open>One turn of the loop: the configuration, whether a steering scale was given, and the arguments
  that are left.\<close>

definition parse_option ::
  "(string \<Rightarrow> real option \<times> string) \<Rightarrow> wrapper_config \<Rightarrow> bool \<Rightarrow> string \<Rightarrow> string list
     \<Rightarrow> opt_exit + ((wrapper_config \<times> bool) \<times> string list)" where
  "parse_option strtof c s arg rest =
     (if arg = ''-h'' \<or> arg = ''--help'' then Inl ShowHelp
      else if arg = ''-m'' \<or> arg = ''--model''
      then with_arg rest arg (\<lambda>v. Inr (upd_engine (eo_model_path_update (\<lambda>_. v)) c, s))
      else if arg = ''--mtp''
      then with_arg rest arg (\<lambda>v. Inr (upd_engine (eo_mtp_path_update (\<lambda>_. Some v)) c, s))
      else if arg = ''--mtp-draft''
      then with_arg rest arg (\<lambda>v. bind_res (parse_int_arg v arg)
          (\<lambda>x. Inr (upd_engine (eo_mtp_draft_tokens_update (\<lambda>_. x)) c, s)))
      else if arg = ''--mtp-margin''
      then with_arg rest arg (\<lambda>v. bind_res (parse_float_arg strtof v arg (0) 1000)
          (\<lambda>x. Inr (upd_engine (eo_mtp_margin_update (\<lambda>_. x)) c, s)))
      else if arg = ''-c'' \<or> arg = ''--ctx''
      then with_arg rest arg (\<lambda>v. bind_res (parse_int_arg v arg)
          (\<lambda>x. Inr (c\<lparr>wc_ctx_size := x\<rparr>, s)))
      else if arg = ''-n'' \<or> arg = ''--tokens''
      then with_arg rest arg (\<lambda>v. bind_res (parse_int_arg v arg)
          (\<lambda>x. Inr (c\<lparr>wc_default_tokens := x\<rparr>, s)))
      else if arg = ''-t'' \<or> arg = ''--threads''
      then with_arg rest arg (\<lambda>v. bind_res (parse_int_arg v arg)
          (\<lambda>x. Inr (upd_engine (eo_n_threads_update (\<lambda>_. x)) c, s)))
      else if arg = ''--host''
      then with_arg rest arg (\<lambda>v. Inr (c\<lparr>wc_host := v\<rparr>, s))
      else if arg = ''--port''
      then with_arg rest arg (\<lambda>v. bind_res (parse_int_arg v arg)
          (\<lambda>x. Inr (c\<lparr>wc_port := x\<rparr>, s)))
      else if arg = ''--trace''
      then with_arg rest arg (\<lambda>v. Inr (c\<lparr>wc_trace_path := Some v\<rparr>, s))
      else if arg = ''--backend''
      then with_arg rest arg (\<lambda>v. bind_res (parse_backend_arg v arg)
          (\<lambda>x. Inr (upd_engine (eo_backend_update (\<lambda>_. x)) c, s)))
      else if arg = ''--metal''
      then Inr ((upd_engine (eo_backend_update (\<lambda>_. BACKEND_METAL)) c, s), rest)
      else if arg = ''--cuda''
      then Inr ((upd_engine (eo_backend_update (\<lambda>_. BACKEND_CUDA)) c, s), rest)
      else if arg = ''--cpu''
      then Inr ((upd_engine (eo_backend_update (\<lambda>_. BACKEND_CPU)) c, s), rest)
      else if arg = ''--quality''
      then Inr ((upd_engine (eo_quality_update (\<lambda>_. True)) c, s), rest)
      else if arg = ''--warm-weights''
      then Inr ((upd_engine (eo_warm_weights_update (\<lambda>_. True)) c, s), rest)
      else if arg = ''--dir-steering-file''
      then with_arg rest arg (\<lambda>v. Inr (upd_engine (eo_steering_file_update (\<lambda>_. Some v)) c, s))
      else if arg = ''--dir-steering-ffn''
      then with_arg rest arg (\<lambda>v. bind_res (parse_float_arg strtof v arg (- 100) 100)
          (\<lambda>x. Inr (upd_engine (eo_steering_ffn_update (\<lambda>_. x)) c, True)))
      else if arg = ''--dir-steering-attn''
      then with_arg rest arg (\<lambda>v. bind_res (parse_float_arg strtof v arg (- 100) 100)
          (\<lambda>x. Inr (upd_engine (eo_steering_attn_update (\<lambda>_. x)) c, True)))
      else if arg = ''--power''
      then with_arg rest arg (\<lambda>v. bind_res (parse_int_arg v arg) (\<lambda>x.
          if x < 1 \<or> 100 < x then Inl PowerOutOfRange
          else Inr (upd_engine (eo_power_percent_update (\<lambda>_. x)) c, s)))
      else if arg = ''--kv-disk-dir''
      then with_arg rest arg (\<lambda>v. Inr (c\<lparr>wc_kv_disk_dir := Some v\<rparr>, s))
      else if arg = ''--kv-disk-space-mb''
      then with_arg rest arg (\<lambda>v. bind_res (parse_int_arg v arg)
          (\<lambda>x. Inr (c\<lparr>wc_kv_disk_space_mb := of_int x\<rparr>, s)))
      else if arg = ''--kv-cache-min-tokens''
      then with_arg rest arg (\<lambda>v. bind_res (parse_int_arg v arg)
          (\<lambda>x. Inr (c\<lparr>wc_kv_options := (wc_kv_options c)\<lparr>min_tokens := x\<rparr>\<rparr>, s)))
      else if arg = ''--kv-cache-cold-max-tokens''
      then with_arg rest arg (\<lambda>v. bind_res (parse_nonneg_int_arg v arg)
          (\<lambda>x. Inr (c\<lparr>wc_kv_options := (wc_kv_options c)\<lparr>cold_max_tokens := x\<rparr>\<rparr>, s)))
      else if arg = ''--kv-cache-continued-interval-tokens''
      then with_arg rest arg (\<lambda>v. bind_res (parse_nonneg_int_arg v arg)
          (\<lambda>x. Inr (c\<lparr>wc_kv_options := (wc_kv_options c)\<lparr>continued_interval_tokens := x\<rparr>\<rparr>, s)))
      else if arg = ''--kv-cache-boundary-trim-tokens''
      then with_arg rest arg (\<lambda>v. bind_res (parse_nonneg_int_arg v arg)
          (\<lambda>x. Inr (c\<lparr>wc_kv_options := (wc_kv_options c)\<lparr>boundary_trim_tokens := x\<rparr>\<rparr>, s)))
      else if arg = ''--kv-cache-boundary-align-tokens''
      then with_arg rest arg (\<lambda>v. bind_res (parse_nonneg_int_arg v arg)
          (\<lambda>x. Inr (c\<lparr>wc_kv_options := (wc_kv_options c)\<lparr>boundary_align_tokens := x\<rparr>\<rparr>, s)))
      else if arg = ''--kv-cache-reject-different-quant''
      then Inr ((c\<lparr>wc_kv_reject_different_quant := True\<rparr>, s), rest)
      else if arg = ''--tool-memory-max-ids''
      then with_arg rest arg (\<lambda>v. bind_res (parse_int_arg v arg)
          (\<lambda>x. Inr (c\<lparr>wc_tool_memory_max_ids := x\<rparr>, s)))
      else if arg = ''--agent-system-prompt''
      then with_arg rest arg (\<lambda>v. Inr (c\<lparr>wc_agent_system_prompt := v\<rparr>, s))
      else if arg = ''--startup-mode''
      then with_arg rest arg (\<lambda>v. if v = ''server'' then Inr (c\<lparr>wc_startup_mode := MODE_SERVER\<rparr>, s)
          else if v = ''agent'' then Inr (c\<lparr>wc_startup_mode := MODE_AGENT\<rparr>, s) else Inl (InvalidStartupMode v))
      else if arg = ''--freeze-on-switch''
      then Inr ((c\<lparr>wc_freeze_on_switch := True\<rparr>, s), rest)
      else if arg = ''--free-inactive-session''
      then Inr ((c\<lparr>wc_free_inactive_session := True\<rparr>, s), rest)
      else if arg = ''--agent-allow-browser''
      then Inr ((c\<lparr>wc_allow_browser := True\<rparr>, s), rest)
      else if arg = ''--ram-freeze-max-mb''
      then with_arg rest arg (\<lambda>v. bind_res (parse_int_arg v arg)
          (\<lambda>x. Inr (c\<lparr>wc_ram_freeze_max_mb := of_int x\<rparr>, s)))
      else if arg = ''--max-queued-jobs''
      then with_arg rest arg (\<lambda>v. bind_res (parse_int_arg v arg) (\<lambda>x.
          if x \<noteq> 1 then Inl JobsNotOne else Inr (c\<lparr>wc_max_queued_jobs := x\<rparr>, s)))
      else Inl (UnknownOption arg))"

text \<open>A property of the result of a turn, collected branch by branch: what is left of the arguments, and
  what holds of the configuration.\<close>

definition turn_ok ::
  "(wrapper_config \<Rightarrow> bool \<Rightarrow> bool) \<Rightarrow> string list \<Rightarrow> opt_exit + ((wrapper_config \<times> bool) \<times> string list) \<Rightarrow> bool" where
  "turn_ok P rest r = (case r of Inl _ \<Rightarrow> True | Inr ((c, s), rest') \<Rightarrow> P c s \<and> length rest' \<le> length rest)"

lemma turn_if [intro]: "turn_ok P rest x \<Longrightarrow> turn_ok P rest y \<Longrightarrow> turn_ok P rest (if b then x else y)"
  by simp

lemma turn_Inl [intro]: "turn_ok P rest (Inl e)"
  by (simp add: turn_ok_def)

lemma turn_Inr [intro]: "P c s \<Longrightarrow> turn_ok P rest (Inr ((c, s), rest))"
  by (simp add: turn_ok_def)

lemma turn_with_arg [intro]:
  "(\<And>v c s. k v = Inr (c, s) \<Longrightarrow> P c s) \<Longrightarrow> turn_ok P rest (with_arg rest opt k)"
  by (auto simp: turn_ok_def with_arg_def need_arg_def bind_res_def split: list.splits sum.splits)

lemma parse_option_shorter:
  assumes "parse_option strtof c s arg rest = Inr (cs, r)"
  shows "length r \<le> length rest"
proof -
  have "turn_ok (\<lambda>_ _. True) rest (parse_option strtof c s arg rest)"
    unfolding parse_option_def by (intro turn_if turn_Inl turn_Inr turn_with_arg TrueI)
  then show ?thesis using assms by (auto simp: turn_ok_def split: prod.splits)
qed

function parse_loop ::
  "(string \<Rightarrow> real option \<times> string) \<Rightarrow> wrapper_config \<Rightarrow> bool \<Rightarrow> string list \<Rightarrow> opt_exit + (wrapper_config \<times> bool)" where
  "parse_loop strtof c s [] = Inr (c, s)"
| "parse_loop strtof c s (arg # rest) =
     (case parse_option strtof c s arg rest of Inl e \<Rightarrow> Inl e
      | Inr ((c', s'), rest') \<Rightarrow> parse_loop strtof c' s' rest')"
  by pat_completeness auto
termination
  by (relation "measure (\<lambda>(strtof, c, s, args). length args)")
    (auto dest!: parse_option_shorter simp: less_Suc_eq_le)

text \<open>\<open>argv\<close> starts with the name of the program.\<close>

definition ds4_wrapper_parse_options ::
  "(string \<Rightarrow> real option \<times> string) \<Rightarrow> backend \<Rightarrow> string list \<Rightarrow> opt_exit + wrapper_config" where
  "ds4_wrapper_parse_options strtof dflt argv =
     bind_res (parse_loop strtof (ds4_wrapper_default_config dflt) False (tl argv)) (\<lambda>(c, s).
       if 0 < cold_max_tokens (wc_kv_options c) \<and> cold_max_tokens (wc_kv_options c) < min_tokens (wc_kv_options c)
       then Inl ColdBelowMin
       else if eo_steering_file (wc_engine c) \<noteq> None \<and> \<not> s
       then Inr (upd_engine (eo_steering_ffn_update (\<lambda>_. Some 1)) c)
       else Inr c)"

section \<open>What the wrapper is started with\<close>

definition init_config :: "wrapper_config \<Rightarrow> wrap_init_config" where
  "init_config c = \<lparr>ic_ctx_size = wc_ctx_size c, ic_default_tokens = wc_default_tokens c,
     ic_startup_mode = wc_startup_mode c, ic_ram_freeze_max_mb = wc_ram_freeze_max_mb c,
     ic_agent_system_prompt = wc_agent_system_prompt c, ic_allow_browser = wc_allow_browser c\<rparr>"

section \<open>Every value is in its range\<close>

definition config_ok :: "wrapper_config \<Rightarrow> bool" where
  "config_ok c \<longleftrightarrow>
     1 \<le> wc_ctx_size c \<and> wc_ctx_size c \<le> INT_MAX \<and> 1 \<le> wc_default_tokens c \<and> wc_default_tokens c \<le> INT_MAX
     \<and> 1 \<le> wc_port c \<and> wc_port c \<le> INT_MAX \<and> wc_max_queued_jobs c = 1 \<and> 1 \<le> wc_tool_memory_max_ids c
     \<and> 0 \<le> eo_n_threads (wc_engine c) \<and> 1 \<le> eo_mtp_draft_tokens (wc_engine c)
     \<and> 0 \<le> eo_power_percent (wc_engine c) \<and> eo_power_percent (wc_engine c) \<le> 100
     \<and> 1 \<le> min_tokens (wc_kv_options c) \<and> 0 \<le> cold_max_tokens (wc_kv_options c)
     \<and> 0 \<le> continued_interval_tokens (wc_kv_options c) \<and> 0 \<le> boundary_trim_tokens (wc_kv_options c)
     \<and> 0 \<le> boundary_align_tokens (wc_kv_options c)
     \<and> unat (wc_kv_disk_space_mb c) < 2 ^ 31 \<and> unat (wc_ram_freeze_max_mb c) < 2 ^ 31"

lemma parse_int_arg_range: "parse_int_arg s opt = Inr x \<Longrightarrow> 1 \<le> x \<and> x \<le> INT_MAX"
  by (auto simp: parse_int_arg_def split: prod.splits if_splits)

lemma parse_nonneg_int_arg_range: "parse_nonneg_int_arg s opt = Inr x \<Longrightarrow> 0 \<le> x \<and> x \<le> INT_MAX"
  by (auto simp: parse_nonneg_int_arg_def split: prod.splits if_splits)

lemma unat_of_int_bound: "1 \<le> x \<Longrightarrow> x \<le> INT_MAX \<Longrightarrow> unat (of_int x :: u64) < 2147483648"
proof -
  assume x: "1 \<le> x" "x \<le> INT_MAX"
  then have "unat (of_int x :: u64) = nat x" by (simp add: unat_eq_nat_uint unsigned_of_int take_bit_int_eq_self)
  then show ?thesis using x by (simp add: nat_less_iff)
qed

lemma default_config_ok: "config_ok (ds4_wrapper_default_config dflt)"
  by (simp add: config_ok_def ds4_wrapper_default_config_def ds4_kvstore_default_options_def)

lemma parse_option_ok:
  assumes "config_ok c"
  shows "turn_ok (\<lambda>c s. config_ok c) rest (parse_option strtof c s arg rest)"
  unfolding parse_option_def
  by (intro turn_if turn_Inl turn_Inr turn_with_arg; use assms in
      \<open>auto simp: config_ok_def upd_engine_def unat_of_int_bound split: if_split_asm
         dest!: parse_int_arg_range parse_nonneg_int_arg_range\<close>)

lemma parse_loop_ok: "parse_loop strtof c s args = Inr (c', s') \<Longrightarrow> config_ok c \<Longrightarrow> config_ok c'"
proof (induction strtof c s args arbitrary: c' s' rule: parse_loop.induct)
  case (2 strtof c s arg rest)
  then obtain c1 s1 r where p: "parse_option strtof c s arg rest = Inr ((c1, s1), r)"
    and l: "parse_loop strtof c1 s1 r = Inr (c', s')"
    by (auto split: sum.splits)
  have "config_ok c1"
    using parse_option_ok [OF 2(3), of rest strtof s arg] unfolding p by (simp add: turn_ok_def)
  then show ?case using 2(1) [OF p refl refl l] by simp
qed simp

section \<open>Options are read from left to right\<close>

text \<open>A turn that succeeds does not look at the arguments behind those it uses.\<close>

definition extends :: "string list \<Rightarrow> opt_exit + ('c \<times> string list) \<Rightarrow> opt_exit + ('c \<times> string list) \<Rightarrow> bool" where
  "extends ys x y \<longleftrightarrow> (\<forall>c r. x = Inr (c, r) \<longrightarrow> y = Inr (c, r @ ys))"

lemma extends_if: "extends ys x x' \<Longrightarrow> extends ys y y' \<Longrightarrow> extends ys (if b then x else y) (if b then x' else y')"
  by simp

lemma extends_Inl: "extends ys (Inl e) (Inl e)"
  by (simp add: extends_def)

lemma extends_Inr: "extends ys (Inr (c, r)) (Inr (c, r @ ys))"
  by (simp add: extends_def)

lemma extends_with_arg: "extends ys (with_arg rest opt k) (with_arg (rest @ ys) opt k)"
  by (auto simp: extends_def with_arg_def need_arg_def bind_res_def split: list.splits sum.splits)

lemma parse_option_extends:
  "extends ys (parse_option strtof c s arg rest) (parse_option strtof c s arg (rest @ ys))"
  unfolding parse_option_def
  by (intro extends_if extends_Inl extends_Inr extends_with_arg)

lemma parse_loop_append:
  "parse_loop strtof c s xs = Inr (c', s') \<Longrightarrow> parse_loop strtof c s (xs @ ys) = parse_loop strtof c' s' ys"
proof (induction strtof c s xs arbitrary: c' s' rule: parse_loop.induct)
  case (2 strtof c s arg rest)
  then obtain c1 s1 r where p: "parse_option strtof c s arg rest = Inr ((c1, s1), r)"
    and l: "parse_loop strtof c1 s1 r = Inr (c', s')"
    by (auto split: sum.splits)
  have "parse_option strtof c s arg (rest @ ys) = Inr ((c1, s1), r @ ys)"
    using parse_option_extends [of ys strtof c s arg rest] p by (simp add: extends_def)
  then show ?case using 2(1) [OF p refl refl l] by simp
qed simp

section \<open>Properties\<close>

text \<open>a configuration the command line is parsed into has every value in its range, exactly one
  queued job and a cold limit that is zero or not below the minimum; so the RAM budget in bytes that
  the wrapper computes from it is exact.\<close>

theorem parsed_config_in_range:
  assumes "ds4_wrapper_parse_options strtof dflt argv = Inr c"
  shows "config_ok c \<and> (cold_max_tokens (wc_kv_options c) = 0 \<or> min_tokens (wc_kv_options c) \<le> cold_max_tokens (wc_kv_options c))
     \<and> unat (w_ram_freeze_max_bytes (ds4_wrapper_init (init_config c))) = unat (wc_ram_freeze_max_mb c) * 1024 * 1024"
proof -
  obtain c0 s where l: "parse_loop strtof (ds4_wrapper_default_config dflt) False (tl argv) = Inr (c0, s)"
    and g: "\<not> (0 < cold_max_tokens (wc_kv_options c0) \<and> cold_max_tokens (wc_kv_options c0) < min_tokens (wc_kv_options c0))"
    and c: "c = c0 \<or> c = upd_engine (eo_steering_ffn_update (\<lambda>_. Some 1)) c0"
    using assms by (auto simp: ds4_wrapper_parse_options_def split: if_split_asm)
  have ok: "config_ok c0" using parse_loop_ok [OF l default_config_ok] .
  then have okc: "config_ok c" and kv: "wc_kv_options c = wc_kv_options c0"
    using c by (auto simp: config_ok_def upd_engine_def)
  have mb: "unat (wc_ram_freeze_max_mb c) < 2147483648" using okc by (simp add: config_ok_def)
  then have k: "unat (wc_ram_freeze_max_mb c * 1024) = unat (wc_ram_freeze_max_mb c) * 1024"
    by (subst unat_mult64) simp_all
  have "unat (wc_ram_freeze_max_mb c * 1024 * 1024) = unat (wc_ram_freeze_max_mb c) * 1024 * 1024"
    using mb by (subst unat_mult64) (simp_all add: k)
  moreover have "0 \<le> cold_max_tokens (wc_kv_options c)" using okc by (simp add: config_ok_def)
  ultimately show ?thesis using okc g kv by (auto simp: ds4_wrapper_init_def init_config_def)
qed

lemma digits_sample: "strtol10 ''64'' = (64, [])"
  by (simp add: strtol10_def isspace_def isdigit_def ord_def Let_def)

lemma parse_ctx: "parse_loop strtof c s [''--ctx'', ''64''] = Inr (c\<lparr>wc_ctx_size := 64\<rparr>, s)"
  by (simp add: parse_option_def with_arg_def need_arg_def parse_int_arg_def digits_sample)

lemma parsed_config_in_range_witness:
  "\<exists>c. ds4_wrapper_parse_options (\<lambda>s. (None, s)) BACKEND_CPU [''ds4-wrapper'', ''--ctx'', ''64''] = Inr c
     \<and> wc_ctx_size c = 64 \<and> config_ok c"
proof -
  have "\<exists>c. ds4_wrapper_parse_options (\<lambda>s. (None, s)) BACKEND_CPU [''ds4-wrapper'', ''--ctx'', ''64''] = Inr c \<and> wc_ctx_size c = 64"
    unfolding ds4_wrapper_parse_options_def
    by (simp only: list.sel parse_ctx bind_res_simps)
      (simp add: ds4_wrapper_default_config_def ds4_kvstore_default_options_def)
  then obtain c where c: "ds4_wrapper_parse_options (\<lambda>s. (None, s)) BACKEND_CPU [''ds4-wrapper'', ''--ctx'', ''64''] = Inr c"
    "wc_ctx_size c = 64" by blast
  with parsed_config_in_range [OF c(1)] show ?thesis by blast
qed

text \<open>Options are read from left to right and the last one wins: parsing more arguments after a
  complete list continues from the configuration it gave, so a repeated option overrides.\<close>

theorem later_options_win:
  assumes "parse_loop strtof c s xs = Inr (c1, s1)"
  shows "parse_loop strtof c s (xs @ ys) = parse_loop strtof c1 s1 ys
     \<and> (parse_int_arg v ''--ctx'' = Inr n
         \<longrightarrow> parse_loop strtof c s (xs @ [''--ctx'', v]) = Inr (c1\<lparr>wc_ctx_size := n\<rparr>, s1))"
  using assms by (simp add: parse_loop_append parse_option_def with_arg_def need_arg_def)

lemma later_options_win_witness:
  "parse_loop (\<lambda>s. (None, s)) (ds4_wrapper_default_config BACKEND_CPU) False ([''--ctx'', ''64''] @ [''--ctx'', ''64''])
     = Inr ((ds4_wrapper_default_config BACKEND_CPU)\<lparr>wc_ctx_size := 64\<rparr>, False)"
  using later_options_win [OF parse_ctx [of "\<lambda>s. (None, s)" "ds4_wrapper_default_config BACKEND_CPU" False], of "[]" "''64''" 64]
  by (simp add: parse_int_arg_def digits_sample)

end
