(* ===== verification/ServerJson.thy ===== *)
theory ServerJson
  imports Complex_Main CText
begin

text \<open>
  The JSON reader and writer of the server (\<^verbatim>\<open>ds4_server.c\<close>). The reader works on a pointer into the
  request body: a pointer is the text from there on, \<open>[]\<close> at the terminating NUL, and an operation
  that fails is \<open>None\<close>. The buffers it fills are the growable buffer of \<^verbatim>\<open>buf.c\<close>, here the text
  they hold (theory \<^verbatim>\<open>DynBuf\<close>; running out of memory ends the process). What a buffer hands out
  is a C string, so it is cut at the first NUL.
\<close>

section \<open>Characters\<close>

abbreviation QUOTE :: char where "QUOTE \<equiv> CHR 0x22"
abbreviation BSL :: char where "BSL \<equiv> CHR 0x5C"
abbreviation LF :: char where "LF \<equiv> CHR 0x0A"
abbreviation CR :: char where "CR \<equiv> CHR 0x0D"
abbreviation TAB :: char where "TAB \<equiv> CHR 0x09"
abbreviation BACKSPACE :: char where "BACKSPACE \<equiv> CHR 0x08"
abbreviation FORMFEED :: char where "FORMFEED \<equiv> CHR 0x0C"

definition json_ws :: "string \<Rightarrow> string" where
  "json_ws p = dropWhile isspace p"

definition json_lit :: "string \<Rightarrow> string \<Rightarrow> string option" where
  "json_lit p lit = (if take (length lit) p = lit then Some (drop (length lit) p) else None)"

definition json_hex :: "char \<Rightarrow> nat option" where
  "json_hex c =
     (if 48 \<le> ord c \<and> ord c \<le> 57 then Some (ord c - 48)
      else if 97 \<le> ord c \<and> ord c \<le> 102 then Some (10 + ord c - 97)
      else if 65 \<le> ord c \<and> ord c \<le> 70 then Some (10 + ord c - 65) else None)"

text \<open>The cast \<^verbatim>\<open>(char)\<close> keeps the low byte.\<close>

definition char_cast :: "u32 \<Rightarrow> char" where
  "char_cast w = char_of (unat w)"

definition utf8_put :: "u32 \<Rightarrow> string" where
  "utf8_put cp =
     (if cp \<le> 0x7f then [char_cast cp]
      else if cp \<le> 0x7ff then
        [char_cast (0xc0 OR drop_bit 6 cp), char_cast (0x80 OR (cp AND 0x3f))]
      else if cp \<le> 0xffff then
        [char_cast (0xe0 OR drop_bit 12 cp), char_cast (0x80 OR (drop_bit 6 cp AND 0x3f)),
         char_cast (0x80 OR (cp AND 0x3f))]
      else
        [char_cast (0xf0 OR drop_bit 18 cp), char_cast (0x80 OR (drop_bit 12 cp AND 0x3f)),
         char_cast (0x80 OR (drop_bit 6 cp AND 0x3f)), char_cast (0x80 OR (cp AND 0x3f))])"

section \<open>Strings\<close>

fun hex_loop :: "nat \<Rightarrow> u32 \<Rightarrow> string \<Rightarrow> (u32 \<times> string) option" where
  "hex_loop 0 cp s = Some (cp, s)"
| "hex_loop (Suc i) cp [] = None"
| "hex_loop (Suc i) cp (c # s) =
     (case json_hex c of None \<Rightarrow> None | Some h \<Rightarrow> hex_loop i (push_bit 4 cp OR of_nat h) s)"

definition json_u16 :: "string \<Rightarrow> (u32 \<times> string) option" where
  "json_u16 p = (if take 2 p = [BSL, CHR ''u''] then hex_loop 4 0 (drop 2 p) else None)"

text \<open>The code point of an escape, joined with the low surrogate that may follow. An escape behind a
  high surrogate that is no low surrogate has been read by then.\<close>

definition join_surrogate :: "u32 \<Rightarrow> string \<Rightarrow> u32 \<times> string" where
  "join_surrogate cp p =
     (if 0xd800 \<le> cp \<and> cp \<le> 0xdbff
      then (case json_u16 p of None \<Rightarrow> (cp, p)
        | Some (lo, p') \<Rightarrow>
          (if 0xdc00 \<le> lo \<and> lo \<le> 0xdfff then 0x10000 + push_bit 10 (cp - 0xd800) + (lo - 0xdc00) else cp, p'))
      else (cp, p))"

definition unescape :: "char \<Rightarrow> char option" where
  "unescape c =
     (if c = QUOTE then Some QUOTE else if c = BSL then Some BSL else if c = CHR ''/'' then Some (CHR ''/'')
      else if c = CHR ''b'' then Some BACKSPACE else if c = CHR ''f'' then Some FORMFEED
      else if c = CHR ''n'' then Some LF else if c = CHR ''r'' then Some CR
      else if c = CHR ''t'' then Some TAB else None)"

lemma hex_loop_length: "hex_loop i cp s = Some (v, r) \<Longrightarrow> length s = i + length r"
  by (induction i cp s arbitrary: v r rule: hex_loop.induct) (auto split: option.splits)

lemma json_u16_length: "json_u16 p = Some (v, r) \<Longrightarrow> length r + 6 = length p"
  using hex_loop_length [of 4 0 "drop 2 p" v r]
  by (auto simp: json_u16_def split: if_splits)

lemma join_surrogate_length: "length (snd (join_surrogate cp p)) \<le> length p"
  by (auto simp: join_surrogate_def split: option.splits dest: json_u16_length)

function json_chars :: "string \<Rightarrow> string \<Rightarrow> (string \<times> string) option" where
  "json_chars b p =
     (case p of [] \<Rightarrow> None
      | c # r \<Rightarrow>
        if c = QUOTE then Some (b, r)
        else if c \<noteq> BSL then json_chars (b @ [c]) r
        else (case r of [] \<Rightarrow> None
          | e # r' \<Rightarrow>
            if e = CHR ''u''
            then (case json_u16 p of None \<Rightarrow> None
                | Some (cp, p1) \<Rightarrow> json_chars (b @ utf8_put (fst (join_surrogate cp p1))) (snd (join_surrogate cp p1)))
            else (case unescape e of None \<Rightarrow> None | Some x \<Rightarrow> json_chars (b @ [x]) r')))"
  by pat_completeness auto
termination
proof (relation "measure (\<lambda>(b, p). length p)", goal_cases)
  case (3 b p c r e r' x cp p1)
  then show ?case using join_surrogate_length [of cp p1] json_u16_length [of p cp p1] by simp
qed auto

declare json_chars.simps [simp del]

definition json_string :: "string \<Rightarrow> (string \<times> string) option" where
  "json_string p =
     (case json_ws p of c # r \<Rightarrow>
        if c = QUOTE then map_option (\<lambda>(b, r'). (cstr b, r')) (json_chars [] r) else None
      | [] \<Rightarrow> None)"

section \<open>Numbers\<close>

text \<open>\<^verbatim>\<open>strtod\<close> in the C locale: which text it reads is written out, the double that text denotes is
  the parameter \<open>dval\<close> (its rounding is the platform's).\<close>

datatype dbl = Finite real | Infinite bool | Nan

definition read_exponent :: "char \<Rightarrow> string \<Rightarrow> string" where
  "read_exponent x s =
     (if s \<noteq> [] \<and> tolower (hd s) = x
      then let t = tl s; u = (if t \<noteq> [] \<and> (hd t = CHR ''-'' \<or> hd t = CHR ''+'') then tl t else t)
        in (if u \<noteq> [] \<and> isdigit (hd u) then dropWhile isdigit u else s)
      else s)"

definition read_mantissa :: "(char \<Rightarrow> bool) \<Rightarrow> string \<Rightarrow> string option" where
  "read_mantissa dig s =
     (let r = dropWhile dig s; ip = takeWhile dig s in
      if r \<noteq> [] \<and> hd r = CHR ''.'' \<and> (ip \<noteq> [] \<or> takeWhile dig (tl r) \<noteq> [])
      then Some (dropWhile dig (tl r)) else if ip \<noteq> [] then Some r else None)"

definition read_word :: "string \<Rightarrow> string \<Rightarrow> string option" where
  "read_word w s = (if map tolower (take (length w) s) = w then Some (drop (length w) s) else None)"

definition read_nan_tail :: "string \<Rightarrow> string" where
  "read_nan_tail s =
     (if s \<noteq> [] \<and> hd s = CHR ''(''
      then let r = dropWhile (\<lambda>c. isdigit c \<or> (97 \<le> ord (tolower c) \<and> ord (tolower c) \<le> 122) \<or> c = CHR ''_'') (tl s)
        in (if r \<noteq> [] \<and> hd r = CHR '')'' then tl r else s)
      else s)"

definition read_hex :: "string \<Rightarrow> string option" where
  "read_hex u =
     (case read_word ''0x'' u of None \<Rightarrow> None
      | Some h \<Rightarrow> map_option (read_exponent (CHR ''p'')) (read_mantissa isxdigit h))"

definition number_sign :: "string \<Rightarrow> string" where
  "number_sign s =
     (let t = dropWhile isspace s
      in if t \<noteq> [] \<and> (hd t = CHR ''-'' \<or> hd t = CHR ''+'') then tl t else t)"

definition number_body :: "string \<Rightarrow> string option" where
  "number_body u =
     (case read_word ''infinity'' u of Some r \<Rightarrow> Some r
      | None \<Rightarrow> (case read_word ''inf'' u of Some r \<Rightarrow> Some r
      | None \<Rightarrow> (case read_word ''nan'' u of Some r \<Rightarrow> Some (read_nan_tail r)
      | None \<Rightarrow> (case read_hex u of Some r \<Rightarrow> Some r
      | None \<Rightarrow> map_option (read_exponent (CHR ''e'')) (read_mantissa isdigit u)))))"

definition strtod_rest :: "string \<Rightarrow> string option" where
  "strtod_rest s = number_body (number_sign s)"

definition json_number :: "(string \<Rightarrow> dbl) \<Rightarrow> string \<Rightarrow> (dbl \<times> string) option" where
  "json_number dval p =
     (let q = json_ws p in
      case strtod_rest q of None \<Rightarrow> None
      | Some r \<Rightarrow> Some (dval (take (length q - length r) q), r))"

text \<open>The cast of a NaN to \<^verbatim>\<open>int\<close> is undefined; \<open>None\<close> is that value.\<close>

definition json_int :: "(string \<Rightarrow> dbl) \<Rightarrow> string \<Rightarrow> (int option \<times> string) option" where
  "json_int dval p =
     (case json_number dval p of None \<Rightarrow> None
      | Some (v, r) \<Rightarrow> Some (case v of Nan \<Rightarrow> None
          | Infinite neg \<Rightarrow> Some (if neg then 0 else INT_MAX)
          | Finite x \<Rightarrow> Some (if x < 0 then 0 else if of_int INT_MAX < x then INT_MAX else \<lfloor>x\<rfloor>), r))"

definition json_bool :: "string \<Rightarrow> (bool \<times> string) option" where
  "json_bool p =
     (let q = json_ws p in
      case json_lit q ''true'' of Some r \<Rightarrow> Some (True, r)
      | None \<Rightarrow> map_option (\<lambda>r. (False, r)) (json_lit q ''false''))"

section \<open>Skipping a value\<close>

text \<open>The loops over the elements take the function that skips one value. Every turn reads a comma, so
  as many turns as the text has characters are enough (\<open>array_loop_fuel\<close>, \<open>object_loop_fuel\<close>).\<close>

definition JSON_MAX_NESTING :: nat where "JSON_MAX_NESTING = 256"

fun array_loop :: "(string \<Rightarrow> string option) \<Rightarrow> nat \<Rightarrow> string \<Rightarrow> string option" where
  "array_loop skip 0 p = None"
| "array_loop skip (Suc n) p =
     (case skip p of None \<Rightarrow> None
      | Some p1 \<Rightarrow>
        (case json_ws p1 of [] \<Rightarrow> None
         | c # r \<Rightarrow> if c = CHR '']'' then Some r
                    else if c \<noteq> CHR '','' then None else array_loop skip n r))"

fun object_loop :: "(string \<Rightarrow> string option) \<Rightarrow> nat \<Rightarrow> string \<Rightarrow> string option" where
  "object_loop skip 0 p = None"
| "object_loop skip (Suc n) p =
     (case json_string p of None \<Rightarrow> None
      | Some (_, p1) \<Rightarrow>
        (case json_ws p1 of [] \<Rightarrow> None
         | c # r \<Rightarrow>
           if c \<noteq> CHR '':'' then None
           else (case skip r of None \<Rightarrow> None
             | Some p2 \<Rightarrow>
               (case json_ws p2 of [] \<Rightarrow> None
                | c # r \<Rightarrow> if c = CHR ''}'' then Some r
                           else if c \<noteq> CHR '','' then None else object_loop skip n r))))"

definition json_skip_array :: "(string \<Rightarrow> string option) \<Rightarrow> string \<Rightarrow> string option" where
  "json_skip_array skip p =
     (case json_ws p of [] \<Rightarrow> None
      | c # r \<Rightarrow>
        if c \<noteq> CHR ''['' then None
        else (case json_ws r of [] \<Rightarrow> array_loop skip 1 []
          | d # r' \<Rightarrow> if d = CHR '']'' then Some r' else array_loop skip (Suc (length (d # r'))) (d # r')))"

definition json_skip_object :: "(string \<Rightarrow> string option) \<Rightarrow> string \<Rightarrow> string option" where
  "json_skip_object skip p =
     (case json_ws p of [] \<Rightarrow> None
      | c # r \<Rightarrow>
        if c \<noteq> CHR ''{'' then None
        else (case json_ws r of [] \<Rightarrow> object_loop skip 1 []
          | d # r' \<Rightarrow> if d = CHR ''}'' then Some r' else object_loop skip (Suc (length (d # r'))) (d # r')))"

text \<open>\<open>inner\<close> skips the values one level deeper; it is absent at the nesting limit, where an array and
  an object are refused.\<close>

definition skip_value_step :: "(string \<Rightarrow> string option) option \<Rightarrow> string \<Rightarrow> string option" where
  "skip_value_step inner p =
     (let q = json_ws p; c = (if q = [] then NUL else hd q) in
      if c = QUOTE then map_option snd (json_string q)
      else if c = CHR ''{'' then Option.bind inner (\<lambda>skip. json_skip_object skip q)
      else if c = CHR ''['' then Option.bind inner (\<lambda>skip. json_skip_array skip q)
      else (case json_lit q ''true'' of Some r \<Rightarrow> Some r
        | None \<Rightarrow> (case json_lit q ''false'' of Some r \<Rightarrow> Some r
        | None \<Rightarrow> (case json_lit q ''null'' of Some r \<Rightarrow> Some r
        | None \<Rightarrow> strtod_rest q))))"

primrec skip_levels :: "nat \<Rightarrow> string \<Rightarrow> string option" where
  "skip_levels 0 = skip_value_step None"
| "skip_levels (Suc k) = skip_value_step (Some (skip_levels k))"

definition json_skip_value_depth :: "nat \<Rightarrow> string \<Rightarrow> string option" where
  "json_skip_value_depth depth = skip_levels (JSON_MAX_NESTING - depth)"

definition json_skip_value :: "string \<Rightarrow> string option" where
  "json_skip_value p = json_skip_value_depth 0 p"

definition json_raw_value :: "string \<Rightarrow> (string \<times> string) option" where
  "json_raw_value p =
     (let start = json_ws p in
      case json_skip_value start of None \<Rightarrow> None
      | Some r \<Rightarrow> Some (take (length start - length r) start, r))"

section \<open>Minifying\<close>

definition minify_step :: "string \<times> bool \<times> bool \<Rightarrow> char \<Rightarrow> string \<times> bool \<times> bool" where
  "minify_step st c =
     (let (b, in_string, escape) = st in
      if in_string then
        (if escape then (b @ [c], True, False)
         else if c = BSL then (b @ [c], True, True)
         else if c = QUOTE then (b @ [c], False, escape) else (b @ [c], True, escape))
      else if c = QUOTE then (b @ [c], True, escape)
      else if \<not> isspace c then (b @ [c], in_string, escape) else st)"

definition json_minify_raw_value :: "string option \<Rightarrow> string" where
  "json_minify_raw_value json =
     (let j = (case json of None \<Rightarrow> ''null'' | Some s \<Rightarrow> s); start = json_ws j in
      case json_skip_value start of None \<Rightarrow> j
      | Some r \<Rightarrow> fst (foldl minify_step ([], False, False) (take (length start - length r) start)))"

section \<open>The content of a message\<close>

text \<open>Content is a string, null, or an array of strings and of objects whose text members count. The
  comma between two elements may be missing. The loops again count their turns.\<close>

definition skip_comma :: "string \<Rightarrow> string" where
  "skip_comma p =
     (let q = json_ws p in json_ws (if q \<noteq> [] \<and> hd q = CHR '','' then tl q else q))"

fun content_object :: "nat \<Rightarrow> string \<Rightarrow> string \<Rightarrow> (string \<times> string) option" where
  "content_object 0 b p = None"
| "content_object (Suc n) b p =
     (if p = [] then None
      else if hd p = CHR ''}'' then Some (b, tl p)
      else (case json_string p of None \<Rightarrow> None
        | Some (key, p1) \<Rightarrow>
          (case json_ws p1 of [] \<Rightarrow> None
           | c # r \<Rightarrow>
             if c \<noteq> CHR '':'' then None
             else if key = ''text''
             then (case json_string r of None \<Rightarrow> None
                 | Some (s, p2) \<Rightarrow> content_object n (b @ s) (skip_comma p2))
             else (case json_skip_value r of None \<Rightarrow> None
                 | Some p2 \<Rightarrow> content_object n b (skip_comma p2)))))"

fun content_array :: "nat \<Rightarrow> string \<Rightarrow> string \<Rightarrow> (string \<times> string) option" where
  "content_array 0 b p = None"
| "content_array (Suc n) b p =
     (if p = [] then None
      else if hd p = CHR '']'' then Some (b, tl p)
      else if hd p = QUOTE
      then (case json_string p of None \<Rightarrow> None
          | Some (s, p1) \<Rightarrow> content_array n (b @ s) (skip_comma p1))
      else if hd p = CHR ''{''
      then (let q = json_ws (tl p) in
            case content_object (Suc (length q)) b q of None \<Rightarrow> None
          | Some (b', p1) \<Rightarrow> content_array n b' (skip_comma p1))
      else (case json_skip_value p of None \<Rightarrow> None
          | Some p1 \<Rightarrow> content_array n b (skip_comma p1)))"

definition json_content :: "string \<Rightarrow> (string \<times> string) option" where
  "json_content p =
     (let q = json_ws p in
      if q \<noteq> [] \<and> hd q = QUOTE then json_string q
      else (case json_lit q ''null'' of Some r \<Rightarrow> Some ([], r)
        | None \<Rightarrow>
          if q = [] \<or> hd q \<noteq> CHR ''['' then map_option (\<lambda>r. ([], r)) (json_skip_value q)
          else (let q1 = json_ws (tl q) in content_array (Suc (length q1)) [] q1)))"

section \<open>Writing a string\<close>

definition hex4 :: "nat \<Rightarrow> string" where
  "hex4 n = map (\<lambda>k. ''0123456789abcdef'' ! k) [n div 4096 mod 16, n div 256 mod 16, n div 16 mod 16, n mod 16]"

definition escape_char :: "char \<Rightarrow> string" where
  "escape_char c =
     (if c = QUOTE \<or> c = BSL then [BSL, c]
      else if c = LF then [BSL, CHR ''n'']
      else if c = CR then [BSL, CHR ''r'']
      else if c = TAB then [BSL, CHR ''t'']
      else if ord c < 0x20 then [BSL, CHR ''u''] @ hex4 (ord c)
      else [c])"

definition json_escape :: "string \<Rightarrow> string" where
  "json_escape s = [QUOTE] @ concat (map escape_char s) @ [QUOTE]"

definition json_escape_n :: "string \<Rightarrow> nat \<Rightarrow> string" where
  "json_escape_n s n = json_escape (cstr (take n s))"

definition json_escape_fragment_n :: "string \<Rightarrow> nat \<Rightarrow> string" where
  "json_escape_fragment_n s n = concat (map escape_char (take n s))"

section \<open>Reading back what was written\<close>

lemma hex_value: "n < 256 \<Longrightarrow> push_bit 4 (of_nat (n div 16)) OR of_nat (n mod 16) = (of_nat n :: u32)"
proof -
  have "list_all (\<lambda>n. push_bit 4 (of_nat (n div 16)) OR of_nat (n mod 16) = (of_nat n :: u32)) [0..<256]"
    by code_simp
  then show "n < 256 \<Longrightarrow> ?thesis" by (simp add: list_all_iff)
qed

lemma json_hex_digit: "k < 16 \<Longrightarrow> json_hex (''0123456789abcdef'' ! k) = Some k"
proof -
  have "list_all (\<lambda>k. json_hex (''0123456789abcdef'' ! k) = Some k) [0..<16]" by code_simp
  then show "k < 16 \<Longrightarrow> ?thesis" by (simp add: list_all_iff)
qed

lemma hex_loop_hex4: "n < 256 \<Longrightarrow> hex_loop 4 0 (hex4 n @ r) = Some (of_nat n, r)"
proof -
  assume n: "n < 256"
  have four: "hex_loop 4 = hex_loop (Suc (Suc (Suc (Suc 0))))" by (simp add: eval_nat_numeral)
  have "n div 4096 = 0" "n div 256 = 0" "n div 16 mod 16 = n div 16" using n by simp_all
  moreover have "json_hex (CHR ''0'') = Some 0" using json_hex_digit [of 0] by simp
  moreover have "n div 16 < 16" "n mod 16 < 16" using n by simp_all
  ultimately show "hex_loop 4 0 (hex4 n @ r) = Some (of_nat n, r)"
    unfolding hex4_def four using hex_value [OF n] by (simp add: json_hex_digit)
qed

lemma json_u16_hex4: "n < 256 \<Longrightarrow> json_u16 (BSL # CHR ''u'' # hex4 n @ r) = Some (of_nat n, r)"
  by (simp add: json_u16_def hex_loop_hex4)

lemma json_chars_escape: "json_chars b (escape_char c @ r) = json_chars (b @ [c]) r"
proof (cases "c = QUOTE \<or> c = BSL \<or> c = LF \<or> c = CR \<or> c = TAB \<or> 0x20 \<le> ord c")
  case True
  then show ?thesis
    by (subst json_chars.simps) (auto simp: escape_char_def unescape_def ord_def)
next
  case False
  then have c: "escape_char c = BSL # CHR ''u'' # hex4 (ord c)" "ord c < 32" by (auto simp: escape_char_def)
  have lt: "(of_nat (ord c) :: u32) \<le> 0x7f" "\<not> (0xd800 :: u32) \<le> of_nat (ord c)"
    using c(2) by (simp_all add: word_le_nat_alt unat_of_nat32)
  have "utf8_put (of_nat (ord c)) = [c]"
    using lt c(2) by (simp add: utf8_put_def char_cast_def unat_of_nat32) (simp add: ord_def)
  moreover have "join_surrogate (of_nat (ord c)) r = (of_nat (ord c), r)"
    using lt by (simp add: join_surrogate_def)
  moreover have "json_u16 (BSL # CHR ''u'' # hex4 (ord c) @ r) = Some (of_nat (ord c), r)"
    using c(2) by (intro json_u16_hex4) simp
  ultimately show ?thesis unfolding c(1) by (subst json_chars.simps) simp
qed

lemma json_chars_escaped: "json_chars b (concat (map escape_char s) @ QUOTE # r) = Some (b @ s, r)"
proof (induction s arbitrary: b)
  case Nil
  then show ?case by (subst json_chars.simps) simp
next
  case (Cons c s)
  then show ?case by (simp add: json_chars_escape)
qed

lemma json_string_escape: "NUL \<notin> set s \<Longrightarrow> json_string (json_escape s @ r) = Some (s, r)"
proof -
  assume "NUL \<notin> set s"
  then have "cstr s = s" by (auto simp: cstr_def takeWhile_eq_all_conv)
  then show ?thesis
    by (simp add: json_string_def json_escape_def json_ws_def isspace_def ord_def json_chars_escaped)
qed

end
