(* ===== verification/Dsml.thy ===== *)
theory Dsml
  imports ServerJson
begin

text \<open>
  Tool calls as the model writes them (\<^verbatim>\<open>ds4_server.c\<close>): the markup language DSML, rendered from the
  JSON arguments of a client's tool call and parsed back from the text the model generates. Text
  is a list of bytes; the full-width bar of the tags is its three UTF-8 bytes.
\<close>

section \<open>Arguments as JSON\<close>

record json_arg =
  ja_key :: string
  ja_value :: string
  ja_is_string :: bool
  ja_used :: bool

text \<open>\<open>fuel\<close> counts the members; every turn reads at least one quote.\<close>

fun args_loop :: "nat \<Rightarrow> json_arg list \<Rightarrow> string \<Rightarrow> json_arg list option" where
  "args_loop 0 args p = None"
| "args_loop (Suc n) args p =
     (if p = [] then None
      else if hd p = CHR ''}'' then Some args
      else (case json_string p of None \<Rightarrow> None
        | Some (key, p1) \<Rightarrow>
          (case json_ws p1 of [] \<Rightarrow> None
           | c # r \<Rightarrow>
             if c \<noteq> CHR '':'' then None
             else let q = json_ws r in
               if q \<noteq> [] \<and> hd q = QUOTE
               then (case json_string q of None \<Rightarrow> None
                   | Some (v, p2) \<Rightarrow>
                     args_loop n (args @ [\<lparr>ja_key = key, ja_value = v, ja_is_string = True, ja_used = False\<rparr>]) (skip_comma p2))
               else (case json_raw_value q of None \<Rightarrow> None
                   | Some (raw, p2) \<Rightarrow>
                     args_loop n (args @ [\<lparr>ja_key = key, ja_value = json_minify_raw_value (Some raw),
                                            ja_is_string = False, ja_used = False\<rparr>]) (skip_comma p2)))))"

definition json_args_parse :: "string option \<Rightarrow> json_arg list option" where
  "json_args_parse json =
     (case json_ws (case json of None \<Rightarrow> [] | Some s \<Rightarrow> s) of [] \<Rightarrow> None
      | c # r \<Rightarrow> if c \<noteq> CHR ''{'' then None
                 else (let q = json_ws r in args_loop (Suc (length q)) [] q))"

definition json_args_find_unused :: "json_arg list \<Rightarrow> string \<Rightarrow> nat option" where
  "json_args_find_unused args key =
     find (\<lambda>i. \<not> ja_used (args ! i) \<and> ja_key (args ! i) = key) [0..<length args]"

definition append_json_arg_pair :: "json_arg \<Rightarrow> string" where
  "append_json_arg_pair a =
     json_escape (ja_key a) @ '':'' @ (if ja_is_string a then json_escape (ja_value a) else ja_value a)"

fun arg_pairs :: "json_arg list \<Rightarrow> string" where
  "arg_pairs [] = []"
| "arg_pairs [a] = append_json_arg_pair a"
| "arg_pairs (a # b # as) = append_json_arg_pair a @ '','' @ arg_pairs (b # as)"

definition append_json_object_or_empty :: "string option \<Rightarrow> string" where
  "append_json_object_or_empty json =
     (case json_args_parse json of None \<Rightarrow> ''{}''
      | Some args \<Rightarrow> ''{'' @ arg_pairs args @ ''}'')"

section \<open>Tags\<close>

definition BAR :: string where
  "BAR = [CHR 0xEF, CHR 0xBD, CHR 0x9C]"

definition DS4_DSML :: string where "DS4_DSML = BAR @ ''DSML'' @ BAR"
definition DS4_DSML_SHORT :: string where "DS4_DSML_SHORT = ''DSML'' @ BAR"

text \<open>The six tags of a style of markup.\<close>

record dsml_tags =
  t_calls_start :: string
  t_calls_end :: string
  t_invoke_start :: string
  t_invoke_end :: string
  t_param_start :: string
  t_param_end :: string

definition tags_of :: "string \<Rightarrow> dsml_tags" where
  "tags_of m = \<lparr>t_calls_start = ''<'' @ m @ ''tool_calls>'', t_calls_end = ''</'' @ m @ ''tool_calls>'',
     t_invoke_start = ''<'' @ m @ ''invoke'', t_invoke_end = ''</'' @ m @ ''invoke>'',
     t_param_start = ''<'' @ m @ ''parameter'', t_param_end = ''</'' @ m @ ''parameter>''\<rparr>"

definition dsml_style :: dsml_tags where "dsml_style = tags_of DS4_DSML"
definition short_style :: dsml_tags where "short_style = tags_of DS4_DSML_SHORT"
definition xml_style :: dsml_tags where "xml_style = tags_of []"

section \<open>Escaping\<close>

definition attr_char :: "char \<Rightarrow> string" where
  "attr_char c =
     (if c = CHR ''&'' then ''&amp;'' else if c = CHR ''<'' then ''&lt;''
      else if c = CHR ''>'' then ''&gt;'' else if c = QUOTE then ''&quot;'' else [c])"

definition append_dsml_attr_escaped :: "string \<Rightarrow> string" where
  "append_dsml_attr_escaped s = concat (map attr_char s)"

text \<open>The three loops that protect a closing tag: the first character of each occurrence is replaced.\<close>

fun guard_tag :: "string \<Rightarrow> string \<Rightarrow> string \<Rightarrow> string" where
  "guard_tag fin rep [] = []"
| "guard_tag fin rep (c # s) =
     (if take (length fin) (c # s) = fin then rep @ guard_tag fin rep s else c # guard_tag fin rep s)"

definition append_dsml_parameter_text :: "string \<Rightarrow> string" where
  "append_dsml_parameter_text s = guard_tag (''</'' @ DS4_DSML @ ''parameter>'') ''&lt;'' s"

definition append_tool_result_text :: "string \<Rightarrow> string" where
  "append_tool_result_text s = guard_tag ''</tool_result>'' ''&lt;'' s"

definition append_dsml_json_literal :: "string \<Rightarrow> string" where
  "append_dsml_json_literal s = guard_tag (''</'' @ DS4_DSML @ ''parameter>'') (BSL # ''u003c'') s"

fun dsml_unescape_text :: "string \<Rightarrow> string" where
  "dsml_unescape_text [] = []"
| "dsml_unescape_text (c # s) =
     (if c \<noteq> CHR ''&'' then c # dsml_unescape_text s
      else if take 4 s = ''amp;'' then CHR ''&'' # dsml_unescape_text (drop 4 s)
      else if take 3 s = ''lt;'' then CHR ''<'' # dsml_unescape_text (drop 3 s)
      else if take 3 s = ''gt;'' then CHR ''>'' # dsml_unescape_text (drop 3 s)
      else if take 5 s = ''quot;'' then QUOTE # dsml_unescape_text (drop 5 s)
      else if take 5 s = ''apos;'' then CHR 0x27 # dsml_unescape_text (drop 5 s)
      else CHR ''&'' # dsml_unescape_text s)"

section \<open>Rendering\<close>

definition append_dsml_arg :: "json_arg \<Rightarrow> string" where
  "append_dsml_arg a =
     ''<'' @ DS4_DSML @ ''parameter name='' @ [QUOTE] @ append_dsml_attr_escaped (ja_key a)
     @ [QUOTE] @ '' string='' @ [QUOTE] @ (if ja_is_string a then ''true'' else ''false'') @ [QUOTE] @ ''>''
     @ (if ja_is_string a then append_dsml_parameter_text (ja_value a) else append_dsml_json_literal (ja_value a))
     @ ''</'' @ DS4_DSML @ ''parameter>'' @ [LF]"

text \<open>The arguments in the order of the tool's schema, then the rest in theirs.\<close>

fun args_in_order :: "json_arg list \<Rightarrow> string list \<Rightarrow> string \<times> json_arg list" where
  "args_in_order args [] = ([], args)"
| "args_in_order args (k # ks) =
     (case json_args_find_unused args k of None \<Rightarrow> args_in_order args ks
      | Some i \<Rightarrow>
        (let (out, args') = args_in_order (args[i := (args ! i)\<lparr>ja_used := True\<rparr>]) ks
         in (append_dsml_arg (args ! i) @ out, args')))"

definition append_dsml_arguments_from_json :: "string option \<Rightarrow> string list option \<Rightarrow> string option" where
  "append_dsml_arguments_from_json json order =
     (case json_args_parse json of None \<Rightarrow> None
      | Some args \<Rightarrow>
        let (out, args') = args_in_order args (case order of None \<Rightarrow> [] | Some ks \<Rightarrow> ks)
        in Some (out @ concat (map append_dsml_arg (filter (\<lambda>a. \<not> ja_used a) args'))))"

record tool_call =
  tc_id :: "string option"
  tc_name :: string
  tc_arguments :: string

record tool_calls =
  tcs_v :: "tool_call list"
  tcs_raw_dsml :: "string option"

definition dsml_call_text :: "tool_call \<Rightarrow> string" where
  "dsml_call_text tc =
     ''<'' @ DS4_DSML @ ''invoke name='' @ [QUOTE] @ append_dsml_attr_escaped (tc_name tc) @ [QUOTE] @ ''>'' @ [LF]
     @ (case append_dsml_arguments_from_json (Some (tc_arguments tc)) None of Some s \<Rightarrow> s
        | None \<Rightarrow> ''<'' @ DS4_DSML @ ''parameter name='' @ [QUOTE] @ ''arguments'' @ [QUOTE] @ '' string='' @ [QUOTE]
            @ ''true'' @ [QUOTE] @ ''>'' @ append_dsml_parameter_text (tc_arguments tc)
            @ ''</'' @ DS4_DSML @ ''parameter>'' @ [LF])
     @ ''</'' @ DS4_DSML @ ''invoke>'' @ [LF]"

definition append_dsml_tool_calls_text :: "tool_calls \<Rightarrow> string" where
  "append_dsml_tool_calls_text calls =
     (if tcs_v calls = [] then []
      else if tcs_raw_dsml calls \<noteq> None \<and> tcs_raw_dsml calls \<noteq> Some [] then the (tcs_raw_dsml calls)
      else [LF, LF] @ ''<'' @ DS4_DSML @ ''tool_calls>'' @ [LF] @ concat (map dsml_call_text (tcs_v calls))
           @ ''</'' @ DS4_DSML @ ''tool_calls>'')"

end
