(* ===== verification/DsmlParse.thy ===== *)
theory DsmlParse
  imports Dsml
begin

text \<open>
  Parsing the tool calls of a generated message (\<^verbatim>\<open>parse_generated_message_ex\<close>), repairing a
  truncated block (\<^verbatim>\<open>try_repair_dsml\<close>) and the outcome of a response. The loops of the parser count
  their turns: each one reads at least one tag, so the length of the text is enough.
\<close>

section \<open>Searching\<close>

text \<open>The first of several markers, and the last occurrence of one.\<close>

definition first_of :: "string list \<Rightarrow> string \<Rightarrow> string option" where
  "first_of needles s =
     foldl (\<lambda>best n. case strstr_at n s of None \<Rightarrow> best
        | Some t \<Rightarrow> (case best of None \<Rightarrow> Some t | Some b \<Rightarrow> if length b < length t then Some t else best))
       None needles"

definition find_any_tool_start :: "string \<Rightarrow> string option" where
  "find_any_tool_start s = first_of (map t_calls_start [dsml_style, short_style, xml_style]) s"

definition find_any_tool_end :: "string \<Rightarrow> string option" where
  "find_any_tool_end s = first_of (map t_calls_end [dsml_style, short_style, xml_style]) s"

text \<open>The flags are start seen, end seen and orphan end.\<close>

definition observe_tool_markers :: "string option \<Rightarrow> bool \<times> bool \<times> bool \<Rightarrow> bool \<times> bool \<times> bool" where
  "observe_tool_markers scan flags =
     (case scan of None \<Rightarrow> flags
      | Some s \<Rightarrow>
        let (had_start, saw_end, orphan) = flags;
            start = find_any_tool_start s;
            fin = Option.bind (if had_start then Some s else start) find_any_tool_end
        in (had_start \<or> start \<noteq> None, saw_end \<or> fin \<noteq> None,
            orphan \<or> (fin = None \<and> \<not> had_start \<and> start = None \<and> find_any_tool_end s \<noteq> None)))"

fun last_at :: "string \<Rightarrow> string \<Rightarrow> string option" where
  "last_at needle [] = None"
| "last_at needle (c # s) =
     (case last_at needle s of Some t \<Rightarrow> Some t
      | None \<Rightarrow> if take (length needle) (c # s) = needle then Some (c # s) else None)"

definition find_last_substr :: "string \<Rightarrow> string \<Rightarrow> string option" where
  "find_last_substr s needle = (if needle = [] then None else last_at needle s)"

text \<open>The text before a pointer into it.\<close>

definition before :: "string \<Rightarrow> string \<Rightarrow> string" where
  "before s p = take (length s - length p) s"

definition trim_tool_separator_ws :: "string \<Rightarrow> string" where
  "trim_tool_separator_ws s = rev (dropWhile isspace (rev s))"

section \<open>Attributes and arguments\<close>

definition dsml_attr :: "string \<Rightarrow> string \<Rightarrow> string option" where
  "dsml_attr tag name =
     (let pat = take 63 (name @ ''='' @ [QUOTE]) in
      case strstr_at pat tag of None \<Rightarrow> None
      | Some p \<Rightarrow>
        let v = drop (length pat) p in
        case strchr_at QUOTE v of None \<Rightarrow> None
        | Some q \<Rightarrow> Some (dsml_unescape_text (before v q)))"

definition tool_call_json_args_add :: "string \<Rightarrow> string \<Rightarrow> string \<Rightarrow> string option \<Rightarrow> string" where
  "tool_call_json_args_add args name v is_string =
     args @ (if args \<noteq> [] then '', '' else []) @ json_escape name @ '': ''
     @ (if is_string = Some ''true'' then json_escape v
        else (let m = json_minify_raw_value (Some v) in if m \<noteq> [] then m else ''null''))"

text \<open>A start tag up to its \<^verbatim>\<open>>\<close>: the tag and the text behind it.\<close>

definition read_tag :: "string \<Rightarrow> string \<Rightarrow> (string \<times> string) option" where
  "read_tag start p =
     (if take (length start) p \<noteq> start then None
      else (case strchr_at (CHR ''>'') p of None \<Rightarrow> None
        | Some q \<Rightarrow> Some (before p (tl q), tl q)))"

text \<open>The value up to the closing tag, decoded as its type says.\<close>

definition read_value :: "string \<Rightarrow> string \<Rightarrow> string \<Rightarrow> (string \<times> string) option" where
  "read_value fin type p =
     (case strstr_at fin p of None \<Rightarrow> None
      | Some q \<Rightarrow>
        let raw = before p q
        in Some (if type = ''true'' then dsml_unescape_text raw else raw, drop (length fin) q))"

definition dsml_parse_leaf_param_json :: "dsml_tags \<Rightarrow> string \<Rightarrow> string \<Rightarrow> (string \<times> string) option" where
  "dsml_parse_leaf_param_json tg p out =
     (case read_tag (t_param_start tg) p of None \<Rightarrow> None
      | Some (tag, value_start) \<Rightarrow>
        (case dsml_attr tag ''name'' of None \<Rightarrow> None
         | Some name \<Rightarrow>
           let type = (case dsml_attr tag ''string'' of None \<Rightarrow> ''true'' | Some s \<Rightarrow> s) in
           (case read_value (t_param_end tg) type value_start of None \<Rightarrow> None
            | Some (v, p') \<Rightarrow> Some (tool_call_json_args_add out name v (Some type), p'))))"

fun nested_loop :: "nat \<Rightarrow> dsml_tags \<Rightarrow> string \<Rightarrow> string \<Rightarrow> (string \<times> string) option" where
  "nested_loop 0 tg p members = None"
| "nested_loop (Suc n) tg p members =
     (let q = json_ws p in
      if take (length (t_param_start tg)) q \<noteq> t_param_start tg then Some (members, q)
      else (case dsml_parse_leaf_param_json tg q members of None \<Rightarrow> None
        | Some (members', p') \<Rightarrow> nested_loop n tg p' members'))"

definition dsml_parse_nested_params_object :: "dsml_tags \<Rightarrow> string \<Rightarrow> (string \<times> string) option" where
  "dsml_parse_nested_params_object tg p =
     (let q = json_ws p in
      if take (length (t_param_start tg)) q \<noteq> t_param_start tg then None
      else (case nested_loop (Suc (length p)) tg p [] of None \<Rightarrow> None
        | Some (members, p') \<Rightarrow> Some (''{'' @ members @ ''}'', p')))"

section \<open>Messages\<close>

definition split_reasoning_content :: "string \<Rightarrow> string \<times> string option" where
  "split_reasoning_content s =
     (let body = (if take 7 s = ''<think>'' then drop 7 s else s) in
      case strstr_at ''</think>'' body of None \<Rightarrow> (s, None)
      | Some e \<Rightarrow> (drop 8 e, Some (before body e)))"

text \<open>The parameters of one call, up to its closing tag: the members of the argument object.\<close>

fun params_loop :: "nat \<Rightarrow> dsml_tags \<Rightarrow> string \<Rightarrow> string \<Rightarrow> (string \<times> string) option" where
  "params_loop 0 tg p args = None"
| "params_loop (Suc n) tg p args =
     (let q = json_ws p in
      if take (length (t_invoke_end tg)) q = t_invoke_end tg then Some (args, drop (length (t_invoke_end tg)) q)
      else (case read_tag (t_param_start tg) q of None \<Rightarrow> None
        | Some (tag, value_start) \<Rightarrow>
          (case dsml_attr tag ''name'' of None \<Rightarrow> None
           | Some name \<Rightarrow>
             let is_string = dsml_attr tag ''string'' in
             if is_string = None \<and> take (length (t_param_start tg)) (json_ws value_start) = t_param_start tg
             then (case dsml_parse_nested_params_object tg value_start of None \<Rightarrow> None
                 | Some (nested, np) \<Rightarrow>
                   let r = json_ws np;
                       r' = (if take (length (t_param_end tg)) r = t_param_end tg
                             then drop (length (t_param_end tg)) r else r)
                   in params_loop n tg r' (tool_call_json_args_add args name nested (Some ''false'')))
             else
               let type = (case is_string of None \<Rightarrow> ''true'' | Some s \<Rightarrow> s) in
               (case read_value (t_param_end tg) type value_start of None \<Rightarrow> None
                | Some (v, r) \<Rightarrow> params_loop n tg r (tool_call_json_args_add args name v (Some type))))))"

fun calls_loop :: "nat \<Rightarrow> dsml_tags \<Rightarrow> string \<Rightarrow> tool_call list \<Rightarrow> (tool_call list \<times> string) option" where
  "calls_loop 0 tg p calls = None"
| "calls_loop (Suc n) tg p calls =
     (let q = json_ws p in
      if take (length (t_calls_end tg)) q = t_calls_end tg then Some (calls, drop (length (t_calls_end tg)) q)
      else (case read_tag (t_invoke_start tg) q of None \<Rightarrow> None
        | Some (tag, p1) \<Rightarrow>
          (case dsml_attr tag ''name'' of None \<Rightarrow> None
           | Some name \<Rightarrow>
             (case params_loop (Suc (length p1)) tg p1 [] of None \<Rightarrow> None
              | Some (args, p2) \<Rightarrow>
                calls_loop n tg p2
                  (calls @ [\<lparr>tc_id = None, tc_name = name, tc_arguments = ''{'' @ args @ ''}''\<rparr>])))))"

record parsed_message =
  pm_content :: string
  pm_reasoning :: "string option"
  pm_calls :: tool_calls

definition no_calls :: tool_calls where
  "no_calls = \<lparr>tcs_v = [], tcs_raw_dsml = None\<rparr>"

definition plain_message :: "string \<Rightarrow> parsed_message" where
  "plain_message text =
     (let (content, reasoning) = split_reasoning_content text
      in \<lparr>pm_content = content, pm_reasoning = reasoning, pm_calls = no_calls\<rparr>)"

text \<open>Where the block starts and in which style; a blank line before it belongs to the block.\<close>

definition block_at :: "string \<Rightarrow> string \<Rightarrow> dsml_tags \<Rightarrow> (string \<times> dsml_tags) option" where
  "block_at s lead tg = map_option (\<lambda>p. (p, tg)) (strstr_at (lead @ t_calls_start tg) s)"

fun first_some :: "'a option list \<Rightarrow> 'a option" where
  "first_some [] = None"
| "first_some (None # xs) = first_some xs"
| "first_some (Some x # xs) = Some x"

definition find_block :: "string \<Rightarrow> (string \<times> dsml_tags) option" where
  "find_block s =
     first_some [block_at s [LF, LF] dsml_style, block_at s [] dsml_style, block_at s [LF, LF] short_style,
       block_at s [] short_style, block_at s [LF, LF] xml_style, block_at s [] xml_style]"

definition parse_generated_message_ex :: "string \<Rightarrow> bool \<Rightarrow> parsed_message option" where
  "parse_generated_message_ex text require_thinking_closed =
     (case (if require_thinking_closed then map_option (drop 8) (find_last_substr text ''</think>'') else Some text) of
        None \<Rightarrow> Some (plain_message text)
      | Some tool_search \<Rightarrow>
        (case find_block tool_search of None \<Rightarrow> Some (plain_message text)
         | Some (start, tg) \<Rightarrow>
           (case strstr_at (t_calls_start tg) start of None \<Rightarrow> None
            | Some p \<Rightarrow>
              let p1 = drop (length (t_calls_start tg)) p in
              (case calls_loop (Suc (length p1)) tg p1 [] of None \<Rightarrow> None
               | Some (calls, p2) \<Rightarrow>
                 Some ((plain_message (trim_tool_separator_ws (before text start)))
                   \<lparr>pm_calls := \<lparr>tcs_v = calls, tcs_raw_dsml = Some (before start p2)\<rparr>\<rparr>)))))"

section \<open>Repairing a truncated block\<close>

record tag_counts =
  n_calls_start :: nat
  n_calls_end :: nat
  n_invoke_start :: nat
  n_invoke_end :: nat
  n_param_start :: nat
  n_param_end :: nat

definition no_tags :: tag_counts where
  "no_tags = \<lparr>n_calls_start = 0, n_calls_end = 0, n_invoke_start = 0, n_invoke_end = 0,
     n_param_start = 0, n_param_end = 0\<rparr>"

text \<open>The tag at the head of a text, as the scan looks for it: its length and its counter. The tags are
  never empty.\<close>

definition tag_at :: "dsml_tags \<Rightarrow> string \<Rightarrow> (nat \<times> (tag_counts \<Rightarrow> tag_counts)) option" where
  "tag_at tg p =
     (let is_at = (\<lambda>t. t \<noteq> [] \<and> take (length t) p = t) in
      if is_at (t_calls_start tg) then Some (length (t_calls_start tg), \<lambda>n. n\<lparr>n_calls_start := n_calls_start n + 1\<rparr>)
      else if is_at (t_calls_end tg) then Some (length (t_calls_end tg), \<lambda>n. n\<lparr>n_calls_end := n_calls_end n + 1\<rparr>)
      else if is_at (t_invoke_start tg) then Some (length (t_invoke_start tg), \<lambda>n. n\<lparr>n_invoke_start := n_invoke_start n + 1\<rparr>)
      else if is_at (t_invoke_end tg) then Some (length (t_invoke_end tg), \<lambda>n. n\<lparr>n_invoke_end := n_invoke_end n + 1\<rparr>)
      else if is_at (t_param_start tg) then Some (length (t_param_start tg), \<lambda>n. n\<lparr>n_param_start := n_param_start n + 1\<rparr>)
      else if is_at (t_param_end tg) then Some (length (t_param_end tg), \<lambda>n. n\<lparr>n_param_end := n_param_end n + 1\<rparr>)
      else None)"

lemma tag_at_pos: "tag_at tg p = Some (d, f) \<Longrightarrow> 0 < d \<and> p \<noteq> []"
  by (auto simp: tag_at_def Let_def split: if_splits)

function count_tags :: "dsml_tags \<Rightarrow> string \<Rightarrow> tag_counts \<Rightarrow> tag_counts" where
  "count_tags tg p n =
     (if p = [] then n
      else (case tag_at tg p of None \<Rightarrow> count_tags tg (tl p) n
        | Some (d, bump) \<Rightarrow> count_tags tg (drop d p) (bump n)))"
  by pat_completeness auto
termination
  by (relation "measure (\<lambda>(tg, p, n). length p)") (auto dest: tag_at_pos)

declare count_tags.simps [simp del]

definition repair_style :: "string \<Rightarrow> dsml_tags option" where
  "repair_style s =
     (if strstr s (t_calls_start dsml_style) then Some dsml_style
      else if strstr s (t_calls_start short_style) then Some short_style
      else if strstr s (t_calls_start xml_style) then Some xml_style else None)"

definition after_thinking :: "string \<Rightarrow> string" where
  "after_thinking s = (case find_last_substr s ''</think>'' of None \<Rightarrow> s | Some e \<Rightarrow> drop 8 e)"

definition balanced :: "tag_counts \<Rightarrow> bool" where
  "balanced n \<longleftrightarrow> n_calls_start n = n_calls_end n \<and> n_invoke_start n = n_invoke_end n
     \<and> n_param_start n = n_param_end n"

definition missing_tags :: "dsml_tags \<Rightarrow> tag_counts \<Rightarrow> string" where
  "missing_tags tg n =
     concat (replicate (n_param_start n - n_param_end n) (t_param_end tg))
     @ concat (replicate (n_invoke_start n - n_invoke_end n) (t_invoke_end tg))
     @ concat (replicate (n_calls_start n - n_calls_end n) (t_calls_end tg))"

definition try_repair_dsml :: "string \<Rightarrow> string option" where
  "try_repair_dsml s =
     (if s = [] then None
      else (case repair_style (after_thinking s) of None \<Rightarrow> None
        | Some tg \<Rightarrow>
          let n = count_tags tg (after_thinking s) no_tags in
          if balanced n then None
          else if n_calls_start n < n_calls_end n \<or> n_invoke_start n < n_invoke_end n
                  \<or> n_param_start n < n_param_end n then None
          else Some (s @ missing_tags tg n)))"

section \<open>The outcome of a response\<close>

definition tool_parse_failure_recovery_finish :: "string \<Rightarrow> string" where
  "tool_parse_failure_recovery_finish finish = (if finish = ''length'' then ''length'' else ''stop'')"

record response_parse =
  rp_ok :: bool
  rp_message :: parsed_message
  rp_finish :: "string option"
  rp_error :: string
  rp_recovered :: bool

definition parse_generated_message_for_response ::
  "string \<Rightarrow> bool \<Rightarrow> bool \<Rightarrow> bool \<Rightarrow> string option \<Rightarrow> string \<Rightarrow> response_parse" where
  "parse_generated_message_for_response text has_tools saw_tool_start require_thinking_closed finish err =
     (case parse_generated_message_ex text require_thinking_closed of
        Some m \<Rightarrow> \<lparr>rp_ok = True, rp_message = m, rp_finish = finish, rp_error = err, rp_recovered = False\<rparr>
      | None \<Rightarrow>
        let m = \<lparr>pm_content = text, pm_reasoning = None, pm_calls = no_calls\<rparr>;
            fin = (case finish of None \<Rightarrow> ''stop'' | Some f \<Rightarrow> f)
        in if has_tools \<and> saw_tool_start \<and> fin \<noteq> ''error''
           then \<lparr>rp_ok = False, rp_message = m, rp_finish = Some (tool_parse_failure_recovery_finish fin),
                 rp_error = ''invalid tool call'', rp_recovered = True\<rparr>
           else \<lparr>rp_ok = False, rp_message = m, rp_finish = finish, rp_error = err, rp_recovered = False\<rparr>)"

definition append_json_object_string :: "string option \<Rightarrow> string" where
  "append_json_object_string json = json_escape (append_json_object_or_empty json)"

definition append_tool_calls_json :: "tool_call list \<Rightarrow> string \<Rightarrow> string" where
  "append_tool_calls_json calls id_prefix =
     (let one = (\<lambda>i. let tc = calls ! i in
            ''{'' @ json_escape ''id'' @ '':''
            @ json_escape (case tc_id tc of Some d \<Rightarrow> d | None \<Rightarrow> take 127 (id_prefix @ ''_tool_'' @ nat_dec i))
            @ '','' @ json_escape ''type'' @ '':'' @ json_escape ''function'' @ '','' @ json_escape ''function''
            @ '':{'' @ json_escape ''name'' @ '':'' @ json_escape (tc_name tc) @ '','' @ json_escape ''arguments''
            @ '':'' @ append_json_object_string (Some (tc_arguments tc)) @ ''}}'')
      in ''['' @ concat (map (\<lambda>i. (if 0 < i then '','' else []) @ one i) [0..<length calls]) @ '']'')"

end
