(* ===== verification/ServerJsonSpec.thy ===== *)
theory ServerJsonSpec
  imports ServerJson "HOL-Library.Sublist"
begin

text \<open>
  What the JSON reader promises. Skipping returns a later pointer into the same text, so the
  loops end; the contract is the locale \<open>value_skipper\<close>, which the skipper of every nesting level
  fulfils. \<open>jval\<close> with \<open>json_print\<close> is the abstract syntax of JSON documents, against which skipping
  and reading are shown correct.
\<close>

section \<open>Every read moves forward\<close>

lemma json_ws_suffix: "suffix (json_ws p) p"
  by (simp add: json_ws_def suffix_dropWhile)

lemma json_ws_skip [simp]: "p = [] \<or> \<not> isspace (hd p) \<Longrightarrow> json_ws p = p"
  by (cases p) (auto simp: json_ws_def)

lemma json_ws_idem [simp]: "json_ws (json_ws p) = json_ws p"
  unfolding json_ws_def by (rule dropWhile_idem)

lemma json_ws_Cons: "json_ws p = c # r \<Longrightarrow> strict_suffix r p"
  using json_ws_suffix [of p] by (metis suffix_ConsD2 suffix_order.dual_order.strict_trans2 strict_suffix_def
      not_Cons_self2 suffix_order.antisym suffix_ConsI suffix_order.refl)

lemma hex_loop_suffix: "hex_loop i cp s = Some (v, r) \<Longrightarrow> suffix r s"
  by (induction i cp s arbitrary: v r rule: hex_loop.induct)
    (auto split: option.splits intro: suffix_ConsI)

lemma json_u16_suffix: "json_u16 p = Some (v, r) \<Longrightarrow> suffix r p"
  using suffix_drop [of 2 p] hex_loop_suffix [of 4 0 "drop 2 p" v r]
  by (auto simp: json_u16_def split: if_splits intro: suffix_order.trans)

lemma join_surrogate_suffix: "suffix (snd (join_surrogate cp p)) p"
  by (auto simp: join_surrogate_def split: option.splits dest: json_u16_suffix)

lemma json_chars_suffix: "json_chars b p = Some (b', r) \<Longrightarrow> strict_suffix r p"
proof (induction b p rule: json_chars.induct)
  case (1 b p)
  obtain c s where p: "p = c # s" using 1(4) by (cases p) (auto simp: json_chars.simps)
  have step: "strict_suffix r p" if "strict_suffix r q" "suffix q p" for q
    using that by (rule suffix_order.less_le_trans)
  show ?case
  proof (cases "c = QUOTE \<or> c \<noteq> BSL")
    case True
    have "json_chars b p = (if c = QUOTE then Some (b, s) else json_chars (b @ [c]) s)"
      using True p by (subst json_chars.simps) auto
    then have "r = s \<or> strict_suffix r s" using 1(1) [OF p] 1(4) True by (cases "c = QUOTE") auto
    then show ?thesis using p step [of s] by (auto simp: strict_suffix_def suffix_ConsI)
  next
    case False
    then obtain e s' where s: "s = e # s'" using 1(4) p by (subst (asm) json_chars.simps) (auto split: list.splits)
    show ?thesis
    proof (cases "e = CHR ''u''")
      case True
      then obtain cp p1 where u: "json_u16 p = Some (cp, p1)"
        "json_chars (b @ utf8_put (fst (join_surrogate cp p1))) (snd (join_surrogate cp p1)) = Some (b', r)"
        using 1(4) p s False by (subst (asm) json_chars.simps) (auto split: option.splits)
      have "suffix (snd (join_surrogate cp p1)) p"
        using json_u16_suffix [OF u(1)] join_surrogate_suffix suffix_order.trans by blast
      moreover have "strict_suffix r (snd (join_surrogate cp p1))"
        using 1(2) [OF p _ _ s True u(1) refl] False u(2) by simp
      ultimately show ?thesis using step by blast
    next
      case nu: False
      then obtain x where x: "unescape e = Some x" "json_chars (b @ [x]) s' = Some (b', r)"
        using 1(4) p s False by (subst (asm) json_chars.simps) (auto split: option.splits)
      then have "strict_suffix r s'" using 1(3) [OF p _ _ s nu] False by blast
      then show ?thesis using step [of s'] p s by (simp add: suffix_ConsI)
    qed
  qed
qed

lemma json_string_suffix: "json_string p = Some (s, r) \<Longrightarrow> strict_suffix r p"
  by (auto simp: json_string_def split: list.splits if_splits dest!: json_chars_suffix json_ws_Cons
      intro: suffix_order.less_trans)

lemma strict_suffixI: "suffix r p \<Longrightarrow> length r < length p \<Longrightarrow> strict_suffix r p"
  by (auto simp: strict_suffix_def)

lemma read_word_suffix: "read_word w s = Some r \<Longrightarrow> w \<noteq> [] \<Longrightarrow> strict_suffix r s"
proof -
  assume "read_word w s = Some r" "w \<noteq> []"
  then have "r = drop (length w) s" "s \<noteq> []" by (auto simp: read_word_def split: if_splits)
  then have "suffix r s" "length r < length s" using \<open>w \<noteq> []\<close> by (simp_all add: suffix_drop)
  then show ?thesis by (auto simp: strict_suffix_def)
qed

lemma read_exponent_suffix: "suffix (read_exponent x s) s"
proof -
  have "suffix (dropWhile isdigit u) s" if "suffix u (tl s)" for u
    using that by (meson suffix_dropWhile suffix_order.trans suffix_tl)
  then show ?thesis by (simp add: read_exponent_def Let_def suffix_tl)
qed

lemma if_Some_cases:
  "(if c then Some a else if d then Some b else None) = Some r \<Longrightarrow> c \<and> r = a \<or> d \<and> r = b"
  by (cases c; cases d) simp_all

lemma read_mantissa_suffix: "read_mantissa dig s = Some r \<Longrightarrow> strict_suffix r s"
proof -
  assume r: "read_mantissa dig s = Some r"
  let ?t = "dropWhile dig s"
  have t: "suffix ?t s" by (rule suffix_dropWhile)
  have n: "length (takeWhile dig s) + length ?t = length s"
    using arg_cong [OF takeWhile_dropWhile_id [of dig s], of length] by (simp only: length_append)
  consider "?t \<noteq> []" "r = dropWhile dig (tl ?t)" | "r = ?t" "takeWhile dig s \<noteq> []"
    using if_Some_cases [OF r [unfolded read_mantissa_def Let_def]] by iprover
  then show ?thesis
  proof cases
    case 1
    have "length (dropWhile dig (tl ?t)) \<le> length (tl ?t)" by (rule length_dropWhile_le)
    moreover have "length (tl ?t) < length ?t" using 1(1) by simp
    ultimately have "length r < length s" unfolding 1(2) using n by linarith
    moreover have "suffix r s"
      using 1(2) t suffix_tl [of ?t] suffix_dropWhile [of dig "tl ?t"] suffix_order.trans by metis
    ultimately show ?thesis by (simp add: strict_suffixI)
  next
    case 2
    then have "length r < length s" using n by (cases "takeWhile dig s") auto
    then show ?thesis using t 2(1) by (simp add: strict_suffixI)
  qed
qed

lemma read_nan_tail_suffix: "suffix (read_nan_tail s) s"
proof -
  have "suffix (tl r) s" if "suffix r (tl s)" for r
    using that by (meson suffix_order.trans suffix_tl)
  then show ?thesis by (simp add: read_nan_tail_def Let_def suffix_dropWhile)
qed

lemma read_hex_suffix: "read_hex u = Some r \<Longrightarrow> strict_suffix r u"
proof -
  assume "read_hex u = Some r"
  then obtain h m where "read_word ''0x'' u = Some h" "read_mantissa isxdigit h = Some m"
    "r = read_exponent (CHR ''p'') m"
    by (auto simp: read_hex_def split: option.splits)
  then have "strict_suffix h u" "strict_suffix m h" "suffix r m"
    using read_word_suffix read_mantissa_suffix read_exponent_suffix by auto
  then show ?thesis using suffix_order.le_less_trans suffix_order.less_trans by blast
qed

lemma number_body_suffix: "number_body u = Some r \<Longrightarrow> strict_suffix r u"
proof -
  assume r: "number_body u = Some r"
  have dec: "strict_suffix (read_exponent (CHR ''e'') q) u" if "read_mantissa isdigit u = Some q" for q
    using read_mantissa_suffix [OF that] read_exponent_suffix suffix_order.le_less_trans by blast
  have nan: "strict_suffix (read_nan_tail q) u" if "read_word ''nan'' u = Some q" for q
    using read_word_suffix [OF that] read_nan_tail_suffix suffix_order.le_less_trans by blast
  show ?thesis
    using r dec nan read_hex_suffix read_word_suffix [of "''infinity''" u] read_word_suffix [of "''inf''" u]
    by (simp add: number_body_def split: option.splits) blast+
qed

lemma strtod_rest_suffix: "strtod_rest s = Some r \<Longrightarrow> strict_suffix r s"
proof -
  assume "strtod_rest s = Some r"
  then have "strict_suffix r (number_sign s)" by (simp add: strtod_rest_def number_body_suffix)
  moreover have "suffix (number_sign s) s"
    using suffix_order.trans [OF suffix_tl [of "dropWhile isspace s"] suffix_dropWhile [of isspace s]]
    by (simp add: number_sign_def Let_def suffix_dropWhile)
  ultimately show ?thesis by (rule suffix_order.less_le_trans)
qed

section \<open>The contract of a skipper\<close>

locale value_skipper =
  fixes skip :: "string \<Rightarrow> string option"
  assumes skip_suffix: "skip p = Some r \<Longrightarrow> strict_suffix r p"
begin

lemma skip_shorter: "skip p = Some r \<Longrightarrow> length r < length p"
  by (rule suffix_length_less) (rule skip_suffix)

lemma array_loop_suffix: "array_loop skip n p = Some r \<Longrightarrow> strict_suffix r p"
proof (induction n arbitrary: p r)
  case (Suc n)
  obtain p1 c q where s: "skip p = Some p1" "json_ws p1 = c # q" "q = r \<or> array_loop skip n q = Some r"
    using Suc.prems by (auto split: option.splits list.splits if_splits)
  have "strict_suffix q p" using json_ws_Cons [OF s(2)] skip_suffix [OF s(1)] by (rule suffix_order.less_trans)
  then show ?case using s(3) Suc.IH suffix_order.less_trans by blast
qed simp

lemma object_loop_suffix: "object_loop skip n p = Some r \<Longrightarrow> strict_suffix r p"
proof (induction n arbitrary: p r)
  case (Suc n)
  obtain k p1 c q p2 d t where s: "json_string p = Some (k, p1)" "json_ws p1 = c # q" "skip q = Some p2"
    "json_ws p2 = d # t" "t = r \<or> object_loop skip n t = Some r"
    using Suc.prems by (auto split: option.splits list.splits if_splits)
  have "strict_suffix t q" using json_ws_Cons [OF s(4)] skip_suffix [OF s(3)] by (rule suffix_order.less_trans)
  moreover have "strict_suffix q p"
    using json_ws_Cons [OF s(2)] json_string_suffix [OF s(1)] by (rule suffix_order.less_trans)
  ultimately have "strict_suffix t p" by (rule suffix_order.less_trans)
  then show ?case using s(5) Suc.IH suffix_order.less_trans by blast
qed simp

text \<open>Turns: as many as the text has characters, plus one, give the result of any larger number.\<close>

lemma array_loop_fuel:
  "length p < n \<Longrightarrow> length p < m \<Longrightarrow> array_loop skip n p = array_loop skip m p"
proof (induction n arbitrary: p m)
  case (Suc n)
  obtain k where m: "m = Suc k" using Suc.prems(2) by (cases m) auto
  have "array_loop skip n q = array_loop skip k q" if "skip p = Some p1" "json_ws p1 = c # q" for p1 c q
  proof (rule Suc.IH)
    have "length q < length p"
      using suffix_length_less [OF json_ws_Cons [OF that(2)]] skip_shorter [OF that(1)] by linarith
    then show "length q < n" "length q < k" using Suc.prems m by simp_all
  qed
  then show ?case unfolding m by (auto split: option.splits list.splits)
qed simp

lemma object_loop_fuel:
  "length p < n \<Longrightarrow> length p < m \<Longrightarrow> object_loop skip n p = object_loop skip m p"
proof (induction n arbitrary: p m)
  case (Suc n)
  obtain k where m: "m = Suc k" using Suc.prems(2) by (cases m) auto
  have "object_loop skip n t = object_loop skip k t"
    if s: "json_string p = Some (x, p1)" "json_ws p1 = c # q" "skip q = Some p2" "json_ws p2 = d # t" for x p1 c q p2 d t
  proof (rule Suc.IH)
    have "length t < length p"
      using suffix_length_less [OF json_ws_Cons [OF s(4)]] skip_shorter [OF s(3)]
        suffix_length_less [OF json_ws_Cons [OF s(2)]] suffix_length_less [OF json_string_suffix [OF s(1)]] by linarith
    then show "length t < n" "length t < k" using Suc.prems m by simp_all
  qed
  then show ?case unfolding m by (auto split: option.splits list.splits)
qed simp

lemma array_suffix: "json_skip_array skip p = Some r \<Longrightarrow> strict_suffix r p"
proof -
  assume a: "json_skip_array skip p = Some r"
  then obtain c q where q: "json_ws p = c # q" by (auto simp: json_skip_array_def split: list.splits)
  have "strict_suffix r q"
    using a q array_loop_suffix [of "Suc (length (json_ws q))" "json_ws q" r] json_ws_Cons [of q] json_ws_suffix [of q]
    by (cases "json_ws q")
      (auto simp: json_skip_array_def simp del: array_loop.simps split: if_splits
        dest: array_loop_suffix intro: suffix_order.less_le_trans)
  then show ?thesis using json_ws_Cons [OF q] by (rule suffix_order.less_trans)
qed

lemma object_suffix: "json_skip_object skip p = Some r \<Longrightarrow> strict_suffix r p"
proof -
  assume a: "json_skip_object skip p = Some r"
  then obtain c q where q: "json_ws p = c # q" by (auto simp: json_skip_object_def split: list.splits)
  have "strict_suffix r q"
    using a q object_loop_suffix [of "Suc (length (json_ws q))" "json_ws q" r] json_ws_Cons [of q] json_ws_suffix [of q]
    by (cases "json_ws q")
      (auto simp: json_skip_object_def simp del: object_loop.simps split: if_splits
        dest: object_loop_suffix intro: suffix_order.less_le_trans)
  then show ?thesis using json_ws_Cons [OF q] by (rule suffix_order.less_trans)
qed

end

lemma json_lit_suffix: "json_lit p l = Some r \<Longrightarrow> l \<noteq> [] \<Longrightarrow> strict_suffix r p"
proof -
  assume "json_lit p l = Some r" "l \<noteq> []"
  then have "r = drop (length l) p" "p \<noteq> []" by (auto simp: json_lit_def split: if_splits)
  then show ?thesis using \<open>l \<noteq> []\<close> by (auto intro!: strict_suffixI simp: suffix_drop)
qed

lemma skip_value_step_suffix:
  assumes "skip_value_step inner p = Some r" "\<And>skip. inner = Some skip \<Longrightarrow> value_skipper skip"
  shows "strict_suffix r p"
proof -
  let ?q = "json_ws p"
  have arr: "json_skip_array skip ?q = Some r \<Longrightarrow> strict_suffix r ?q"
    "json_skip_object skip ?q = Some r \<Longrightarrow> strict_suffix r ?q" if "inner = Some skip" for skip
    using value_skipper.array_suffix value_skipper.object_suffix assms(2) [OF that] by blast+
  have "strict_suffix r ?q"
    using assms(1) arr json_string_suffix [of ?q] json_lit_suffix [of ?q "''true''" r]
      json_lit_suffix [of ?q "''false''" r] json_lit_suffix [of ?q "''null''" r] strtod_rest_suffix [of ?q r]
    by (cases inner) (auto simp: skip_value_step_def Let_def split: if_splits option.splits)
  then show ?thesis using json_ws_suffix by (rule suffix_order.less_le_trans)
qed

lemma skip_levels_suffix: "skip_levels k p = Some r \<Longrightarrow> strict_suffix r p"
proof (induction k arbitrary: p r)
  case 0
  then show ?case using skip_value_step_suffix [of None] by simp
next
  case (Suc k)
  then show ?case
    using skip_value_step_suffix [of "Some (skip_levels k)" p r] by (simp add: value_skipper_def)
qed

interpretation level: value_skipper "skip_levels k" for k
  by unfold_locales (rule skip_levels_suffix)

section \<open>Documents\<close>

text \<open>The abstract syntax of JSON with integer numbers, and its text. Nesting is counted as the code
  counts it: a scalar has depth 0.\<close>

datatype jval = JNull | JBool bool | JNum int | JStr string | JArr "jval list" | JObj "(string \<times> jval) list"

fun commas :: "string list \<Rightarrow> string" where
  "commas [] = []"
| "commas [x] = x"
| "commas (x # y # ys) = x @ CHR '','' # commas (y # ys)"

fun json_print :: "jval \<Rightarrow> string" where
  "json_print JNull = ''null''"
| "json_print (JBool b) = (if b then ''true'' else ''false'')"
| "json_print (JNum i) = (if i < 0 then CHR ''-'' # nat_dec (nat (- i)) else nat_dec (nat i))"
| "json_print (JStr s) = json_escape s"
| "json_print (JArr js) = CHR ''['' # commas (map json_print js) @ '']''"
| "json_print (JObj ms) = CHR ''{'' # commas (map (\<lambda>(k, v). json_escape k @ CHR '':'' # json_print v) ms) @ ''}''"

fun json_depth :: "jval \<Rightarrow> nat" where
  "json_depth (JArr js) = Suc (foldr max (map json_depth js) 0)"
| "json_depth (JObj ms) = Suc (foldr max (map (\<lambda>(k, v). json_depth v) ms) 0)"
| "json_depth _ = 0"

text \<open>What may follow a value: the end, white space, or the punctuation of an enclosing value.\<close>

definition ends_value :: "string \<Rightarrow> bool" where
  "ends_value r \<longleftrightarrow> r = [] \<or> isspace (hd r) \<or> hd r \<in> {CHR '','', CHR '']'', CHR ''}''}"

lemma foldr_max_le: "foldr max ns (0::nat) \<le> k \<longleftrightarrow> (\<forall>n\<in>set ns. n \<le> k)"
  by (induction ns) auto

lemma commas_length: "length xs \<le> Suc (length (commas xs))"
  by (induction xs rule: commas.induct) auto

lemma isspace_plain [simp]:
  "\<not> isspace QUOTE" "\<not> isspace (CHR ''['')" "\<not> isspace (CHR '']'')" "\<not> isspace (CHR ''{'')"
  "\<not> isspace (CHR ''}'')" "\<not> isspace (CHR '','')" "\<not> isspace (CHR '':'')" "\<not> isspace (CHR ''-'')"
  "\<not> isspace (CHR ''t'')" "\<not> isspace (CHR ''f'')" "\<not> isspace (CHR ''n'')"
  by (simp_all add: isspace_def ord_def)

lemma nat_dec_shape: "nat_dec n \<noteq> [] \<and> list_all isdigit (nat_dec n)"
proof (induction n rule: nat_dec.induct)
  case (1 n)
  have d: "isdigit (char_of (48 + k))" if "k < 10" for k :: nat
    using that by (simp add: isdigit_def ord_def)
  show ?case using 1 d [of n] d [of "n mod 10"] by (subst (1 2) nat_dec.simps) auto
qed

lemma digit_facts: "isdigit c \<Longrightarrow> \<not> isspace c \<and> tolower c = c \<and>
    c \<notin> {CHR ''-'', CHR ''+'', CHR ''.'', CHR ''i'', CHR ''n'', CHR ''x'', CHR ''e'', CHR ''t'', CHR ''f'', CHR ''['', CHR ''{'', CHR '']'', CHR ''}'', QUOTE}"
  by (auto simp: isdigit_def isspace_def tolower_def ord_def)

lemma ends_facts:
  assumes "ends_value r" "r \<noteq> []"
  shows "\<not> isdigit (hd r)" "hd r \<noteq> CHR ''.''" "tolower (hd r) \<notin> {CHR ''e'', CHR ''x''}"
proof -
  have s: "\<not> isdigit c \<and> c \<noteq> CHR ''.'' \<and> tolower c = c \<and> c \<noteq> CHR ''e'' \<and> c \<noteq> CHR ''x''" if "isspace c" for c
    using that by (auto simp: isdigit_def isspace_def tolower_def ord_def)
  show "\<not> isdigit (hd r)" "hd r \<noteq> CHR ''.''" "tolower (hd r) \<notin> {CHR ''e'', CHR ''x''}"
    using assms s [of "hd r"] by (auto simp: ends_value_def isdigit_def tolower_def ord_def)
qed

lemma takeWhile_digits:
  assumes "list_all isdigit ds" "ends_value r"
  shows "dropWhile isdigit (ds @ r) = r" "takeWhile isdigit (ds @ r) = ds"
proof -
  have "dropWhile isdigit r = r" "takeWhile isdigit r = []"
    using ends_facts(1) [OF assms(2)] by (cases r; simp)+
  then show "dropWhile isdigit (ds @ r) = r" "takeWhile isdigit (ds @ r) = ds"
    using assms(1) by (auto simp: dropWhile_append takeWhile_append list_all_iff dropWhile_eq_Nil_conv
        takeWhile_eq_all_conv)
qed

lemma number_body_digits:
  assumes "ds \<noteq> []" "list_all isdigit ds" "ends_value r"
  shows "number_body (ds @ r) = Some r"
proof -
  obtain c cs where ds: "ds = c # cs" using assms(1) by (cases ds) auto
  have c: "isdigit c" "\<And>x. x \<in> set cs \<Longrightarrow> isdigit x" using assms(2) by (auto simp: ds list_all_iff)
  have word: "read_word (w # ws) (ds @ r) = None" if "w \<in> {CHR ''i'', CHR ''n''}" for w ws
    using digit_facts [OF c(1)] that by (auto simp: read_word_def ds)
  have "read_word ''0x'' (ds @ r) = None"
  proof (cases cs)
    case Nil
    then show ?thesis using ends_facts(3) [OF assms(3)] by (cases r) (auto simp: read_word_def ds)
  next
    case (Cons d rest)
    then show ?thesis using digit_facts c(2) by (auto simp: read_word_def ds)
  qed
  then have "read_hex (ds @ r) = None" by (simp add: read_hex_def)
  moreover have "read_mantissa isdigit (ds @ r) = Some r"
    using assms takeWhile_digits [OF assms(2,3)] ends_facts(2) [OF assms(3)] by (auto simp: read_mantissa_def)
  moreover have "read_exponent (CHR ''e'') r = r"
    using ends_facts(3) [OF assms(3)] by (auto simp: read_exponent_def)
  ultimately show ?thesis by (simp add: number_body_def word)
qed

lemma array_loop_commas:
  assumes "\<And>j r. j \<in> set js \<Longrightarrow> ends_value r \<Longrightarrow> skip (pr j @ r) = (if ok j then Some r else None)"
    and "js \<noteq> []" "length js \<le> n"
  shows "array_loop skip n (commas (map pr js) @ CHR '']'' # r) = (if \<forall>j\<in>set js. ok j then Some r else None)"
  using assms
proof (induction js arbitrary: n)
  case (Cons j js)
  obtain m where n: "n = Suc m" using Cons.prems(3) by (cases n) auto
  have ends: "ends_value (CHR '']'' # t)" "ends_value (CHR '','' # t)" for t by (simp_all add: ends_value_def)
  show ?case
  proof (cases js)
    case Nil
    then show ?thesis using Cons.prems(1) [of j "CHR '']'' # r"] n ends by simp
  next
    case (Cons i js')
    have "array_loop skip m (commas (map pr js) @ CHR '']'' # r) = (if \<forall>j\<in>set js. ok j then Some r else None)"
      using Cons.IH Cons.prems(1,3) Cons n by simp
    then show ?thesis
      using Cons.prems(1) [of j "CHR '','' # commas (map pr js) @ CHR '']'' # r"] n ends Cons by simp
  qed
qed simp

lemma object_loop_commas:
  assumes "\<And>k v r. (k, v) \<in> set ms \<Longrightarrow> ends_value r \<Longrightarrow> skip (pr v @ r) = (if ok v then Some r else None)"
    and "ms \<noteq> []" "length ms \<le> n"
  shows "object_loop skip n (commas (map (\<lambda>(k, v). json_escape k @ CHR '':'' # pr v) ms) @ CHR ''}'' # r)
    = (if \<forall>(k, v)\<in>set ms. ok v then Some r else None)"
  using assms
proof (induction ms arbitrary: n)
  case (Cons kv ms)
  obtain m where n: "n = Suc m" using Cons.prems(3) by (cases n) auto
  obtain k v where kv: "kv = (k, v)" by (cases kv)
  have ends: "ends_value (CHR ''}'' # t)" "ends_value (CHR '','' # t)" for t by (simp_all add: ends_value_def)
  have key: "json_string (json_escape k @ CHR '':'' # t) = Some (cstr k, CHR '':'' # t)" for t
    by (simp add: json_string_def json_escape_def json_chars_escaped)
  show ?case
  proof (cases ms)
    case Nil
    then show ?thesis using Cons.prems(1) [of k v "CHR ''}'' # r"] n ends kv by (simp add: key)
  next
    case (Cons i ms')
    let ?t = "commas (map (\<lambda>(k, v). json_escape k @ CHR '':'' # pr v) ms) @ CHR ''}'' # r"
    have "object_loop skip m ?t = (if \<forall>(k, v)\<in>set ms. ok v then Some r else None)"
    proof (rule Cons.IH)
      show "skip (pr v @ r) = (if ok v then Some r else None)" if "(k, v) \<in> set ms" "ends_value r" for k v r
        using that by (intro Cons.prems(1) [of k]) simp_all
      show "ms \<noteq> []" "length ms \<le> m" using Cons Cons.prems(3) n by simp_all
    qed
    then show ?thesis
      using Cons.prems(1) [of k v "CHR '','' # ?t"] n ends Cons kv by (simp add: key)
  qed
qed simp

text \<open>Skipping a printed document, with \<open>k\<close> levels of nesting left.\<close>

lemma first_char:
  "skip_value_step inner (CHR ''['' # t) = Option.bind inner (\<lambda>skip. json_skip_array skip (CHR ''['' # t))"
  "skip_value_step inner (CHR ''{'' # t) = Option.bind inner (\<lambda>skip. json_skip_object skip (CHR ''{'' # t))"
  "skip_value_step inner (QUOTE # t) = map_option snd (json_string (QUOTE # t))"
  by (simp_all add: skip_value_step_def Let_def)

lemma skip_number:
  assumes "ends_value r"
  shows "skip_value_step inner (json_print (JNum i) @ r) = Some r"
proof -
  define ds where "ds = nat_dec (nat \<bar>i\<bar>)"
  have ds: "ds \<noteq> []" "list_all isdigit ds" using nat_dec_shape by (simp_all add: ds_def)
  obtain c cs where c: "ds = c # cs" "isdigit c" using ds by (cases ds) auto
  note f = digit_facts [OF c(2)]
  have pr: "json_print (JNum i) = (if i < 0 then CHR ''-'' # ds else ds)" by (simp add: ds_def)
  have "number_sign (json_print (JNum i) @ r) = ds @ r"
    unfolding pr using f by (simp add: number_sign_def c(1) del: json_print.simps)
  then have "strtod_rest (json_print (JNum i) @ r) = Some r"
    using number_body_digits [OF ds assms] by (simp add: strtod_rest_def del: json_print.simps)
  then show ?thesis
    unfolding pr c(1) using f by (simp add: skip_value_step_def json_lit_def split: if_splits)
qed

lemma skip_scalars:
  "skip_value_step inner (json_print JNull @ r) = Some r"
  "skip_value_step inner (json_print (JBool b) @ r) = Some r"
  "skip_value_step inner (json_print (JStr s) @ r) = Some r"
  by (simp_all add: skip_value_step_def json_lit_def)
    (simp add: json_escape_def json_string_def json_chars_escaped)

definition starts_value :: "string \<Rightarrow> bool" where
  "starts_value x \<longleftrightarrow> (\<exists>c t. x = c # t \<and> \<not> isspace c \<and> c \<notin> {CHR '']'', CHR ''}''})"

lemma starts_value_append: "starts_value x \<Longrightarrow> starts_value (x @ r)"
  by (auto simp: starts_value_def)

lemma commas_start: "xs \<noteq> [] \<Longrightarrow> list_all starts_value xs \<Longrightarrow> starts_value (commas xs @ r)"
  by (induction xs rule: commas.induct) (simp_all add: starts_value_append)

lemma print_start: "starts_value (json_print j)"
proof (cases j)
  case (JNum i)
  have "starts_value (nat_dec n)" for n
    using nat_dec_shape [of n] digit_facts by (cases "nat_dec n") (auto simp: starts_value_def)
  then show ?thesis using JNum by (auto simp: starts_value_def)
qed (auto simp: json_escape_def starts_value_def)

lemma member_start: "starts_value (case kv of (k, v) \<Rightarrow> json_escape k @ x v)"
  by (cases kv) (simp add: json_escape_def starts_value_def)

lemma skip_levels_step:
  "skip_levels k = skip_value_step (case k of 0 \<Rightarrow> None | Suc l \<Rightarrow> Some (skip_levels l))"
  by (cases k) simp_all

lemma skip_levels_print:
  "ends_value r \<Longrightarrow> skip_levels k (json_print j @ r) = (if json_depth j \<le> k then Some r else None)"
proof (induction j arbitrary: k r)
  case (JArr js)
  show ?case
  proof (cases k)
    case (Suc l)
    show ?thesis
    proof (cases "js = []")
      case False
      obtain c t where ct: "commas (map json_print js) @ CHR '']'' # r = c # t" "\<not> isspace c" "c \<noteq> CHR '']''"
        using commas_start [of "map json_print js" "CHR '']'' # r"] False
        by (auto simp: starts_value_def [of "_ @ _"] list_all_iff print_start)
      have "length js \<le> Suc (length (c # t))"
        using commas_length [of "map json_print js"] by (simp add: ct(1) [symmetric] del: length_Cons)
      then have "array_loop (skip_levels l) (Suc (length (c # t))) (c # t)
          = (if \<forall>j\<in>set js. json_depth j \<le> l then Some r else None)"
        unfolding ct(1) [symmetric] using False JArr.IH by (intro array_loop_commas) auto
      then show ?thesis
        using ct by (simp add: Suc first_char json_skip_array_def foldr_max_le del: array_loop.simps)
    qed (simp add: Suc first_char json_skip_array_def)
  qed (simp add: first_char)
next
  case (JObj ms)
  let ?pm = "\<lambda>(k, v). json_escape k @ CHR '':'' # json_print v"
  show ?case
  proof (cases k)
    case (Suc l)
    show ?thesis
    proof (cases "ms = []")
      case False
      obtain c t where ct: "commas (map ?pm ms) @ CHR ''}'' # r = c # t" "\<not> isspace c" "c \<noteq> CHR ''}''"
        using commas_start [of "map ?pm ms" "CHR ''}'' # r"] False
        by (auto simp: starts_value_def [of "_ @ _"] list_all_iff member_start)
      have "length ms \<le> Suc (length (c # t))"
        using commas_length [of "map ?pm ms"] by (simp add: ct(1) [symmetric] del: length_Cons)
      then have "object_loop (skip_levels l) (Suc (length (c # t))) (c # t)
          = (if \<forall>(k, v)\<in>set ms. json_depth v \<le> l then Some r else None)"
        unfolding ct(1) [symmetric] using False JObj.IH
        by (intro object_loop_commas) (auto simp: snds.simps)
      then show ?thesis
        using ct by (simp add: Suc first_char json_skip_object_def foldr_max_le del: object_loop.simps)
          (auto simp: split_beta)
    qed (simp add: Suc first_char json_skip_object_def)
  qed (simp add: first_char)
next
  case JNull
  then show ?case by (subst skip_levels_step) (simp only: skip_scalars json_depth.simps le0 if_True)
next
  case (JBool b)
  then show ?case by (subst skip_levels_step) (simp only: skip_scalars json_depth.simps le0 if_True)
next
  case (JNum i)
  then show ?case by (subst skip_levels_step) (simp only: skip_number json_depth.simps le0 if_True)
next
  case (JStr s)
  then show ?case by (subst skip_levels_step) (simp only: skip_scalars json_depth.simps le0 if_True)
qed

end
