(* ===== verification/JsonArgs.thy ===== *)
theory JsonArgs
  imports Dsml ServerJsonSpec
begin

text \<open>
  Reading the arguments of a tool call: a printed object gives its members back, whatever white
  space stands behind its commas and colons, and minifying a printed document changes nothing.
\<close>

section \<open>Minifying a printed document\<close>

lemma minify_steps [simp]:
  "minify_step (b, True, False) QUOTE = (b @ [QUOTE], False, False)"
  "minify_step (b, True, False) BSL = (b @ [BSL], True, True)"
  "minify_step (b, True, True) c = (b @ [c], True, False)"
  "minify_step (b, False, False) QUOTE = (b @ [QUOTE], True, False)"
  "c \<noteq> QUOTE \<Longrightarrow> c \<noteq> BSL \<Longrightarrow> minify_step (b, True, False) c = (b @ [c], True, False)"
  "c \<noteq> QUOTE \<Longrightarrow> \<not> isspace c \<Longrightarrow> minify_step (b, False, False) c = (b @ [c], False, False)"
  by (simp_all add: minify_step_def)

lemma minify_in_string:
  "foldl minify_step (b, True, False) (escape_char c) = (b @ escape_char c, True, False)"
proof -
  have h: "foldl minify_step (b', True, False) hs = (b' @ hs, True, False)"
    if "BSL \<notin> set hs" "QUOTE \<notin> set hs" for b' hs
    using that by (induction hs arbitrary: b') auto
  have "''0123456789abcdef'' ! (k mod 16) \<in> set ''0123456789abcdef''" for k
    by (rule nth_mem) simp
  then have "set (hex4 n) \<subseteq> set ''0123456789abcdef''" for n
    unfolding hex4_def by (simp only: list.map list.set insert_subset empty_subsetI)
  then have "BSL \<notin> set (hex4 n)" "QUOTE \<notin> set (hex4 n)" for n by fastforce+
  then show ?thesis by (auto simp: escape_char_def h)
qed

lemma minify_escaped: "foldl minify_step (b, False, False) (json_escape s) = (b @ json_escape s, False, False)"
proof -
  have "foldl minify_step (b', True, False) (concat (map escape_char s)) = (b' @ concat (map escape_char s), True, False)" for b'
    by (induction s arbitrary: b') (simp_all add: minify_in_string)
  then show ?thesis by (simp add: json_escape_def)
qed

lemma minify_plain:
  "\<forall>c\<in>set s. c \<noteq> QUOTE \<and> \<not> isspace c \<Longrightarrow> foldl minify_step (b, False, False) s = (b @ s, False, False)"
  by (induction s arbitrary: b) auto

lemma minify_commas:
  assumes "\<And>x b. x \<in> set xs \<Longrightarrow> foldl minify_step (b, False, False) x = (b @ x, False, False)"
  shows "foldl minify_step (b, False, False) (commas xs) = (b @ commas xs, False, False)"
  using assms by (induction xs arbitrary: b rule: commas.induct) simp_all

lemma minify_print: "foldl minify_step (b, False, False) (json_print j) = (b @ json_print j, False, False)"
proof (induction j arbitrary: b)
  case (JNum i)
  have "\<forall>c\<in>set (nat_dec n). c \<noteq> QUOTE \<and> \<not> isspace c" for n
    using nat_dec_shape [of n] digit_facts by (auto simp: list_all_iff)
  then show ?case by (intro minify_plain) auto
next
  case (JArr js)
  have "foldl minify_step (b @ ''['', False, False) (commas (map json_print js))
      = ((b @ ''['') @ commas (map json_print js), False, False)"
    by (rule minify_commas) (auto simp: JArr.IH)
  then show ?case by simp
next
  case (JObj ms)
  have "foldl minify_step (b, False, False) ((\<lambda>(k, v). json_escape k @ CHR '':'' # json_print v) m)
      = (b @ (\<lambda>(k, v). json_escape k @ CHR '':'' # json_print v) m, False, False)" if "m \<in> set ms" for b m
  proof (cases m)
    case (Pair k v)
    then have "foldl minify_step (b, False, False) (json_print v) = (b @ json_print v, False, False)" for b
      using JObj.IH [of m v] that by simp
    then show ?thesis using Pair by (simp add: minify_escaped)
  qed
  then have "foldl minify_step (b @ ''{'', False, False) (commas (map (\<lambda>(k, v). json_escape k @ CHR '':'' # json_print v) ms))
      = ((b @ ''{'') @ commas (map (\<lambda>(k, v). json_escape k @ CHR '':'' # json_print v) ms), False, False)" for b
    by (intro minify_commas) auto
  then show ?case by simp
qed (simp_all add: minify_escaped minify_plain isspace_def ord_def)

section \<open>The members of an object\<close>

lemma json_raw_print:
  assumes "ends_value r" "json_depth j \<le> JSON_MAX_NESTING"
  shows "json_raw_value (json_print j @ r) = Some (json_print j, r)"
proof -
  have "json_ws (json_print j @ r) = json_print j @ r"
    using print_start [of j] by (auto simp: starts_value_def)
  then show ?thesis
    using skip_levels_print [OF assms(1), of JSON_MAX_NESTING j] assms(2)
    by (simp add: json_raw_value_def json_skip_value_def json_skip_value_depth_def)
qed

lemma minify_doc:
  assumes "json_depth j \<le> JSON_MAX_NESTING"
  shows "json_minify_raw_value (Some (json_print j)) = json_print j"
proof -
  have e: "ends_value []" by (simp add: ends_value_def)
  have "json_ws (json_print j) = json_print j" using print_start [of j] by (auto simp: starts_value_def)
  then show ?thesis
    using skip_levels_print [OF e, of JSON_MAX_NESTING j] assms minify_print [of "[]" j]
    by (simp add: json_minify_raw_value_def json_skip_value_def json_skip_value_depth_def)
qed

text \<open>The argument a member becomes, and members with any separator.\<close>

definition doc_arg :: "string \<times> jval \<Rightarrow> json_arg" where
  "doc_arg m = (case m of (k, v) \<Rightarrow>
     \<lparr>ja_key = cstr k, ja_value = (case v of JStr s \<Rightarrow> cstr s | _ \<Rightarrow> json_print v),
      ja_is_string = (case v of JStr s \<Rightarrow> True | _ \<Rightarrow> False), ja_used = False\<rparr>)"

fun sepjoin :: "string \<Rightarrow> string list \<Rightarrow> string" where
  "sepjoin sep [] = []"
| "sepjoin sep [x] = x"
| "sepjoin sep (x # y # ys) = x @ sep @ sepjoin sep (y # ys)"

lemma commas_sepjoin: "commas xs = sepjoin '','' xs"
  by (induction xs rule: commas.induct) simp_all

definition member :: "string \<Rightarrow> string \<times> jval \<Rightarrow> string" where
  "member col m = (case m of (k, v) \<Rightarrow> json_escape k @ col @ json_print v)"

lemma json_string_printed: "json_string (json_escape s @ r) = Some (cstr s, r)"
  by (simp add: json_string_def json_escape_def json_chars_escaped)

lemma sepjoin_start: "\<exists>t. sepjoin sep (map (member col) (m # ms)) @ r = QUOTE # t"
proof -
  obtain k v where "m = (k, v)" by (cases m)
  then show ?thesis by (cases ms) (simp_all add: member_def json_escape_def)
qed

lemma print_quote: "hd (json_print j @ r) = QUOTE \<longleftrightarrow> (\<exists>s. j = JStr s)"
proof (cases j)
  case (JNum i)
  have "nat_dec n \<noteq> [] \<and> hd (nat_dec n) \<noteq> QUOTE" for n
    using nat_dec_shape [of n] digit_facts by (cases "nat_dec n") auto
  then show ?thesis using JNum by simp
qed (auto simp: json_escape_def)

text \<open>One member and what stands behind it.\<close>

lemma args_loop_member:
  assumes "json_depth v \<le> JSON_MAX_NESTING" "ends_value t" "col = '':'' \<or> col = '': ''"
  shows "args_loop (Suc n) acc (member col (k, v) @ t) = args_loop n (acc @ [doc_arg (k, v)]) (skip_comma t)"
proof -
  have q: "json_ws (drop 1 col @ json_print v @ t) = json_print v @ t" "json_ws (col @ x) = col @ x"
    "col = CHR '':'' # drop 1 col" for x
    using assms(3) print_start [of v] by (auto simp: starts_value_def json_ws_def isspace_def ord_def)
  have ne: "json_print v \<noteq> []" using print_start [of v] by (auto simp: starts_value_def)
  obtain u where u: "member col (k, v) @ t = QUOTE # u" by (simp add: member_def json_escape_def)
  have "json_string (QUOTE # u) = Some (cstr k, CHR '':'' # drop 1 col @ json_print v @ t)"
    using json_string_printed [of k "col @ json_print v @ t"] q(3) unfolding u [symmetric] by (simp add: member_def)
  moreover have "json_ws (CHR '':'' # x) = CHR '':'' # x" for x by simp
  moreover have "json_string (json_print v @ t) = Some (cstr s, t)" if "v = JStr s" for s
    using that by (simp add: json_string_printed)
  ultimately show ?thesis
    unfolding u using q(1) ne print_quote [of v t] json_raw_print [OF assms(2,1)] minify_doc [OF assms(1)]
    by (cases v) (simp_all add: doc_arg_def)
qed

lemma args_loop_members:
  assumes "\<forall>(k, v)\<in>set ms. json_depth v \<le> JSON_MAX_NESTING" "length ms < n"
    "col = '':'' \<or> col = '': ''" "sep = '','' \<or> sep = '', ''"
  shows "args_loop n acc (sepjoin sep (map (member col) ms) @ CHR ''}'' # r) = Some (acc @ map doc_arg ms)"
  using assms(1,2)
proof (induction ms arbitrary: n acc)
  case Nil
  then show ?case by (cases n) auto
next
  case (Cons m ms)
  obtain n' where n: "n = Suc n'" using Cons.prems(2) by (cases n) auto
  obtain k v where m: "m = (k, v)" by (cases m)
  have d: "json_depth v \<le> JSON_MAX_NESTING" using Cons.prems(1) m by auto
  have ih: "args_loop n' (acc @ [doc_arg m]) (sepjoin sep (map (member col) ms) @ CHR ''}'' # r)
      = Some (acc @ map doc_arg (m # ms))"
    using Cons.IH [of n' "acc @ [doc_arg m]"] Cons.prems n by simp
  show ?case
  proof (cases ms)
    case Nil
    have "skip_comma (CHR ''}'' # r) = CHR ''}'' # r" "ends_value (CHR ''}'' # r)"
      by (simp_all add: skip_comma_def ends_value_def)
    then show ?thesis
      using args_loop_member [OF d _ assms(3), of "CHR ''}'' # r" n' acc k] ih Nil n m
      by (simp del: args_loop.simps)
  next
    case (Cons m' ms')
    let ?t = "sepjoin sep (map (member col) ms) @ CHR ''}'' # r"
    obtain u where u: "?t = QUOTE # u" using sepjoin_start [of sep col m' ms'] Cons by auto
    have "skip_comma (sep @ ?t) = ?t" "ends_value (sep @ ?t)"
      using assms(4) by (auto simp: u skip_comma_def ends_value_def json_ws_def isspace_def ord_def)
    then show ?thesis
      using args_loop_member [OF d _ assms(3), of "sep @ ?t" n' acc k] ih Cons n m
      by (simp del: args_loop.simps)
  qed
qed

lemma sepjoin_length: "list_all (\<lambda>x. x \<noteq> []) xs \<Longrightarrow> length xs \<le> length (sepjoin sep xs)"
proof (induction sep xs rule: sepjoin.induct)
  case (3 sep x y ys)
  then show ?case by (cases x) auto
qed (auto simp: Suc_le_eq)

lemma args_parse_members:
  assumes "\<forall>(k, v)\<in>set ms. json_depth v \<le> JSON_MAX_NESTING"
    "col = '':'' \<or> col = '': ''" "sep = '','' \<or> sep = '', ''"
  shows "json_args_parse (Some (''{'' @ sepjoin sep (map (member col) ms) @ ''}'')) = Some (map doc_arg ms)"
proof -
  let ?q = "sepjoin sep (map (member col) ms) @ ''}''"
  have q: "json_ws ?q = ?q"
  proof (cases ms)
    case (Cons m ms')
    then obtain t where "?q = QUOTE # t" using sepjoin_start [of sep col m ms' "''}''"] by auto
    then show ?thesis by simp
  qed simp
  have "list_all (\<lambda>x. x \<noteq> []) (map (member col) ms)"
    by (auto simp: list_all_iff member_def json_escape_def)
  then have "length ms < Suc (length ?q)" using sepjoin_length [of "map (member col) ms" sep] by simp
  then show ?thesis
    using args_loop_members [OF assms(1) _ assms(2,3), of "Suc (length ?q)" "[]" "[]"]
    by (simp add: json_args_parse_def q del: args_loop.simps)
qed

lemma args_parse_print:
  assumes "\<forall>(k, v)\<in>set ms. json_depth v \<le> JSON_MAX_NESTING"
  shows "json_args_parse (Some (json_print (JObj ms))) = Some (map doc_arg ms)"
proof -
  have "json_print (JObj ms) = ''{'' @ sepjoin '','' (map (member '':'') ms) @ ''}''"
    by (simp add: commas_sepjoin member_def [abs_def])
  then show ?thesis using args_parse_members [OF assms, of "'':''" "'',''"] by simp
qed

text \<open>Printing what was parsed: a printed object without NULs is reproduced.\<close>

lemma arg_pairs_sepjoin: "arg_pairs as = sepjoin '','' (map append_json_arg_pair as)"
  by (induction as rule: arg_pairs.induct) simp_all

end
