(* ===== verification/DsmlProps.thy ===== *)
theory DsmlProps
  imports DsmlParse JsonArgs
begin

text \<open>
  What the tool-call markup promises: escaping is undone by parsing, a closing tag inside a value
  never ends it, rendering a list of calls and parsing it gives the calls back, and a repaired
  block is balanced.
\<close>

section \<open>Escaping\<close>

lemma unescape_plain: "CHR ''&'' \<notin> set s \<Longrightarrow> dsml_unescape_text (s @ t) = s @ dsml_unescape_text t"
  by (induction s) auto

lemma unescape_attr_char: "dsml_unescape_text (attr_char c @ t) = c # dsml_unescape_text t"
  by (simp add: attr_char_def)

lemma unescape_attr: "dsml_unescape_text (append_dsml_attr_escaped s) = s"
  by (induction s) (simp_all add: append_dsml_attr_escaped_def unescape_attr_char)

lemma attr_escaped_set:
  "c \<in> {CHR ''<'', CHR ''>'', QUOTE} \<Longrightarrow> c \<notin> set (append_dsml_attr_escaped s)"
  by (auto simp: append_dsml_attr_escaped_def attr_char_def split: if_splits)

lemma guard_tag_id: "fin \<noteq> [] \<Longrightarrow> strstr_at fin s = None \<Longrightarrow> guard_tag fin rep s = s"
proof (induction s)
  case (Cons c s)
  then have "take (length fin) (c # s) \<noteq> fin" "strstr_at fin s = None"
    by (subst (asm) (2) strstr_at.simps; auto split: if_splits)+
  then show ?case using Cons by simp
qed simp

lemma strstr_at_step: "take (length n) (c # s) \<noteq> n \<Longrightarrow> strstr_at n (c # s) = strstr_at n s"
  by (subst strstr_at.simps) (simp only: if_False list.case)

text \<open>A tag is a \<open><\<close> and then characters other than \<open><\<close>. A match of the rest of a guarded tag in the
  guarded text was there before.\<close>

lemma guarded_prefix:
  assumes "prefix t (guard_tag (CHR ''<'' # w) rep s @ CHR ''<'' # r)"
    and "CHR ''<'' \<notin> set t" "rep \<noteq> []" "hd rep \<notin> set t"
  shows "prefix t s"
  using assms
proof (induction t arbitrary: s)
  case (Cons d t)
  obtain c s' where s: "s = c # s'" using Cons.prems(1,2) by (cases s) auto
  have ng: "take (length (CHR ''<'' # w)) s \<noteq> CHR ''<'' # w"
    using Cons.prems(1,4) assms(3) s by (cases rep) auto
  then have "d = c" "prefix t (guard_tag (CHR ''<'' # w) rep s' @ CHR ''<'' # r)"
    using Cons.prems(1) s by auto
  then show ?case using Cons.IH [of s'] Cons.prems(2,4) assms(3) s by simp
qed simp

lemma guarded_end:
  assumes "CHR ''<'' \<notin> set w" "rep \<noteq> []" "hd rep \<notin> set w" "CHR ''<'' \<notin> set rep"
  shows "strstr_at (CHR ''<'' # w) (guard_tag (CHR ''<'' # w) rep s @ (CHR ''<'' # w) @ r) = Some ((CHR ''<'' # w) @ r)"
proof (induction s)
  case Nil
  then show ?case by (subst strstr_at.simps) simp
next
  case (Cons c s)
  let ?t = "guard_tag (CHR ''<'' # w) rep s @ (CHR ''<'' # w) @ r"
  have skip: "strstr_at (CHR ''<'' # w) (x # u) = strstr_at (CHR ''<'' # w) u" if "x \<noteq> CHR ''<''" for x u
    using that by (subst strstr_at.simps) simp
  have reps: "strstr_at (CHR ''<'' # w) (q @ u) = strstr_at (CHR ''<'' # w) u" if "CHR ''<'' \<notin> set q" for q u
    using that by (induction q) (auto simp: skip)
  show ?case
  proof (cases "take (length (CHR ''<'' # w)) (c # s) = CHR ''<'' # w")
    case True
    then show ?thesis using Cons.IH reps [OF assms(4)] by simp
  next
    case False
    have "take (length (CHR ''<'' # w)) (c # ?t) \<noteq> CHR ''<'' # w"
    proof
      assume t: "take (length (CHR ''<'' # w)) (c # ?t) = CHR ''<'' # w"
      then have "prefix w ?t" using take_is_prefix [of "length w" ?t] by simp
      then have "prefix w s" using guarded_prefix [of w w rep s "w @ r"] assms by simp
      then show False using False t by (auto simp: prefix_def)
    qed
    then have "strstr_at (CHR ''<'' # w) (c # ?t) = strstr_at (CHR ''<'' # w) ?t"
      by (rule strstr_at_step)
    then show ?thesis using False Cons.IH by auto
  qed
qed

lemma unescape_guarded:
  "CHR ''&'' \<notin> set s \<Longrightarrow> dsml_unescape_text (guard_tag (CHR ''<'' # w) ''&lt;'' s) = s"
  by (induction s) auto

section \<open>Attributes\<close>

lemma strchr_at_append: "c \<notin> set s \<Longrightarrow> strchr_at c (s @ c # t) = Some (c # t)"
  by (simp add: strchr_at_def Let_def dropWhile_append3 flip: dropWhile_eq_self_iff)
    (induction s; auto)

lemma before_append [simp]: "before (s @ t) t = s"
  by (simp add: before_def)

lemma before_append2: "before (s @ x # t) t = s @ [x]"
  using before_append [of "s @ [x]" t] by simp

lemma strstr_at_here: "strstr_at n (n @ t) = Some (n @ t)"
  by (subst strstr_at.simps) simp

text \<open>The name attribute comes first; the string attribute follows a key that has no quote in it.\<close>

lemma attr_after:
  assumes "QUOTE \<notin> set s" "strstr_at pat tag = Some (pat @ s @ QUOTE # t)" "pat = name @ ''='' @ [QUOTE]" "length pat < 64"
  shows "dsml_attr tag name = Some (dsml_unescape_text s)"
  using assms by (simp add: dsml_attr_def Let_def strchr_at_append)

lemma takeWhile_until: "c \<notin> set k \<Longrightarrow> takeWhile (\<lambda>x. x \<noteq> c) (k @ c # t) = k"
  by (induction k) auto

lemma skip_key:
  assumes "QUOTE \<notin> set k" "QUOTE \<notin> set w" "\<not> suffix w k"
  shows "strstr_at (w @ [QUOTE]) (k @ QUOTE # t) = strstr_at (w @ [QUOTE]) (QUOTE # t)"
  using assms
proof (induction k)
  case (Cons c k)
  have "take (length (w @ [QUOTE])) ((c # k) @ QUOTE # t) \<noteq> w @ [QUOTE]"
  proof
    assume "take (length (w @ [QUOTE])) ((c # k) @ QUOTE # t) = w @ [QUOTE]"
    then obtain u where u: "(c # k) @ QUOTE # t = w @ QUOTE # u"
      by (metis append_take_drop_id append.assoc append_Cons append_Nil)
    have "c # k = takeWhile (\<lambda>x. x \<noteq> QUOTE) (w @ QUOTE # u)"
      unfolding u [symmetric] by (rule takeWhile_until [OF Cons.prems(1), symmetric])
    also have "\<dots> = w" by (rule takeWhile_until [OF Cons.prems(2)])
    finally show False using Cons.prems(3) by simp
  qed
  then have "strstr_at (w @ [QUOTE]) ((c # k) @ QUOTE # t) = strstr_at (w @ [QUOTE]) (k @ QUOTE # t)"
    using strstr_at_step [of "w @ [QUOTE]" c "k @ QUOTE # t"] by simp
  moreover have "\<not> suffix w k" using Cons.prems(3) by (auto simp: suffix_ConsI)
  ultimately show ?case using Cons by simp
qed simp

lemma suffix_escaped:
  assumes "\<And>c. c \<in> set w \<Longrightarrow> attr_char c = [c] \<and> c \<noteq> CHR '';''" "suffix w (append_dsml_attr_escaped s)"
  shows "suffix w s"
  using assms
proof (induction w arbitrary: s rule: rev_induct)
  case (snoc c w)
  obtain s' d where s: "s = s' @ [d]" using snoc.prems(2)
    by (cases s rule: rev_cases) (auto simp: append_dsml_attr_escaped_def)
  have c: "attr_char c = [c]" "c \<noteq> CHR '';''" using snoc.prems(1) by auto
  obtain u where u: "append_dsml_attr_escaped s' @ attr_char d = u @ w @ [c]"
    using snoc.prems(2) s by (auto simp: append_dsml_attr_escaped_def suffix_def)
  have "last (attr_char d) = c" using arg_cong [OF u, of last] by (simp add: attr_char_def split: if_splits)
  then have d: "attr_char d = [d]" "d = c" using c(2) by (auto simp: attr_char_def split: if_splits)
  then have "suffix w (append_dsml_attr_escaped s')" using u by (auto simp: suffix_def)
  then have "suffix w s'" using snoc.IH snoc.prems(1) by auto
  then show ?case using s d by simp
qed simp

section \<open>One parameter\<close>

abbreviation param_end :: string where
  "param_end \<equiv> CHR ''<'' # ''/'' @ DS4_DSML @ ''parameter>''"

text \<open>The start tag of a rendered parameter, and what the parser reads from it.\<close>

definition param_tag :: "string \<Rightarrow> bool \<Rightarrow> string" where
  "param_tag key str =
     ''<'' @ DS4_DSML @ ''parameter name='' @ [QUOTE] @ append_dsml_attr_escaped key @ [QUOTE]
     @ '' string='' @ [QUOTE] @ (if str then ''true'' else ''false'') @ [QUOTE] @ ''>''"

lemma dsml_style_simps:
  "t_param_start dsml_style = ''<'' @ DS4_DSML @ ''parameter''"
  "t_param_end dsml_style = param_end"
  "t_invoke_start dsml_style = ''<'' @ DS4_DSML @ ''invoke''"
  "t_invoke_end dsml_style = ''</'' @ DS4_DSML @ ''invoke>''"
  "t_calls_start dsml_style = ''<'' @ DS4_DSML @ ''tool_calls>''"
  "t_calls_end dsml_style = ''</'' @ DS4_DSML @ ''tool_calls>''"
  by (simp_all add: dsml_style_def tags_of_def)

lemma read_param_tag:
  "read_tag (t_param_start dsml_style) (param_tag key str @ r) = Some (param_tag key str, r)"
proof -
  let ?pre = "''<'' @ DS4_DSML @ ''parameter name='' @ [QUOTE] @ append_dsml_attr_escaped key @ [QUOTE]
     @ '' string='' @ [QUOTE] @ (if str then ''true'' else ''false'') @ [QUOTE]"
  have "CHR ''>'' \<notin> set ?pre"
    using attr_escaped_set [of "CHR ''>''" key] by (simp add: DS4_DSML_def BAR_def)
  then have "strchr_at (CHR ''>'') (?pre @ CHR ''>'' # r) = Some (CHR ''>'' # r)" by (rule strchr_at_append)
  moreover have "param_tag key str @ r = ?pre @ CHR ''>'' # r" by (simp add: param_tag_def)
  ultimately have "strchr_at (CHR ''>'') (param_tag key str @ r) = Some (CHR ''>'' # r)" by metis
  moreover have "take (length (t_param_start dsml_style)) (param_tag key str @ r) = t_param_start dsml_style"
    by (simp add: dsml_style_simps param_tag_def)
  ultimately show ?thesis by (simp add: read_tag_def)
qed

lemma param_name: "dsml_attr (param_tag key str) ''name'' = Some key"
proof -
  have "strstr_at (''name='' @ [QUOTE]) (param_tag key str)
      = Some ((''name='' @ [QUOTE]) @ append_dsml_attr_escaped key @ QUOTE #
          '' string='' @ [QUOTE] @ (if str then ''true'' else ''false'') @ [QUOTE] @ ''>'')"
    by (simp add: param_tag_def DS4_DSML_def BAR_def strstr_at.simps)
  then show ?thesis
    using attr_after [of "append_dsml_attr_escaped key" "''name='' @ [QUOTE]" "param_tag key str"]
      attr_escaped_set [of QUOTE key] unescape_attr by simp
qed

lemma param_string:
  assumes "\<not> suffix ''string='' key"
  shows "dsml_attr (param_tag key str) ''string'' = Some (if str then ''true'' else ''false'')"
proof -
  let ?v = "if str then ''true'' else ''false''"
  let ?t = "'' string='' @ [QUOTE] @ ?v @ [QUOTE] @ ''>''"
  have "attr_char c = [c] \<and> c \<noteq> CHR '';''" if "c \<in> set ''string=''" for c
    using that by (auto simp: attr_char_def)
  then have ns: "\<not> suffix ''string='' (append_dsml_attr_escaped key)"
    using suffix_escaped [of "''string=''" key] assms by blast
  have "strstr_at (''string='' @ [QUOTE]) (param_tag key str)
      = strstr_at (''string='' @ [QUOTE]) (append_dsml_attr_escaped key @ QUOTE # ?t)"
    by (simp add: param_tag_def DS4_DSML_def BAR_def strstr_at_step)
  also have "\<dots> = strstr_at (''string='' @ [QUOTE]) (QUOTE # ?t)"
    using attr_escaped_set [of QUOTE key] ns by (intro skip_key) auto
  also have "\<dots> = Some ((''string='' @ [QUOTE]) @ ?v @ QUOTE # ''>'')"
    by (simp add: strstr_at.simps)
  finally show ?thesis
    using attr_after [of ?v "''string='' @ [QUOTE]" "param_tag key str"] by auto
qed

section \<open>The parameters of a call\<close>

text \<open>The value the parser reads back from a rendered argument, and the members it collects.\<close>

definition arg_text :: "json_arg \<Rightarrow> string" where
  "arg_text a = (if ja_is_string a then dsml_unescape_text (append_dsml_parameter_text (ja_value a))
                 else append_dsml_json_literal (ja_value a))"

definition arg_add :: "string \<Rightarrow> json_arg \<Rightarrow> string" where
  "arg_add args a = tool_call_json_args_add args (ja_key a) (arg_text a)
                      (Some (if ja_is_string a then ''true'' else ''false''))"

lemma read_rendered_value:
  "read_value param_end (if ja_is_string a then ''true'' else ''false'')
     ((if ja_is_string a then append_dsml_parameter_text (ja_value a) else append_dsml_json_literal (ja_value a))
      @ param_end @ r) = Some (arg_text a, r)"
proof -
  have w: "CHR ''<'' \<notin> set (''/'' @ DS4_DSML @ ''parameter>'')" "CHR ''&'' \<notin> set (''/'' @ DS4_DSML @ ''parameter>'')"
    "BSL \<notin> set (''/'' @ DS4_DSML @ ''parameter>'')"
    by (simp_all add: DS4_DSML_def BAR_def)
  have e: "strstr_at param_end (guard_tag param_end rep s @ param_end @ r) = Some (param_end @ r)"
    if "rep = ''&lt;'' \<or> rep = BSL # ''u003c''" for rep s
    using guarded_end [of "''/'' @ DS4_DSML @ ''parameter>''" rep s r] w that by auto
  have "strstr_at param_end (append_dsml_parameter_text v @ param_end @ r) = Some (param_end @ r)"
    "strstr_at param_end (append_dsml_json_literal v @ param_end @ r) = Some (param_end @ r)" for v
    using e by (simp_all add: append_dsml_parameter_text_def append_dsml_json_literal_def)
  then show ?thesis
    by (cases "ja_is_string a") (simp_all add: read_value_def arg_text_def Let_def)
qed

lemma append_dsml_arg_parts:
  "append_dsml_arg a = param_tag (ja_key a) (ja_is_string a)
     @ (if ja_is_string a then append_dsml_parameter_text (ja_value a) else append_dsml_json_literal (ja_value a))
     @ param_end @ [LF]"
  by (simp add: append_dsml_arg_def param_tag_def)

lemma param_step:
  assumes "\<not> suffix ''string='' (ja_key a)" "json_ws p = append_dsml_arg a @ r"
  shows "params_loop (Suc n) dsml_style p args = params_loop n dsml_style (LF # r) (arg_add args a)"
proof -
  let ?v = "if ja_is_string a then append_dsml_parameter_text (ja_value a) else append_dsml_json_literal (ja_value a)"
  let ?q = "param_tag (ja_key a) (ja_is_string a) @ ?v @ param_end @ LF # r"
  have q: "json_ws p = ?q" using assms(2) by (simp add: append_dsml_arg_parts)
  have "take (length (t_invoke_end dsml_style)) ?q \<noteq> t_invoke_end dsml_style"
    by (simp add: dsml_style_simps param_tag_def DS4_DSML_def BAR_def)
  then show ?thesis
    using read_param_tag [of "ja_key a" "ja_is_string a" "?v @ param_end @ LF # r"]
      param_name [of "ja_key a" "ja_is_string a"] param_string [OF assms(1), of "ja_is_string a"]
      read_rendered_value [of a "LF # r"]
    by (simp add: q Let_def arg_add_def dsml_style_simps(2))
qed

lemma param_start_char: "\<exists>t. append_dsml_arg a @ r = CHR ''<'' # t"
  by (simp add: append_dsml_arg_def)

lemma params_loop_rendered:
  assumes "\<forall>a\<in>set as. \<not> suffix ''string='' (ja_key a)" "length as < n"
    "json_ws p = concat (map append_dsml_arg as) @ t_invoke_end dsml_style @ r"
  shows "params_loop n dsml_style p args = Some (foldl arg_add args as, r)"
  using assms
proof (induction as arbitrary: n p args)
  case Nil
  then show ?case by (cases n) (auto simp: Let_def)
next
  case (Cons a as)
  obtain m where n: "n = Suc m" using Cons.prems(2) by (cases n) auto
  let ?r = "concat (map append_dsml_arg as) @ t_invoke_end dsml_style @ r"
  have "\<exists>t. ?r = CHR ''<'' # t" by (cases as) (auto simp: dsml_style_simps append_dsml_arg_def)
  then have "json_ws (LF # ?r) = ?r" by (auto simp: json_ws_def isspace_def ord_def)
  moreover have "params_loop n dsml_style p args = params_loop m dsml_style (LF # ?r) (arg_add args a)"
    unfolding n using Cons.prems(1,3) by (intro param_step) simp_all
  ultimately show ?case using Cons.IH [of m "LF # ?r" "arg_add args a"] Cons.prems(1,2) n by simp
qed

section \<open>The calls of a block\<close>

text \<open>The arguments a call is rendered with: the members of its JSON, or the whole text as one.\<close>

definition call_args :: "tool_call \<Rightarrow> json_arg list" where
  "call_args tc =
     (case json_args_parse (Some (tc_arguments tc)) of Some as \<Rightarrow> as
      | None \<Rightarrow> [\<lparr>ja_key = ''arguments'', ja_value = tc_arguments tc, ja_is_string = True, ja_used = False\<rparr>])"

text \<open>The call the parser returns for it.\<close>

definition reparsed :: "tool_call \<Rightarrow> tool_call" where
  "reparsed tc = \<lparr>tc_id = None, tc_name = tc_name tc,
     tc_arguments = ''{'' @ foldl arg_add [] (call_args tc) @ ''}''\<rparr>"

lemma args_loop_unused: "args_loop n acc p = Some as \<Longrightarrow> \<forall>a\<in>set acc. \<not> ja_used a \<Longrightarrow> \<forall>a\<in>set as. \<not> ja_used a"
proof (induction n acc p rule: args_loop.induct)
  case (2 n args p)
  show ?case
    using 2(3) 2(1) [OF _ _ _ refl] 2(2) [OF _ _ _ refl] 2(4)
    by (auto simp: Let_def split: if_splits option.splits list.splits) 
qed simp

lemma json_args_unused: "json_args_parse j = Some as \<Longrightarrow> filter (\<lambda>a. \<not> ja_used a) as = as"
proof -
  assume "json_args_parse j = Some as"
  then obtain n q where "args_loop n [] q = Some as"
    by (auto simp: json_args_parse_def Let_def simp del: args_loop.simps split: list.splits if_splits)
  then have "\<forall>a\<in>set as. \<not> ja_used a" by (rule args_loop_unused) simp
  then show ?thesis by (simp add: filter_id_conv)
qed

definition invoke_tag :: "string \<Rightarrow> string" where
  "invoke_tag name = ''<'' @ DS4_DSML @ ''invoke name='' @ [QUOTE] @ append_dsml_attr_escaped name @ [QUOTE] @ ''>''"

lemma dsml_call_parts:
  "dsml_call_text tc = invoke_tag (tc_name tc) @ [LF] @ concat (map append_dsml_arg (call_args tc))
     @ t_invoke_end dsml_style @ [LF]"
proof (cases "json_args_parse (Some (tc_arguments tc))")
  case None
  then show ?thesis
    by (simp add: dsml_call_text_def invoke_tag_def call_args_def append_dsml_arguments_from_json_def
        append_dsml_arg_def append_dsml_attr_escaped_def attr_char_def dsml_style_simps)
next
  case (Some as)
  then show ?thesis using json_args_unused [OF Some]
    by (simp add: dsml_call_text_def invoke_tag_def call_args_def append_dsml_arguments_from_json_def dsml_style_simps)
qed

lemma read_invoke_tag:
  "read_tag (t_invoke_start dsml_style) (invoke_tag name @ r) = Some (invoke_tag name, r)"
proof -
  let ?pre = "''<'' @ DS4_DSML @ ''invoke name='' @ [QUOTE] @ append_dsml_attr_escaped name @ [QUOTE]"
  have "CHR ''>'' \<notin> set ?pre"
    using attr_escaped_set [of "CHR ''>''" name] by (simp add: DS4_DSML_def BAR_def)
  then have "strchr_at (CHR ''>'') (?pre @ CHR ''>'' # r) = Some (CHR ''>'' # r)" by (rule strchr_at_append)
  moreover have "invoke_tag name @ r = ?pre @ CHR ''>'' # r" by (simp add: invoke_tag_def)
  ultimately have "strchr_at (CHR ''>'') (invoke_tag name @ r) = Some (CHR ''>'' # r)" by metis
  moreover have "take (length (t_invoke_start dsml_style)) (invoke_tag name @ r) = t_invoke_start dsml_style"
    by (simp add: dsml_style_simps invoke_tag_def)
  ultimately show ?thesis by (simp add: read_tag_def)
qed

lemma invoke_name: "dsml_attr (invoke_tag name) ''name'' = Some name"
proof -
  have "strstr_at (''name='' @ [QUOTE]) (invoke_tag name)
      = Some ((''name='' @ [QUOTE]) @ append_dsml_attr_escaped name @ QUOTE # ''>'')"
    by (simp add: invoke_tag_def DS4_DSML_def BAR_def strstr_at.simps)
  then show ?thesis
    using attr_after [of "append_dsml_attr_escaped name" "''name='' @ [QUOTE]" "invoke_tag name"]
      attr_escaped_set [of QUOTE name] unescape_attr by simp
qed

lemma json_ws_LF_tag: "json_ws (LF # CHR ''<'' # t) = CHR ''<'' # t"
  by (simp add: json_ws_def isspace_def ord_def)

lemma tag_first: "\<exists>t. concat (map append_dsml_arg as) @ t_invoke_end dsml_style @ r = CHR ''<'' # t"
  by (cases as) (auto simp: dsml_style_simps append_dsml_arg_def)

lemma call_first: "\<exists>t. concat (map dsml_call_text cs) @ t_calls_end dsml_style @ r = CHR ''<'' # t"
  by (cases cs) (auto simp: dsml_style_simps dsml_call_text_def)

lemma arg_nonempty: "length as \<le> length (concat (map append_dsml_arg as))"
  by (induction as) (auto simp: append_dsml_arg_def)

lemma call_nonempty: "length cs \<le> length (concat (map dsml_call_text cs))"
  by (induction cs) (auto simp: dsml_call_text_def)

definition keys_ok :: "tool_call \<Rightarrow> bool" where
  "keys_ok tc \<longleftrightarrow> (\<forall>a\<in>set (call_args tc). \<not> suffix ''string='' (ja_key a))"

lemma calls_loop_rendered:
  assumes "\<forall>tc\<in>set cs. keys_ok tc" "length cs < n"
    "json_ws p = concat (map dsml_call_text cs) @ t_calls_end dsml_style @ r"
  shows "calls_loop n dsml_style p acc = Some (acc @ map reparsed cs, r)"
  using assms
proof (induction cs arbitrary: n p acc)
  case Nil
  then show ?case by (cases n) (auto simp: Let_def)
next
  case (Cons tc cs)
  obtain m where n: "n = Suc m" using Cons.prems(2) by (cases n) auto
  let ?r = "concat (map dsml_call_text cs) @ t_calls_end dsml_style @ r"
  let ?b = "concat (map append_dsml_arg (call_args tc)) @ t_invoke_end dsml_style @ LF # ?r"
  have q: "json_ws p = invoke_tag (tc_name tc) @ LF # ?b" using Cons.prems(3) by (simp add: dsml_call_parts [of tc])
  have c: "take (length (t_calls_end dsml_style)) (json_ws p) \<noteq> t_calls_end dsml_style"
    unfolding q by (simp add: dsml_style_simps invoke_tag_def DS4_DSML_def BAR_def)
  have t: "read_tag (t_invoke_start dsml_style) (json_ws p) = Some (invoke_tag (tc_name tc), LF # ?b)"
    unfolding q by (rule read_invoke_tag)
  have a: "params_loop (Suc (length (LF # ?b))) dsml_style (LF # ?b) [] = Some (foldl arg_add [] (call_args tc), LF # ?r)"
  proof (rule params_loop_rendered)
    show "\<forall>a\<in>set (call_args tc). \<not> suffix ''string='' (ja_key a)" using Cons.prems(1) by (simp add: keys_ok_def)
    show "length (call_args tc) < Suc (length (LF # ?b))" using arg_nonempty [of "call_args tc"] by simp
    show "json_ws (LF # ?b) = ?b" using tag_first [of "call_args tc" "LF # ?r"] by (auto simp: json_ws_LF_tag)
  qed
  have "calls_loop n dsml_style p acc = calls_loop m dsml_style (LF # ?r) (acc @ [reparsed tc])"
    by (simp only: n calls_loop.simps Let_def c t a invoke_name reparsed_def if_False option.case prod.case)
  moreover have "json_ws (LF # ?r) = ?r" using call_first [of cs r] by (auto simp: json_ws_LF_tag)
  ultimately show ?case using Cons.IH [of m "LF # ?r" "acc @ [reparsed tc]"] Cons.prems(1,2) n by simp
qed

section \<open>The whole message\<close>

text \<open>The block starts at the first start tag: nothing before it matches, alone or with the blank line.\<close>

lemma prefix_before: "prefix w (a @ x # b) \<Longrightarrow> x \<notin> set w \<Longrightarrow> prefix w a"
proof (induction w arbitrary: a)
  case (Cons c w)
  show ?case using Cons.prems Cons.IH [of "tl a"] by (cases a) simp_all
qed simp

lemma strstr_None_Cons: "strstr_at n (c # s) = None \<Longrightarrow> \<not> prefix n (c # s) \<and> strstr_at n s = None"
  by (subst (asm) strstr_at.simps) (auto simp: prefix_def split: if_splits)

lemma find_in_tail:
  assumes "strstr_at (CHR ''<'' # w) s = None" "LF \<notin> set w"
  shows "strstr_at (LF # LF # CHR ''<'' # w) (s @ LF # LF # CHR ''<'' # w @ r) = Some (LF # LF # CHR ''<'' # w @ r)"
  using assms(1)
proof (induction s)
  case Nil
  show ?case using strstr_at_here [of "LF # LF # CHR ''<'' # w" r] by simp
next
  case (Cons c s)
  let ?n = "LF # LF # CHR ''<'' # w" and ?t = "LF # LF # CHR ''<'' # w @ r"
  note no = strstr_None_Cons [OF Cons.prems]
  have "take (length ?n) (c # s @ ?t) \<noteq> ?n"
  proof
    assume "take (length ?n) (c # s @ ?t) = ?n"
    then have pre: "prefix ?n (c # s @ ?t)" by (metis take_is_prefix)
    then obtain d e s' where s: "s = d # e # s'" by (cases s; cases "tl s") auto
    then have "e = CHR ''<''" "prefix w (s' @ LF # LF # CHR ''<'' # w @ r)" using pre by auto
    then have "prefix (CHR ''<'' # w) (e # s')" using prefix_before assms(2) by auto
    moreover have "\<not> prefix (CHR ''<'' # w) (e # s')"
      using no strstr_None_Cons [of "CHR ''<'' # w" d "e # s'"] strstr_None_Cons [of "CHR ''<'' # w" e s'] s by simp
    ultimately show False by blast
  qed
  then show ?case using Cons.IH no strstr_at_step [of ?n c "s @ ?t"] by simp
qed

text \<open>Rendering the calls behind a text and parsing the message.\<close>

lemma parse_rendered:
  assumes "tcs_v calls \<noteq> []" "tcs_raw_dsml calls = None" "\<forall>tc\<in>set (tcs_v calls). keys_ok tc"
    "strstr_at (t_calls_start dsml_style) s = None"
  shows "parse_generated_message_ex (s @ append_dsml_tool_calls_text calls) False =
    Some ((plain_message (trim_tool_separator_ws s))
      \<lparr>pm_calls := \<lparr>tcs_v = map reparsed (tcs_v calls), tcs_raw_dsml = Some (append_dsml_tool_calls_text calls)\<rparr>\<rparr>)"
proof -
  let ?w = "DS4_DSML @ ''tool_calls>''"
  let ?body = "concat (map dsml_call_text (tcs_v calls)) @ t_calls_end dsml_style"
  have start: "t_calls_start dsml_style = CHR ''<'' # ?w" by (simp add: dsml_style_simps)
  have rendered: "append_dsml_tool_calls_text calls = LF # LF # CHR ''<'' # ?w @ LF # ?body"
    using assms(1,2) by (simp add: append_dsml_tool_calls_text_def dsml_style_simps)
  have w: "LF \<notin> set ?w" by (simp add: DS4_DSML_def BAR_def)
  have found: "find_block (s @ append_dsml_tool_calls_text calls) = Some (append_dsml_tool_calls_text calls, dsml_style)"
    using find_in_tail [OF assms(4) [unfolded start] w, of "LF # ?body"]
    by (simp add: find_block_def block_at_def rendered start)
  have p: "strstr_at (t_calls_start dsml_style) (append_dsml_tool_calls_text calls) = Some (CHR ''<'' # ?w @ LF # ?body)"
    using strstr_at_here [of "CHR ''<'' # ?w" "LF # ?body"] unfolding rendered start by (simp add: strstr_at_step)
  have "calls_loop (Suc (length (LF # ?body))) dsml_style (LF # ?body) [] = Some ([] @ map reparsed (tcs_v calls), [])"
  proof (rule calls_loop_rendered [OF assms(3)])
    show "length (tcs_v calls) < Suc (length (LF # ?body))" using call_nonempty [of "tcs_v calls"] by simp
    show "json_ws (LF # ?body) = concat (map dsml_call_text (tcs_v calls)) @ t_calls_end dsml_style @ []"
      using call_first [of "tcs_v calls" "[]"] by (auto simp: json_ws_LF_tag)
  qed
  then show ?thesis
    using found p before_append [of "append_dsml_tool_calls_text calls" "[]"]
    by (simp add: parse_generated_message_ex_def start Let_def del: calls_loop.simps)
qed

end
