(* ===== verification/DsmlRepair.thy ===== *)
theory DsmlRepair
  imports DsmlProps
begin

text \<open>
  Tags never overlap: each is a \<open><\<close> and then characters other than \<open><\<close>. So what is found in a text
  is still found, and nothing else, when tags are appended to it; a repaired block is balanced, and
  what stands before the end of the reasoning has no influence on the calls.
\<close>

section \<open>No match across a tag boundary\<close>

definition tag_like :: "string \<Rightarrow> bool" where
  "tag_like n \<longleftrightarrow> (\<exists>w. n = CHR ''<'' # w \<and> CHR ''<'' \<notin> set w)"

definition at_tag :: "string \<Rightarrow> bool" where
  "at_tag t \<longleftrightarrow> t = [] \<or> hd t = CHR ''<''"

lemma prefix_take: "prefix n s \<longleftrightarrow> take (length n) s = n"
  by (metis append_take_drop_id prefixI prefix_def append_eq_conv_conj)

lemma no_cross:
  assumes "tag_like n" "at_tag t" "s \<noteq> []"
  shows "prefix n (s @ t) \<longleftrightarrow> prefix n s"
proof
  assume p: "prefix n (s @ t)"
  obtain w where w: "n = CHR ''<'' # w" "CHR ''<'' \<notin> set w" using assms(1) by (auto simp: tag_like_def)
  show "prefix n s"
  proof (cases t)
    case (Cons c t')
    then have c: "c = CHR ''<''" using assms(2) by (simp add: at_tag_def)
    obtain x s' where s: "s = x # s'" using assms(3) by (cases s) auto
    have "x = CHR ''<''" "prefix w (s' @ CHR ''<'' # t')" using p w(1) s Cons c by auto
    then show ?thesis using prefix_before w s by auto
  qed (use p in simp)
qed simp

lemma strstr_at_iff: "strstr_at n s \<noteq> None \<longleftrightarrow> (\<exists>i\<le>length s. prefix n (drop i s))"
proof (induction s)
  case Nil
  then show ?case by (subst strstr_at.simps) (auto simp: prefix_take)
next
  case (Cons c s)
  have "(\<exists>i\<le>length (c # s). prefix n (drop i (c # s))) \<longleftrightarrow> prefix n (c # s) \<or> (\<exists>i\<le>length s. prefix n (drop i s))"
    by (metis (no_types, lifting) Suc_le_mono drop0 drop_Suc_Cons le0 length_Cons not0_implies_Suc)
  then show ?case using Cons by (subst strstr_at.simps) (auto simp: prefix_take)
qed

lemma strstr_strstr_at: "strstr s n \<longleftrightarrow> strstr_at n s \<noteq> None"
  unfolding strstr_at_iff strstr_def list_ex_iff prefix_take set_upt
  by (simp only: atLeastLessThan_iff less_Suc_eq_le Bex_def) blast

lemma strstr_append:
  assumes "tag_like n" "at_tag t"
  shows "strstr (s @ t) n \<longleftrightarrow> strstr s n \<or> strstr t n"
proof (induction s)
  case Nil
  have "\<not> strstr [] n" using assms(1) by (auto simp: strstr_def tag_like_def)
  then show ?case by simp
next
  case (Cons c s)
  have step: "strstr (x # u) n \<longleftrightarrow> prefix n (x # u) \<or> strstr u n" for x u
    unfolding strstr_strstr_at by (subst strstr_at.simps) (auto simp: prefix_take)
  show ?case using Cons no_cross [OF assms, of "c # s"] by (auto simp: step)
qed

lemma last_at_append:
  assumes "tag_like n" "at_tag t"
  shows "last_at n (s @ t) = (case last_at n t of Some u \<Rightarrow> Some u | None \<Rightarrow> map_option (\<lambda>u. u @ t) (last_at n s))"
proof (induction s)
  case (Cons c s)
  have "take (length n) ((c # s) @ t) = n \<longleftrightarrow> take (length n) (c # s) = n"
    using no_cross [OF assms, of "c # s"] by (simp only: prefix_take list.simps simp_thms)
  then show ?case using Cons by (auto split: option.splits)
qed (auto split: option.splits)

lemma last_at_other:
  assumes "tag_like n" "tag_like x" "at_tag u" "\<not> prefix n x" "last_at n u = None"
  shows "last_at n (x @ u) = None"
proof -
  have "last_at n w = None" if "CHR ''<'' \<notin> set w" for w
    using that assms(1) by (induction w) (auto simp: tag_like_def)
  then have "last_at n x = None" using assms(2,4) by (auto simp: tag_like_def prefix_take)
  then show ?thesis using last_at_append [OF assms(1,3)] assms(5) by simp
qed

section \<open>Counting\<close>

definition tags_list :: "dsml_tags \<Rightarrow> string list" where
  "tags_list tg = [t_calls_start tg, t_calls_end tg, t_invoke_start tg, t_invoke_end tg, t_param_start tg, t_param_end tg]"

definition styles :: "dsml_tags set" where
  "styles = {dsml_style, short_style, xml_style}"

lemmas style_defs = dsml_style_def short_style_def xml_style_def tags_of_def DS4_DSML_def DS4_DSML_SHORT_def BAR_def

lemma style_tag_like: "tg \<in> styles \<Longrightarrow> x \<in> set (tags_list tg) \<Longrightarrow> tag_like x"
  by (auto simp: styles_def tags_list_def tag_like_def style_defs)

lemma tag_at_append:
  assumes "tg \<in> styles" "at_tag t" "s \<noteq> []"
  shows "tag_at tg (s @ t) = tag_at tg s"
proof -
  have "take (length x) (s @ t) = x \<longleftrightarrow> take (length x) s = x" if "x \<in> set (tags_list tg)" for x
    using no_cross [OF style_tag_like [OF assms(1) that] assms(2,3)] by (simp only: prefix_take)
  then show ?thesis by (simp add: tag_at_def tags_list_def)
qed

lemma tag_at_length: "tag_at tg s = Some (d, f) \<Longrightarrow> d \<le> length s"
  by (auto simp: tag_at_def Let_def split: if_splits dest!: arg_cong [where f = length])

lemma count_tags_append:
  assumes "tg \<in> styles" "at_tag t"
  shows "count_tags tg (s @ t) n = count_tags tg t (count_tags tg s n)"
  using assms(1)
proof (induction tg s n rule: count_tags.induct)
  case (1 tg p n)
  show ?case
  proof (cases "p = []")
    case True
    then show ?thesis by (simp add: count_tags.simps [of tg "[]"])
  next
    case ne: False
    note app = tag_at_append [OF 1(3) assms(2) ne]
    show ?thesis
    proof (cases "tag_at tg p")
      case None
      then have "count_tags tg (p @ t) n = count_tags tg (tl p @ t) n" "count_tags tg p n = count_tags tg (tl p) n"
        using ne app by (subst count_tags.simps; simp)+
      then show ?thesis using 1(1) [OF ne None 1(3)] by simp
    next
      case (Some df)
      obtain d f where df: "df = (d, f)" by (cases df)
      have "drop d (p @ t) = drop d p @ t" using tag_at_length [of tg p d f] Some df by simp
      then have "count_tags tg (p @ t) n = count_tags tg (drop d p @ t) (f n)" "count_tags tg p n = count_tags tg (drop d p) (f n)"
        using ne app Some df by (subst count_tags.simps; simp)+
      then show ?thesis using 1(2) [OF ne Some [unfolded df] refl 1(3)] by simp
    qed
  qed
qed

definition tags_apart :: "dsml_tags \<Rightarrow> bool" where
  "tags_apart tg \<longleftrightarrow>
     list_all (\<lambda>x. \<not> prefix x (t_param_end tg) \<and> \<not> prefix (t_param_end tg) x)
       [t_calls_start tg, t_calls_end tg, t_invoke_start tg, t_invoke_end tg, t_param_start tg]
     \<and> list_all (\<lambda>x. \<not> prefix x (t_invoke_end tg) \<and> \<not> prefix (t_invoke_end tg) x)
       [t_calls_start tg, t_calls_end tg, t_invoke_start tg]
     \<and> \<not> prefix (t_calls_start tg) (t_calls_end tg) \<and> \<not> prefix (t_calls_end tg) (t_calls_start tg)
     \<and> t_param_end tg \<noteq> [] \<and> t_invoke_end tg \<noteq> [] \<and> t_calls_end tg \<noteq> []"

lemma style_tags_apart: "tg \<in> styles \<Longrightarrow> tags_apart tg"
proof -
  have "tags_apart dsml_style" "tags_apart short_style" "tags_apart xml_style" by code_simp+
  then show "tg \<in> styles \<Longrightarrow> ?thesis" unfolding styles_def by (elim insertE emptyE) simp_all
qed

lemma end_tag_at:
  assumes "tg \<in> styles"
  shows "tag_at tg (t_param_end tg @ u) = Some (length (t_param_end tg), \<lambda>n. n\<lparr>n_param_end := n_param_end n + 1\<rparr>)"
    and "tag_at tg (t_invoke_end tg @ u) = Some (length (t_invoke_end tg), \<lambda>n. n\<lparr>n_invoke_end := n_invoke_end n + 1\<rparr>)"
    and "tag_at tg (t_calls_end tg @ u) = Some (length (t_calls_end tg), \<lambda>n. n\<lparr>n_calls_end := n_calls_end n + 1\<rparr>)"
proof -
  have apart: "take (length x) (y @ u) \<noteq> x" if "\<not> prefix x y \<and> \<not> prefix y x" for x y
    unfolding prefix_take [symmetric] using that prefix_same_cases [of x "y @ u" y] by (metis prefixI)
  have here: "take (length y) (y @ u) = y" for y by simp
  note t = style_tags_apart [OF assms, unfolded tags_apart_def]
  show "tag_at tg (t_param_end tg @ u) = Some (length (t_param_end tg), \<lambda>n. n\<lparr>n_param_end := n_param_end n + 1\<rparr>)"
    using t apart unfolding tag_at_def Let_def by (simp only: list.pred_inject here simp_thms if_True if_False)
  show "tag_at tg (t_invoke_end tg @ u) = Some (length (t_invoke_end tg), \<lambda>n. n\<lparr>n_invoke_end := n_invoke_end n + 1\<rparr>)"
    using t apart unfolding tag_at_def Let_def by (simp only: list.pred_inject here simp_thms if_True if_False)
  show "tag_at tg (t_calls_end tg @ u) = Some (length (t_calls_end tg), \<lambda>n. n\<lparr>n_calls_end := n_calls_end n + 1\<rparr>)"
    using t apart unfolding tag_at_def Let_def by (simp only: list.pred_inject here simp_thms if_True if_False)
qed

lemma count_end_tags:
  assumes "tg \<in> styles"
  shows "count_tags tg (concat (replicate k (t_param_end tg)) @ u) n = count_tags tg u (n\<lparr>n_param_end := n_param_end n + k\<rparr>)"
    and "count_tags tg (concat (replicate k (t_invoke_end tg)) @ u) n = count_tags tg u (n\<lparr>n_invoke_end := n_invoke_end n + k\<rparr>)"
    and "count_tags tg (concat (replicate k (t_calls_end tg)) @ u) n = count_tags tg u (n\<lparr>n_calls_end := n_calls_end n + k\<rparr>)"
proof -
  have ne: "t_param_end tg \<noteq> []" "t_invoke_end tg \<noteq> []" "t_calls_end tg \<noteq> []"
    using assms by (auto simp: styles_def style_defs)
  have one: "count_tags tg (x @ v) n = count_tags tg v (f n)"
    if "tag_at tg (x @ v) = Some (length x, f)" "x \<noteq> []" for x v f n
    using that by (subst count_tags.simps) simp
  show "count_tags tg (concat (replicate k (t_param_end tg)) @ u) n = count_tags tg u (n\<lparr>n_param_end := n_param_end n + k\<rparr>)"
    by (induction k arbitrary: n) (simp_all add: one [OF end_tag_at(1) [OF assms] ne(1)])
  show "count_tags tg (concat (replicate k (t_invoke_end tg)) @ u) n = count_tags tg u (n\<lparr>n_invoke_end := n_invoke_end n + k\<rparr>)"
    by (induction k arbitrary: n) (simp_all add: one [OF end_tag_at(2) [OF assms] ne(2)])
  show "count_tags tg (concat (replicate k (t_calls_end tg)) @ u) n = count_tags tg u (n\<lparr>n_calls_end := n_calls_end n + k\<rparr>)"
    by (induction k arbitrary: n) (simp_all add: one [OF end_tag_at(3) [OF assms] ne(3)])
qed

section \<open>The repaired text\<close>

lemma at_tag_replicate: "tag_like x \<Longrightarrow> at_tag u \<Longrightarrow> at_tag (concat (replicate k x) @ u)"
  by (cases k) (auto simp: at_tag_def tag_like_def)

lemma other_replicate:
  assumes "tag_like n" "tag_like x" "at_tag u" "\<not> prefix n x" "last_at n u = None"
  shows "last_at n (concat (replicate k x) @ u) = None"
  using last_at_other [OF assms(1,2)] assms at_tag_replicate [OF assms(2,3)] by (induction k) auto

lemma strstr_last_at: "strstr s n \<longleftrightarrow> last_at n s \<noteq> None" if "n \<noteq> []"
proof (induction s)
  case Nil
  then show ?case using that by (simp add: strstr_def)
next
  case (Cons c s)
  have "strstr (c # s) n \<longleftrightarrow> take (length n) (c # s) = n \<or> strstr s n"
    unfolding strstr_strstr_at by (subst strstr_at.simps) simp
  then show ?case using Cons by (auto split: option.splits)
qed

lemma missing_at_tag: "tg \<in> styles \<Longrightarrow> at_tag (missing_tags tg n)"
  using style_tag_like [of tg] at_tag_replicate [of "t_calls_end tg" "[]"]
  by (auto simp: missing_tags_def tags_list_def at_tag_def [of "[]"] intro!: at_tag_replicate)

lemma missing_no_match:
  assumes "tg \<in> styles" "m \<in> {''</think>''} \<union> t_calls_start ` styles"
  shows "last_at m (missing_tags tg n) = None"
proof -
  have m: "tag_like m" using assms(2) style_tag_like by (auto simp: tags_list_def tag_like_def [of "''</think>''"])
  have e: "tag_like x \<and> \<not> prefix m x" if "x \<in> {t_param_end tg, t_invoke_end tg, t_calls_end tg}" for x
    using that assms style_tag_like [OF assms(1), of x] by (auto simp: tags_list_def styles_def style_defs)
  have em: "at_tag []" by (simp add: at_tag_def)
  have l: "last_at m (concat (replicate k (t_calls_end tg)) @ []) = None" for k
    by (rule other_replicate) (use e [of "t_calls_end tg"] m em in auto)
  have a: "at_tag (concat (replicate k (t_calls_end tg)) @ [])" for k
    by (rule at_tag_replicate) (use e [of "t_calls_end tg"] em in auto)
  have l2: "last_at m (concat (replicate j (t_invoke_end tg)) @ concat (replicate k (t_calls_end tg)) @ []) = None" for j k
    by (rule other_replicate) (use e [of "t_invoke_end tg"] m a l in auto)
  have a2: "at_tag (concat (replicate j (t_invoke_end tg)) @ concat (replicate k (t_calls_end tg)) @ [])" for j k
    by (rule at_tag_replicate) (use e [of "t_invoke_end tg"] a in auto)
  show ?thesis
    using other_replicate [OF m _ a2 _ l2] e [of "t_param_end tg"] by (simp add: missing_tags_def)
qed

lemma styles_mem: "dsml_style \<in> styles" "short_style \<in> styles" "xml_style \<in> styles"
  by (simp_all add: styles_def)

lemma repair_style_styles: "repair_style s = Some tg \<Longrightarrow> tg \<in> styles"
  by (auto simp: repair_style_def styles_def split: if_splits)

lemma repair_style_append:
  assumes "tg \<in> styles"
  shows "repair_style (s @ missing_tags tg n) = repair_style s"
proof -
  have "strstr (s @ missing_tags tg n) (t_calls_start st) \<longleftrightarrow> strstr s (t_calls_start st)" if "st \<in> styles" for st
  proof -
    have tl: "tag_like (t_calls_start st)" using style_tag_like [OF that] by (simp add: tags_list_def)
    have "\<not> strstr (missing_tags tg n) (t_calls_start st)"
      using strstr_last_at [of "t_calls_start st"] missing_no_match [OF assms, of "t_calls_start st" n] tl that
      by (auto simp: tag_like_def)
    then show ?thesis using strstr_append [OF tl missing_at_tag [OF assms]] by blast
  qed
  then show ?thesis by (simp only: repair_style_def styles_mem)
qed

lemma after_thinking_append:
  assumes "tg \<in> styles"
  shows "after_thinking (s @ missing_tags tg n) = after_thinking s @ missing_tags tg n"
proof -
  have tl: "tag_like ''</think>''" by (simp add: tag_like_def)
  have "8 \<le> length u" if "last_at ''</think>'' s = Some u" for u
    using that by (induction s arbitrary: u) (auto split: option.splits if_splits dest: arg_cong [where f = length])
  then show ?thesis
    using last_at_append [OF tl missing_at_tag [OF assms]] missing_no_match [OF assms, of "''</think>''" n]
    by (auto simp: after_thinking_def find_last_substr_def split: option.splits)
qed

lemma count_missing:
  assumes "tg \<in> styles" "n_param_end c \<le> n_param_start c" "n_invoke_end c \<le> n_invoke_start c"
    "n_calls_end c \<le> n_calls_start c"
  shows "balanced (count_tags tg (missing_tags tg c) c)"
proof -
  have "count_tags tg (missing_tags tg c @ []) c = c\<lparr>n_param_end := n_param_start c,
      n_invoke_end := n_invoke_start c, n_calls_end := n_calls_start c\<rparr>"
    using assms(2-4) by (simp only: missing_tags_def append_assoc count_end_tags [OF assms(1)])
      (simp add: count_tags.simps [of tg "[]"])
  then show ?thesis by (simp add: balanced_def)
qed

end
