(* ===== verification/DsmlNesting.thy ===== *)
theory DsmlNesting
  imports DsmlRepair
begin

text \<open>
  The nesting of tool-call markup, which the repair never looks at: it counts tags. Here the tags of a
  text are read with the stack of the open ones, so a closing tag fits only the innermost open tag.
  The stack of a text that is nested so far is the difference of its counts, and the tags a repair
  appends close that stack from the inside outwards.
\<close>

section \<open>Reading tags with a stack\<close>

datatype tag_kind = CallsTag | InvokeTag | ParamTag

text \<open>The tag at the head of a text: what it belongs to, whether it opens, and its length.\<close>

definition kind_at :: "dsml_tags \<Rightarrow> string \<Rightarrow> (tag_kind \<times> bool \<times> nat) option" where
  "kind_at tg p =
     (let is_at = (\<lambda>t. t \<noteq> [] \<and> take (length t) p = t) in
      if is_at (t_calls_start tg) then Some (CallsTag, True, length (t_calls_start tg))
      else if is_at (t_calls_end tg) then Some (CallsTag, False, length (t_calls_end tg))
      else if is_at (t_invoke_start tg) then Some (InvokeTag, True, length (t_invoke_start tg))
      else if is_at (t_invoke_end tg) then Some (InvokeTag, False, length (t_invoke_end tg))
      else if is_at (t_param_start tg) then Some (ParamTag, True, length (t_param_start tg))
      else if is_at (t_param_end tg) then Some (ParamTag, False, length (t_param_end tg))
      else None)"

text \<open>A block opens outside of everything, an invocation directly in a block, a parameter in an
  invocation or, for an object value, in a parameter.\<close>

fun may_open :: "tag_kind \<Rightarrow> tag_kind list \<Rightarrow> bool" where
  "may_open CallsTag st = (st = [])"
| "may_open InvokeTag st = (st = [CallsTag])"
| "may_open ParamTag st = (case st of [] \<Rightarrow> False | k # _ \<Rightarrow> k \<noteq> CallsTag)"

definition stack_step :: "tag_kind \<Rightarrow> bool \<Rightarrow> tag_kind list \<Rightarrow> tag_kind list option" where
  "stack_step k opening st =
     (if opening then (if may_open k st then Some (k # st) else None)
      else (case st of [] \<Rightarrow> None | k' # st' \<Rightarrow> if k' = k then Some st' else None))"

lemma kind_at_pos: "kind_at tg p = Some (k, b, d) \<Longrightarrow> 0 < d \<and> p \<noteq> []"
  by (auto simp: kind_at_def Let_def split: if_splits)

function nesting :: "dsml_tags \<Rightarrow> string \<Rightarrow> tag_kind list \<Rightarrow> tag_kind list option" where
  "nesting tg p st =
     (if p = [] then Some st
      else (case kind_at tg p of None \<Rightarrow> nesting tg (tl p) st
        | Some (k, b, d) \<Rightarrow> (case stack_step k b st of None \<Rightarrow> None | Some st' \<Rightarrow> nesting tg (drop d p) st')))"
  by pat_completeness auto
termination
  by (relation "measure (\<lambda>(tg, p, st). length p)") (auto dest: kind_at_pos)

declare nesting.simps [simp del]

text \<open>A text is well nested when it closes every tag it opens, each inside the one it was opened in.\<close>

definition well_nested :: "dsml_tags \<Rightarrow> string \<Rightarrow> bool" where
  "well_nested tg p \<longleftrightarrow> nesting tg p [] = Some []"

definition nested_so_far :: "dsml_tags \<Rightarrow> string \<Rightarrow> bool" where
  "nested_so_far tg p \<longleftrightarrow> nesting tg p [] \<noteq> None"

section \<open>The scan and the stack see the same tags\<close>

fun bump :: "tag_kind \<Rightarrow> bool \<Rightarrow> tag_counts \<Rightarrow> tag_counts" where
  "bump CallsTag True n = n\<lparr>n_calls_start := n_calls_start n + 1\<rparr>"
| "bump CallsTag False n = n\<lparr>n_calls_end := n_calls_end n + 1\<rparr>"
| "bump InvokeTag True n = n\<lparr>n_invoke_start := n_invoke_start n + 1\<rparr>"
| "bump InvokeTag False n = n\<lparr>n_invoke_end := n_invoke_end n + 1\<rparr>"
| "bump ParamTag True n = n\<lparr>n_param_start := n_param_start n + 1\<rparr>"
| "bump ParamTag False n = n\<lparr>n_param_end := n_param_end n + 1\<rparr>"

lemma tag_at_kind: "tag_at tg p = map_option (\<lambda>(k, b, d). (d, bump k b)) (kind_at tg p)"
  by (simp add: tag_at_def kind_at_def Let_def fun_eq_iff)

lemma kind_at_append:
  assumes "tg \<in> styles" "at_tag t" "s \<noteq> []"
  shows "kind_at tg (s @ t) = kind_at tg s"
proof -
  have "take (length x) (s @ t) = x \<longleftrightarrow> take (length x) s = x" if "x \<in> set (tags_list tg)" for x
    using no_cross [OF style_tag_like [OF assms(1) that] assms(2,3)] by (simp only: prefix_take)
  then show ?thesis by (simp add: kind_at_def tags_list_def)
qed

lemma kind_at_length: "kind_at tg s = Some (k, b, d) \<Longrightarrow> d \<le> length s"
  by (rule tag_at_length [of tg s d "bump k b"]) (simp add: tag_at_kind)

lemma nesting_append:
  assumes "tg \<in> styles" "at_tag t"
  shows "nesting tg (s @ t) st = Option.bind (nesting tg s st) (nesting tg t)"
  using assms(1)
proof (induction tg s st rule: nesting.induct)
  case (1 tg p st)
  show ?case
  proof (cases "p = []")
    case True
    then show ?thesis by (simp add: nesting.simps [of tg "[]"])
  next
    case ne: False
    note app = kind_at_append [OF 1(3) assms(2) ne]
    show ?thesis
    proof (cases "kind_at tg p")
      case None
      then have "nesting tg (p @ t) st = nesting tg (tl p @ t) st" "nesting tg p st = nesting tg (tl p) st"
        using ne app by (subst nesting.simps; simp)+
      then show ?thesis using 1(1) [OF ne None 1(3)] by simp
    next
      case (Some kbd)
      obtain k b d where kbd: "kbd = (k, b, d)" by (cases kbd)
      have dr: "drop d (p @ t) = drop d p @ t" using kind_at_length [of tg p k b d] Some kbd by simp
      show ?thesis
      proof (cases "stack_step k b st")
        case None
        then show ?thesis using ne app Some kbd by (simp add: nesting.simps [of tg "p @ t"] nesting.simps [of tg p])
      next
        case (Some st')
        with 1(2) [OF ne \<open>kind_at tg p = Some kbd\<close> kbd [symmetric] refl Some 1(3)] show ?thesis
          using ne app \<open>kind_at tg p = Some kbd\<close> kbd dr
          by (simp add: nesting.simps [of tg "p @ t"] nesting.simps [of tg p])
      qed
    qed
  qed
qed

section \<open>The stack is the difference of the counts\<close>

definition n_opened :: "tag_kind \<Rightarrow> tag_counts \<Rightarrow> nat" where
  "n_opened k n = (case k of CallsTag \<Rightarrow> n_calls_start n | InvokeTag \<Rightarrow> n_invoke_start n | ParamTag \<Rightarrow> n_param_start n)"

definition n_closed :: "tag_kind \<Rightarrow> tag_counts \<Rightarrow> nat" where
  "n_closed k n = (case k of CallsTag \<Rightarrow> n_calls_end n | InvokeTag \<Rightarrow> n_invoke_end n | ParamTag \<Rightarrow> n_param_end n)"

lemma bump_counts:
  "n_opened k (bump j b n) = n_opened k n + (if k = j \<and> b then 1 else 0)"
  "n_closed k (bump j b n) = n_closed k n + (if k = j \<and> \<not> b then 1 else 0)"
  by (cases j; cases b; cases k; simp add: n_opened_def n_closed_def)+

lemma step_counts:
  "stack_step j b st = Some st' \<Longrightarrow>
     n_opened k (bump j b n) + count_list st k + n_closed k n = n_closed k (bump j b n) + count_list st' k + n_opened k n"
  by (auto simp: stack_step_def bump_counts split: if_splits list.splits)

lemma nesting_counts:
  assumes "nesting tg p st = Some st'"
  shows "n_opened k (count_tags tg p n) + count_list st k + n_closed k n
    = n_closed k (count_tags tg p n) + count_list st' k + n_opened k n"
  using assms
proof (induction tg p st arbitrary: n rule: nesting.induct)
  case (1 tg p st)
  show ?case
  proof (cases "p = []")
    case True
    then show ?thesis using 1(3) by (simp add: nesting.simps [of tg "[]"] count_tags.simps [of tg "[]"])
  next
    case ne: False
    show ?thesis
    proof (cases "kind_at tg p")
      case None
      have "nesting tg p st = nesting tg (tl p) st" using ne None by (simp add: nesting.simps [of tg p])
      moreover have "count_tags tg p n = count_tags tg (tl p) n"
        using ne None by (subst count_tags.simps) (simp add: tag_at_kind)
      ultimately show ?thesis using 1(1) [OF ne None] 1(3) by simp
    next
      case (Some kbd)
      obtain j b d where kbd: "kbd = (j, b, d)" by (cases kbd)
      obtain st1 where s: "stack_step j b st = Some st1"
        using 1(3) ne Some kbd by (cases "stack_step j b st") (simp_all add: nesting.simps [of tg p])
      have "nesting tg p st = nesting tg (drop d p) st1" using ne Some kbd s by (simp add: nesting.simps [of tg p])
      moreover have "count_tags tg p n = count_tags tg (drop d p) (bump j b n)"
        using ne Some kbd by (subst count_tags.simps) (simp add: tag_at_kind)
      ultimately show ?thesis
        using 1(2) [OF ne Some kbd [symmetric] refl s, of "bump j b n"] 1(3) step_counts [OF s, of k n] by simp
    qed
  qed
qed

text \<open>The stacks there are: parameters in an invocation in a block.\<close>

definition stack_shape :: "tag_kind list \<Rightarrow> bool" where
  "stack_shape st \<longleftrightarrow> st = [] \<or> st = [CallsTag] \<or> (\<exists>j. st = replicate j ParamTag @ [InvokeTag, CallsTag])"

lemma step_shape: "stack_step k b st = Some st' \<Longrightarrow> stack_shape st \<Longrightarrow> stack_shape st'"
proof -
  have up: "\<exists>i. ParamTag # replicate j ParamTag @ [InvokeTag, CallsTag] = replicate i ParamTag @ [InvokeTag, CallsTag]" for j
    by (rule exI [of _ "Suc j"]) simp
  have no: "replicate j ParamTag @ [InvokeTag, CallsTag] \<noteq> [CallsTag]" for j by (cases j) auto
  have down: "stack_shape st'" if "replicate j ParamTag @ [InvokeTag, CallsTag] = k # st'" for j
    using that by (cases j) (auto simp: stack_shape_def)
  show "stack_step k b st = Some st' \<Longrightarrow> stack_shape st \<Longrightarrow> stack_shape st'"
    using up no down
    by (cases k) (auto simp: stack_step_def stack_shape_def split: if_splits list.splits)
qed

lemma nesting_shape: "nesting tg p st = Some st' \<Longrightarrow> stack_shape st \<Longrightarrow> stack_shape st'"
proof (induction tg p st rule: nesting.induct)
  case (1 tg p st)
  then show ?case
    by (auto simp: nesting.simps [of tg p] step_shape split: if_splits option.splits prod.splits)
qed

section \<open>Closing the stack\<close>

lemma nesting_end_tag:
  assumes "tg \<in> styles"
  shows "nesting tg (t_param_end tg @ u) (ParamTag # st) = nesting tg u st"
    and "nesting tg (t_invoke_end tg @ u) (InvokeTag # st) = nesting tg u st"
    and "nesting tg (t_calls_end tg @ u) (CallsTag # st) = nesting tg u st"
proof -
  have ne: "t_param_end tg \<noteq> []" "t_invoke_end tg \<noteq> []" "t_calls_end tg \<noteq> []"
    using assms by (auto simp: styles_def style_defs)
  have same: "bump k b = bump k' b' \<longleftrightarrow> k = k' \<and> b = b'" for k b k' b'
    using bump_counts [of k k b no_tags] bump_counts [of k k' b' no_tags]
    by (cases b; cases b') (auto split: if_splits)
  have one: "nesting tg (x @ u) (k # st) = nesting tg u st"
    if "tag_at tg (x @ u) = Some (length x, bump k False)" "x \<noteq> []" for k x
    using that by (auto simp: nesting.simps [of tg "x @ u"] tag_at_kind stack_step_def same)
  have b: "bump ParamTag False = (\<lambda>n. n\<lparr>n_param_end := n_param_end n + 1\<rparr>)"
    "bump InvokeTag False = (\<lambda>n. n\<lparr>n_invoke_end := n_invoke_end n + 1\<rparr>)"
    "bump CallsTag False = (\<lambda>n. n\<lparr>n_calls_end := n_calls_end n + 1\<rparr>)" by (simp_all add: fun_eq_iff)
  show "nesting tg (t_param_end tg @ u) (ParamTag # st) = nesting tg u st"
    by (rule one) (simp_all only: end_tag_at [OF assms] b ne not_False_eq_True)
  show "nesting tg (t_invoke_end tg @ u) (InvokeTag # st) = nesting tg u st"
    by (rule one) (simp_all only: end_tag_at [OF assms] b ne not_False_eq_True)
  show "nesting tg (t_calls_end tg @ u) (CallsTag # st) = nesting tg u st"
    by (rule one) (simp_all only: end_tag_at [OF assms] b ne not_False_eq_True)
qed

lemma nesting_params:
  "tg \<in> styles \<Longrightarrow>
   nesting tg (concat (replicate j (t_param_end tg)) @ u) (replicate j ParamTag @ st) = nesting tg u st"
  by (induction j) (simp_all add: nesting_end_tag)

lemma close_stack:
  assumes "tg \<in> styles" "stack_shape st"
  shows "nesting tg (concat (replicate (count_list st ParamTag) (t_param_end tg))
      @ concat (replicate (count_list st InvokeTag) (t_invoke_end tg))
      @ concat (replicate (count_list st CallsTag) (t_calls_end tg))) st = Some []"
proof -
  note e = nesting_end_tag [OF assms(1)]
  have n: "nesting tg [] [] = Some []" by (simp add: nesting.simps)
  have c: "nesting tg (t_calls_end tg) [CallsTag] = Some []" using e(3) [of "[]" "[]"] n by simp
  consider "st = []" | "st = [CallsTag]" | j where "st = replicate j ParamTag @ [InvokeTag, CallsTag]"
    using assms(2) by (auto simp: stack_shape_def)
  then show ?thesis
  proof cases
    case (3 j)
    have p: "count_list (replicate j ParamTag) k = (if k = ParamTag then j else 0)" for k by (induction j) auto
    show ?thesis using nesting_params [OF assms(1), of j _ "[InvokeTag, CallsTag]"] e(2) c by (simp add: 3 p)
  qed (simp_all add: n c)
qed

theorem missing_tags_close:
  assumes "tg \<in> styles" "nested_so_far tg p"
  shows "well_nested tg (p @ missing_tags tg (count_tags tg p no_tags))"
proof -
  obtain st where st: "nesting tg p [] = Some st" using assms(2) by (auto simp: nested_so_far_def)
  let ?n = "count_tags tg p no_tags"
  have d: "n_opened k ?n = n_closed k ?n + count_list st k" for k
    using nesting_counts [OF st, of k no_tags] by (cases k) (simp_all add: n_opened_def n_closed_def no_tags_def)
  have "nesting tg (missing_tags tg ?n) st = Some []"
    using close_stack [OF assms(1) nesting_shape [OF st]] d [of ParamTag] d [of InvokeTag] d [of CallsTag]
    by (simp add: missing_tags_def n_opened_def n_closed_def stack_shape_def)
  then show ?thesis
    using nesting_append [OF assms(1) missing_at_tag [OF assms(1)]] st by (simp add: well_nested_def)
qed

end
