(* ===== verification/ServerProps.thy ===== *)
theory ServerProps
  imports DsmlNesting
begin

text \<open>
  The properties of the server's JSON reader and of the tool-call markup.
\<close>

section \<open>JSON\<close>

text \<open>C40: Any text without a NUL, control characters, quotes and backslashes included, is read back
  from its escaped form by the JSON string reader, which stops right behind the closing quote.\<close>

theorem json_escape_roundtrip:
  assumes "NUL \<notin> set s"
  shows "json_string (json_escape s @ r) = Some (s, r)"
  using assms by (rule json_string_escape)

theorem json_escape_roundtrip_witness:
  "json_string (json_escape [QUOTE, BSL, LF, CHR 0x01, CHR 0xC3] @ '',x'') = Some ([QUOTE, BSL, LF, CHR 0x01, CHR 0xC3], '',x'')"
  by (rule json_escape_roundtrip) simp

text \<open>Skipping a printed document, white space before it and more text behind it, stops exactly
  at its end when its nesting is at most 256 levels and fails otherwise; so the recursion of the
  reader is bounded by the limit, and its loops end.\<close>

theorem json_skip_value_document:
  assumes "ends_value r" "\<forall>c\<in>set ws. isspace c"
  shows "json_skip_value (ws @ json_print j @ r) = (if json_depth j \<le> 256 then Some r else None)"
proof -
  have "json_ws (ws @ json_print j @ r) = json_print j @ r"
    using assms(2) print_start [of j] by (induction ws) (auto simp: json_ws_def starts_value_def)
  moreover have "json_ws (json_print j @ r) = json_print j @ r"
    using print_start [of j] by (auto simp: starts_value_def)
  ultimately have "skip_value_step i (ws @ json_print j @ r) = skip_value_step i (json_print j @ r)" for i
    by (simp only: skip_value_step_def)
  then have "skip_levels 256 (ws @ json_print j @ r) = skip_levels 256 (json_print j @ r)"
    by (subst (1 2) skip_levels_step) simp
  then show ?thesis
    using skip_levels_print [OF assms(1), of 256 j]
    by (simp add: json_skip_value_def json_skip_value_depth_def JSON_MAX_NESTING_def)
qed

theorem json_skip_value_document_witness:
  "json_skip_value ([LF] @ json_print (JArr [JNum (- 12), JObj [(''k'', JStr [QUOTE])], JNull]) @ '', 1'') = Some '', 1''"
  by (subst json_skip_value_document) (simp_all add: ends_value_def isspace_def ord_def)

text \<open>An escape behind a high surrogate that is no low surrogate is lost: the reader has consumed
  it while looking for the low one.\<close>

theorem lone_surrogate_swallows:
  "json_string ([QUOTE, BSL] @ ''ud800'' @ [BSL] @ ''u0041x'' @ [QUOTE]) =
     Some ([CHR 0xED, CHR 0xA0, CHR 0x80, CHR ''x''], [])"
  by code_simp

section \<open>Tool calls\<close>

text \<open>C32: A closing tag inside a value never ends it: behind a rendered tool result, parameter or
  JSON literal the first closing tag found is the real one.\<close>

theorem closing_tag_guarded:
  "strstr_at ''</tool_result>'' (append_tool_result_text s @ ''</tool_result>'' @ r) = Some (''</tool_result>'' @ r)
   \<and> strstr_at param_end (append_dsml_parameter_text s @ param_end @ r) = Some (param_end @ r)
   \<and> strstr_at param_end (append_dsml_json_literal s @ param_end @ r) = Some (param_end @ r)"
proof -
  have "strstr_at (CHR ''<'' # ''/tool_result>'') (guard_tag (CHR ''<'' # ''/tool_result>'') ''&lt;'' s
      @ (CHR ''<'' # ''/tool_result>'') @ r) = Some ((CHR ''<'' # ''/tool_result>'') @ r)"
    by (rule guarded_end) simp_all
  moreover have "strstr_at param_end (guard_tag param_end rep s @ param_end @ r) = Some (param_end @ r)"
    if "rep = ''&lt;'' \<or> rep = BSL # ''u003c''" for rep
    using guarded_end [of "''/'' @ DS4_DSML @ ''parameter>''" rep s r] that by (auto simp: DS4_DSML_def BAR_def)
  ultimately show ?thesis
    by (simp add: append_tool_result_text_def append_dsml_parameter_text_def append_dsml_json_literal_def)
qed

text \<open>The parser decodes five entities in a string value; the renderer writes one itself, where it
  guards a closing tag, and leaves every ampersand of the value as it is.\<close>

definition entities :: "string list" where
  "entities = [''&amp;'', ''&lt;'', ''&gt;'', ''&quot;'', ''&apos;'']"

definition entity_free :: "string \<Rightarrow> bool" where
  "entity_free s \<longleftrightarrow> list_all (\<lambda>e. strstr_at e s = None) entities"

lemma entity_free_Cons:
  "entity_free (c # s) \<Longrightarrow> entity_free s \<and> (c = CHR ''&'' \<longrightarrow> (\<forall>e\<in>set (map tl entities). \<not> prefix e s))"
proof -
  assume "entity_free (c # s)"
  then have e: "\<forall>e\<in>set entities. \<not> prefix e (c # s) \<and> strstr_at e s = None"
    using strstr_None_Cons [of _ c s] by (auto simp: entity_free_def list_all_iff)
  then have "entity_free s" by (auto simp: entity_free_def list_all_iff)
  moreover have "\<not> prefix e s" if "e \<in> set (map tl entities)" "c = CHR ''&''" for e
    using e that by (auto simp: entities_def)
  ultimately show ?thesis by blast
qed

lemma guard_prefix:
  assumes "prefix t (guard_tag (CHR ''<'' # w) ''&lt;'' s)" "t \<in> set (map tl entities)"
  shows "prefix t s"
proof (rule guarded_prefix)
  show "prefix t (guard_tag (CHR ''<'' # w) ''&lt;'' s @ CHR ''<'' # [])" using assms(1) by (rule prefix_prefix)
qed (use assms(2) in \<open>auto simp: entities_def\<close>)

lemma unescape_entity_free:
  "entity_free s \<Longrightarrow> dsml_unescape_text (guard_tag (CHR ''<'' # w) ''&lt;'' s) = s"
proof (induction s)
  case (Cons c s)
  note e = entity_free_Cons [OF Cons.prems]
  let ?g = "guard_tag (CHR ''<'' # w) ''&lt;'' s"
  have ih: "dsml_unescape_text ?g = s" using Cons.IH e by blast
  have no: "take (length t) ?g \<noteq> t" if "c = CHR ''&''" "t \<in> set (map tl entities)" for t
    using guard_prefix [of t w s] e that prefix_take [of t ?g] by blast
  show ?case
  proof (cases "c = CHR ''&''")
    case True
    have "take 4 ?g \<noteq> ''amp;''" "take 3 ?g \<noteq> ''lt;''" "take 3 ?g \<noteq> ''gt;''" "take 5 ?g \<noteq> ''quot;''" "take 5 ?g \<noteq> ''apos;''"
      using no [OF True, of "''amp;''"] no [OF True, of "''lt;''"] no [OF True, of "''gt;''"] no [OF True, of "''quot;''"]
        no [OF True, of "''apos;''"] by (simp_all add: entities_def eval_nat_numeral)
    then show ?thesis using ih True by simp
  next
    case False
    then show ?thesis using ih by auto
  qed
qed simp

text \<open>The calls a client sends back: names, and arguments as printed JSON objects. The members the
  markup can carry unchanged have no NUL, no entity in a string value, no closing tag in another
  value, nesting the parser accepts, and a key that does not end like the string attribute.\<close>

definition member_ok :: "string \<times> jval \<Rightarrow> bool" where
  "member_ok m = (case m of (k, v) \<Rightarrow>
     NUL \<notin> set k \<and> \<not> suffix ''string='' k \<and> json_depth v \<le> JSON_MAX_NESTING
     \<and> (case v of JStr s \<Rightarrow> NUL \<notin> set s \<and> entity_free s | _ \<Rightarrow> strstr_at param_end (json_print v) = None))"

definition doc_call :: "string \<times> (string \<times> jval) list \<Rightarrow> tool_call" where
  "doc_call d = (case d of (name, ms) \<Rightarrow> \<lparr>tc_id = None, tc_name = name, tc_arguments = json_print (JObj ms)\<rparr>)"

definition doc_calls :: "(string \<times> (string \<times> jval) list) list \<Rightarrow> tool_calls" where
  "doc_calls ds = \<lparr>tcs_v = map doc_call ds, tcs_raw_dsml = None\<rparr>"

lemma arg_add_doc:
  assumes "member_ok m"
  shows "arg_add args (doc_arg m) = args @ (if args \<noteq> [] then '', '' else []) @ member '': '' m"
proof -
  obtain k v where m: "m = (k, v)" by (cases m)
  have d: "json_depth v \<le> JSON_MAX_NESTING" "NUL \<notin> set k" using assms by (simp_all add: m member_ok_def)
  have ne: "json_print v \<noteq> []" using print_start [of v] by (auto simp: starts_value_def)
  have str: "dsml_unescape_text (append_dsml_parameter_text s) = s" if "entity_free s" for s
    using unescape_entity_free [OF that] by (simp add: append_dsml_parameter_text_def)
  have lit: "append_dsml_json_literal (json_print v) = json_print v" if "strstr_at param_end (json_print v) = None"
    using guard_tag_id [OF _ that] by (simp add: append_dsml_json_literal_def)
  show ?thesis
    using assms d ne minify_doc [OF d(1)] str lit
    by (cases v) (simp_all add: m member_ok_def doc_arg_def arg_add_def arg_text_def tool_call_json_args_add_def
        member_def cstr_id Let_def)
qed

lemma arg_add_more:
  "list_all member_ok ms \<Longrightarrow> args \<noteq> [] \<Longrightarrow> foldl arg_add args (map doc_arg ms)
     = args @ (if ms = [] then [] else '', '' @ sepjoin '', '' (map (member '': '') ms))"
proof (induction ms arbitrary: args)
  case (Cons m ms)
  have "arg_add args (doc_arg m) = args @ '', '' @ member '': '' m"
    using Cons.prems arg_add_doc [of m args] by simp
  then show ?case using Cons by (cases ms) simp_all
qed simp

lemma arg_add_docs:
  assumes "list_all member_ok ms"
  shows "foldl arg_add [] (map doc_arg ms) = sepjoin '', '' (map (member '': '') ms)"
proof (cases ms)
  case (Cons m ms')
  have ne: "member '': '' m \<noteq> []" by (cases m) (simp add: member_def json_escape_def)
  have "arg_add [] (doc_arg m) = member '': '' m" using assms Cons arg_add_doc [of m "[]"] by simp
  then show ?thesis using arg_add_more [of ms' "member '': '' m"] assms Cons ne by (cases ms') simp_all
qed simp

lemma doc_call_args:
  assumes "list_all member_ok ms"
  shows "call_args (doc_call (name, ms)) = map doc_arg ms"
    and "json_args_parse (Some (tc_arguments (reparsed (doc_call (name, ms))))) = Some (map doc_arg ms)"
proof -
  have d: "\<forall>(k, v)\<in>set ms. json_depth v \<le> JSON_MAX_NESTING"
    using assms by (auto simp: list_all_iff member_ok_def)
  show a: "call_args (doc_call (name, ms)) = map doc_arg ms"
    using args_parse_print [OF d] by (simp add: call_args_def doc_call_def)
  show "json_args_parse (Some (tc_arguments (reparsed (doc_call (name, ms))))) = Some (map doc_arg ms)"
    using args_parse_members [OF d, of "'': ''" "'', ''"] by (simp add: reparsed_def a arg_add_docs [OF assms])
qed

lemma doc_keys_ok: "list_all member_ok ms \<Longrightarrow> keys_ok (doc_call (name, ms))"
  using doc_call_args(1) [of ms name]
  by (auto simp: keys_ok_def list_all_iff member_ok_def doc_arg_def cstr_id)

lemma rerender:
  assumes "list_all member_ok ms"
  shows "dsml_call_text (reparsed (doc_call (name, ms))) = dsml_call_text (doc_call (name, ms))"
proof -
  have "call_args (reparsed (doc_call (name, ms))) = map doc_arg ms"
    using doc_call_args(2) [OF assms] by (simp add: call_args_def)
  then show ?thesis
    using doc_call_args(1) [OF assms] by (simp add: dsml_call_parts) (simp add: reparsed_def doc_call_def)
qed

text \<open>C31: Rendering a client's tool calls behind any text without a start tag and parsing the result
  as a generated message gives the same calls: the same names, arguments with the same members in
  the same order, the rendered block as the text to remember; and rendering what was parsed gives
  the same bytes again, so the rendered text is a stable cache key. The arguments are members the
  markup can carry: without a NUL, string values without one of the five entities the parser decodes,
  other values without the closing tag of a parameter, nested no deeper than the parser accepts, under
  keys that do not end in \<open>string=\<close>. A string with an entity really changes, see below.\<close>

theorem tool_calls_roundtrip:
  assumes "ds \<noteq> []" "list_all (\<lambda>(name, ms). list_all member_ok ms) ds"
    "strstr_at (t_calls_start dsml_style) s = None"
  shows "\<exists>m. parse_generated_message_ex (s @ append_dsml_tool_calls_text (doc_calls ds)) False = Some m
    \<and> map tc_name (tcs_v (pm_calls m)) = map fst ds
    \<and> map (\<lambda>tc. json_args_parse (Some (tc_arguments tc))) (tcs_v (pm_calls m)) = map (\<lambda>d. Some (map doc_arg (snd d))) ds
    \<and> tcs_raw_dsml (pm_calls m) = Some (append_dsml_tool_calls_text (doc_calls ds))
    \<and> append_dsml_tool_calls_text ((pm_calls m)\<lparr>tcs_raw_dsml := None\<rparr>) = append_dsml_tool_calls_text (doc_calls ds)"
proof -
  have ok: "list_all member_ok ms" if "(name, ms) \<in> set ds" for name ms
    using assms(2) that by (auto simp: list_all_iff)
  have "parse_generated_message_ex (s @ append_dsml_tool_calls_text (doc_calls ds)) False =
    Some ((plain_message (trim_tool_separator_ws s))\<lparr>pm_calls := \<lparr>tcs_v = map reparsed (tcs_v (doc_calls ds)),
      tcs_raw_dsml = Some (append_dsml_tool_calls_text (doc_calls ds))\<rparr>\<rparr>)"
    using assms(1,3) ok doc_keys_ok by (intro parse_rendered) (auto simp: doc_calls_def)
  moreover have "concat (map (\<lambda>d. dsml_call_text (reparsed (doc_call d))) ds) = concat (map (\<lambda>d. dsml_call_text (doc_call d)) ds)"
    using ok rerender by (intro arg_cong [of _ _ concat] map_cong) auto
  moreover have "map (\<lambda>d. json_args_parse (Some (tc_arguments (reparsed (doc_call d))))) ds = map (\<lambda>d. Some (map doc_arg (snd d))) ds"
    using ok doc_call_args(2) by auto
  moreover have "map (\<lambda>d. tc_name (reparsed (doc_call d))) ds = map fst ds"
    by (auto simp: reparsed_def doc_call_def)
  ultimately show ?thesis
    using assms(1) by (simp add: append_dsml_tool_calls_text_def doc_calls_def o_def del: map_eq_conv)
qed

theorem tool_calls_roundtrip_witness:
  "\<exists>m. parse_generated_message_ex (''Reading.'' @ append_dsml_tool_calls_text (doc_calls
       [(''bash'', [(''cmd'', JStr ''a && b <c &lt''), (''n'', JArr [JNum 3, JNull])])])) False = Some m
    \<and> map tc_name (tcs_v (pm_calls m)) = [''bash'']"
proof -
  have "entity_free ''a && b <c &lt''" by code_simp
  then show ?thesis
    using tool_calls_roundtrip [of "[(''bash'', [(''cmd'', JStr ''a && b <c &lt''), (''n'', JArr [JNum 3, JNull])])]" "''Reading.''"]
    by (auto simp: member_ok_def JSON_MAX_NESTING_def suffix_def nat_dec.simps strstr_at_step
        strstr_at.simps dsml_style_simps DS4_DSML_def BAR_def)
qed

text \<open>A string argument that contains an entity does not survive: the renderer leaves the
  ampersand as it is and the parser decodes it, so what comes back is a different call that renders
  to different text.\<close>

theorem entity_argument_changes:
  "let tc = doc_call (''write'', [(''text'', JStr ''a &lt; b'')]) in
     json_args_parse (Some (tc_arguments (reparsed tc))) = Some [doc_arg (''text'', JStr ''a < b'')]
     \<and> dsml_call_text (reparsed tc) \<noteq> dsml_call_text tc"
  by code_simp

text \<open>C39: When a truncated block is repaired, exactly the missing closing tags are appended: those of
  the open parameters, then those of the open invocations, then those of the open blocks. Afterwards
  every tag that was opened behind the reasoning is closed and there is nothing left to repair, and
  when the tags were nested so far as they went, the repaired text is well nested: every tag is closed
  inside the one it was opened in.\<close>

theorem repair_balances:
  assumes "try_repair_dsml s = Some s'"
  shows "\<exists>tg c. repair_style (after_thinking s) = Some tg \<and> c = count_tags tg (after_thinking s) no_tags
    \<and> s' = s @ concat (replicate (n_param_start c - n_param_end c) (t_param_end tg))
              @ concat (replicate (n_invoke_start c - n_invoke_end c) (t_invoke_end tg))
              @ concat (replicate (n_calls_start c - n_calls_end c) (t_calls_end tg))
    \<and> repair_style (after_thinking s') = Some tg
    \<and> balanced (count_tags tg (after_thinking s') no_tags) \<and> try_repair_dsml s' = None
    \<and> (nested_so_far tg (after_thinking s) \<longrightarrow> well_nested tg (after_thinking s'))"
proof -
  obtain tg where tg: "repair_style (after_thinking s) = Some tg" using assms
    by (auto simp: try_repair_dsml_def split: if_splits option.splits)
  define n where "n = count_tags tg (after_thinking s) no_tags"
  have s': "s' = s @ missing_tags tg n" and le: "n_param_end n \<le> n_param_start n"
    "n_invoke_end n \<le> n_invoke_start n" "n_calls_end n \<le> n_calls_start n"
    using assms tg by (auto simp: try_repair_dsml_def n_def Let_def split: if_splits)
  note st = repair_style_styles [OF tg]
  have at: "after_thinking s' = after_thinking s @ missing_tags tg n"
    using after_thinking_append [OF st] s' by simp
  have bal: "balanced (count_tags tg (after_thinking s') no_tags)"
    unfolding at using count_tags_append [OF st missing_at_tag [OF st]] count_missing [OF st le] by (simp add: n_def)
  have sty: "repair_style (after_thinking s') = Some tg"
    unfolding at using repair_style_append [OF st] tg by simp
  have "try_repair_dsml s' = None" using bal sty by (simp add: try_repair_dsml_def)
  moreover have "nested_so_far tg (after_thinking s) \<longrightarrow> well_nested tg (after_thinking s')"
    unfolding at n_def using missing_tags_close [OF st] by blast
  ultimately show ?thesis
    using tg s' bal sty by (intro exI [of _ tg] exI [of _ n]) (simp add: missing_tags_def n_def)
qed

theorem repair_balances_witness:
  "try_repair_dsml ''<tool_calls><invoke name=x><parameter name=y>'' =
     Some ''<tool_calls><invoke name=x><parameter name=y></parameter></invoke></tool_calls>''
   \<and> try_repair_dsml ''<tool_calls><invoke name=x><parameter name=y></parameter></invoke></tool_calls>'' = None
   \<and> well_nested xml_style
       (after_thinking ''<tool_calls><invoke name=x><parameter name=y></parameter></invoke></tool_calls>'')"
proof -
  let ?s = "''<tool_calls><invoke name=x><parameter name=y>''"
  let ?s' = "''<tool_calls><invoke name=x><parameter name=y></parameter></invoke></tool_calls>''"
  have r: "try_repair_dsml ?s = Some ?s'" by code_simp
  have st: "repair_style (after_thinking ?s) = Some xml_style" by code_simp
  have "nested_so_far xml_style (after_thinking ?s)" by code_simp
  then show ?thesis using repair_balances [OF r] r st by auto
qed

lemma last_think:
  assumes "last_at ''</think>'' t = None"
  shows "find_last_substr (r @ ''</think>'' @ t) ''</think>'' = Some (''</think>'' @ t)"
proof -
  have tl: "tag_like ''</think>''" by (simp add: tag_like_def)
  have "last_at ''</think>'' (''</think>'' @ t) = Some (''</think>'' @ t)" using assms by simp
  then show ?thesis
    using last_at_append [OF tl, of "''</think>'' @ t" r] by (simp add: find_last_substr_def at_tag_def)
qed

text \<open>C33: With thinking on, nothing the model writes before the end of its reasoning can become a tool
  call: the calls are those of the text behind the last closing tag alone, and there are none while
  the reasoning is open.\<close>

theorem reasoning_makes_no_calls:
  assumes "last_at ''</think>'' t = None"
  shows "map_option pm_calls (parse_generated_message_ex (r @ ''</think>'' @ t) True)
      = map_option pm_calls (parse_generated_message_ex t False)
    \<and> parse_generated_message_ex t True = Some (plain_message t)"
proof (rule conjI)
  have pc: "pm_calls (plain_message x) = no_calls" for x by (simp add: plain_message_def split_beta)
  show "map_option pm_calls (parse_generated_message_ex (r @ ''</think>'' @ t) True)
      = map_option pm_calls (parse_generated_message_ex t False)"
    unfolding parse_generated_message_ex_def last_think [OF assms]
    by (simp del: calls_loop.simps add: pc Let_def split: option.splits prod.splits)
  show "parse_generated_message_ex t True = Some (plain_message t)"
    using assms by (simp add: parse_generated_message_ex_def find_last_substr_def)
qed

theorem reasoning_makes_no_calls_witness:
  "map_option pm_calls (parse_generated_message_ex (''<tool_calls><invoke name=x>'' @ ''</think>'' @ ''done'') True)
     = map_option pm_calls (parse_generated_message_ex ''done'' False)"
  by (rule reasoning_makes_no_calls [THEN conjunct1]) simp

end
