(* ===== verification/ToolMemory.thy ===== *)
theory ToolMemory
  imports Prelude "HOL-Library.Monad_Syntax"
begin

text \<open>
  The tool-call memory of the server (\<^verbatim>\<open>ds4_server.c\<close>, "Tool Call Text Memory"): for every tool call
  id the exact text the model sampled. Entries and text blocks are nodes of a heap: a pointer is a
  number, \<open>None\<close> is NULL, and freeing removes the node. An operation that follows a freed pointer
  has the value \<open>None\<close>, so a result \<open>Some\<close> is a statement of memory safety. The two radix trees
  (\<^verbatim>\<open>rax\<close>) are the maps they implement. The least-recently-used order is the doubly linked list from
  \<open>tm_head\<close> to \<open>tm_tail\<close>; the entries of a block form a singly linked list. Byte counts are naturals:
  they are sums of sizes of live allocations, which a \<^verbatim>\<open>size_t\<close> holds. Running out of memory ends the
  process; the addresses \<^verbatim>\<open>malloc\<close> returns are arguments.
\<close>

section \<open>State\<close>

type_synonym ptr = nat

datatype tool_memory_source = TOOL_MEMORY_RAM | TOOL_MEMORY_DISK

record tool_memory_block =
  tb_dsml :: string
  tb_bytes :: nat
  tb_refs :: int
  tb_seen :: nat
  tb_entries :: "ptr option"

record tool_memory_entry =
  te_id :: string
  te_block :: ptr
  te_bytes :: nat
  te_stamp :: nat
  te_source :: tool_memory_source
  te_prev :: "ptr option"
  te_next :: "ptr option"
  te_block_next :: "ptr option"

record tool_memory =
  tm_heap :: "ptr \<rightharpoonup> tool_memory_entry"
  tm_blocks :: "ptr \<rightharpoonup> tool_memory_block"
  tm_by_id :: "string \<rightharpoonup> ptr"
  tm_by_block :: "string \<rightharpoonup> ptr"
  tm_head :: "ptr option"
  tm_tail :: "ptr option"
  tm_entries :: int
  tm_max_entries :: int
  tm_bytes :: nat
  tm_max_bytes :: nat
  tm_clock :: nat
  tm_scan_clock :: nat

definition tool_memory_zero :: tool_memory where
  "tool_memory_zero =
     \<lparr>tm_heap = Map.empty, tm_blocks = Map.empty, tm_by_id = Map.empty, tm_by_block = Map.empty,
      tm_head = None, tm_tail = None, tm_entries = 0, tm_max_entries = 0, tm_bytes = 0,
      tm_max_bytes = 0, tm_clock = 0, tm_scan_clock = 0\<rparr>"

text \<open>The sizes of the two structs on a 64-bit target.\<close>

definition sizeof_entry :: nat where "sizeof_entry = 64"
definition sizeof_block :: nat where "sizeof_block = 48"

definition tool_memory_max_entries :: "tool_memory \<Rightarrow> int" where
  "tool_memory_max_entries m = (if 0 < tm_max_entries m then tm_max_entries m else 100000)"

definition tool_memory_max_bytes :: "tool_memory \<Rightarrow> nat" where
  "tool_memory_max_bytes m = (if 0 < tm_max_bytes m then tm_max_bytes m else 512 * 1024 * 1024)"

definition upd_entry :: "ptr \<Rightarrow> (tool_memory_entry \<Rightarrow> tool_memory_entry) \<Rightarrow> tool_memory \<Rightarrow> tool_memory option" where
  "upd_entry p f m = do { e \<leftarrow> tm_heap m p; Some (m\<lparr>tm_heap := (tm_heap m)(p \<mapsto> f e)\<rparr>) }"

definition upd_block :: "ptr \<Rightarrow> (tool_memory_block \<Rightarrow> tool_memory_block) \<Rightarrow> tool_memory \<Rightarrow> tool_memory option" where
  "upd_block b f m = do { x \<leftarrow> tm_blocks m b; Some (m\<lparr>tm_blocks := (tm_blocks m)(b \<mapsto> f x)\<rparr>) }"

section \<open>The recency list\<close>

definition tool_memory_link_head :: "ptr \<Rightarrow> tool_memory \<Rightarrow> tool_memory option" where
  "tool_memory_link_head p m = do {
     m1 \<leftarrow> upd_entry p (\<lambda>e. e\<lparr>te_prev := None, te_next := tm_head m\<rparr>) m;
     m2 \<leftarrow> (case tm_head m1 of Some h \<Rightarrow> upd_entry h (\<lambda>e. e\<lparr>te_prev := Some p\<rparr>) m1
                             | None \<Rightarrow> Some (m1\<lparr>tm_tail := Some p\<rparr>));
     Some (m2\<lparr>tm_head := Some p\<rparr>) }"

definition tool_memory_unlink :: "ptr \<Rightarrow> tool_memory \<Rightarrow> tool_memory option" where
  "tool_memory_unlink p m = do {
     e \<leftarrow> tm_heap m p;
     m1 \<leftarrow> (case te_prev e of Some q \<Rightarrow> upd_entry q (\<lambda>x. x\<lparr>te_next := te_next e\<rparr>) m
                            | None \<Rightarrow> Some (m\<lparr>tm_head := te_next e\<rparr>));
     e1 \<leftarrow> tm_heap m1 p;
     m2 \<leftarrow> (case te_next e1 of Some q \<Rightarrow> upd_entry q (\<lambda>x. x\<lparr>te_prev := te_prev e1\<rparr>) m1
                             | None \<Rightarrow> Some (m1\<lparr>tm_tail := te_prev e1\<rparr>));
     upd_entry p (\<lambda>x. x\<lparr>te_prev := None, te_next := None\<rparr>) m2 }"

definition tool_memory_touch :: "ptr \<Rightarrow> tool_memory \<Rightarrow> tool_memory option" where
  "tool_memory_touch p m = do {
     m1 \<leftarrow> upd_entry p (\<lambda>e. e\<lparr>te_stamp := Suc (tm_clock m)\<rparr>) (m\<lparr>tm_clock := Suc (tm_clock m)\<rparr>);
     if tm_head m1 = Some p then Some m1
     else do { m2 \<leftarrow> tool_memory_unlink p m1; tool_memory_link_head p m2 } }"

section \<open>The entries of a block\<close>

text \<open>\<^verbatim>\<open>tool_block_unlink_entry\<close> walks with a pointer to the link that is to be changed: the one in the
  block or the one in an entry. \<open>None\<close> is also the walk that never ends.\<close>

datatype link = InBlock ptr | InEntry ptr

definition get_link :: "link \<Rightarrow> tool_memory \<Rightarrow> ptr option option" where
  "get_link l m = (case l of InBlock b \<Rightarrow> map_option tb_entries (tm_blocks m b)
                           | InEntry p \<Rightarrow> map_option te_block_next (tm_heap m p))"

definition set_link :: "link \<Rightarrow> ptr option \<Rightarrow> tool_memory \<Rightarrow> tool_memory option" where
  "set_link l x m = (case l of InBlock b \<Rightarrow> upd_block b (\<lambda>y. y\<lparr>tb_entries := x\<rparr>) m
                             | InEntry p \<Rightarrow> upd_entry p (\<lambda>y. y\<lparr>te_block_next := x\<rparr>) m)"

partial_function (option) unlink_walk :: "link \<Rightarrow> ptr \<Rightarrow> tool_memory \<Rightarrow> tool_memory option" where
  "unlink_walk l p m =
     Option.bind (get_link l m) (\<lambda>x.
       case x of None \<Rightarrow> Some m
       | Some q \<Rightarrow>
         if q = p
         then Option.bind (tm_heap m p) (\<lambda>e.
                Option.bind (set_link l (te_block_next e) m) (upd_entry p (\<lambda>y. y\<lparr>te_block_next := None\<rparr>)))
         else unlink_walk (InEntry q) p m)"

definition tool_block_unlink_entry :: "ptr \<Rightarrow> ptr \<Rightarrow> tool_memory \<Rightarrow> tool_memory option" where
  "tool_block_unlink_entry b p m = unlink_walk (InBlock b) p m"

definition tool_memory_find_block_locked :: "tool_memory \<Rightarrow> string \<Rightarrow> ptr option" where
  "tool_memory_find_block_locked m dsml = (if dsml = [] then None else tm_by_block m dsml)"

definition tool_memory_get_block_locked :: "string \<Rightarrow> ptr \<Rightarrow> tool_memory \<Rightarrow> ptr \<times> tool_memory" where
  "tool_memory_get_block_locked dsml pb m =
     (case tool_memory_find_block_locked m dsml of Some b \<Rightarrow> (b, m)
      | None \<Rightarrow>
        let x = \<lparr>tb_dsml = dsml, tb_bytes = length dsml + 1 + sizeof_block, tb_refs = 0, tb_seen = 0, tb_entries = None\<rparr>
        in (pb, m\<lparr>tm_blocks := (tm_blocks m)(pb \<mapsto> x), tm_by_block := (tm_by_block m)(dsml \<mapsto> pb),
                  tm_bytes := tm_bytes m + tb_bytes x\<rparr>))"

definition tool_memory_release_block_locked :: "ptr \<Rightarrow> tool_memory \<Rightarrow> tool_memory option" where
  "tool_memory_release_block_locked b m = do {
     m1 \<leftarrow> upd_block b (\<lambda>x. x\<lparr>tb_refs := tb_refs x - 1\<rparr>) m;
     x \<leftarrow> tm_blocks m1 b;
     if 0 < tb_refs x then Some m1
     else Some (m1\<lparr>tm_by_block := (tm_by_block m1)(tb_dsml x := None),
                   tm_bytes := (if tb_bytes x \<le> tm_bytes m1 then tm_bytes m1 - tb_bytes x else 0),
                   tm_blocks := (tm_blocks m1)(b := None)\<rparr>) }"

section \<open>Removing, pruning, adding, looking up\<close>

definition tool_memory_remove_entry_locked :: "ptr \<Rightarrow> tool_memory \<Rightarrow> tool_memory option" where
  "tool_memory_remove_entry_locked p m = do {
     e \<leftarrow> tm_heap m p;
     m1 \<leftarrow> tool_memory_unlink p (m\<lparr>tm_by_id := (tm_by_id m)(te_id e := None)\<rparr>);
     m2 \<leftarrow> tool_block_unlink_entry (te_block e) p m1;
     m3 \<leftarrow> tool_memory_release_block_locked (te_block e)
        (m2\<lparr>tm_bytes := (if te_bytes e \<le> tm_bytes m2 then tm_bytes m2 - te_bytes e else 0),
            tm_entries := (if 0 < tm_entries m2 then tm_entries m2 - 1 else tm_entries m2)\<rparr>);
     Some (m3\<lparr>tm_heap := (tm_heap m3)(p := None)\<rparr>) }"

definition over_limit :: "tool_memory \<Rightarrow> bool" where
  "over_limit m \<longleftrightarrow> tool_memory_max_entries m < tm_entries m \<or> tool_memory_max_bytes m < tm_bytes m"

partial_function (option) tool_memory_prune_locked :: "tool_memory \<Rightarrow> tool_memory option" where
  "tool_memory_prune_locked m =
     (case tm_tail m of None \<Rightarrow> Some m
      | Some p \<Rightarrow>
        if over_limit m then Option.bind (tool_memory_remove_entry_locked p m) tool_memory_prune_locked else Some m)"

definition tool_memory_find_entry_locked :: "tool_memory \<Rightarrow> string \<Rightarrow> ptr option" where
  "tool_memory_find_entry_locked m ident = (if ident = [] then None else tm_by_id m ident)"

definition add_entry :: "string \<Rightarrow> string \<Rightarrow> tool_memory_source \<Rightarrow> ptr \<Rightarrow> ptr \<Rightarrow> tool_memory \<Rightarrow> tool_memory option" where
  "add_entry ident dsml source pe pb m = (case tool_memory_get_block_locked dsml pb m of (b, m1) \<Rightarrow> do {
     x \<leftarrow> tm_blocks m1 b;
     let e = \<lparr>te_id = ident, te_block = b, te_bytes = length ident + 1 + sizeof_entry, te_stamp = Suc (tm_clock m1),
              te_source = source, te_prev = None, te_next = None, te_block_next = tb_entries x\<rparr>;
     m2 \<leftarrow> upd_block b (\<lambda>y. y\<lparr>tb_entries := Some pe, tb_refs := tb_refs y + 1\<rparr>)
        (m1\<lparr>tm_clock := Suc (tm_clock m1), tm_heap := (tm_heap m1)(pe \<mapsto> e)\<rparr>);
     m3 \<leftarrow> tool_memory_link_head pe (m2\<lparr>tm_by_id := (tm_by_id m2)(ident \<mapsto> pe)\<rparr>);
     Some (m3\<lparr>tm_entries := tm_entries m3 + 1, tm_bytes := tm_bytes m3 + te_bytes e\<rparr>) })"

definition tool_memory_put_locked ::
  "string \<Rightarrow> string \<Rightarrow> tool_memory_source \<Rightarrow> ptr \<Rightarrow> ptr \<Rightarrow> tool_memory \<Rightarrow> tool_memory option" where
  "tool_memory_put_locked ident dsml source pe pb m =
     (if ident = [] \<or> dsml = [] then Some m
      else (case tool_memory_find_entry_locked m ident of
          None \<Rightarrow> Option.bind (add_entry ident dsml source pe pb m) tool_memory_prune_locked
        | Some old \<Rightarrow> do {
            e \<leftarrow> tm_heap m old;
            x \<leftarrow> tm_blocks m (te_block e);
            if tb_dsml x = dsml
            then do {
              m1 \<leftarrow> (if source = TOOL_MEMORY_RAM then upd_entry old (\<lambda>y. y\<lparr>te_source := TOOL_MEMORY_RAM\<rparr>) m else Some m);
              m2 \<leftarrow> tool_memory_touch old m1;
              tool_memory_prune_locked m2 }
            else do {
              m1 \<leftarrow> tool_memory_remove_entry_locked old m;
              m2 \<leftarrow> add_entry ident dsml source pe pb m1;
              tool_memory_prune_locked m2 } }))"

text \<open>A lookup returns the source, the block and its text, and the memory with the entry moved to the
  front.\<close>

definition tool_memory_lookup_locked ::
  "string \<Rightarrow> tool_memory \<Rightarrow> ((tool_memory_source \<times> ptr \<times> string) option \<times> tool_memory) option" where
  "tool_memory_lookup_locked ident m =
     (case tool_memory_find_entry_locked m ident of None \<Rightarrow> Some (None, m)
      | Some p \<Rightarrow> do {
          m1 \<leftarrow> tool_memory_touch p m;
          e \<leftarrow> tm_heap m1 p;
          x \<leftarrow> tm_blocks m1 (te_block e);
          Some (Some (te_source e, te_block e, tb_dsml x), m1) })"

partial_function (option) remove_all :: "tool_memory \<Rightarrow> tool_memory option" where
  "remove_all m =
     (case tm_tail m of None \<Rightarrow> Some m
      | Some p \<Rightarrow> Option.bind (tool_memory_remove_entry_locked p m) remove_all)"

definition tool_memory_free :: "tool_memory \<Rightarrow> tool_memory option" where
  "tool_memory_free m = do { _ \<leftarrow> remove_all m; Some tool_memory_zero }"

end
