(* ===== verification/ToolMemoryInv.thy ===== *)
theory ToolMemoryInv
  imports ToolMemory
begin

text \<open>
  The heap structures of the tool memory: the doubly linked recency list and the chain of a block,
  each as a predicate that ties the heap to a list of pointers, with what the operations do to it.
  The links are looked at through projections, so that a change of another field does not matter.
\<close>

section \<open>The recency list\<close>

type_synonym heap = "ptr \<rightharpoonup> tool_memory_entry"

definition lk :: "heap \<Rightarrow> ptr \<rightharpoonup> ptr option \<times> ptr option" where
  "lk h p = map_option (\<lambda>e. (te_prev e, te_next e)) (h p)"

text \<open>An entry without its two list links, and without its chain link.\<close>

definition unlinked :: "heap \<Rightarrow> ptr \<rightharpoonup> tool_memory_entry" where
  "unlinked h p = map_option (\<lambda>e. e\<lparr>te_prev := None, te_next := None\<rparr>) (h p)"

definition unchained :: "heap \<Rightarrow> ptr \<rightharpoonup> tool_memory_entry" where
  "unchained h p = map_option (\<lambda>e. e\<lparr>te_block_next := None\<rparr>) (h p)"

definition first :: "ptr list \<Rightarrow> ptr option \<Rightarrow> ptr option" where
  "first ps nx = (case ps of [] \<Rightarrow> nx | q # _ \<Rightarrow> Some q)"

definition final :: "ptr option \<Rightarrow> ptr list \<Rightarrow> ptr option" where
  "final pr ps = (if ps = [] then pr else Some (last ps))"

fun dll :: "(ptr \<rightharpoonup> ptr option \<times> ptr option) \<Rightarrow> ptr option \<Rightarrow> ptr list \<Rightarrow> ptr option \<Rightarrow> bool" where
  "dll h pr [] nx \<longleftrightarrow> True"
| "dll h pr (p # ps) nx \<longleftrightarrow> h p = Some (pr, first ps nx) \<and> dll h (Some p) ps nx"

lemma first_simps [simp]:
  "first [] nx = nx" "first (p # ps) nx = Some p" "first (ps @ qs) nx = first ps (first qs nx)"
  by (simp_all add: first_def split: list.splits)

lemma final_simps [simp]:
  "final pr [] = pr" "final pr (p # ps) = final (Some p) ps" "final pr (ps @ qs) = final (final pr ps) qs"
  "final pr (ps @ [p]) = Some p"
  by (simp_all add: final_def)

lemma dll_append [simp]: "dll h pr (as @ bs) nx \<longleftrightarrow> dll h pr as (first bs nx) \<and> dll h (final pr as) bs nx"
  by (induction as arbitrary: pr) auto

lemma dll_frame: "\<forall>p\<in>set ps. h' p = h p \<Longrightarrow> dll h' pr ps nx = dll h pr ps nx"
  by (induction ps arbitrary: pr) auto

lemma upd_entry_Some: "tm_heap m p = Some e \<Longrightarrow> upd_entry p f m = Some (m\<lparr>tm_heap := (tm_heap m)(p \<mapsto> f e)\<rparr>)"
  by (simp add: upd_entry_def)

lemma upd_block_Some: "tm_blocks m b = Some x \<Longrightarrow> upd_block b f m = Some (m\<lparr>tm_blocks := (tm_blocks m)(b \<mapsto> f x)\<rparr>)"
  by (simp add: upd_block_def)

lemma lk_Some: "lk h p = Some (a, b) \<longleftrightarrow> (\<exists>e. h p = Some e \<and> te_prev e = a \<and> te_next e = b)"
  by (auto simp: lk_def)

lemma unlink_dll:
  assumes "dll (lk (tm_heap m)) None (as @ p # bs) None" "distinct (as @ p # bs)"
    and "tm_head m = first (as @ p # bs) None" "tm_tail m = final None (as @ p # bs)"
  shows "\<exists>h'. tool_memory_unlink p m = Some (m\<lparr>tm_heap := h', tm_head := first (as @ bs) None, tm_tail := final None (as @ bs)\<rparr>)
    \<and> dll (lk h') None (as @ bs) None \<and> unlinked h' = unlinked (tm_heap m)"
proof -
  let ?h = "tm_heap m"
  obtain e where e: "?h p = Some e" "te_prev e = final None as" "te_next e = first bs None"
    using assms(1) by (auto simp: lk_Some)
  show ?thesis
  proof (cases as rule: rev_cases; cases bs)
    assume c: "as = []" "bs = []"
    then show ?thesis using assms e
      by (intro exI [of _ "?h(p \<mapsto> e\<lparr>te_prev := None, te_next := None\<rparr>)"])
        (auto simp: tool_memory_unlink_def upd_entry_def unlinked_def fun_eq_iff)
  next
    fix b bs' assume c: "as = []" "bs = b # bs'"
    obtain eb where eb: "?h b = Some eb" "te_next eb = first bs' None" using assms(1) c by (auto simp: lk_Some)
    let ?h' = "?h(b \<mapsto> eb\<lparr>te_prev := None\<rparr>, p \<mapsto> e\<lparr>te_prev := None, te_next := None\<rparr>)"
    have "dll (lk ?h') (Some b) bs' None"
      using assms(1,2) c by (subst dll_frame [where h = "lk ?h"]) (auto simp: lk_def)
    then show ?thesis using assms e eb c
      by (intro exI [of _ ?h']) (auto simp: tool_memory_unlink_def upd_entry_def unlinked_def lk_Some fun_eq_iff)
  next
    fix as' a assume c: "as = as' @ [a]" "bs = []"
    obtain ea where ea: "?h a = Some ea" "te_prev ea = final None as'" using assms(1) c by (auto simp: lk_Some)
    let ?h' = "?h(a \<mapsto> ea\<lparr>te_next := None\<rparr>, p \<mapsto> e\<lparr>te_prev := None, te_next := None\<rparr>)"
    have "dll (lk ?h') None as' (Some a)"
      using assms(1,2) c by (subst dll_frame [where h = "lk ?h"]) (auto simp: lk_def)
    then show ?thesis using assms e ea c
      by (intro exI [of _ ?h']) (auto simp: tool_memory_unlink_def upd_entry_def unlinked_def lk_Some fun_eq_iff)
  next
    fix as' a b bs' assume c: "as = as' @ [a]" "bs = b # bs'"
    obtain ea where ea: "?h a = Some ea" "te_prev ea = final None as'" using assms(1) c by (auto simp: lk_Some)
    obtain eb where eb: "?h b = Some eb" "te_next eb = first bs' None" using assms(1) c by (auto simp: lk_Some)
    let ?h' = "?h(a \<mapsto> ea\<lparr>te_next := Some b\<rparr>, b \<mapsto> eb\<lparr>te_prev := Some a\<rparr>, p \<mapsto> e\<lparr>te_prev := None, te_next := None\<rparr>)"
    have "dll (lk ?h') None as' (Some a)" "dll (lk ?h') (Some b) bs' None"
      using assms(1,2) c by (subst dll_frame [where h = "lk ?h"]; auto simp: lk_def)+
    then show ?thesis using assms e ea eb c
      by (intro exI [of _ ?h']) (auto simp: tool_memory_unlink_def upd_entry_def unlinked_def lk_Some fun_eq_iff)
  qed
qed

lemma link_head_dll:
  assumes "dll (lk (tm_heap m)) None xs None" "p \<notin> set xs" "distinct xs" "tm_heap m p = Some e"
    and "tm_head m = first xs None" "tm_tail m = final None xs"
  shows "\<exists>h'. tool_memory_link_head p m = Some (m\<lparr>tm_heap := h', tm_head := Some p, tm_tail := final None (p # xs)\<rparr>)
    \<and> dll (lk h') None (p # xs) None \<and> unlinked h' = unlinked (tm_heap m)"
proof (cases xs)
  case Nil
  then show ?thesis using assms
    by (intro exI [of _ "(tm_heap m)(p \<mapsto> e\<lparr>te_prev := None, te_next := None\<rparr>)"])
      (auto simp: tool_memory_link_head_def upd_entry_def unlinked_def lk_Some fun_eq_iff)
next
  case (Cons x xs')
  let ?h = "tm_heap m"
  obtain ex where ex: "?h x = Some ex" "te_next ex = first xs' None" using assms(1) Cons by (auto simp: lk_Some)
  let ?h' = "?h(p \<mapsto> e\<lparr>te_prev := None, te_next := Some x\<rparr>, x \<mapsto> ex\<lparr>te_prev := Some p\<rparr>)"
  have "dll (lk ?h') (Some x) xs' None"
    using assms(1-3) Cons by (subst dll_frame [where h = "lk ?h"]) (auto simp: lk_def)
  then show ?thesis using assms ex Cons
    by (intro exI [of _ ?h']) (auto simp: tool_memory_link_head_def upd_entry_def unlinked_def lk_Some fun_eq_iff)
qed

section \<open>The chain of a block\<close>

definition bn :: "heap \<Rightarrow> ptr \<rightharpoonup> ptr option" where
  "bn h p = map_option te_block_next (h p)"

fun chain :: "(ptr \<rightharpoonup> ptr option) \<Rightarrow> ptr option \<Rightarrow> ptr list \<Rightarrow> bool" where
  "chain h x [] \<longleftrightarrow> x = None"
| "chain h x (p # ps) \<longleftrightarrow> x = Some p \<and> h p = Some (first ps None) \<and> chain h (first ps None) ps"

lemma chain_first: "chain h x ps \<Longrightarrow> x = first ps None"
  by (cases ps) auto

lemma chain_frame: "\<forall>p\<in>set ps. h' p = h p \<Longrightarrow> chain h' x ps = chain h x ps"
  by (induction ps arbitrary: x) auto

lemma walk_entry:
  assumes "tm_heap m q0 = Some e0" "te_block_next e0 = first (as @ p # bs) None"
    "chain (bn (tm_heap m)) (first (as @ p # bs) None) (as @ p # bs)" "distinct (q0 # as @ p # bs)"
  shows "\<exists>h'. unlink_walk (InEntry q0) p m = Some (m\<lparr>tm_heap := h'\<rparr>)
    \<and> bn h' q0 = Some (first (as @ bs) None) \<and> chain (bn h') (first (as @ bs) None) (as @ bs)
    \<and> unchained h' = unchained (tm_heap m) \<and> (\<forall>q. q \<notin> set (q0 # as @ p # bs) \<longrightarrow> h' q = tm_heap m q)"
  using assms
proof (induction as arbitrary: q0 e0)
  case Nil
  let ?h = "tm_heap m"
  obtain e where e: "?h p = Some e" "te_block_next e = first bs None" using Nil.prems(3) by (auto simp: bn_def)
  let ?h' = "?h(q0 \<mapsto> e0\<lparr>te_block_next := first bs None\<rparr>, p \<mapsto> e\<lparr>te_block_next := None\<rparr>)"
  have "unlink_walk (InEntry q0) p m = Some (m\<lparr>tm_heap := ?h'\<rparr>)"
    using Nil.prems e by (subst unlink_walk.simps) (simp add: get_link_def set_link_def upd_entry_def)
  moreover have "chain (bn ?h') (first bs None) bs = chain (bn ?h) (first bs None) bs"
    using Nil.prems(4) by (intro chain_frame) (auto simp: bn_def)
  then have "chain (bn ?h') (first bs None) bs" using Nil.prems(3) by simp
  moreover have "bn ?h' q0 = Some (first bs None)" using Nil.prems(4) by (simp add: bn_def)
  moreover have "unchained ?h' = unchained ?h" using Nil.prems(1) e by (intro ext) (auto simp: unchained_def)
  moreover have "\<forall>q. q \<notin> set (q0 # p # bs) \<longrightarrow> ?h' q = ?h q" by simp
  ultimately show ?case by (intro exI [of _ ?h']) (simp del: fun_upd_apply)
next
  case (Cons a as)
  let ?h = "tm_heap m"
  obtain ea where ea: "?h a = Some ea" "te_block_next ea = first (as @ p # bs) None"
    using Cons.prems(3) by (auto simp: bn_def)
  obtain h' where h': "unlink_walk (InEntry a) p m = Some (m\<lparr>tm_heap := h'\<rparr>)" "bn h' a = Some (first (as @ bs) None)"
    "chain (bn h') (first (as @ bs) None) (as @ bs)" "unchained h' = unchained ?h"
    "\<forall>q. q \<notin> set (a # as @ p # bs) \<longrightarrow> h' q = ?h q"
    using Cons.IH [OF ea] Cons.prems(3,4) by auto
  have "unlink_walk (InEntry q0) p m = unlink_walk (InEntry a) p m"
    using Cons.prems by (subst unlink_walk.simps) (auto simp: get_link_def)
  moreover have "bn h' q0 = Some (Some a)" using h'(5) Cons.prems(1,2,4) by (auto simp: bn_def)
  moreover have "chain (bn h') (Some a) (a # as @ bs)" using h'(2,3) by simp
  ultimately show ?case using h' by (intro exI [of _ h']) auto
qed

lemma walk_block:
  assumes "tm_blocks m b = Some x" "chain (bn (tm_heap m)) (tb_entries x) (as @ p # bs)" "distinct (as @ p # bs)"
  shows "\<exists>h'. tool_block_unlink_entry b p m
      = Some (m\<lparr>tm_heap := h', tm_blocks := (tm_blocks m)(b \<mapsto> x\<lparr>tb_entries := first (as @ bs) None\<rparr>)\<rparr>)
    \<and> chain (bn h') (first (as @ bs) None) (as @ bs)
    \<and> unchained h' = unchained (tm_heap m) \<and> (\<forall>q. q \<notin> set (as @ p # bs) \<longrightarrow> h' q = tm_heap m q)"
proof (cases as)
  case Nil
  let ?h = "tm_heap m"
  obtain e where e: "?h p = Some e" "te_block_next e = first bs None" using assms(2) Nil by (auto simp: bn_def)
  let ?h' = "?h(p \<mapsto> e\<lparr>te_block_next := None\<rparr>)"
  have "tool_block_unlink_entry b p m
      = Some (m\<lparr>tm_heap := ?h', tm_blocks := (tm_blocks m)(b \<mapsto> x\<lparr>tb_entries := first (as @ bs) None\<rparr>)\<rparr>)"
    using assms e Nil unfolding tool_block_unlink_entry_def
    by (subst unlink_walk.simps) (simp add: get_link_def set_link_def upd_entry_def upd_block_def)
  moreover have "chain (bn ?h') (first bs None) bs = chain (bn ?h) (first bs None) bs"
    using assms(3) Nil by (intro chain_frame) (auto simp: bn_def)
  then have "chain (bn ?h') (first bs None) bs" using assms(2) Nil by simp
  moreover have "unchained ?h' = unchained ?h" using e by (intro ext) (auto simp: unchained_def)
  moreover have "\<forall>q. q \<notin> set (p # bs) \<longrightarrow> ?h' q = ?h q" by simp
  ultimately show ?thesis using Nil by (intro exI [of _ ?h']) (simp del: fun_upd_apply)
next
  case (Cons a as')
  let ?h = "tm_heap m"
  obtain ea where ea: "?h a = Some ea" "te_block_next ea = first (as' @ p # bs) None"
    using assms(2) Cons by (auto simp: bn_def)
  obtain h' where h': "unlink_walk (InEntry a) p m = Some (m\<lparr>tm_heap := h'\<rparr>)" "bn h' a = Some (first (as' @ bs) None)"
    "chain (bn h') (first (as' @ bs) None) (as' @ bs)" "unchained h' = unchained ?h"
    "\<forall>q. q \<notin> set (a # as' @ p # bs) \<longrightarrow> h' q = ?h q"
    using walk_entry [OF ea] assms(2,3) Cons by auto
  have "tool_block_unlink_entry b p m = unlink_walk (InEntry a) p m"
    using assms Cons unfolding tool_block_unlink_entry_def by (subst unlink_walk.simps) (auto simp: get_link_def)
  moreover have "(tm_blocks m)(b \<mapsto> x\<lparr>tb_entries := first (as @ bs) None\<rparr>) = tm_blocks m"
    using assms(1,2) Cons by (auto simp: fun_eq_iff)
  ultimately show ?thesis using h' Cons by (intro exI [of _ h']) auto
qed

end
