(* ===== verification/ToolMemoryOps.thy ===== *)
theory ToolMemoryOps
  imports ToolMemoryInv
begin

text \<open>
  The invariant of the tool memory and what each operation does to it, down to the abstract content:
  a list of ids with their texts and sources, the most recently used first.
\<close>

section \<open>The invariant\<close>

text \<open>What an entry holds: its id, block, size and source.\<close>

definition pay :: "heap \<Rightarrow> ptr \<rightharpoonup> string \<times> ptr \<times> nat \<times> tool_memory_source" where
  "pay h p = map_option (\<lambda>e. (te_id e, te_block e, te_bytes e, te_source e)) (h p)"

lemma unlinked_eq:
  assumes "unlinked h' = unlinked h"
  shows "pay h' = pay h" "bn h' = bn h" "h' q = None \<longleftrightarrow> h q = None"
proof -
  have u: "map_option (\<lambda>e. e\<lparr>te_prev := None, te_next := None\<rparr>) (h' q)
      = map_option (\<lambda>e. e\<lparr>te_prev := None, te_next := None\<rparr>) (h q)" for q
    using fun_cong [OF assms, of q] by (simp add: unlinked_def)
  have f: "te_id a = te_id b \<and> te_block a = te_block b \<and> te_bytes a = te_bytes b \<and> te_source a = te_source b
      \<and> te_block_next a = te_block_next b"
    if "a\<lparr>te_prev := None, te_next := None\<rparr> = b\<lparr>te_prev := None, te_next := None\<rparr>" for a b :: tool_memory_entry
    using arg_cong [OF that, of te_id] arg_cong [OF that, of te_block] arg_cong [OF that, of te_bytes]
      arg_cong [OF that, of te_source] arg_cong [OF that, of te_block_next] by simp
  have c: "(h' q = None \<and> h q = None) \<or> (\<exists>a b. h' q = Some a \<and> h q = Some b \<and> pay h' q = pay h q \<and> bn h' q = bn h q)" for q
    using u [of q] by (cases "h' q"; cases "h q") (auto dest!: f simp: pay_def bn_def)
  have "pay h' q = pay h q \<and> bn h' q = bn h q \<and> (h' q = None \<longleftrightarrow> h q = None)" for q
    using c [of q] by (auto simp: pay_def bn_def)
  then show "pay h' = pay h" "bn h' = bn h" "h' q = None \<longleftrightarrow> h q = None" by (simp_all add: fun_eq_iff)
qed

lemma unchained_eq:
  assumes "unchained h' = unchained h"
  shows "pay h' = pay h" "lk h' = lk h" "h' q = None \<longleftrightarrow> h q = None"
proof -
  have u: "map_option (\<lambda>e. e\<lparr>te_block_next := None\<rparr>) (h' q)
      = map_option (\<lambda>e. e\<lparr>te_block_next := None\<rparr>) (h q)" for q
    using fun_cong [OF assms, of q] by (simp add: unchained_def)
  have f: "te_id a = te_id b \<and> te_block a = te_block b \<and> te_bytes a = te_bytes b \<and> te_source a = te_source b
      \<and> te_prev a = te_prev b \<and> te_next a = te_next b"
    if "a\<lparr>te_block_next := None\<rparr> = b\<lparr>te_block_next := None\<rparr>" for a b :: tool_memory_entry
    using arg_cong [OF that, of te_id] arg_cong [OF that, of te_block] arg_cong [OF that, of te_bytes]
      arg_cong [OF that, of te_source] arg_cong [OF that, of te_prev] arg_cong [OF that, of te_next] by simp
  have c: "(h' q = None \<and> h q = None) \<or> (\<exists>a b. h' q = Some a \<and> h q = Some b \<and> pay h' q = pay h q \<and> lk h' q = lk h q)" for q
    using u [of q] by (cases "h' q"; cases "h q") (auto dest!: f simp: pay_def lk_def)
  have "pay h' q = pay h q \<and> lk h' q = lk h q \<and> (h' q = None \<longleftrightarrow> h q = None)" for q
    using c [of q] by (auto simp: pay_def lk_def)
  then show "pay h' = pay h" "lk h' = lk h" "h' q = None \<longleftrightarrow> h q = None" by (simp_all add: fun_eq_iff)
qed

definition members :: "heap \<Rightarrow> ptr \<Rightarrow> ptr set" where
  "members h b = {p. \<exists>i n s. pay h p = Some (i, b, n, s)}"

definition list_ok :: "tool_memory \<Rightarrow> ptr list \<Rightarrow> bool" where
  "list_ok m xs \<longleftrightarrow> distinct xs \<and> dll (lk (tm_heap m)) None xs None \<and> tm_head m = first xs None
     \<and> tm_tail m = final None xs \<and> dom (tm_heap m) = set xs \<and> tm_entries m = int (length xs)"

definition ids_ok :: "tool_memory \<Rightarrow> bool" where
  "ids_ok m \<longleftrightarrow> (\<forall>i p. tm_by_id m i = Some p \<longleftrightarrow> (\<exists>b n s. pay (tm_heap m) p = Some (i, b, n, s)))"

definition blocks_ok :: "tool_memory \<Rightarrow> bool" where
  "blocks_ok m \<longleftrightarrow> (\<forall>d b. tm_by_block m d = Some b \<longleftrightarrow> (\<exists>x. tm_blocks m b = Some x \<and> tb_dsml x = d))"

definition chain_ok :: "heap \<Rightarrow> ptr \<Rightarrow> tool_memory_block \<Rightarrow> bool" where
  "chain_ok h b x \<longleftrightarrow> (\<exists>cs. cs \<noteq> [] \<and> distinct cs \<and> chain (bn h) (tb_entries x) cs \<and> set cs = members h b
     \<and> tb_refs x = int (length cs))"

definition sizes_ok :: "tool_memory \<Rightarrow> bool" where
  "sizes_ok m \<longleftrightarrow>
     (\<forall>p i b n s. pay (tm_heap m) p = Some (i, b, n, s) \<longrightarrow> tm_blocks m b \<noteq> None \<and> n = length i + 1 + sizeof_entry \<and> i \<noteq> [])
     \<and> (\<forall>b x. tm_blocks m b = Some x \<longrightarrow> tb_bytes x = length (tb_dsml x) + 1 + sizeof_block \<and> tb_dsml x \<noteq> []
         \<and> tb_seen x \<le> tm_scan_clock m)"

definition pay_bytes :: "heap \<Rightarrow> ptr \<Rightarrow> nat" where
  "pay_bytes h p = (case pay h p of None \<Rightarrow> 0 | Some (i, b, n, s) \<Rightarrow> n)"

definition block_bytes :: "(ptr \<rightharpoonup> tool_memory_block) \<Rightarrow> ptr \<Rightarrow> nat" where
  "block_bytes bl b = (case bl b of None \<Rightarrow> 0 | Some x \<Rightarrow> tb_bytes x)"

definition bytes_ok :: "tool_memory \<Rightarrow> bool" where
  "bytes_ok m \<longleftrightarrow> finite (dom (tm_blocks m))
     \<and> tm_bytes m = (\<Sum>p\<in>dom (tm_heap m). pay_bytes (tm_heap m) p) + (\<Sum>b\<in>dom (tm_blocks m). block_bytes (tm_blocks m) b)"

definition tm_inv :: "tool_memory \<Rightarrow> ptr list \<Rightarrow> bool" where
  "tm_inv m xs \<longleftrightarrow> list_ok m xs \<and> ids_ok m \<and> blocks_ok m
     \<and> (\<forall>b x. tm_blocks m b = Some x \<longrightarrow> chain_ok (tm_heap m) b x) \<and> sizes_ok m \<and> bytes_ok m"

text \<open>The content: id, text and source of each entry, in the order of the list.\<close>

type_synonym item = "string \<times> string \<times> tool_memory_source"

definition view :: "tool_memory \<Rightarrow> ptr \<Rightarrow> item" where
  "view m p = (case pay (tm_heap m) p of None \<Rightarrow> ([], [], TOOL_MEMORY_DISK)
     | Some (i, b, n, s) \<Rightarrow> (i, (case tm_blocks m b of None \<Rightarrow> [] | Some x \<Rightarrow> tb_dsml x), s))"

definition content :: "tool_memory \<Rightarrow> ptr list \<Rightarrow> item list" where
  "content m xs = map (view m) xs"

lemma pay_Some: "pay h p = Some (i, b, n, s) \<longleftrightarrow>
    (\<exists>e. h p = Some e \<and> te_id e = i \<and> te_block e = b \<and> te_bytes e = n \<and> te_source e = s)"
  by (auto simp: pay_def)

lemma pay_None [simp]: "pay h p = None \<longleftrightarrow> h p = None"
  by (simp add: pay_def)

section \<open>Removing an entry\<close>

lemma remove_result:
  assumes inv: "tm_inv m (as @ p # bs)" and e: "tm_heap m p = Some e" and x: "tm_blocks m (te_block e) = Some x"
    and cs: "distinct (cs1 @ p # cs2)" "chain (bn (tm_heap m)) (tb_entries x) (cs1 @ p # cs2)"
      "tb_refs x = int (length (cs1 @ p # cs2))"
    and le: "te_bytes e + (if cs1 @ cs2 = [] then tb_bytes x else 0) \<le> tm_bytes m"
  shows "\<exists>h'. tool_memory_remove_entry_locked p m = Some (m\<lparr>tm_heap := h', tm_head := first (as @ bs) None,
       tm_tail := final None (as @ bs), tm_by_id := (tm_by_id m)(te_id e := None),
       tm_by_block := (if cs1 @ cs2 = [] then (tm_by_block m)(tb_dsml x := None) else tm_by_block m),
       tm_blocks := (tm_blocks m)(te_block e := (if cs1 @ cs2 = [] then None
         else Some (x\<lparr>tb_entries := first (cs1 @ cs2) None, tb_refs := int (length (cs1 @ cs2))\<rparr>))),
       tm_bytes := tm_bytes m - te_bytes e - (if cs1 @ cs2 = [] then tb_bytes x else 0),
       tm_entries := tm_entries m - 1\<rparr>)
     \<and> dll (lk h') None (as @ bs) None \<and> chain (bn h') (first (cs1 @ cs2) None) (cs1 @ cs2)
     \<and> pay h' = (pay (tm_heap m))(p := None) \<and> (\<forall>q. q \<notin> set (cs1 @ p # cs2) \<longrightarrow> bn h' q = bn (tm_heap m) q)"
proof -
  have l: "list_ok m (as @ p # bs)" using inv by (simp add: tm_inv_def)
  let ?m0 = "m\<lparr>tm_by_id := (tm_by_id m)(te_id e := None)\<rparr>"
  obtain h1 where h1: "tool_memory_unlink p ?m0 = Some (?m0\<lparr>tm_heap := h1, tm_head := first (as @ bs) None, tm_tail := final None (as @ bs)\<rparr>)"
    "dll (lk h1) None (as @ bs) None" "unlinked h1 = unlinked (tm_heap m)"
    using unlink_dll [of ?m0 as p bs] l by (auto simp: list_ok_def)
  let ?m1 = "?m0\<lparr>tm_heap := h1, tm_head := first (as @ bs) None, tm_tail := final None (as @ bs)\<rparr>"
  note u1 = unlinked_eq [OF h1(3)]
  obtain h2 where h2: "tool_block_unlink_entry (te_block e) p ?m1
      = Some (?m1\<lparr>tm_heap := h2, tm_blocks := (tm_blocks ?m1)(te_block e \<mapsto> x\<lparr>tb_entries := first (cs1 @ cs2) None\<rparr>)\<rparr>)"
    "chain (bn h2) (first (cs1 @ cs2) None) (cs1 @ cs2)" "unchained h2 = unchained h1"
    "\<forall>q. q \<notin> set (cs1 @ p # cs2) \<longrightarrow> h2 q = h1 q"
    using walk_block [of ?m1 "te_block e" x cs1 p cs2] x cs u1(2) by auto
  note u2 = unchained_eq [OF h2(3)]
  let ?h3 = "h2(p := None)"
  have pn: "p \<notin> set (as @ bs)" "p \<notin> set (cs1 @ cs2)" using l cs(1) by (auto simp: list_ok_def)
  have "dll (lk ?h3) None (as @ bs) None"
    using h1(2) u2(2) pn(1) by (subst dll_frame [where h = "lk h1"]) (auto simp: lk_def fun_eq_iff)
  moreover have "chain (bn ?h3) (first (cs1 @ cs2) None) (cs1 @ cs2)"
    using h2(2) pn(2) by (subst chain_frame [where h = "bn h2"]) (auto simp: bn_def)
  moreover have "pay ?h3 = (pay (tm_heap m))(p := None)"
    using u1(1) u2(1) by (auto simp: fun_eq_iff pay_def)
  moreover have "\<forall>q. q \<notin> set (cs1 @ p # cs2) \<longrightarrow> bn ?h3 q = bn (tm_heap m) q"
    using h2(4) u1(2) by (auto simp: bn_def fun_eq_iff)
  moreover have "0 < tm_entries m" using l by (simp add: list_ok_def)
  moreover have "tool_memory_remove_entry_locked p m = Some (m\<lparr>tm_heap := ?h3, tm_head := first (as @ bs) None,
       tm_tail := final None (as @ bs), tm_by_id := (tm_by_id m)(te_id e := None),
       tm_by_block := (if cs1 @ cs2 = [] then (tm_by_block m)(tb_dsml x := None) else tm_by_block m),
       tm_blocks := (tm_blocks m)(te_block e := (if cs1 @ cs2 = [] then None
         else Some (x\<lparr>tb_entries := first (cs1 @ cs2) None, tb_refs := int (length (cs1 @ cs2))\<rparr>))),
       tm_bytes := tm_bytes m - te_bytes e - (if cs1 @ cs2 = [] then tb_bytes x else 0),
       tm_entries := tm_entries m - 1\<rparr>)" if "0 < tm_entries m"
  proof (cases "cs1 @ cs2 = []")
    case True
    then show ?thesis using e h1(1) h2(1) cs(3) le that
      by (simp add: tool_memory_remove_entry_locked_def tool_memory_release_block_locked_def upd_block_def)
  next
    case False
    then have "0 < int (length cs1) + int (length cs2)" by (cases cs1; cases cs2) simp_all
    then show ?thesis using False e h1(1) h2(1) cs(3) le that
      by (simp add: tool_memory_remove_entry_locked_def tool_memory_release_block_locked_def upd_block_def
          del: first_simps final_simps append_is_Nil_conv)
  qed
  ultimately show ?thesis by (intro exI [of _ ?h3]) blast
qed

lemma dom_pay: "dom (pay h) = dom h"
  by (auto simp: dom_def)

text \<open>The parts of the invariant seen from one entry.\<close>

lemma entry_facts:
  assumes "tm_inv m (as @ p # bs)"
  obtains i b n s x cs1 cs2 where "pay (tm_heap m) p = Some (i, b, n, s)" "tm_blocks m b = Some x"
    "distinct (cs1 @ p # cs2)" "chain (bn (tm_heap m)) (tb_entries x) (cs1 @ p # cs2)"
    "set (cs1 @ p # cs2) = members (tm_heap m) b" "tb_refs x = int (length (cs1 @ p # cs2))"
    "n + tb_bytes x \<le> tm_bytes m"
proof -
  have l: "list_ok m (as @ p # bs)" and sz: "sizes_ok m" and byt: "bytes_ok m"
    and ch: "\<And>b x. tm_blocks m b = Some x \<Longrightarrow> chain_ok (tm_heap m) b x"
    using assms by (simp_all add: tm_inv_def)
  have dh: "p \<in> dom (tm_heap m)" "finite (dom (tm_heap m))" using l by (auto simp: list_ok_def)
  then obtain t where t: "pay (tm_heap m) p = Some t" by (cases "pay (tm_heap m) p") (auto simp: dom_def)
  then obtain i b n s where pp: "pay (tm_heap m) p = Some (i, b, n, s)" by (cases t) auto
  then have "tm_blocks m b \<noteq> None" using sz unfolding sizes_ok_def by blast
  then obtain x where x: "tm_blocks m b = Some x" by blast
  obtain cs where cs: "distinct cs" "chain (bn (tm_heap m)) (tb_entries x) cs" "set cs = members (tm_heap m) b"
    "tb_refs x = int (length cs)" using ch [OF x] by (auto simp: chain_ok_def)
  have "p \<in> set cs" using cs(3) pp by (auto simp: members_def)
  then obtain cs1 cs2 where sp: "cs = cs1 @ p # cs2" by (meson split_list)
  have "pay_bytes (tm_heap m) p \<le> (\<Sum>q\<in>dom (tm_heap m). pay_bytes (tm_heap m) q)"
    using dh by (intro member_le_sum) auto
  moreover have "block_bytes (tm_blocks m) b \<le> (\<Sum>c\<in>dom (tm_blocks m). block_bytes (tm_blocks m) c)"
    using byt x by (intro member_le_sum) (auto simp: bytes_ok_def)
  ultimately have "n + tb_bytes x \<le> tm_bytes m"
    using byt pp x by (simp add: bytes_ok_def pay_bytes_def block_bytes_def)
  then show ?thesis using that [OF pp x] cs sp by auto
qed

lemma ids_remove:
  assumes "ids_ok m" "pay (tm_heap m) p = Some (i, b, n, s)" "pay h' = (pay (tm_heap m))(p := None)"
    "tm_by_id m' = (tm_by_id m)(i := None)" "tm_heap m' = h'"
  shows "ids_ok m'"
proof -
  have ids: "tm_by_id m j = Some q \<longleftrightarrow> (\<exists>b n s. pay (tm_heap m) q = Some (j, b, n, s))" for j q
    using assms(1) by (simp add: ids_ok_def)
  have "tm_by_id m' j = Some q \<longleftrightarrow> (\<exists>b n s. pay h' q = Some (j, b, n, s))" for j q
  proof (cases "j = i")
    case True
    have "tm_by_id m i = Some p" using ids assms(2) by blast
    then have "q = p" if "pay (tm_heap m) q = Some (i, b', n', s')" for b' n' s' using ids [of i q] that by auto
    then show ?thesis using True assms(3,4) by auto
  next
    case False
    then show ?thesis using ids [of j q] assms(2-4) by (cases "q = p") auto
  qed
  then show ?thesis using assms(5) by (simp add: ids_ok_def)
qed

lemma chain_other:
  assumes "chain_ok h c y" "c \<noteq> b" "pay h' = (pay h)(p := None)" "pay h p = Some (i, b, n, s)"
    and "\<forall>q. q \<notin> members h b \<longrightarrow> bn h' q = bn h q"
  shows "chain_ok h' c y"
proof -
  obtain cs where cs: "cs \<noteq> []" "distinct cs" "chain (bn h) (tb_entries y) cs" "set cs = members h c" "tb_refs y = int (length cs)"
    using assms(1) by (auto simp: chain_ok_def)
  have "members h' c = members h c" using assms(2-4) by (auto simp: members_def)
  moreover have "\<forall>q\<in>set cs. bn h' q = bn h q" using cs(4) assms(2,5) by (auto simp: members_def)
  ultimately show ?thesis using cs chain_frame [of cs "bn h'" "bn h"] by (auto simp: chain_ok_def)
qed

lemma pay_bytes_remove:
  assumes "pay h' = (pay h)(p := None)" "pay h p = Some (i, b, n, s)" "finite (dom h)"
  shows "(\<Sum>q\<in>dom h. pay_bytes h q) = n + (\<Sum>q\<in>dom h'. pay_bytes h' q)"
proof -
  have d: "dom h' = dom h - {p}" "p \<in> dom h" using assms(1,2) by (simp add: dom_pay [symmetric]) (use assms(2) dom_pay in blast)
  have "pay_bytes h' q = pay_bytes h q" if "q \<noteq> p" for q using assms(1) that by (simp add: pay_bytes_def)
  then have "(\<Sum>q\<in>dom h'. pay_bytes h' q) = (\<Sum>q\<in>dom h - {p}. pay_bytes h q)" unfolding d(1) by (intro sum.cong) auto
  moreover have "pay_bytes h p = n" using assms(2) by (simp add: pay_bytes_def)
  ultimately show ?thesis using sum.remove [OF assms(3) d(2), of "pay_bytes h"] by simp
qed

lemma sum_upd_None:
  assumes "finite (dom bl)" "bl b = Some x"
  shows "(\<Sum>c\<in>dom bl. block_bytes bl c) = tb_bytes x + (\<Sum>c\<in>dom (bl(b := None)). block_bytes (bl(b := None)) c)"
proof -
  have d: "b \<in> dom bl" "dom (bl(b := None)) = dom bl - {b}" using assms(2) by auto
  have "(\<Sum>c\<in>dom (bl(b := None)). block_bytes (bl(b := None)) c) = (\<Sum>c\<in>dom bl - {b}. block_bytes bl c)"
    unfolding d(2) by (intro sum.cong) (auto simp: block_bytes_def)
  then show ?thesis using sum.remove [OF assms(1) d(1), of "block_bytes bl"] assms(2) by (simp add: block_bytes_def)
qed

lemma sum_upd_same:
  assumes "bl b = Some x" "tb_bytes y = tb_bytes x"
  shows "(\<Sum>c\<in>dom (bl(b \<mapsto> y)). block_bytes (bl(b \<mapsto> y)) c) = (\<Sum>c\<in>dom bl. block_bytes bl c)"
  using assms by (intro sum.cong) (auto simp: block_bytes_def)

lemma blocks_remove:
  assumes "blocks_ok m" "tm_blocks m b = Some x"
    and "tm_by_block m' = (if l then (tm_by_block m)(tb_dsml x := None) else tm_by_block m)"
    and "tm_blocks m' = (tm_blocks m)(b := (if l then None else Some y))" "tb_dsml y = tb_dsml x"
  shows "blocks_ok m'"
proof -
  have bls: "tm_by_block m d = Some c \<longleftrightarrow> (\<exists>x. tm_blocks m c = Some x \<and> tb_dsml x = d)" for d c
    using assms(1) by (simp add: blocks_ok_def)
  have inj: "c = b" if "tm_blocks m c = Some z" "tb_dsml z = tb_dsml x" for c z
  proof -
    have "tm_by_block m (tb_dsml x) = Some c" "tm_by_block m (tb_dsml x) = Some b" using bls that assms(2) by blast+
    then show ?thesis by simp
  qed
  have uq: "d = tb_dsml x \<longleftrightarrow> c = b" if dc: "tm_by_block m d = Some c" for d c
  proof -
    obtain z where z: "tm_blocks m c = Some z" "tb_dsml z = d" using bls dc by blast
    show ?thesis using inj [OF z(1)] z assms(2) by auto
  qed
  have "tm_by_block m' d = Some c \<longleftrightarrow> (\<exists>z. tm_blocks m' c = Some z \<and> tb_dsml z = d)" for d c
    using bls [of d c] uq [of d c] assms(2) unfolding assms(3,4) by (cases l; cases "c = b") (auto simp: assms(5))
  then show ?thesis by (simp add: blocks_ok_def)
qed

text \<open>Removing keeps the invariant and takes exactly the entry out of the content.\<close>

lemma remove_inv:
  assumes inv: "tm_inv m (as @ p # bs)"
  shows "\<exists>m'. tool_memory_remove_entry_locked p m = Some m' \<and> tm_inv m' (as @ bs)
    \<and> content m' (as @ bs) = content m as @ content m bs
    \<and> dom (tm_heap m') = dom (tm_heap m) - {p} \<and> dom (tm_blocks m') \<subseteq> dom (tm_blocks m)
    \<and> tm_max_entries m' = tm_max_entries m \<and> tm_max_bytes m' = tm_max_bytes m"
proof -
  obtain i b n s x cs1 cs2 where pp: "pay (tm_heap m) p = Some (i, b, n, s)" and x: "tm_blocks m b = Some x"
    and cs: "distinct (cs1 @ p # cs2)" "chain (bn (tm_heap m)) (tb_entries x) (cs1 @ p # cs2)"
    "set (cs1 @ p # cs2) = members (tm_heap m) b" "tb_refs x = int (length (cs1 @ p # cs2))"
    and le: "n + tb_bytes x \<le> tm_bytes m" using entry_facts [OF inv] by metis
  obtain e where e: "tm_heap m p = Some e" "te_id e = i" "te_block e = b" "te_bytes e = n" using pp by (auto simp: pay_Some)
  have lst: "list_ok m (as @ p # bs)" and ids: "ids_ok m" and bls: "blocks_ok m" and sz: "sizes_ok m" and byt: "bytes_ok m"
    and ch: "\<And>b x. tm_blocks m b = Some x \<Longrightarrow> chain_ok (tm_heap m) b x" using inv by (simp_all add: tm_inv_def)
  let ?last = "cs1 @ cs2 = []"
  let ?x' = "x\<lparr>tb_entries := first (cs1 @ cs2) None, tb_refs := int (length (cs1 @ cs2))\<rparr>"
  let ?bl = "(tm_blocks m)(b := (if ?last then None else Some ?x'))"
  have le': "te_bytes e + (if ?last then tb_bytes x else 0) \<le> tm_bytes m" using le e(4) by simp
  have xe: "tm_blocks m (te_block e) = Some x" using x e(3) by simp
  obtain h' where h': "tool_memory_remove_entry_locked p m = Some (m\<lparr>tm_heap := h', tm_head := first (as @ bs) None,
       tm_tail := final None (as @ bs), tm_by_id := (tm_by_id m)(i := None),
       tm_by_block := (if ?last then (tm_by_block m)(tb_dsml x := None) else tm_by_block m), tm_blocks := ?bl,
       tm_bytes := tm_bytes m - n - (if ?last then tb_bytes x else 0), tm_entries := tm_entries m - 1\<rparr>)"
    "dll (lk h') None (as @ bs) None" "chain (bn h') (first (cs1 @ cs2) None) (cs1 @ cs2)"
    "pay h' = (pay (tm_heap m))(p := None)" "\<forall>q. q \<notin> set (cs1 @ p # cs2) \<longrightarrow> bn h' q = bn (tm_heap m) q"
    using remove_result [OF inv e(1) xe cs(1,2,4) le'] unfolding e(2-4) by blast
  define m' where "m' = m\<lparr>tm_heap := h', tm_head := first (as @ bs) None,
       tm_tail := final None (as @ bs), tm_by_id := (tm_by_id m)(i := None),
       tm_by_block := (if ?last then (tm_by_block m)(tb_dsml x := None) else tm_by_block m), tm_blocks := ?bl,
       tm_bytes := tm_bytes m - n - (if ?last then tb_bytes x else 0), tm_entries := tm_entries m - 1\<rparr>"
  have m': "tm_heap m' = h'" "tm_head m' = first (as @ bs) None" "tm_tail m' = final None (as @ bs)"
    "tm_by_id m' = (tm_by_id m)(i := None)" "tm_by_block m' = (if ?last then (tm_by_block m)(tb_dsml x := None) else tm_by_block m)"
    "tm_blocks m' = ?bl" "tm_bytes m' = tm_bytes m - n - (if ?last then tb_bytes x else 0)" "tm_entries m' = tm_entries m - 1"
    "tm_max_entries m' = tm_max_entries m" "tm_max_bytes m' = tm_max_bytes m" "tm_scan_clock m' = tm_scan_clock m"
    by (simp_all add: m'_def)
  have dh: "dom h' = dom (tm_heap m) - {p}" by (simp add: dom_pay [symmetric] h'(4))
  have "list_ok m' (as @ bs)"
    unfolding list_ok_def m' using lst h'(2) dh by (auto simp: list_ok_def)
  moreover have "ids_ok m'" by (rule ids_remove [OF ids pp h'(4) m'(4,1)])
  moreover have "blocks_ok m'" by (rule blocks_remove [OF bls x m'(5,6)]) simp
  moreover have "chain_ok (tm_heap m') c y" if y: "tm_blocks m' c = Some y" for c y
  proof (cases "c = b")
    case True
    then have "\<not> ?last" "y = ?x'" using y m'(6) by (simp_all split: if_splits)
    moreover have "members h' b = members (tm_heap m) b - {p}" using h'(4) by (auto simp: members_def)
    then have "set (cs1 @ cs2) = members h' b" using cs(1,3) by auto
    ultimately show ?thesis using h'(3) cs(1) unfolding chain_ok_def True m'(1)
      by (intro exI [of _ "cs1 @ cs2"]) (auto simp del: first_simps)
  next
    case False
    then have "tm_blocks m c = Some y" using y m'(6) by simp
    then show ?thesis unfolding m'(1) using chain_other [OF ch False h'(4) pp] h'(5) cs(3) by blast
  qed
  moreover have "sizes_ok m'"
  proof -
    have "\<not> ?last" if "pay (tm_heap m) q = Some (j, b, k, t)" "q \<noteq> p" for q j k t
    proof -
      have "q \<in> set (cs1 @ p # cs2)" unfolding cs(3) members_def using that(1) by blast
      then show ?thesis using that(2) by auto
    qed
    then have nl: "c = b \<Longrightarrow> \<not> ?last" if "pay (tm_heap m) q = Some (j, c, k, t)" "q \<noteq> p" for q j c k t using that by metis
    have ss: "tm_blocks m c \<noteq> None \<and> k = length j + 1 + sizeof_entry \<and> j \<noteq> []"
      if "pay (tm_heap m) q = Some (j, c, k, t)" for q j c k t using sz that unfolding sizes_ok_def by blast
    have "tm_blocks m' c \<noteq> None \<and> k = length j + 1 + sizeof_entry \<and> j \<noteq> []"
      if "pay h' q = Some (j, c, k, t)" for q j c k t
    proof -
      have q: "q \<noteq> p" "pay (tm_heap m) q = Some (j, c, k, t)" using that h'(4) by (auto split: if_splits)
      show ?thesis using nl [OF q(2,1)] ss [OF q(2)] m'(6) by (cases "c = b") simp_all
    qed
    moreover have "tb_bytes y = length (tb_dsml y) + 1 + sizeof_block \<and> tb_dsml y \<noteq> [] \<and> tb_seen y \<le> tm_scan_clock m'"
      if "tm_blocks m' c = Some y" for c y using that sz x m'(6,11) by (auto simp: sizes_ok_def split: if_splits)
    ultimately show ?thesis unfolding sizes_ok_def m'(1) by blast
  qed
  moreover have "bytes_ok m'"
  proof -
    have fin: "finite (dom (tm_heap m))" "finite (dom (tm_blocks m))" using lst byt by (auto simp: list_ok_def bytes_ok_def)
    have "(\<Sum>c\<in>dom (tm_blocks m). block_bytes (tm_blocks m) c) = (if ?last then tb_bytes x else 0) + (\<Sum>c\<in>dom ?bl. block_bytes ?bl c)"
    proof (cases ?last)
      case True
      then show ?thesis using sum_upd_None [where bl = "tm_blocks m", OF fin(2) x] by simp
    next
      case False
      then show ?thesis using sum_upd_same [where bl = "tm_blocks m" and y = ?x', OF x] by (simp del: append_is_Nil_conv first_simps)
    qed
    moreover have "finite (dom ?bl)" using fin(2) by (rule finite_subset [rotated]) (auto simp: x split: if_splits)
    ultimately show ?thesis using byt pay_bytes_remove [OF h'(4) pp fin(1)] unfolding bytes_ok_def m'(1,6,7) by simp
  qed
  ultimately have "tm_inv m' (as @ bs)" by (simp add: tm_inv_def)
  moreover have "view m' q = view m q" if "q \<in> set (as @ bs)" for q
  proof -
    have qp: "q \<noteq> p" using that lst by (auto simp: list_ok_def)
    have "tm_blocks m' c = tm_blocks m c \<or> (\<exists>y. tm_blocks m' c = Some y \<and> tm_blocks m c = Some x \<and> tb_dsml y = tb_dsml x)"
      if "pay (tm_heap m) q = Some (j, c, k, t)" for j c k t
    proof (cases "c = b")
      case True
      have "q \<in> set (cs1 @ p # cs2)" unfolding cs(3) members_def using that True by blast
      then have "\<not> ?last" using qp by auto
      then show ?thesis using True x m'(6) by simp
    qed (simp add: m'(6))
    then show ?thesis unfolding view_def m'(1) h'(4) using qp by (auto simp del: pay_None split: option.splits)
  qed
  then have "content m' (as @ bs) = content m as @ content m bs" by (simp add: content_def)
  moreover have "dom (tm_blocks m') \<subseteq> dom (tm_blocks m)" using x m'(6) by (auto split: if_splits)
  ultimately show ?thesis using h'(1) dh m'(1,9,10) unfolding m'_def [symmetric] by (intro exI [of _ m']) simp
qed

end
