(* ===== verification/ToolMemorySpec.thy ===== *)
theory ToolMemorySpec
  imports ToolMemoryOps
begin

text \<open>
  The abstract tool memory: a list of (id, text, source), the most recently used first, with the count
  and byte limits applied from the back; and the operations that relink without removing: the touch and
  the insertion of an entry.
\<close>

section \<open>The abstract memory\<close>

definition item_bytes :: "item \<Rightarrow> nat" where
  "item_bytes it = length (fst it) + 1 + sizeof_entry"

definition text_bytes :: "string \<Rightarrow> nat" where
  "text_bytes d = length d + 1 + sizeof_block"

text \<open>A text that several entries share is paid once.\<close>

definition spec_bytes :: "item list \<Rightarrow> nat" where
  "spec_bytes its = sum_list (map item_bytes its) + (\<Sum>d\<in>(\<lambda>it. fst (snd it)) ` set its. text_bytes d)"

definition spec_over :: "int \<Rightarrow> nat \<Rightarrow> item list \<Rightarrow> bool" where
  "spec_over n b its \<longleftrightarrow> n < int (length its) \<or> b < spec_bytes its"

fun spec_prune :: "int \<Rightarrow> nat \<Rightarrow> item list \<Rightarrow> item list" where
  "spec_prune n b its = (if its = [] \<or> \<not> spec_over n b its then its else spec_prune n b (butlast its))"

declare spec_prune.simps [simp del]

definition without :: "string \<Rightarrow> item list \<Rightarrow> item list" where
  "without i its = filter (\<lambda>it. fst it \<noteq> i) its"

definition spec_put :: "int \<Rightarrow> nat \<Rightarrow> string \<Rightarrow> string \<Rightarrow> tool_memory_source \<Rightarrow> item list \<Rightarrow> item list" where
  "spec_put n b i d s its =
     (if i = [] \<or> d = [] then its
      else spec_prune n b ((i, d, (case map_of its i of
              Some (d0, s0) \<Rightarrow> if d0 = d \<and> s = TOOL_MEMORY_DISK then s0 else s | None \<Rightarrow> s)) # without i its))"

definition spec_lookup :: "string \<Rightarrow> item list \<Rightarrow> (tool_memory_source \<times> string) option \<times> item list" where
  "spec_lookup i its =
     (if i = [] then (None, its)
      else case map_of its i of None \<Rightarrow> (None, its) | Some (d, s) \<Rightarrow> (Some (s, d), (i, d, s) # without i its))"

lemma spec_prune_within: "spec_prune n b its = [] \<or> \<not> spec_over n b (spec_prune n b its)"
  by (induction n b its rule: spec_prune.induct) (subst (1 2) spec_prune.simps, simp)

lemma spec_prune_prefix: "\<exists>ys. its = spec_prune n b its @ ys"
proof (induction n b its rule: spec_prune.induct)
  case (1 n b its)
  show ?case
  proof (cases "its = [] \<or> \<not> spec_over n b its")
    case True
    then show ?thesis by (simp add: spec_prune.simps)
  next
    case False
    then obtain ys where "butlast its = spec_prune n b (butlast its) @ ys" using 1 by auto
    then have "its = spec_prune n b (butlast its) @ ys @ [last its]"
      using False by (metis append.assoc append_butlast_last_id)
    then show ?thesis using False by (subst spec_prune.simps) (auto intro: exI [of _ "ys @ [last its]"])
  qed
qed

section \<open>The invariant determines the lookups and the bytes\<close>

lemma pay_of:
  assumes "tm_inv m xs" "p \<in> set xs"
  obtains i b s x where "pay (tm_heap m) p = Some (i, b, length i + 1 + sizeof_entry, s)" "tm_blocks m b = Some x"
    "view m p = (i, tb_dsml x, s)" "i \<noteq> []" "tb_dsml x \<noteq> []" "tm_by_id m i = Some p"
proof -
  have l: "list_ok m xs" and sz: "sizes_ok m" and ids: "ids_ok m" using assms(1) by (simp_all add: tm_inv_def)
  obtain e where e: "tm_heap m p = Some e" using l assms(2) by (auto simp: list_ok_def)
  then have pp: "pay (tm_heap m) p = Some (te_id e, te_block e, te_bytes e, te_source e)" by (simp add: pay_def)
  have s1: "tm_blocks m (te_block e) \<noteq> None" "te_bytes e = length (te_id e) + 1 + sizeof_entry" "te_id e \<noteq> []"
    using sz pp unfolding sizes_ok_def by blast+
  then obtain x where x: "tm_blocks m (te_block e) = Some x" by blast
  have "tb_dsml x \<noteq> []" using sz x by (auto simp: sizes_ok_def)
  moreover have "tm_by_id m (te_id e) = Some p" using ids pp unfolding ids_ok_def by blast
  ultimately show ?thesis using that [of "te_id e" "te_block e" "te_source e" x] pp s1 x by (simp add: view_def)
qed

lemma by_id_iff:
  assumes "tm_inv m xs"
  shows "tm_by_id m i = Some p \<longleftrightarrow> p \<in> set xs \<and> fst (view m p) = i"
proof
  assume "tm_by_id m i = Some p"
  then obtain b n s where pp: "pay (tm_heap m) p = Some (i, b, n, s)"
    using assms unfolding tm_inv_def ids_ok_def by blast
  then have "p \<in> dom (tm_heap m)" by (auto simp: pay_Some)
  then have "p \<in> set xs" using assms by (simp add: tm_inv_def list_ok_def)
  then show "p \<in> set xs \<and> fst (view m p) = i" using pp by (simp add: view_def)
next
  assume "p \<in> set xs \<and> fst (view m p) = i"
  then show "tm_by_id m i = Some p" by (metis assms fst_conv pay_of)
qed

lemma content_ids:
  assumes "tm_inv m xs"
  shows "distinct (map fst (content m xs))"
proof -
  have "distinct xs" using assms by (simp add: tm_inv_def list_ok_def)
  moreover have "inj_on (\<lambda>p. fst (view m p)) (set xs)"
    by (rule inj_onI) (metis assms by_id_iff option.inject)
  ultimately show ?thesis by (simp add: content_def distinct_map comp_def)
qed

lemma content_find:
  assumes "tm_inv m xs"
  shows "map_of (content m xs) i = map_option (\<lambda>p. snd (view m p)) (tm_by_id m i)"
proof (cases "tm_by_id m i")
  case None
  then have "i \<notin> fst ` set (content m xs)" using by_id_iff [OF assms] by (auto simp: content_def) (metis option.distinct(1))
  then show ?thesis using None by (simp add: map_of_eq_None_iff)
next
  case (Some p)
  then have "(i, snd (view m p)) \<in> set (content m xs)" using by_id_iff [OF assms] by (auto simp: content_def image_iff intro!: bexI [of _ p])
  then show ?thesis using Some content_ids [OF assms] by simp
qed

lemma inj_texts:
  assumes "tm_inv m xs"
  shows "inj_on (\<lambda>b. tb_dsml (the (tm_blocks m b))) (dom (tm_blocks m))"
proof (rule inj_onI)
  fix b c assume a: "b \<in> dom (tm_blocks m)" "c \<in> dom (tm_blocks m)"
    "tb_dsml (the (tm_blocks m b)) = tb_dsml (the (tm_blocks m c))"
  then obtain x y where xy: "tm_blocks m b = Some x" "tm_blocks m c = Some y" by auto
  then have "tm_by_block m (tb_dsml x) = Some b" "tm_by_block m (tb_dsml x) = Some c"
    using assms a(3) unfolding tm_inv_def blocks_ok_def by auto
  then show "b = c" by simp
qed

lemma texts_of_content:
  assumes "tm_inv m xs"
  shows "(\<lambda>it. fst (snd it)) ` set (content m xs) = (\<lambda>b. tb_dsml (the (tm_blocks m b))) ` dom (tm_blocks m)" (is "?l = ?r")
proof
  show "?l \<subseteq> ?r"
  proof
    fix d assume "d \<in> ?l"
    then obtain p where p: "p \<in> set xs" "d = fst (snd (view m p))" by (auto simp: content_def)
    obtain i b s x where "pay (tm_heap m) p = Some (i, b, length i + 1 + sizeof_entry, s)" "tm_blocks m b = Some x"
      "view m p = (i, tb_dsml x, s)" using pay_of [OF assms p(1)] by metis
    then show "d \<in> ?r" using p(2) by (auto intro!: image_eqI [of _ _ b])
  qed
next
  show "?r \<subseteq> ?l"
  proof
    fix d assume "d \<in> ?r"
    then obtain b x where x: "tm_blocks m b = Some x" "d = tb_dsml x" by auto
    then have "chain_ok (tm_heap m) b x" using assms by (simp add: tm_inv_def)
    then obtain p where "p \<in> members (tm_heap m) b" unfolding chain_ok_def by (metis list.set_sel(1))
    then obtain i n s where pp: "pay (tm_heap m) p = Some (i, b, n, s)" by (auto simp: members_def)
    then have "p \<in> dom (tm_heap m)" by (auto simp: pay_Some)
    then have "p \<in> set xs" using assms by (simp add: tm_inv_def list_ok_def)
    moreover have "view m p = (i, d, s)" using pp x by (simp add: view_def)
    ultimately show "d \<in> ?l" by (force simp: content_def)
  qed
qed

lemma bytes_content:
  assumes "tm_inv m xs"
  shows "tm_bytes m = spec_bytes (content m xs)"
proof -
  have l: "dom (tm_heap m) = set xs" "distinct xs" and byt: "bytes_ok m" and sz: "sizes_ok m"
    using assms by (simp_all add: tm_inv_def list_ok_def)
  have "pay_bytes (tm_heap m) p = item_bytes (view m p)" if "p \<in> set xs" for p
    using pay_of [OF assms that] by (metis fst_conv item_bytes_def option.simps(5) old.prod.case pay_bytes_def)
  then have "(\<Sum>p\<in>dom (tm_heap m). pay_bytes (tm_heap m) p) = sum_list (map item_bytes (content m xs))"
    unfolding l(1) content_def using l(2) by (simp add: sum.distinct_set_conv_list comp_def)
  moreover have "(\<Sum>b\<in>dom (tm_blocks m). block_bytes (tm_blocks m) b)
      = (\<Sum>b\<in>dom (tm_blocks m). text_bytes (tb_dsml (the (tm_blocks m b))))"
    using sz by (intro sum.cong) (auto simp: block_bytes_def text_bytes_def sizes_ok_def)
  then have "(\<Sum>b\<in>dom (tm_blocks m). block_bytes (tm_blocks m) b)
      = (\<Sum>d\<in>(\<lambda>it. fst (snd it)) ` set (content m xs). text_bytes d)"
    unfolding texts_of_content [OF assms] sum.reindex [OF inj_texts [OF assms]] by (simp add: comp_def)
  ultimately show ?thesis using byt by (simp add: bytes_ok_def spec_bytes_def)
qed

lemma over_content:
  assumes "tm_inv m xs"
  shows "over_limit m = spec_over (tool_memory_max_entries m) (tool_memory_max_bytes m) (content m xs)"
proof -
  have "tm_entries m = int (length (content m xs))" using assms by (simp add: tm_inv_def list_ok_def content_def)
  then show ?thesis using bytes_content [OF assms] by (simp add: over_limit_def spec_over_def)
qed

section \<open>Relinking\<close>

text \<open>The rest of the invariant looks only at what entries hold and at the chains.\<close>

lemma inv_relink:
  assumes "tm_inv m xs" "pay (tm_heap m') = pay (tm_heap m)" "bn (tm_heap m') = bn (tm_heap m)"
    and "tm_blocks m' = tm_blocks m" "tm_by_id m' = tm_by_id m" "tm_by_block m' = tm_by_block m" "tm_bytes m' = tm_bytes m"
    and "tm_scan_clock m' = tm_scan_clock m" "list_ok m' ys"
  shows "tm_inv m' ys"
proof -
  have "dom (tm_heap m') = dom (tm_heap m)" by (metis assms(2) dom_pay)
  moreover have "pay_bytes (tm_heap m') = pay_bytes (tm_heap m)" by (simp add: fun_eq_iff pay_bytes_def assms(2))
  ultimately show ?thesis using assms(1,9)
    by (simp add: tm_inv_def ids_ok_def blocks_ok_def sizes_ok_def bytes_ok_def chain_ok_def members_def assms(2-8))
qed

lemma view_relink:
  assumes "pay (tm_heap m') = pay (tm_heap m)" "tm_blocks m' = tm_blocks m"
  shows "view m' = view m"
  unfolding view_def assms ..

lemma move_front:
  assumes l: "list_ok m (as @ p # bs)"
  shows "\<exists>h. Option.bind (tool_memory_unlink p m) (tool_memory_link_head p)
      = Some (m\<lparr>tm_heap := h, tm_head := Some p, tm_tail := final None (p # as @ bs)\<rparr>)
    \<and> unlinked h = unlinked (tm_heap m)
    \<and> list_ok (m\<lparr>tm_heap := h, tm_head := Some p, tm_tail := final None (p # as @ bs)\<rparr>) (p # as @ bs)"
proof -
  obtain h2 where h2: "tool_memory_unlink p m = Some (m\<lparr>tm_heap := h2, tm_head := first (as @ bs) None, tm_tail := final None (as @ bs)\<rparr>)"
    "dll (lk h2) None (as @ bs) None" "unlinked h2 = unlinked (tm_heap m)"
    using unlink_dll [of m as p bs] l by (auto simp: list_ok_def)
  define m2 where "m2 = m\<lparr>tm_heap := h2, tm_head := first (as @ bs) None, tm_tail := final None (as @ bs)\<rparr>"
  have m2: "tm_heap m2 = h2" "tm_head m2 = first (as @ bs) None" "tm_tail m2 = final None (as @ bs)" by (simp_all add: m2_def)
  have d2: "dom h2 = dom (tm_heap m)" using unlinked_eq(1) [OF h2(3)] by (metis dom_pay)
  then have "p \<in> dom h2" using l by (simp add: list_ok_def)
  then obtain e2 where e2: "tm_heap m2 p = Some e2" unfolding m2 by blast
  obtain h3 where h3: "tool_memory_link_head p m2 = Some (m2\<lparr>tm_heap := h3, tm_head := Some p, tm_tail := final None (p # as @ bs)\<rparr>)"
    "dll (lk h3) None (p # as @ bs) None" "unlinked h3 = unlinked h2"
    using link_head_dll [of m2 "as @ bs" p e2] h2(2) l m2 e2 by (auto simp: list_ok_def)
  have "m2\<lparr>tm_heap := h3, tm_head := Some p, tm_tail := final None (p # as @ bs)\<rparr>
      = m\<lparr>tm_heap := h3, tm_head := Some p, tm_tail := final None (p # as @ bs)\<rparr>" by (simp add: m2_def)
  moreover have "dom h3 = dom (tm_heap m)" using unlinked_eq(1) [OF h3(3)] d2 by (metis dom_pay)
  then have "list_ok (m\<lparr>tm_heap := h3, tm_head := Some p, tm_tail := final None (p # as @ bs)\<rparr>) (p # as @ bs)"
    using l h3(2) by (auto simp: list_ok_def)
  moreover have "tool_memory_unlink p m = Some m2" using h2(1) unfolding m2_def .
  ultimately show ?thesis using h2(3) h3(1,3) by (intro exI [of _ h3]) simp
qed

lemma touch_inv:
  assumes "tm_inv m (as @ p # bs)"
  shows "\<exists>m'. tool_memory_touch p m = Some m' \<and> tm_inv m' (p # as @ bs) \<and> view m' = view m
    \<and> pay (tm_heap m') = pay (tm_heap m) \<and> tm_blocks m' = tm_blocks m
    \<and> tm_max_entries m' = tm_max_entries m \<and> tm_max_bytes m' = tm_max_bytes m"
proof -
  have l: "list_ok m (as @ p # bs)" using assms by (simp add: tm_inv_def)
  have "p \<in> dom (tm_heap m)" using l by (simp add: list_ok_def)
  then obtain e where e: "tm_heap m p = Some e" by blast
  let ?h1 = "(tm_heap m)(p \<mapsto> e\<lparr>te_stamp := Suc (tm_clock m)\<rparr>)"
  define m1 where "m1 = m\<lparr>tm_clock := Suc (tm_clock m), tm_heap := ?h1\<rparr>"
  have m1: "tm_heap m1 = ?h1" "tm_head m1 = tm_head m" "tm_tail m1 = tm_tail m" "tm_blocks m1 = tm_blocks m"
    "tm_by_id m1 = tm_by_id m" "tm_by_block m1 = tm_by_block m" "tm_bytes m1 = tm_bytes m" "tm_entries m1 = tm_entries m"
    "tm_max_entries m1 = tm_max_entries m" "tm_max_bytes m1 = tm_max_bytes m" "tm_scan_clock m1 = tm_scan_clock m"
    by (simp_all add: m1_def)
  have p1: "pay ?h1 = pay (tm_heap m)" "bn ?h1 = bn (tm_heap m)" "lk ?h1 = lk (tm_heap m)" "dom ?h1 = dom (tm_heap m)"
    using e by (auto simp: fun_eq_iff pay_def bn_def lk_def)
  have up: "upd_entry p (\<lambda>e. e\<lparr>te_stamp := Suc (tm_clock m)\<rparr>) (m\<lparr>tm_clock := Suc (tm_clock m)\<rparr>) = Some m1"
    using e by (simp add: upd_entry_def m1_def)
  have l1: "list_ok m1 (as @ p # bs)" using l unfolding list_ok_def m1 p1 by simp
  show ?thesis
  proof (cases "tm_head m1 = Some p")
    case True
    then have "as = []" using l1 by (cases as) (auto simp: list_ok_def)
    moreover have "tm_inv m1 (as @ p # bs)" by (rule inv_relink [OF assms]) (simp_all only: m1 p1 l1)
    moreover have "view m1 = view m" by (rule view_relink) (simp_all only: m1 p1)
    moreover have "tool_memory_touch p m = Some m1" by (simp add: tool_memory_touch_def up True)
    ultimately show ?thesis using m1 p1 by auto
  next
    case False
    obtain h where h: "Option.bind (tool_memory_unlink p m1) (tool_memory_link_head p)
        = Some (m1\<lparr>tm_heap := h, tm_head := Some p, tm_tail := final None (p # as @ bs)\<rparr>)"
      "unlinked h = unlinked (tm_heap m1)"
      "list_ok (m1\<lparr>tm_heap := h, tm_head := Some p, tm_tail := final None (p # as @ bs)\<rparr>) (p # as @ bs)"
      using move_front [OF l1] by blast
    let ?m3 = "m1\<lparr>tm_heap := h, tm_head := Some p, tm_tail := final None (p # as @ bs)\<rparr>"
    have p3: "pay h = pay (tm_heap m)" "bn h = bn (tm_heap m)" using unlinked_eq(1,2) [OF h(2)] m1(1) p1 by simp_all
    have "tm_inv ?m3 (p # as @ bs)" by (rule inv_relink [OF assms _ _ _ _ _ _ _ h(3)]) (simp_all add: m1(4-7,11) p3)
    moreover have "view ?m3 = view m" by (rule view_relink) (simp_all add: m1(4) p3)
    moreover have "tool_memory_touch p m = Some ?m3"
      using False h(1) by (simp add: tool_memory_touch_def up)
    ultimately show ?thesis using m1 p3 by (intro exI [of _ ?m3]) simp
  qed
qed

section \<open>Adding an entry\<close>

lemma get_block_dom:
  "tool_memory_get_block_locked dsml pb m = (b, m1) \<Longrightarrow> dom (tm_blocks m1) \<subseteq> insert pb (dom (tm_blocks m))"
  by (auto simp: tool_memory_get_block_locked_def Let_def split: option.splits)

lemma sum_new:
  assumes "finite A" "p \<notin> A" "f p = n" "\<forall>q\<in>A. f q = g q"
  shows "(\<Sum>q\<in>insert p A. f q) = n + (\<Sum>q\<in>A. (g q :: nat))"
  using assms by (simp cong: sum.cong)

text \<open>The block an entry is added to: it may be new, with no entries yet.\<close>

definition block_ok :: "tool_memory \<Rightarrow> ptr \<Rightarrow> tool_memory_block \<Rightarrow> bool" where
  "block_ok m b x \<longleftrightarrow> tm_blocks m b = Some x \<and> (\<exists>cs. distinct cs \<and> chain (bn (tm_heap m)) (tb_entries x) cs
     \<and> set cs = members (tm_heap m) b \<and> tb_refs x = int (length cs))
     \<and> (\<forall>c y. c \<noteq> b \<longrightarrow> tm_blocks m c = Some y \<longrightarrow> chain_ok (tm_heap m) c y)"

lemma get_block:
  assumes inv: "tm_inv m xs" and d: "dsml \<noteq> []" and pb: "pb \<notin> dom (tm_blocks m)"
    and g: "tool_memory_get_block_locked dsml pb m = (b, m1)"
  shows "\<exists>x. block_ok m1 b x \<and> tb_dsml x = dsml \<and> blocks_ok m1 \<and> sizes_ok m1 \<and> bytes_ok m1
    \<and> (\<forall>p\<in>set xs. view m1 p = view m p)
    \<and> (\<exists>bl bb n. m1 = m\<lparr>tm_blocks := bl, tm_by_block := bb, tm_bytes := n\<rparr>)"
proof (cases "tm_by_block m dsml")
  case (Some c)
  then have c: "b = c" "m1 = m" using g d by (simp_all add: tool_memory_get_block_locked_def tool_memory_find_block_locked_def)
  obtain x where x: "tm_blocks m c = Some x" "tb_dsml x = dsml" using inv Some unfolding tm_inv_def blocks_ok_def by blast
  have ch: "chain_ok (tm_heap m) a y" if "tm_blocks m a = Some y" for a y using inv that by (simp add: tm_inv_def)
  have "block_ok m c x" using x ch ch [OF x(1)] unfolding block_ok_def chain_ok_def by metis
  moreover have "m = m\<lparr>tm_blocks := tm_blocks m, tm_by_block := tm_by_block m, tm_bytes := tm_bytes m\<rparr>" by simp
  ultimately show ?thesis using inv x(2) unfolding c tm_inv_def by blast
next
  case None
  let ?x = "\<lparr>tb_dsml = dsml, tb_bytes = length dsml + 1 + sizeof_block, tb_refs = 0, tb_seen = 0, tb_entries = None\<rparr>"
  let ?m1 = "m\<lparr>tm_blocks := (tm_blocks m)(pb \<mapsto> ?x), tm_by_block := (tm_by_block m)(dsml \<mapsto> pb), tm_bytes := tm_bytes m + tb_bytes ?x\<rparr>"
  have c: "b = pb" "m1 = ?m1"
    using g d None by (auto simp: tool_memory_get_block_locked_def tool_memory_find_block_locked_def Let_def)
  have bls: "tm_by_block m t = Some a \<longleftrightarrow> (\<exists>x. tm_blocks m a = Some x \<and> tb_dsml x = t)" for t a
    using inv by (simp add: tm_inv_def blocks_ok_def)
  have sz: "sizes_ok m" and byt: "bytes_ok m" and ch: "\<And>a y. tm_blocks m a = Some y \<Longrightarrow> chain_ok (tm_heap m) a y"
    using inv by (simp_all add: tm_inv_def)
  have new: "tm_blocks m pb = None" using pb by blast
  have nb: "a \<noteq> pb" if "pay (tm_heap m) p = Some (i, a, n, s)" for p i a n s
    using sz that new unfolding sizes_ok_def by blast
  have "blocks_ok ?m1"
  proof -
    have "((tm_by_block m)(dsml \<mapsto> pb)) t = Some a \<longleftrightarrow> (\<exists>z. ((tm_blocks m)(pb \<mapsto> ?x)) a = Some z \<and> tb_dsml z = t)" for t a
      using bls [of t a] bls [of dsml a] None new by (cases "a = pb") auto
    then show ?thesis by (simp add: blocks_ok_def)
  qed
  moreover have "sizes_ok ?m1" using sz d nb unfolding sizes_ok_def by simp
  moreover have "(\<Sum>c\<in>insert pb (dom (tm_blocks m)). block_bytes ((tm_blocks m)(pb \<mapsto> ?x)) c)
      = tb_bytes ?x + (\<Sum>c\<in>dom (tm_blocks m). block_bytes (tm_blocks m) c)"
    using byt pb by (intro sum_new) (auto simp: block_bytes_def bytes_ok_def)
  then have "bytes_ok ?m1" using byt by (simp add: bytes_ok_def del: fun_upd_apply)
  moreover have "members (tm_heap m) pb = {}" using nb unfolding members_def by blast
  then have "block_ok ?m1 pb ?x" using ch by (auto simp: block_ok_def intro: exI [of _ "[]"])
  moreover have "\<forall>p\<in>set xs. view ?m1 p = view m p"
  proof
    fix p assume "p \<in> set xs"
    then obtain i a s y where "pay (tm_heap m) p = Some (i, a, length i + 1 + sizeof_entry, s)" "tm_blocks m a = Some y"
      using pay_of [OF inv] by metis
    then show "view ?m1 p = view m p" using nb by (simp add: view_def)
  qed
  ultimately show ?thesis unfolding c by (intro exI [of _ ?x]) auto
qed

text \<open>An entry put at the front of a block with its list and its counts.\<close>

definition with_entry :: "tool_memory \<Rightarrow> ptr \<Rightarrow> tool_memory_entry \<Rightarrow> ptr \<Rightarrow> tool_memory_block \<Rightarrow> heap \<Rightarrow> ptr list \<Rightarrow> tool_memory" where
  "with_entry m pe e b x h xs = m\<lparr>tm_heap := h, tm_blocks := (tm_blocks m)(b \<mapsto> x\<lparr>tb_entries := Some pe, tb_refs := tb_refs x + 1\<rparr>),
     tm_clock := Suc (tm_clock m), tm_by_id := (tm_by_id m)(te_id e \<mapsto> pe), tm_head := Some pe, tm_tail := final None (pe # xs),
     tm_entries := tm_entries m + 1, tm_bytes := tm_bytes m + te_bytes e\<rparr>"

lemma with_entry_fields:
  "tm_heap (with_entry m pe e b x h xs) = h" "tm_head (with_entry m pe e b x h xs) = Some pe"
  "tm_blocks (with_entry m pe e b x h xs) = (tm_blocks m)(b \<mapsto> x\<lparr>tb_entries := Some pe, tb_refs := tb_refs x + 1\<rparr>)"
  "tm_by_id (with_entry m pe e b x h xs) = (tm_by_id m)(te_id e \<mapsto> pe)"
  "tm_by_block (with_entry m pe e b x h xs) = tm_by_block m"
  "tm_tail (with_entry m pe e b x h xs) = final None (pe # xs)"
  "tm_entries (with_entry m pe e b x h xs) = tm_entries m + 1" "tm_bytes (with_entry m pe e b x h xs) = tm_bytes m + te_bytes e"
  "tm_scan_clock (with_entry m pe e b x h xs) = tm_scan_clock m"
  "tm_max_entries (with_entry m pe e b x h xs) = tm_max_entries m" "tm_max_bytes (with_entry m pe e b x h xs) = tm_max_bytes m"
  by (simp_all add: with_entry_def)

lemma with_entry_inv:
  assumes "list_ok m xs" "ids_ok m" "blocks_ok m" "sizes_ok m" "bytes_ok m" and bo: "block_ok m b x"
    and new: "pe \<notin> dom (tm_heap m)" "tm_by_id m (te_id e) = None"
    and e: "te_block e = b" "te_id e \<noteq> []" "te_bytes e = length (te_id e) + 1 + sizeof_entry" "te_block_next e = tb_entries x"
    and h: "pay h = (pay (tm_heap m))(pe \<mapsto> (te_id e, te_block e, te_bytes e, te_source e))"
      "bn h = (bn (tm_heap m))(pe \<mapsto> te_block_next e)" "dll (lk h) None (pe # xs) None"
  shows "tm_inv (with_entry m pe e b x h xs) (pe # xs)"
proof -
  let ?m = "with_entry m pe e b x h xs"
  obtain cs where bx: "tm_blocks m b = Some x" and cs: "distinct cs" "chain (bn (tm_heap m)) (tb_entries x) cs"
    "set cs = members (tm_heap m) b" "tb_refs x = int (length cs)"
    and oth: "\<And>c y. c \<noteq> b \<Longrightarrow> tm_blocks m c = Some y \<Longrightarrow> chain_ok (tm_heap m) c y" using bo by (auto simp: block_ok_def)
  have dh: "dom h = insert pe (dom (tm_heap m))" by (simp add: dom_pay [symmetric] h(1))
  have np: "pe \<notin> members (tm_heap m) c" for c using new(1) by (auto simp: members_def pay_Some)
  have "list_ok ?m (pe # xs)" using assms(1) new(1) h(3) dh unfolding list_ok_def with_entry_fields by auto
  moreover have "ids_ok ?m"
  proof -
    have ids: "tm_by_id m i = Some p \<longleftrightarrow> (\<exists>b n s. pay (tm_heap m) p = Some (i, b, n, s))" for i p
      using assms(2) by (simp add: ids_ok_def)
    have "((tm_by_id m)(te_id e \<mapsto> pe)) i = Some p \<longleftrightarrow> (\<exists>b n s. pay h p = Some (i, b, n, s))" for i p
      using ids [of i p] ids [of "te_id e" p] new unfolding h(1) by (cases "p = pe") (auto simp: pay_Some)
    then show ?thesis by (simp add: ids_ok_def with_entry_fields)
  qed
  moreover have "blocks_ok ?m" using assms(3) bx unfolding blocks_ok_def with_entry_fields by simp
  moreover have "chain_ok (tm_heap ?m) c y" if y: "tm_blocks ?m c = Some y" for c y
  proof (cases "c = b")
    case True
    have "chain (bn h) (Some pe) (pe # cs)"
      using cs(2) chain_first [OF cs(2)] chain_frame [of cs "bn h" "bn (tm_heap m)"] np [of b] cs(3) e(4) h(2) by auto
    moreover have "members h b = insert pe (members (tm_heap m) b)" using e(1) h(1) by (auto simp: members_def)
    moreover have "pe \<notin> set cs" using np cs(3) by simp
    ultimately show ?thesis using y cs(1,3,4) True unfolding chain_ok_def with_entry_fields
      by (intro exI [of _ "pe # cs"]) auto
  next
    case False
    then have "chain_ok (tm_heap m) c y" using oth y by (simp add: with_entry_fields)
    moreover have "members h c = members (tm_heap m) c" using e(1) h(1) False new(1) by (auto simp: members_def pay_Some)
    moreover have "chain (bn h) (tb_entries y) ds = chain (bn (tm_heap m)) (tb_entries y) ds" if "set ds = members (tm_heap m) c" for ds
      using np [of c] h(2) that by (intro chain_frame) auto
    ultimately show ?thesis unfolding chain_ok_def with_entry_fields by metis
  qed
  moreover have "sizes_ok ?m"
  proof -
    have "(tm_blocks ?m) c \<noteq> None \<and> n = length i + 1 + sizeof_entry \<and> i \<noteq> []" if "pay h p = Some (i, c, n, s)" for p i c n s
    proof (cases "p = pe")
      case True
      then show ?thesis using that e h(1) by (auto simp: with_entry_fields)
    next
      case False
      then have "pay (tm_heap m) p = Some (i, c, n, s)" using that h(1) by simp
      then have "tm_blocks m c \<noteq> None \<and> n = length i + 1 + sizeof_entry \<and> i \<noteq> []" using assms(4) unfolding sizes_ok_def by blast
      then show ?thesis by (simp add: with_entry_fields)
    qed
    moreover have "tb_bytes y = length (tb_dsml y) + 1 + sizeof_block \<and> tb_dsml y \<noteq> [] \<and> tb_seen y \<le> tm_scan_clock ?m"
      if "tm_blocks ?m c = Some y" for c y using that assms(4) bx by (auto simp: with_entry_fields sizes_ok_def split: if_splits)
    ultimately show ?thesis unfolding sizes_ok_def with_entry_fields(1) by blast
  qed
  moreover have "bytes_ok ?m"
  proof -
    have "finite (dom (tm_heap m))" using assms(1) by (simp add: list_ok_def)
    then have "(\<Sum>q\<in>dom h. pay_bytes h q) = te_bytes e + (\<Sum>q\<in>dom (tm_heap m). pay_bytes (tm_heap m) q)"
      unfolding dh using new(1) h(1) by (intro sum_new) (auto simp: pay_bytes_def)
    then show ?thesis using assms(5) sum_upd_same [where bl = "tm_blocks m", OF bx, of "x\<lparr>tb_entries := Some pe, tb_refs := tb_refs x + 1\<rparr>"]
      unfolding bytes_ok_def with_entry_fields by simp
  qed
  ultimately show ?thesis by (simp add: tm_inv_def)
qed

lemma add_inv:
  assumes inv: "tm_inv m xs" and id: "ident \<noteq> []" "tm_by_id m ident = None" and d: "dsml \<noteq> []"
    and fresh: "pe \<notin> dom (tm_heap m)" "pb \<notin> dom (tm_blocks m)"
  shows "\<exists>m'. add_entry ident dsml source pe pb m = Some m' \<and> tm_inv m' (pe # xs)
    \<and> content m' (pe # xs) = (ident, dsml, source) # content m xs
    \<and> dom (tm_heap m') = insert pe (dom (tm_heap m)) \<and> dom (tm_blocks m') \<subseteq> insert pb (dom (tm_blocks m))
    \<and> tm_max_entries m' = tm_max_entries m \<and> tm_max_bytes m' = tm_max_bytes m"
proof -
  obtain b m1 where g: "tool_memory_get_block_locked dsml pb m = (b, m1)" by (meson surj_pair)
  obtain x bl bb n where bo: "block_ok m1 b x" "tb_dsml x = dsml" "blocks_ok m1" "sizes_ok m1" "bytes_ok m1"
    and vw: "\<forall>p\<in>set xs. view m1 p = view m p" and m1: "m1 = m\<lparr>tm_blocks := bl, tm_by_block := bb, tm_bytes := n\<rparr>"
    using get_block [OF inv d fresh(2) g] by blast
  have f1: "tm_heap m1 = tm_heap m" "tm_by_id m1 = tm_by_id m" "tm_head m1 = tm_head m" "tm_tail m1 = tm_tail m"
    "tm_max_entries m1 = tm_max_entries m" "tm_max_bytes m1 = tm_max_bytes m" "tm_entries m1 = tm_entries m"
    by (simp_all add: m1)
  have x: "tm_blocks m1 b = Some x" using bo(1) by (simp add: block_ok_def)
  have l: "list_ok m xs" and ids: "ids_ok m" using inv by (simp_all add: tm_inv_def)
  have l1: "list_ok m1 xs" "ids_ok m1" using l ids by (simp_all add: list_ok_def ids_ok_def f1)
  let ?e = "\<lparr>te_id = ident, te_block = b, te_bytes = length ident + 1 + sizeof_entry, te_stamp = Suc (tm_clock m1),
      te_source = source, te_prev = None, te_next = None, te_block_next = tb_entries x\<rparr>"
  let ?h2 = "(tm_heap m1)(pe \<mapsto> ?e)"
  let ?bl = "(tm_blocks m1)(b \<mapsto> x\<lparr>tb_entries := Some pe, tb_refs := tb_refs x + 1\<rparr>)"
  define m2 where "m2 = m1\<lparr>tm_clock := Suc (tm_clock m1), tm_heap := ?h2, tm_blocks := ?bl, tm_by_id := (tm_by_id m1)(ident \<mapsto> pe)\<rparr>"
  have f2: "tm_heap m2 = ?h2" "tm_head m2 = tm_head m" "tm_tail m2 = tm_tail m" "tm_heap m2 pe = Some ?e"
    by (simp_all add: m2_def f1)
  have pe: "pe \<notin> set xs" using fresh(1) l by (simp add: list_ok_def)
  have "dll (lk ?h2) None xs None = dll (lk (tm_heap m)) None xs None"
    using pe f1(1) by (intro dll_frame) (auto simp: lk_def)
  then have d2: "dll (lk (tm_heap m2)) None xs None" using l f2 by (simp add: list_ok_def)
  obtain h3 where h3: "tool_memory_link_head pe m2 = Some (m2\<lparr>tm_heap := h3, tm_head := Some pe, tm_tail := final None (pe # xs)\<rparr>)"
    "dll (lk h3) None (pe # xs) None" "unlinked h3 = unlinked (tm_heap m2)"
    using link_head_dll [OF d2 pe _ f2(4)] l f2(2,3) by (auto simp: list_ok_def)
  have p3: "pay h3 = (pay (tm_heap m))(pe \<mapsto> (ident, b, length ident + 1 + sizeof_entry, source))"
    "bn h3 = (bn (tm_heap m))(pe \<mapsto> tb_entries x)"
    using unlinked_eq(1,2) [OF h3(3)] by (simp_all add: f2 f1 pay_def bn_def fun_eq_iff)
  define m' where "m' = with_entry m1 pe ?e b x h3 xs"
  have "add_entry ident dsml source pe pb m = Some m'"
    using g x h3(1) by (simp add: add_entry_def upd_block_def Let_def m2_def m'_def with_entry_def)
  moreover have i': "tm_inv m' (pe # xs)"
    unfolding m'_def using l1 bo fresh(1) id p3 h3(2) by (intro with_entry_inv) (simp_all add: f1)
  moreover have "dom (tm_heap m') = insert pe (dom (tm_heap m))"
    by (simp add: m'_def with_entry_fields dom_pay [symmetric] p3(1))
  moreover have "dom (tm_blocks m') \<subseteq> insert pb (dom (tm_blocks m))"
    using get_block_dom [OF g] x by (auto simp: m'_def with_entry_fields)
  moreover have "tm_max_entries m' = tm_max_entries m" "tm_max_bytes m' = tm_max_bytes m"
    by (simp_all add: m'_def with_entry_fields f1)
  moreover have "view m' p = view m1 p" if "p \<in> set xs" for p
  proof -
    have "p \<noteq> pe" using that pe by blast
    then have "pay h3 p = pay (tm_heap m1) p" by (simp add: p3 f1)
    moreover have "(case ?bl c of None \<Rightarrow> [] | Some y \<Rightarrow> tb_dsml y) = (case tm_blocks m1 c of None \<Rightarrow> [] | Some y \<Rightarrow> tb_dsml y)" for c
      by (simp add: x)
    ultimately show ?thesis unfolding view_def m'_def with_entry_fields
      by (cases "pay (tm_heap m1) p") (simp_all del: fun_upd_apply pay_None split: prod.split)
  qed
  then have "content m' (pe # xs) = (ident, dsml, source) # content m xs"
    using vw bo(2) by (simp add: content_def) (simp add: view_def m'_def with_entry_fields p3)
  ultimately show ?thesis by blast
qed

end
