(* ===== verification/ToolMemoryRun.thy ===== *)
theory ToolMemoryRun
  imports ToolMemorySpec "HOL-Library.Multiset"
begin

text \<open>
  The tool memory as a whole: pruning, putting and looking up are the abstract operations, and every
  sequence of them that starts from the empty memory stays within the invariant, so that no call
  follows a freed pointer.
\<close>

section \<open>Pruning and emptying\<close>

lemma tail_snoc: "list_ok m (xs @ [p]) \<Longrightarrow> tm_tail m = Some p"
  by (simp add: list_ok_def)

lemma tail_Nil: "list_ok m [] \<Longrightarrow> tm_tail m = None"
  by (simp add: list_ok_def)

text \<open>The last entry goes, in the heap and in the abstract list.\<close>

lemma remove_last:
  assumes "tm_inv m (xs @ [p])"
  shows "\<exists>m'. tool_memory_remove_entry_locked p m = Some m' \<and> tm_inv m' xs \<and> content m' xs = butlast (content m (xs @ [p]))
    \<and> dom (tm_heap m') \<subseteq> dom (tm_heap m) \<and> dom (tm_blocks m') \<subseteq> dom (tm_blocks m)
    \<and> tm_max_entries m' = tm_max_entries m \<and> tm_max_bytes m' = tm_max_bytes m"
  using remove_inv [OF assms] by (auto simp: content_def)

lemma limits_cong:
  assumes "tm_max_entries m' = tm_max_entries m" "tm_max_bytes m' = tm_max_bytes m"
  shows "tool_memory_max_entries m' = tool_memory_max_entries m" "tool_memory_max_bytes m' = tool_memory_max_bytes m"
  by (simp_all add: tool_memory_max_entries_def tool_memory_max_bytes_def assms)

lemma prune_inv:
  assumes "tm_inv m xs"
  shows "\<exists>m' ys. tool_memory_prune_locked m = Some m' \<and> tm_inv m' ys
    \<and> content m' ys = spec_prune (tool_memory_max_entries m) (tool_memory_max_bytes m) (content m xs)
    \<and> dom (tm_heap m') \<subseteq> dom (tm_heap m) \<and> dom (tm_blocks m') \<subseteq> dom (tm_blocks m)
    \<and> tm_max_entries m' = tm_max_entries m \<and> tm_max_bytes m' = tm_max_bytes m"
  using assms
proof (induction xs arbitrary: m rule: rev_induct)
  case Nil
  then have "tool_memory_prune_locked m = Some m"
    by (subst tool_memory_prune_locked.simps) (simp add: tail_Nil tm_inv_def)
  then show ?case using Nil by (intro exI [of _ m] exI [of _ "[]"]) (simp add: content_def spec_prune.simps)
next
  case (snoc p xs)
  have t: "tm_tail m = Some p" using snoc.prems by (intro tail_snoc [of m xs]) (simp add: tm_inv_def)
  have ne: "content m (xs @ [p]) \<noteq> []" by (simp add: content_def)
  show ?case
  proof (cases "over_limit m")
    case False
    then have "tool_memory_prune_locked m = Some m" by (subst tool_memory_prune_locked.simps) (simp add: t)
    moreover have "\<not> spec_over (tool_memory_max_entries m) (tool_memory_max_bytes m) (content m (xs @ [p]))"
      using False over_content [OF snoc.prems] by simp
    ultimately show ?thesis using snoc.prems
      by (intro exI [of _ m] exI [of _ "xs @ [p]"]) (subst spec_prune.simps, simp)
  next
    case True
    obtain m1 where m1: "tool_memory_remove_entry_locked p m = Some m1" "tm_inv m1 xs" "content m1 xs = butlast (content m (xs @ [p]))"
      "dom (tm_heap m1) \<subseteq> dom (tm_heap m)" "dom (tm_blocks m1) \<subseteq> dom (tm_blocks m)"
      "tm_max_entries m1 = tm_max_entries m" "tm_max_bytes m1 = tm_max_bytes m"
      using remove_last [OF snoc.prems] by blast
    obtain m' ys where m': "tool_memory_prune_locked m1 = Some m'" "tm_inv m' ys"
      "content m' ys = spec_prune (tool_memory_max_entries m1) (tool_memory_max_bytes m1) (content m1 xs)"
      "dom (tm_heap m') \<subseteq> dom (tm_heap m1)" "dom (tm_blocks m') \<subseteq> dom (tm_blocks m1)"
      "tm_max_entries m' = tm_max_entries m1" "tm_max_bytes m' = tm_max_bytes m1"
      using snoc.IH [OF m1(2)] by blast
    have "tool_memory_prune_locked m = tool_memory_prune_locked m1"
      by (subst tool_memory_prune_locked.simps) (simp add: t True m1(1))
    moreover have "spec_prune (tool_memory_max_entries m) (tool_memory_max_bytes m) (content m (xs @ [p])) = content m' ys"
      using True ne over_content [OF snoc.prems] m'(3) m1(3) limits_cong [OF m1(6,7)] by (subst spec_prune.simps) simp
    moreover have "dom (tm_heap m') \<subseteq> dom (tm_heap m)" "dom (tm_blocks m') \<subseteq> dom (tm_blocks m)"
      by (rule order.trans [OF m'(4) m1(4)], rule order.trans [OF m'(5) m1(5)])
    ultimately show ?thesis using m' m1 by (intro exI [of _ m'] exI [of _ ys]) simp
  qed
qed

lemma remove_all_inv:
  assumes "tm_inv m xs"
  shows "\<exists>m'. remove_all m = Some m' \<and> tm_inv m' []"
  using assms
proof (induction xs arbitrary: m rule: rev_induct)
  case Nil
  then have "remove_all m = Some m" by (subst remove_all.simps) (simp add: tail_Nil tm_inv_def)
  then show ?case using Nil by blast
next
  case (snoc p xs)
  have t: "tm_tail m = Some p" using snoc.prems by (intro tail_snoc [of m xs]) (simp add: tm_inv_def)
  obtain m1 where m1: "tool_memory_remove_entry_locked p m = Some m1" "tm_inv m1 xs" using remove_last [OF snoc.prems] by blast
  then show ?case using snoc.IH [OF m1(2)] t by (subst remove_all.simps) simp
qed

text \<open>A memory without entries holds no node.\<close>

lemma inv_Nil:
  assumes "tm_inv m []"
  shows "tm_heap m = Map.empty" "tm_blocks m = Map.empty" "tm_bytes m = 0" "tm_entries m = 0"
proof -
  show h: "tm_heap m = Map.empty" using assms by (simp add: tm_inv_def list_ok_def)
  have "tm_blocks m b = None" for b
  proof (cases "tm_blocks m b")
    case (Some x)
    then have "chain_ok (tm_heap m) b x" using assms by (simp add: tm_inv_def)
    then have "members (tm_heap m) b \<noteq> {}" by (auto simp: chain_ok_def)
    then show ?thesis using h by (simp add: members_def pay_def)
  qed
  then show "tm_blocks m = Map.empty" by (simp add: fun_eq_iff)
  show "tm_bytes m = 0" using bytes_content [OF assms] by (simp add: content_def spec_bytes_def)
  show "tm_entries m = 0" using assms by (simp add: tm_inv_def list_ok_def)
qed

lemma zero_inv: "tm_inv tool_memory_zero []"
  by (simp add: tm_inv_def list_ok_def ids_ok_def blocks_ok_def sizes_ok_def bytes_ok_def tool_memory_zero_def pay_def)

section \<open>Putting and looking up\<close>

lemma without_content:
  assumes "tm_inv m (as @ p # bs)" "fst (view m p) = i"
  shows "without i (content m (as @ p # bs)) = content m as @ content m bs"
proof -
  have "distinct (fst (view m p) # map (\<lambda>q. fst (view m q)) (as @ bs))"
    using content_ids [OF assms(1)] by (auto simp: content_def comp_def)
  then have "\<forall>q\<in>set (as @ bs). fst (view m q) \<noteq> i" using assms(2) by (simp only: distinct.simps set_map) blast
  then show ?thesis using assms(2) by (auto simp: without_def content_def filter_empty_conv intro!: filter_True)
qed

lemma without_None: "map_of its i = None \<Longrightarrow> without i its = its"
  by (force simp: without_def map_of_eq_None_iff intro: filter_True)

text \<open>An id that is present: its entry, with the list split around it.\<close>

lemma find_split:
  assumes "tm_inv m xs" "tm_by_id m i = Some p"
  obtains as bs where "xs = as @ p # bs" "fst (view m p) = i" "map_of (content m xs) i = Some (snd (view m p))"
proof -
  have "p \<in> set xs" "fst (view m p) = i" using assms by_id_iff by blast+
  then show ?thesis using that content_find [OF assms(1), of i] assms(2) by (metis option.simps(9) split_list)
qed

definition repr :: "tool_memory \<Rightarrow> item list \<Rightarrow> bool" where
  "repr m its \<longleftrightarrow> (\<exists>xs. tm_inv m xs \<and> content m xs = its)"

text \<open>The last step of each branch of a put: the front item is in place and the memory is pruned.\<close>

lemma prune_repr:
  assumes "repr m its"
  shows "\<exists>m'. tool_memory_prune_locked m = Some m'
    \<and> repr m' (spec_prune (tool_memory_max_entries m) (tool_memory_max_bytes m) its)
    \<and> dom (tm_heap m') \<subseteq> dom (tm_heap m) \<and> dom (tm_blocks m') \<subseteq> dom (tm_blocks m)
    \<and> tm_max_entries m' = tm_max_entries m \<and> tm_max_bytes m' = tm_max_bytes m"
  using assms prune_inv unfolding repr_def by metis

lemma add_repr:
  assumes "repr m its" "map_of its i = None" "i \<noteq> []" "d \<noteq> []" "pe \<notin> dom (tm_heap m)" "pb \<notin> dom (tm_blocks m)"
  shows "\<exists>m'. add_entry i d s pe pb m = Some m' \<and> repr m' ((i, d, s) # its)
    \<and> dom (tm_heap m') \<subseteq> insert pe (dom (tm_heap m)) \<and> dom (tm_blocks m') \<subseteq> insert pb (dom (tm_blocks m))
    \<and> tm_max_entries m' = tm_max_entries m \<and> tm_max_bytes m' = tm_max_bytes m"
proof -
  obtain xs where xs: "tm_inv m xs" "content m xs = its" using assms(1) by (auto simp: repr_def)
  have "tm_by_id m i = None" using content_find [OF xs(1), of i] xs(2) assms(2) by simp
  from add_inv [OF xs(1) assms(3) this assms(4-6), of s] show ?thesis using xs(2) unfolding repr_def by blast
qed

text \<open>The source of an entry can change without anything else.\<close>

lemma set_source:
  assumes "tm_inv m xs" "tm_heap m p = Some e" "fst (view m p) = i" "p \<in> set xs"
  shows "\<exists>m'. upd_entry p (\<lambda>y. y\<lparr>te_source := s\<rparr>) m = Some m' \<and> tm_inv m' xs
    \<and> view m' = (view m)(p := (i, fst (snd (view m p)), s))
    \<and> dom (tm_heap m') = dom (tm_heap m) \<and> tm_blocks m' = tm_blocks m \<and> tm_by_id m' = tm_by_id m
    \<and> tm_max_entries m' = tm_max_entries m \<and> tm_max_bytes m' = tm_max_bytes m"
proof -
  let ?h = "(tm_heap m)(p \<mapsto> e\<lparr>te_source := s\<rparr>)"
  let ?m = "m\<lparr>tm_heap := ?h\<rparr>"
  have dh: "dom ?h = dom (tm_heap m)" "lk ?h = lk (tm_heap m)" "bn ?h = bn (tm_heap m)"
    using assms(2) by (auto simp: fun_eq_iff lk_def bn_def)
  have ph: "pay ?h = (pay (tm_heap m))(p \<mapsto> (te_id e, te_block e, te_bytes e, s))" by (auto simp: fun_eq_iff pay_def)
  have pp: "pay (tm_heap m) p = Some (te_id e, te_block e, te_bytes e, te_source e)" using assms(2) by (simp add: pay_def)
  have ex: "(\<exists>s. pay ?h q = Some (i, b, n, s)) = (\<exists>s. pay (tm_heap m) q = Some (i, b, n, s))" for q i b n
    by (cases "q = p") (simp_all add: ph pp)
  have "members ?h = members (tm_heap m)" unfolding members_def ex ..
  moreover have "pay_bytes ?h = pay_bytes (tm_heap m)" by (auto simp: fun_eq_iff pay_bytes_def ph pp)
  moreover have "ids_ok ?m = ids_ok m" unfolding ids_ok_def by (simp add: ex del: fun_upd_apply)
  moreover have "sizes_ok ?m = sizes_ok m"
    unfolding sizes_ok_def by (simp add: ex del: fun_upd_apply)
  ultimately have "tm_inv ?m xs"
    using assms(1) by (simp add: tm_inv_def list_ok_def blocks_ok_def chain_ok_def bytes_ok_def dh insert_absorb assms(4) del: fun_upd_apply)
  moreover have "view ?m = (view m)(p := (i, fst (snd (view m p)), s))"
    using assms(3) pp by (auto simp: fun_eq_iff view_def ph simp del: pay_None split: option.split)
  ultimately show ?thesis using assms(2) dh by (intro exI [of _ ?m]) (simp add: upd_entry_def)
qed

lemma filter_away:
  assumes "tm_inv m (as @ p # bs)" "fst (view m p) = i"
  shows "map_of (content m as @ content m bs) i = None"
  unfolding without_content [OF assms, symmetric] by (auto simp: map_of_eq_None_iff without_def)

lemma touch_repr:
  assumes "tm_inv m (as @ p # bs)" "fst (view m p) = i"
  shows "\<exists>m'. tool_memory_touch p m = Some m' \<and> repr m' (view m p # without i (content m (as @ p # bs)))
    \<and> pay (tm_heap m') = pay (tm_heap m) \<and> tm_blocks m' = tm_blocks m
    \<and> tm_max_entries m' = tm_max_entries m \<and> tm_max_bytes m' = tm_max_bytes m"
  using touch_inv [OF assms(1)] without_content [OF assms] unfolding repr_def content_def by fastforce

text \<open>The same text again: its source is raised and the entry moves to the front.\<close>

lemma refresh_repr:
  assumes inv: "tm_inv m (as @ p # bs)" and e: "tm_heap m p = Some e" and vw: "view m p = (i, d, s0)"
    and its: "its = content m (as @ p # bs)"
  shows "\<exists>m1 m2. (if s = TOOL_MEMORY_RAM then upd_entry p (\<lambda>y. y\<lparr>te_source := TOOL_MEMORY_RAM\<rparr>) m else Some m) = Some m1
    \<and> tool_memory_touch p m1 = Some m2 \<and> repr m2 ((i, d, if s = TOOL_MEMORY_RAM then s else s0) # without i its)
    \<and> dom (tm_heap m2) = dom (tm_heap m) \<and> tm_blocks m2 = tm_blocks m
    \<and> tm_max_entries m2 = tm_max_entries m \<and> tm_max_bytes m2 = tm_max_bytes m"
proof -
  let ?s = "if s = TOOL_MEMORY_RAM then s else s0"
  have vi: "fst (view m p) = i" using vw by simp
  obtain m1 where m1: "(if s = TOOL_MEMORY_RAM then upd_entry p (\<lambda>y. y\<lparr>te_source := TOOL_MEMORY_RAM\<rparr>) m else Some m) = Some m1"
    "tm_inv m1 (as @ p # bs)" "view m1 = (view m)(p := (i, d, ?s))" "dom (tm_heap m1) = dom (tm_heap m)"
    "tm_blocks m1 = tm_blocks m" "tm_max_entries m1 = tm_max_entries m" "tm_max_bytes m1 = tm_max_bytes m"
    using set_source [OF inv e vi, of TOOL_MEMORY_RAM] inv vw by (cases s) (auto simp: fun_upd_idem)
  have p1: "view m1 p = (i, d, ?s)" using m1(3) by simp
  have "p \<notin> set as" "p \<notin> set bs" using inv by (auto simp: tm_inv_def list_ok_def)
  then have "content m1 as = content m as" "content m1 bs = content m bs" using m1(3) by (auto simp: content_def)
  then have wo1: "without i (content m1 (as @ p # bs)) = without i its"
    using without_content [OF m1(2), of i] p1 without_content [OF inv vi] its by simp
  obtain m2 where m2: "tool_memory_touch p m1 = Some m2" "repr m2 ((i, d, ?s) # without i its)"
    "pay (tm_heap m2) = pay (tm_heap m1)" "tm_blocks m2 = tm_blocks m1"
    "tm_max_entries m2 = tm_max_entries m1" "tm_max_bytes m2 = tm_max_bytes m1"
    using touch_repr [OF m1(2), of i] p1 wo1 by auto
  have "dom (tm_heap m2) = dom (tm_heap m1)" by (metis dom_pay m2(3))
  then show ?thesis using m1(1,4-7) m2(1,2,4-6) by (intro exI [of _ m1] exI [of _ m2]) simp
qed

text \<open>Another text: the old entry goes and a new one comes to the front.\<close>

lemma replace_repr:
  assumes inv: "tm_inv m (as @ p # bs)" and vi: "fst (view m p) = i" and its: "its = content m (as @ p # bs)"
    and ne: "i \<noteq> []" "d \<noteq> []" and fresh: "pe \<notin> dom (tm_heap m)" "pb \<notin> dom (tm_blocks m)"
  shows "\<exists>m1 m2. tool_memory_remove_entry_locked p m = Some m1 \<and> add_entry i d s pe pb m1 = Some m2
    \<and> repr m2 ((i, d, s) # without i its)
    \<and> dom (tm_heap m2) \<subseteq> insert pe (dom (tm_heap m)) \<and> dom (tm_blocks m2) \<subseteq> insert pb (dom (tm_blocks m))
    \<and> tm_max_entries m2 = tm_max_entries m \<and> tm_max_bytes m2 = tm_max_bytes m"
proof -
  have wo: "without i its = content m as @ content m bs" using without_content [OF inv vi] its by simp
  obtain m1 where m1: "tool_memory_remove_entry_locked p m = Some m1" "tm_inv m1 (as @ bs)"
    "content m1 (as @ bs) = without i its" "dom (tm_heap m1) = dom (tm_heap m) - {p}" "dom (tm_blocks m1) \<subseteq> dom (tm_blocks m)"
    "tm_max_entries m1 = tm_max_entries m" "tm_max_bytes m1 = tm_max_bytes m"
    using remove_inv [OF inv] wo by auto
  have "map_of (without i its) i = None" using filter_away [OF inv vi] wo by simp
  moreover have "repr m1 (without i its)" using m1(2,3) unfolding repr_def by blast
  moreover have "pe \<notin> dom (tm_heap m1)" "pb \<notin> dom (tm_blocks m1)" using fresh m1(4,5) by auto
  ultimately obtain m2 where m2: "add_entry i d s pe pb m1 = Some m2" "repr m2 ((i, d, s) # without i its)"
    "dom (tm_heap m2) \<subseteq> insert pe (dom (tm_heap m1))" "dom (tm_blocks m2) \<subseteq> insert pb (dom (tm_blocks m1))"
    "tm_max_entries m2 = tm_max_entries m1" "tm_max_bytes m2 = tm_max_bytes m1"
    using add_repr [of m1 "without i its" i d pe pb s] ne by blast
  have "dom (tm_heap m2) \<subseteq> insert pe (dom (tm_heap m))" "dom (tm_blocks m2) \<subseteq> insert pb (dom (tm_blocks m))"
    using m2(3,4) m1(4,5) by blast+
  then show ?thesis using m2 m1(1,6,7) by (intro exI [of _ m1] exI [of _ m2]) simp
qed

lemma put_repr:
  assumes "repr m its" "pe \<notin> dom (tm_heap m)" "pb \<notin> dom (tm_blocks m)"
  shows "\<exists>m'. tool_memory_put_locked i d s pe pb m = Some m'
    \<and> repr m' (spec_put (tool_memory_max_entries m) (tool_memory_max_bytes m) i d s its)
    \<and> dom (tm_heap m') \<subseteq> insert pe (dom (tm_heap m)) \<and> dom (tm_blocks m') \<subseteq> insert pb (dom (tm_blocks m))
    \<and> tm_max_entries m' = tm_max_entries m \<and> tm_max_bytes m' = tm_max_bytes m"
proof (cases "i = [] \<or> d = []")
  case True
  then show ?thesis using assms by (auto simp: tool_memory_put_locked_def spec_put_def)
next
  case ne: False
  obtain xs where xs: "tm_inv m xs" "content m xs = its" using assms(1) by (auto simp: repr_def)
  let ?P = "\<lambda>m1 its1. repr m1 its1 \<and> dom (tm_heap m1) \<subseteq> insert pe (dom (tm_heap m)) \<and> dom (tm_blocks m1) \<subseteq> insert pb (dom (tm_blocks m))
    \<and> tm_max_entries m1 = tm_max_entries m \<and> tm_max_bytes m1 = tm_max_bytes m"
  have fin: ?thesis if P: "?P m1 its1" "tool_memory_put_locked i d s pe pb m = tool_memory_prune_locked m1"
    "spec_put (tool_memory_max_entries m) (tool_memory_max_bytes m) i d s its
      = spec_prune (tool_memory_max_entries m) (tool_memory_max_bytes m) its1" for m1 its1
  proof -
    obtain m' where r: "tool_memory_prune_locked m1 = Some m'" "repr m' (spec_prune (tool_memory_max_entries m1) (tool_memory_max_bytes m1) its1)"
      "dom (tm_heap m') \<subseteq> dom (tm_heap m1)" "dom (tm_blocks m') \<subseteq> dom (tm_blocks m1)"
      "tm_max_entries m' = tm_max_entries m1" "tm_max_bytes m' = tm_max_bytes m1"
      using prune_repr [of m1 its1] P(1) by blast
    have "dom (tm_heap m') \<subseteq> insert pe (dom (tm_heap m))" "dom (tm_blocks m') \<subseteq> insert pb (dom (tm_blocks m))"
      using P(1) r(3,4) by (meson order.trans)+
    then show ?thesis using P r(1,2,5,6) limits_cong [of m1 m] by (intro exI [of _ m']) simp
  qed
  show ?thesis
  proof (cases "tm_by_id m i")
    case None
    then have n: "map_of its i = None" using content_find [OF xs(1), of i] xs(2) by simp
    obtain m1 where "add_entry i d s pe pb m = Some m1" "?P m1 ((i, d, s) # its)"
      using add_repr [OF assms(1) n _ _ assms(2,3), of d s] ne by blast
    then show ?thesis using ne None n
      by (intro fin) (auto simp: tool_memory_put_locked_def tool_memory_find_entry_locked_def spec_put_def without_None)
  next
    case (Some p)
    obtain as bs where sp: "xs = as @ p # bs" and vi: "fst (view m p) = i" and mo: "map_of its i = Some (snd (view m p))"
      using find_split [OF xs(1) Some] xs(2) by metis
    obtain b s0 x where pp: "pay (tm_heap m) p = Some (i, b, length i + 1 + sizeof_entry, s0)" and x: "tm_blocks m b = Some x"
      and vw: "view m p = (i, tb_dsml x, s0)" using pay_of [OF xs(1), of p] sp vi by (metis fst_conv in_set_conv_decomp)
    obtain e where e: "tm_heap m p = Some e" "te_block e = b" using pp by (auto simp: pay_Some)
    have f: "tool_memory_find_entry_locked m i = Some p" using ne Some by (simp add: tool_memory_find_entry_locked_def)
    have inv: "tm_inv m (as @ p # bs)" and its: "its = content m (as @ p # bs)" using xs sp by simp_all
    show ?thesis
    proof (cases "tb_dsml x = d")
      case True
      then have v: "view m p = (i, d, s0)" using vw by simp
      obtain m1 m2 where m: "(if s = TOOL_MEMORY_RAM then upd_entry p (\<lambda>y. y\<lparr>te_source := TOOL_MEMORY_RAM\<rparr>) m else Some m) = Some m1"
        "tool_memory_touch p m1 = Some m2" "repr m2 ((i, d, if s = TOOL_MEMORY_RAM then s else s0) # without i its)"
        "dom (tm_heap m2) = dom (tm_heap m)" "tm_blocks m2 = tm_blocks m"
        "tm_max_entries m2 = tm_max_entries m" "tm_max_bytes m2 = tm_max_bytes m"
        using refresh_repr [OF inv e(1) v its, of s] by blast
      then show ?thesis using ne f e x True mo vw
        by (intro fin [of m2 "(i, d, if s = TOOL_MEMORY_RAM then s else s0) # without i its"])
          (auto simp: tool_memory_put_locked_def spec_put_def intro: tool_memory_source.exhaust [of s])
    next
      case False
      obtain m1 m2 where m: "tool_memory_remove_entry_locked p m = Some m1" "add_entry i d s pe pb m1 = Some m2"
        "repr m2 ((i, d, s) # without i its)"
        "dom (tm_heap m2) \<subseteq> insert pe (dom (tm_heap m))" "dom (tm_blocks m2) \<subseteq> insert pb (dom (tm_blocks m))"
        "tm_max_entries m2 = tm_max_entries m" "tm_max_bytes m2 = tm_max_bytes m"
        using replace_repr [OF inv vi its _ _ assms(2,3), of d s] ne by blast
      then show ?thesis using ne f e x False mo vw
        by (intro fin [of m2 "(i, d, s) # without i its"]) (simp_all add: tool_memory_put_locked_def spec_put_def)
    qed
  qed
qed

lemma lookup_repr:
  assumes "repr m its"
  shows "\<exists>r m'. tool_memory_lookup_locked i m = Some (r, m') \<and> repr m' (snd (spec_lookup i its))
    \<and> map_option (\<lambda>(s, b, d). (s, d)) r = fst (spec_lookup i its)
    \<and> dom (tm_heap m') = dom (tm_heap m) \<and> tm_blocks m' = tm_blocks m
    \<and> tm_max_entries m' = tm_max_entries m \<and> tm_max_bytes m' = tm_max_bytes m"
proof -
  obtain xs where xs: "tm_inv m xs" "content m xs = its" using assms by (auto simp: repr_def)
  show ?thesis
  proof (cases "tool_memory_find_entry_locked m i")
    case None
    then have "i = [] \<or> map_of its i = None"
      using content_find [OF xs(1), of i] xs(2) by (auto simp: tool_memory_find_entry_locked_def split: if_splits)
    then show ?thesis using None assms by (auto simp: tool_memory_lookup_locked_def spec_lookup_def)
  next
    case (Some p)
    then have ne: "i \<noteq> []" and bi: "tm_by_id m i = Some p"
      by (auto simp: tool_memory_find_entry_locked_def split: if_splits)
    obtain as bs where sp: "xs = as @ p # bs" and vi: "fst (view m p) = i" and mo: "map_of its i = Some (snd (view m p))"
      using find_split [OF xs(1) bi] xs(2) by metis
    have inv: "tm_inv m (as @ p # bs)" using xs(1) sp by simp
    obtain b s x where pp: "pay (tm_heap m) p = Some (i, b, length i + 1 + sizeof_entry, s)" and x: "tm_blocks m b = Some x"
      and vw: "view m p = (i, tb_dsml x, s)" using pay_of [OF xs(1), of p] sp vi by (metis fst_conv in_set_conv_decomp)
    obtain m1 where m1: "tool_memory_touch p m = Some m1" "repr m1 (view m p # without i its)"
      "pay (tm_heap m1) = pay (tm_heap m)" "tm_blocks m1 = tm_blocks m"
      "tm_max_entries m1 = tm_max_entries m" "tm_max_bytes m1 = tm_max_bytes m"
      using touch_repr [OF inv vi] xs(2) sp by auto
    have "pay (tm_heap m1) p = Some (i, b, length i + 1 + sizeof_entry, s)" using pp m1(3) by simp
    then obtain e where e: "tm_heap m1 p = Some e" "te_block e = b" "te_source e = s" by (auto simp: pay_Some)
    have "tool_memory_lookup_locked i m = Some (Some (s, b, tb_dsml x), m1)"
      using Some m1(1,4) e x by (simp add: tool_memory_lookup_locked_def)
    moreover have "dom (tm_heap m1) = dom (tm_heap m)" by (metis dom_pay m1(3))
    ultimately show ?thesis using m1 ne mo vw by (simp add: spec_lookup_def)
  qed
qed

section \<open>Any sequence of calls\<close>

datatype tm_call = Put string string tool_memory_source ptr ptr | Lookup string

definition tm_exec :: "tm_call \<Rightarrow> tool_memory \<Rightarrow> tool_memory option" where
  "tm_exec c m = (case c of Put i d s pe pb \<Rightarrow> tool_memory_put_locked i d s pe pb m
     | Lookup i \<Rightarrow> map_option snd (tool_memory_lookup_locked i m))"

text \<open>An allocation returns an address that is not in use.\<close>

definition fresh_call :: "tm_call \<Rightarrow> tool_memory \<Rightarrow> bool" where
  "fresh_call c m = (case c of Put i d s pe pb \<Rightarrow> tm_heap m pe = None \<and> tm_blocks m pb = None | Lookup i \<Rightarrow> True)"

inductive tm_run :: "int \<Rightarrow> nat \<Rightarrow> tm_call list \<Rightarrow> tool_memory \<Rightarrow> bool" for n b where
  run_start: "tm_run n b [] (tool_memory_zero\<lparr>tm_max_entries := n, tm_max_bytes := b\<rparr>)"
| run_call: "tm_run n b cs m \<Longrightarrow> fresh_call c m \<Longrightarrow> tm_exec c m = Some m' \<Longrightarrow> tm_run n b (c # cs) m'"

text \<open>The text of the latest put for an id; the calls are listed newest first.\<close>

fun last_put :: "tm_call list \<Rightarrow> string \<Rightarrow> string option" where
  "last_put [] i = None"
| "last_put (Lookup j # cs) i = last_put cs i"
| "last_put (Put j d s pe pb # cs) i = (if j = i \<and> i \<noteq> [] \<and> d \<noteq> [] then Some d else last_put cs i)"

lemma start_repr: "repr (tool_memory_zero\<lparr>tm_max_entries := n, tm_max_bytes := b\<rparr>) []"
proof -
  have "tm_inv (tool_memory_zero\<lparr>tm_max_entries := n, tm_max_bytes := b\<rparr>) []"
    by (simp add: tm_inv_def list_ok_def ids_ok_def blocks_ok_def sizes_ok_def bytes_ok_def tool_memory_zero_def pay_def)
  then show ?thesis unfolding repr_def by (auto simp: content_def)
qed

lemma spec_prune_subset: "set (spec_prune n b its) \<subseteq> set its"
  using spec_prune_prefix [of its n b] by (metis set_append sup_ge1)

lemma mset_front:
  assumes "distinct (map fst its)" "map_of its i = Some (d, s)"
  shows "mset ((i, d, s) # without i its) = mset its"
  using assms
proof (induction its)
  case (Cons it its)
  show ?case
  proof (cases "fst it = i")
    case True
    then have "map_of its i = None" using Cons.prems(1) by (auto simp: map_of_eq_None_iff)
    then show ?thesis using True Cons.prems(2) without_None [of its i] by (cases it) (auto simp: without_def)
  next
    case False
    then show ?thesis using Cons by (cases it) (auto simp: without_def)
  qed
qed simp

lemma spec_over_mset:
  assumes "mset xs = mset ys"
  shows "spec_over n b xs = spec_over n b ys"
proof -
  have "sum_list (map item_bytes xs) = sum_list (map item_bytes ys)"
    by (metis assms mset_map sum_mset_sum_list)
  then show ?thesis using mset_eq_setD [OF assms] mset_eq_length [OF assms] by (simp add: spec_over_def spec_bytes_def)
qed

lemma repr_ids: "repr m its \<Longrightarrow> distinct (map fst its)"
  unfolding repr_def using content_ids by blast

text \<open>The abstract content after a run: within the limits, with the latest text of every id.\<close>

definition run_ok :: "int \<Rightarrow> nat \<Rightarrow> tm_call list \<Rightarrow> item list \<Rightarrow> bool" where
  "run_ok n b cs its \<longleftrightarrow> (its = [] \<or> \<not> spec_over n b its) \<and> (\<forall>(i, d, s)\<in>set its. last_put cs i = Some d)"

lemma put_ok:
  assumes "run_ok n b cs its"
  shows "run_ok n b (Put i d s pe pb # cs) (spec_put n b i d s its)"
proof (cases "i = [] \<or> d = []")
  case True
  then show ?thesis using assms by (fastforce simp: run_ok_def spec_put_def)
next
  case False
  have "last_put (Put i d s pe pb # cs) j = Some e"
    if "(j, e, t) \<in> set (spec_put n b i d s its)" for j e t
  proof -
    have "(j, e) = (i, d) \<or> (j, e, t) \<in> set (without i its)"
      using that False by (auto simp: spec_put_def dest!: subsetD [OF spec_prune_subset])
    then show ?thesis using assms False by (auto simp: run_ok_def without_def)
  qed
  then show ?thesis using False spec_prune_within by (auto simp: run_ok_def spec_put_def)
qed

lemma lookup_ok:
  assumes "run_ok n b cs its" "distinct (map fst its)"
  shows "run_ok n b (Lookup i # cs) (snd (spec_lookup i its))"
proof (cases "i = [] \<or> map_of its i = None")
  case True
  then show ?thesis using assms by (auto simp: run_ok_def spec_lookup_def)
next
  case False
  then obtain d s where m: "map_of its i = Some (d, s)" by auto
  note e = mset_front [OF assms(2) m]
  have "snd (spec_lookup i its) = (i, d, s) # without i its" using False m by (simp add: spec_lookup_def)
  then show ?thesis using assms(1) spec_over_mset [OF e] mset_eq_setD [OF e] map_of_SomeD [OF m] by (auto simp: run_ok_def)
qed

lemma exec_repr:
  assumes "repr m its" "fresh_call c m" "run_ok (tool_memory_max_entries m) (tool_memory_max_bytes m) cs its"
  shows "\<exists>m' its'. tm_exec c m = Some m' \<and> repr m' its'
    \<and> run_ok (tool_memory_max_entries m) (tool_memory_max_bytes m) (c # cs) its'
    \<and> tm_max_entries m' = tm_max_entries m \<and> tm_max_bytes m' = tm_max_bytes m"
proof (cases c)
  case (Put i d s pe pb)
  then have "pe \<notin> dom (tm_heap m)" "pb \<notin> dom (tm_blocks m)" using assms(2) by (auto simp: fresh_call_def)
  from put_repr [OF assms(1) this, of i d s] show ?thesis using Put put_ok [OF assms(3), of i d s pe pb]
    by (auto simp: tm_exec_def)
next
  case (Lookup i)
  then show ?thesis using lookup_repr [OF assms(1), of i] lookup_ok [OF assms(3) repr_ids [OF assms(1)], of i]
    by (auto simp: tm_exec_def)
qed

text \<open>Every memory a run reaches has the invariant.\<close>

lemma run_repr:
  assumes "tm_run n b cs m"
  shows "\<exists>its. repr m its \<and> run_ok (tool_memory_max_entries m) (tool_memory_max_bytes m) cs its"
  using assms
proof (induction rule: tm_run.induct)
  case run_start
  then show ?case using start_repr by (intro exI [of _ "[]"]) (simp add: run_ok_def)
next
  case (run_call cs m c m')
  then obtain its where its: "repr m its" "run_ok (tool_memory_max_entries m) (tool_memory_max_bytes m) cs its" by blast
  then obtain m1 its' where "tm_exec c m = Some m1" "repr m1 its'"
    "run_ok (tool_memory_max_entries m) (tool_memory_max_bytes m) (c # cs) its'"
    "tm_max_entries m1 = tm_max_entries m" "tm_max_bytes m1 = tm_max_bytes m"
    using exec_repr [OF its(1) run_call.hyps(2) its(2)] by blast
  then show ?case using run_call.hyps(3) limits_cong [of m1 m] by auto
qed

lemma run_limits:
  assumes "tm_run n b cs m"
  shows "tm_max_entries m = n \<and> tm_max_bytes m = b"
  using assms
proof (induction rule: tm_run.induct)
  case (run_call cs m c m')
  obtain its where its: "repr m its" "run_ok (tool_memory_max_entries m) (tool_memory_max_bytes m) cs its"
    using run_repr [OF run_call.hyps(1)] by blast
  from exec_repr [OF its(1) run_call.hyps(2) its(2)] show ?case using run_call.IH run_call.hyps(3) by auto
qed simp

lemma repr_counts:
  assumes "repr m its"
  shows "tm_entries m = int (length its)" "tm_bytes m = spec_bytes its" "over_limit m = spec_over (tool_memory_max_entries m) (tool_memory_max_bytes m) its"
  using assms bytes_content over_content by (auto simp: repr_def tm_inv_def list_ok_def content_def)

lemma limits_pos: "0 < tool_memory_max_entries m" "0 < tool_memory_max_bytes m"
  by (simp_all add: tool_memory_max_entries_def tool_memory_max_bytes_def)

lemma prune_keeps_front:
  assumes "\<not> spec_over n b [x]"
  shows "\<exists>ys. spec_prune n b (x # xs) = x # ys"
proof -
  obtain ys where ys: "x # xs = spec_prune n b (x # xs) @ ys" using spec_prune_prefix by blast
  have "spec_prune n b its \<noteq> []" if "its \<noteq> []" "hd its = x" for its
    using that assms
  proof (induction n b its rule: spec_prune.induct)
    case (1 n b its)
    show ?case
    proof (cases "butlast its = []")
      case True
      then have "its = [x]" using 1(2,3) by (cases its) (auto split: if_splits)
      then show ?thesis using 1(4) by (simp add: spec_prune.simps)
    next
      case False
      then have "hd (butlast its) = x" using 1(3) by (cases its) (auto split: if_splits)
      then show ?thesis using 1 False by (subst spec_prune.simps) auto
    qed
  qed
  then have "spec_prune n b (x # xs) \<noteq> []" by simp
  then show ?thesis using ys by (cases "spec_prune n b (x # xs)") auto
qed

end
