(* ===== verification/ToolMemoryProps.thy ===== *)
theory ToolMemoryProps
  imports ToolMemoryRun
begin

text \<open>The properties of the tool-call memory.\<close>

section \<open>A run to look at\<close>

text \<open>Two calls with one text, then a second text for the first id, in a memory for two entries.\<close>

abbreviation sample_calls :: "tm_call list" where
  "sample_calls \<equiv> [Put ''a'' ''z'' TOOL_MEMORY_DISK 2 2, Put ''b'' ''y'' TOOL_MEMORY_RAM 1 1, Put ''a'' ''y'' TOOL_MEMORY_RAM 0 0]"

lemma run_put:
  assumes "tm_run n b cs m" "dom (tm_heap m) \<subseteq> A" "dom (tm_blocks m) \<subseteq> A" "p \<notin> A"
  shows "\<exists>m'. tm_run n b (Put i d s p p # cs) m' \<and> dom (tm_heap m') \<subseteq> insert p A \<and> dom (tm_blocks m') \<subseteq> insert p A"
proof -
  obtain its where "repr m its" using run_repr [OF assms(1)] by blast
  moreover have f: "p \<notin> dom (tm_heap m)" "p \<notin> dom (tm_blocks m)" using assms(2-4) by auto
  ultimately obtain m' where m': "tool_memory_put_locked i d s p p m = Some m'"
    "dom (tm_heap m') \<subseteq> insert p (dom (tm_heap m))" "dom (tm_blocks m') \<subseteq> insert p (dom (tm_blocks m))"
    using put_repr [of m its p p i d s] by blast
  have "tm_run n b (Put i d s p p # cs) m'"
    using f by (intro run_call [OF assms(1)]) (auto simp: fresh_call_def tm_exec_def m'(1) dom_def)
  then show ?thesis using m'(2,3) assms(2,3) by blast
qed

lemma sample_run: "\<exists>m. tm_run 2 500 sample_calls m \<and> dom (tm_heap m) \<subseteq> {0, 1, 2} \<and> dom (tm_blocks m) \<subseteq> {0, 1, 2}"
proof -
  have "dom (tm_heap (tool_memory_zero\<lparr>tm_max_entries := 2, tm_max_bytes := 500\<rparr>)) \<subseteq> {}"
    "dom (tm_blocks (tool_memory_zero\<lparr>tm_max_entries := 2, tm_max_bytes := 500\<rparr>)) \<subseteq> {}"
    by (simp_all add: tool_memory_zero_def)
  from run_put [OF run_start this, of 0 "''a''" "''y''" TOOL_MEMORY_RAM] obtain m1 where m1: "tm_run 2 500 [Put ''a'' ''y'' TOOL_MEMORY_RAM 0 0] m1"
    "dom (tm_heap m1) \<subseteq> {0}" "dom (tm_blocks m1) \<subseteq> {0}" by blast
  have "(1 :: nat) \<notin> {0}" by simp
  from run_put [OF m1 this, of "''b''" "''y''" TOOL_MEMORY_RAM] obtain m2 where m2: "tm_run 2 500 [Put ''b'' ''y'' TOOL_MEMORY_RAM 1 1, Put ''a'' ''y'' TOOL_MEMORY_RAM 0 0] m2"
    "dom (tm_heap m2) \<subseteq> {1, 0}" "dom (tm_blocks m2) \<subseteq> {1, 0}" by blast
  have "(2 :: nat) \<notin> {1, 0}" by simp
  from run_put [OF m2 this, of "''a''" "''z''" TOOL_MEMORY_DISK] obtain m3 where "tm_run 2 500 sample_calls m3" "dom (tm_heap m3) \<subseteq> {2, 1, 0}" "dom (tm_blocks m3) \<subseteq> {2, 1, 0}"
    by (elim exE conjE)
  then show ?thesis by (intro exI [of _ m3]) auto
qed

section \<open>The properties\<close>

text \<open>C8: A put on the heap of linked entries and shared blocks is the put of the abstract memory, a
  list ordered by recency: the id moves to the front with its new text, and entries leave from the
  back until the count and the bytes are within the limits.\<close>

theorem tool_memory_put_refines:
  assumes "repr m its" "pe \<notin> dom (tm_heap m)" "pb \<notin> dom (tm_blocks m)"
  shows "\<exists>m'. tool_memory_put_locked i d s pe pb m = Some m'
    \<and> repr m' (spec_put (tool_memory_max_entries m) (tool_memory_max_bytes m) i d s its)"
  using put_repr [OF assms] by blast

theorem tool_memory_put_refines_witness:
  "\<exists>m'. tool_memory_put_locked ''a'' ''x'' TOOL_MEMORY_RAM 7 7 (tool_memory_zero\<lparr>tm_max_entries := 1, tm_max_bytes := 300\<rparr>) = Some m'
    \<and> repr m' [(''a'', ''x'', TOOL_MEMORY_RAM)]"
proof -
  let ?m = "tool_memory_zero\<lparr>tm_max_entries := 1, tm_max_bytes := 300\<rparr>"
  have l: "tool_memory_max_entries ?m = 1" "tool_memory_max_bytes ?m = 300"
    by (simp_all add: tool_memory_max_entries_def tool_memory_max_bytes_def)
  have "spec_put 1 300 ''a'' ''x'' TOOL_MEMORY_RAM [] = [(''a'', ''x'', TOOL_MEMORY_RAM)]" by code_simp
  moreover have "\<exists>m'. tool_memory_put_locked ''a'' ''x'' TOOL_MEMORY_RAM 7 7 ?m = Some m'
    \<and> repr m' (spec_put (tool_memory_max_entries ?m) (tool_memory_max_bytes ?m) ''a'' ''x'' TOOL_MEMORY_RAM [])"
    by (rule tool_memory_put_refines [OF start_repr]) (simp_all add: tool_memory_zero_def)
  ultimately show ?thesis by (simp only: l)
qed

text \<open>C9: After any sequence of puts and lookups the next call ends without following a freed pointer,
  and freeing the memory releases every entry and every block.\<close>

theorem tool_memory_safe:
  assumes "tm_run n b cs m" "fresh_call c m"
  shows "(\<exists>m'. tm_exec c m = Some m') \<and> (\<exists>m'. remove_all m = Some m' \<and> tm_heap m' = Map.empty \<and> tm_blocks m' = Map.empty)
    \<and> tool_memory_free m = Some tool_memory_zero"
proof -
  obtain its where its: "repr m its" "run_ok (tool_memory_max_entries m) (tool_memory_max_bytes m) cs its"
    using run_repr [OF assms(1)] by blast
  obtain xs where "tm_inv m xs" using its(1) by (auto simp: repr_def)
  then obtain m' where "remove_all m = Some m'" "tm_inv m' []" using remove_all_inv by blast
  then show ?thesis using exec_repr [OF its(1) assms(2) its(2)] inv_Nil [of m'] by (auto simp: tool_memory_free_def)
qed

theorem tool_memory_safe_witness:
  "\<exists>m. tm_run 2 500 sample_calls m \<and> (\<exists>m'. tm_exec (Lookup ''b'') m = Some m') \<and> tool_memory_free m = Some tool_memory_zero"
proof -
  obtain m where m: "tm_run 2 500 sample_calls m" using sample_run by blast
  have "fresh_call (Lookup ''b'') m" by (simp add: fresh_call_def)
  from tool_memory_safe [OF m this] m show ?thesis by blast
qed

text \<open>After any sequence of calls the memory is within its limits, the defaults standing for limits
  that are not set.\<close>

theorem tool_memory_bounded:
  assumes "tm_run n b cs m"
  shows "0 \<le> tm_entries m \<and> tm_entries m \<le> (if 0 < n then n else 100000)
    \<and> tm_bytes m \<le> (if 0 < b then b else 512 * 1024 * 1024)"
proof -
  obtain its where its: "repr m its" "run_ok (tool_memory_max_entries m) (tool_memory_max_bytes m) cs its"
    using run_repr [OF assms] by blast
  have "tm_max_entries m = n \<and> tm_max_bytes m = b" using run_limits [OF assms] .
  moreover have "\<not> spec_over (tool_memory_max_entries m) (tool_memory_max_bytes m) its"
    using its(2) limits_pos [of m] by (auto simp: run_ok_def spec_over_def spec_bytes_def)
  ultimately show ?thesis using repr_counts [OF its(1)]
    by (simp add: spec_over_def tool_memory_max_entries_def tool_memory_max_bytes_def split: if_splits)
qed

theorem tool_memory_bounded_witness: "\<exists>m. tm_run 2 500 sample_calls m \<and> tm_entries m \<le> 2 \<and> tm_bytes m \<le> 500"
  using sample_run tool_memory_bounded [of 2 500 sample_calls] by fastforce

text \<open>A lookup never returns a stale text: whatever has been put, pruned and looked up before, the
  text found for an id is the one of the latest put for it.\<close>

theorem tool_memory_lookup_latest:
  assumes "tm_run n b cs m" "tool_memory_lookup_locked i m = Some (Some (s, bl, d), m')"
  shows "last_put cs i = Some d"
proof -
  obtain its where its: "repr m its" "run_ok (tool_memory_max_entries m) (tool_memory_max_bytes m) cs its"
    using run_repr [OF assms(1)] by blast
  have "fst (spec_lookup i its) = Some (s, d)" using lookup_repr [OF its(1), of i] assms(2) by auto
  then have "(i, d, s) \<in> set its" by (auto simp: spec_lookup_def dest: map_of_SomeD split: if_splits option.splits)
  then show ?thesis using its(2) by (auto simp: run_ok_def)
qed

theorem tool_memory_lookup_latest_witness:
  "\<exists>m r m'. tm_run 2 500 sample_calls m \<and> tool_memory_lookup_locked ''a'' m = Some (r, m')
    \<and> (\<forall>s bl d. r = Some (s, bl, d) \<longrightarrow> d = ''z'')"
proof -
  obtain m where m: "tm_run 2 500 sample_calls m" using sample_run by blast
  then obtain its where "repr m its" using run_repr by blast
  then obtain r m' where r: "tool_memory_lookup_locked ''a'' m = Some (r, m')" using lookup_repr by blast
  have "last_put sample_calls ''a'' = Some ''z''" by simp
  then have "d = ''z''" if "r = Some (s, bl, d)" for s bl d
    using tool_memory_lookup_latest [OF m, of "''a''" s bl d m'] r that by simp
  then show ?thesis using m r by blast
qed

text \<open>A call whose entry fits into the limits by itself is found by the lookup that follows its put,
  with the sampled text; a put from memory is reported as one.\<close>

theorem tool_memory_put_then_lookup:
  assumes "tm_run n b cs m" "fresh_call (Put i d s pe pb) m" "i \<noteq> []" "d \<noteq> []"
    and "length i + length d + 114 \<le> (if 0 < b then b else 512 * 1024 * 1024)"
  shows "\<exists>m1 s' bl m2. tool_memory_put_locked i d s pe pb m = Some m1
    \<and> tool_memory_lookup_locked i m1 = Some (Some (s', bl, d), m2) \<and> (s = TOOL_MEMORY_RAM \<longrightarrow> s' = TOOL_MEMORY_RAM)"
proof -
  obtain its where its: "repr m its" using run_repr [OF assms(1)] by blast
  let ?n = "tool_memory_max_entries m" and ?b = "tool_memory_max_bytes m"
  have fr: "pe \<notin> dom (tm_heap m)" "pb \<notin> dom (tm_blocks m)" using assms(2) by (auto simp: fresh_call_def)
  obtain m1 where m1: "tool_memory_put_locked i d s pe pb m = Some m1" "repr m1 (spec_put ?n ?b i d s its)"
    using put_repr [OF its fr] by blast
  have "\<not> spec_over ?n ?b [(i, d, t)]" for t
    using assms(5) run_limits [OF assms(1)]
    by (auto simp: spec_over_def spec_bytes_def item_bytes_def text_bytes_def sizeof_entry_def sizeof_block_def
        tool_memory_max_entries_def tool_memory_max_bytes_def split: if_splits)
  then obtain t ys where sp: "spec_put ?n ?b i d s its = (i, d, t) # ys" "s = TOOL_MEMORY_RAM \<longrightarrow> t = TOOL_MEMORY_RAM"
    using prune_keeps_front [of ?n ?b "(i, d, _)" "without i its"] assms(3,4)
    by (cases s) (fastforce simp: spec_put_def split: option.splits)+
  have "fst (spec_lookup i ((i, d, t) # ys)) = Some (t, d)" using assms(3) by (simp add: spec_lookup_def)
  then obtain r m2 where "tool_memory_lookup_locked i m1 = Some (r, m2)" "map_option (\<lambda>(s, b, d). (s, d)) r = Some (t, d)"
    using lookup_repr [OF m1(2), of i] sp(1) by auto
  then show ?thesis using m1(1) sp(2) by auto
qed

theorem tool_memory_put_then_lookup_witness:
  "\<exists>m m1 bl m2. tm_run 2 500 sample_calls m \<and> tool_memory_put_locked ''c'' ''w'' TOOL_MEMORY_RAM 9 9 m = Some m1
    \<and> tool_memory_lookup_locked ''c'' m1 = Some (Some (TOOL_MEMORY_RAM, bl, ''w''), m2)"
proof -
  obtain m where m: "tm_run 2 500 sample_calls m" "dom (tm_heap m) \<subseteq> {0, 1, 2}" "dom (tm_blocks m) \<subseteq> {0, 1, 2}"
    using sample_run by blast
  have "9 \<notin> dom (tm_heap m)" "9 \<notin> dom (tm_blocks m)" using m(2,3) by auto
  then have "fresh_call (Put ''c'' ''w'' TOOL_MEMORY_RAM 9 9) m" by (auto simp: fresh_call_def)
  from tool_memory_put_then_lookup [OF m(1) this] m(1) show ?thesis by fastforce
qed

end
