(* ===== verification/StreamText.thy ===== *)
theory StreamText
  imports CText
begin

text \<open>
  Streaming text to a client (\<^verbatim>\<open>ds4_server.c\<close>): the list of stop sequences and lists of ids, how much
  of the generated text can be sent while a stop sequence or a UTF-8 character may still be
  incomplete, and the plain-text stream of the decode loop. The text is a list of bytes without a
  NUL; positions are naturals up to its length.
\<close>

section \<open>Stop lists and id lists\<close>

record stop_list =
  sl_v :: "string list"
  sl_max_len :: nat

definition stop_list_clear :: "stop_list \<Rightarrow> stop_list" where
  "stop_list_clear l = \<lparr>sl_v = [], sl_max_len = 0\<rparr>"

definition stop_list_push :: "stop_list \<Rightarrow> string \<Rightarrow> stop_list" where
  "stop_list_push l s =
     (if s = [] then l
      else \<lparr>sl_v = sl_v l @ [s], sl_max_len = (if sl_max_len l < length s then length s else sl_max_len l)\<rparr>)"

definition id_list_contains :: "stop_list \<Rightarrow> string \<Rightarrow> bool" where
  "id_list_contains ids i \<longleftrightarrow> i \<noteq> [] \<and> i \<in> set (sl_v ids)"

definition id_list_push_unique :: "stop_list \<Rightarrow> string \<Rightarrow> stop_list" where
  "id_list_push_unique ids i = (if i = [] \<or> id_list_contains ids i then ids else stop_list_push ids i)"

text \<open>The position of a needle in the text behind an offset.\<close>

definition find_at :: "string \<Rightarrow> string \<Rightarrow> nat \<Rightarrow> nat option" where
  "find_at needle t from = map_option (\<lambda>r. length t - length r) (strstr_at needle (drop from t))"

fun find_best :: "string list \<Rightarrow> string \<Rightarrow> nat \<Rightarrow> (nat \<times> nat) option \<Rightarrow> (nat \<times> nat) option" where
  "find_best [] t from best = best"
| "find_best (v # vs) t from best =
     find_best vs t from
       (case find_at v t from of None \<Rightarrow> best
        | Some p \<Rightarrow> (case best of None \<Rightarrow> Some (p, length v)
                   | Some (bp, bl) \<Rightarrow> if p < bp then Some (p, length v) else best))"

definition stop_list_find_from :: "stop_list \<Rightarrow> string \<Rightarrow> nat \<Rightarrow> (nat \<times> nat) option" where
  "stop_list_find_from l t from = (if sl_v l = [] then None else find_best (sl_v l) t from None)"

definition stop_list_stream_safe_len :: "stop_list \<Rightarrow> nat \<Rightarrow> nat" where
  "stop_list_stream_safe_len l n =
     (if sl_v l = [] \<or> sl_max_len l \<le> 1 then n
      else let hold = sl_max_len l - 1 in if hold < n then n - hold else 0)"

section \<open>UTF-8\<close>

definition utf8_expected_len :: "char \<Rightarrow> nat" where
  "utf8_expected_len c =
     (if ord c < 0x80 then 1
      else if 0xC2 \<le> ord c \<and> ord c \<le> 0xDF then 2
      else if 0xE0 \<le> ord c \<and> ord c \<le> 0xEF then 3
      else if 0xF0 \<le> ord c \<and> ord c \<le> 0xF4 then 4
      else 1)"

text \<open>A continuation byte: its top bits are 10.\<close>

definition utf8_cont :: "char \<Rightarrow> bool" where
  "utf8_cont c \<longleftrightarrow> 0x80 \<le> ord c \<and> ord c < 0xC0"

text \<open>The loop that steps back over at most four continuation bytes.\<close>

fun utf8_back :: "string \<Rightarrow> nat \<Rightarrow> nat \<Rightarrow> nat \<Rightarrow> nat" where
  "utf8_back s start p 0 = p"
| "utf8_back s start p (Suc k) = (if start < p \<and> utf8_cont (s ! (p - 1)) then utf8_back s start (p - 1) k else p)"

definition utf8_stream_safe_len :: "string \<Rightarrow> nat \<Rightarrow> nat \<Rightarrow> bool \<Rightarrow> nat" where
  "utf8_stream_safe_len s start limit fin =
     (if fin \<or> limit \<le> start then limit
      else let p = utf8_back s start limit 4 in
        if p = limit then (if 1 < utf8_expected_len (s ! (limit - 1)) then limit - 1 else limit)
        else if p = start \<and> utf8_cont (s ! p) then start
        else let lead = p - 1; need = utf8_expected_len (s ! lead)
             in if limit - lead < need then lead else limit)"

section \<open>The plain-text stream of the decode loop\<close>

text \<open>What the decode loop keeps for a client that gets plain text: the text so far, where to look for
  stop sequences, how much has been sent, and the bytes sent. A token appends its piece.\<close>

record plain_stream =
  pt_text :: string
  pt_scan_from :: nat
  pt_pos :: nat
  pt_sent :: string
  pt_stopped :: bool

definition plain_start :: plain_stream where
  "plain_start = \<lparr>pt_text = [], pt_scan_from = 0, pt_pos = 0, pt_sent = [], pt_stopped = False\<rparr>"

definition plain_piece :: "stop_list \<Rightarrow> string \<Rightarrow> plain_stream \<Rightarrow> plain_stream" where
  "plain_piece stops piece st =
     (if pt_stopped st then st
      else let t = pt_text st @ piece;
             hit = stop_list_find_from stops t (pt_scan_from st);
             len0 = (case hit of Some (p, n) \<Rightarrow> p | None \<Rightarrow> stop_list_stream_safe_len stops (length t));
             len1 = (if length t < len0 then length t else len0);
             len2 = utf8_stream_safe_len t (pt_pos st) len1 (hit \<noteq> None);
             scan = (if hit = None \<and> 1 < sl_max_len stops
                     then (let hold = sl_max_len stops - 1 in if hold < length t then length t - hold else 0)
                     else pt_scan_from st);
             sent = (if pt_pos st < len2 then take (len2 - pt_pos st) (drop (pt_pos st) t) else [])
           in \<lparr>pt_text = (case hit of Some (p, n) \<Rightarrow> take p t | None \<Rightarrow> t),
               pt_scan_from = scan, pt_pos = (if pt_pos st < len2 then len2 else pt_pos st),
               pt_sent = pt_sent st @ sent, pt_stopped = (hit \<noteq> None)\<rparr>)"

definition plain_flush :: "plain_stream \<Rightarrow> plain_stream" where
  "plain_flush st =
     (if pt_pos st < length (pt_text st) then st\<lparr>pt_sent := pt_sent st @ drop (pt_pos st) (pt_text st)\<rparr> else st)"

definition plain_run :: "stop_list \<Rightarrow> string list \<Rightarrow> plain_stream" where
  "plain_run stops pieces = foldl (\<lambda>st piece. plain_piece stops piece st) plain_start pieces"

section \<open>Occurrences\<close>

definition occurs_at :: "string \<Rightarrow> string \<Rightarrow> nat \<Rightarrow> bool" where
  "occurs_at n t p \<longleftrightarrow> p + length n \<le> length t \<and> take (length n) (drop p t) = n"

lemma strstr_first:
  "strstr_at n s = (if \<exists>p. occurs_at n s p then Some (drop (LEAST p. occurs_at n s p) s) else None)"
proof (induction n s rule: strstr_at.induct)
  case (1 n s)
  have z: "occurs_at n s 0 \<longleftrightarrow> take (length n) s = n"
  proof
    assume "take (length n) s = n"
    then show "occurs_at n s 0" by (metis add_0 drop_0 length_take min.cobounded1 occurs_at_def)
  qed (simp add: occurs_at_def)
  show ?case
  proof (cases "take (length n) s = n")
    case True
    then have "occurs_at n s 0" using z by simp
    then have "(LEAST p. occurs_at n s p) = 0" by (simp add: Least_equality)
    then show ?thesis using True \<open>occurs_at n s 0\<close> by (subst strstr_at.simps) auto
  next
    case False
    show ?thesis
    proof (cases s)
      case Nil
      then have "\<not> occurs_at n s p" for p using False by (auto simp: occurs_at_def)
      then show ?thesis using False Nil by (subst strstr_at.simps) auto
    next
      case (Cons c r)
      have shift: "occurs_at n s (Suc p) \<longleftrightarrow> occurs_at n r p" for p using Cons by (simp add: occurs_at_def)
      have zero: "\<not> occurs_at n s 0" using False z by simp
      have ex: "(\<exists>p. occurs_at n s p) \<longleftrightarrow> (\<exists>p. occurs_at n r p)" using shift zero by (metis not0_implies_Suc)
      have lst: "(LEAST p. occurs_at n s p) = Suc (LEAST p. occurs_at n r p)" if "occurs_at n r q" for q
        using Least_Suc [of "occurs_at n s" "Suc q"] that shift zero by simp
      have "strstr_at n s = strstr_at n r" using False Cons by (subst strstr_at.simps) simp
      then show ?thesis using 1(1) [OF False Cons] ex lst Cons by auto
    qed
  qed
qed

lemma strstr_occurs:
  "occurs_at n s q \<Longrightarrow> strstr_at n s = Some (drop (LEAST p. occurs_at n s p) s)"
  "strstr_at n s = None \<longleftrightarrow> (\<forall>p. \<not> occurs_at n s p)"
  by (auto simp only: strstr_first split: if_splits)

lemma occurs_drop: "from \<le> length t \<Longrightarrow> occurs_at n (drop from t) p \<longleftrightarrow> occurs_at n t (from + p)"
  by (auto simp: occurs_at_def add.commute)

lemma find_at_Some:
  assumes "find_at n t from = Some p" "from \<le> length t"
  shows "from \<le> p" "occurs_at n t p" "\<And>q. from \<le> q \<Longrightarrow> q < p \<Longrightarrow> \<not> occurs_at n t q"
proof -
  let ?L = "LEAST q. occurs_at n (drop from t) q"
  obtain q where q: "occurs_at n (drop from t) q"
    using assms(1) strstr_occurs(2) [of n "drop from t"] by (auto simp: find_at_def)
  then have L: "occurs_at n (drop from t) ?L" by (rule LeastI)
  then have le: "from + ?L \<le> length t" using assms(2) by (auto simp: occurs_at_def)
  moreover have "p = length t - length (drop ?L (drop from t))"
    using assms(1) strstr_occurs(1) [OF q] by (simp add: find_at_def)
  ultimately have pe: "p = from + ?L" by simp
  then show "from \<le> p" by simp
  show "occurs_at n t p" using L occurs_drop [OF assms(2)] pe by simp
  show "\<not> occurs_at n t q" if "from \<le> q" "q < p" for q
  proof
    assume "occurs_at n t q"
    then have "occurs_at n (drop from t) (q - from)" using occurs_drop [OF assms(2), of n "q - from"] that(1) by simp
    then show False using Least_le [of "occurs_at n (drop from t)" "q - from"] that pe by simp
  qed
qed

lemma find_at_None:
  assumes "find_at n t from = None" "from \<le> length t" "from \<le> q"
  shows "\<not> occurs_at n t q"
proof
  assume "occurs_at n t q"
  then have "occurs_at n (drop from t) (q - from)" using occurs_drop [OF assms(2), of n "q - from"] assms(3) by simp
  then show False using assms(1) strstr_occurs(1) [of n "drop from t"] by (simp add: find_at_def)
qed

text \<open>The first stop: no stop begins earlier behind the offset.\<close>

definition first_stop :: "string list \<Rightarrow> string \<Rightarrow> nat \<Rightarrow> (nat \<times> nat) option \<Rightarrow> bool" where
  "first_stop vs t from r \<longleftrightarrow>
     (case r of None \<Rightarrow> \<forall>v\<in>set vs. \<forall>q\<ge>from. \<not> occurs_at v t q
      | Some (p, n) \<Rightarrow> from \<le> p \<and> (\<exists>v\<in>set vs. n = length v \<and> occurs_at v t p) \<and> (\<forall>v\<in>set vs. \<forall>q\<ge>from. q < p \<longrightarrow> \<not> occurs_at v t q))"

lemma find_best_first:
  assumes "from \<le> length t" "first_stop us t from best"
  shows "first_stop (us @ vs) t from (find_best vs t from best)"
  using assms(2)
proof (induction vs arbitrary: us best)
  case (Cons v vs)
  let ?b = "case find_at v t from of None \<Rightarrow> best
        | Some p \<Rightarrow> (case best of None \<Rightarrow> Some (p, length v) | Some (bp, bl) \<Rightarrow> if p < bp then Some (p, length v) else best)"
  have "first_stop (us @ [v]) t from ?b"
  proof (cases "find_at v t from")
    case None
    then show ?thesis using Cons.prems find_at_None [OF None assms(1)]
      by (auto simp: first_stop_def split: option.splits)
  next
    case (Some p)
    note f = find_at_Some [OF Some assms(1)]
    show ?thesis
    proof (cases best)
      case None
      then show ?thesis using Cons.prems Some f by (auto simp: first_stop_def)
    next
      case b: (Some r)
      obtain bp bl where r: "r = (bp, bl)" by (cases r)
      show ?thesis using Cons.prems Some f b r by (cases "p < bp") (auto simp: first_stop_def)
    qed
  qed
  from Cons.IH [OF this] show ?case by simp
qed simp

lemma find_from_first:
  assumes "from \<le> length t"
  shows "first_stop (sl_v l) t from (stop_list_find_from l t from)"
proof (cases "sl_v l = []")
  case False
  have "first_stop [] t from None" by (simp add: first_stop_def)
  from find_best_first [OF assms this, of "sl_v l"] show ?thesis using False by (simp add: stop_list_find_from_def)
qed (simp add: stop_list_find_from_def first_stop_def)

section \<open>What the stream sends\<close>

definition stops_ok :: "stop_list \<Rightarrow> bool" where
  "stops_ok l \<longleftrightarrow> (\<forall>v\<in>set (sl_v l). v \<noteq> [] \<and> length v \<le> sl_max_len l)"

lemma stops_ok_clear [simp]: "stops_ok (stop_list_clear l)"
  by (simp add: stops_ok_def stop_list_clear_def)

lemma stops_ok_push [simp]: "stops_ok l \<Longrightarrow> stops_ok (stop_list_push l s)"
  by (auto simp: stops_ok_def stop_list_push_def)

definition no_stop :: "stop_list \<Rightarrow> string \<Rightarrow> bool" where
  "no_stop l t \<longleftrightarrow> (\<forall>v\<in>set (sl_v l). \<forall>q. \<not> occurs_at v t q)"

lemma safe_len_le: "stop_list_stream_safe_len l n \<le> n"
  by (simp add: stop_list_stream_safe_len_def Let_def) linarith

lemma safe_len_mono: "n \<le> k \<Longrightarrow> stop_list_stream_safe_len l n \<le> stop_list_stream_safe_len l k"
  by (auto simp: stop_list_stream_safe_len_def Let_def)

text \<open>A stop that is complete only with the next piece begins behind the part that may be sent.\<close>

lemma stop_behind_safe:
  assumes "stops_ok l" "no_stop l t" "v \<in> set (sl_v l)" "occurs_at v (t @ piece) q"
  shows "stop_list_stream_safe_len l (length t) \<le> q"
proof -
  have v: "v \<noteq> []" "length v \<le> sl_max_len l" using assms(1,3) by (auto simp: stops_ok_def)
  have "\<not> q + length v \<le> length t"
  proof
    assume "q + length v \<le> length t"
    then have "occurs_at v t q" using assms(4) by (simp add: occurs_at_def)
    then show False using assms(2,3) by (auto simp: no_stop_def)
  qed
  then have "length t < q + length v" by simp
  moreover have "sl_v l \<noteq> []" using assms(3) by auto
  ultimately show ?thesis using v by (auto simp: stop_list_stream_safe_len_def Let_def)
qed

lemma utf8_le: "utf8_stream_safe_len s start limit fin \<le> limit"
proof -
  have "utf8_back s start limit k \<le> limit" for k
  proof (induction k arbitrary: limit)
    case (Suc k)
    show ?case using Suc [of "limit - 1"] by (auto intro: le_trans)
  qed simp
  from this [of 4] show ?thesis by (auto simp: utf8_stream_safe_len_def Let_def)
qed

definition stream_inv :: "stop_list \<Rightarrow> plain_stream \<Rightarrow> bool" where
  "stream_inv l st \<longleftrightarrow> no_stop l (pt_text st) \<and> pt_pos st \<le> stop_list_stream_safe_len l (length (pt_text st))
     \<and> pt_sent st = take (pt_pos st) (pt_text st)
     \<and> (sl_v l \<noteq> [] \<longrightarrow> pt_scan_from st \<le> stop_list_stream_safe_len l (length (pt_text st)))
     \<and> pt_scan_from st \<le> length (pt_text st)"

lemma sent_extend: "a \<le> b \<Longrightarrow> take a t @ take (b - a) (drop a t) = take b t"
  by (metis le_add_diff_inverse take_add)

lemma piece_no_hit:
  assumes "stops_ok l" "\<not> pt_stopped st" "stream_inv l st"
    and "stop_list_find_from l (pt_text st @ piece) (pt_scan_from st) = None"
  shows "stream_inv l (plain_piece l piece st)" "\<not> pt_stopped (plain_piece l piece st)"
    "pt_text (plain_piece l piece st) = pt_text st @ piece"
proof -
  let ?t = "pt_text st @ piece"
  let ?u = "utf8_stream_safe_len ?t (pt_pos st) (stop_list_stream_safe_len l (length ?t)) False"
  have sf: "pt_scan_from st \<le> length ?t" using assms(3) by (simp add: stream_inv_def)
  have ns: "no_stop l ?t"
  proof (cases "sl_v l = []")
    case False
    have "\<not> occurs_at v ?t q" if v: "v \<in> set (sl_v l)" for v q
    proof
      assume o: "occurs_at v ?t q"
      have "stop_list_stream_safe_len l (length (pt_text st)) \<le> q"
        using stop_behind_safe [OF assms(1) _ v o] assms(3) by (simp add: stream_inv_def)
      then have "pt_scan_from st \<le> q" using assms(3) False by (simp add: stream_inv_def)
      then show False using find_from_first [OF sf, of l] assms(4) v o by (auto simp: first_stop_def)
    qed
    then show ?thesis by (simp add: no_stop_def)
  qed (simp add: no_stop_def)
  have u: "?u \<le> stop_list_stream_safe_len l (length ?t)" by (rule utf8_le)
  have m: "stop_list_stream_safe_len l (length (pt_text st)) \<le> stop_list_stream_safe_len l (length ?t)"
    by (rule safe_len_mono) simp
  have st: "take (pt_pos st) (pt_text st) = take (pt_pos st) ?t" "pt_pos st \<le> length (pt_text st)"
    using assms(3) safe_len_le [of l "length (pt_text st)"] by (auto simp: stream_inv_def)
  show "\<not> pt_stopped (plain_piece l piece st)" "pt_text (plain_piece l piece st) = pt_text st @ piece"
    using assms(2,4) by (simp_all add: plain_piece_def Let_def)
  define st' where "st' = plain_piece l piece st"
  have nl: "\<not> length ?t < stop_list_stream_safe_len l (length ?t)" using safe_len_le [of l "length ?t"] by simp
  have f: "pt_text st' = ?t" "pt_pos st' = max (pt_pos st) ?u"
    "pt_sent st' = pt_sent st @ (if pt_pos st < ?u then take (?u - pt_pos st) (drop (pt_pos st) ?t) else [])"
    "pt_scan_from st' = (if 1 < sl_max_len l then length ?t - (sl_max_len l - 1) else pt_scan_from st)"
    using assms(2,4) nl by (auto simp: st'_def plain_piece_def Let_def max_def simp del: length_append)
  have "pt_sent st' = take (pt_pos st') ?t"
    using st assms(3) sent_extend [of "pt_pos st" ?u ?t] unfolding f by (simp add: stream_inv_def max_def)
  moreover have "pt_pos st' \<le> stop_list_stream_safe_len l (length ?t)"
    using u m assms(3) unfolding f by (simp add: stream_inv_def)
  moreover have "pt_scan_from st' \<le> stop_list_stream_safe_len l (length ?t)" if "sl_v l \<noteq> []"
    using that assms(3) m unfolding f by (auto simp: stream_inv_def stop_list_stream_safe_len_def Let_def)
  moreover have "pt_scan_from st' \<le> length ?t" using sf unfolding f by (simp split: if_split) linarith
  ultimately show "stream_inv l (plain_piece l piece st)"
    using ns unfolding st'_def [symmetric] stream_inv_def f(1) by blast
qed

lemma piece_hit:
  assumes "stops_ok l" "\<not> pt_stopped st" "stream_inv l st"
    and hit: "stop_list_find_from l (pt_text st @ piece) (pt_scan_from st) = Some (p, n)"
  shows "pt_stopped (plain_piece l piece st)" "pt_text (plain_piece l piece st) = take p (pt_text st @ piece)"
    "pt_sent (plain_piece l piece st) = take p (pt_text st @ piece)" "pt_pos (plain_piece l piece st) = p" "p \<le> length (pt_text st @ piece)"
    "\<exists>v\<in>set (sl_v l). occurs_at v (pt_text st @ piece) p"
    "\<forall>v\<in>set (sl_v l). \<forall>q<p. \<not> occurs_at v (pt_text st @ piece) q"
proof -
  let ?t = "pt_text st @ piece"
  have sf: "pt_scan_from st \<le> length ?t" using assms(3) by (simp add: stream_inv_def)
  note fs = find_from_first [OF sf, of l, unfolded hit first_stop_def, simplified]
  show ex: "\<exists>v\<in>set (sl_v l). occurs_at v ?t p" using fs by blast
  then show pl: "p \<le> length ?t" by (auto simp: occurs_at_def)
  have ne: "sl_v l \<noteq> []" using ex by auto
  have behind: "stop_list_stream_safe_len l (length (pt_text st)) \<le> q" if "v \<in> set (sl_v l)" "occurs_at v ?t q" for v q
    using stop_behind_safe [OF assms(1) _ that] assms(3) by (simp add: stream_inv_def)
  have pos: "pt_pos st \<le> p" using ex behind assms(3) by (fastforce simp: stream_inv_def)
  show "\<forall>v\<in>set (sl_v l). \<forall>q<p. \<not> occurs_at v ?t q"
  proof (intro ballI allI impI notI)
    fix v q assume v: "v \<in> set (sl_v l)" "q < p" "occurs_at v ?t q"
    have "pt_scan_from st \<le> q" using behind [OF v(1,3)] assms(3) ne by (simp add: stream_inv_def)
    then show False using fs v by blast
  qed
  have le: "pt_pos st \<le> length (pt_text st)"
    using assms(3) safe_len_le [of l "length (pt_text st)"] by (auto simp: stream_inv_def)
  then have st: "pt_sent st = take (pt_pos st) ?t" using assms(3) by (simp add: stream_inv_def)
  have u: "utf8_stream_safe_len ?t (pt_pos st) p True = p" by (simp add: utf8_stream_safe_len_def)
  have se: "take (pt_pos st) ?t @ take (p - pt_pos st) (drop (pt_pos st) ?t) = take p ?t" using pos by (rule sent_extend)
  show "pt_stopped (plain_piece l piece st)" "pt_text (plain_piece l piece st) = take p ?t"
    using assms(2) hit by (simp_all add: plain_piece_def Let_def)
  show "pt_pos (plain_piece l piece st) = p" "pt_sent (plain_piece l piece st) = take p ?t"
    using assms(2) hit u pos pl st se by (auto simp: plain_piece_def Let_def)
qed

lemma stopped_stays: "pt_stopped st \<Longrightarrow> foldl (\<lambda>st piece. plain_piece l piece st) st ps = st"
  by (induction ps arbitrary: st) (simp_all add: plain_piece_def)

text \<open>Where the stream is after some pieces, from any state in the invariant.\<close>

lemma stream_run:
  assumes "stops_ok l" "\<not> pt_stopped st" "stream_inv l st"
    and "st' = foldl (\<lambda>st piece. plain_piece l piece st) st pieces"
  shows "(if pt_stopped st'
      then \<exists>k<length pieces. \<exists>t. t = pt_text st @ concat (take (Suc k) pieces) \<and> pt_text st' = take (length (pt_text st')) t
          \<and> pt_sent st' = pt_text st' \<and> pt_pos st' = length (pt_text st') \<and> no_stop l (pt_text st @ concat (take k pieces))
          \<and> (\<exists>v\<in>set (sl_v l). occurs_at v t (length (pt_text st'))) \<and> (\<forall>v\<in>set (sl_v l). \<forall>q<length (pt_text st'). \<not> occurs_at v t q)
      else pt_text st' = pt_text st @ concat pieces \<and> stream_inv l st')"
  using assms(2-4)
proof (induction pieces arbitrary: st)
  case (Cons x pieces)
  show ?case
  proof (cases "stop_list_find_from l (pt_text st @ x) (pt_scan_from st)")
    case None
    note n = piece_no_hit [OF assms(1) Cons.prems(1,2) None]
    have "st' = foldl (\<lambda>st piece. plain_piece l piece st) (plain_piece l x st) pieces" using Cons.prems(3) by simp
    note ih = Cons.IH [OF n(2,1) this]
    show ?thesis
    proof (cases "pt_stopped st'")
      case True
      then obtain k where k: "k < length pieces"
        "\<exists>t. t = pt_text (plain_piece l x st) @ concat (take (Suc k) pieces) \<and> pt_text st' = take (length (pt_text st')) t
          \<and> pt_sent st' = pt_text st' \<and> pt_pos st' = length (pt_text st') \<and> no_stop l (pt_text (plain_piece l x st) @ concat (take k pieces))
          \<and> (\<exists>v\<in>set (sl_v l). occurs_at v t (length (pt_text st'))) \<and> (\<forall>v\<in>set (sl_v l). \<forall>q<length (pt_text st'). \<not> occurs_at v t q)"
        using ih by (simp only: if_True) blast
      then show ?thesis using True n(3) by (simp only: if_True) (intro exI [of _ "Suc k"], simp)
    next
      case False
      then show ?thesis using ih n(3) by simp
    qed
  next
    case (Some r)
    obtain p m where "r = (p, m)" by (cases r)
    note h = piece_hit [OF assms(1) Cons.prems(1,2) Some [unfolded this]]
    have e: "st' = plain_piece l x st" using stopped_stays [OF h(1), of l pieces] Cons.prems(3) by simp
    have "no_stop l (pt_text st)" using Cons.prems(2) by (simp add: stream_inv_def)
    moreover have "length (pt_text st') = p" using h(2,5) e by simp
    ultimately show ?thesis using h e by (simp only: if_True) (intro exI [of _ 0], simp)
  qed
qed simp

lemma start_inv: "stops_ok l \<Longrightarrow> stream_inv l plain_start"
  by (auto simp: stream_inv_def plain_start_def no_stop_def occurs_at_def stops_ok_def)

section \<open>Whole characters\<close>

definition utf8_char :: "string \<Rightarrow> bool" where
  "utf8_char c \<longleftrightarrow> c \<noteq> [] \<and> length c = utf8_expected_len (hd c) \<and> \<not> utf8_cont (hd c) \<and> (\<forall>x\<in>set (tl c). utf8_cont x)"

lemma utf8_back_over:
  assumes "\<forall>y\<in>set ys. utf8_cont y" "\<not> utf8_cont x" "length ys \<le> k" "start \<le> length u"
  shows "utf8_back (u @ x # ys @ r) start (length u + 1 + length ys) k = length u + 1"
  using assms
proof (induction ys arbitrary: r k rule: rev_induct)
  case Nil
  then show ?case by (cases k) (auto simp: nth_append)
next
  case (snoc y ys)
  then obtain k' where k: "k = Suc k'" "length ys \<le> k'" by (cases k) auto
  have "(u @ x # (ys @ [y]) @ r) ! (length u + 1 + length ys) = y" by (simp add: nth_append)
  then show ?case using snoc.IH [of k' "y # r"] snoc.prems k by simp
qed

lemma expected_len_le: "utf8_expected_len c \<le> 4"
  by (simp add: utf8_expected_len_def)

lemma utf8_safe_char:
  assumes "utf8_char c" "0 < m" "m \<le> length c" "start \<le> length u"
  shows "utf8_stream_safe_len (u @ take m c @ r) start (length u + m) False
    = (if m < length c then length u else length u + m)"
proof -
  obtain x ys where c: "c = x # ys" using assms(1) by (cases c) (auto simp: utf8_char_def)
  let ?zs = "take (m - 1) ys"
  let ?s = "u @ x # ?zs @ r"
  have s: "u @ take m c @ r = ?s" using assms(2) c by (cases m) simp_all
  have z: "length ?zs = m - 1" "\<forall>y\<in>set ?zs. utf8_cont y" "\<not> utf8_cont x" "utf8_expected_len x = length c"
    using assms(1,3) c by (auto simp: utf8_char_def dest: in_set_takeD)
  have "m - 1 \<le> 4" using assms(3) expected_len_le [of x] z(4) by simp
  then have b: "utf8_back ?s start (length u + m) 4 = length u + 1"
    using utf8_back_over [of ?zs x 4 start u r] z assms(2,4) by simp
  have lead: "?s ! length u = x" by (simp add: nth_append)
  have ns: "\<not> length u + m \<le> start" "length u + 1 \<noteq> start" using assms(2,4) by simp_all
  show ?thesis
  proof (cases "m = 1")
    case True
    then show ?thesis unfolding s using b lead ns z(4) assms(2,3) by (simp add: utf8_stream_safe_len_def Let_def)
  next
    case False
    then show ?thesis unfolding s using b lead ns z(4) assms(2,3) by (simp add: utf8_stream_safe_len_def Let_def)
  qed
qed

end
