(* ===== verification/StreamProps.thy ===== *)
theory StreamProps
  imports StreamText
begin

text \<open>The properties of streamed text.\<close>

abbreviation sample_stops :: stop_list where
  "sample_stops \<equiv> stop_list_push (stop_list_push (stop_list_clear \<lparr>sl_v = [], sl_max_len = 0\<rparr>) ''STOP'') ''END''"

text \<open>C11: What a client of a plain-text stream receives, flushed at the end, is exactly the text of the
  answer, however the model splits it into tokens: nothing of a stop sequence is ever sent and nothing
  in front of it is lost. Without a stop the answer is the whole text; otherwise it is the text in front
  of the first stop in the text up to the token that completed it.\<close>

theorem plain_stream_exact:
  assumes "stops_ok l" "st = plain_run l pieces"
  shows "pt_sent (plain_flush st) = pt_text st
    \<and> (if pt_stopped st
       then \<exists>k<length pieces. \<exists>t. t = concat (take (Suc k) pieces) \<and> pt_text st = take (length (pt_text st)) t
          \<and> no_stop l (concat (take k pieces)) \<and> (\<exists>v\<in>set (sl_v l). occurs_at v t (length (pt_text st)))
          \<and> (\<forall>v\<in>set (sl_v l). \<forall>q<length (pt_text st). \<not> occurs_at v t q)
       else pt_text st = concat pieces \<and> no_stop l (concat pieces))"
proof -
  have s: "\<not> pt_stopped plain_start" "pt_text plain_start = []" by (simp_all add: plain_start_def)
  note r = stream_run [OF assms(1) s(1) start_inv [OF assms(1)] assms(2) [unfolded plain_run_def]]
  show ?thesis
  proof (cases "pt_stopped st")
    case True
    then obtain k t where "k < length pieces" "t = concat (take (Suc k) pieces)" "pt_text st = take (length (pt_text st)) t"
      "pt_sent st = pt_text st" "pt_pos st = length (pt_text st)" "no_stop l (concat (take k pieces))"
      "\<exists>v\<in>set (sl_v l). occurs_at v t (length (pt_text st))" "\<forall>v\<in>set (sl_v l). \<forall>q<length (pt_text st). \<not> occurs_at v t q"
      using r s(2) by (simp only: if_True append_Nil) blast
    moreover from this have "pt_sent (plain_flush st) = pt_text st" by (simp add: plain_flush_def)
    ultimately show ?thesis using True by (simp only: if_True) blast
  next
    case False
    then have i: "stream_inv l st" "pt_text st = concat pieces" using r s(2) by simp_all
    then have "pt_sent (plain_flush st) = pt_text st" by (auto simp: stream_inv_def plain_flush_def)
    then show ?thesis using False i by (simp add: stream_inv_def)
  qed
qed

theorem plain_stream_exact_witness:
  "let st = plain_run sample_stops [''ab'', ''cST'', ''OPx'', ''yy''] in
     pt_sent (plain_flush st) = pt_text st \<and> pt_text st = ''abc'' \<and> pt_stopped st"
proof -
  have "stops_ok sample_stops" by simp
  from plain_stream_exact [OF this refl, of "[''ab'', ''cST'', ''OPx'', ''yy'']"]
  have "pt_sent (plain_flush (plain_run sample_stops [''ab'', ''cST'', ''OPx'', ''yy''])) =
      pt_text (plain_run sample_stops [''ab'', ''cST'', ''OPx'', ''yy''])" by blast
  moreover have "pt_text (plain_run sample_stops [''ab'', ''cST'', ''OPx'', ''yy'']) = ''abc''"
    "pt_stopped (plain_run sample_stops [''ab'', ''cST'', ''OPx'', ''yy''])" by code_simp+
  ultimately show ?thesis by (simp only: Let_def)
qed

text \<open>A streamed chunk ends at a character: of a text of whole characters the last of which may be
  cut, everything is released except the bytes of the cut one.\<close>

theorem stream_cut_at_character:
  assumes "\<forall>d\<in>set cs. utf8_char d" "utf8_char c" "m < length c"
  shows "utf8_stream_safe_len (a @ concat cs @ take m c @ r) (length a) (length (a @ concat cs @ take m c)) False
    = length (a @ concat cs)"
proof (cases "m = 0")
  case m: True
  show ?thesis
  proof (cases cs rule: rev_cases)
    case Nil
    then show ?thesis using m by (simp add: utf8_stream_safe_len_def)
  next
    case (snoc ds d)
    then have d: "utf8_char d" using assms(1) by simp
    then have "d \<noteq> []" by (simp add: utf8_char_def)
    then have d0: "0 < length d" by simp
    show ?thesis using utf8_safe_char [OF d d0 order.refl, of "length a" "a @ concat ds" r] m snoc by (simp add: add.assoc)
  qed
next
  case False
  then show ?thesis using utf8_safe_char [OF assms(2), of m "length a" "a @ concat cs" r] assms(3) by (simp add: add.assoc)
qed

theorem stream_cut_at_character_witness:
  "utf8_stream_safe_len (''x'' @ concat [[CHR 0xC3, CHR 0xA9], ''z''] @ take 2 [CHR 0xE2, CHR 0x82, CHR 0xAC] @ []) (length ''x'')
     (length (''x'' @ concat [[CHR 0xC3, CHR 0xA9], ''z''] @ take 2 [CHR 0xE2, CHR 0x82, CHR 0xAC])) False
   = length (''x'' @ concat [[CHR 0xC3, CHR 0xA9], ''z''])"
  by (rule stream_cut_at_character) (simp_all add: utf8_char_def utf8_expected_len_def utf8_cont_def ord_def)

end
