(* ===== verification/ChatPrompt.thy ===== *)
theory ChatPrompt
  imports StreamText DsmlParse
begin

text \<open>
  A conversation as the model sees it (\<^verbatim>\<open>ds4_server.c\<close>): the messages of a request rendered into
  one prompt, the tail that continues a live tool call, the checks that every tool result answers
  a known call, and the preparation of a live continuation.
\<close>

section \<open>Messages\<close>

datatype think_mode = DS4_THINK_NONE | DS4_THINK_HIGH | DS4_THINK_MAX

datatype api_style = API_OPENAI | API_ANTHROPIC | API_RESPONSES

datatype req_kind = REQ_CHAT | REQ_COMPLETION

definition ds4_think_mode_enabled :: "think_mode \<Rightarrow> bool" where
  "ds4_think_mode_enabled m \<longleftrightarrow> m = DS4_THINK_HIGH \<or> m = DS4_THINK_MAX"

record chat_msg =
  cm_role :: string
  cm_content :: "string option"
  cm_reasoning :: "string option"
  cm_tool_call_id :: "string option"
  cm_tool_call_ids :: "string list"
  cm_calls :: tool_calls

definition role_is_system :: "string \<Rightarrow> bool" where
  "role_is_system r \<longleftrightarrow> r = ''system'' \<or> r = ''developer''"

definition role_is_user_like :: "string \<Rightarrow> bool" where
  "role_is_user_like r \<longleftrightarrow> r = ''user'' \<or> r = ''tool'' \<or> r = ''function''"

text \<open>A string pointer read as a string: NULL is empty.\<close>

definition str :: "string option \<Rightarrow> string" where
  "str s = (case s of None \<Rightarrow> [] | Some t \<Rightarrow> t)"

definition chat_history_uses_tool_context :: "chat_msg list \<Rightarrow> string option \<Rightarrow> bool" where
  "chat_history_uses_tool_context msgs schemas \<longleftrightarrow>
     str schemas \<noteq> [] \<or> (\<exists>m\<in>set msgs. (cm_role m = ''assistant'' \<and> tcs_v (cm_calls m) \<noteq> [])
                                  \<or> cm_role m = ''tool'' \<or> cm_role m = ''function'')"

section \<open>Fixed text\<close>

text \<open>The special tokens as text; their bars and blocks are UTF-8.\<close>

definition BLK :: string where "BLK = [CHR 0xE2, CHR 0x96, CHR 0x81]"
definition tok :: "string \<Rightarrow> string" where "tok s = ''<'' @ BAR @ s @ BAR @ ''>''"
definition BOS_TEXT :: string where "BOS_TEXT = tok (''begin'' @ BLK @ ''of'' @ BLK @ ''sentence'')"
definition EOS_TEXT :: string where "EOS_TEXT = tok (''end'' @ BLK @ ''of'' @ BLK @ ''sentence'')"
definition USER_TEXT :: string where "USER_TEXT = tok ''User''"
definition ASSISTANT_TEXT :: string where "ASSISTANT_TEXT = tok ''Assistant''"

definition ds4_think_max_prefix :: string where
  "ds4_think_max_prefix =
     ''Reasoning Effort: Absolute maximum with no shortcuts permitted.'' @ [LF] @
     ''You MUST be very thorough in your thinking and comprehensively decompose the problem to resolve the root cause, rigorously stress-testing your logic against all potential paths, edge cases, and adversarial scenarios.'' @ [LF] @
     ''Explicitly write out your entire deliberation process, documenting every intermediate step, considered alternative, and rejected hypothesis to ensure absolutely no assumption is left unchecked.'' @ [LF, LF]"

definition append_tools_prompt_text :: "string \<Rightarrow> string" where
  "append_tools_prompt_text schemas =
     (if schemas = [] then []
      else ''## Tools'' @ [LF, LF] @
        ''You have access to a set of tools to help answer the user question. '' @
        ''You can invoke tools by writing a '' @ [QUOTE] @ ''<'' @ DS4_DSML @ ''tool_calls>'' @ [QUOTE] @
        '' block like the following:'' @ [LF, LF] @
        ''<'' @ DS4_DSML @ ''tool_calls>'' @ [LF] @
        ''<'' @ DS4_DSML @ ''invoke name='' @ [QUOTE] @ ''$TOOL_NAME'' @ [QUOTE] @ ''>'' @ [LF] @
        ''<'' @ DS4_DSML @ ''parameter name='' @ [QUOTE] @ ''$PARAMETER_NAME'' @ [QUOTE] @ '' string='' @ [QUOTE] @
        ''true|false'' @ [QUOTE] @ ''>$PARAMETER_VALUE</'' @ DS4_DSML @ ''parameter>'' @ [LF] @
        ''...'' @ [LF] @
        ''</'' @ DS4_DSML @ ''invoke>'' @ [LF] @
        ''<'' @ DS4_DSML @ ''invoke name='' @ [QUOTE] @ ''$TOOL_NAME2'' @ [QUOTE] @ ''>'' @ [LF] @
        ''...'' @ [LF] @
        ''</'' @ DS4_DSML @ ''invoke>'' @ [LF] @
        ''</'' @ DS4_DSML @ ''tool_calls>'' @ [LF, LF] @
        ''String parameters should be specified as raw text and set `string='' @ [QUOTE] @ ''true'' @ [QUOTE] @ ''`. '' @
        ''Preserve characters such as `>`, `&`, and `&&` exactly; never replace normal string characters with XML or HTML entity escapes. '' @
        ''Only if a string value itself contains the exact closing parameter tag `</'' @ DS4_DSML @
        ''parameter>`, write that tag as `&lt;/'' @ DS4_DSML @ ''parameter>` inside the value. '' @
        ''For all other types (numbers, booleans, arrays, objects), pass the value in JSON format and set `string='' @
        [QUOTE] @ ''false'' @ [QUOTE] @ ''`.'' @ [LF, LF] @
        ''If thinking_mode is enabled (triggered by <think>), you MUST output your complete reasoning inside <think>...</think> BEFORE any tool calls or final response.'' @ [LF, LF] @
        ''Otherwise, output directly after </think> with tool calls or final response.'' @ [LF, LF] @
        ''### Available Tool Schemas'' @ [LF, LF] @ schemas @ [LF, LF] @
        ''You MUST strictly follow the above defined tool name and parameter schemas to invoke tool calls. '' @
        ''Use the exact parameter names from the schemas.'')"

section \<open>Rendering\<close>

text \<open>The text so far, whether an assistant turn is due, and whether the last message was a tool
  result. \<open>show_reasoning\<close> says whether a past turn keeps its reasoning.\<close>

type_synonym render_state = "string \<times> bool \<times> bool"

definition render_msg :: "bool \<Rightarrow> chat_msg \<Rightarrow> render_state \<Rightarrow> render_state" where
  "render_msg show_reasoning m st = (case st of (out, pending_assistant, pending_tool_result) \<Rightarrow>
     if role_is_system (cm_role m) then st
     else if cm_role m = ''user'' then (out @ USER_TEXT @ str (cm_content m), True, False)
     else if cm_role m = ''tool'' \<or> cm_role m = ''function''
     then (out @ (if pending_tool_result then [] else USER_TEXT) @ ''<tool_result>''
             @ append_tool_result_text (str (cm_content m)) @ ''</tool_result>'', True, True)
     else if cm_role m = ''assistant''
     then (out @ (if pending_assistant
                  then ASSISTANT_TEXT @ (if show_reasoning
                         then ''<think>'' @ str (cm_reasoning m) @ ''</think>'' else ''</think>'')
                  else [])
             @ str (cm_content m) @ append_dsml_tool_calls_text (cm_calls m) @ EOS_TEXT, False, False)
     else st)"

fun render_from :: "(nat \<Rightarrow> bool) \<Rightarrow> nat \<Rightarrow> chat_msg list \<Rightarrow> render_state \<Rightarrow> render_state" where
  "render_from sr i [] st = st"
| "render_from sr i (m # ms) st = render_from sr (Suc i) ms (render_msg (sr i) m st)"

definition render_end :: "bool \<Rightarrow> render_state \<Rightarrow> string" where
  "render_end think st = (case st of (out, pending_assistant, _) \<Rightarrow>
     out @ (if pending_assistant then ASSISTANT_TEXT @ (if think then ''<think>'' else ''</think>'') else []))"

fun last_user_from :: "nat \<Rightarrow> chat_msg list \<Rightarrow> int \<Rightarrow> int" where
  "last_user_from i [] l = l"
| "last_user_from i (m # ms) l = last_user_from (Suc i) ms (if role_is_user_like (cm_role m) then int i else l)"

fun system_text :: "chat_msg list \<Rightarrow> string \<Rightarrow> string" where
  "system_text [] s = s"
| "system_text (m # ms) s =
     system_text ms (if role_is_system (cm_role m) then s @ (if s \<noteq> [] then [LF, LF] else []) @ str (cm_content m) else s)"

definition render_chat_prompt_text :: "chat_msg list \<Rightarrow> string option \<Rightarrow> think_mode \<Rightarrow> string" where
  "render_chat_prompt_text msgs schemas mode =
     (let think = ds4_think_mode_enabled mode;
          tool_context = chat_history_uses_tool_context msgs schemas;
          system = system_text msgs (append_tools_prompt_text (str schemas));
          last_user_idx = last_user_from 0 msgs (-1);
          out = BOS_TEXT @ (if mode = DS4_THINK_MAX then ds4_think_max_prefix else []) @ system
      in render_end think
           (render_from (\<lambda>i. think \<and> (tool_context \<or> last_user_idx < int i)) 0 msgs (out, False, False)))"

text \<open>The messages from \<open>start\<close> on, behind a turn that is already in the session.\<close>

definition render_live_tool_tail :: "chat_msg list \<Rightarrow> nat \<Rightarrow> think_mode \<Rightarrow> string" where
  "render_live_tool_tail msgs start mode =
     (let think = ds4_think_mode_enabled mode
      in render_end think (render_from (\<lambda>i. think) start (drop start msgs) (EOS_TEXT, False, False)))"

section \<open>Tool results answer known calls\<close>

definition call_ids :: "tool_calls \<Rightarrow> string list" where
  "call_ids calls = map (\<lambda>c. str (tc_id c)) (tcs_v calls)"

definition chat_msg_has_call_id :: "chat_msg \<Rightarrow> string \<Rightarrow> bool" where
  "chat_msg_has_call_id m i \<longleftrightarrow> i \<noteq> [] \<and> cm_role m = ''assistant'' \<and> i \<in> set (call_ids (cm_calls m))"

definition push_ids :: "string list \<Rightarrow> stop_list \<Rightarrow> stop_list" where
  "push_ids xs ids = foldl id_list_push_unique ids xs"

definition chat_msg_collect_tool_call_ids :: "chat_msg \<Rightarrow> stop_list \<Rightarrow> stop_list" where
  "chat_msg_collect_tool_call_ids m ids =
     push_ids (cm_tool_call_ids m) (id_list_push_unique ids (str (cm_tool_call_id m)))"

definition collect_tool_call_ids :: "chat_msg list \<Rightarrow> stop_list \<Rightarrow> stop_list" where
  "collect_tool_call_ids msgs ids =
     foldl (\<lambda>l m. push_ids (call_ids (cm_calls m)) (chat_msg_collect_tool_call_ids m l)) ids msgs"

definition no_ids :: stop_list where
  "no_ids = \<lparr>sl_v = [], sl_max_len = 0\<rparr>"

text \<open>The latest earlier message with the call.\<close>

definition responses_find_prior_call_msg :: "chat_msg list \<Rightarrow> nat \<Rightarrow> string \<Rightarrow> chat_msg option" where
  "responses_find_prior_call_msg msgs bound i =
     (if i = [] then None else find (\<lambda>m. chat_msg_has_call_id m i) (rev (take bound msgs)))"

definition snprintf :: "nat \<Rightarrow> string \<Rightarrow> string" where
  "snprintf n s = take (n - 1) s"

text \<open>The result is an error message, or whether live tool state and live reasoning are required.\<close>

fun responses_check_ids ::
  "(string \<Rightarrow> bool) \<Rightarrow> chat_msg list \<Rightarrow> nat \<Rightarrow> bool \<Rightarrow> nat \<Rightarrow> string list \<Rightarrow> bool \<times> bool \<Rightarrow> string + bool \<times> bool" where
  "responses_check_ids live msgs i needs errlen [] st = Inr st"
| "responses_check_ids live msgs i needs errlen (x # ids) (tool, reas) =
     (case responses_find_prior_call_msg msgs i x of
        None \<Rightarrow>
          if \<not> live x
          then Inl (snprintf errlen (''Responses continuation state is not available for call_id '' @ x
                                     @ ''; retry by replaying the full input history''))
          else responses_check_ids live msgs i needs errlen ids (True, reas)
      | Some prior \<Rightarrow>
          responses_check_ids live msgs i needs errlen ids (tool, reas \<or> (needs \<and> str (cm_reasoning prior) = [])))"

fun responses_check_msgs ::
  "(string \<Rightarrow> bool) \<Rightarrow> chat_msg list \<Rightarrow> bool \<Rightarrow> nat \<Rightarrow> nat \<Rightarrow> chat_msg list \<Rightarrow> bool \<times> bool \<Rightarrow> string + bool \<times> bool" where
  "responses_check_msgs live msgs needs errlen i [] st = Inr st"
| "responses_check_msgs live msgs needs errlen i (m # ms) st =
     (if cm_role m \<noteq> ''tool'' \<and> cm_role m \<noteq> ''function'' then responses_check_msgs live msgs needs errlen (Suc i) ms st
      else (case responses_check_ids live msgs i needs errlen (sl_v (chat_msg_collect_tool_call_ids m no_ids)) st of
          Inl e \<Rightarrow> Inl e
        | Inr st' \<Rightarrow> responses_check_msgs live msgs needs errlen (Suc i) ms st'))"

definition responses_validate_tool_outputs ::
  "(string \<Rightarrow> bool) \<Rightarrow> chat_msg list \<Rightarrow> think_mode \<Rightarrow> nat \<Rightarrow> string + bool \<times> bool" where
  "responses_validate_tool_outputs live msgs mode errlen =
     responses_check_msgs live msgs (ds4_think_mode_enabled mode) errlen 0 msgs (False, False)"

definition anthropic_msg_is_tool_result_tail :: "chat_msg \<Rightarrow> bool" where
  "anthropic_msg_is_tool_result_tail m \<longleftrightarrow>
     cm_role m = ''user'' \<and> (str (cm_tool_call_id m) \<noteq> [] \<or> cm_tool_call_ids m \<noteq> [])"

fun anthropic_check_ids ::
  "(string \<Rightarrow> bool) \<Rightarrow> chat_msg list \<Rightarrow> nat \<Rightarrow> nat \<Rightarrow> string list \<Rightarrow> bool \<Rightarrow> string + bool" where
  "anthropic_check_ids live msgs i errlen [] st = Inr st"
| "anthropic_check_ids live msgs i errlen (x # ids) st =
     (case responses_find_prior_call_msg msgs i x of
        None \<Rightarrow>
          if \<not> live x
          then Inl (snprintf errlen (''Anthropic continuation state is not available for tool_use_id '' @ x
                                     @ ''; retry by replaying the full messages history''))
          else anthropic_check_ids live msgs i errlen ids True
      | Some prior \<Rightarrow> anthropic_check_ids live msgs i errlen ids st)"

fun anthropic_check_msgs ::
  "(string \<Rightarrow> bool) \<Rightarrow> chat_msg list \<Rightarrow> nat \<Rightarrow> nat \<Rightarrow> chat_msg list \<Rightarrow> bool \<Rightarrow> string + bool" where
  "anthropic_check_msgs live msgs errlen i [] st = Inr st"
| "anthropic_check_msgs live msgs errlen i (m # ms) st =
     (if \<not> anthropic_msg_is_tool_result_tail m then anthropic_check_msgs live msgs errlen (Suc i) ms st
      else (case anthropic_check_ids live msgs i errlen (sl_v (chat_msg_collect_tool_call_ids m no_ids)) st of
          Inl e \<Rightarrow> Inl e
        | Inr st' \<Rightarrow> anthropic_check_msgs live msgs errlen (Suc i) ms st'))"

definition anthropic_validate_tool_results ::
  "(string \<Rightarrow> bool) \<Rightarrow> chat_msg list \<Rightarrow> nat \<Rightarrow> string + bool" where
  "anthropic_validate_tool_results live msgs errlen = anthropic_check_msgs live msgs errlen 0 msgs False"

section \<open>Preparing a live continuation\<close>

text \<open>The fields of a request that the continuation reads.\<close>

record request =
  rq_kind :: req_kind
  rq_api :: api_style
  rq_prompt :: "int list"
  rq_prompt_text :: "string option"
  rq_think_mode :: think_mode
  rq_has_tools :: bool
  rq_prompt_preserves_reasoning :: bool
  rq_reasoning_summary_emit :: bool
  rq_responses_requires_live_tool_state :: bool
  rq_responses_live_call_ids :: stop_list
  rq_responses_live_suffix_text :: "string option"
  rq_anthropic_requires_live_tool_state :: bool
  rq_anthropic_live_call_ids :: stop_list
  rq_anthropic_live_suffix_text :: "string option"

text \<open>The start of the run of messages at the end that satisfy a condition.\<close>

definition tail_start :: "(chat_msg \<Rightarrow> bool) \<Rightarrow> chat_msg list \<Rightarrow> nat" where
  "tail_start ok msgs = length (dropWhile ok (rev msgs))"

definition is_tool_role :: "chat_msg \<Rightarrow> bool" where
  "is_tool_role m \<longleftrightarrow> cm_role m = ''tool'' \<or> cm_role m = ''function''"

definition responses_prepare_live_continuation :: "request \<Rightarrow> chat_msg list \<Rightarrow> request" where
  "responses_prepare_live_continuation r msgs =
     (if rq_api r \<noteq> API_RESPONSES \<or> msgs = [] then r
      else let ts = tail_start is_tool_role msgs in
        if ts = length msgs then r
        else let ids0 = stop_list_clear (rq_responses_live_call_ids r) in
          if 0 < ts \<and> (cm_role (msgs ! (ts - 1)) \<noteq> ''assistant'' \<or> tcs_v (cm_calls (msgs ! (ts - 1))) = [])
          then r\<lparr>rq_responses_live_call_ids := ids0\<rparr>
          else let ids = (if 0 < ts then push_ids (call_ids (cm_calls (msgs ! (ts - 1)))) ids0
                          else foldl (\<lambda>l m. chat_msg_collect_tool_call_ids m l) ids0 (drop ts msgs)) in
            if sl_v ids = [] then r\<lparr>rq_responses_live_call_ids := ids\<rparr>
            else r\<lparr>rq_responses_live_call_ids := ids,
                   rq_responses_live_suffix_text := Some (render_live_tool_tail msgs ts (rq_think_mode r))\<rparr>)"

definition anthropic_prepare_live_continuation :: "request \<Rightarrow> chat_msg list \<Rightarrow> request" where
  "anthropic_prepare_live_continuation r msgs =
     (if rq_api r \<noteq> API_ANTHROPIC \<or> msgs = [] then r
      else let te = tail_start (\<lambda>m. role_is_system (cm_role m)) msgs;
               ts = tail_start anthropic_msg_is_tool_result_tail (take te msgs) in
        if ts = te then r
        else let ids = foldl (\<lambda>l m. chat_msg_collect_tool_call_ids m l)
                         (stop_list_clear (rq_anthropic_live_call_ids r)) (drop ts msgs) in
          if sl_v ids = [] then r\<lparr>rq_anthropic_live_call_ids := ids\<rparr>
          else r\<lparr>rq_anthropic_live_call_ids := ids,
                 rq_anthropic_live_suffix_text := Some (render_live_tool_tail msgs ts (rq_think_mode r))\<rparr>)"

end
