(* ===== verification/LiveState.thy ===== *)
theory LiveState
  imports ChatPrompt KvStore
begin

text \<open>
  What the server remembers of the live session between requests (\<^verbatim>\<open>ds4_server.c\<close>): the visible
  transcript and the call ids at the token frontier of the last turn, and how a request is continued
  from it instead of being evaluated from the start. The session is its token history; the engine
  gives the text of a token and the tokens of a text.
\<close>

section \<open>State\<close>

record live_tool_state =
  lt_valid :: bool
  lt_live_tokens :: int
  lt_visible_text :: "string option"
  lt_call_ids :: stop_list

record visible_live_state =
  vl_valid :: bool
  vl_live_tokens :: int
  vl_visible_text :: "string option"

record live_server =
  ls_responses_live :: live_tool_state
  ls_anthropic_live :: live_tool_state
  ls_thinking_live :: visible_live_state

definition live_tool_state_clear_locked :: "live_tool_state \<Rightarrow> live_tool_state" where
  "live_tool_state_clear_locked st =
     \<lparr>lt_valid = False, lt_live_tokens = 0, lt_visible_text = None, lt_call_ids = stop_list_clear (lt_call_ids st)\<rparr>"

definition visible_live_clear_locked :: "visible_live_state \<Rightarrow> visible_live_state" where
  "visible_live_clear_locked st = \<lparr>vl_valid = False, vl_live_tokens = 0, vl_visible_text = None\<rparr>"

definition thinking_live_clear :: "live_server \<Rightarrow> live_server" where
  "thinking_live_clear s = s\<lparr>ls_thinking_live := visible_live_clear_locked (ls_thinking_live s)\<rparr>"

definition responses_live_clear :: "live_server \<Rightarrow> live_server" where
  "responses_live_clear s = s\<lparr>ls_responses_live := live_tool_state_clear_locked (ls_responses_live s)\<rparr>"

definition anthropic_live_clear :: "live_server \<Rightarrow> live_server" where
  "anthropic_live_clear s = s\<lparr>ls_anthropic_live := live_tool_state_clear_locked (ls_anthropic_live s)\<rparr>"

text \<open>\<open>pos\<close> is the length of the session at the end of the turn.\<close>

definition thinking_live_remember :: "string \<Rightarrow> int \<Rightarrow> live_server \<Rightarrow> live_server" where
  "thinking_live_remember visible pos s =
     (if visible = [] then s
      else s\<lparr>ls_thinking_live := \<lparr>vl_valid = True, vl_live_tokens = pos, vl_visible_text = Some visible\<rparr>\<rparr>)"

definition responses_live_remember :: "string \<Rightarrow> tool_calls option \<Rightarrow> int \<Rightarrow> live_server \<Rightarrow> live_server" where
  "responses_live_remember visible calls pos s =
     (if visible = [] then s
      else let c = live_tool_state_clear_locked (ls_responses_live s);
               ids = (case calls of None \<Rightarrow> lt_call_ids c | Some cs \<Rightarrow> push_ids (call_ids cs) (lt_call_ids c))
           in s\<lparr>ls_responses_live := \<lparr>lt_valid = True, lt_live_tokens = pos, lt_visible_text = Some visible, lt_call_ids = ids\<rparr>\<rparr>)"

definition anthropic_live_remember :: "tool_calls \<Rightarrow> int \<Rightarrow> live_server \<Rightarrow> live_server" where
  "anthropic_live_remember calls pos s =
     (if tcs_v calls = [] then s
      else let c = live_tool_state_clear_locked (ls_anthropic_live s);
               ids = push_ids (call_ids calls) (lt_call_ids c)
           in s\<lparr>ls_anthropic_live := c\<lparr>lt_call_ids := ids, lt_live_tokens := pos, lt_valid := sl_v ids \<noteq> []\<rparr>\<rparr>)"

definition responses_live_has_call_id :: "live_server \<Rightarrow> string \<Rightarrow> bool" where
  "responses_live_has_call_id s i \<longleftrightarrow>
     i \<noteq> [] \<and> lt_valid (ls_responses_live s) \<and> id_list_contains (lt_call_ids (ls_responses_live s)) i"

definition anthropic_live_has_call_id :: "live_server \<Rightarrow> string \<Rightarrow> bool" where
  "anthropic_live_has_call_id s i \<longleftrightarrow>
     i \<noteq> [] \<and> lt_valid (ls_anthropic_live s) \<and> id_list_contains (lt_call_ids (ls_anthropic_live s)) i"

text \<open>The comparison of both protocols: the frontier and as many ids, each of them known.\<close>

definition live_matches :: "live_tool_state \<Rightarrow> stop_list \<Rightarrow> int \<Rightarrow> bool" where
  "live_matches st ids live_tokens \<longleftrightarrow>
     sl_v ids \<noteq> [] \<and> lt_valid st \<and> lt_live_tokens st = live_tokens
     \<and> length (sl_v (lt_call_ids st)) = length (sl_v ids) \<and> (\<forall>i\<in>set (sl_v ids). id_list_contains (lt_call_ids st) i)"

definition responses_live_matches_request :: "live_server \<Rightarrow> stop_list \<Rightarrow> int \<Rightarrow> bool" where
  "responses_live_matches_request s ids live_tokens = live_matches (ls_responses_live s) ids live_tokens"

definition anthropic_live_matches_request :: "live_server \<Rightarrow> stop_list \<Rightarrow> int \<Rightarrow> bool" where
  "anthropic_live_matches_request s ids live_tokens = live_matches (ls_anthropic_live s) ids live_tokens"

section \<open>The text a turn leaves behind\<close>

definition build_tool_checkpoint_suffix :: "request \<Rightarrow> string \<Rightarrow> string option \<Rightarrow> tool_calls \<Rightarrow> string" where
  "build_tool_checkpoint_suffix r content reasoning calls =
     (if ds4_think_mode_enabled (rq_think_mode r) then str reasoning @ ''</think>'' else [])
     @ content @ append_dsml_tool_calls_text calls @ EOS_TEXT"

definition build_responses_visible_assistant_suffix ::
  "request \<Rightarrow> string \<Rightarrow> string option \<Rightarrow> tool_calls \<Rightarrow> string" where
  "build_responses_visible_assistant_suffix r content reasoning calls =
     (if ds4_think_mode_enabled (rq_think_mode r)
      then (if rq_reasoning_summary_emit r \<and> tcs_v calls \<noteq> [] then str reasoning else []) @ ''</think>'' else [])
     @ content @ append_dsml_tool_calls_text calls @ EOS_TEXT"

definition build_toolless_thinking_visible_text :: "request \<Rightarrow> string \<Rightarrow> string option" where
  "build_toolless_thinking_visible_text r content =
     (case rq_prompt_text r of None \<Rightarrow> None
      | Some pt \<Rightarrow>
        if \<not> ds4_think_mode_enabled (rq_think_mode r) then None
        else if length pt < 7 \<or> drop (length pt - 7) pt \<noteq> ''<think>'' then None
        else Some (take (length pt - 7) pt @ ''</think>'' @ content @ EOS_TEXT))"

definition should_remember_thinking_checkpoint :: "request \<Rightarrow> bool \<Rightarrow> string \<Rightarrow> bool" where
  "should_remember_thinking_checkpoint r inside finish \<longleftrightarrow>
     rq_kind r = REQ_CHAT \<and> \<not> rq_has_tools r \<and> \<not> rq_prompt_preserves_reasoning r
     \<and> ds4_think_mode_enabled (rq_think_mode r) \<and> finish \<noteq> ''error'' \<and> finish \<noteq> ''length'' \<and> \<not> inside"

definition remember_thinking_checkpoint :: "request \<Rightarrow> string \<Rightarrow> int \<Rightarrow> live_server \<Rightarrow> live_server" where
  "remember_thinking_checkpoint r content pos s =
     (case build_toolless_thinking_visible_text r content of None \<Rightarrow> s | Some v \<Rightarrow> thinking_live_remember v pos s)"

definition should_canonicalize_tool_checkpoint :: "bool \<Rightarrow> tool_calls \<Rightarrow> bool" where
  "should_canonicalize_tool_checkpoint disable_replay calls \<longleftrightarrow>
     tcs_v calls \<noteq> [] \<and> (disable_replay \<or> str (tcs_raw_dsml calls) = [])"

text \<open>What the end of a turn remembers. The last component says that the checkpoint is to be rewritten
  into the text of the tool calls.\<close>

definition remember_turn ::
  "request \<Rightarrow> bool \<Rightarrow> bool \<Rightarrow> string \<Rightarrow> string \<Rightarrow> string option \<Rightarrow> tool_calls \<Rightarrow> int \<Rightarrow> live_server \<Rightarrow> live_server \<times> bool" where
  "remember_turn r disable_replay inside finish content reasoning calls pos s =
     (let ok = (finish \<noteq> ''error'' \<and> finish \<noteq> ''length'');
          s1 = (if rq_api r = API_RESPONSES
                then (if ok
                      then responses_live_remember
                             (str (rq_prompt_text r) @ build_responses_visible_assistant_suffix r content reasoning calls)
                             (if tcs_v calls \<noteq> [] then Some calls else None) pos
                             (if rq_kind r = REQ_CHAT \<and> tcs_v calls = [] then responses_live_clear s else s)
                      else responses_live_clear s)
                else s);
          s2 = (if rq_api r = API_ANTHROPIC
                then (if tcs_v calls \<noteq> [] \<and> ok then anthropic_live_remember calls pos s1 else anthropic_live_clear s1)
                else s1)
      in if rq_kind r = REQ_CHAT \<and> tcs_v calls \<noteq> [] \<and> rq_api r \<noteq> API_RESPONSES
            \<and> should_canonicalize_tool_checkpoint disable_replay calls
         then (thinking_live_clear s2, True)
         else if tcs_v calls \<noteq> [] then (thinking_live_clear s2, False)
         else if should_remember_thinking_checkpoint r inside finish
         then (remember_thinking_checkpoint r content pos s2, False)
         else (thinking_live_clear s2, False))"

section \<open>Continuing from the live session\<close>

text \<open>Each function returns the number of reused tokens, 0 for none, and the prompt to evaluate.
  \<open>live\<close> is the token history of the session, \<open>None\<close> when there is none.\<close>

definition live_text_prefix_prompt :: "engine \<Rightarrow> int list option \<Rightarrow> request \<Rightarrow> int \<times> int list" where
  "live_text_prefix_prompt eng live r =
     (case (rq_prompt_text r, live) of
        (Some pt, Some toks) \<Rightarrow>
          if toks = [] then (0, [])
          else let live_text = ds4_kvstore_render_tokens_text eng toks in
            if \<not> ds4_kvstore_byte_prefix_match (bytes_of pt) (bytes_of live_text) then (0, [])
            else (int (length toks),
                  ds4_kvstore_build_prompt_from_exact_prefix_and_text_suffix eng toks (drop (length live_text) pt))
      | _ \<Rightarrow> (0, []))"

definition live_suffix_prompt :: "engine \<Rightarrow> int list option \<Rightarrow> int \<Rightarrow> string \<Rightarrow> int \<times> int list" where
  "live_suffix_prompt eng live live_pos suffix =
     (case live of
        Some toks \<Rightarrow> if int (length toks) = live_pos
          then (int (length toks), ds4_kvstore_build_prompt_from_exact_prefix_and_text_suffix eng toks suffix) else (0, [])
      | None \<Rightarrow> (0, []))"

definition responses_live_continuation_prompt ::
  "engine \<Rightarrow> live_server \<Rightarrow> int list option \<Rightarrow> request \<Rightarrow> int \<Rightarrow> int \<times> int list" where
  "responses_live_continuation_prompt eng s live r live_pos =
     (case rq_responses_live_suffix_text r of None \<Rightarrow> (0, [])
      | Some suffix \<Rightarrow>
        if rq_api r \<noteq> API_RESPONSES \<or> sl_v (rq_responses_live_call_ids r) = []
           \<or> \<not> responses_live_matches_request s (rq_responses_live_call_ids r) live_pos
        then (0, []) else live_suffix_prompt eng live live_pos suffix)"

definition anthropic_live_continuation_prompt ::
  "engine \<Rightarrow> live_server \<Rightarrow> int list option \<Rightarrow> request \<Rightarrow> int \<Rightarrow> int \<times> int list" where
  "anthropic_live_continuation_prompt eng s live r live_pos =
     (case rq_anthropic_live_suffix_text r of None \<Rightarrow> (0, [])
      | Some suffix \<Rightarrow>
        if rq_api r \<noteq> API_ANTHROPIC \<or> sl_v (rq_anthropic_live_call_ids r) = []
           \<or> \<not> anthropic_live_matches_request s (rq_anthropic_live_call_ids r) live_pos
        then (0, []) else live_suffix_prompt eng live live_pos suffix)"

text \<open>The remembered visible text has to be a proper prefix of the prompt.\<close>

definition visible_prefix_prompt ::
  "engine \<Rightarrow> bool \<Rightarrow> int \<Rightarrow> string option \<Rightarrow> int list option \<Rightarrow> string \<Rightarrow> int \<Rightarrow> int \<times> int list" where
  "visible_prefix_prompt eng valid tokens visible live pt live_pos =
     (case visible of None \<Rightarrow> (0, [])
      | Some v \<Rightarrow>
        if valid \<and> tokens = live_pos \<and> length v < length pt \<and> ds4_kvstore_byte_prefix_match (bytes_of pt) (bytes_of v)
        then live_suffix_prompt eng live live_pos (drop (length v) pt) else (0, []))"

definition responses_live_visible_prefix_prompt ::
  "engine \<Rightarrow> live_server \<Rightarrow> int list option \<Rightarrow> request \<Rightarrow> int \<Rightarrow> int \<times> int list" where
  "responses_live_visible_prefix_prompt eng s live r live_pos =
     (case rq_prompt_text r of None \<Rightarrow> (0, [])
      | Some pt \<Rightarrow>
        if rq_api r \<noteq> API_RESPONSES then (0, [])
        else visible_prefix_prompt eng (lt_valid (ls_responses_live s)) (lt_live_tokens (ls_responses_live s))
               (lt_visible_text (ls_responses_live s)) live pt live_pos)"

definition thinking_live_visible_prefix_prompt ::
  "engine \<Rightarrow> live_server \<Rightarrow> int list option \<Rightarrow> request \<Rightarrow> int \<Rightarrow> int \<times> int list" where
  "thinking_live_visible_prefix_prompt eng s live r live_pos =
     (case rq_prompt_text r of None \<Rightarrow> (0, [])
      | Some pt \<Rightarrow>
        if rq_kind r \<noteq> REQ_CHAT \<or> rq_api r = API_RESPONSES then (0, [])
        else visible_prefix_prompt eng (vl_valid (ls_thinking_live s)) (vl_live_tokens (ls_thinking_live s))
               (vl_visible_text (ls_thinking_live s)) live pt live_pos)"

section \<open>Choosing what to reuse\<close>

datatype cache_source = FromNone | ResponsesVisible | ResponsesToolOutput | AnthropicToolOutput
  | MemoryToken | ThinkingVisible | MemoryText

text \<open>\<^verbatim>\<open>ds4_session_common_prefix\<close>: the length of the common prefix of a valid session and the prompt.\<close>

fun common_prefix_len :: "int list \<Rightarrow> int list \<Rightarrow> nat" where
  "common_prefix_len (a # as) (b # bs) = (if a = b then Suc (common_prefix_len as bs) else 0)"
| "common_prefix_len _ _ = 0"

definition ds4_session_common_prefix :: "bool \<Rightarrow> int list \<Rightarrow> int list \<Rightarrow> int" where
  "ds4_session_common_prefix valid checkpoint prompt = (if valid then int (common_prefix_len checkpoint prompt) else 0)"

text \<open>The start of \<^verbatim>\<open>generate_job\<close>: an error with its HTTP status, or the number of tokens reused from
  the live session, where they come from, and the prompt to evaluate. With 0 the disk cache is tried.\<close>

definition choose_live_prefix ::
  "engine \<Rightarrow> live_server \<Rightarrow> bool \<Rightarrow> int list option \<Rightarrow> request \<Rightarrow> (int \<times> string) + int \<times> cache_source \<times> int list" where
  "choose_live_prefix eng s valid live r =
     (let toks = (case live of None \<Rightarrow> [] | Some t \<Rightarrow> t);
          old_pos = int (length toks);
          common = ds4_session_common_prefix valid toks (rq_prompt r);
          (c1, p1) = responses_live_visible_prefix_prompt eng s live r old_pos
      in if 0 < c1 then Inr (c1, ResponsesVisible, p1)
         else let (c2, p2) = responses_live_continuation_prompt eng s live r old_pos in
         if 0 < c2 then Inr (c2, ResponsesToolOutput, p2)
         else let (c3, p3) = anthropic_live_continuation_prompt eng s live r old_pos in
         if 0 < c3 then Inr (c3, AnthropicToolOutput, p3)
         else if rq_api r = API_RESPONSES \<and> rq_responses_requires_live_tool_state r
         then Inl (409, ''Responses continuation state is not available; retry by replaying the full input history'')
         else if rq_api r = API_ANTHROPIC \<and> rq_anthropic_requires_live_tool_state r
         then Inl (409, ''Anthropic continuation state is not available; retry by replaying the full messages history'')
         else if common = old_pos \<and> old_pos \<le> int (length (rq_prompt r)) \<and> 0 < common
         then Inr (common, MemoryToken, rq_prompt r)
         else let (c4, p4) = thinking_live_visible_prefix_prompt eng s live r old_pos in
         if 0 < c4 then Inr (c4, ThinkingVisible, p4)
         else let (c5, p5) = live_text_prefix_prompt eng live r in
         if 0 < c5 then Inr (c5, MemoryText, p5)
         else Inr (0, FromNone, rq_prompt r))"

end
