(* ===== verification/ChatLemmas.thy ===== *)
theory ChatLemmas
  imports LiveState
begin

text \<open>
  How rendering composes: a prompt followed by more messages, which past turns keep their reasoning,
  and what the live state knows of the ids of a turn.
\<close>

section \<open>Rendering in parts\<close>

lemma render_from_append: "render_from sr i (ms @ ns) st = render_from sr (i + length ms) ns (render_from sr i ms st)"
  by (induction ms arbitrary: i st) simp_all

lemma render_from_cong:
  assumes "\<And>j. i \<le> j \<Longrightarrow> j < i + length ms \<Longrightarrow> cm_role (ms ! (j - i)) = ''assistant'' \<Longrightarrow> sr j = sr' j"
  shows "render_from sr i ms st = render_from sr' i ms st"
  using assms
proof (induction ms arbitrary: i st)
  case (Cons m ms)
  have "render_msg (sr i) m st = render_msg (sr' i) m st"
    using Cons.prems [of i] by (cases st) (auto simp: render_msg_def)
  moreover have "render_from sr (Suc i) ms t = render_from sr' (Suc i) ms t" for t
  proof (rule Cons.IH)
    fix j assume "Suc i \<le> j" "j < Suc i + length ms" "cm_role (ms ! (j - Suc i)) = ''assistant''"
    then show "sr j = sr' j" using Cons.prems [of j] by (simp add: Suc_diff_le nth_Cons' Suc_le_eq)
  qed
  ultimately show ?case by simp
qed simp

lemma last_user_from_append: "last_user_from i (ms @ ns) l = last_user_from (i + length ms) ns (last_user_from i ms l)"
  by (induction ms arbitrary: i l) simp_all

lemma last_user_bounds:
  "l < int i \<Longrightarrow> last_user_from i ms l < int (i + length ms) \<and> l \<le> last_user_from i ms l"
proof (induction ms arbitrary: i l)
  case (Cons m ms)
  have "(if role_is_user_like (cm_role m) then int i else l) < int (Suc i)" using Cons.prems by simp
  from Cons.IH [OF this] Cons.prems show ?case by (auto split: if_splits)
qed simp

lemma last_user_hit:
  assumes "\<exists>m\<in>set ms. role_is_user_like (cm_role m)"
  shows "int i \<le> last_user_from i ms l"
  using assms
proof (induction ms arbitrary: i l)
  case (Cons m ms)
  show ?case
  proof (cases "role_is_user_like (cm_role m)")
    case True
    then show ?thesis using last_user_bounds [of "int i" "Suc i" ms] by simp
  next
    case False
    then have "int (Suc i) \<le> last_user_from (Suc i) ms l" using Cons.IH [of "Suc i" l] Cons.prems by auto
    then show ?thesis using False by simp
  qed
qed simp

lemma system_text_append: "system_text (ms @ ns) s = system_text ns (system_text ms s)"
  by (induction ms arbitrary: s) simp_all

lemma system_text_none: "\<forall>m\<in>set ms. \<not> role_is_system (cm_role m) \<Longrightarrow> system_text ms s = s"
  by (induction ms) simp_all

text \<open>Text only grows; the flags after a message do not depend on the text.\<close>

lemma render_msg_text: "render_msg b m (s @ t, p, q) = (case render_msg b m (t, p, q) of (o', p', q') \<Rightarrow> (s @ o', p', q'))"
  by (simp add: render_msg_def)

lemma render_from_text: "render_from sr i ms (s @ t, p, q) = (case render_from sr i ms (t, p, q) of (o', p', q') \<Rightarrow> (s @ o', p', q'))"
proof (induction ms arbitrary: i t p q)
  case (Cons m ms)
  obtain t' p' q' where "render_msg (sr i) m (t, p, q) = (t', p', q')" by (cases "render_msg (sr i) m (t, p, q)")
  then show ?case using Cons.IH render_msg_text [of "sr i" m s t p q] by simp
qed simp

lemma render_end_text: "render_end th (s @ t, p, q) = s @ render_end th (t, p, q)"
  by (simp add: render_end_def)

text \<open>The prompt of a conversation: the text in front of the turn that is due.\<close>

definition prompt_state :: "chat_msg list \<Rightarrow> string option \<Rightarrow> think_mode \<Rightarrow> chat_msg list \<Rightarrow> render_state" where
  "prompt_state all schemas mode ms =
     render_from (\<lambda>i. ds4_think_mode_enabled mode \<and> (chat_history_uses_tool_context all schemas \<or> last_user_from 0 all (-1) < int i)) 0 ms
       (BOS_TEXT @ (if mode = DS4_THINK_MAX then ds4_think_max_prefix else []) @ system_text all (append_tools_prompt_text (str schemas)), False, False)"

lemma render_prompt_state:
  "render_chat_prompt_text msgs schemas mode = render_end (ds4_think_mode_enabled mode) (prompt_state msgs schemas mode msgs)"
  by (simp add: render_chat_prompt_text_def prompt_state_def Let_def)

lemma ends_pending:
  assumes "role_is_user_like (cm_role (last ms))" "ms \<noteq> []"
  shows "\<exists>t q. render_from sr i ms st = (t, True, q)"
proof -
  obtain ns m where ms: "ms = ns @ [m]" using assms(2) by (cases ms rule: rev_cases) auto
  obtain t p q where "render_from sr i ns st = (t, p, q)" by (cases "render_from sr i ns st")
  then show ?thesis using assms(1) ms
    by (auto simp: render_from_append render_msg_def role_is_user_like_def role_is_system_def)
qed

text \<open>With tools in play every past turn is rendered the same way in every continuation.\<close>

lemma prompt_state_tools:
  assumes "chat_history_uses_tool_context all schemas" "chat_history_uses_tool_context all' schemas"
    and "system_text all s0 = system_text all' s0" "s0 = append_tools_prompt_text (str schemas)"
  shows "prompt_state all schemas mode ms = prompt_state all' schemas mode ms"
  using assms by (simp add: prompt_state_def)

lemma assistant_step:
  assumes "cm_role m = ''assistant''" "st = (t, True, q)"
  shows "render_msg b m st = (t @ ASSISTANT_TEXT @ (if b then ''<think>'' @ str (cm_reasoning m) @ ''</think>'' else ''</think>'')
       @ str (cm_content m) @ append_dsml_tool_calls_text (cm_calls m) @ EOS_TEXT, False, False)"
  using assms by (simp add: render_msg_def role_is_system_def)

text \<open>A turn that follows the prompt: the prompt ends where the turn begins.\<close>

lemma prompt_then_turn:
  assumes "cm_role a = ''assistant''" "ms \<noteq> []" "role_is_user_like (cm_role (last ms))"
    and "prompt_state ms schemas mode ms = st" "think = ds4_think_mode_enabled mode"
  shows "\<exists>t q. st = (t, True, q) \<and> render_end think st = t @ ASSISTANT_TEXT @ (if think then ''<think>'' else ''</think>'')
    \<and> render_msg b a st = (t @ ASSISTANT_TEXT @ (if b then ''<think>'' @ str (cm_reasoning a) @ ''</think>'' else ''</think>'')
       @ str (cm_content a) @ append_dsml_tool_calls_text (cm_calls a) @ EOS_TEXT, False, False)"
proof -
  obtain t q where "st = (t, True, q)" using ends_pending [OF assms(3,2)] assms(4) unfolding prompt_state_def by metis
  then show ?thesis using assistant_step [OF assms(1)] by (simp add: render_end_def)
qed

text \<open>Without tools a past turn loses its reasoning: the prompt and the next request agree up to the
  place where the prompt opens the reasoning and the next request closes it.\<close>

lemma toolless_next:
  assumes "msgs \<noteq> []" "role_is_user_like (cm_role (last msgs))" "rest \<noteq> []" "role_is_user_like (cm_role (last rest))"
    and "\<not> chat_history_uses_tool_context (msgs @ a # rest) schemas" "\<forall>m\<in>set rest. \<not> role_is_system (cm_role m)"
    and "cm_role a = ''assistant''" "ds4_think_mode_enabled mode"
  shows "\<exists>t Y. Y \<noteq> [] \<and> render_chat_prompt_text msgs schemas mode = t @ ASSISTANT_TEXT @ ''<think>''
    \<and> render_chat_prompt_text (msgs @ a # rest) schemas mode
      = t @ ASSISTANT_TEXT @ ''</think>'' @ str (cm_content a) @ EOS_TEXT @ Y"
proof -
  let ?all = "msgs @ a # rest"
  have ctx: "\<not> chat_history_uses_tool_context msgs schemas" "tcs_v (cm_calls a) = []"
    using assms(5,7) by (auto simp: chat_history_uses_tool_context_def)
  obtain ns m where ms: "msgs = ns @ [m]" "role_is_user_like (cm_role m)" using assms(1,2) by (cases msgs rule: rev_cases) auto
  have l1: "last_user_from 0 msgs (-1) = int (length ns)" using ms by (simp add: last_user_from_append)
  have "\<exists>m\<in>set rest. role_is_user_like (cm_role m)" using assms(3,4) last_in_set by blast
  then have "int (Suc (length msgs)) \<le> last_user_from (Suc (length msgs)) rest l" for l by (rule last_user_hit)
  then have l2: "int (Suc (length msgs)) \<le> last_user_from 0 ?all (-1)"
    using assms(7) by (simp add: last_user_from_append role_is_user_like_def)
  have sys: "system_text ?all s = system_text msgs s" for s
    using assms(6,7) by (simp add: system_text_append system_text_none role_is_system_def)
  let ?sr = "\<lambda>i. ds4_think_mode_enabled mode \<and> (chat_history_uses_tool_context ?all schemas \<or> last_user_from 0 ?all (-1) < int i)"
  have same: "prompt_state ?all schemas mode msgs = prompt_state msgs schemas mode msgs"
    unfolding prompt_state_def sys using l1 l2 ms ctx(1) assms(5) by (intro render_from_cong) auto
  obtain t q where t: "prompt_state msgs schemas mode msgs = (t, True, q)"
    "render_end True (t, True, q) = t @ ASSISTANT_TEXT @ ''<think>''"
    "render_msg False a (t, True, q) = (t @ ASSISTANT_TEXT @ ''</think>'' @ str (cm_content a) @ EOS_TEXT, False, False)"
    using prompt_then_turn [OF assms(7,1,2) refl refl, of schemas mode False] assms(8) ctx(2)
    by (auto simp: append_dsml_tool_calls_text_def)
  define sr where "sr = ?sr"
  have nsr: "sr (length msgs) = False" using l2 assms(5) by (simp add: sr_def)
  obtain Z q' where z: "render_from sr (Suc (length msgs)) rest ([], False, False) = (Z, True, q')"
    using ends_pending [OF assms(4,3)] by blast
  have "prompt_state ?all schemas mode ?all = render_from sr (length msgs) (a # rest) (prompt_state ?all schemas mode msgs)"
    unfolding prompt_state_def sr_def render_from_append [of _ 0 msgs] by simp
  also have "\<dots> = render_from sr (Suc (length msgs)) rest (render_msg False a (t, True, q))"
    by (simp only: same t(1) render_from.simps nsr)
  also have "\<dots> = ((t @ ASSISTANT_TEXT @ ''</think>'' @ str (cm_content a) @ EOS_TEXT) @ Z, True, q')"
    unfolding t(3)
    using render_from_text [of sr "Suc (length msgs)" rest "t @ ASSISTANT_TEXT @ ''</think>'' @ str (cm_content a) @ EOS_TEXT" "[]" False False]
    by (simp only: append_Nil2 z prod.case)
  finally have "render_chat_prompt_text ?all schemas mode
      = t @ ASSISTANT_TEXT @ ''</think>'' @ str (cm_content a) @ EOS_TEXT @ Z @ ASSISTANT_TEXT @ ''<think>''"
    using assms(8) by (simp add: render_prompt_state render_end_def)
  moreover have "render_chat_prompt_text msgs schemas mode = t @ ASSISTANT_TEXT @ ''<think>''"
    using t(1,2) assms(8) by (simp add: render_prompt_state)
  ultimately show ?thesis by (intro exI [of _ t] exI [of _ "Z @ ASSISTANT_TEXT @ ''<think>''"]) simp
qed

lemma byte_match_prefix: "ds4_kvstore_byte_prefix_match (bytes_of t) (bytes_of p) \<longleftrightarrow> (\<exists>s. t = p @ s)"
proof -
  have "ds4_kvstore_byte_prefix_match (bytes_of t) (bytes_of p) \<longleftrightarrow> take (length p) t = p"
    unfolding byte_prefix_match_iff
    by (metis append_eq_conv_conj append_take_drop_id bytes_of_inject length_bytes_of take_bytes_of)
  then show ?thesis by (metis append_eq_conv_conj append_take_drop_id)
qed

lemma visible_prefix_hit:
  assumes "Y \<noteq> []"
  shows "visible_prefix_prompt eng True (int (length toks)) (Some v) (Some toks) (v @ Y) (int (length toks))
    = (int (length toks), toks @ eng_tokenize_rendered_chat eng Y)"
  using assms byte_match_prefix [of "v @ Y" v]
  by (simp add: visible_prefix_prompt_def live_suffix_prompt_def tokens_append_def
      ds4_kvstore_build_prompt_from_exact_prefix_and_text_suffix_def)

lemma visible_prefix_miss:
  "\<nexists>Y. pt = v @ Y \<Longrightarrow> visible_prefix_prompt eng ok n (Some v) live pt pos = (0, [])"
  using byte_match_prefix [of pt v] by (simp add: visible_prefix_prompt_def)

lemma tail_start_append:
  assumes "\<forall>m\<in>set tail. ok m" "\<not> ok a"
  shows "tail_start ok (ms @ a # tail) = Suc (length ms)"
  using assms by (simp add: tail_start_def dropWhile_append3 [where xs = "rev tail", symmetric] dropWhile_append)

section \<open>What a continuation reuses\<close>

lemma suffix_hit:
  assumes "live_suffix_prompt eng (Some toks) pos x = (c, p)" "0 < c"
  shows "c = int (length toks) \<and> (\<exists>q. p = toks @ q)"
  using assms by (auto simp: live_suffix_prompt_def tokens_append_def
      ds4_kvstore_build_prompt_from_exact_prefix_and_text_suffix_def split: if_splits)

lemma visible_hit:
  assumes "visible_prefix_prompt eng ok n v (Some toks) pt pos = (c, p)" "0 < c"
  shows "c = int (length toks) \<and> (\<exists>q. p = toks @ q)"
  using assms suffix_hit [of eng toks pos _ c p] by (auto simp: visible_prefix_prompt_def split: option.splits if_splits)

lemma responses_visible_hit:
  assumes "responses_live_visible_prefix_prompt eng s (Some toks) r pos = (c, p)" "0 < c"
  shows "c = int (length toks) \<and> (\<exists>q. p = toks @ q)"
  using assms visible_hit [of eng _ _ _ toks _ pos c p]
  by (auto simp: responses_live_visible_prefix_prompt_def split: option.splits if_splits)

lemma thinking_hit:
  assumes "thinking_live_visible_prefix_prompt eng s (Some toks) r pos = (c, p)" "0 < c"
  shows "c = int (length toks) \<and> (\<exists>q. p = toks @ q)"
  using assms visible_hit [of eng _ _ _ toks _ pos c p]
  by (auto simp: thinking_live_visible_prefix_prompt_def split: option.splits if_splits)

lemma responses_hit:
  assumes "responses_live_continuation_prompt eng s (Some toks) r pos = (c, p)" "0 < c"
  shows "c = int (length toks) \<and> (\<exists>q. p = toks @ q)"
  using assms suffix_hit [of eng toks pos _ c p]
  by (auto simp: responses_live_continuation_prompt_def split: option.splits if_splits)

lemma anthropic_hit:
  assumes "anthropic_live_continuation_prompt eng s (Some toks) r pos = (c, p)" "0 < c"
  shows "c = int (length toks) \<and> (\<exists>q. p = toks @ q)"
  using assms suffix_hit [of eng toks pos _ c p]
  by (auto simp: anthropic_live_continuation_prompt_def split: option.splits if_splits)

lemma live_text_hit:
  assumes "\<forall>x. ds4_kvstore_render_tokens_text eng (eng_tokenize_rendered_chat eng x) = x" "rq_prompt_text r = Some pt"
    and "live_text_prefix_prompt eng (Some toks) r = (c, p)" "0 < c"
  shows "c = int (length toks) \<and> (\<exists>q. p = toks @ q) \<and> ds4_kvstore_render_tokens_text eng p = pt"
proof -
  let ?t = "ds4_kvstore_render_tokens_text eng toks"
  have m: "ds4_kvstore_byte_prefix_match (bytes_of pt) (bytes_of ?t)" and cp: "c = int (length toks)"
    "p = toks @ eng_tokenize_rendered_chat eng (drop (length ?t) pt)"
    using assms(2-4) by (auto simp: live_text_prefix_prompt_def Let_def tokens_append_def
        ds4_kvstore_build_prompt_from_exact_prefix_and_text_suffix_def split: if_splits)
  obtain z where "pt = ?t @ z" using m unfolding byte_match_prefix by blast
  moreover have "ds4_kvstore_render_tokens_text eng (a @ b) = ds4_kvstore_render_tokens_text eng a @ ds4_kvstore_render_tokens_text eng b" for a b
    by (simp add: ds4_kvstore_render_tokens_text_def)
  ultimately show ?thesis using cp assms(1) by auto
qed

lemma common_prefix_all: "common_prefix_len xs ys = length xs \<Longrightarrow> \<exists>q. ys = xs @ q"
  by (induction xs ys rule: common_prefix_len.induct) (auto split: if_splits)

section \<open>Ids\<close>

lemma push_unique_set: "set (sl_v (id_list_push_unique l i)) = set (sl_v l) \<union> ({i} - {[]})"
  by (auto simp: id_list_push_unique_def id_list_contains_def stop_list_push_def)

lemma push_unique_distinct: "distinct (sl_v l) \<Longrightarrow> distinct (sl_v (id_list_push_unique l i))"
  by (auto simp: id_list_push_unique_def id_list_contains_def stop_list_push_def)

lemma push_ids_set: "set (sl_v (push_ids xs l)) = set (sl_v l) \<union> (set xs - {[]})"
  by (induction xs arbitrary: l) (auto simp: push_ids_def push_unique_set)

lemma push_ids_distinct: "distinct (sl_v l) \<Longrightarrow> distinct (sl_v (push_ids xs l))"
  by (induction xs arbitrary: l) (simp_all add: push_ids_def push_unique_distinct)

text \<open>Ids of a distinct list that are all known are as many exactly when they are the same set.\<close>

lemma live_matches_set:
  assumes "distinct (sl_v ids)" "distinct (sl_v (lt_call_ids st))" "[] \<notin> set (sl_v ids)"
  shows "live_matches st ids n \<longleftrightarrow> sl_v ids \<noteq> [] \<and> lt_valid st \<and> lt_live_tokens st = n \<and> set (sl_v ids) = set (sl_v (lt_call_ids st))"
proof -
  have "length (sl_v (lt_call_ids st)) = length (sl_v ids) \<and> (\<forall>i\<in>set (sl_v ids). id_list_contains (lt_call_ids st) i)
      \<longleftrightarrow> set (sl_v ids) = set (sl_v (lt_call_ids st))"
  proof
    assume a: "length (sl_v (lt_call_ids st)) = length (sl_v ids) \<and> (\<forall>i\<in>set (sl_v ids). id_list_contains (lt_call_ids st) i)"
    then have "set (sl_v ids) \<subseteq> set (sl_v (lt_call_ids st))" by (auto simp: id_list_contains_def)
    moreover have "card (set (sl_v ids)) = card (set (sl_v (lt_call_ids st)))"
      using a assms(1,2) by (simp add: distinct_card)
    ultimately show "set (sl_v ids) = set (sl_v (lt_call_ids st))" by (simp add: card_subset_eq)
  next
    assume e: "set (sl_v ids) = set (sl_v (lt_call_ids st))"
    then have "length (sl_v (lt_call_ids st)) = length (sl_v ids)" using assms(1,2) by (metis distinct_card)
    then show "length (sl_v (lt_call_ids st)) = length (sl_v ids) \<and> (\<forall>i\<in>set (sl_v ids). id_list_contains (lt_call_ids st) i)"
      using e assms(3) by (auto simp: id_list_contains_def)
  qed
  then show ?thesis by (auto simp: live_matches_def)
qed

section \<open>Checking tool results\<close>

lemma prior_iff:
  "responses_find_prior_call_msg msgs i x \<noteq> None \<longleftrightarrow> x \<noteq> [] \<and> (\<exists>m\<in>set (take i msgs). chat_msg_has_call_id m x)"
  using find_None_iff [of "\<lambda>m. chat_msg_has_call_id m x" "rev (take i msgs)"]
  by (auto simp: responses_find_prior_call_msg_def)

text \<open>An id is answered for when the live session or an earlier message knows it.\<close>

definition known_call :: "(string \<Rightarrow> bool) \<Rightarrow> chat_msg list \<Rightarrow> nat \<Rightarrow> string \<Rightarrow> bool" where
  "known_call live msgs i x \<longleftrightarrow> live x \<or> (\<exists>m\<in>set (take i msgs). chat_msg_has_call_id m x)"

definition only_live :: "chat_msg list \<Rightarrow> nat \<Rightarrow> string \<Rightarrow> bool" where
  "only_live msgs i x \<longleftrightarrow> (\<nexists>m. m \<in> set (take i msgs) \<and> chat_msg_has_call_id m x)"

lemma prior_None: "x \<noteq> [] \<Longrightarrow> responses_find_prior_call_msg msgs i x = None \<longleftrightarrow> only_live msgs i x"
  using prior_iff [of msgs i x] by (auto simp: only_live_def)

lemma check_ids_result:
  assumes "[] \<notin> set ids"
  shows "case responses_check_ids live msgs i needs n ids (tool, reas) of
      Inl e \<Rightarrow> \<exists>x\<in>set ids. \<not> known_call live msgs i x
    | Inr (tool', reas') \<Rightarrow> (\<forall>x\<in>set ids. known_call live msgs i x) \<and> (tool' \<longleftrightarrow> tool \<or> (\<exists>x\<in>set ids. only_live msgs i x))"
  using assms
proof (induction ids arbitrary: tool reas)
  case (Cons x ids)
  show ?case
  proof (cases "responses_find_prior_call_msg msgs i x")
    case None
    then have o: "only_live msgs i x" using Cons.prems prior_None [of x msgs i] by auto
    show ?thesis
    proof (cases "live x")
      case True
      then show ?thesis using Cons.IH [of True reas] Cons.prems None o
        by (auto simp: known_call_def split: sum.splits)
    next
      case False
      then show ?thesis using None o by (auto simp: known_call_def only_live_def)
    qed
  next
    case (Some prior)
    then have "\<not> only_live msgs i x" using Cons.prems prior_None [of x msgs i] by auto
    then show ?thesis using Cons.IH [of tool "reas \<or> (needs \<and> str (cm_reasoning prior) = [])"] Cons.prems Some
      by (auto simp: known_call_def only_live_def split: sum.splits)
  qed
qed simp

definition result_ids :: "chat_msg \<Rightarrow> string set" where
  "result_ids m = (insert (str (cm_tool_call_id m)) (set (cm_tool_call_ids m))) - {[]}"

lemma collected_ids: "set (sl_v (chat_msg_collect_tool_call_ids m no_ids)) = result_ids m"
  by (auto simp: chat_msg_collect_tool_call_ids_def push_ids_set push_unique_set no_ids_def result_ids_def)

text \<open>The ids that the messages from a position on answer, with the position of the message.\<close>

definition answered :: "nat \<Rightarrow> chat_msg list \<Rightarrow> (nat \<times> string) set" where
  "answered i ms = {(j, x). i \<le> j \<and> j < i + length ms \<and> is_tool_role (ms ! (j - i)) \<and> x \<in> result_ids (ms ! (j - i))}"

lemma answered_Nil [simp]: "answered i [] = {}"
  by (auto simp: answered_def)

lemma answered_Cons:
  "answered i (m # ms) = (if is_tool_role m then Pair i ` result_ids m else {}) \<union> answered (Suc i) ms"
proof -
  have "(j, x) \<in> answered i (m # ms) \<longleftrightarrow> (j, x) \<in> (if is_tool_role m then Pair i ` result_ids m else {}) \<union> answered (Suc i) ms" for j x
  proof (cases "j = i")
    case False
    then show ?thesis by (cases "i < j") (auto simp: answered_def nth_Cons')
  qed (auto simp: answered_def)
  then show ?thesis by auto
qed

lemma check_msgs_result:
  "case responses_check_msgs live msgs needs n i ms (tool, reas) of
      Inl e \<Rightarrow> \<exists>(j, x)\<in>answered i ms. \<not> known_call live msgs j x
    | Inr (tool', reas') \<Rightarrow> (\<forall>(j, x)\<in>answered i ms. known_call live msgs j x)
        \<and> (tool' \<longleftrightarrow> tool \<or> (\<exists>(j, x)\<in>answered i ms. only_live msgs j x))"
proof (induction ms arbitrary: i tool reas)
  case Nil
  then show ?case by simp
next
  case (Cons m ms)
  show ?case
  proof (cases "is_tool_role m")
    case False
    then have "responses_check_msgs live msgs needs n i (m # ms) (tool, reas) = responses_check_msgs live msgs needs n (Suc i) ms (tool, reas)"
      by (simp add: is_tool_role_def)
    moreover have "answered i (m # ms) = answered (Suc i) ms" using False by (simp add: answered_Cons)
    ultimately show ?thesis using Cons.IH [of "Suc i" tool reas] by (simp only:)
  next
    case True
    let ?ids = "sl_v (chat_msg_collect_tool_call_ids m no_ids)"
    have ne: "[] \<notin> set ?ids" unfolding collected_ids by (simp add: result_ids_def)
    note c = check_ids_result [OF ne, where live = live and msgs = msgs and i = i and needs = needs and n = n and tool = tool and reas = reas,
        unfolded collected_ids]
    have step: "responses_check_msgs live msgs needs n i (m # ms) (tool, reas)
        = (case responses_check_ids live msgs i needs n ?ids (tool, reas) of Inl e \<Rightarrow> Inl e
           | Inr st \<Rightarrow> responses_check_msgs live msgs needs n (Suc i) ms st)"
      using True by (auto simp: is_tool_role_def)
    show ?thesis
    proof (cases "responses_check_ids live msgs i needs n ?ids (tool, reas)")
      case (Inl e)
      then show ?thesis using c step True by (auto simp: answered_Cons)
    next
      case (Inr st)
      obtain tool1 reas1 where st: "st = (tool1, reas1)" by (cases st)
      then show ?thesis using c step Inr Cons.IH [of "Suc i" tool1 reas1] True
        by (auto simp: answered_Cons split: sum.splits)
    qed
  qed
qed

end
