(* ===== verification/ChatProps.thy ===== *)
theory ChatProps
  imports ChatLemmas
begin

text \<open>The properties of prompts and of live continuations.\<close>

section \<open>What is rendered next\<close>

abbreviation user_msg :: "string \<Rightarrow> chat_msg" where
  "user_msg c \<equiv> \<lparr>cm_role = ''user'', cm_content = Some c, cm_reasoning = None, cm_tool_call_id = None,
     cm_tool_call_ids = [], cm_calls = \<lparr>tcs_v = [], tcs_raw_dsml = None\<rparr>\<rparr>"

abbreviation sample_calls1 :: tool_calls where
  "sample_calls1 \<equiv> \<lparr>tcs_v = [\<lparr>tc_id = Some ''c1'', tc_name = ''f'', tc_arguments = ''{}''\<rparr>], tcs_raw_dsml = None\<rparr>"

abbreviation assistant_msg :: "string \<Rightarrow> tool_calls \<Rightarrow> chat_msg" where
  "assistant_msg c calls \<equiv> \<lparr>cm_role = ''assistant'', cm_content = Some c, cm_reasoning = Some ''r'', cm_tool_call_id = None,
     cm_tool_call_ids = [], cm_calls = calls\<rparr>"

abbreviation tool_msg :: "string \<Rightarrow> string \<Rightarrow> chat_msg" where
  "tool_msg i c \<equiv> \<lparr>cm_role = ''tool'', cm_content = Some c, cm_reasoning = None, cm_tool_call_id = Some i,
     cm_tool_call_ids = [], cm_calls = \<lparr>tcs_v = [], tcs_raw_dsml = None\<rparr>\<rparr>"

abbreviation sample_request :: "api_style \<Rightarrow> string option \<Rightarrow> request" where
  "sample_request api pt \<equiv> \<lparr>rq_kind = REQ_CHAT, rq_api = api, rq_prompt = [], rq_prompt_text = pt, rq_think_mode = DS4_THINK_HIGH,
     rq_has_tools = False, rq_prompt_preserves_reasoning = False, rq_reasoning_summary_emit = False,
     rq_responses_requires_live_tool_state = False, rq_responses_live_call_ids = no_ids, rq_responses_live_suffix_text = None,
     rq_anthropic_requires_live_tool_state = False, rq_anthropic_live_call_ids = no_ids, rq_anthropic_live_suffix_text = None\<rparr>"

abbreviation sample_live :: live_server where
  "sample_live \<equiv> \<lparr>ls_responses_live = \<lparr>lt_valid = False, lt_live_tokens = 0, lt_visible_text = None, lt_call_ids = no_ids\<rparr>,
     ls_anthropic_live = \<lparr>lt_valid = False, lt_live_tokens = 0, lt_visible_text = None, lt_call_ids = no_ids\<rparr>,
     ls_thinking_live = \<lparr>vl_valid = False, vl_live_tokens = 0, vl_visible_text = None\<rparr>\<rparr>"

abbreviation sample_engine :: engine where
  "sample_engine \<equiv> \<lparr>eng_quant_bits = 2, eng_model_id = 0, eng_token_text = (\<lambda>t. [char_of (nat t)]),
     eng_tokenize_rendered_chat = map (\<lambda>c. int (ord c))\<rparr>"

lemma sample_reads: "ds4_kvstore_render_tokens_text sample_engine (eng_tokenize_rendered_chat sample_engine x) = x"
proof -
  have "concat (map (\<lambda>c. [c]) x) = x" by (induction x) simp_all
  then show ?thesis by (simp add: ds4_kvstore_render_tokens_text_def ord_def comp_def)
qed

lemma render_tokens_append:
  "ds4_kvstore_render_tokens_text eng (xs @ ys)
    = ds4_kvstore_render_tokens_text eng xs @ ds4_kvstore_render_tokens_text eng ys"
  by (simp add: ds4_kvstore_render_tokens_text_def)

text \<open>C10: Appending the live tail to the session gives the bytes that rendering the whole conversation
  would give: behind a turn with tool calls, the tail with the tool results replaces the end token of
  that turn and all that follows.\<close>

theorem live_tail_continues:
  assumes "cm_role a = ''assistant''" "tcs_v (cm_calls a) \<noteq> []" "\<forall>m\<in>set tail. \<not> role_is_system (cm_role m)"
  shows "\<exists>X. render_chat_prompt_text (ms @ [a]) schemas mode = X @ EOS_TEXT
    \<and> render_chat_prompt_text (ms @ a # tail) schemas mode = X @ render_live_tool_tail (ms @ a # tail) (Suc (length ms)) mode"
proof -
  let ?th = "ds4_think_mode_enabled mode"
  have ctx: "chat_history_uses_tool_context (ms @ [a]) schemas" "chat_history_uses_tool_context (ms @ a # tail) schemas"
    using assms(1,2) by (auto simp: chat_history_uses_tool_context_def)
  have "system_text (ms @ a # tail) s = system_text (ms @ [a]) s" for s
    using assms(3) system_text_append [of "ms @ [a]" tail] by (simp add: system_text_none)
  then have st: "prompt_state (ms @ a # tail) schemas mode xs = prompt_state (ms @ [a]) schemas mode xs" for xs
    using prompt_state_tools [OF ctx(2,1)] by metis
  obtain t p q where m: "prompt_state (ms @ [a]) schemas mode ms = (t, p, q)" by (cases "prompt_state (ms @ [a]) schemas mode ms")
  obtain X where e: "prompt_state (ms @ [a]) schemas mode (ms @ [a]) = (X @ EOS_TEXT, False, False)"
    using m assms(1) by (fastforce simp: prompt_state_def render_from_append render_msg_def role_is_system_def)
  have "prompt_state (ms @ [a]) schemas mode (ms @ a # tail) = render_from (\<lambda>i. ?th) (Suc (length ms)) tail (X @ EOS_TEXT, False, False)"
    using e ctx(1) render_from_append [of _ 0 "ms @ [a]" tail] by (simp add: prompt_state_def)
  then have "render_chat_prompt_text (ms @ a # tail) schemas mode
      = render_end ?th (render_from (\<lambda>i. ?th) (Suc (length ms)) tail (X @ EOS_TEXT, False, False))"
    by (simp add: render_prompt_state st)
  also have "\<dots> = X @ render_end ?th (render_from (\<lambda>i. ?th) (Suc (length ms)) tail (EOS_TEXT, False, False))"
    by (cases "render_from (\<lambda>i. ?th) (Suc (length ms)) tail (EOS_TEXT, False, False)")
      (simp add: render_from_text render_end_text)
  finally show ?thesis using e by (auto simp: render_prompt_state render_end_def render_live_tool_tail_def)
qed

theorem live_tail_continues_witness:
  "\<exists>X. render_chat_prompt_text ([user_msg ''q''] @ [assistant_msg ''a'' sample_calls1]) None DS4_THINK_HIGH = X @ EOS_TEXT
    \<and> render_chat_prompt_text ([user_msg ''q''] @ assistant_msg ''a'' sample_calls1 # [tool_msg ''c1'' ''out'']) None DS4_THINK_HIGH
      = X @ render_live_tool_tail ([user_msg ''q''] @ assistant_msg ''a'' sample_calls1 # [tool_msg ''c1'' ''out'']) (Suc (length [user_msg ''q''])) DS4_THINK_HIGH"
  by (rule live_tail_continues) (simp_all add: role_is_system_def)

text \<open>C36: After a turn with tool calls, the prompt followed by the canonical text of the turn is what the
  next request renders for the same messages.\<close>

theorem tool_checkpoint_is_next_prompt:
  assumes "msgs \<noteq> []" "role_is_user_like (cm_role (last msgs))" "str schemas \<noteq> []" "rq_think_mode r = mode"
    and "a = \<lparr>cm_role = ''assistant'', cm_content = Some content, cm_reasoning = reasoning, cm_tool_call_id = None,
              cm_tool_call_ids = [], cm_calls = calls\<rparr>"
  shows "render_chat_prompt_text (msgs @ [a]) schemas mode
    = render_chat_prompt_text msgs schemas mode @ build_tool_checkpoint_suffix r content reasoning calls"
proof -
  let ?th = "ds4_think_mode_enabled mode"
  have ctx: "chat_history_uses_tool_context all schemas" for all using assms(3) by (simp add: chat_history_uses_tool_context_def)
  have ra: "cm_role a = ''assistant''" using assms(5) by simp
  have "system_text (msgs @ [a]) s = system_text msgs s" for s using ra by (simp add: system_text_append role_is_system_def)
  then have st: "prompt_state (msgs @ [a]) schemas mode xs = prompt_state msgs schemas mode xs" for xs
    using prompt_state_tools [OF ctx ctx] by metis
  obtain t q where t: "prompt_state msgs schemas mode msgs = (t, True, q)"
    "render_end ?th (t, True, q) = t @ ASSISTANT_TEXT @ (if ?th then ''<think>'' else ''</think>'')"
    "render_msg ?th a (t, True, q) = (t @ ASSISTANT_TEXT @ (if ?th then ''<think>'' @ str (cm_reasoning a) @ ''</think>'' else ''</think>'')
       @ str (cm_content a) @ append_dsml_tool_calls_text (cm_calls a) @ EOS_TEXT, False, False)"
    using prompt_then_turn [OF ra assms(1,2) refl refl, of schemas mode ?th] by auto
  have "prompt_state msgs schemas mode (msgs @ [a]) = render_msg ?th a (t, True, q)"
    using t(1) ctx by (simp add: prompt_state_def render_from_append)
  then have "render_chat_prompt_text (msgs @ [a]) schemas mode = render_end ?th (render_msg ?th a (t, True, q))"
    by (simp add: render_prompt_state st)
  then show ?thesis
    using t assms(4,5) by (simp add: render_prompt_state render_end_def build_tool_checkpoint_suffix_def str_def)
qed

theorem tool_checkpoint_is_next_prompt_witness:
  "render_chat_prompt_text ([user_msg ''q''] @ [assistant_msg ''a'' sample_calls1]) (Some ''[]'') DS4_THINK_HIGH
    = render_chat_prompt_text [user_msg ''q''] (Some ''[]'') DS4_THINK_HIGH
      @ build_tool_checkpoint_suffix (sample_request API_OPENAI None) ''a'' (Some ''r'') sample_calls1"
  by (rule tool_checkpoint_is_next_prompt) (simp_all add: role_is_user_like_def str_def)

text \<open>C34: In thinking mode without tools the text remembered at the end of a turn is the beginning of the
  next request of the same conversation, so that request continues from the live session: it evaluates
  only the bytes behind the remembered ones and keeps the hidden reasoning.\<close>

theorem thinking_continues_from_live:
  assumes "msgs \<noteq> []" "role_is_user_like (cm_role (last msgs))" "rest \<noteq> []" "role_is_user_like (cm_role (last rest))"
    and "\<not> chat_history_uses_tool_context (msgs @ a # rest) schemas" "\<forall>m\<in>set rest. \<not> role_is_system (cm_role m)"
    and "cm_role a = ''assistant''" "ds4_think_mode_enabled mode" "str (cm_content a) = content"
    and "rq_prompt_text r = Some (render_chat_prompt_text msgs schemas mode)" "rq_think_mode r = mode"
    and "rq_prompt_text r2 = Some (render_chat_prompt_text (msgs @ a # rest) schemas mode)" "rq_kind r2 = REQ_CHAT"
    and "rq_api r2 \<noteq> API_RESPONSES" "n = int (length toks)"
  shows "\<exists>v Y. build_toolless_thinking_visible_text r content = Some v \<and> rq_prompt_text r2 = Some (v @ Y) \<and> Y \<noteq> []
    \<and> thinking_live_visible_prefix_prompt eng (remember_thinking_checkpoint r content n s) (Some toks) r2 n
      = (n, toks @ eng_tokenize_rendered_chat eng Y)"
proof -
  obtain t Y where tY: "Y \<noteq> []" "render_chat_prompt_text msgs schemas mode = t @ ASSISTANT_TEXT @ ''<think>''"
    "render_chat_prompt_text (msgs @ a # rest) schemas mode = t @ ASSISTANT_TEXT @ ''</think>'' @ str (cm_content a) @ EOS_TEXT @ Y"
    using toolless_next [OF assms(1-8)] by blast
  let ?v = "t @ ASSISTANT_TEXT @ ''</think>'' @ content @ EOS_TEXT"
  have v: "build_toolless_thinking_visible_text r content = Some ?v"
    using tY(2) assms(8,10,11) by (simp add: build_toolless_thinking_visible_text_def)
  have p2: "rq_prompt_text r2 = Some (?v @ Y)" using tY(3) assms(9,12) by simp
  have "remember_thinking_checkpoint r content n s
      = s\<lparr>ls_thinking_live := \<lparr>vl_valid = True, vl_live_tokens = n, vl_visible_text = Some ?v\<rparr>\<rparr>"
    by (simp add: remember_thinking_checkpoint_def v thinking_live_remember_def)
  then have "thinking_live_visible_prefix_prompt eng (remember_thinking_checkpoint r content n s) (Some toks) r2 n
      = visible_prefix_prompt eng True n (Some ?v) (Some toks) (?v @ Y) n"
    using assms(13,14) by (simp add: thinking_live_visible_prefix_prompt_def p2 del: append_assoc)
  also have "\<dots> = (n, toks @ eng_tokenize_rendered_chat eng Y)"
    unfolding assms(15) by (rule visible_prefix_hit [OF tY(1)])
  finally have "thinking_live_visible_prefix_prompt eng (remember_thinking_checkpoint r content n s) (Some toks) r2 n
      = (n, toks @ eng_tokenize_rendered_chat eng Y)" .
  then show ?thesis using v p2 tY(1) by blast
qed

theorem thinking_continues_from_live_witness:
  "\<exists>v Y. build_toolless_thinking_visible_text
        (sample_request API_OPENAI (Some (render_chat_prompt_text [user_msg ''q''] None DS4_THINK_HIGH))) ''a'' = Some v
    \<and> Some (render_chat_prompt_text ([user_msg ''q''] @ assistant_msg ''a'' \<lparr>tcs_v = [], tcs_raw_dsml = None\<rparr> # [user_msg ''p'']) None DS4_THINK_HIGH)
      = Some (v @ Y) \<and> Y \<noteq> []"
proof -
  let ?a = "assistant_msg ''a'' \<lparr>tcs_v = [], tcs_raw_dsml = None\<rparr>"
  let ?r = "sample_request API_OPENAI (Some (render_chat_prompt_text [user_msg ''q''] None DS4_THINK_HIGH))"
  let ?r2 = "sample_request API_OPENAI (Some (render_chat_prompt_text ([user_msg ''q''] @ ?a # [user_msg ''p'']) None DS4_THINK_HIGH))"
  have "\<exists>v Y. build_toolless_thinking_visible_text ?r ''a'' = Some v \<and> rq_prompt_text ?r2 = Some (v @ Y) \<and> Y \<noteq> []
    \<and> thinking_live_visible_prefix_prompt sample_engine (remember_thinking_checkpoint ?r ''a'' 1 s) (Some [7]) ?r2 1
      = (1, [7] @ eng_tokenize_rendered_chat sample_engine Y)" for s
    by (rule thinking_continues_from_live [where msgs = "[user_msg ''q'']" and rest = "[user_msg ''p'']" and a = ?a
          and schemas = None and mode = DS4_THINK_HIGH])
      (simp_all add: role_is_user_like_def role_is_system_def chat_history_uses_tool_context_def str_def ds4_think_mode_enabled_def)
  then show ?thesis by (simp only: request.simps) blast
qed

text \<open>C35: The same conversation in the Responses protocol never continues from the live session by any of
  the ways the server has: the visible text it remembers, the tool outputs, the exact tokens and the
  exact text all keep the opened reasoning, and the next request, whatever reasoning the client sends
  back, renders the turn without it. So nothing is reused, or a request that needs the live state is
  refused. The session holds the first prompt and what was generated, for a tokenizer whose tokens
  read like the text they come from.\<close>

theorem responses_thinking_never_continues:
  assumes "msgs \<noteq> []" "role_is_user_like (cm_role (last msgs))" "rest \<noteq> []" "role_is_user_like (cm_role (last rest))"
    and "\<not> chat_history_uses_tool_context (msgs @ a # rest) schemas" "\<forall>m\<in>set rest. \<not> role_is_system (cm_role m)"
    and "cm_role a = ''assistant''" "ds4_think_mode_enabled mode" "tcs_v calls = []"
    and "rq_prompt_text r = Some (render_chat_prompt_text msgs schemas mode)" "rq_think_mode r = mode"
    and "rq_prompt_text r2 = Some (render_chat_prompt_text (msgs @ a # rest) schemas mode)"
    and "rq_prompt r2 = eng_tokenize_rendered_chat eng (render_chat_prompt_text (msgs @ a # rest) schemas mode)"
    and "rq_api r2 = API_RESPONSES"
    and "\<forall>x. ds4_kvstore_render_tokens_text eng (eng_tokenize_rendered_chat eng x) = x"
    and "ds4_kvstore_render_tokens_text eng toks = str (rq_prompt_text r) @ generated"
  shows "choose_live_prefix eng
      (responses_live_remember (str (rq_prompt_text r) @ build_responses_visible_assistant_suffix r content reasoning calls) None n s)
      valid (Some toks) r2
    = (if rq_responses_requires_live_tool_state r2
       then Inl (409, ''Responses continuation state is not available; retry by replaying the full input history'')
       else Inr (0, FromNone, rq_prompt r2))"
proof -
  let ?p2 = "render_chat_prompt_text (msgs @ a # rest) schemas mode"
  obtain t Y where tY: "render_chat_prompt_text msgs schemas mode = t @ ASSISTANT_TEXT @ ''<think>''"
    "?p2 = t @ ASSISTANT_TEXT @ ''</think>'' @ str (cm_content a) @ EOS_TEXT @ Y"
    using toolless_next [OF assms(1-8)] by blast
  have no: "?p2 \<noteq> (str (rq_prompt_text r) @ x) @ y" for x y using tY assms(10) by (simp add: str_def)
  let ?v = "str (rq_prompt_text r) @ build_responses_visible_assistant_suffix r content reasoning calls"
  let ?s = "responses_live_remember ?v None n s"
  have v0: "?v \<noteq> []" using tY(1) assms(10) by (simp add: str_def)
  have rem: "responses_live_visible_prefix_prompt eng (responses_live_remember w None n s) live r2 k = (0, [])
      \<and> sl_v (lt_call_ids (ls_responses_live (responses_live_remember w None n s))) = []"
    if "\<nexists>Y. ?p2 = w @ Y" "w \<noteq> []" for w live k
    using that assms(12) by (simp add: responses_live_visible_prefix_prompt_def responses_live_remember_def Let_def
        visible_prefix_miss live_tool_state_clear_locked_def stop_list_clear_def)
  have vis: "responses_live_visible_prefix_prompt eng ?s (Some toks) r2 k = (0, [])"
    and ids: "sl_v (lt_call_ids (ls_responses_live ?s)) = []" for k
    using rem [of ?v] v0 no [of "build_responses_visible_assistant_suffix r content reasoning calls"] by blast+
  have "responses_live_continuation_prompt eng ?s (Some toks) r2 k = (0, [])" for k
    using ids by (auto simp: responses_live_continuation_prompt_def responses_live_matches_request_def live_matches_def
        split: option.splits)
  moreover have "anthropic_live_continuation_prompt eng ?s (Some toks) r2 k = (0, [])" for k
    using assms(14) by (simp add: anthropic_live_continuation_prompt_def split: option.splits)
  moreover have "thinking_live_visible_prefix_prompt eng ?s (Some toks) r2 k = (0, [])" for k
    using assms(14) by (simp add: thinking_live_visible_prefix_prompt_def split: option.splits)
  moreover have "live_text_prefix_prompt eng (Some toks) r2 = (0, [])"
    using no [of generated] assms(12,16) by (auto simp: live_text_prefix_prompt_def Let_def byte_match_prefix)
  moreover have "\<not> (ds4_session_common_prefix valid toks (rq_prompt r2) = int (length toks) \<and> toks \<noteq> [])"
  proof
    assume c: "ds4_session_common_prefix valid toks (rq_prompt r2) = int (length toks) \<and> toks \<noteq> []"
    then obtain q where "rq_prompt r2 = toks @ q"
      using common_prefix_all by (auto simp: ds4_session_common_prefix_def split: if_splits)
    then have "?p2 = ds4_kvstore_render_tokens_text eng (toks @ q)" using assms(13,15) by metis
    then have "?p2 = (str (rq_prompt_text r) @ generated) @ ds4_kvstore_render_tokens_text eng q"
      by (simp only: render_tokens_append assms(16))
    then show False using no by blast
  qed
  ultimately show ?thesis using vis assms(14) by (auto simp: choose_live_prefix_def Let_def)
qed

theorem responses_thinking_never_continues_witness:
  "\<exists>p1 p2. p1 = render_chat_prompt_text [user_msg ''q''] None DS4_THINK_HIGH
    \<and> p2 = render_chat_prompt_text
        ([user_msg ''q''] @ assistant_msg ''a'' \<lparr>tcs_v = [], tcs_raw_dsml = None\<rparr> # [user_msg ''p'']) None DS4_THINK_HIGH
    \<and> choose_live_prefix sample_engine
        (responses_live_remember (p1 @ build_responses_visible_assistant_suffix (sample_request API_RESPONSES (Some p1)) ''a''
          (Some ''r'') \<lparr>tcs_v = [], tcs_raw_dsml = None\<rparr>) None 1 sample_live)
        True (Some (eng_tokenize_rendered_chat sample_engine (p1 @ ''r</think>a'')))
        ((sample_request API_RESPONSES (Some p2))\<lparr>rq_prompt := eng_tokenize_rendered_chat sample_engine p2\<rparr>)
      = Inr (0, FromNone, eng_tokenize_rendered_chat sample_engine p2)"
proof -
  let ?a = "assistant_msg ''a'' \<lparr>tcs_v = [], tcs_raw_dsml = None\<rparr>"
  let ?p1 = "render_chat_prompt_text [user_msg ''q''] None DS4_THINK_HIGH"
  let ?p2 = "render_chat_prompt_text ([user_msg ''q''] @ ?a # [user_msg ''p'']) None DS4_THINK_HIGH"
  let ?r = "sample_request API_RESPONSES (Some ?p1)"
  let ?r2 = "(sample_request API_RESPONSES (Some ?p2))\<lparr>rq_prompt := eng_tokenize_rendered_chat sample_engine ?p2\<rparr>"
  let ?toks = "eng_tokenize_rendered_chat sample_engine (?p1 @ ''r</think>a'')"
  have "choose_live_prefix sample_engine
      (responses_live_remember (str (rq_prompt_text ?r) @ build_responses_visible_assistant_suffix ?r ''a'' (Some ''r'')
        \<lparr>tcs_v = [], tcs_raw_dsml = None\<rparr>) None 1 sample_live) True (Some ?toks) ?r2
    = (if rq_responses_requires_live_tool_state ?r2
       then Inl (409, ''Responses continuation state is not available; retry by replaying the full input history'')
       else Inr (0, FromNone, rq_prompt ?r2))"
  proof (rule responses_thinking_never_continues [where msgs = "[user_msg ''q'']" and rest = "[user_msg ''p'']" and a = ?a
          and schemas = None and mode = DS4_THINK_HIGH])
    show "ds4_kvstore_render_tokens_text sample_engine ?toks = str (rq_prompt_text ?r) @ ''r</think>a''"
      unfolding sample_reads by (simp add: str_def)
  qed (simp_all add: role_is_user_like_def role_is_system_def chat_history_uses_tool_context_def str_def
      ds4_think_mode_enabled_def sample_reads del: engine.simps(4))
  then show ?thesis by (simp add: str_def)
qed

section \<open>What is reused\<close>

lemma live_prefix_whole:
  assumes "choose_live_prefix eng s valid (Some toks) r = Inr (c, src, p)" "0 < c"
    and "\<forall>x. ds4_kvstore_render_tokens_text eng (eng_tokenize_rendered_chat eng x) = x"
    and "rq_prompt_text r = Some pt" "rq_prompt r = eng_tokenize_rendered_chat eng pt"
  shows "c = int (length toks) \<and> (\<exists>q. p = toks @ q)
    \<and> (src = MemoryToken \<or> src = MemoryText \<longrightarrow> ds4_kvstore_render_tokens_text eng p = pt)"
proof -
  have lt: "live_text_prefix_prompt eng (Some toks) r = (c', p') \<Longrightarrow> 0 < c' \<Longrightarrow>
      c' = int (length toks) \<and> (\<exists>q. p' = toks @ q) \<and> ds4_kvstore_render_tokens_text eng p' = pt" for c' p'
    using live_text_hit [OF assms(3,4)] by blast
  have cp: "\<exists>q. rq_prompt r = toks @ q" if "ds4_session_common_prefix valid toks (rq_prompt r) = int (length toks)" "toks \<noteq> []"
    using that common_prefix_all by (auto simp: ds4_session_common_prefix_def split: if_splits)
  have tok: "ds4_kvstore_render_tokens_text eng (rq_prompt r) = pt" using assms(3,5) by simp
  note hits = responses_visible_hit anthropic_hit responses_hit thinking_hit lt
  show ?thesis
    using assms(1,2) cp tok
    by (auto simp: choose_live_prefix_def Let_def split: prod.splits if_splits dest!: hits)
qed

text \<open>Whatever a request reuses from the live session, it reuses all of it: the prompt to evaluate
  begins with the whole token history, so nothing in the session is discarded or rewritten. When the
  history is matched by its tokens or by its text, the prompt reads exactly like the request, for a
  tokenizer whose tokens read like the text they come from.\<close>

theorem live_prefix_reused_whole:
  assumes "choose_live_prefix eng s valid (Some toks) r = Inr (c, src, p)" "0 < c"
    and "\<forall>x. ds4_kvstore_render_tokens_text eng (eng_tokenize_rendered_chat eng x) = x"
    and "rq_prompt_text r = Some pt" "rq_prompt r = eng_tokenize_rendered_chat eng pt"
  shows "c = int (length toks) \<and> (\<exists>q. p = toks @ q)
    \<and> (src = MemoryToken \<or> src = MemoryText \<longrightarrow> ds4_kvstore_render_tokens_text eng p = pt)"
  using live_prefix_whole [OF assms] .

theorem live_prefix_reused_whole_witness:
  "ds4_kvstore_render_tokens_text sample_engine [97, 98] = ''ab''"
proof -
  let ?r = "(sample_request API_OPENAI (Some ''ab''))\<lparr>rq_prompt := [97, 98]\<rparr>"
  have c: "choose_live_prefix sample_engine sample_live True (Some [97]) ?r = Inr (1, MemoryToken, [97, 98])"
    by (simp add: choose_live_prefix_def responses_live_visible_prefix_prompt_def responses_live_continuation_prompt_def
        anthropic_live_continuation_prompt_def ds4_session_common_prefix_def)
  have t: "\<forall>x. ds4_kvstore_render_tokens_text sample_engine (eng_tokenize_rendered_chat sample_engine x) = x"
  proof
    fix x :: string
    have "concat (map (\<lambda>c. [c]) x) = x" by (induction x) simp_all
    then show "ds4_kvstore_render_tokens_text sample_engine (eng_tokenize_rendered_chat sample_engine x) = x"
      by (simp add: ds4_kvstore_render_tokens_text_def ord_def comp_def)
  qed
  from live_prefix_reused_whole [OF c _ t] show ?thesis by (simp add: ord_def)
qed

text \<open>A Responses request is accepted exactly when every tool result answers a call of the live turn
  or of an earlier message; it needs the live session exactly when some result answers no earlier
  message.\<close>

theorem responses_validate_exact:
  "(case responses_validate_tool_outputs live msgs mode n of
      Inl e \<Rightarrow> \<exists>(j, x)\<in>answered 0 msgs. \<not> known_call live msgs j x
    | Inr (needs_live, _) \<Rightarrow> (\<forall>(j, x)\<in>answered 0 msgs. known_call live msgs j x)
        \<and> (needs_live \<longleftrightarrow> (\<exists>(j, x)\<in>answered 0 msgs. only_live msgs j x)))"
  using check_msgs_result [where live = live and msgs = msgs and needs = "ds4_think_mode_enabled mode" and n = n and i = 0
      and ms = msgs and tool = False and reas = False]
  by (auto simp: responses_validate_tool_outputs_def split: sum.splits)

theorem responses_validate_exact_witness:
  "known_call (\<lambda>_. False) [user_msg ''q'', assistant_msg ''a'' sample_calls1, tool_msg ''c1'' ''out''] 2 ''c1''"
proof -
  let ?ms = "[user_msg ''q'', assistant_msg ''a'' sample_calls1, tool_msg ''c1'' ''out'']"
  have v: "responses_validate_tool_outputs (\<lambda>_. False) ?ms DS4_THINK_HIGH 160 = Inr (False, False)" by code_simp
  have "(2, ''c1'') \<in> answered 0 ?ms" by (simp add: answered_def is_tool_role_def result_ids_def str_def)
  then show ?thesis
    using responses_validate_exact [where live = "\<lambda>_. False" and msgs = ?ms and mode = DS4_THINK_HIGH and n = 160] unfolding v by auto
qed

text \<open>A turn with tool calls is continued by exactly the request that brings results for its calls:
  after remembering the turn the ids of a request match if and only if they are the ids of its calls,
  in any order, at the same token frontier.\<close>

theorem live_ids_match_exactly:
  assumes "visible \<noteq> []" "ids = push_ids xs no_ids" "xs' = call_ids calls"
  shows "responses_live_matches_request (responses_live_remember visible (Some calls) n s) ids k
    \<longleftrightarrow> set xs - {[]} \<noteq> {} \<and> k = n \<and> set xs - {[]} = set xs' - {[]}"
proof -
  let ?st = "ls_responses_live (responses_live_remember visible (Some calls) n s)"
  have st: "lt_valid ?st" "lt_live_tokens ?st = n"
    "lt_call_ids ?st = push_ids xs' (stop_list_clear (lt_call_ids (ls_responses_live s)))"
    using assms(1,3) by (simp_all add: responses_live_remember_def live_tool_state_clear_locked_def Let_def)
  have "distinct (sl_v (lt_call_ids ?st))" "distinct (sl_v ids)"
    unfolding st(3) assms(2) by (intro push_ids_distinct; simp add: stop_list_clear_def no_ids_def)+
  moreover have s: "set (sl_v (lt_call_ids ?st)) = set xs' - {[]}" "set (sl_v ids) = set xs - {[]}"
    unfolding st(3) assms(2) push_ids_set by (simp_all add: stop_list_clear_def no_ids_def)
  ultimately have "live_matches ?st ids k \<longleftrightarrow> sl_v ids \<noteq> [] \<and> lt_valid ?st \<and> lt_live_tokens ?st = k
      \<and> set (sl_v ids) = set (sl_v (lt_call_ids ?st))" by (intro live_matches_set) auto
  then show ?thesis using st s by (auto simp: responses_live_matches_request_def simp flip: set_empty)
qed

theorem live_ids_match_exactly_witness:
  "responses_live_matches_request (responses_live_remember ''v'' (Some sample_calls1) 5 sample_live) (push_ids [''c1'', ''c1''] no_ids) 5"
  by (subst live_ids_match_exactly [OF _ refl refl]) (simp_all add: call_ids_def str_def)

end
