(* ===== verification/ToolReplay.thy ===== *)
theory ToolReplay
  imports ToolMemoryRun ChatPrompt KvFormat
begin

text \<open>
  Replaying tool calls exactly (\<^verbatim>\<open>ds4_server.c\<close>): remembering the sampled text of a turn's calls,
  attaching it to the calls a client sends back, and the section of a checkpoint file that keeps the
  ids whose text occurs in the checkpoint. Writing is the list of bytes handed to the stream; the
  stream's failures are those of the file system model. Texts hold no NUL.
\<close>

section \<open>Remembering and attaching\<close>

text \<open>One put per call. The addresses that \<^verbatim>\<open>malloc\<close> returns are a supply of pairs.\<close>

fun remember_calls :: "string list \<Rightarrow> string \<Rightarrow> (ptr \<times> ptr) list \<Rightarrow> tool_memory \<Rightarrow> tool_memory option" where
  "remember_calls [] raw ps m = Some m"
| "remember_calls (i # is) raw [] m = None"
| "remember_calls (i # is) raw ((pe, pb) # ps) m =
     Option.bind (tool_memory_put_locked i raw TOOL_MEMORY_RAM pe pb m) (remember_calls is raw ps)"

definition tool_memory_remember ::
  "bool \<Rightarrow> tool_calls \<Rightarrow> (ptr \<times> ptr) list \<Rightarrow> tool_memory \<Rightarrow> tool_memory option" where
  "tool_memory_remember disabled calls ps m =
     (if disabled \<or> str (tcs_raw_dsml calls) = [] then Some m
      else remember_calls (call_ids calls) (str (tcs_raw_dsml calls)) ps m)"

record tool_replay_stats =
  st_mem :: int
  st_disk :: int
  st_canonical :: int
  st_missing_ids :: int

text \<open>What the loop over the calls of a message finds: the first block, its source, whether all calls
  share it, and the number of unknown ids.\<close>

fun match_calls ::
  "string list \<Rightarrow> (ptr \<times> string) option \<times> tool_memory_source \<times> bool \<times> int \<Rightarrow> tool_memory
     \<Rightarrow> (((ptr \<times> string) option \<times> tool_memory_source \<times> bool \<times> int) \<times> tool_memory) option" where
  "match_calls [] acc m = Some (acc, m)"
| "match_calls (i # is) (matched, msrc, exact, missing) m =
     Option.bind (tool_memory_lookup_locked i m) (\<lambda>(r, m1).
       case r of None \<Rightarrow> match_calls is (matched, msrc, False, missing + 1) m1
       | Some (source, block, dsml) \<Rightarrow>
           match_calls is
             (case matched of
                None \<Rightarrow> (Some (block, dsml), (if source = TOOL_MEMORY_RAM then TOOL_MEMORY_RAM else source), exact, missing)
              | Some (b, d) \<Rightarrow> (Some (b, d), (if source = TOOL_MEMORY_RAM then TOOL_MEMORY_RAM else msrc),
                               exact \<and> b = block, missing)) m1)"

definition attach_message ::
  "chat_msg \<Rightarrow> tool_replay_stats \<Rightarrow> tool_memory \<Rightarrow> (chat_msg \<times> tool_replay_stats \<times> tool_memory) option" where
  "attach_message msg stats m =
     (if tcs_v (cm_calls msg) = [] \<or> tcs_raw_dsml (cm_calls msg) \<noteq> None then Some (msg, stats, m)
      else Option.bind (match_calls (call_ids (cm_calls msg)) (None, TOOL_MEMORY_DISK, True, 0) m)
        (\<lambda>((matched, source, exact, missing), m1).
          case (exact, matched) of
            (True, Some (b, d)) \<Rightarrow>
              Some (msg\<lparr>cm_calls := (cm_calls msg)\<lparr>tcs_raw_dsml := Some d\<rparr>\<rparr>,
                    (if source = TOOL_MEMORY_RAM then stats\<lparr>st_mem := st_mem stats + 1\<rparr>
                     else stats\<lparr>st_disk := st_disk stats + 1\<rparr>), m1)
          | _ \<Rightarrow> Some (msg, stats\<lparr>st_canonical := st_canonical stats + 1,
                               st_missing_ids := st_missing_ids stats + missing\<rparr>, m1)))"

fun attach_loop ::
  "chat_msg list \<Rightarrow> tool_replay_stats \<Rightarrow> tool_memory \<Rightarrow> (chat_msg list \<times> tool_replay_stats \<times> tool_memory) option" where
  "attach_loop [] stats m = Some ([], stats, m)"
| "attach_loop (msg # msgs) stats m =
     Option.bind (attach_message msg stats m) (\<lambda>(msg', stats1, m1).
       Option.bind (attach_loop msgs stats1 m1) (\<lambda>(msgs', stats2, m2). Some (msg' # msgs', stats2, m2)))"

text \<open>Replay switched off: only the statistics change.\<close>

definition count_canonical :: "chat_msg \<Rightarrow> tool_replay_stats \<Rightarrow> tool_replay_stats" where
  "count_canonical msg stats =
     (if tcs_v (cm_calls msg) = [] \<or> tcs_raw_dsml (cm_calls msg) \<noteq> None then stats
      else stats\<lparr>st_canonical := st_canonical stats + 1,
                 st_missing_ids := st_missing_ids stats + int (length (tcs_v (cm_calls msg)))\<rparr>)"

definition tool_memory_attach_to_messages ::
  "bool \<Rightarrow> chat_msg list \<Rightarrow> tool_replay_stats \<Rightarrow> tool_memory \<Rightarrow> (chat_msg list \<times> tool_replay_stats \<times> tool_memory) option" where
  "tool_memory_attach_to_messages disabled msgs stats m =
     (if disabled then Some (msgs, fold count_canonical msgs stats, m) else attach_loop msgs stats m)"

section \<open>Tool blocks in a text\<close>

definition block_forms :: "(string \<times> string) list" where
  "block_forms =
     [([LF, LF] @ t_calls_start dsml_style, t_calls_end dsml_style), (t_calls_start dsml_style, t_calls_end dsml_style),
      ([LF, LF] @ t_calls_start short_style, t_calls_end short_style), (t_calls_start short_style, t_calls_end short_style),
      ([LF, LF] @ ''<tool_calls>'', ''</tool_calls>''), (''<tool_calls>'', ''</tool_calls>'')]"

text \<open>The best block so far: the text from its start, and the text behind its end. An earlier start is a
  longer rest.\<close>

fun best_block :: "(string \<times> string) list \<Rightarrow> string \<Rightarrow> (string \<times> string) option \<Rightarrow> (string \<times> string) option" where
  "best_block [] p best = best"
| "best_block ((st, en) # fs) p best =
     best_block fs p
       (case strstr_at st p of None \<Rightarrow> best
        | Some s \<Rightarrow>
          if (case best of None \<Rightarrow> False | Some (b, _) \<Rightarrow> length s \<le> length b) then best
          else (case strstr_at en s of None \<Rightarrow> best | Some e \<Rightarrow> Some (s, drop (length en) e)))"

definition find_next_dsml_tool_block :: "string \<Rightarrow> (string \<times> string) option" where
  "find_next_dsml_tool_block p = best_block block_forms p None"

section \<open>The tool map of a checkpoint\<close>

text \<open>Walking the entries of a block collects their ids.\<close>

partial_function (option) block_ids :: "heap \<Rightarrow> ptr option \<Rightarrow> string list option" where
  "block_ids h x =
     (case x of None \<Rightarrow> Some []
      | Some p \<Rightarrow> Option.bind (h p) (\<lambda>e.
          Option.bind (block_ids h (te_block_next e)) (\<lambda>is. Some (te_id e # is))))"

text \<open>The blocks of the memory that occur in a text, each once, in the order of their first
  occurrence: a block that has been seen in this scan is marked. \<open>fuel\<close> counts the occurrences.\<close>

fun scan_blocks :: "nat \<Rightarrow> nat \<Rightarrow> string \<Rightarrow> tool_memory \<Rightarrow> ((string \<times> string list) list \<times> tool_memory) option" where
  "scan_blocks 0 scan p m = None"
| "scan_blocks (Suc n) scan p m =
     (case find_next_dsml_tool_block p of None \<Rightarrow> Some ([], m)
      | Some (s, e) \<Rightarrow>
        (case tool_memory_find_block_locked m (take (length s - length e) s) of
           None \<Rightarrow> scan_blocks n scan e m
         | Some b \<Rightarrow>
           (case tm_blocks m b of None \<Rightarrow> None
            | Some x \<Rightarrow>
              if tb_seen x = scan then scan_blocks n scan e m
              else Option.bind (block_ids (tm_heap m) (tb_entries x)) (\<lambda>is.
                Option.bind (scan_blocks n scan e (m\<lparr>tm_blocks := (tm_blocks m)(b \<mapsto> x\<lparr>tb_seen := scan\<rparr>)\<rparr>)) (\<lambda>(rs, m').
                  Some ((tb_dsml x, is) # rs, m'))))))"

text \<open>The pairs of text and id that a scan visits.\<close>

definition scan_records :: "(string \<times> string list) list \<Rightarrow> (string \<times> string) list" where
  "scan_records rs = concat (map (\<lambda>(d, is). map (\<lambda>i. (i, d)) is) rs)"

fun measure_records :: "(string \<times> string) list \<Rightarrow> nat \<Rightarrow> nat \<Rightarrow> (nat \<times> nat) option" where
  "measure_records [] cnt bytes = Some (cnt, bytes)"
| "measure_records ((i, d) # rs) cnt bytes =
     (if 2 ^ 32 - 1 < length i \<or> 2 ^ 32 - 1 < length d then measure_records rs cnt bytes
      else if cnt = 2 ^ 32 - 1 then None
      else if 2 ^ 64 - 1 - bytes < 8 \<or> 2 ^ 64 - 1 - bytes - 8 < length i
              \<or> 2 ^ 64 - 1 - bytes - 8 - length i < length d then None
      else measure_records rs (cnt + 1) (bytes + 8 + length i + length d))"

text \<open>The outer result is the memory safety of the walk; the inner one the overflow checks.\<close>

definition kv_tool_map_measure_locked :: "string \<Rightarrow> tool_memory \<Rightarrow> ((nat \<times> nat) option \<times> tool_memory) option" where
  "kv_tool_map_measure_locked text m =
     (let scan = Suc (tm_scan_clock m) in
      Option.bind (scan_blocks (Suc (length text)) scan text (m\<lparr>tm_scan_clock := scan\<rparr>)) (\<lambda>(rs, m1).
        Some (map_option (\<lambda>(cnt, bytes). (cnt, if cnt = 0 then 0 else bytes)) (measure_records (scan_records rs) 0 8), m1)))"

definition map_record :: "string \<times> string \<Rightarrow> byte list" where
  "map_record r = (case r of (i, d) \<Rightarrow>
     if 2 ^ 32 - 1 < length i \<or> 2 ^ 32 - 1 < length d then []
     else ds4_kvstore_le_put32 (of_nat (length i)) @ ds4_kvstore_le_put32 (of_nat (length d)) @ bytes_of i @ bytes_of d)"

definition kv_tool_map_serialized_size :: "bool \<Rightarrow> string \<Rightarrow> tool_memory \<Rightarrow> (nat option \<times> tool_memory) option" where
  "kv_tool_map_serialized_size disabled text m =
     (if disabled \<or> text = [] then Some (Some 0, m)
      else map_option (\<lambda>(r, m1). (map_option snd r, m1)) (kv_tool_map_measure_locked text m))"

definition kv_tool_map_write :: "bool \<Rightarrow> string \<Rightarrow> tool_memory \<Rightarrow> (byte list option \<times> tool_memory) option" where
  "kv_tool_map_write disabled text m =
     (if disabled \<or> text = [] then Some (Some [], m)
      else Option.bind (kv_tool_map_measure_locked text m) (\<lambda>(r, m1).
        case r of None \<Rightarrow> Some (None, m1)
        | Some (cnt, bytes) \<Rightarrow>
          if cnt = 0 then Some (Some [], m1)
          else let scan = Suc (tm_scan_clock m1) in
            Option.bind (scan_blocks (Suc (length text)) scan text (m1\<lparr>tm_scan_clock := scan\<rparr>)) (\<lambda>(rs, m2).
              Some (Some ([of_char CHR ''K'', of_char CHR ''T'', of_char CHR ''M'', 1] @ ds4_kvstore_le_put32 (of_nat cnt)
                          @ concat (map map_record (scan_records rs))), m2))))"

text \<open>Reading back: \<open>n\<close> records are left; the file ends where it ends. Each accepted record is a put from
  disk at the next pair of addresses.\<close>

fun load_records ::
  "nat \<Rightarrow> stop_list option \<Rightarrow> byte list \<Rightarrow> (ptr \<times> ptr) list \<Rightarrow> int \<Rightarrow> tool_memory \<Rightarrow> (int \<times> tool_memory) option" where
  "load_records 0 wanted f ps loaded m = Some (loaded, m)"
| "load_records (Suc n) wanted f ps loaded m =
     (if length f < 8 then Some (loaded, m)
      else let id_len = unat (ds4_kvstore_le_get32 f);
               dsml_len = unat (ds4_kvstore_le_get32 (drop 4 f));
               r = drop 8 f in
        if id_len = 0 \<or> 256 < id_len \<or> dsml_len = 0 \<or> 512 * 1024 * 1024 < dsml_len then Some (loaded, m)
        else if length r < id_len + dsml_len then Some (loaded, m)
        else let i = cstr (text_of (take id_len r));
                 d = cstr (text_of (take dsml_len (drop id_len r)));
                 rest = drop (id_len + dsml_len) r in
          if wanted = None \<or> id_list_contains (the wanted) i
          then (case ps of [] \<Rightarrow> None
                | (pe, pb) # ps' \<Rightarrow> Option.bind (tool_memory_put_locked i d TOOL_MEMORY_DISK pe pb m)
                                     (load_records n wanted rest ps' (loaded + 1)))
          else load_records n wanted rest ps loaded m)"

definition kv_tool_map_load_from_pos ::
  "bool \<Rightarrow> stop_list option \<Rightarrow> byte list \<Rightarrow> (ptr \<times> ptr) list \<Rightarrow> tool_memory \<Rightarrow> (int \<times> tool_memory) option" where
  "kv_tool_map_load_from_pos disabled wanted f ps m =
     (if disabled \<or> length f < 8 then Some (0, m)
      else if take 4 f \<noteq> [of_char CHR ''K'', of_char CHR ''T'', of_char CHR ''M'', 1] then Some (0, m)
      else let cnt = unat (ds4_kvstore_le_get32 (drop 4 f)) in
        if tool_memory_max_entries m * 4 < int cnt then Some (0, m)
        else load_records cnt wanted (drop 8 f) ps 0 m)"

end
