(* ===== verification/ToolReplayLemmas.thy ===== *)
theory ToolReplayLemmas
  imports ToolReplay
begin

text \<open>
  What attaching finds, what a scan of a text finds, and what loading a tool map puts, in terms of
  the abstract content of the memory.
\<close>

section \<open>Attaching\<close>

lemma by_block_iff: "tm_inv m xs \<Longrightarrow> tm_by_block m d = Some b \<longleftrightarrow> (\<exists>x. tm_blocks m b = Some x \<and> tb_dsml x = d)"
  by (simp add: tm_inv_def blocks_ok_def)

lemma by_block_same:
  assumes "repr m its" "repr m' its'" "tm_blocks m' = tm_blocks m"
  shows "tm_by_block m' = tm_by_block m"
proof
  fix d
  have "tm_by_block m d = Some b \<longleftrightarrow> tm_by_block m' d = Some b" for b
    using assms unfolding repr_def by (metis by_block_iff)
  then show "tm_by_block m' d = tm_by_block m d" by (metis option.exhaust)
qed

text \<open>The block a lookup returns is the block of the text.\<close>

lemma lookup_block:
  assumes "repr m its" "tool_memory_lookup_locked i m = Some (Some (s, b, d), m')"
  shows "tm_by_block m d = Some b"
proof -
  obtain its' where its': "repr m' its'" "tm_blocks m' = tm_blocks m" using lookup_repr [OF assms(1), of i] assms(2) by auto
  obtain p m1 e x where "tool_memory_touch p m = Some m1" "m1 = m'" "tm_heap m1 p = Some e" "tm_blocks m1 (te_block e) = Some x"
    "te_block e = b" "tb_dsml x = d"
    using assms(2) by (auto simp: tool_memory_lookup_locked_def bind_eq_Some_conv split: option.splits)
  then have "tm_by_block m' d = Some b" using its'(1) unfolding repr_def by (metis by_block_iff)
  then show ?thesis using by_block_same [OF assms(1) its'] by simp
qed

lemma map_of_front:
  assumes "map_of its i = Some v"
  shows "map_of ((i, v) # without i its) = map_of its"
proof
  fix j
  have "map_of (without i its) j = map_of its j" if "j \<noteq> i"
    using that by (induction its) (auto simp: without_def)
  then show "map_of ((i, v) # without i its) j = map_of its j" using assms by simp
qed

lemma lookup_map: "map_of (snd (spec_lookup i its)) = map_of its"
  using map_of_front [of its i] by (auto simp: spec_lookup_def split: option.splits)

text \<open>What an id is known with; the empty id is not known.\<close>

definition known :: "item list \<Rightarrow> string \<Rightarrow> (string \<times> tool_memory_source) option" where
  "known its i = (if i = [] then None else map_of its i)"

lemma lookup_known:
  assumes "repr m its"
  shows "\<exists>r m' its'. tool_memory_lookup_locked i m = Some (r, m') \<and> repr m' its' \<and> known its' = known its \<and> tm_blocks m' = tm_blocks m
    \<and> (case known its i of None \<Rightarrow> r = None
       | Some (d, s) \<Rightarrow> \<exists>b. r = Some (s, b, d) \<and> tm_by_block m d = Some b)"
proof -
  obtain r m' where r: "tool_memory_lookup_locked i m = Some (r, m')" "repr m' (snd (spec_lookup i its))"
    "map_option (\<lambda>(s, b, d). (s, d)) r = fst (spec_lookup i its)" "tm_blocks m' = tm_blocks m"
    using lookup_repr [OF assms, of i] by blast
  have k: "known (snd (spec_lookup i its)) = known its" by (simp add: fun_eq_iff known_def lookup_map)
  have f: "fst (spec_lookup i its) = map_option (\<lambda>(d, s). (s, d)) (known its i)"
    by (auto simp: spec_lookup_def known_def split: option.splits)
  show ?thesis
  proof (cases "known its i")
    case None
    then show ?thesis using r k f by (intro exI [of _ r] exI [of _ m'] exI [of _ "snd (spec_lookup i its)"]) simp
  next
    case (Some v)
    obtain d s where v: "v = (d, s)" by (cases v)
    obtain b where b: "r = Some (s, b, d)" using r(3) f Some v by auto
    have "tm_by_block m d = Some b" using lookup_block [OF assms] r(1) b by simp
    then show ?thesis using r k Some v b by (intro exI [of _ r] exI [of _ m'] exI [of _ "snd (spec_lookup i its)"]) simp
  qed
qed

text \<open>The text all ids share, if they do.\<close>

definition shared_text :: "item list \<Rightarrow> string list \<Rightarrow> string option" where
  "shared_text its ids =
     (case ids of [] \<Rightarrow> None
      | i # _ \<Rightarrow> (case known its i of None \<Rightarrow> None
         | Some (d, s) \<Rightarrow> if \<forall>j\<in>set ids. map_option fst (known its j) = Some d then Some d else None))"

lemma match_calls_rest:
  assumes "repr m its" "tm_by_block m d = Some b"
  shows "\<exists>src exact' missing' m' its'. match_calls is (Some (b, d), msrc, exact, missing) m = Some ((Some (b, d), src, exact', missing'), m')
    \<and> repr m' its' \<and> known its' = known its
    \<and> (exact' \<longleftrightarrow> exact \<and> (\<forall>j\<in>set is. map_option fst (known its j) = Some d))"
  using assms
proof (induction "is" arbitrary: msrc exact missing m its)
  case (Cons i "is")
  obtain r m1 its1 where r: "tool_memory_lookup_locked i m = Some (r, m1)" "repr m1 its1" "known its1 = known its"
    "tm_blocks m1 = tm_blocks m"
    "case known its i of None \<Rightarrow> r = None | Some (d, s) \<Rightarrow> \<exists>b. r = Some (s, b, d) \<and> tm_by_block m d = Some b"
    using lookup_known [OF Cons.prems(1), of i] by blast
  have bb: "tm_by_block m1 = tm_by_block m" by (rule by_block_same [OF Cons.prems(1) r(2,4)])
  have b1: "tm_by_block m1 d = Some b" using bb Cons.prems(2) by simp
  show ?case
  proof (cases "known its i")
    case None
    then show ?thesis using r Cons.IH [OF r(2) b1, of msrc False "missing + 1"] by simp
  next
    case (Some v)
    obtain d1 s1 where v: "v = (d1, s1)" by (cases v)
    obtain b2 where b2: "r = Some (s1, b2, d1)" "tm_by_block m d1 = Some b2" using r(5) Some v by auto
    have "b = b2 \<longleftrightarrow> d = d1"
    proof
      assume e: "b = b2"
      show "d = d1" using Cons.prems b2(2) e unfolding repr_def by (metis by_block_iff option.inject)
    next
      assume "d = d1"
      then show "b = b2" using Cons.prems(2) b2(2) by simp
    qed
    moreover obtain src exact' missing' m' its' where
      "match_calls is (Some (b, d), if s1 = TOOL_MEMORY_RAM then TOOL_MEMORY_RAM else msrc, exact \<and> b = b2, missing) m1
        = Some ((Some (b, d), src, exact', missing'), m')"
      "repr m' its'" "known its' = known its1"
      "exact' \<longleftrightarrow> (exact \<and> b = b2) \<and> (\<forall>j\<in>set is. map_option fst (known its1 j) = Some d)"
      using Cons.IH [OF r(2) b1] by blast
    moreover have "match_calls (i # is) (Some (b, d), msrc, exact, missing) m
        = match_calls is (Some (b, d), if s1 = TOOL_MEMORY_RAM then TOOL_MEMORY_RAM else msrc, exact \<and> b = b2, missing) m1"
      using r(1) b2(1) by simp
    ultimately show ?thesis using Some v r(3)
      by (intro exI [of _ src] exI [of _ exact'] exI [of _ missing'] exI [of _ m'] exI [of _ its']) auto
  qed
qed auto

lemma match_calls_unknown:
  assumes "repr m its"
  shows "\<exists>mt src missing' m' its'. match_calls is (None, msrc, False, missing) m = Some ((mt, src, False, missing'), m')
    \<and> repr m' its' \<and> known its' = known its"
  using assms
proof (induction "is" arbitrary: msrc missing m its)
  case (Cons i "is")
  obtain r m1 its1 where r: "tool_memory_lookup_locked i m = Some (r, m1)" "repr m1 its1" "known its1 = known its"
    "tm_blocks m1 = tm_blocks m"
    "case known its i of None \<Rightarrow> r = None | Some (d, s) \<Rightarrow> \<exists>b. r = Some (s, b, d) \<and> tm_by_block m d = Some b"
    using lookup_known [OF Cons.prems, of i] by blast
  show ?case
  proof (cases "known its i")
    case None
    then show ?thesis using r Cons.IH [OF r(2), of msrc "missing + 1"] by simp
  next
    case (Some v)
    obtain d1 s1 where v: "v = (d1, s1)" by (cases v)
    obtain b2 where b2: "r = Some (s1, b2, d1)" "tm_by_block m d1 = Some b2" using r(5) Some v by auto
    have "tm_by_block m1 d1 = Some b2" using by_block_same [OF Cons.prems r(2,4)] b2(2) by simp
    then show ?thesis using r b2(1)
        match_calls_rest [OF r(2), of d1 b2 "is" "if s1 = TOOL_MEMORY_RAM then TOOL_MEMORY_RAM else s1" False missing] by auto
  qed
qed auto

lemma attach_message_repr:
  assumes "repr m its"
  shows "\<exists>msg' stats' m' its'. attach_message msg stats m = Some (msg', stats', m') \<and> repr m' its' \<and> known its' = known its
    \<and> msg' = (if tcs_raw_dsml (cm_calls msg) \<noteq> None then msg
              else (case shared_text its (call_ids (cm_calls msg)) of None \<Rightarrow> msg
                    | Some d \<Rightarrow> msg\<lparr>cm_calls := (cm_calls msg)\<lparr>tcs_raw_dsml := Some d\<rparr>\<rparr>))"
proof (cases "tcs_v (cm_calls msg) = [] \<or> tcs_raw_dsml (cm_calls msg) \<noteq> None")
  case True
  then show ?thesis using assms
    by (intro exI [of _ msg] exI [of _ stats] exI [of _ m] exI [of _ its])
      (auto simp: attach_message_def shared_text_def call_ids_def)
next
  case False
  then obtain i "is" where ids: "call_ids (cm_calls msg) = i # is" by (cases "tcs_v (cm_calls msg)") (auto simp: call_ids_def)
  obtain r m1 its1 where r: "tool_memory_lookup_locked i m = Some (r, m1)" "repr m1 its1" "known its1 = known its"
    "tm_blocks m1 = tm_blocks m"
    "case known its i of None \<Rightarrow> r = None | Some (d, s) \<Rightarrow> \<exists>b. r = Some (s, b, d) \<and> tm_by_block m d = Some b"
    using lookup_known [OF assms, of i] by blast
  show ?thesis
  proof (cases "known its i")
    case None
    then have sh: "shared_text its (i # is) = None" by (simp add: shared_text_def)
    obtain mt src missing' m' its' where "match_calls is (None, TOOL_MEMORY_DISK, False, 0 + 1) m1 = Some ((mt, src, False, missing'), m')"
      "repr m' its'" "known its' = known its1" using match_calls_unknown [OF r(2), of "is" TOOL_MEMORY_DISK "0 + 1"] by blast
    then show ?thesis using False ids r None sh by (auto simp: attach_message_def)
  next
    case (Some v)
    obtain d1 s1 where v: "v = (d1, s1)" by (cases v)
    obtain b2 where b2: "r = Some (s1, b2, d1)" "tm_by_block m d1 = Some b2" using r(5) Some v by auto
    have b1: "tm_by_block m1 d1 = Some b2" using by_block_same [OF assms r(2,4)] b2(2) by simp
    obtain src ex' missing' m' its' where mc:
      "match_calls is (Some (b2, d1), (if s1 = TOOL_MEMORY_RAM then TOOL_MEMORY_RAM else s1), True, 0) m1 = Some ((Some (b2, d1), src, ex', missing'), m')"
      "repr m' its'" "known its' = known its1" "ex' \<longleftrightarrow> True \<and> (\<forall>j\<in>set is. map_option fst (known its1 j) = Some d1)"
      using match_calls_rest [OF r(2) b1] by blast
    have "shared_text its (i # is) = (if ex' then Some d1 else None)" using mc(4) r(3) Some v by (simp add: shared_text_def)
    moreover have "attach_message msg stats m
        = (if ex' then Some (msg\<lparr>cm_calls := (cm_calls msg)\<lparr>tcs_raw_dsml := Some d1\<rparr>\<rparr>,
                    (if src = TOOL_MEMORY_RAM then stats\<lparr>st_mem := st_mem stats + 1\<rparr> else stats\<lparr>st_disk := st_disk stats + 1\<rparr>), m')
           else Some (msg, stats\<lparr>st_canonical := st_canonical stats + 1, st_missing_ids := st_missing_ids stats + missing'\<rparr>, m'))"
      using False ids r(1) b2(1) mc(1) by (cases ex') (simp_all add: attach_message_def)
    ultimately show ?thesis using False ids r(3) mc(2,3) by (cases ex') auto
  qed
qed

end
