(* ===== verification/ToolMapLemmas.thy ===== *)
theory ToolMapLemmas
  imports ToolReplayLemmas
begin

text \<open>
  The tool map of a checkpoint: which records a scan of a text produces, and what reading the
  written records puts into a memory.
\<close>

section \<open>The blocks of a text\<close>

lemma best_block_split:
  assumes "\<forall>f\<in>set fs. snd f \<noteq> []"
    and "\<forall>s e. best = Some (s, e) \<longrightarrow> (\<exists>pre w. p = pre @ s \<and> s = w @ e \<and> w \<noteq> [])"
    and "best_block fs p best = Some (s, e)"
  shows "\<exists>pre w. p = pre @ s \<and> s = w @ e \<and> w \<noteq> []"
  using assms
proof (induction fs arbitrary: best)
  case (Cons f fs)
  obtain st en where f: "f = (st, en)" by (cases f)
  let ?b = "case strstr_at st p of None \<Rightarrow> best
        | Some s \<Rightarrow> if (case best of None \<Rightarrow> False | Some (b, _) \<Rightarrow> length s \<le> length b) then best
          else (case strstr_at en s of None \<Rightarrow> best | Some e \<Rightarrow> Some (s, drop (length en) e))"
  have b: "best_block fs p ?b = Some (s, e)" using Cons.prems(3) f by simp
  have "\<exists>pre w. p = pre @ s' \<and> s' = w @ e' \<and> w \<noteq> []" if bs: "?b = Some (s', e')" for s' e'
  proof (cases "best = Some (s', e')")
    case True
    then show ?thesis using Cons.prems(2) by blast
  next
    case False
    then obtain t where t: "strstr_at st p = Some s'" "strstr_at en s' = Some t" "e' = drop (length en) t"
      using bs by (auto split: option.splits if_splits)
    obtain pre pre' where pp: "p = pre @ s'" "s' = pre' @ t" "take (length en) t = en"
      using strstr_at_Some [OF t(1)] strstr_at_Some [OF t(2)] by blast
    have "t = en @ e'" using pp(3) t(3) append_take_drop_id [of "length en" t] by simp
    moreover have "en \<noteq> []" using Cons.prems(1) f by simp
    ultimately show ?thesis using pp(1,2) by (intro exI [of _ pre] exI [of _ "pre' @ en"]) simp
  qed
  then show ?case using Cons.IH [OF _ _ b] Cons.prems(1) by simp
qed simp

lemma find_next_split:
  assumes "find_next_dsml_tool_block p = Some (s, e)"
  shows "\<exists>pre w. p = pre @ s \<and> s = w @ e \<and> w \<noteq> []"
  using assms unfolding find_next_dsml_tool_block_def
  by (rule best_block_split [rotated 2])
    (simp_all add: block_forms_def dsml_style_def short_style_def tags_of_def)

lemma find_next_shorter: "find_next_dsml_tool_block p = Some (s, e) \<Longrightarrow> length e < length p"
  using find_next_split by fastforce

text \<open>The texts of the tool blocks, one behind the other.\<close>

function tool_blocks :: "string \<Rightarrow> string list" where
  "tool_blocks p =
     (case find_next_dsml_tool_block p of None \<Rightarrow> []
      | Some (s, e) \<Rightarrow> take (length s - length e) s # tool_blocks e)"
  by pat_completeness auto

termination by (relation "measure length") (auto dest: find_next_shorter)

declare tool_blocks.simps [simp del]

section \<open>Scanning\<close>

lemma block_ids_chain:
  assumes "chain (bn h) x cs"
  shows "block_ids h x = Some (map (\<lambda>p. te_id (the (h p))) cs)"
  using assms
proof (induction cs arbitrary: x)
  case Nil
  then show ?case by (subst block_ids.simps) simp
next
  case (Cons p cs)
  then obtain e where e: "h p = Some e" "te_block_next e = first cs None" by (auto simp: bn_def)
  have "block_ids h (first cs None) = Some (map (\<lambda>p. te_id (the (h p))) cs)" using Cons by auto
  then show ?case using Cons.prems e by (subst block_ids.simps) simp
qed

lemma block_ids_content:
  assumes "tm_inv m xs" "tm_blocks m b = Some x"
  shows "\<exists>is. block_ids (tm_heap m) (tb_entries x) = Some is \<and> length is \<le> length xs
    \<and> (\<forall>i. i \<in> set is \<longleftrightarrow> (\<exists>s. (i, tb_dsml x, s) \<in> set (content m xs)))"
proof -
  have "chain_ok (tm_heap m) b x" using assms by (simp add: tm_inv_def)
  then obtain cs where cs: "chain (bn (tm_heap m)) (tb_entries x) cs" "set cs = members (tm_heap m) b" "distinct cs"
    by (auto simp: chain_ok_def)
  have "set cs \<subseteq> set xs" using assms(1) cs(2) by (auto simp: tm_inv_def list_ok_def members_def pay_Some dom_def)
  then have len: "length cs \<le> length xs" using card_mono [of "set xs" "set cs"] distinct_card [OF cs(3)] card_length [of xs] by simp
  have "i \<in> (\<lambda>p. te_id (the (tm_heap m p))) ` set cs \<longleftrightarrow> (\<exists>s. (i, tb_dsml x, s) \<in> set (content m xs))" for i
  proof
    assume "i \<in> (\<lambda>p. te_id (the (tm_heap m p))) ` set cs"
    then obtain p where p: "p \<in> members (tm_heap m) b" "i = te_id (the (tm_heap m p))" using cs(2) by auto
    then obtain j n s where pp: "pay (tm_heap m) p = Some (j, b, n, s)" by (auto simp: members_def)
    then have "p \<in> set xs" "i = j" using assms(1) p(2) by (auto simp: tm_inv_def list_ok_def pay_Some dom_def)
    moreover have "view m p = (j, tb_dsml x, s)" using pp assms(2) by (simp add: view_def)
    ultimately show "\<exists>s. (i, tb_dsml x, s) \<in> set (content m xs)" by (force simp: content_def)
  next
    assume "\<exists>s. (i, tb_dsml x, s) \<in> set (content m xs)"
    then obtain p s where p: "p \<in> set xs" "(i, tb_dsml x, s) = view m p" by (auto simp: content_def)
    obtain j c t y where pp: "pay (tm_heap m) p = Some (j, c, length j + 1 + sizeof_entry, t)" "tm_blocks m c = Some y"
      "view m p = (j, tb_dsml y, t)" using pay_of [OF assms(1) p(1)] by metis
    have eq: "i = j" "tb_dsml y = tb_dsml x" using trans [OF p(2) pp(3)] by simp_all
    then have "tm_by_block m (tb_dsml x) = Some c" "tm_by_block m (tb_dsml x) = Some b"
      unfolding by_block_iff [OF assms(1)] using pp(2) assms(2) by auto
    then have "c = b" by simp
    then have "p \<in> members (tm_heap m) b" "te_id (the (tm_heap m p)) = i" using pp(1) eq(1) by (auto simp: members_def pay_Some)
    then show "i \<in> (\<lambda>p. te_id (the (tm_heap m p))) ` set cs" using cs(2) by force
  qed
  then show ?thesis using block_ids_chain [OF cs(1)] len by simp
qed

text \<open>Marking a block, and starting a scan, changes no content.\<close>

lemma repr_mark:
  assumes "repr m its" "tm_blocks m b = Some x" "t \<le> tm_scan_clock m"
  shows "repr (m\<lparr>tm_blocks := (tm_blocks m)(b \<mapsto> x\<lparr>tb_seen := t\<rparr>)\<rparr>) its"
proof -
  let ?x = "x\<lparr>tb_seen := t\<rparr>"
  let ?m = "m\<lparr>tm_blocks := (tm_blocks m)(b \<mapsto> ?x)\<rparr>"
  obtain xs where xs: "tm_inv m xs" "content m xs = its" using assms(1) by (auto simp: repr_def)
  have "list_ok ?m xs" "ids_ok ?m" using xs(1) by (simp_all add: tm_inv_def list_ok_def ids_ok_def)
  moreover have "blocks_ok ?m" using xs(1) assms(2) by (auto simp: tm_inv_def blocks_ok_def)
  moreover have "\<forall>c y. tm_blocks ?m c = Some y \<longrightarrow> chain_ok (tm_heap ?m) c y"
    using xs(1) assms(2) by (auto simp: tm_inv_def chain_ok_def)
  moreover have "sizes_ok ?m"
  proof -
    have sz: "sizes_ok m" using xs(1) by (simp add: tm_inv_def)
    have "tm_blocks m c \<noteq> None \<and> k = length j + 1 + sizeof_entry \<and> j \<noteq> []"
      if "pay (tm_heap m) q = Some (j, c, k, s)" for q j c k s using sz that unfolding sizes_ok_def by blast
    then have "tm_blocks ?m c \<noteq> None \<and> k = length j + 1 + sizeof_entry \<and> j \<noteq> []"
      if "pay (tm_heap m) q = Some (j, c, k, s)" for q j c k s using that by fastforce
    moreover have "tb_bytes y = length (tb_dsml y) + 1 + sizeof_block \<and> tb_dsml y \<noteq> [] \<and> tb_seen y \<le> tm_scan_clock m"
      if "tm_blocks ?m c = Some y" for c y using that sz assms(2,3) by (auto simp: sizes_ok_def split: if_splits)
    ultimately show ?thesis unfolding sizes_ok_def by simp
  qed
  moreover have "bytes_ok ?m"
    using xs(1) sum_upd_same [where bl = "tm_blocks m", OF assms(2), of ?x] by (simp add: tm_inv_def bytes_ok_def)
  ultimately have "tm_inv ?m xs" by (simp add: tm_inv_def)
  moreover have "view ?m p = view m p" for p
    using assms(2) by (auto simp: view_def simp del: pay_None split: option.split)
  ultimately show ?thesis using xs(2) unfolding repr_def content_def by (metis map_eq_conv)
qed

lemma repr_clock:
  assumes "repr m its" "tm_scan_clock m \<le> t"
  shows "repr (m\<lparr>tm_scan_clock := t\<rparr>) its"
proof -
  obtain xs where xs: "tm_inv m xs" "content m xs = its" using assms(1) by (auto simp: repr_def)
  have "tb_seen x \<le> t" if "tm_blocks m b = Some x" for b x
    using xs(1) that assms(2) by (fastforce simp: tm_inv_def sizes_ok_def)
  then have "tm_inv (m\<lparr>tm_scan_clock := t\<rparr>) xs"
    using xs(1) by (auto simp: tm_inv_def list_ok_def ids_ok_def blocks_ok_def sizes_ok_def bytes_ok_def)
  moreover have "view (m\<lparr>tm_scan_clock := t\<rparr>) = view m" by (rule view_relink) simp_all
  ultimately show ?thesis using xs(2) by (auto simp: repr_def content_def)
qed

definition marked :: "tool_memory \<Rightarrow> nat \<Rightarrow> string \<Rightarrow> bool" where
  "marked m t d \<longleftrightarrow> (\<exists>b x. tm_blocks m b = Some x \<and> tb_dsml x = d \<and> tb_seen x = t)"

lemma mark_one:
  assumes "tm_blocks m b = Some x" "tb_seen x \<noteq> t"
  shows "{d. marked (m\<lparr>tm_blocks := (tm_blocks m)(b \<mapsto> x\<lparr>tb_seen := t\<rparr>)\<rparr>) t d} = insert (tb_dsml x) {d. marked m t d}"
proof -
  let ?bl = "(tm_blocks m)(b \<mapsto> x\<lparr>tb_seen := t\<rparr>)"
  have "(\<exists>c y. ?bl c = Some y \<and> tb_dsml y = d \<and> tb_seen y = t) \<longleftrightarrow> d = tb_dsml x \<or> (\<exists>c y. tm_blocks m c = Some y \<and> tb_dsml y = d \<and> tb_seen y = t)" for d
  proof (intro iffI; elim disjE exE conjE)
    fix c y assume a: "tm_blocks m c = Some y" "tb_dsml y = d" "tb_seen y = t"
    then have "c \<noteq> b" using assms by auto
    then show "\<exists>c y. ?bl c = Some y \<and> tb_dsml y = d \<and> tb_seen y = t" using a by (intro exI [of _ c] exI [of _ y]) simp
  next
    assume "d = tb_dsml x"
    then show "\<exists>c y. ?bl c = Some y \<and> tb_dsml y = d \<and> tb_seen y = t" by (intro exI [of _ b]) simp
  next
    fix c y assume a: "?bl c = Some y" "tb_dsml y = d" "tb_seen y = t"
    show "d = tb_dsml x \<or> (\<exists>c y. tm_blocks m c = Some y \<and> tb_dsml y = d \<and> tb_seen y = t)"
    proof (cases "c = b")
      case True
      then have "x\<lparr>tb_seen := t\<rparr> = y" using a(1) by simp
      then have "tb_dsml y = tb_dsml x" by (metis tool_memory_block.select_convs(1) tool_memory_block.surjective tool_memory_block.update_convs(4))
      then show ?thesis using a(2) by simp
    next
      case False
      then show ?thesis using a by auto
    qed
  qed
  then show ?thesis by (auto simp: marked_def)
qed

text \<open>The ids of a text in the memory, and the known texts of a list, each once.\<close>

definition ids_of :: "tool_memory \<Rightarrow> string \<Rightarrow> string list" where
  "ids_of m d = the (block_ids (tm_heap m) (tb_entries (the (tm_blocks m (the (tm_by_block m d))))))"

fun pick :: "(string \<Rightarrow> bool) \<Rightarrow> string set \<Rightarrow> string list \<Rightarrow> string list" where
  "pick mem seen [] = []"
| "pick mem seen (d # ds) =
     (if \<not> mem d \<or> d \<in> seen then pick mem seen ds else d # pick mem (insert d seen) ds)"

lemma set_pick: "set (pick mem seen ds) = {d \<in> set ds. mem d \<and> d \<notin> seen}"
  by (induction ds arbitrary: seen) auto

text \<open>What a scan finds: the ids of the texts that occur in the text and have not been marked.\<close>

lemma scan_result:
  assumes "repr m its" "length p < n" "tm_scan_clock m = t"
  shows "\<exists>m'. scan_blocks n t p m
      = Some (map (\<lambda>d. (d, ids_of m d)) (pick (\<lambda>d. tm_by_block m d \<noteq> None) {d. marked m t d} (tool_blocks p)), m')
    \<and> repr m' its \<and> tm_scan_clock m' = t \<and> tm_by_block m' = tm_by_block m \<and> ids_of m' = ids_of m
    \<and> tm_max_entries m' = tm_max_entries m \<and> tm_max_bytes m' = tm_max_bytes m"
  using assms
proof (induction n arbitrary: m p)
  case (Suc n)
  show ?case
  proof (cases "find_next_dsml_tool_block p")
    case None
    then show ?thesis using Suc.prems by (simp add: tool_blocks.simps)
  next
    case (Some se)
    obtain s e where se: "se = (s, e)" by (cases se)
    let ?d = "take (length s - length e) s"
    have e: "length e < n" using find_next_shorter [of p s e] Some se Suc.prems(2) by simp
    have tb: "tool_blocks p = ?d # tool_blocks e" using Some se by (subst tool_blocks.simps) simp
    have dne: "?d \<noteq> []" using find_next_split [of p s e] Some se by auto
    obtain xs where xs: "tm_inv m xs" "content m xs = its" using Suc.prems(1) by (auto simp: repr_def)
    have fb: "tool_memory_find_block_locked m ?d = tm_by_block m ?d" using dne by (simp add: tool_memory_find_block_locked_def)
    have step: "scan_blocks (Suc n) t p m = (case tm_by_block m ?d of None \<Rightarrow> scan_blocks n t e m
         | Some b \<Rightarrow> (case tm_blocks m b of None \<Rightarrow> None
            | Some x \<Rightarrow> if tb_seen x = t then scan_blocks n t e m
              else Option.bind (block_ids (tm_heap m) (tb_entries x)) (\<lambda>is.
                Option.bind (scan_blocks n t e (m\<lparr>tm_blocks := (tm_blocks m)(b \<mapsto> x\<lparr>tb_seen := t\<rparr>)\<rparr>)) (\<lambda>(rs, m').
                  Some ((tb_dsml x, is) # rs, m')))))"
      using Some se fb by simp
    show ?thesis
    proof (cases "tm_by_block m ?d")
      case None
      then show ?thesis using Suc.IH [OF Suc.prems(1) e Suc.prems(3)] step tb by simp
    next
      case (Some b)
      then obtain x where x: "tm_blocks m b = Some x" "tb_dsml x = ?d" using by_block_iff [OF xs(1)] by blast
      have un: "c = b" if "tm_blocks m c = Some y" "tb_dsml y = ?d" for c y
        using by_block_iff [OF xs(1)] that Some by (metis option.inject)
      show ?thesis
      proof (cases "tb_seen x = t")
        case True
        then have "marked m t ?d" using x by (auto simp: marked_def)
        then show ?thesis using Suc.IH [OF Suc.prems(1) e Suc.prems(3)] step Some x(1) True tb by simp
      next
        case False
        let ?m = "m\<lparr>tm_blocks := (tm_blocks m)(b \<mapsto> x\<lparr>tb_seen := t\<rparr>)\<rparr>"
        have rm: "repr ?m its" using repr_mark [OF Suc.prems(1) x(1)] Suc.prems(3) by simp
        have nm: "\<not> marked m t ?d" using un x False unfolding marked_def by (metis option.inject)
        have mk: "{d. marked ?m t d} = insert ?d {d. marked m t d}" using mark_one [OF x(1) False] x(2) by simp
        have ids: "ids_of ?m = ids_of m" using x(1) by (auto simp: fun_eq_iff ids_of_def)
        obtain is' where bi: "block_ids (tm_heap m) (tb_entries x) = Some is'" using block_ids_content [OF xs(1) x(1)] by blast
        then have io: "ids_of m ?d = is'" using Some x(1) by (simp add: ids_of_def)
        show ?thesis using Suc.IH [OF rm e] Suc.prems(3) step Some x bi io False nm mk ids tb by auto
      qed
    qed
  qed
qed simp

lemma ids_of_content:
  assumes "repr m its" "tm_by_block m d \<noteq> None"
  shows "i \<in> set (ids_of m d) \<longleftrightarrow> (\<exists>s. (i, d, s) \<in> set its)"
proof -
  obtain xs where xs: "tm_inv m xs" "content m xs = its" using assms(1) by (auto simp: repr_def)
  obtain b x where b: "tm_by_block m d = Some b" "tm_blocks m b = Some x" "tb_dsml x = d"
    using assms(2) by_block_iff [OF xs(1)] by blast
  then show ?thesis using block_ids_content [OF xs(1) b(2)] xs(2) by (auto simp: ids_of_def)
qed

lemma ids_of_length:
  assumes "repr m its" "tm_by_block m d \<noteq> None"
  shows "length (ids_of m d) \<le> length its"
proof -
  obtain xs where xs: "tm_inv m xs" "content m xs = its" using assms(1) by (auto simp: repr_def)
  obtain b x where b: "tm_by_block m d = Some b" "tm_blocks m b = Some x"
    using assms(2) by_block_iff [OF xs(1)] by blast
  then show ?thesis using block_ids_content [OF xs(1) b(2)] xs(2) by (auto simp: ids_of_def content_def)
qed

lemma known_text:
  assumes "repr m its" "(i, d, s) \<in> set its"
  shows "tm_by_block m d \<noteq> None"
proof -
  obtain xs where xs: "tm_inv m xs" "content m xs = its" using assms(1) by (auto simp: repr_def)
  then obtain q where q: "q \<in> set xs" "(i, d, s) = view m q" using assms(2) by (auto simp: content_def)
  obtain j c t y where "pay (tm_heap m) q = Some (j, c, length j + 1 + sizeof_entry, t)" "tm_blocks m c = Some y"
    and v: "view m q = (j, tb_dsml y, t)" using pay_of [OF xs(1) q(1)] by metis
  moreover have "d = tb_dsml y" using trans [OF q(2) v] by simp
  ultimately have "tm_by_block m d = Some c" using by_block_iff [OF xs(1)] by blast
  then show ?thesis by simp
qed

text \<open>The records of a fresh scan.\<close>

definition tool_map_records :: "tool_memory \<Rightarrow> string \<Rightarrow> (string \<times> string) list" where
  "tool_map_records m p =
     scan_records (map (\<lambda>d. (d, ids_of m d)) (pick (\<lambda>d. tm_by_block m d \<noteq> None) {} (tool_blocks p)))"

lemma set_records:
  assumes "repr m its"
  shows "set (tool_map_records m p) = {(i, d). (\<exists>s. (i, d, s) \<in> set its) \<and> d \<in> set (tool_blocks p)}"
proof -
  have "(i, d) \<in> set (tool_map_records m p) \<longleftrightarrow> d \<in> set (tool_blocks p) \<and> tm_by_block m d \<noteq> None \<and> i \<in> set (ids_of m d)" for i d
    by (auto simp: tool_map_records_def scan_records_def set_pick)
  then have "(i, d) \<in> set (tool_map_records m p) \<longleftrightarrow> (\<exists>s. (i, d, s) \<in> set its) \<and> d \<in> set (tool_blocks p)" for i d
    using ids_of_content [OF assms, of d i] known_text [OF assms, of i d] by blast
  then show ?thesis by auto
qed

lemma fresh_scan:
  assumes "repr m its" "n = Suc (length p)"
  shows "\<exists>rs m'. scan_blocks n (Suc (tm_scan_clock m)) p (m\<lparr>tm_scan_clock := Suc (tm_scan_clock m)\<rparr>) = Some (rs, m')
    \<and> scan_records rs = tool_map_records m p \<and> repr m' its \<and> tool_map_records m' p = tool_map_records m p
    \<and> tm_max_entries m' = tm_max_entries m \<and> tm_max_bytes m' = tm_max_bytes m"
proof -
  let ?t = "Suc (tm_scan_clock m)"
  let ?m = "m\<lparr>tm_scan_clock := ?t\<rparr>"
  have r: "repr ?m its" by (rule repr_clock [OF assms(1)]) simp
  have "\<not> marked ?m ?t d" for d
  proof
    assume "marked ?m ?t d"
    then obtain b x where x: "tm_blocks m b = Some x" "tb_seen x = ?t" by (auto simp: marked_def)
    obtain xs where "tm_inv m xs" using assms(1) by (auto simp: repr_def)
    then have "tb_seen x \<le> tm_scan_clock m" using x(1) unfolding tm_inv_def sizes_ok_def by blast
    then show False using x(2) by simp
  qed
  then have nm: "{d. marked ?m ?t d} = {}" by blast
  have io: "ids_of ?m = ids_of m" by (simp add: fun_eq_iff ids_of_def)
  show ?thesis using scan_result [OF r _ refl, of p n] assms(2) nm io
    by (auto simp: tool_map_records_def)
qed

section \<open>Writing and reading back\<close>

lemma measure_count: "measure_records rs k b = Some (cnt, bytes) \<Longrightarrow>
    cnt = k + length (filter (\<lambda>(i, d). length i < 2 ^ 32 \<and> length d < 2 ^ 32) rs)"
  by (induction rs k b rule: measure_records.induct) (auto split: if_splits)

text \<open>Records that a load accepts.\<close>

definition good_record :: "string \<times> string \<Rightarrow> bool" where
  "good_record r \<longleftrightarrow> (case r of (i, d) \<Rightarrow> i \<noteq> [] \<and> length i \<le> 256 \<and> NUL \<notin> set i
     \<and> d \<noteq> [] \<and> length d \<le> 512 * 1024 * 1024 \<and> NUL \<notin> set d)"

lemma unat_len: "n < 2 ^ 32 \<Longrightarrow> unat (of_nat n :: u32) = n"
  by (simp add: unat_of_nat32)

definition fresh_supply :: "(ptr \<times> ptr) list \<Rightarrow> tool_memory \<Rightarrow> bool" where
  "fresh_supply ps m \<longleftrightarrow> distinct (map fst ps) \<and> distinct (map snd ps)
     \<and> set (map fst ps) \<inter> dom (tm_heap m) = {} \<and> set (map snd ps) \<inter> dom (tm_blocks m) = {}"

lemma fresh_rest:
  assumes "fresh_supply ((pe, pb) # ps) m" "dom (tm_heap m1) \<subseteq> insert pe (dom (tm_heap m))"
    "dom (tm_blocks m1) \<subseteq> insert pb (dom (tm_blocks m))"
  shows "fresh_supply ps m1"
proof -
  have "pe \<notin> set (map fst ps)" "pb \<notin> set (map snd ps)" "distinct (map fst ps)" "distinct (map snd ps)"
    "set (map fst ps) \<inter> dom (tm_heap m) = {}" "set (map snd ps) \<inter> dom (tm_blocks m) = {}"
    using assms(1) by (simp_all add: fresh_supply_def)
  then show ?thesis using assms(2,3) unfolding fresh_supply_def by blast
qed

definition put_records :: "int \<Rightarrow> nat \<Rightarrow> (string \<times> string) list \<Rightarrow> item list \<Rightarrow> item list" where
  "put_records n b rs its = foldl (\<lambda>l (i, d). spec_put n b i d TOOL_MEMORY_DISK l) its rs"

lemma load_record_step:
  assumes "good_record (i, d)"
  shows "load_records (Suc n) None (map_record (i, d) @ rest) ((pe, pb) # ps) k m
    = Option.bind (tool_memory_put_locked i d TOOL_MEMORY_DISK pe pb m) (load_records n None rest ps (k + 1))"
proof -
  let ?li = "ds4_kvstore_le_put32 (of_nat (length i))" and ?ld = "ds4_kvstore_le_put32 (of_nat (length d))"
  have g: "i \<noteq> []" "length i \<le> 256" "NUL \<notin> set i" "d \<noteq> []" "length d \<le> 512 * 1024 * 1024" "NUL \<notin> set d"
    using assms by (simp_all add: good_record_def)
  have m: "map_record (i, d) = ?li @ ?ld @ bytes_of i @ bytes_of d" using g by (simp add: map_record_def)
  have l: "unat (ds4_kvstore_le_get32 (?li @ t)) = length i" "unat (ds4_kvstore_le_get32 (?ld @ t)) = length d" for t
    using g unat_len [of "length i"] unat_len [of "length d"] by (simp_all add: le_get32_put32)
  have d4: "drop 4 (?li @ t) = t" "drop 8 (?li @ ?ld @ t) = t" for t by simp_all
  have ti: "take (length i) (bytes_of i @ t) = bytes_of i" "drop (length i) (bytes_of i @ t) = t"
    "take (length d) (bytes_of d @ t) = bytes_of d" "drop (length i + length d) (bytes_of i @ bytes_of d @ t) = t" for t
    by simp_all
  have c: "cstr i = i" "cstr d = d" using g(3,6) by (simp_all add: cstr_id)
  have n: "length i \<noteq> 0" "length d \<noteq> 0" "\<not> 256 < length i" "\<not> 512 * 1024 * 1024 < length d" using g by simp_all
  have s: "\<not> length (?li @ ?ld @ bytes_of i @ bytes_of d @ rest) < 8" "\<not> length (bytes_of i @ bytes_of d @ rest) < length i + length d"
    by simp_all
  show ?thesis unfolding m append_assoc
    by (simp only: load_records.simps Let_def l d4 ti c n s if_False text_of_bytes_of simp_thms list.case prod.case if_True)
qed

lemma load_written:
  assumes "\<forall>r\<in>set rs. good_record r" "repr m its" "fresh_supply ps m" "length rs \<le> length ps"
  shows "\<exists>m'. load_records (length rs) None (concat (map map_record rs)) ps k m = Some (k + int (length rs), m')
    \<and> repr m' (put_records (tool_memory_max_entries m) (tool_memory_max_bytes m) rs its)"
  using assms
proof (induction rs arbitrary: m its ps k)
  case Nil
  then show ?case by (simp add: put_records_def)
next
  case (Cons r rs)
  obtain i d where r: "r = (i, d)" by (cases r)
  obtain pe pb ps' where ps: "ps = (pe, pb) # ps'" using Cons.prems(4) by (cases ps) auto
  have f: "pe \<notin> dom (tm_heap m)" "pb \<notin> dom (tm_blocks m)" using Cons.prems(3) ps by (auto simp: fresh_supply_def)
  obtain m1 where m1: "tool_memory_put_locked i d TOOL_MEMORY_DISK pe pb m = Some m1"
    "repr m1 (spec_put (tool_memory_max_entries m) (tool_memory_max_bytes m) i d TOOL_MEMORY_DISK its)"
    "dom (tm_heap m1) \<subseteq> insert pe (dom (tm_heap m))" "dom (tm_blocks m1) \<subseteq> insert pb (dom (tm_blocks m))"
    "tm_max_entries m1 = tm_max_entries m" "tm_max_bytes m1 = tm_max_bytes m"
    using put_repr [OF Cons.prems(2) f, of i d TOOL_MEMORY_DISK] by blast
  have "fresh_supply ps' m1" by (rule fresh_rest [OF Cons.prems(3) [unfolded ps] m1(3,4)])
  then obtain m' where m': "load_records (length rs) None (concat (map map_record rs)) ps' (k + 1) m1 = Some (k + 1 + int (length rs), m')"
    "repr m' (put_records (tool_memory_max_entries m1) (tool_memory_max_bytes m1) rs
       (spec_put (tool_memory_max_entries m) (tool_memory_max_bytes m) i d TOOL_MEMORY_DISK its))"
    using Cons.IH [OF _ m1(2), of ps' "k + 1"] Cons.prems(1,4) ps by auto
  have "load_records (length (r # rs)) None (concat (map map_record (r # rs))) ps k m = Some (k + int (length (r # rs)), m')"
    using load_record_step [of i d "length rs" "concat (map map_record rs)" pe pb ps' k m] Cons.prems(1) r ps m1(1) m'(1) by simp
  then show ?case using m'(2) limits_cong [OF m1(5,6)] r by (auto simp: put_records_def)
qed

lemma write_result:
  assumes "repr m its" "t \<noteq> []"
  shows "\<exists>r m1. kv_tool_map_write False t m = Some (r, m1) \<and> repr m1 its
    \<and> (\<forall>bs. r = Some bs \<longrightarrow> bs = [] \<or> (\<exists>cnt. bs = [of_char CHR ''K'', of_char CHR ''T'', of_char CHR ''M'', 1]
          @ ds4_kvstore_le_put32 (of_nat cnt) @ concat (map map_record (tool_map_records m t))
        \<and> cnt = length (filter (\<lambda>(i, d). length i < 2 ^ 32 \<and> length d < 2 ^ 32) (tool_map_records m t))))"
proof -
  obtain rs m1 where s1: "scan_blocks (Suc (length t)) (Suc (tm_scan_clock m)) t (m\<lparr>tm_scan_clock := Suc (tm_scan_clock m)\<rparr>) = Some (rs, m1)"
    "scan_records rs = tool_map_records m t" "repr m1 its" "tool_map_records m1 t = tool_map_records m t"
    using fresh_scan [OF assms(1) refl, of t] by blast
  obtain rs2 m2 where s2: "scan_blocks (Suc (length t)) (Suc (tm_scan_clock m1)) t (m1\<lparr>tm_scan_clock := Suc (tm_scan_clock m1)\<rparr>) = Some (rs2, m2)"
    "scan_records rs2 = tool_map_records m1 t" "repr m2 its"
    using fresh_scan [OF s1(3) refl, of t] by blast
  have k: "kv_tool_map_measure_locked t m
      = Some (map_option (\<lambda>(cnt, bytes). (cnt, if cnt = 0 then 0 else bytes)) (measure_records (tool_map_records m t) 0 8), m1)"
    using s1(1,2) by (simp add: kv_tool_map_measure_locked_def Let_def)
  show ?thesis
  proof (cases "measure_records (tool_map_records m t) 0 8")
    case None
    then show ?thesis using k assms(2) s1(3) by (simp add: kv_tool_map_write_def)
  next
    case (Some cb)
    obtain cnt b where cb: "cb = (cnt, b)" by (cases cb)
    note mc = measure_count [OF Some [unfolded cb]]
    show ?thesis
    proof (cases "cnt = 0")
      case True
      then show ?thesis using k Some cb assms(2) s1(3) by (simp add: kv_tool_map_write_def)
    next
      case False
      then show ?thesis using k Some cb assms(2) s1(4) s2 mc by (simp add: kv_tool_map_write_def Let_def)
    qed
  qed
qed

end
