(* ===== verification/ToolReplayProps.thy ===== *)
theory ToolReplayProps
  imports ToolMapLemmas
begin

text \<open>The properties of exact tool replay and of the tool map of a checkpoint.\<close>

section \<open>Replay\<close>

text \<open>What a message is after the attachment: the text all its calls are known with, if there is one.\<close>

definition replayed :: "item list \<Rightarrow> chat_msg \<Rightarrow> chat_msg" where
  "replayed its msg =
     (if tcs_raw_dsml (cm_calls msg) \<noteq> None then msg
      else (case shared_text its (call_ids (cm_calls msg)) of None \<Rightarrow> msg
            | Some d \<Rightarrow> msg\<lparr>cm_calls := (cm_calls msg)\<lparr>tcs_raw_dsml := Some d\<rparr>\<rparr>))"

lemma replayed_cong:
  assumes "known its' = known its"
  shows "replayed its' = replayed its"
  unfolding replayed_def shared_text_def assms by (rule refl)

lemma attach_loop_repr:
  assumes "repr m its"
  shows "\<exists>stats' m' its'. attach_loop msgs stats m = Some (map (replayed its) msgs, stats', m')
    \<and> repr m' its' \<and> known its' = known its"
  using assms
proof (induction msgs arbitrary: stats m its)
  case (Cons msg msgs)
  obtain stats1 m1 its1 where a: "attach_message msg stats m = Some (replayed its msg, stats1, m1)"
    "repr m1 its1" "known its1 = known its"
    using attach_message_repr [OF Cons.prems, of msg stats] unfolding replayed_def by blast
  obtain stats2 m2 its2 where "attach_loop msgs stats1 m1 = Some (map (replayed its1) msgs, stats2, m2)"
    "repr m2 its2" "known its2 = known its1" using Cons.IH [OF a(2)] by blast
  then show ?case using a replayed_cong [OF a(3)]
    by (intro exI [of _ stats2] exI [of _ m2] exI [of _ its2]) simp
qed auto

text \<open>A memory after one put.\<close>

lemma one_put:
  assumes "i \<noteq> []" "d \<noteq> []" "length i + length d < 1000"
  shows "\<exists>m. repr m [(i, d, TOOL_MEMORY_RAM)]"
proof -
  let ?m = "tool_memory_zero\<lparr>tm_max_entries := 2, tm_max_bytes := 2000\<rparr>"
  have l: "tool_memory_max_entries ?m = 2" "tool_memory_max_bytes ?m = 2000"
    by (simp_all add: tool_memory_max_entries_def tool_memory_max_bytes_def)
  have f: "7 \<notin> dom (tm_heap ?m)" "7 \<notin> dom (tm_blocks ?m)" by (simp_all add: tool_memory_zero_def)
  have "\<exists>m. repr m (spec_put (tool_memory_max_entries ?m) (tool_memory_max_bytes ?m) i d TOOL_MEMORY_RAM [])"
    using put_repr [OF start_repr f, of i d TOOL_MEMORY_RAM] by (elim exE conjE) (rule exI)
  moreover have "spec_put 2 2000 i d TOOL_MEMORY_RAM [] = [(i, d, TOOL_MEMORY_RAM)]"
  proof -
    have "\<not> spec_over 2 2000 [(i, d, TOOL_MEMORY_RAM)]"
      using assms(3) by (simp add: spec_over_def spec_bytes_def item_bytes_def text_bytes_def sizeof_entry_def sizeof_block_def)
    then have "spec_prune 2 2000 [(i, d, TOOL_MEMORY_RAM)] = [(i, d, TOOL_MEMORY_RAM)]" by (subst spec_prune.simps) simp
    then show ?thesis using assms(1,2) by (simp add: spec_put_def without_def)
  qed
  ultimately show ?thesis by (simp only: l)
qed

section \<open>Sizes\<close>

lemma measure_all:
  assumes "\<forall>r\<in>set rs. good_record r" "k + length rs < 2 ^ 32" "b + length (concat (map map_record rs)) < 2 ^ 64"
  shows "measure_records rs k b = Some (k + length rs, b + length (concat (map map_record rs)))"
  using assms
proof (induction rs arbitrary: k b)
  case (Cons r rs)
  obtain i d where r: "r = (i, d)" by (cases r)
  have g: "length i \<le> 256" "length d \<le> 512 * 1024 * 1024" using Cons.prems(1) r by (simp_all add: good_record_def)
  have l: "length (map_record r) = 8 + length i + length d" using g r by (simp add: map_record_def)
  have "measure_records rs (k + 1) (b + 8 + length i + length d)
      = Some (k + 1 + length rs, b + 8 + length i + length d + length (concat (map map_record rs)))"
    using Cons.prems l by (intro Cons.IH) simp_all
  moreover have "\<not> 2 ^ 64 - 1 - b < 8" "\<not> 2 ^ 64 - 1 - b - 8 < length i" "\<not> 2 ^ 64 - 1 - b - 8 - length i < length d"
    using Cons.prems(3) r l by simp_all
  ultimately show ?case using r g l Cons.prems(2) by simp
qed simp

lemma write_total:
  assumes "repr m its" "t \<noteq> []" "\<forall>r\<in>set (tool_map_records m t). good_record r"
    "length (tool_map_records m t) < 2 ^ 32" "8 + length (concat (map map_record (tool_map_records m t))) < 2 ^ 64"
  shows "\<exists>m1 m2. kv_tool_map_serialized_size False t m
      = Some (Some (if tool_map_records m t = [] then 0 else 8 + length (concat (map map_record (tool_map_records m t)))), m1)
    \<and> kv_tool_map_write False t m
      = Some (Some (if tool_map_records m t = [] then []
          else [of_char CHR ''K'', of_char CHR ''T'', of_char CHR ''M'', 1]
            @ ds4_kvstore_le_put32 (of_nat (length (tool_map_records m t))) @ concat (map map_record (tool_map_records m t))), m2)"
proof -
  let ?rs = "tool_map_records m t"
  obtain rs m1 where s1: "scan_blocks (Suc (length t)) (Suc (tm_scan_clock m)) t (m\<lparr>tm_scan_clock := Suc (tm_scan_clock m)\<rparr>) = Some (rs, m1)"
    "scan_records rs = ?rs" "repr m1 its" "tool_map_records m1 t = ?rs"
    using fresh_scan [OF assms(1) refl, of t] by blast
  obtain rs2 m2 where s2: "scan_blocks (Suc (length t)) (Suc (tm_scan_clock m1)) t (m1\<lparr>tm_scan_clock := Suc (tm_scan_clock m1)\<rparr>) = Some (rs2, m2)"
    "scan_records rs2 = ?rs"
    using fresh_scan [OF s1(3) refl, of t] s1(4) by metis
  have "measure_records ?rs 0 8 = Some (length ?rs, 8 + length (concat (map map_record ?rs)))"
    using measure_all [OF assms(3), of 0 8] assms(4,5) by simp
  then have k: "kv_tool_map_measure_locked t m
      = Some (Some (length ?rs, if ?rs = [] then 0 else 8 + length (concat (map map_record ?rs))), m1)"
    using s1(1,2) by (simp add: kv_tool_map_measure_locked_def Let_def)
  then show ?thesis using assms(2) s2 by (simp add: kv_tool_map_serialized_size_def kv_tool_map_write_def Let_def)
qed

section \<open>The properties\<close>

text \<open>C12: Exact replay: a message of the client gets the sampled text of its tool calls if and only if
  the memory knows every one of its calls, all with that one text; otherwise, and if it has a text of
  its own, it is left alone. What the memory knows does not change.\<close>

theorem attach_exact:
  assumes "repr m its"
  shows "\<exists>stats' m' its'. tool_memory_attach_to_messages False msgs stats m = Some (map (replayed its) msgs, stats', m')
    \<and> repr m' its' \<and> known its' = known its"
  using attach_loop_repr [OF assms, of msgs stats] by (simp add: tool_memory_attach_to_messages_def)

definition sample_replay_msg :: chat_msg where
  "sample_replay_msg =
     \<lparr>cm_role = ''assistant'', cm_content = None, cm_reasoning = None, cm_tool_call_id = None, cm_tool_call_ids = [],
      cm_calls = \<lparr>tcs_v = [\<lparr>tc_id = Some ''c1'', tc_name = ''f'', tc_arguments = []\<rparr>], tcs_raw_dsml = None\<rparr>\<rparr>"

definition sample_replay_stats :: tool_replay_stats where
  "sample_replay_stats = \<lparr>st_mem = 0, st_disk = 0, st_canonical = 0, st_missing_ids = 0\<rparr>"

theorem attach_exact_witness:
  "\<exists>m msg' stats' m'. tool_memory_attach_to_messages False [sample_replay_msg] sample_replay_stats m = Some ([msg'], stats', m')
    \<and> tcs_raw_dsml (cm_calls msg') = Some ''text''"
proof -
  obtain m where m: "repr m [(''c1'', ''text'', TOOL_MEMORY_RAM)]" using one_put [of "''c1''" "''text''"] by auto
  have "tcs_raw_dsml (cm_calls (replayed [(''c1'', ''text'', TOOL_MEMORY_RAM)] sample_replay_msg)) = Some ''text''"
    by code_simp
  then show ?thesis using attach_exact [OF m, of "[sample_replay_msg]" sample_replay_stats] by (simp only: list.map) blast
qed

text \<open>C13: The tool map of a checkpoint round trips: writing the map of a text and loading it into any
  memory puts, as known from disk, exactly the pairs of a known id and its text for which the text
  is one of the tool blocks of the checkpoint's text. The announced size is the size of the map.\<close>

theorem tool_map_roundtrip:
  assumes "repr m its" "t \<noteq> []" "repr m2 its2"
    and "\<forall>r\<in>set (tool_map_records m t). good_record r"
    and "length (tool_map_records m t) < 2 ^ 32" "8 + length (concat (map map_record (tool_map_records m t))) < 2 ^ 64"
    and "int (length (tool_map_records m t)) \<le> tool_memory_max_entries m2 * 4"
    and "fresh_supply ps m2" "length (tool_map_records m t) \<le> length ps"
  shows "set (tool_map_records m t) = {(i, d). (\<exists>s. (i, d, s) \<in> set its) \<and> d \<in> set (tool_blocks t)}
    \<and> (\<exists>bs m1 m3 m4. kv_tool_map_write False t m = Some (Some bs, m1)
      \<and> kv_tool_map_serialized_size False t m = Some (Some (length bs), m4)
      \<and> kv_tool_map_load_from_pos False None bs ps m2 = Some (int (length (tool_map_records m t)), m3)
      \<and> repr m3 (put_records (tool_memory_max_entries m2) (tool_memory_max_bytes m2) (tool_map_records m t) its2))"
proof -
  let ?rs = "tool_map_records m t"
  obtain m1 m4 where w: "kv_tool_map_serialized_size False t m
      = Some (Some (if ?rs = [] then 0 else 8 + length (concat (map map_record ?rs))), m4)"
    "kv_tool_map_write False t m = Some (Some (if ?rs = [] then []
          else [of_char CHR ''K'', of_char CHR ''T'', of_char CHR ''M'', 1]
            @ ds4_kvstore_le_put32 (of_nat (length ?rs)) @ concat (map map_record ?rs)), m1)"
    using write_total [OF assms(1,2,4-6)] by blast
  obtain m3 where l: "load_records (length ?rs) None (concat (map map_record ?rs)) ps 0 m2 = Some (int (length ?rs), m3)"
    "repr m3 (put_records (tool_memory_max_entries m2) (tool_memory_max_bytes m2) ?rs its2)"
    using load_written [OF assms(4,3,8,9), of 0] by auto
  have "unat (ds4_kvstore_le_get32 (ds4_kvstore_le_put32 (of_nat (length ?rs)) @ t)) = length ?rs" for t
    using assms(5) by (simp add: le_get32_put32 unat_len)
  then have "uint (ds4_kvstore_le_get32 (ds4_kvstore_le_put32 (of_nat (length ?rs)) @ t)) = int (length ?rs)"
    "unat (ds4_kvstore_le_get32 (ds4_kvstore_le_put32 (of_nat (length ?rs)) @ t)) = length ?rs" for t
    by (simp_all add: uint_nat)
  then have "kv_tool_map_load_from_pos False None
      (if ?rs = [] then [] else [of_char CHR ''K'', of_char CHR ''T'', of_char CHR ''M'', 1]
            @ ds4_kvstore_le_put32 (of_nat (length ?rs)) @ concat (map map_record ?rs)) ps m2 = Some (int (length ?rs), m3)"
    using l(1) assms(7) by (cases "?rs = []") (simp_all add: kv_tool_map_load_from_pos_def Let_def)
  then show ?thesis using set_records [OF assms(1), of t] w l(2) by (intro conjI) auto
qed

definition sample_block :: string where
  "sample_block = ''<tool_calls></tool_calls>''"

theorem tool_map_roundtrip_witness:
  "\<exists>m m1 bs m2 m3. kv_tool_map_write False (''hi'' @ sample_block) m = Some (Some bs, m1)
    \<and> kv_tool_map_load_from_pos False None bs [(0, 0)] m2 = Some (1, m3) \<and> repr m3 [(''c1'', sample_block, TOOL_MEMORY_DISK)]"
proof -
  let ?t = "''hi'' @ sample_block"
  let ?m2 = "tool_memory_zero\<lparr>tm_max_entries := 2, tm_max_bytes := 2000\<rparr>"
  obtain m where m: "repr m [(''c1'', sample_block, TOOL_MEMORY_RAM)]"
    using one_put [of "''c1''" sample_block] by (auto simp: sample_block_def)
  have f: "find_next_dsml_tool_block ?t = Some (sample_block, [])" "find_next_dsml_tool_block [] = None" by code_simp+
  have tb: "tool_blocks ?t = [sample_block]"
    using f by (subst tool_blocks.simps) (simp add: tool_blocks.simps)
  have s: "set (tool_map_records m ?t) = {(''c1'', sample_block)}" using set_records [OF m, of ?t] tb by auto
  have k: "tm_by_block m sample_block \<noteq> None" using known_text [OF m] by simp
  have "length (tool_map_records m ?t) \<le> 1"
    using ids_of_length [OF m k] tb k by (simp add: tool_map_records_def scan_records_def)
  then have r: "tool_map_records m ?t = [(''c1'', sample_block)]"
    using s by (cases "tool_map_records m ?t") auto
  have z: "repr ?m2 []" by (rule start_repr)
  have l: "tool_memory_max_entries ?m2 = 2" "tool_memory_max_bytes ?m2 = 2000"
    by (simp_all add: tool_memory_max_entries_def tool_memory_max_bytes_def)
  have fs: "fresh_supply [(0, 0)] ?m2" by (simp add: fresh_supply_def tool_memory_zero_def)
  have g: "good_record (''c1'', sample_block)" "length (map_record (''c1'', sample_block)) = 35"
    by (simp_all add: good_record_def map_record_def sample_block_def)
  have p: "put_records 2 2000 [(''c1'', sample_block)] [] = [(''c1'', sample_block, TOOL_MEMORY_DISK)]" by code_simp
  have a: "?t \<noteq> []" "\<forall>r\<in>set (tool_map_records m ?t). good_record r" "length (tool_map_records m ?t) < 2 ^ 32"
    "8 + length (concat (map map_record (tool_map_records m ?t))) < 2 ^ 64"
    "int (length (tool_map_records m ?t)) \<le> tool_memory_max_entries ?m2 * 4" "length (tool_map_records m ?t) \<le> length [(0 :: ptr, 0 :: ptr)]"
    unfolding r l using g by simp_all
  from tool_map_roundtrip [OF m a(1) z a(2-5) fs a(6)] obtain bs m1 m3 where
    "kv_tool_map_write False ?t m = Some (Some bs, m1)"
    "kv_tool_map_load_from_pos False None bs [(0, 0)] ?m2 = Some (int (length (tool_map_records m ?t)), m3)"
    "repr m3 (put_records (tool_memory_max_entries ?m2) (tool_memory_max_bytes ?m2) (tool_map_records m ?t) [])"
    by (elim exE conjE)
  moreover have "int (length (tool_map_records m ?t)) = 1" unfolding r by simp
  ultimately show ?thesis unfolding r l p by (intro exI [of _ m] exI [of _ m1] exI [of _ bs] exI [of _ ?m2] exI [of _ m3]) simp
qed

end
