(* ===== verification/StrTable.thy ===== *)
theory StrTable
  imports Prelude "HOL-Library.Monad_Syntax"
begin

text \<open>
  The hash table from strings to 32-bit integers that the tokenizer of \<^verbatim>\<open>ds4.c\<close> uses: open addressing
  with linear probing, never resized. An entry is \<open>None\<close> while its \<^verbatim>\<open>used\<close> flag is clear. The walk along
  the entries ends by finding the key or an unused entry; a walk that never ends, or leaves the array,
  has the value \<open>None\<close>. Running out of memory ends the process.
\<close>

section \<open>The table\<close>

record str_i32_table =
  tab_entry :: "(string \<times> int) option list"
  tab_cap :: u64
  tab_used :: u64

definition hash_bytes :: "string \<Rightarrow> u64" where
  "hash_bytes s = foldl (\<lambda>h c. (h XOR of_char c) * 1099511628211) 1469598103934665603 s"

partial_function (option) pow2_loop :: "u64 \<Rightarrow> u64 \<Rightarrow> u64 option" where
  "pow2_loop n p = (if p < n then pow2_loop n (push_bit 1 p) else Some p)"

definition next_pow2 :: "u64 \<Rightarrow> u64 option" where
  "next_pow2 n = pow2_loop n 1"

definition table_init :: "u64 \<Rightarrow> str_i32_table option" where
  "table_init expected = do {
     c \<leftarrow> next_pow2 (expected * 2 + 16);
     Some \<lparr>tab_entry = replicate (unat c) None, tab_cap = c, tab_used = 0\<rparr> }"

partial_function (option) table_walk :: "(string \<times> int) option list \<Rightarrow> u64 \<Rightarrow> string \<Rightarrow> u64 \<Rightarrow> u64 option" where
  "table_walk es msk key i =
     (if unat i < length es
      then (case es ! unat i of None \<Rightarrow> Some i
            | Some (k, v) \<Rightarrow> if k = key then Some i else table_walk es msk key ((i + 1) AND msk))
      else None)"

definition table_put :: "str_i32_table \<Rightarrow> string \<Rightarrow> int \<Rightarrow> str_i32_table option" where
  "table_put t key val = do {
     let msk = tab_cap t - 1;
     i \<leftarrow> table_walk (tab_entry t) msk key (hash_bytes key AND msk);
     Some (case tab_entry t ! unat i of
         Some (k, _) \<Rightarrow> t\<lparr>tab_entry := (tab_entry t)[unat i := Some (k, val)]\<rparr>
       | None \<Rightarrow> t\<lparr>tab_entry := (tab_entry t)[unat i := Some (key, val)], tab_used := tab_used t + 1\<rparr>) }"

definition table_get :: "str_i32_table \<Rightarrow> string \<Rightarrow> int option option" where
  "table_get t key =
     (if tab_cap t = 0 then Some None
      else do {
        let msk = tab_cap t - 1;
        i \<leftarrow> table_walk (tab_entry t) msk key (hash_bytes key AND msk);
        Some (map_option snd (tab_entry t ! unat i)) })"

section \<open>The interface\<close>

text \<open>A finite map with a bounded number of keys: what the client of a table relies on.\<close>

locale str_map =
  fixes get :: "'t \<Rightarrow> string \<Rightarrow> int option option"
    and put :: "'t \<Rightarrow> string \<Rightarrow> int \<Rightarrow> 't option"
    and rel :: "'t \<Rightarrow> (string \<rightharpoonup> int) \<Rightarrow> bool"
    and room :: "'t \<Rightarrow> nat"
  assumes get_rel: "rel t m \<Longrightarrow> get t k = Some (m k)"
    and put_rel: "rel t m \<Longrightarrow> Suc (card (dom m)) < room t
      \<Longrightarrow> \<exists>t'. put t k v = Some t' \<and> rel t' (m(k \<mapsto> v)) \<and> room t' = room t"
    and fin: "rel t m \<Longrightarrow> finite (dom m)"
begin

fun put_all :: "(string \<times> int) list \<Rightarrow> 't \<Rightarrow> 't option" where
  "put_all [] t = Some t"
| "put_all ((k, v) # kvs) t = Option.bind (put t k v) (put_all kvs)"

lemma put_all_rel:
  assumes "rel t m" "card (dom m) + length kvs < room t"
  shows "\<exists>t'. put_all kvs t = Some t' \<and> rel t' (m ++ map_of (rev kvs)) \<and> room t' = room t"
  using assms
proof (induction kvs arbitrary: t m)
  case (Cons kv kvs)
  obtain k v where kv: "kv = (k, v)" by (cases kv)
  obtain t1 where t1: "put t k v = Some t1" "rel t1 (m(k \<mapsto> v))" "room t1 = room t"
    using put_rel [OF Cons.prems(1), of k v] Cons.prems(2) by auto
  have "card (dom (m(k \<mapsto> v))) \<le> Suc (card (dom m))" using card_insert_le_m1 [of "Suc (card (dom m))" "dom m" k] by simp
  then have "card (dom (m(k \<mapsto> v))) + length kvs < room t1" using Cons.prems(2) t1(3) by simp
  from Cons.IH [OF t1(2) this] obtain t' where t': "put_all kvs t1 = Some t'"
    "rel t' (m(k \<mapsto> v) ++ map_of (rev kvs))" "room t' = room t1"
    by (elim exE conjE)
  have e: "m(k \<mapsto> v) ++ map_of (rev kvs) = m ++ map_of (rev ((k, v) # kvs))"
    by (simp only: rev.simps map_of_append map_of.simps map_add_assoc map_add_upd map_add_empty fst_conv snd_conv)
  have "put_all (kv # kvs) t = Some t'" using t1(1) t'(1) kv by simp
  then show ?case using t'(2,3) t1(3) unfolding kv e by (intro exI [of _ t']) simp
qed simp

end

section \<open>Probing\<close>

text \<open>The \<open>n\<close>-th entry that a walk for a key with a hash looks at.\<close>

definition slot :: "nat \<Rightarrow> u64 \<Rightarrow> nat \<Rightarrow> nat" where
  "slot c h n = (unat h + n) mod c"

lemma unat_pow2:
  assumes "k < 64"
  shows "unat ((2 :: u64) ^ k) = 2 ^ k"
proof -
  have "(2 :: nat) ^ k < 2 ^ 64" using assms by (intro power_strict_increasing) simp_all
  then have "unat (of_nat (2 ^ k) :: u64) = 2 ^ k" by (rule unat_of_nat64)
  then show ?thesis by simp
qed

lemma and_mask_unat:
  assumes "c = 2 ^ k" "k < 64"
  shows "unat ((x :: u64) AND (of_nat c - 1)) = unat x mod c"
proof -
  have "x AND (of_nat c - 1) = take_bit k x" using assms(1) by (simp add: take_bit_eq_mask mask_eq_exp_minus_1)
  then have "unat (x AND (of_nat c - 1)) = take_bit k (unat x)" by (simp only: unsigned_take_bit_eq)
  then show ?thesis using assms(1) by (simp only: take_bit_eq_mod)
qed

lemma slot_step:
  assumes "c = 2 ^ k" "k < 64" "unat (i :: u64) = slot c h n"
  shows "unat ((i + 1) AND (of_nat c - 1)) = slot c h (Suc n)"
proof -
  have "unat ((i + 1) AND (of_nat c - 1)) = unat (i + 1) mod c" by (rule and_mask_unat [OF assms(1,2)])
  also have "unat (i + 1) mod c = (unat i + 1) mod c"
  proof -
    have "c dvd 2 ^ 64" unfolding assms(1) using assms(2) by (intro le_imp_power_dvd) simp
    moreover have "unat (i + 1) = (unat i + 1) mod 2 ^ 64" by (simp add: unat_word_ariths)
    ultimately show ?thesis by (simp add: mod_mod_cancel)
  qed
  also have "\<dots> = slot c h (Suc n)" using assms(3) by (simp add: slot_def mod_Suc_eq)
  finally show ?thesis .
qed

lemma slot_onto:
  assumes "j < c"
  shows "\<exists>n<c. slot c h n = j"
proof -
  let ?b = "unat h mod c"
  let ?n = "(j + (c - ?b)) mod c"
  have "(unat h + (j + (c - ?b))) mod c = (?b + (j + (c - ?b))) mod c" by (simp add: mod_add_left_eq)
  also have "?b + (j + (c - ?b)) = j + c" using assms mod_less_divisor [of c "unat h"] by linarith
  also have "(j + c) mod c = j" using assms by simp
  finally have "slot c h ?n = j" by (simp add: slot_def mod_add_right_eq)
  then show ?thesis using assms by (intro exI [of _ ?n]) simp
qed

definition taken_by_other :: "(string \<times> int) option list \<Rightarrow> string \<Rightarrow> nat \<Rightarrow> bool" where
  "taken_by_other es key n \<longleftrightarrow> (\<exists>k v. es ! slot (length es) (hash_bytes key) n = Some (k, v) \<and> k \<noteq> key)"

definition stops_at :: "(string \<times> int) option list \<Rightarrow> string \<Rightarrow> nat \<Rightarrow> bool" where
  "stops_at es key n \<longleftrightarrow> n < length es \<and> (\<forall>j<n. taken_by_other es key j) \<and> \<not> taken_by_other es key n"

lemma walk_stops:
  assumes "length es = 2 ^ k" "k < 64" "stops_at es key n" "m \<le> n" "unat i = slot (length es) (hash_bytes key) m"
  shows "\<exists>r. table_walk es (of_nat (length es) - 1) key i = Some r \<and> unat r = slot (length es) (hash_bytes key) n"
  using assms(4,5)
proof (induction "n - m" arbitrary: m i)
  case 0
  then have "\<not> taken_by_other es key m" using assms(3) by (simp add: stops_at_def)
  then have "table_walk es (of_nat (length es) - 1) key i = Some i"
    using 0 assms(1) by (subst table_walk.simps) (auto simp: taken_by_other_def slot_def split: option.splits)
  then show ?case using 0 by simp
next
  case (Suc d)
  then have "taken_by_other es key m" using assms(3) by (simp add: stops_at_def)
  then obtain k' v where "es ! unat i = Some (k', v)" "k' \<noteq> key" using Suc.prems by (auto simp: taken_by_other_def)
  moreover have "unat i < length es" using Suc.prems(2) assms(1) by (simp add: slot_def)
  ultimately have "table_walk es (of_nat (length es) - 1) key i
      = table_walk es (of_nat (length es) - 1) key ((i + 1) AND (of_nat (length es) - 1))"
    by (subst table_walk.simps) simp
  then show ?case using Suc.hyps(1) [of "Suc m" "(i + 1) AND (of_nat (length es) - 1)"] Suc.hyps(2) Suc.prems(1)
      slot_step [OF assms(1,2) Suc.prems(2)] by simp
qed

section \<open>The table as a map\<close>

definition table_rel :: "str_i32_table \<Rightarrow> (string \<rightharpoonup> int) \<Rightarrow> bool" where
  "table_rel t m \<longleftrightarrow>
     (\<exists>k<64. length (tab_entry t) = 2 ^ k) \<and> tab_cap t = of_nat (length (tab_entry t))
     \<and> (\<forall>key v. m key = Some v \<longleftrightarrow> (\<exists>j<length (tab_entry t). tab_entry t ! j = Some (key, v)))
     \<and> (\<forall>j<length (tab_entry t). \<forall>key v. tab_entry t ! j = Some (key, v)
          \<longrightarrow> (\<exists>n. stops_at (tab_entry t) key n \<and> slot (length (tab_entry t)) (hash_bytes key) n = j))
     \<and> card (dom m) < length (tab_entry t)"

definition table_room :: "str_i32_table \<Rightarrow> nat" where
  "table_room t = length (tab_entry t)"

lemma stops_unique: "stops_at es key n \<Longrightarrow> stops_at es key n' \<Longrightarrow> n = n'"
  unfolding stops_at_def by (metis linorder_less_linear)

lemma key_once:
  assumes "table_rel t m" "j < length (tab_entry t)" "tab_entry t ! j = Some (key, v)"
    "j' < length (tab_entry t)" "tab_entry t ! j' = Some (key, v')"
  shows "j = j'"
proof -
  have "\<exists>n. stops_at (tab_entry t) key n \<and> slot (length (tab_entry t)) (hash_bytes key) n = i"
    if "i < length (tab_entry t)" "tab_entry t ! i = Some (key, w)" for i w
    using assms(1) that unfolding table_rel_def by blast
  from this [OF assms(2,3)] this [OF assms(4,5)] show ?thesis using stops_unique by blast
qed

lemma table_finite:
  assumes "table_rel t m"
  shows "finite (dom m)"
proof -
  have "dom m \<subseteq> (\<lambda>j. fst (the (tab_entry t ! j))) ` {..<length (tab_entry t)}"
  proof
    fix key assume "key \<in> dom m"
    then obtain v where "m key = Some v" by blast
    then obtain j where "j < length (tab_entry t)" "tab_entry t ! j = Some (key, v)"
      using assms unfolding table_rel_def by blast
    then show "key \<in> (\<lambda>j. fst (the (tab_entry t ! j))) ` {..<length (tab_entry t)}" by force
  qed
  then show ?thesis by (rule finite_subset) simp
qed

lemma unused_exists:
  assumes "table_rel t m"
  shows "\<exists>j<length (tab_entry t). tab_entry t ! j = None"
proof (rule ccontr)
  assume "\<not> (\<exists>j<length (tab_entry t). tab_entry t ! j = None)"
  then have occ: "\<exists>key v. tab_entry t ! j = Some (key, v)" if "j < length (tab_entry t)" for j
    using that by (metis not_None_eq surj_pair)
  let ?f = "\<lambda>j. fst (the (tab_entry t ! j))"
  have "inj_on ?f {..<length (tab_entry t)}"
  proof (rule inj_onI)
    fix i j assume a: "i \<in> {..<length (tab_entry t)}" "j \<in> {..<length (tab_entry t)}" "?f i = ?f j"
    then obtain key v key' v' where "tab_entry t ! i = Some (key, v)" "tab_entry t ! j = Some (key', v')"
      using occ by (metis lessThan_iff)
    then show "i = j" using a key_once [OF assms, of i key v j v'] by simp
  qed
  moreover have "?f ` {..<length (tab_entry t)} \<subseteq> dom m"
  proof
    fix key assume "key \<in> ?f ` {..<length (tab_entry t)}"
    then obtain j where j: "j < length (tab_entry t)" "key = ?f j" by blast
    then obtain k' v where "tab_entry t ! j = Some (k', v)" using occ by blast
    then have "m key = Some v" using assms j unfolding table_rel_def by auto
    then show "key \<in> dom m" by blast
  qed
  ultimately have "length (tab_entry t) \<le> card (dom m)"
    using card_inj_on_le [of ?f "{..<length (tab_entry t)}" "dom m"] table_finite [OF assms] by simp
  then show False using assms by (simp add: table_rel_def)
qed

text \<open>Every walk ends: at the key's entry if it has one, otherwise at an unused entry.\<close>

lemma stop_exists:
  assumes "table_rel t m"
  shows "\<exists>n. stops_at (tab_entry t) key n \<and> tab_entry t ! slot (length (tab_entry t)) (hash_bytes key) n = map_option (Pair key) (m key)"
proof (cases "m key")
  case None
  let ?es = "tab_entry t" and ?s = "slot (length (tab_entry t)) (hash_bytes key)"
  obtain j where j: "j < length ?es" "?es ! j = None" using unused_exists [OF assms] by blast
  obtain n0 where n0: "n0 < length ?es" "?s n0 = j" using slot_onto [OF j(1)] by blast
  define n where "n = (LEAST n. ?es ! ?s n = None)"
  have n: "?es ! ?s n = None" using n0 j unfolding n_def by (metis (mono_tags, lifting) LeastI)
  have "n \<le> n0" using n0 j unfolding n_def by (intro Least_le) simp
  have "taken_by_other ?es key i" if i: "i < n" for i
  proof -
    have "?es ! ?s i \<noteq> None" using i unfolding n_def by (metis not_less_Least)
    then obtain k v where kv: "?es ! ?s i = Some (k, v)" by auto
    have "0 < length ?es" using j(1) by linarith
    then have "?s i < length ?es" by (simp add: slot_def)
    then have "m k = Some v" using assms kv unfolding table_rel_def by blast
    then show ?thesis using kv None by (auto simp: taken_by_other_def)
  qed
  then have "stops_at ?es key n" using n \<open>n \<le> n0\<close> n0(1) by (simp add: stops_at_def taken_by_other_def)
  then show ?thesis using n None by auto
next
  case (Some v)
  then obtain j where j: "j < length (tab_entry t)" "tab_entry t ! j = Some (key, v)"
    using assms unfolding table_rel_def by blast
  then obtain n where "stops_at (tab_entry t) key n" "slot (length (tab_entry t)) (hash_bytes key) n = j"
    using assms unfolding table_rel_def by blast
  then show ?thesis using j Some by auto
qed

lemma walk_rel:
  assumes "table_rel t m"
  shows "\<exists>i n. table_walk (tab_entry t) (tab_cap t - 1) key (hash_bytes key AND (tab_cap t - 1)) = Some i
    \<and> stops_at (tab_entry t) key n \<and> unat i = slot (length (tab_entry t)) (hash_bytes key) n
    \<and> unat i < length (tab_entry t) \<and> tab_entry t ! unat i = map_option (Pair key) (m key)"
proof -
  obtain k where k: "k < 64" "length (tab_entry t) = 2 ^ k" "tab_cap t = of_nat (length (tab_entry t))"
    using assms unfolding table_rel_def by blast
  obtain n where n: "stops_at (tab_entry t) key n"
    "tab_entry t ! slot (length (tab_entry t)) (hash_bytes key) n = map_option (Pair key) (m key)"
    using stop_exists [OF assms] by blast
  have "unat (hash_bytes key AND (tab_cap t - 1)) = slot (length (tab_entry t)) (hash_bytes key) 0"
    using and_mask_unat [OF k(2,1)] k(3) by (simp add: slot_def)
  from walk_stops [OF k(2,1) n(1) le0 this] obtain i where
    "table_walk (tab_entry t) (tab_cap t - 1) key (hash_bytes key AND (tab_cap t - 1)) = Some i"
    "unat i = slot (length (tab_entry t)) (hash_bytes key) n" using k(3) by auto
  then show ?thesis using n k(2) by (intro exI [of _ i] exI [of _ n]) (simp add: slot_def)
qed

lemma cap_nonzero:
  assumes "table_rel t m"
  shows "tab_cap t \<noteq> 0"
proof -
  obtain k where k: "k < 64" "length (tab_entry t) = 2 ^ k" "tab_cap t = of_nat (length (tab_entry t))"
    using assms unfolding table_rel_def by blast
  show ?thesis using unat_pow2 [OF k(1)] k by auto
qed

lemma table_get_rel:
  assumes "table_rel t m"
  shows "table_get t key = Some (m key)"
proof -
  obtain i where "table_walk (tab_entry t) (tab_cap t - 1) key (hash_bytes key AND (tab_cap t - 1)) = Some i"
    "tab_entry t ! unat i = map_option (Pair key) (m key)" using walk_rel [OF assms, of key] by blast
  then show ?thesis using cap_nonzero [OF assms] by (simp add: table_get_def option.map_comp comp_def option.map_ident)
qed

lemma reach_update:
  assumes "\<forall>j<length es. \<forall>key v. es ! j = Some (key, v) \<longrightarrow> (\<exists>n. stops_at es key n \<and> slot (length es) (hash_bytes key) n = j)"
    and "es ! i = None \<or> es ! i = Some (key0, v0)" "i < length es" "stops_at es key0 n0" "slot (length es) (hash_bytes key0) n0 = i"
    and "es' = es[i := Some (key0, v1)]"
  shows "\<forall>j<length es'. \<forall>key v. es' ! j = Some (key, v) \<longrightarrow> (\<exists>n. stops_at es' key n \<and> slot (length es') (hash_bytes key) n = j)"
proof (intro allI impI)
  fix j key v assume j: "j < length es'" "es' ! j = Some (key, v)"
  have keep: "taken_by_other es' k n" if "taken_by_other es k n" for k n
    using that assms(2,3) by (auto simp: assms(6) taken_by_other_def nth_list_update)
  show "\<exists>n. stops_at es' key n \<and> slot (length es') (hash_bytes key) n = j"
  proof (cases "j = i")
    case True
    then have "key = key0" using j assms(3,6) by simp
    moreover have "\<not> taken_by_other es' key0 n0" using assms(3,5,6) by (simp add: taken_by_other_def)
    ultimately have "stops_at es' key n0" using assms(4) keep by (simp add: stops_at_def assms(6))
    then show ?thesis using True assms(5,6) \<open>key = key0\<close> by auto
  next
    case False
    then have o: "es ! j = Some (key, v)" "j < length es" using j assms(6) by simp_all
    then obtain n where n: "stops_at es key n" "slot (length es) (hash_bytes key) n = j" using assms(1) by blast
    have "\<not> taken_by_other es' key n" using j(2) n(2) assms(6) by (simp add: taken_by_other_def)
    then have "stops_at es' key n" using n(1) keep by (simp add: stops_at_def assms(6))
    then show ?thesis using n(2) assms(6) by auto
  qed
qed

lemma table_put_rel:
  assumes "table_rel t m" "Suc (card (dom m)) < table_room t"
  shows "\<exists>t'. table_put t key v = Some t' \<and> table_rel t' (m(key \<mapsto> v)) \<and> table_room t' = table_room t"
proof -
  let ?es = "tab_entry t"
  obtain i n where w: "table_walk ?es (tab_cap t - 1) key (hash_bytes key AND (tab_cap t - 1)) = Some i"
    "stops_at ?es key n" "unat i = slot (length ?es) (hash_bytes key) n" "unat i < length ?es"
    "?es ! unat i = map_option (Pair key) (m key)" using walk_rel [OF assms(1)] by blast
  define t' where "t' = (case m key of None \<Rightarrow> t\<lparr>tab_entry := ?es[unat i := Some (key, v)], tab_used := tab_used t + 1\<rparr>
      | Some _ \<Rightarrow> t\<lparr>tab_entry := ?es[unat i := Some (key, v)]\<rparr>)"
  have p: "table_put t key v = Some t'"
    using w(1,5) by (cases "m key") (simp_all add: table_put_def t'_def Let_def)
  have e: "tab_entry t' = ?es[unat i := Some (key, v)]" "tab_cap t' = tab_cap t"
    by (simp_all add: t'_def split: option.split)
  have once: "j = unat i" if "j < length ?es" "?es ! j = Some (key, v')" for j v'
  proof -
    have "m key = Some v'" using assms(1) that unfolding table_rel_def by blast
    then have "?es ! unat i = Some (key, v')" using w(5) by simp
    from key_once [OF assms(1) that w(4) this] show ?thesis .
  qed
  have f1: "(m(key \<mapsto> v)) k = Some x \<longleftrightarrow> (\<exists>j<length (tab_entry t'). tab_entry t' ! j = Some (k, x))" for k x
  proof (cases "k = key")
    case True
    have "\<exists>j<length ?es. ?es[unat i := Some (key, v)] ! j = Some (key, v)" using w(4) by (intro exI [of _ "unat i"]) simp
    moreover have "x = v" if jx: "j < length ?es" "?es[unat i := Some (key, v)] ! j = Some (key, x)" for j
    proof -
      have "j = unat i"
      proof (rule ccontr)
        assume "j \<noteq> unat i"
        then have "?es ! j = Some (key, x)" using jx(2) by simp
        then show False using once [OF jx(1)] \<open>j \<noteq> unat i\<close> by blast
      qed
      then show ?thesis using jx w(4) by simp
    qed
    ultimately show ?thesis using True e(1) by auto
  next
    case False
    have "?es[unat i := Some (key, v)] ! j = Some (k, x) \<longleftrightarrow> ?es ! j = Some (k, x)" if "j < length ?es" for j
      using that w(5) False by (cases "j = unat i") auto
    then show ?thesis using assms(1) False e(1) unfolding table_rel_def by auto
  qed
  have "\<forall>k x. (m(key \<mapsto> v)) k = Some x \<longleftrightarrow> (\<exists>j<length (tab_entry t'). tab_entry t' ! j = Some (k, x))"
    using f1 by (intro allI)
  moreover have "\<forall>j<length (tab_entry t'). \<forall>k x. tab_entry t' ! j = Some (k, x)
      \<longrightarrow> (\<exists>n. stops_at (tab_entry t') k n \<and> slot (length (tab_entry t')) (hash_bytes k) n = j)"
  proof (rule reach_update)
    show "\<forall>j<length ?es. \<forall>k x. ?es ! j = Some (k, x) \<longrightarrow> (\<exists>n. stops_at ?es k n \<and> slot (length ?es) (hash_bytes k) n = j)"
      using assms(1) unfolding table_rel_def by blast
    show "?es ! unat i = None \<or> ?es ! unat i = Some (key, the (m key))" using w(5) by (cases "m key") simp_all
  qed (use w e in simp_all)
  moreover have "card (dom (m(key \<mapsto> v))) \<le> Suc (card (dom m))"
    using card_insert_le_m1 [of "Suc (card (dom m))" "dom m" key] by simp
  moreover have "table_room t' = table_room t" using e(1) by (simp add: table_room_def)
  moreover have "\<exists>k<64. length (tab_entry t') = 2 ^ k" "tab_cap t' = of_nat (length (tab_entry t'))"
    using assms(1) e unfolding table_rel_def by simp_all
  ultimately have "table_rel t' (m(key \<mapsto> v))" using assms(2) unfolding table_rel_def table_room_def
    by (intro conjI) (assumption | linarith)+
  then show ?thesis using p \<open>table_room t' = table_room t\<close> by blast
qed

interpretation tab: str_map table_get table_put table_rel table_room
  by unfold_locales (auto intro: table_get_rel table_put_rel table_finite)

section \<open>Sizing\<close>

lemma pow2_loop_ends:
  assumes "unat n \<le> 2 ^ 63" "k < 64"
  shows "\<exists>j<64. pow2_loop n (2 ^ k) = Some (2 ^ j) \<and> unat n \<le> 2 ^ j"
  using assms(2)
proof (induction "63 - k" arbitrary: k rule: less_induct)
  case less
  have u: "unat ((2 :: u64) ^ k) = 2 ^ k" using less.prems by (rule unat_pow2)
  show ?case
  proof (cases "(2 :: u64) ^ k < n")
    case True
    then have "2 ^ k < unat n" using u by (simp add: word_less_nat_alt)
    then have "(2 :: nat) ^ k < 2 ^ 63" using assms(1) by simp
    then have k: "k < 63" using power_less_imp_less_exp [of 2 k 63] by simp
    have "pow2_loop n (2 ^ k) = pow2_loop n (2 ^ Suc k)"
      using True by (subst pow2_loop.simps) (simp add: push_bit_eq_mult mult.commute)
    then show ?thesis using less.hyps [of "Suc k"] k by simp
  next
    case False
    then have "unat n \<le> 2 ^ k" using u by (simp add: word_less_nat_alt)
    moreover have "pow2_loop n (2 ^ k) = Some (2 ^ k)" using False by (subst pow2_loop.simps) simp
    ultimately show ?thesis using less.prems by blast
  qed
qed

lemma table_init_rel:
  assumes "unat expected < 2 ^ 61"
  shows "\<exists>t. table_init expected = Some t \<and> table_rel t Map.empty \<and> 2 * unat expected + 16 \<le> table_room t"
proof -
  have u: "unat (expected * 2 + 16) = 2 * unat expected + 16"
  proof -
    have "unat (expected * 2) = unat expected * 2" using assms by (subst unat_mult_lem [THEN iffD1]) simp_all
    then show ?thesis using assms by (subst unat_add_lem [THEN iffD1]) simp_all
  qed
  then have "unat (expected * 2 + 16) \<le> 2 ^ 63" using assms by simp
  from pow2_loop_ends [OF this, of 0] obtain j where j: "j < 64" "pow2_loop (expected * 2 + 16) 1 = Some (2 ^ j)"
    "2 * unat expected + 16 \<le> 2 ^ j" using u by auto
  let ?t = "\<lparr>tab_entry = replicate (2 ^ j) None, tab_cap = 2 ^ j, tab_used = 0\<rparr>"
  have "unat ((2 :: u64) ^ j) = 2 ^ j" using j(1) by (rule unat_pow2)
  then have "table_init expected = Some ?t" using j(2) by (simp add: table_init_def next_pow2_def)
  moreover have "table_rel ?t Map.empty" using j(1) by (auto simp: table_rel_def)
  ultimately show ?thesis using j(3) by (simp add: table_room_def)
qed

end
