(* ===== verification/Gguf.thy ===== *)
theory Gguf
  imports KvFormat
begin

text \<open>
  Reading a model file (\<^verbatim>\<open>ds4.c\<close>, GGUF version 3). The mapped file is a list of bytes; a cursor is a
  position in it, since all cursors of a model share the mapping. A read that leaves the mapping has the
  value \<open>None\<close>, so a result \<open>Some\<close> is a statement of memory safety; \<open>Inl\<close> is an error message: of a
  failed cursor, or of \<^verbatim>\<open>ds4_die\<close>, which ends the process. The target is little-endian. Which allocations
  succeed is the argument \<open>mok\<close>.
\<close>

section \<open>The cursor\<close>

type_synonym 'a gres = "(string + 'a) option"

definition gbind :: "'a gres \<Rightarrow> ('a \<Rightarrow> 'b gres) \<Rightarrow> 'b gres" where
  "gbind r f = (case r of None \<Rightarrow> None | Some (Inl e) \<Rightarrow> Some (Inl e) | Some (Inr a) \<Rightarrow> f a)"

lemma gbind_simps [simp]:
  "gbind None f = None" "gbind (Some (Inl e)) f = Some (Inl e)" "gbind (Some (Inr a)) f = f a"
  by (simp_all add: gbind_def)

abbreviation gok :: "'a \<Rightarrow> 'a gres" where "gok a \<equiv> Some (Inr a)"

definition file_size :: "byte list \<Rightarrow> u64" where
  "file_size f = of_nat (length f)"

definition cursor_error :: "string \<Rightarrow> u64 \<Rightarrow> string" where
  "cursor_error msg pos = msg @ '' at byte '' @ nat_dec (unat pos)"

definition cursor_has :: "byte list \<Rightarrow> u64 \<Rightarrow> u64 \<Rightarrow> unit gres" where
  "cursor_has f n pos =
     (if file_size f < n \<or> file_size f - n < pos then Some (Inl (cursor_error ''truncated GGUF file'' pos)) else gok ())"

text \<open>The bytes \<^verbatim>\<open>memcpy\<close> reads from the mapping.\<close>

definition map_bytes :: "byte list \<Rightarrow> u64 \<Rightarrow> u64 \<Rightarrow> byte list option" where
  "map_bytes f pos n = (if unat pos + unat n \<le> length f then Some (take (unat n) (drop (unat pos) f)) else None)"

definition cursor_read :: "byte list \<Rightarrow> u64 \<Rightarrow> u64 \<Rightarrow> (byte list \<times> u64) gres" where
  "cursor_read f n pos = gbind (cursor_has f n pos) (\<lambda>_. map_option (\<lambda>bs. Inr (bs, pos + n)) (map_bytes f pos n))"

definition cursor_skip :: "byte list \<Rightarrow> u64 \<Rightarrow> u64 \<Rightarrow> u64 gres" where
  "cursor_skip f n pos = gbind (cursor_has f n pos) (\<lambda>_. gok (pos + n))"

definition cursor_u32 :: "byte list \<Rightarrow> u64 \<Rightarrow> (u32 \<times> u64) gres" where
  "cursor_u32 f pos = gbind (cursor_read f 4 pos) (\<lambda>(bs, p). gok (ds4_kvstore_le_get32 bs, p))"

definition cursor_u64 :: "byte list \<Rightarrow> u64 \<Rightarrow> (u64 \<times> u64) gres" where
  "cursor_u64 f pos = gbind (cursor_read f 8 pos) (\<lambda>(bs, p). gok (kv_le_get64 bs, p))"

text \<open>A string is a pointer into the mapping: its value is the bytes there.\<close>

definition cursor_string :: "byte list \<Rightarrow> u64 \<Rightarrow> (string \<times> u64) gres" where
  "cursor_string f pos =
     gbind (cursor_u64 f pos) (\<lambda>(len, p).
       gbind (cursor_has f len p) (\<lambda>_. map_option (\<lambda>bs. Inr (text_of bs, p + len)) (map_bytes f p len)))"

definition align_up :: "u64 \<Rightarrow> u64 \<Rightarrow> u64" where
  "align_up val alignment = (let rem = val mod alignment in if rem = 0 then val else val + alignment - rem)"

section \<open>Metadata values\<close>

definition GGUF_VALUE_UINT32 :: u32 where "GGUF_VALUE_UINT32 = 4"
definition GGUF_VALUE_BOOL :: u32 where "GGUF_VALUE_BOOL = 7"
definition GGUF_VALUE_STRING :: u32 where "GGUF_VALUE_STRING = 8"
definition GGUF_VALUE_ARRAY :: u32 where "GGUF_VALUE_ARRAY = 9"
definition GGUF_VALUE_UINT64 :: u32 where "GGUF_VALUE_UINT64 = 10"

definition scalar_value_size :: "u32 \<Rightarrow> u64" where
  "scalar_value_size ty =
     (if ty = 0 \<or> ty = 1 \<or> ty = 7 then 1
      else if ty = 2 \<or> ty = 3 then 2
      else if ty = 4 \<or> ty = 5 \<or> ty = 6 then 4
      else if ty = 10 \<or> ty = 11 \<or> ty = 12 then 8
      else 0)"

fun skip_items :: "(u64 \<Rightarrow> u64 gres) \<Rightarrow> nat \<Rightarrow> u64 \<Rightarrow> u64 gres" where
  "skip_items skip 0 pos = gok pos"
| "skip_items skip (Suc n) pos = gbind (skip pos) (skip_items skip n)"

text \<open>\<open>d\<close> counts the levels of nesting that are left: 9 at depth 0.\<close>

fun skip_nested :: "nat \<Rightarrow> byte list \<Rightarrow> u32 \<Rightarrow> u64 \<Rightarrow> u64 gres" where
  "skip_nested 0 f ty pos = Some (Inl (cursor_error ''metadata array nesting is too deep'' pos))"
| "skip_nested (Suc d) f ty pos =
     (let scalar = scalar_value_size ty in
      if scalar \<noteq> 0 then cursor_skip f scalar pos
      else if ty = GGUF_VALUE_STRING then gbind (cursor_string f pos) (\<lambda>(_, p). gok p)
      else if ty = GGUF_VALUE_ARRAY
      then gbind (cursor_u32 f pos) (\<lambda>(item_type, p).
           gbind (cursor_u64 f p) (\<lambda>(len, q).
             let item_size = scalar_value_size item_type in
             if item_size \<noteq> 0
             then (if - 1 div item_size < len then Some (Inl (cursor_error ''metadata array is too large'' q))
                   else cursor_skip f (len * item_size) q)
             else skip_items (skip_nested d f item_type) (unat len) q))
      else Some (Inl (cursor_error ''unknown GGUF metadata type'' pos)))"

definition skip_value :: "byte list \<Rightarrow> u32 \<Rightarrow> nat \<Rightarrow> u64 \<Rightarrow> u64 gres" where
  "skip_value f ty depth pos = skip_nested (9 - depth) f ty pos"

section \<open>Tensor types\<close>

definition gguf_types :: "(string \<times> u32 \<times> u32) option list" where
  "gguf_types =
     [Some (''f32'', 1, 4), Some (''f16'', 1, 2), Some (''q4_0'', 32, 18), Some (''q4_1'', 32, 20), None, None,
      Some (''q5_0'', 32, 22), Some (''q5_1'', 32, 24), Some (''q8_0'', 32, 34), Some (''q8_1'', 32, 40),
      Some (''q2_k'', 256, 84), Some (''q3_k'', 256, 110), Some (''q4_k'', 256, 144), Some (''q5_k'', 256, 176),
      Some (''q6_k'', 256, 210), Some (''q8_k'', 256, 292), Some (''iq2_xxs'', 256, 66), Some (''iq2_xs'', 256, 74),
      Some (''iq3_xxs'', 256, 98), Some (''iq1_s'', 256, 110), Some (''iq4_nl'', 256, 50), Some (''iq3_s'', 256, 110),
      Some (''iq2_s'', 256, 82), Some (''iq4_xs'', 256, 136), Some (''i8'', 1, 1), Some (''i16'', 1, 2),
      Some (''i32'', 1, 4), Some (''i64'', 1, 8), Some (''f64'', 1, 8), Some (''iq1_m'', 256, 56), Some (''bf16'', 1, 2)]"

definition tensor_type :: "u32 \<Rightarrow> (string \<times> u32 \<times> u32) option" where
  "tensor_type ty = (if length gguf_types \<le> unat ty then None else gguf_types ! unat ty)"

definition tensor_nbytes :: "u32 \<Rightarrow> u64 \<Rightarrow> u64 option" where
  "tensor_nbytes ty elements =
     (case tensor_type ty of None \<Rightarrow> None
      | Some (_, block_elems, block_bytes) \<Rightarrow>
          if block_elems = 0 then None
          else let blocks = (elements + ucast block_elems - 1) div ucast block_elems in
               if - 1 div ucast block_bytes < blocks then None else Some (blocks * ucast block_bytes))"

section \<open>The model\<close>

record ds4_kv =
  kv_key :: string
  kv_type :: u32
  kv_value_pos :: u64

record ds4_tensor =
  t_name :: string
  t_dims :: "u64 list"
  t_type :: u32
  t_rel_offset :: u64
  t_abs_offset :: u64
  t_elements :: u64
  t_bytes :: u64

record ds4_model =
  m_map :: "byte list"
  m_version :: u32
  m_alignment :: u64
  m_tensor_data_pos :: u64
  m_max_tensor_bytes :: u64
  m_kv :: "ds4_kv list"
  m_tensors :: "ds4_tensor list"

fun metadata_loop :: "byte list \<Rightarrow> nat \<Rightarrow> u64 \<Rightarrow> u64 \<Rightarrow> (ds4_kv list \<times> u64 \<times> u64) gres" where
  "metadata_loop f 0 alignment pos = gok ([], alignment, pos)"
| "metadata_loop f (Suc n) alignment pos =
     gbind (cursor_string f pos) (\<lambda>(key, p).
     gbind (cursor_u32 f p) (\<lambda>(ty, q).
       let kv = \<lparr>kv_key = key, kv_type = ty, kv_value_pos = q\<rparr> in
       gbind (if key = ''general.alignment'' \<and> ty = GGUF_VALUE_UINT32
              then (case cursor_u32 f q of None \<Rightarrow> None
                    | Some (Inr (a, _)) \<Rightarrow> gok (if a \<noteq> 0 then ucast a else alignment)
                    | Some (Inl _) \<Rightarrow> gok alignment)
              else gok alignment) (\<lambda>al.
       gbind (skip_value f ty 0 q) (\<lambda>r.
       gbind (metadata_loop f n al r) (\<lambda>(kvs, al', e). gok (kv # kvs, al', e))))))"

definition parse_metadata :: "(nat \<Rightarrow> bool) \<Rightarrow> byte list \<Rightarrow> u64 \<Rightarrow> u64 \<Rightarrow> (ds4_kv list \<times> u64 \<times> u64) gres" where
  "parse_metadata mok f n_kv pos =
     (if \<not> mok (unat n_kv) then Some (Inl ''out of memory while allocating metadata table'')
      else metadata_loop f (unat n_kv) 32 pos)"

fun dims_loop :: "byte list \<Rightarrow> nat \<Rightarrow> u64 \<Rightarrow> u64 \<Rightarrow> (u64 list \<times> u64 \<times> u64) gres" where
  "dims_loop f 0 elements pos = gok ([], elements, pos)"
| "dims_loop f (Suc n) elements pos =
     gbind (cursor_u64 f pos) (\<lambda>(d, p).
       if d \<noteq> 0 \<and> - 1 div d < elements then Some (Inl ''tensor element count overflow'')
       else gbind (dims_loop f n (elements * d) p) (\<lambda>(ds, e, q). gok (d # ds, e, q)))"

definition read_tensor :: "byte list \<Rightarrow> u64 \<Rightarrow> (ds4_tensor \<times> u64) gres" where
  "read_tensor f pos =
     gbind (cursor_string f pos) (\<lambda>(name, p).
     gbind (cursor_u32 f p) (\<lambda>(ndim, q).
       if ndim = 0 \<or> 8 < ndim then Some (Inl ''tensor has an unsupported number of dimensions'')
       else gbind (dims_loop f (unat ndim) 1 q) (\<lambda>(dims, elements, r).
            gbind (cursor_u32 f r) (\<lambda>(ty, s).
            gbind (cursor_u64 f s) (\<lambda>(off, e).
              gok (\<lparr>t_name = name, t_dims = dims, t_type = ty, t_rel_offset = off, t_abs_offset = 0,
                    t_elements = elements, t_bytes = (case tensor_nbytes ty elements of None \<Rightarrow> 0 | Some b \<Rightarrow> b)\<rparr>, e))))))"

fun tensors_loop :: "byte list \<Rightarrow> nat \<Rightarrow> u64 \<Rightarrow> (ds4_tensor list \<times> u64) gres" where
  "tensors_loop f 0 pos = gok ([], pos)"
| "tensors_loop f (Suc n) pos =
     gbind (read_tensor f pos) (\<lambda>(t, p). gbind (tensors_loop f n p) (\<lambda>(ts, e). gok (t # ts, e)))"

definition place_tensor :: "byte list \<Rightarrow> u64 \<Rightarrow> ds4_tensor \<Rightarrow> string + ds4_tensor" where
  "place_tensor f data_pos t =
     (if - 1 - data_pos < t_rel_offset t then Inl ''tensor offset overflow''
      else let abs = data_pos + t_rel_offset t in
        if t_bytes t \<noteq> 0 \<and> (file_size f < abs \<or> file_size f - abs < t_bytes t) then Inl ''tensor points outside GGUF file''
        else Inr (t\<lparr>t_abs_offset := abs\<rparr>))"

fun place_tensors :: "byte list \<Rightarrow> u64 \<Rightarrow> ds4_tensor list \<Rightarrow> u64 \<Rightarrow> string + ds4_tensor list \<times> u64" where
  "place_tensors f data_pos [] mx = Inr ([], mx)"
| "place_tensors f data_pos (t # ts) mx =
     bind_res (place_tensor f data_pos t) (\<lambda>t'.
     bind_res (place_tensors f data_pos ts (if mx < t_bytes t then t_bytes t else mx)) (\<lambda>(ts', mx').
       Inr (t' # ts', mx')))"

text \<open>The tensor directory with absolute offsets, the start of the tensor data and the largest tensor.\<close>

definition parse_tensors ::
  "(nat \<Rightarrow> bool) \<Rightarrow> byte list \<Rightarrow> u64 \<Rightarrow> u64 \<Rightarrow> u64 \<Rightarrow> (ds4_tensor list \<times> u64 \<times> u64) gres" where
  "parse_tensors mok f n_tensors alignment pos =
     (if \<not> mok (unat n_tensors) then Some (Inl ''out of memory while allocating tensor table'')
      else gbind (tensors_loop f (unat n_tensors) pos) (\<lambda>(ts, e).
        let data_pos = align_up e alignment in
        Some (bind_res (place_tensors f data_pos ts 0) (\<lambda>(ts', mx). Inr (ts', data_pos, mx)))))"

text \<open>Opening a file whose content is \<open>f\<close>; opening and mapping it have succeeded.\<close>

definition model_open :: "(nat \<Rightarrow> bool) \<Rightarrow> byte list \<Rightarrow> ds4_model gres" where
  "model_open mok f =
     (if length f < 32 then Some (Inl ''model file is too small to be GGUF'')
      else gbind (cursor_u32 f 0) (\<lambda>(magic, p).
        if magic \<noteq> 0x46554747 then Some (Inl ''model is not a GGUF file'')
        else gbind (cursor_u32 f p) (\<lambda>(version, q).
             gbind (cursor_u64 f q) (\<lambda>(n_tensors, r).
             gbind (cursor_u64 f r) (\<lambda>(n_kv, s).
               if version \<noteq> 3 then Some (Inl ''only GGUF v3 is supported'')
               else gbind (parse_metadata mok f n_kv s) (\<lambda>(kvs, alignment, e).
                    gbind (parse_tensors mok f n_tensors alignment e) (\<lambda>(ts, data_pos, mx).
                      gok \<lparr>m_map = f, m_version = version, m_alignment = alignment, m_tensor_data_pos = data_pos,
                           m_max_tensor_bytes = mx, m_kv = kvs, m_tensors = ts\<rparr>)))))))"

section \<open>Reading metadata\<close>

definition model_find_kv :: "ds4_model \<Rightarrow> string \<Rightarrow> ds4_kv option" where
  "model_find_kv m key = find (\<lambda>kv. kv_key kv = key) (m_kv m)"

text \<open>A value of the wanted type at the key, read by \<open>rd\<close>; \<open>None\<close> is the result false.\<close>

definition model_get :: "u32 \<Rightarrow> (byte list \<Rightarrow> u64 \<Rightarrow> ('a \<times> u64) gres) \<Rightarrow> ds4_model \<Rightarrow> string \<Rightarrow> 'a option option" where
  "model_get ty rd m key =
     (case model_find_kv m key of None \<Rightarrow> Some None
      | Some kv \<Rightarrow>
        if kv_type kv \<noteq> ty then Some None
        else (case rd (m_map m) (kv_value_pos kv) of None \<Rightarrow> None
              | Some (Inl _) \<Rightarrow> Some None | Some (Inr (v, _)) \<Rightarrow> Some (Some v)))"

definition model_get_string :: "ds4_model \<Rightarrow> string \<Rightarrow> string option option" where
  "model_get_string = model_get GGUF_VALUE_STRING cursor_string"

definition model_get_u32 :: "ds4_model \<Rightarrow> string \<Rightarrow> u32 option option" where
  "model_get_u32 = model_get GGUF_VALUE_UINT32 cursor_u32"

definition model_get_u64 :: "ds4_model \<Rightarrow> string \<Rightarrow> u64 option option" where
  "model_get_u64 = model_get GGUF_VALUE_UINT64 cursor_u64"

definition model_get_u64_compat :: "ds4_model \<Rightarrow> string \<Rightarrow> u64 option option" where
  "model_get_u64_compat m key =
     (case model_find_kv m key of None \<Rightarrow> Some None
      | Some kv \<Rightarrow>
        if kv_type kv = GGUF_VALUE_UINT64 then model_get_u64 m key
        else if kv_type kv = GGUF_VALUE_UINT32 then map_option (map_option ucast) (model_get_u32 m key)
        else Some None)"

definition model_get_bool :: "ds4_model \<Rightarrow> string \<Rightarrow> bool option option" where
  "model_get_bool =
     model_get GGUF_VALUE_BOOL (\<lambda>f pos. gbind (cursor_read f 1 pos) (\<lambda>(bs, p). gok (hd bs \<noteq> 0, p)))"

record ds4_array_ref =
  ar_type :: u32
  ar_len :: u64
  ar_data_pos :: u64

definition model_get_array :: "ds4_model \<Rightarrow> string \<Rightarrow> ds4_array_ref option option" where
  "model_get_array =
     model_get GGUF_VALUE_ARRAY (\<lambda>f pos.
       gbind (cursor_u32 f pos) (\<lambda>(ty, p).
       gbind (cursor_u64 f p) (\<lambda>(len, q). gok (\<lparr>ar_type = ty, ar_len = len, ar_data_pos = q\<rparr>, q))))"

end
