(* ===== verification/Tokenizer.thy ===== *)
theory Tokenizer
  imports StrTable Gguf ChatPrompt
begin

text \<open>
  The tokenizer of \<^verbatim>\<open>ds4.c\<close>: a byte-level BPE whose vocabulary and merge ranks come from the model
  file. Positions in a text are the rest of the text from there; a token vector is a list. A
  text is a C string: its characters before the NUL. The outer
  \<open>None\<close> is an undefined access or a probe of a hash table that never ends.
\<close>

section \<open>Bytes as code points\<close>

definition tok_utf8_put :: "nat \<Rightarrow> string" where
  "tok_utf8_put cp =
     (if cp \<le> 0x7F then [char_of cp]
      else if cp \<le> 0x7FF then [char_of (0xC0 OR drop_bit 6 cp), char_of (0x80 OR (cp AND 0x3F))]
      else if cp \<le> 0xFFFF
      then [char_of (0xE0 OR drop_bit 12 cp), char_of (0x80 OR (drop_bit 6 cp AND 0x3F)), char_of (0x80 OR (cp AND 0x3F))]
      else [char_of (0xF0 OR drop_bit 18 cp), char_of (0x80 OR (drop_bit 12 cp AND 0x3F)),
            char_of (0x80 OR (drop_bit 6 cp AND 0x3F)), char_of (0x80 OR (cp AND 0x3F))])"

definition gpt2_printable :: "nat \<Rightarrow> bool" where
  "gpt2_printable x \<longleftrightarrow> (33 \<le> x \<and> x \<le> 126) \<or> (161 \<le> x \<and> x \<le> 172) \<or> 174 \<le> x"

fun gpt2_index :: "nat list \<Rightarrow> nat \<Rightarrow> nat \<Rightarrow> nat option" where
  "gpt2_index [] b n = None"
| "gpt2_index (x # xs) b n =
     (if gpt2_printable x then gpt2_index xs b n else if x = b then Some (256 + n) else gpt2_index xs b (n + 1))"

definition gpt2_byte_to_codepoint :: "nat \<Rightarrow> nat" where
  "gpt2_byte_to_codepoint b =
     (if gpt2_printable b then b else (case gpt2_index [0..<256] b 0 of Some cp \<Rightarrow> cp | None \<Rightarrow> b))"

definition byte_encode :: "string \<Rightarrow> string" where
  "byte_encode s = concat (map (\<lambda>c. tok_utf8_put (gpt2_byte_to_codepoint (ord c))) s)"

definition utf8_len_from_first_byte :: "char \<Rightarrow> nat" where
  "utf8_len_from_first_byte c =
     (if ord c < 0x80 then 1
      else if ord c AND 0xE0 = 0xC0 then 2
      else if ord c AND 0xF0 = 0xE0 then 3
      else if ord c AND 0xF8 = 0xF0 then 4
      else 1)"

text \<open>The bytes of the character at the beginning of a non-empty text.\<close>

definition next_utf8_char :: "string \<Rightarrow> nat" where
  "next_utf8_char s = (let n = utf8_len_from_first_byte (hd s) in if length s < n then 1 else n)"

lemma next_utf8_pos: "0 < next_utf8_char s"
  by (simp add: next_utf8_char_def utf8_len_from_first_byte_def Let_def)

section \<open>The vocabulary\<close>

record ds4_vocab =
  v_token :: "string list"
  v_bos_id :: int
  v_eos_id :: int
  v_user_id :: int
  v_assistant_id :: int
  v_think_start_id :: int
  v_think_end_id :: int
  v_dsml_id :: int
  v_token_to_id :: str_i32_table
  v_merge_rank :: str_i32_table

text \<open>Loading the strings of an array into a table; \<open>num\<close> gives the value stored with the \<open>i\<close>-th string.\<close>

fun load_strings ::
  "(nat \<Rightarrow> int) \<Rightarrow> byte list \<Rightarrow> nat \<Rightarrow> nat \<Rightarrow> u64 \<Rightarrow> str_i32_table \<Rightarrow> (string list \<times> str_i32_table) gres" where
  "load_strings num f i 0 pos t = gok ([], t)"
| "load_strings num f i (Suc n) pos t =
     gbind (cursor_string f pos) (\<lambda>(s, p).
       case table_put t s (num i) of None \<Rightarrow> None
       | Some t' \<Rightarrow> gbind (load_strings num f (Suc i) n p t') (\<lambda>(ss, t''). gok (s # ss, t'')))"

definition vocab_lookup :: "str_i32_table \<Rightarrow> string \<Rightarrow> int gres" where
  "vocab_lookup t text =
     (case table_get t text of None \<Rightarrow> None
      | Some None \<Rightarrow> Some (Inl (''required tokenizer token is missing: '' @ text))
      | Some (Some i) \<Rightarrow> gok i)"

definition load_array :: "(nat \<Rightarrow> int) \<Rightarrow> byte list \<Rightarrow> ds4_array_ref \<Rightarrow> (string list \<times> str_i32_table) gres" where
  "load_array num f a =
     (case table_init (ar_len a) of None \<Rightarrow> None
      | Some t \<Rightarrow> load_strings num f 0 (unat (ar_len a)) (ar_data_pos a) t)"

definition string_array :: "ds4_model \<Rightarrow> string \<Rightarrow> (ds4_array_ref \<Rightarrow> bool) \<Rightarrow> string \<Rightarrow> ds4_array_ref gres" where
  "string_array m key ok msg =
     (case model_get_array m key of None \<Rightarrow> None
      | Some None \<Rightarrow> Some (Inl msg)
      | Some (Some a) \<Rightarrow> if ar_type a \<noteq> GGUF_VALUE_STRING \<or> \<not> ok a then Some (Inl msg) else gok a)"

definition vocab_load :: "ds4_model \<Rightarrow> ds4_vocab gres" where
  "vocab_load m =
     gbind (string_array m ''tokenizer.ggml.tokens'' (\<lambda>a. ar_len a \<le> 0x7FFFFFFF)
              ''GGUF tokenizer token table is missing or invalid'') (\<lambda>tokens.
     gbind (string_array m ''tokenizer.ggml.merges'' (\<lambda>_. True)
              ''GGUF tokenizer merge table is missing or invalid'') (\<lambda>merges.
     gbind (load_array int (m_map m) tokens) (\<lambda>(toks, ids).
     gbind (load_array (\<lambda>i. sint (of_nat i :: u32)) (m_map m) merges) (\<lambda>(_, ranks).
     gbind (vocab_lookup ids BOS_TEXT) (\<lambda>bos.
     gbind (vocab_lookup ids EOS_TEXT) (\<lambda>eos.
     gbind (vocab_lookup ids USER_TEXT) (\<lambda>user.
     gbind (vocab_lookup ids ASSISTANT_TEXT) (\<lambda>assistant.
     gbind (vocab_lookup ids ''<think>'') (\<lambda>think_start.
     gbind (vocab_lookup ids ''</think>'') (\<lambda>think_end.
     gbind (vocab_lookup ids DS4_DSML) (\<lambda>dsml.
       gok \<lparr>v_token = toks, v_bos_id = bos, v_eos_id = eos, v_user_id = user, v_assistant_id = assistant,
            v_think_start_id = think_start, v_think_end_id = think_end, v_dsml_id = dsml,
            v_token_to_id = ids, v_merge_rank = ranks\<rparr>)))))))))))"

section \<open>Byte-pair encoding\<close>

definition bpe_rank :: "ds4_vocab \<Rightarrow> string \<Rightarrow> string \<Rightarrow> int option" where
  "bpe_rank v a b = map_option (\<lambda>r. case r of None \<Rightarrow> -1 | Some x \<Rightarrow> x) (table_get (v_merge_rank v) (a @ '' '' @ b))"

fun best_pair :: "ds4_vocab \<Rightarrow> string list \<Rightarrow> nat \<Rightarrow> int \<Rightarrow> nat option \<Rightarrow> nat option option" where
  "best_pair v (a # b # syms) i best_rank best =
     Option.bind (bpe_rank v a b) (\<lambda>rank.
       if 0 \<le> rank \<and> rank < best_rank then best_pair v (b # syms) (Suc i) rank (Some i)
       else best_pair v (b # syms) (Suc i) best_rank best)"
| "best_pair v _ i best_rank best = Some best"

definition merge_at :: "nat \<Rightarrow> string list \<Rightarrow> string list" where
  "merge_at i syms = take i syms @ (syms ! i @ syms ! Suc i) # drop (i + 2) syms"

lemma best_pair_bound:
  "best_pair v syms i r best = Some (Some j) \<Longrightarrow> best = Some j \<or> i \<le> j \<and> Suc j < i + length syms"
proof (induction v syms i r best rule: best_pair.induct)
  case (1 v a b syms i r best)
  obtain rank where rank: "bpe_rank v a b = Some rank" using 1 by (auto simp: bind_eq_Some_conv)
  show ?case
  proof (cases "0 \<le> rank \<and> rank < r")
    case True
    then show ?thesis using 1 rank by fastforce
  next
    case False
    then have "best_pair v (b # syms) (Suc i) r best = Some (Some j)" using 1 rank by (simp del: best_pair.simps(2,3) split: if_splits)
    then show ?thesis using 1(2) [OF rank False] by auto
  qed
qed simp_all

function bpe_merge :: "ds4_vocab \<Rightarrow> string list \<Rightarrow> string list option" where
  "bpe_merge v syms =
     (case best_pair v syms 0 0x7FFFFFFF None of None \<Rightarrow> None
      | Some None \<Rightarrow> Some syms
      | Some (Some i) \<Rightarrow> bpe_merge v (merge_at i syms))"
  by pat_completeness auto

termination
  by (relation "measure (\<lambda>(v, syms). length syms)") (auto simp: merge_at_def dest: best_pair_bound)

declare bpe_merge.simps [simp del]

function utf8_symbols :: "string \<Rightarrow> string list" where
  "utf8_symbols s = (if s = [] then [] else take (next_utf8_char s) s # utf8_symbols (drop (next_utf8_char s) s))"
  by pat_completeness auto

termination by (relation "measure length") (auto simp: next_utf8_pos)

declare utf8_symbols.simps [simp del]

definition oapp :: "'a list option \<Rightarrow> 'a list option \<Rightarrow> 'a list option" where
  "oapp x y = Option.bind x (\<lambda>a. map_option (\<lambda>b. a @ b) y)"

fun emit_bytes :: "ds4_vocab \<Rightarrow> string \<Rightarrow> int list option" where
  "emit_bytes v [] = Some []"
| "emit_bytes v (c # s) =
     Option.bind (table_get (v_token_to_id v) [c]) (\<lambda>r.
       oapp (Some (case r of None \<Rightarrow> [] | Some t \<Rightarrow> [t])) (emit_bytes v s))"

fun emit_symbols :: "ds4_vocab \<Rightarrow> string list \<Rightarrow> int list option" where
  "emit_symbols v [] = Some []"
| "emit_symbols v (s # syms) =
     Option.bind (table_get (v_token_to_id v) s) (\<lambda>r.
       oapp (case r of Some t \<Rightarrow> Some [t] | None \<Rightarrow> emit_bytes v s) (emit_symbols v syms))"

definition bpe_emit_piece :: "ds4_vocab \<Rightarrow> string \<Rightarrow> int list option" where
  "bpe_emit_piece v piece = Option.bind (bpe_merge v (utf8_symbols (byte_encode piece))) (emit_symbols v)"

section \<open>Cutting a text into pieces\<close>

definition ascii_alpha :: "char \<Rightarrow> bool" where
  "ascii_alpha c \<longleftrightarrow> (65 \<le> ord c \<and> ord c \<le> 90) \<or> (97 \<le> ord c \<and> ord c \<le> 122)"

definition ascii_digit :: "char \<Rightarrow> bool" where
  "ascii_digit c \<longleftrightarrow> 48 \<le> ord c \<and> ord c \<le> 57"

definition ascii_space :: "char \<Rightarrow> bool" where
  "ascii_space c \<longleftrightarrow> ord c = 32 \<or> (9 \<le> ord c \<and> ord c \<le> 13)"

definition ascii_newline :: "char \<Rightarrow> bool" where
  "ascii_newline c \<longleftrightarrow> ord c = 10 \<or> ord c = 13"

definition joyai_ascii_punct_symbol :: "char \<Rightarrow> bool" where
  "joyai_ascii_punct_symbol c \<longleftrightarrow>
     (33 \<le> ord c \<and> ord c \<le> 47) \<or> (58 \<le> ord c \<and> ord c \<le> 64) \<or> (91 \<le> ord c \<and> ord c \<le> 96) \<or> (123 \<le> ord c \<and> ord c \<le> 126)"

definition utf8_is_cjk_hira_kata :: "nat \<Rightarrow> bool" where
  "utf8_is_cjk_hira_kata cp \<longleftrightarrow>
     (0x4E00 \<le> cp \<and> cp \<le> 0x9FA5) \<or> (0x3040 \<le> cp \<and> cp \<le> 0x309F) \<or> (0x30A0 \<le> cp \<and> cp \<le> 0x30FF)"

definition utf8_peek_one :: "string \<Rightarrow> nat" where
  "utf8_peek_one s =
     (let c0 = ord (hd s); n = next_utf8_char s in
      if n = 1 then c0
      else if n = 2 then push_bit 6 (c0 AND 0x1F) OR (ord (s ! 1) AND 0x3F)
      else if n = 3 then push_bit 12 (c0 AND 0x0F) OR push_bit 6 (ord (s ! 1) AND 0x3F) OR (ord (s ! 2) AND 0x3F)
      else push_bit 18 (c0 AND 0x07) OR push_bit 12 (ord (s ! 1) AND 0x3F) OR push_bit 6 (ord (s ! 2) AND 0x3F)
           OR (ord (s ! 3) AND 0x3F))"

definition joyai_letter_like_at :: "string \<Rightarrow> bool" where
  "joyai_letter_like_at s \<longleftrightarrow> (if ord (hd s) < 128 then ascii_alpha (hd s) else True)"

definition joyai_cjk_at :: "string \<Rightarrow> bool" where
  "joyai_cjk_at s \<longleftrightarrow> 128 \<le> ord (hd s) \<and> utf8_is_cjk_hira_kata (utf8_peek_one s)"

text \<open>The bytes of the run of characters that satisfy a condition, at the beginning of a text.\<close>

function char_run :: "(string \<Rightarrow> bool) \<Rightarrow> string \<Rightarrow> nat" where
  "char_run ok s =
     (if s = [] \<or> \<not> ok s then 0 else next_utf8_char s + char_run ok (drop (next_utf8_char s) s))"
  by pat_completeness auto

termination by (relation "measure (\<lambda>(ok, s). length s)") (auto simp: next_utf8_pos)

declare char_run.simps [simp del]

definition joyai_consume_letters :: "string \<Rightarrow> nat" where
  "joyai_consume_letters s = char_run joyai_letter_like_at s"

definition byte_run :: "(char \<Rightarrow> bool) \<Rightarrow> string \<Rightarrow> nat" where
  "byte_run ok s = length (takeWhile ok s)"

text \<open>Punctuation and the line ends behind it.\<close>

definition punct_run :: "string \<Rightarrow> nat" where
  "punct_run s = (let n = byte_run joyai_ascii_punct_symbol s in n + byte_run ascii_newline (drop n s))"

text \<open>The length of the white space, and the end of its last line end, 0 if it has none.\<close>

fun space_scan :: "string \<Rightarrow> nat \<Rightarrow> nat \<Rightarrow> nat \<times> nat" where
  "space_scan [] p last_end = (p, last_end)"
| "space_scan (c # s) p last_end =
     (if ascii_space c then space_scan s (Suc p) (if ascii_newline c then Suc p else last_end) else (p, last_end))"

definition piece_len :: "string \<Rightarrow> nat" where
  "piece_len s =
     (let c = hd s; more = 1 < length s; n =
       (if ascii_digit c then byte_run ascii_digit (take 3 s)
        else if joyai_cjk_at s then char_run joyai_cjk_at s
        else if joyai_ascii_punct_symbol c \<and> more \<and> ascii_alpha (s ! 1) then 1 + byte_run ascii_alpha (tl s)
        else if joyai_letter_like_at s then joyai_consume_letters s
        else if \<not> ascii_newline c \<and> \<not> joyai_ascii_punct_symbol c \<and> more \<and> joyai_letter_like_at (tl s)
        then 1 + joyai_consume_letters (tl s)
        else if ord c = 32 \<and> more \<and> joyai_ascii_punct_symbol (s ! 1) then 1 + punct_run (tl s)
        else if joyai_ascii_punct_symbol c then punct_run s
        else if ascii_space c
        then (case space_scan s 0 0 of (p, last_end) \<Rightarrow>
               if last_end \<noteq> 0 then last_end
               else if p < length s \<and> 1 < p \<and> (joyai_letter_like_at (drop p s) \<or> joyai_ascii_punct_symbol (s ! p)) then p - 1
               else p)
        else next_utf8_char s)
      in if n = 0 then next_utf8_char s else n)"

lemma piece_len_pos: "0 < piece_len s"
  by (simp add: piece_len_def Let_def next_utf8_pos)

function bpe_tokenize_text :: "ds4_vocab \<Rightarrow> string \<Rightarrow> int list option" where
  "bpe_tokenize_text v s =
     (if s = [] then Some []
      else oapp (bpe_emit_piece v (take (piece_len s) s)) (bpe_tokenize_text v (drop (piece_len s) s)))"
  by pat_completeness auto

termination by (relation "measure (\<lambda>(v, s). length s)") (auto simp: piece_len_pos)

declare bpe_tokenize_text.simps [simp del]

section \<open>Rendered chats\<close>

definition specials :: "ds4_vocab \<Rightarrow> (string \<times> int) list" where
  "specials v = [(BOS_TEXT, v_bos_id v), (EOS_TEXT, v_eos_id v), (USER_TEXT, v_user_id v), (ASSISTANT_TEXT, v_assistant_id v),
     (''<think>'', v_think_start_id v), (''</think>'', v_think_end_id v), (DS4_DSML, v_dsml_id v)]"

definition special_token_at :: "ds4_vocab \<Rightarrow> string \<Rightarrow> (string \<times> int) option" where
  "special_token_at v p = find (\<lambda>(t, _). take (length t) p = t) (specials v)"

definition tokenize_span :: "ds4_vocab \<Rightarrow> string \<Rightarrow> int list option" where
  "tokenize_span v s = (if s = [] then Some [] else bpe_tokenize_text v s)"

lemma special_nonempty: "special_token_at v p = Some (t, i) \<Longrightarrow> t \<noteq> []"
  by (auto simp: special_token_at_def specials_def BOS_TEXT_def EOS_TEXT_def USER_TEXT_def ASSISTANT_TEXT_def tok_def DS4_DSML_def
      split: if_splits)

text \<open>\<open>sp\<close> is the text since the last special token.\<close>

function rendered_loop :: "ds4_vocab \<Rightarrow> string \<Rightarrow> string \<Rightarrow> int list option" where
  "rendered_loop v sp p =
     (if p = [] then tokenize_span v sp
      else (case special_token_at v p of
          Some (t, i) \<Rightarrow> oapp (tokenize_span v sp) (oapp (Some [i]) (rendered_loop v [] (drop (length t) p)))
        | None \<Rightarrow> rendered_loop v (sp @ [hd p]) (tl p)))"
  by pat_completeness auto

termination by (relation "measure (\<lambda>(v, sp, p). length p)") (auto dest: special_nonempty)

declare rendered_loop.simps [simp del]

definition tokenize_rendered_chat_vocab :: "ds4_vocab \<Rightarrow> string \<Rightarrow> int list option" where
  "tokenize_rendered_chat_vocab v text = rendered_loop v [] text"

text \<open>A tool result as data: its closing tag is broken up.\<close>

fun tool_result_loop :: "ds4_vocab \<Rightarrow> string \<Rightarrow> string \<Rightarrow> int list option" where
  "tool_result_loop v sp [] = tokenize_span v sp"
| "tool_result_loop v sp (c # p) =
     (if take 14 (c # p) = ''</tool_result>''
      then oapp (tokenize_span v sp) (oapp (bpe_tokenize_text v ''&lt;'') (tool_result_loop v [] p))
      else tool_result_loop v (sp @ [c]) p)"

definition bpe_tokenize_tool_result_text :: "ds4_vocab \<Rightarrow> string \<Rightarrow> int list option" where
  "bpe_tokenize_tool_result_text v content = tool_result_loop v [] content"

definition ds4_chat_append_message :: "ds4_vocab \<Rightarrow> string option \<Rightarrow> string option \<Rightarrow> int list option" where
  "ds4_chat_append_message v role content0 =
     (let r = (case role of None \<Rightarrow> ''user'' | Some r \<Rightarrow> r); content = str content0 in
      if r = ''system'' \<or> r = ''developer'' then bpe_tokenize_text v content
      else if r = ''assistant''
      then oapp (Some (v_assistant_id v # (if take 7 content \<noteq> ''<think>'' \<and> take 8 content \<noteq> ''</think>''
                                        then [v_think_end_id v] else []))) (bpe_tokenize_text v content)
      else if r = ''tool'' \<or> r = ''function''
      then oapp (Some [v_user_id v]) (oapp (bpe_tokenize_text v ''<tool_result>'')
             (oapp (bpe_tokenize_tool_result_text v content) (bpe_tokenize_text v ''</tool_result>'')))
      else oapp (Some [v_user_id v]) (bpe_tokenize_text v content))"

definition ds4_chat_append_assistant_prefix :: "ds4_vocab \<Rightarrow> think_mode \<Rightarrow> int list" where
  "ds4_chat_append_assistant_prefix v mode =
     [v_assistant_id v, if ds4_think_mode_enabled mode then v_think_start_id v else v_think_end_id v]"

definition encode_chat_prompt :: "ds4_vocab \<Rightarrow> string option \<Rightarrow> string \<Rightarrow> think_mode \<Rightarrow> int list option" where
  "encode_chat_prompt v system prompt mode =
     oapp (Some [v_bos_id v])
     (oapp (if mode = DS4_THINK_MAX then bpe_tokenize_text v ds4_think_max_prefix else Some [])
     (oapp (if str system \<noteq> [] then bpe_tokenize_text v (str system) else Some [])
     (oapp (Some [v_user_id v]) (oapp (bpe_tokenize_text v prompt) (Some (ds4_chat_append_assistant_prefix v mode))))))"

section \<open>Reading tokens back\<close>

definition utf8_decode_one :: "string \<Rightarrow> nat \<times> string" where
  "utf8_decode_one s =
     (let c = ord (hd s) in
      if c < 0x80 \<or> length s \<le> 1 then (c, tl s)
      else if c AND 0xE0 = 0xC0 \<and> 1 < length s then (push_bit 6 (c AND 0x1F) OR (ord (s ! 1) AND 0x3F), drop 2 s)
      else if c AND 0xF0 = 0xE0 \<and> 2 < length s
      then (push_bit 12 (c AND 0x0F) OR push_bit 6 (ord (s ! 1) AND 0x3F) OR (ord (s ! 2) AND 0x3F), drop 3 s)
      else if c AND 0xF8 = 0xF0 \<and> 3 < length s
      then (push_bit 18 (c AND 0x07) OR push_bit 12 (ord (s ! 1) AND 0x3F) OR push_bit 6 (ord (s ! 2) AND 0x3F)
            OR (ord (s ! 3) AND 0x3F), drop 4 s)
      else (c, tl s))"

lemma utf8_decode_shorter: "s \<noteq> [] \<Longrightarrow> length (snd (utf8_decode_one s)) < length s"
  by (auto simp: utf8_decode_one_def Let_def)

fun gpt2_byte_of :: "nat list \<Rightarrow> nat \<Rightarrow> nat \<Rightarrow> nat option" where
  "gpt2_byte_of [] cp n = None"
| "gpt2_byte_of (b # bs) cp n =
     (if gpt2_printable b then gpt2_byte_of bs cp n else if cp = 256 + n then Some b else gpt2_byte_of bs cp (n + 1))"

definition gpt2_codepoint_to_byte :: "nat \<Rightarrow> nat option" where
  "gpt2_codepoint_to_byte cp = (if gpt2_printable cp \<and> cp \<le> 255 then Some cp else gpt2_byte_of [0..<256] cp 0)"

definition vocab_token_is_literal_special :: "string \<Rightarrow> bool" where
  "vocab_token_is_literal_special s \<longleftrightarrow> strstr s BAR"

function decode_bytes :: "string \<Rightarrow> string" where
  "decode_bytes s =
     (if s = [] then []
      else (case gpt2_codepoint_to_byte (fst (utf8_decode_one s)) of Some b \<Rightarrow> [char_of b] | None \<Rightarrow> [])
        @ decode_bytes (snd (utf8_decode_one s)))"
  by pat_completeness auto

termination by (relation "measure length") (auto simp: utf8_decode_shorter)

declare decode_bytes.simps [simp del]

definition ds4_token_text :: "ds4_vocab \<Rightarrow> int \<Rightarrow> string" where
  "ds4_token_text v token =
     (if token < 0 \<or> int (length (v_token v)) \<le> token then []
      else let s = v_token v ! nat token in
        if vocab_token_is_literal_special s then s else decode_bytes s)"

end
