(* ===== verification/TokenizerLemmas.thy ===== *)
theory TokenizerLemmas
  imports Tokenizer
begin

text \<open>
  Why tokens read back as the text they came from: every byte has its own code point, merging only
  glues neighbours together, and the pieces of a text cover it.
\<close>

section \<open>One byte\<close>

lemma upt_step: "[k..<k + Suc d] = k # [Suc k..<Suc k + d]"
  by (simp add: upt_conv_Cons del: upt_Suc)

lemma index_skip: "\<forall>x\<in>set xs. gpt2_printable x \<Longrightarrow> gpt2_index (xs @ ys) b n = gpt2_index ys b n"
  by (induction xs) auto

lemma index_run:
  "\<forall>x\<in>set [k..<k + d]. \<not> gpt2_printable x \<Longrightarrow>
     gpt2_index ([k..<k + d] @ ys) b n = (if k \<le> b \<and> b < k + d then Some (256 + n + (b - k)) else gpt2_index ys b (n + d))"
proof (induction d arbitrary: k n)
  case (Suc d)
  have p: "\<not> gpt2_printable k" "\<forall>x\<in>set [Suc k..<Suc k + d]. \<not> gpt2_printable x"
    using Suc.prems unfolding upt_step by simp_all
  show ?case unfolding upt_step append_Cons gpt2_index.simps Suc.IH [OF p(2)] using p(1) by auto
qed auto

lemma byte_of_skip: "\<forall>x\<in>set xs. gpt2_printable x \<Longrightarrow> gpt2_byte_of (xs @ ys) cp n = gpt2_byte_of ys cp n"
  by (induction xs) auto

lemma byte_of_run:
  "\<forall>x\<in>set [k..<k + d]. \<not> gpt2_printable x \<Longrightarrow>
     gpt2_byte_of ([k..<k + d] @ ys) cp n
       = (if 256 + n \<le> cp \<and> cp < 256 + n + d then Some (cp - (256 + n) + k) else gpt2_byte_of ys cp (n + d))"
proof (induction d arbitrary: k n)
  case (Suc d)
  have p: "\<not> gpt2_printable k" "\<forall>x\<in>set [Suc k..<Suc k + d]. \<not> gpt2_printable x"
    using Suc.prems unfolding upt_step by simp_all
  show ?case unfolding upt_step append_Cons gpt2_byte_of.simps Suc.IH [OF p(2)] using p(1) by auto
qed auto

lemma byte_ranges:
  "[0..<256] = [0..<0 + 33] @ [33..<127] @ [127..<127 + 34] @ [161..<173] @ [173..<173 + 1] @ [174..<256] @ []"
proof -
  have s: "i \<le> j \<Longrightarrow> j \<le> k \<Longrightarrow> [i..<k] = [i..<j] @ [j..<k]" for i j k :: nat
    using upt_add_eq_append [of i j "k - j"] by simp
  show ?thesis
    using s [of 0 33 256] s [of 33 127 256] s [of 127 161 256] s [of 161 173 256] s [of 173 174 256] by simp
qed

lemma byte_codes:
  "gpt2_index [0..<256] b 0 = (if b < 33 then Some (256 + b) else if 127 \<le> b \<and> b < 161 then Some (289 + (b - 127))
     else if b = 173 then Some 323 else None)"
  "gpt2_byte_of [0..<256] cp 0 = (if 256 \<le> cp \<and> cp < 289 then Some (cp - 256) else if 289 \<le> cp \<and> cp < 323 then Some (cp - 289 + 127)
     else if cp = 323 then Some 173 else None)"
proof -
  have p: "\<forall>x\<in>set [0..<0 + 33]. \<not> gpt2_printable x" "\<forall>x\<in>set [33..<127]. gpt2_printable x"
    "\<forall>x\<in>set [127..<127 + 34]. \<not> gpt2_printable x" "\<forall>x\<in>set [161..<173]. gpt2_printable x"
    "\<forall>x\<in>set [173..<173 + 1]. \<not> gpt2_printable x" "\<forall>x\<in>set [174..<256]. gpt2_printable x"
    unfolding gpt2_printable_def set_upt Ball_def atLeastLessThan_iff by arith+
  show "gpt2_index [0..<256] b 0 = (if b < 33 then Some (256 + b) else if 127 \<le> b \<and> b < 161 then Some (289 + (b - 127))
     else if b = 173 then Some 323 else None)"
    unfolding byte_ranges index_run [OF p(1)] index_skip [OF p(2)] index_run [OF p(3)] index_skip [OF p(4)] index_run [OF p(5)]
      index_skip [OF p(6)] gpt2_index.simps by auto
  show "gpt2_byte_of [0..<256] cp 0 = (if 256 \<le> cp \<and> cp < 289 then Some (cp - 256) else if 289 \<le> cp \<and> cp < 323 then Some (cp - 289 + 127)
     else if cp = 323 then Some 173 else None)"
    unfolding byte_ranges byte_of_run [OF p(1)] byte_of_skip [OF p(2)] byte_of_run [OF p(3)] byte_of_skip [OF p(4)] byte_of_run [OF p(5)]
      byte_of_skip [OF p(6)] gpt2_byte_of.simps by auto
qed

lemma byte_to_codepoint_cases:
  assumes "b < 256"
  shows "gpt2_byte_to_codepoint b < 324" "gpt2_codepoint_to_byte (gpt2_byte_to_codepoint b) = Some b"
    "gpt2_byte_to_codepoint b \<noteq> 32"
  using assms by (auto simp: gpt2_byte_to_codepoint_def gpt2_codepoint_to_byte_def byte_codes gpt2_printable_def)

lemma or_add: "b < 2 ^ n \<Longrightarrow> (2 ^ n * a) OR b = 2 ^ n * a + (b :: nat)"
proof -
  assume b: "b < 2 ^ n"
  have "push_bit n a OR b = push_bit n a + b"
  proof (rule disjunctive_add [symmetric])
    show "\<not> bit (push_bit n a) i \<or> \<not> bit b i" for i
    proof (cases "i < n")
      case False
      have "\<not> bit (take_bit n b) i" using False by (simp add: bit_take_bit_iff)
      then show ?thesis by (simp add: take_bit_nat_eq_self [OF b])
    qed (simp add: bit_push_bit_iff)
  qed
  then show ?thesis by (simp add: push_bit_eq_mult mult.commute)
qed

lemma and_63: "x AND 63 = x mod (64 :: nat)"
  using take_bit_eq_mask [of 6 x] by (simp add: take_bit_eq_mod mask_eq_exp_minus_1)

lemma ord_char_of: "n < 256 \<Longrightarrow> ord (char_of n) = n"
  by (simp add: ord_def)

lemma two_bytes:
  assumes "128 \<le> cp" "cp < 324"
  shows "\<exists>a b. tok_utf8_put cp = [a, b] \<and> 0x80 \<le> ord a \<and> ord a AND 0xE0 = 0xC0 \<and> ord b \<noteq> 32 \<and> ord a < 0xE0 \<and> ord b < 0xE0
     \<and> push_bit 6 (ord a AND 0x1F) OR (ord b AND 0x3F) = cp"
proof -
  define x y where "x = cp div 64" and "y = cp mod 64"
  have xy: "cp = 64 * x + y" "y < 64" "x \<in> {2, 3, 4, 5}" using assms by (auto simp: x_def y_def)
  have d: "drop_bit 6 cp = x" by (simp add: drop_bit_eq_div x_def)
  have b: "0x80 OR y = 128 + y" using or_add [of y 7 1] xy(2) by simp
  have b': "(128 + y) AND 0x3F = y" unfolding and_63 using mod_mult_self2 [of y 64 2] xy(2) by (simp add: add.commute)
  have a: "(0xC0 OR x) = 0xC0 + x" "(0xC0 + x) AND 0xE0 = 0xC0" "(0xC0 + x) AND 0x1F = x" "x < 32"
    using xy(3) by (elim insertE emptyE; simp)+
  have c: "push_bit 6 x OR y = cp" using or_add [of y 6 x] xy by (simp add: push_bit_eq_mult mult.commute)
  have o: "ord (char_of (0xC0 + x)) = 0xC0 + x" "ord (char_of (128 + y)) = 128 + y"
    using xy(2) a(4) by (simp_all add: ord_char_of)
  show ?thesis
  proof (intro exI conjI)
    show "tok_utf8_put cp = [char_of (0xC0 + x), char_of (128 + y)]"
      using assms by (simp add: tok_utf8_put_def d and_63 y_def [symmetric] b a(1))
  qed (use xy(2) a b' c in \<open>simp_all add: o\<close>)
qed

definition enc :: "char \<Rightarrow> string" where
  "enc c = tok_utf8_put (gpt2_byte_to_codepoint (ord c))"

lemma enc_cases:
  obtains a where "enc c = [a]" "ord a < 0x80" "ord a \<noteq> 32" "gpt2_codepoint_to_byte (ord a) = Some (ord c)"
  | a b where "enc c = [a, b]" "0x80 \<le> ord a" "ord a AND 0xE0 = 0xC0" "ord b \<noteq> 32" "ord a < 0xE0" "ord b < 0xE0"
      "gpt2_codepoint_to_byte (push_bit 6 (ord a AND 0x1F) OR (ord b AND 0x3F)) = Some (ord c)"
proof -
  let ?cp = "gpt2_byte_to_codepoint (ord c)"
  note f = byte_to_codepoint_cases [OF ord_lt [of c]]
  show ?thesis
  proof (cases "?cp < 0x80")
    case True
    then have "enc c = [char_of ?cp]" "ord (char_of ?cp) = ?cp" by (simp_all add: enc_def tok_utf8_put_def ord_char_of)
    then show ?thesis using that(1) f(2,3) True by simp
  next
    case False
    then obtain a b where ab: "tok_utf8_put ?cp = [a, b]" "0x80 \<le> ord a" "ord a AND 0xE0 = 0xC0" "ord b \<noteq> 32" "ord a < 0xE0"
      "ord b < 0xE0" "push_bit 6 (ord a AND 0x1F) OR (ord b AND 0x3F) = ?cp"
      using two_bytes [of ?cp] f(1) by (auto simp: not_less)
    show ?thesis by (rule that(2) [of a b]) (use ab f(2) in \<open>simp_all add: enc_def\<close>)
  qed
qed

lemma byte_encode_enc: "byte_encode s = concat (map enc s)"
  by (simp add: byte_encode_def enc_def [abs_def])

lemma enc_next: "next_utf8_char (enc c @ t) = length (enc c)"
  by (rule enc_cases [of c]) (auto simp: next_utf8_char_def utf8_len_from_first_byte_def)

lemma enc_decode: "\<exists>cp. utf8_decode_one (enc c @ t) = (cp, t) \<and> gpt2_codepoint_to_byte cp = Some (ord c)"
  by (rule enc_cases [of c]) (auto simp: utf8_decode_one_def)

lemma enc_nonempty [simp]: "enc c \<noteq> []"
  by (rule enc_cases [of c]) auto

lemma symbols_enc: "utf8_symbols (concat (map enc s)) = map enc s"
proof (induction s)
  case Nil
  then show ?case by (simp add: utf8_symbols.simps)
next
  case (Cons c s)
  then show ?case by (subst utf8_symbols.simps) (simp add: enc_next)
qed

lemma decode_enc: "decode_bytes (concat (map enc s)) = s"
proof (induction s)
  case Nil
  then show ?case by (simp add: decode_bytes.simps)
next
  case (Cons c s)
  obtain cp where "utf8_decode_one (enc c @ concat (map enc s)) = (cp, concat (map enc s))"
    "gpt2_codepoint_to_byte cp = Some (ord c)" using enc_decode by blast
  moreover have "char_of (ord c) = c" by (simp add: ord_def)
  ultimately show ?case using Cons by (subst decode_bytes.simps) simp
qed

lemma enc_bytes: "x \<in> set (concat (map enc s)) \<Longrightarrow> ord x < 0xE0 \<and> ord x \<noteq> 32"
proof (induction s)
  case (Cons c s)
  show ?case
  proof (cases "x \<in> set (enc c)")
    case True
    then show ?thesis by (rule_tac enc_cases [of c]) auto
  next
    case False
    then show ?thesis using Cons by auto
  qed
qed simp

lemma strstr_set: "strstr s t \<Longrightarrow> set t \<subseteq> set s"
proof -
  assume "strstr s t"
  then obtain i where "take (length t) (drop i s) = t" by (auto simp: strstr_def list_ex_iff)
  then show ?thesis by (metis set_drop_subset set_take_subset order_trans)
qed

lemma enc_plain: "\<not> vocab_token_is_literal_special (concat (map enc s))"
proof
  assume "vocab_token_is_literal_special (concat (map enc s))"
  then have "CHR 0xEF \<in> set (concat (map enc s))"
    using strstr_set unfolding vocab_token_is_literal_special_def BAR_def by fastforce
  then have "ord (CHR 0xEF) < 0xE0" using enc_bytes by blast
  then show False by (simp add: ord_def)
qed

section \<open>A usable vocabulary\<close>

text \<open>What loading establishes: the tables hold maps, the token table of exactly the tokens, and the
  special tokens are where it says.\<close>

definition vocab_tables :: "ds4_vocab \<Rightarrow> bool" where
  "vocab_tables v \<longleftrightarrow> (\<exists>ids ranks. table_rel (v_token_to_id v) ids \<and> table_rel (v_merge_rank v) ranks
     \<and> dom ids = set (v_token v)
     \<and> (\<forall>s i. ids s = Some i \<longrightarrow> 0 \<le> i \<and> i < int (length (v_token v)) \<and> v_token v ! nat i = s)
     \<and> (\<forall>(t, i)\<in>set (specials v). ids t = Some i))"

text \<open>What a byte-level vocabulary provides: every byte and every merged pair is a token.\<close>

definition vocab_complete :: "ds4_vocab \<Rightarrow> bool" where
  "vocab_complete v \<longleftrightarrow> (\<forall>c. enc c \<in> set (v_token v))
     \<and> (\<forall>a b. table_get (v_merge_rank v) (a @ '' '' @ b) \<noteq> Some None \<longrightarrow> a @ b \<in> set (v_token v))"

definition vocab_ok :: "ds4_vocab \<Rightarrow> bool" where
  "vocab_ok v \<longleftrightarrow> vocab_tables v \<and> vocab_complete v"

lemma vocab_okE:
  assumes "vocab_ok v"
  obtains ids ranks where "table_rel (v_token_to_id v) ids" "table_rel (v_merge_rank v) ranks"
    "\<forall>s i. ids s = Some i \<longrightarrow> 0 \<le> i \<and> i < int (length (v_token v)) \<and> v_token v ! nat i = s"
    "\<forall>c. ids (enc c) \<noteq> None" "\<forall>a b. ranks (a @ '' '' @ b) \<noteq> None \<longrightarrow> ids (a @ b) \<noteq> None"
    "\<forall>(t, i)\<in>set (specials v). ids t = Some i"
proof -
  obtain ids ranks where t: "table_rel (v_token_to_id v) ids" "table_rel (v_merge_rank v) ranks" "dom ids = set (v_token v)"
    "\<forall>s i. ids s = Some i \<longrightarrow> 0 \<le> i \<and> i < int (length (v_token v)) \<and> v_token v ! nat i = s"
    "\<forall>(t, i)\<in>set (specials v). ids t = Some i"
    using assms unfolding vocab_ok_def vocab_tables_def by blast
  have d: "s \<in> set (v_token v) \<Longrightarrow> ids s \<noteq> None" for s using t(3) by blast
  have "\<forall>c. ids (enc c) \<noteq> None" "\<forall>a b. ranks (a @ '' '' @ b) \<noteq> None \<longrightarrow> ids (a @ b) \<noteq> None"
    using assms d tab.get_rel [OF t(2)] unfolding vocab_ok_def vocab_complete_def by simp_all
  then show thesis using that t by blast
qed

text \<open>A symbol of the encoding: a token that is the code of some bytes.\<close>

definition sym_of :: "(string \<rightharpoonup> int) \<Rightarrow> string list \<Rightarrow> string list \<Rightarrow> bool" where
  "sym_of ids ps syms \<longleftrightarrow> syms = map (\<lambda>p. concat (map enc p)) ps \<and> (\<forall>s\<in>set syms. ids s \<noteq> None)"

lemma best_pair_rel:
  assumes "table_rel (v_merge_rank v) ranks"
  shows "\<exists>r. best_pair v syms i br best = Some r
    \<and> (\<forall>j. r = Some j \<longrightarrow> best = Some j \<or> i \<le> j \<and> Suc j < i + length syms
         \<and> ranks (syms ! (j - i) @ '' '' @ syms ! Suc (j - i)) \<noteq> None)"
proof (induction syms arbitrary: i br best rule: induct_list012)
  case (3 a b syms)
  obtain rank where rank: "bpe_rank v a b = Some rank" "0 \<le> rank \<longrightarrow> ranks (a @ '' '' @ b) \<noteq> None"
    by (simp add: bpe_rank_def tab.get_rel [OF assms] split: option.split)
  let ?br = "if 0 \<le> rank \<and> rank < br then rank else br" and ?best = "if 0 \<le> rank \<and> rank < br then Some i else best"
  have e: "best_pair v (a # b # syms) i br best = best_pair v (b # syms) (Suc i) ?br ?best" using rank(1) by simp
  obtain r where r: "best_pair v (b # syms) (Suc i) ?br ?best = Some r"
    "\<forall>j. r = Some j \<longrightarrow> ?best = Some j \<or> Suc i \<le> j \<and> Suc j < Suc i + length (b # syms)
       \<and> ranks ((b # syms) ! (j - Suc i) @ '' '' @ (b # syms) ! Suc (j - Suc i)) \<noteq> None" using 3(2) by blast
  have "best = Some j \<or> i \<le> j \<and> Suc j < i + length (a # b # syms)
       \<and> ranks ((a # b # syms) ! (j - i) @ '' '' @ (a # b # syms) ! Suc (j - i)) \<noteq> None" if j: "r = Some j" for j
  proof (cases "?best = Some j")
    case True
    then show ?thesis using rank(2) by (auto split: if_splits)
  next
    case False
    then have f: "Suc i \<le> j" "Suc j < Suc i + length (b # syms)"
      "ranks ((b # syms) ! (j - Suc i) @ '' '' @ (b # syms) ! Suc (j - Suc i)) \<noteq> None" using r(2) j by blast+
    then obtain d where d: "j = Suc i + d" using le_Suc_ex by blast
    show ?thesis using f unfolding d by (simp add: Suc_diff_le)
  qed
  then show ?case using e r(1) by auto
qed auto

lemma merge_map:
  assumes "Suc j < length ps" "\<And>a b. f (a @ b) = f a @ f b"
  shows "merge_at j (map f ps) = map f (merge_at j ps)"
  using assms by (simp add: merge_at_def take_map drop_map)

lemma merge_sym_of:
  assumes "sym_of ids ps syms" "Suc j < length syms" "ids (syms ! j @ syms ! Suc j) \<noteq> None"
  shows "sym_of ids (merge_at j ps) (merge_at j syms) \<and> concat (merge_at j ps) = concat ps"
proof -
  have l: "length ps = length syms" using assms(1) by (simp add: sym_of_def)
  have "drop j ps = ps ! j # ps ! Suc j # drop (j + 2) ps"
    using Cons_nth_drop_Suc [of j ps] Cons_nth_drop_Suc [of "Suc j" ps] l assms(2) by (metis Suc_lessD add_2_eq_Suc')
  then have "concat (take j ps @ drop j ps) = concat (take j ps) @ (ps ! j @ ps ! Suc j) @ concat (drop (j + 2) ps)"
    unfolding concat_append by simp
  then have "concat (merge_at j ps) = concat ps" by (simp add: merge_at_def)
  moreover have "sym_of ids (merge_at j ps) (merge_at j syms)"
  proof -
    have s: "syms = map (\<lambda>p. concat (map enc p)) ps" "\<forall>x\<in>set syms. ids x \<noteq> None" using assms(1) by (auto simp: sym_of_def)
    have "merge_at j syms = map (\<lambda>p. concat (map enc p)) (merge_at j ps)"
      using merge_map [of j ps "\<lambda>p. concat (map enc p)"] assms(2) unfolding s(1) by simp
    moreover have "set (merge_at j syms) \<subseteq> insert (syms ! j @ syms ! Suc j) (set syms)"
      using set_take_subset [of j syms] set_drop_subset [of "j + 2" syms] by (auto simp: merge_at_def)
    then have "\<forall>x\<in>set (merge_at j syms). ids x \<noteq> None" using s(2) assms(3) by blast
    ultimately show ?thesis by (simp add: sym_of_def)
  qed
  ultimately show ?thesis by blast
qed

lemma bpe_merge_sym_of:
  assumes "table_rel (v_merge_rank v) ranks" "\<forall>a b. ranks (a @ '' '' @ b) \<noteq> None \<longrightarrow> ids (a @ b) \<noteq> None"
    and "sym_of ids ps syms"
  shows "\<exists>ps' syms'. bpe_merge v syms = Some syms' \<and> sym_of ids ps' syms' \<and> concat ps' = concat ps"
  using assms(3)
proof (induction "length syms" arbitrary: ps syms rule: less_induct)
  case less
  obtain r where r: "best_pair v syms 0 0x7FFFFFFF None = Some r"
    "\<forall>j. r = Some j \<longrightarrow> Suc j < length syms \<and> ranks (syms ! j @ '' '' @ syms ! Suc j) \<noteq> None"
    using best_pair_rel [OF assms(1), of syms 0 "0x7FFFFFFF" None] by auto
  show ?case
  proof (cases r)
    case None
    then show ?thesis using r(1) less.prems by (subst bpe_merge.simps) auto
  next
    case (Some j)
    then have j: "Suc j < length syms" "ids (syms ! j @ syms ! Suc j) \<noteq> None" using r(2) assms(2) by blast+
    note m = merge_sym_of [OF less.prems j]
    have "length (merge_at j syms) < length syms" using j(1) by (simp add: merge_at_def)
    from less.hyps [OF this] m obtain ps' syms' where "bpe_merge v (merge_at j syms) = Some syms'" "sym_of ids ps' syms'"
      "concat ps' = concat (merge_at j ps)" by blast
    then show ?thesis using m r(1) Some by (subst bpe_merge.simps) auto
  qed
qed

text \<open>The tokens of a result read as a text, and each of them satisfies a condition.\<close>

definition reads_as :: "ds4_vocab \<Rightarrow> (int \<Rightarrow> bool) \<Rightarrow> int list option \<Rightarrow> string \<Rightarrow> bool" where
  "reads_as v P r s \<longleftrightarrow> (\<exists>toks. r = Some toks \<and> concat (map (ds4_token_text v) toks) = s \<and> (\<forall>t\<in>set toks. P t))"

definition valid_token :: "ds4_vocab \<Rightarrow> int \<Rightarrow> bool" where
  "valid_token v t \<longleftrightarrow> 0 \<le> t \<and> t < int (length (v_token v))"

definition plain_token :: "ds4_vocab \<Rightarrow> int \<Rightarrow> bool" where
  "plain_token v t \<longleftrightarrow> valid_token v t \<and> (\<exists>p. v_token v ! nat t = concat (map enc p))"

lemma reads_oapp: "reads_as v P x s \<Longrightarrow> reads_as v P y t \<Longrightarrow> reads_as v P (oapp x y) (s @ t)"
  by (auto simp: reads_as_def oapp_def)

lemma reads_Nil [simp]: "reads_as v P (Some []) []"
  by (simp add: reads_as_def)

lemma reads_weak: "reads_as v P r s \<Longrightarrow> (\<And>t. P t \<Longrightarrow> Q t) \<Longrightarrow> reads_as v Q r s"
  by (auto simp: reads_as_def)

lemma emit_symbols_read:
  assumes "table_rel (v_token_to_id v) ids" "\<forall>s i. ids s = Some i \<longrightarrow> 0 \<le> i \<and> i < int (length (v_token v)) \<and> v_token v ! nat i = s"
    and "sym_of ids ps syms"
  shows "reads_as v (plain_token v) (emit_symbols v syms) (concat ps)"
  using assms(3)
proof (induction ps arbitrary: syms)
  case Nil
  then show ?case by (simp add: sym_of_def)
next
  case (Cons p ps)
  let ?s = "concat (map enc p)"
  have s: "syms = ?s # tl syms" "sym_of ids ps (tl syms)" "ids ?s \<noteq> None" using Cons.prems by (auto simp: sym_of_def)
  then obtain i where i: "ids ?s = Some i" by blast
  then have r: "0 \<le> i \<and> i < int (length (v_token v)) \<and> v_token v ! nat i = ?s" using assms(2) by blast
  then have "ds4_token_text v i = p" by (simp add: ds4_token_text_def Let_def enc_plain decode_enc)
  then have "reads_as v (plain_token v) (Some [i]) p" using r by (auto simp: reads_as_def plain_token_def valid_token_def)
  moreover have "emit_symbols v syms = oapp (Some [i]) (emit_symbols v (tl syms))"
    using i tab.get_rel [OF assms(1)] by (subst s(1)) simp
  ultimately show ?case using reads_oapp [OF _ Cons.IH [OF s(2)]] by simp
qed

lemma emit_piece_reads:
  assumes "vocab_ok v"
  shows "reads_as v (plain_token v) (bpe_emit_piece v s) s"
proof -
  obtain ids ranks where v: "table_rel (v_token_to_id v) ids" "table_rel (v_merge_rank v) ranks"
    "\<forall>s i. ids s = Some i \<longrightarrow> 0 \<le> i \<and> i < int (length (v_token v)) \<and> v_token v ! nat i = s"
    "\<forall>c. ids (enc c) \<noteq> None" "\<forall>a b. ranks (a @ '' '' @ b) \<noteq> None \<longrightarrow> ids (a @ b) \<noteq> None"
    using assms by (rule vocab_okE)
  have "sym_of ids (map (\<lambda>c. [c]) s) (map enc s)" using v(4) by (auto simp: sym_of_def)
  from bpe_merge_sym_of [OF v(2,5) this] obtain ps syms where m: "bpe_merge v (map enc s) = Some syms" "sym_of ids ps syms"
    "concat ps = concat (map (\<lambda>c. [c]) s)" by blast
  have "concat (map (\<lambda>c. [c]) s) = s" by (induction s) simp_all
  then show ?thesis using emit_symbols_read [OF v(1,3) m(2)] m(1,3)
    by (simp add: bpe_emit_piece_def byte_encode_enc symbols_enc)
qed

section \<open>Texts\<close>

lemma tokenize_reads:
  assumes "vocab_ok v"
  shows "reads_as v (plain_token v) (bpe_tokenize_text v s) s"
proof (induction "length s" arbitrary: s rule: less_induct)
  case less
  show ?case
  proof (cases "s = []")
    case True
    then show ?thesis by (simp add: bpe_tokenize_text.simps)
  next
    case False
    then have "length (drop (piece_len s) s) < length s" using piece_len_pos [of s] by (cases s) auto
    from reads_oapp [OF emit_piece_reads [OF assms, of "take (piece_len s) s"] less.hyps [OF this]] show ?thesis
      using False by (subst bpe_tokenize_text.simps) simp
  qed
qed

lemma special_id_reads:
  assumes "vocab_ok v" "(t, i) \<in> set (specials v)"
  shows "reads_as v (valid_token v) (Some [i]) t"
proof -
  obtain ids where ids: "\<forall>(t, i)\<in>set (specials v). ids t = Some i"
    "\<forall>s i. ids s = Some i \<longrightarrow> 0 \<le> i \<and> i < int (length (v_token v)) \<and> v_token v ! nat i = s"
    using assms(1) by (rule vocab_okE)
  then have "ids t = Some i" using assms(2) by blast
  then have "0 \<le> i \<and> i < int (length (v_token v)) \<and> v_token v ! nat i = t" using ids(2) by blast
  moreover have "vocab_token_is_literal_special t \<or> decode_bytes t = t"
  proof -
    have "vocab_token_is_literal_special BOS_TEXT" "vocab_token_is_literal_special EOS_TEXT"
      "vocab_token_is_literal_special USER_TEXT" "vocab_token_is_literal_special ASSISTANT_TEXT"
      "vocab_token_is_literal_special DS4_DSML" "decode_bytes ''<think>'' = ''<think>''" "decode_bytes ''</think>'' = ''</think>''"
      by code_simp+
    then show ?thesis using assms(2) by (auto simp: specials_def)
  qed
  ultimately show ?thesis by (auto simp: reads_as_def ds4_token_text_def Let_def valid_token_def)
qed

lemma special_found: "special_token_at v p = Some (t, i) \<Longrightarrow> (t, i) \<in> set (specials v) \<and> take (length t) p = t"
  by (auto simp: special_token_at_def find_Some_iff dest: nth_mem)

lemma special_reads:
  assumes "vocab_ok v" "special_token_at v p = Some (t, i)"
  shows "reads_as v (valid_token v) (Some [i]) t" "take (length t) p = t"
  using special_id_reads [OF assms(1)] special_found [OF assms(2)] by blast+

lemma span_plain: "vocab_ok v \<Longrightarrow> reads_as v (plain_token v) (tokenize_span v s) s"
  using tokenize_reads by (simp add: tokenize_span_def)

lemma span_reads: "vocab_ok v \<Longrightarrow> reads_as v (valid_token v) (tokenize_span v s) s"
  by (rule reads_weak [OF span_plain]) (simp_all add: plain_token_def)

lemma rendered_reads:
  assumes "vocab_ok v"
  shows "reads_as v (valid_token v) (rendered_loop v sp p) (sp @ p)"
proof (induction "length p" arbitrary: sp p rule: less_induct)
  case less
  show ?case
  proof (cases "p = []")
    case True
    then show ?thesis using span_reads [OF assms] by (subst rendered_loop.simps) simp
  next
    case ne: False
    show ?thesis
    proof (cases "special_token_at v p")
      case None
      have "length (tl p) < length p" using ne by simp
      from less.hyps [OF this, of "sp @ [hd p]"] show ?thesis using None ne by (subst rendered_loop.simps) simp
    next
      case (Some ti)
      obtain t i where ti: "special_token_at v p = Some (t, i)" using Some by (cases ti) simp
      have "length (drop (length t) p) < length p" using ne special_nonempty [OF ti] by (cases p) auto
      note ih = less.hyps [OF this, of "[]"]
      have "p = t @ drop (length t) p" using special_reads(2) [OF assms ti] by (metis append_take_drop_id)
      then show ?thesis using reads_oapp [OF span_reads [OF assms, of sp] reads_oapp [OF special_reads(1) [OF assms ti] ih]] ti ne
        by (subst rendered_loop.simps) simp
    qed
  qed
qed

end
