(* ===== verification/GgufLemmas.thy ===== *)
theory GgufLemmas
  imports Gguf
begin

text \<open>
  Reading a model file stays inside the mapping, whatever the file holds: the readers as an interface,
  what follows from it for metadata and tensors, and the strings of an array.
\<close>

section \<open>Readers\<close>

text \<open>A reader of the mapping returns, and either fails or moves the cursor forward by at least
  \<open>least\<close> bytes, to a position in the file.\<close>

definition stays :: "nat \<Rightarrow> byte list \<Rightarrow> u64 \<Rightarrow> u64 gres \<Rightarrow> bool" where
  "stays least f pos r \<longleftrightarrow> (\<exists>x. r = Some x \<and> (\<forall>p. x = Inr p \<longrightarrow> unat pos + least \<le> unat p \<and> unat p \<le> length f))"

definition pos_of :: "('a \<times> u64) gres \<Rightarrow> u64 gres" where
  "pos_of r = gbind r (\<lambda>(_, p). gok p)"

locale cursor_reader =
  fixes rd :: "byte list \<Rightarrow> u64 \<Rightarrow> ('a \<times> u64) gres" and least :: nat
  assumes reads: "length f < 2 ^ 64 \<Longrightarrow> stays least f pos (pos_of (rd f pos))"
begin

lemma read_cases:
  assumes "length f < 2 ^ 64"
  obtains e where "rd f pos = Some (Inl e)"
  | a p where "rd f pos = gok (a, p)" "unat pos + least \<le> unat p" "unat p \<le> length f"
  using reads [OF assms, of pos]
  by (cases "rd f pos") (auto simp: stays_def pos_of_def gbind_def split: sum.splits)

text \<open>A value behind a metadata key is there or not, but never read from outside.\<close>

lemma get_returns:
  assumes "length (m_map m) < 2 ^ 64"
  shows "model_get ty rd m key \<noteq> None"
proof (cases "model_find_kv m key")
  case (Some kv)
  then show ?thesis
    by (rule_tac read_cases [OF assms, of "kv_value_pos kv"]) (simp_all add: model_get_def)
qed (simp add: model_get_def)

lemma get_there:
  "model_find_kv m key = Some kv \<Longrightarrow> kv_type kv = ty \<Longrightarrow> rd (m_map m) (kv_value_pos kv) = gok (a, p)
     \<Longrightarrow> model_get ty rd m key = Some (Some a)"
  by (simp add: model_get_def)

end

text \<open>Two reads one after the other.\<close>

lemma stays_bind:
  assumes "stays n f pos (pos_of r)" "\<And>a p. r = gok (a, p) \<Longrightarrow> unat pos + n \<le> unat p \<Longrightarrow> unat p \<le> length f \<Longrightarrow> stays k f p (g (a, p))"
  shows "stays (n + k) f pos (gbind r g)"
  using assms by (cases r) (fastforce simp: stays_def pos_of_def gbind_def split: sum.splits)+

lemma stays_weak: "stays n f pos r \<Longrightarrow> k \<le> n \<Longrightarrow> stays k f pos r"
  by (auto simp: stays_def)

lemma stays_err [simp]: "stays n f pos (Some (Inl e))"
  by (simp add: stays_def)

lemma stays_ok: "unat p \<le> length f \<Longrightarrow> unat pos + n \<le> unat p \<Longrightarrow> stays n f pos (gok p)"
  by (simp add: stays_def)

section \<open>The cursor\<close>

lemma cursor_has_iff:
  assumes "length f < 2 ^ 64"
  shows "cursor_has f n pos = gok () \<and> unat pos + unat n \<le> length f \<and> unat (pos + n) = unat pos + unat n
    \<or> (\<exists>e. cursor_has f n pos = Some (Inl e)) \<and> length f < unat pos + unat n"
proof -
  have u: "unat (file_size f) = length f" using assms by (simp add: file_size_def unat_of_nat take_bit_eq_mod)
  show ?thesis
  proof (cases "unat pos + unat n \<le> length f")
    case True
    then have "\<not> file_size f < n" "unat (file_size f - n) = length f - unat n"
      using u by (simp_all add: word_less_nat_alt unat_sub word_le_nat_alt)
    then show ?thesis using True assms by (simp add: cursor_has_def word_less_nat_alt unat_add_lem [THEN iffD1])
  next
    case False
    then have "file_size f < n \<or> unat (file_size f - n) = length f - unat n \<and> unat n \<le> length f"
      using u by (cases "unat n \<le> length f") (simp_all add: word_less_nat_alt unat_sub word_le_nat_alt)
    then show ?thesis using False u by (auto simp: cursor_has_def word_less_nat_alt)
  qed
qed

lemma cursor_skip_stays: "length f < 2 ^ 64 \<Longrightarrow> stays (unat n) f pos (cursor_skip f n pos)"
  using cursor_has_iff [of f n pos] by (auto simp: cursor_skip_def stays_def)

lemma cursor_read_cases:
  assumes "length f < 2 ^ 64"
  shows "(\<exists>e. cursor_read f n pos = Some (Inl e)) \<or>
     cursor_read f n pos = gok (take (unat n) (drop (unat pos) f), pos + n) \<and> unat pos + unat n \<le> length f
       \<and> unat (pos + n) = unat pos + unat n"
  using cursor_has_iff [OF assms, of n pos] by (auto simp: cursor_read_def map_bytes_def)

interpretation rd_u32: cursor_reader cursor_u32 4
proof
  fix f pos assume "length (f :: byte list) < 2 ^ 64"
  from cursor_read_cases [OF this, of 4 pos] show "stays 4 f pos (pos_of (cursor_u32 f pos))"
    by (auto simp: cursor_u32_def pos_of_def stays_def)
qed

interpretation rd_u64: cursor_reader cursor_u64 8
proof
  fix f pos assume "length (f :: byte list) < 2 ^ 64"
  from cursor_read_cases [OF this, of 8 pos] show "stays 8 f pos (pos_of (cursor_u64 f pos))"
    by (auto simp: cursor_u64_def pos_of_def stays_def)
qed

interpretation rd_string: cursor_reader cursor_string 8
proof
  fix f pos assume f: "length (f :: byte list) < 2 ^ 64"
  show "stays 8 f pos (pos_of (cursor_string f pos))"
  proof (rule rd_u64.read_cases [OF f, of pos])
    fix len p assume a: "cursor_u64 f pos = gok (len, p)" "unat pos + 8 \<le> unat p" "unat p \<le> length f"
    show ?thesis using cursor_has_iff [OF f, of len p] a by (auto simp: cursor_string_def map_bytes_def pos_of_def stays_def)
  qed (simp add: cursor_string_def pos_of_def)
qed

section \<open>Metadata values\<close>

lemma skip_items_stays:
  assumes "\<And>p. unat p \<le> length f \<Longrightarrow> stays k f p (skip p)" "unat pos \<le> length f"
  shows "stays (n * k) f pos (skip_items skip n pos)"
  using assms(2)
proof (induction n arbitrary: pos)
  case (Suc n)
  have s: "stays k f pos (skip pos)" by (rule assms(1) [OF Suc.prems])
  show ?case
  proof (cases "\<exists>p. skip pos = gok p")
    case True
    then obtain p where p: "skip pos = gok p" by blast
    then have "unat pos + k \<le> unat p" "unat p \<le> length f" using s by (auto simp: stays_def)
    then show ?thesis using Suc.IH [of p] p by (auto simp: stays_def)
  next
    case False
    then obtain e where "skip pos = Some (Inl e)" using s by (metis stays_def sum.exhaust)
    then show ?thesis by simp
  qed
qed (simp add: stays_def)

lemma skip_nested_stays:
  assumes "length f < 2 ^ 64"
  shows "unat pos \<le> length f \<Longrightarrow> stays 0 f pos (skip_nested d f ty pos)"
proof (induction d arbitrary: ty pos)
  case (Suc d)
  have s: "stays 0 f pos (gbind (cursor_string f pos) (\<lambda>(_, p). gok p))"
    using stays_weak [OF rd_string.reads [OF assms, of pos], of 0] by (simp add: pos_of_def)
  have sk: "stays 0 f p (cursor_skip f n p)" for n p
    using stays_weak [OF cursor_skip_stays [OF assms], of 0 n p] by simp
  have a: "stays 0 f pos (gbind (cursor_u32 f pos) (\<lambda>(item_type, p).
           gbind (cursor_u64 f p) (\<lambda>(len, q).
             let item_size = scalar_value_size item_type in
             if item_size \<noteq> 0
             then (if - 1 div item_size < len then Some (Inl (cursor_error ''metadata array is too large'' q))
                   else cursor_skip f (len * item_size) q)
             else skip_items (skip_nested d f item_type) (unat len) q)))" (is "stays 0 f pos ?r")
  proof -
    have "stays (4 + (8 + 0)) f pos ?r"
      by (rule stays_bind [OF rd_u32.reads [OF assms]], unfold prod.case, rule stays_bind [OF rd_u64.reads [OF assms]], unfold prod.case Let_def)
        (use skip_items_stays [where k = 0 and f = f] Suc.IH sk in \<open>auto\<close>)
    then show ?thesis by (rule stays_weak) simp
  qed
  show ?case using s a stays_weak [OF cursor_skip_stays [OF assms], of 0] by (auto simp: Let_def)
qed simp


lemma skip_value_stays: "length f < 2 ^ 64 \<Longrightarrow> unat pos \<le> length f \<Longrightarrow> stays 0 f pos (skip_value f ty 0 pos)"
  by (simp add: skip_value_def skip_nested_stays)

text \<open>A metadata entry whose value can be skipped can be read.\<close>

definition kv_ok :: "byte list \<Rightarrow> ds4_kv \<Rightarrow> bool" where
  "kv_ok f kv \<longleftrightarrow> (\<exists>p. skip_value f (kv_type kv) 0 (kv_value_pos kv) = gok p)"

text \<open>A result that is never \<open>None\<close>, and satisfies a condition when it is not an error.\<close>

definition gpost :: "('a \<Rightarrow> bool) \<Rightarrow> 'a gres \<Rightarrow> bool" where
  "gpost P r \<longleftrightarrow> (\<exists>x. r = Some x \<and> (\<forall>a. x = Inr a \<longrightarrow> P a))"

lemma gpost_bind: "gpost P r \<Longrightarrow> (\<And>a. r = gok a \<Longrightarrow> P a \<Longrightarrow> gpost Q (g a)) \<Longrightarrow> gpost Q (gbind r g)"
  by (cases r) (auto simp: gpost_def gbind_def split: sum.splits)

lemma gpost_simps [simp]: "gpost P (Some (Inl e))" "gpost P (gok a) = P a" "\<not> gpost P None"
  by (simp_all add: gpost_def)

lemma gpost_mono: "gpost P r \<Longrightarrow> (\<And>a. r = gok a \<Longrightarrow> P a \<Longrightarrow> Q a) \<Longrightarrow> gpost Q r"
  by (auto simp: gpost_def)

lemma gpost_read: "stays n f pos (pos_of r) \<Longrightarrow> gpost (\<lambda>(a, p). unat pos + n \<le> unat p \<and> unat p \<le> length f) r"
  by (cases r) (auto simp: stays_def pos_of_def gpost_def gbind_def split: sum.splits)

lemma gpost_stays: "stays n f pos r \<Longrightarrow> gpost (\<lambda>p. unat pos + n \<le> unat p \<and> unat p \<le> length f) r"
  by (auto simp: stays_def gpost_def)

text \<open>The alignment is never 0, so dividing by it is safe.\<close>

lemma alignment_read:
  assumes "length f < 2 ^ 64" "al \<noteq> 0"
  shows "gpost (\<lambda>a. a \<noteq> (0 :: u64)) (if c then (case cursor_u32 f q of None \<Rightarrow> None
       | Some (Inr (a, _)) \<Rightarrow> gok (if a \<noteq> 0 then ucast a else al) | Some (Inl _) \<Rightarrow> gok al) else gok al)"
proof -
  have "(ucast (a :: u32) :: u64) = 0 \<longleftrightarrow> a = 0" for a
    using ucast_of_nat32 [of "unat a"] unsigned_less [of a, where ?'a = nat] by (auto simp: unat_eq_zero)
  then show ?thesis using assms(2) by (rule_tac rd_u32.read_cases [OF assms(1), of q]) auto
qed

lemma metadata_loop_ok:
  assumes f: "length f < 2 ^ 64"
  shows "unat pos \<le> length f \<Longrightarrow> al \<noteq> 0 \<Longrightarrow>
     gpost (\<lambda>(kvs, al', e). unat pos \<le> unat e \<and> unat e \<le> length f \<and> al' \<noteq> 0 \<and> (\<forall>kv\<in>set kvs. kv_ok f kv))
       (metadata_loop f n al pos)"
proof (induction n arbitrary: al pos)
  case (Suc n)
  show ?case
    unfolding metadata_loop.simps Let_def
    apply (rule gpost_bind [OF gpost_read [OF rd_string.reads [OF f]]], simp only: split_paired_all prod.case)
    apply (rule gpost_bind [OF gpost_read [OF rd_u32.reads [OF f]]], simp only: split_paired_all prod.case)
    apply (rule gpost_bind [OF alignment_read [OF f Suc.prems(2)]])
    apply (rule gpost_bind [OF gpost_stays [OF skip_value_stays [OF f]]], blast)
    apply (rule gpost_bind [OF Suc.IH], blast, assumption)
    apply (auto simp: kv_ok_def)
    done
qed simp

section \<open>Tensors\<close>

definition tensor_read :: "ds4_tensor \<Rightarrow> bool" where
  "tensor_read t \<longleftrightarrow> 0 < length (t_dims t) \<and> length (t_dims t) \<le> 8 \<and> unat (t_elements t) = prod_list (map unat (t_dims t))
     \<and> t_bytes t = (case tensor_nbytes (t_type t) (t_elements t) of None \<Rightarrow> 0 | Some b \<Rightarrow> b)"

text \<open>The count of elements is the exact product: the test for overflow is right.\<close>

lemma max64: "unat (- 1 :: u64) = 2 ^ 64 - 1"
  by simp

lemma count_step:
  assumes "\<not> (d \<noteq> 0 \<and> - 1 div d < (elements :: u64))"
  shows "unat (elements * d) = unat elements * unat d"
proof (cases "d = 0")
  case False
  then have "unat elements \<le> (2 ^ 64 - 1) div unat d"
    using assms by (simp add: word_less_nat_alt unat_div max64 not_less)
  then have "unat elements * unat d \<le> 2 ^ 64 - 1"
    using False by (metis div_times_less_eq_dividend le_trans mult_le_mono1)
  then show ?thesis using unat_mult_lem [of elements d] by simp
qed simp

lemma dims_loop_ok:
  assumes f: "length f < 2 ^ 64"
  shows "unat pos \<le> length f \<Longrightarrow>
     gpost (\<lambda>(ds, e, q). unat pos \<le> unat q \<and> unat q \<le> length f \<and> length ds = n \<and> unat e = unat elements * prod_list (map unat ds))
       (dims_loop f n elements pos)"
proof (induction n arbitrary: elements pos)
  case (Suc n)
  show ?case
    unfolding dims_loop.simps
  proof (rule gpost_bind [OF gpost_read [OF rd_u64.reads [OF f]]], simp only: split_paired_all prod.case)
    fix d p :: u64 assume p: "unat pos + 8 \<le> unat p \<and> unat p \<le> length f"
    show "gpost (\<lambda>(ds, e, q). unat pos \<le> unat q \<and> unat q \<le> length f \<and> length ds = Suc n \<and> unat e = unat elements * prod_list (map unat ds))
      (if d \<noteq> 0 \<and> - 1 div d < elements then Some (Inl ''tensor element count overflow'')
       else gbind (dims_loop f n (elements * d) p) (\<lambda>(ds, e, q). gok (d # ds, e, q)))"
    proof (cases "d \<noteq> 0 \<and> - 1 div d < elements")
      case False
      show ?thesis unfolding if_not_P [OF False]
        by (rule gpost_bind [OF Suc.IH]) (use p count_step [OF False] in auto)
    qed simp
  qed
qed simp

lemma read_tensor_ok:
  assumes f: "length f < 2 ^ 64" and "unat pos \<le> length f"
  shows "gpost (\<lambda>(t, p). unat pos \<le> unat p \<and> unat p \<le> length f \<and> tensor_read t) (read_tensor f pos)"
  unfolding read_tensor_def
proof (rule gpost_bind [OF gpost_read [OF rd_string.reads [OF f]]], simp only: split_paired_all prod.case,
    rule gpost_bind [OF gpost_read [OF rd_u32.reads [OF f]]], simp only: split_paired_all prod.case)
  fix name and p :: u64 and ndim and q :: u64 assume q: "unat pos + 8 \<le> unat p \<and> unat p \<le> length f" "unat p + 4 \<le> unat q \<and> unat q \<le> length f"
  show "gpost (\<lambda>(t, p). unat pos \<le> unat p \<and> unat p \<le> length f \<and> tensor_read t)
    (if ndim = (0 :: u32) \<or> 8 < ndim then Some (Inl ''tensor has an unsupported number of dimensions'')
       else gbind (dims_loop f (unat ndim) 1 q) (\<lambda>(dims, elements, r).
            gbind (cursor_u32 f r) (\<lambda>(ty, s).
            gbind (cursor_u64 f s) (\<lambda>(off, e).
              gok (\<lparr>t_name = name, t_dims = dims, t_type = ty, t_rel_offset = off, t_abs_offset = 0,
                    t_elements = elements, t_bytes = (case tensor_nbytes ty elements of None \<Rightarrow> 0 | Some b \<Rightarrow> b)\<rparr>, e)))))"
  proof (cases "ndim = 0 \<or> 8 < ndim")
    case False
    then have n: "0 < unat ndim" "unat ndim \<le> 8" by (simp_all add: unat_gt_0 word_less_nat_alt)
    show ?thesis unfolding if_not_P [OF False]
      apply (rule gpost_bind [OF dims_loop_ok [OF f]], use q in blast, simp only: split_paired_all prod.case)
      apply (rule gpost_bind [OF gpost_read [OF rd_u32.reads [OF f]]], simp only: split_paired_all prod.case)
      apply (rule gpost_bind [OF gpost_read [OF rd_u64.reads [OF f]]], simp only: split_paired_all prod.case)
      using q n apply (auto simp: tensor_read_def)
      done
  qed simp
qed

lemma tensors_loop_ok:
  assumes f: "length f < 2 ^ 64"
  shows "unat pos \<le> length f \<Longrightarrow>
     gpost (\<lambda>(ts, p). unat p \<le> length f \<and> length ts = n \<and> (\<forall>t\<in>set ts. tensor_read t)) (tensors_loop f n pos)"
proof (induction n arbitrary: pos)
  case (Suc n)
  show ?case
    unfolding tensors_loop.simps
    apply (rule gpost_bind [OF read_tensor_ok [OF f Suc.prems]], simp only: split_paired_all prod.case)
    apply (rule gpost_bind [OF Suc.IH], blast)
    apply auto
    done
qed simp

text \<open>Where a tensor lies: behind the directory at its offset, and inside the file unless it has no bytes.\<close>

definition placed :: "byte list \<Rightarrow> u64 \<Rightarrow> ds4_tensor \<Rightarrow> bool" where
  "placed f data_pos t \<longleftrightarrow> unat (t_abs_offset t) = unat data_pos + unat (t_rel_offset t)
     \<and> (t_bytes t \<noteq> 0 \<longrightarrow> unat (t_abs_offset t) + unat (t_bytes t) \<le> length f)"

lemma place_tensor_ok:
  assumes "length f < 2 ^ 64" "place_tensor f data_pos t = Inr t'"
  shows "t' = t\<lparr>t_abs_offset := data_pos + t_rel_offset t\<rparr> \<and> placed f data_pos t'"
proof -
  have u: "unat (file_size f) = length f" using assms(1) by (simp add: file_size_def unat_of_nat take_bit_eq_mod)
  have o: "\<not> - 1 - data_pos < t_rel_offset t" and t': "t' = t\<lparr>t_abs_offset := data_pos + t_rel_offset t\<rparr>"
    and i: "t_bytes t \<noteq> 0 \<longrightarrow> \<not> file_size f < data_pos + t_rel_offset t \<and> \<not> file_size f - (data_pos + t_rel_offset t) < t_bytes t"
    using assms(2) by (auto simp: place_tensor_def Let_def split: if_splits)
  note a = max_minus_not_less [OF o]
  have "t_bytes t \<noteq> 0 \<longrightarrow> unat (data_pos + t_rel_offset t) + unat (t_bytes t) \<le> length f"
    using i u unat_sub [of "data_pos + t_rel_offset t" "file_size f"]
    by (auto simp: word_less_nat_alt word_le_nat_alt not_less)
  then show ?thesis using a by (simp add: placed_def t')
qed

lemma place_tensors_ok:
  assumes f: "length f < 2 ^ 64"
  shows "place_tensors f data_pos ts mx = Inr (ts', mx') \<Longrightarrow> \<forall>t\<in>set ts. tensor_read t \<Longrightarrow>
     length ts' = length ts \<and> mx \<le> mx' \<and> (\<forall>t\<in>set ts'. tensor_read t \<and> placed f data_pos t \<and> t_bytes t \<le> mx')"
proof (induction ts arbitrary: mx ts')
  case (Cons t ts)
  obtain t1 ts1 where a: "place_tensor f data_pos t = Inr t1" "ts' = t1 # ts1"
    "place_tensors f data_pos ts (if mx < t_bytes t then t_bytes t else mx) = Inr (ts1, mx')"
    using Cons.prems(1) by (auto simp: bind_res_def split: sum.splits)
  note t1 = place_tensor_ok [OF f a(1)]
  have "tensor_read t1" "t_bytes t1 = t_bytes t" using t1 Cons.prems(2) by (simp_all add: tensor_read_def)
  then show ?case using Cons.IH [OF a(3)] Cons.prems(2) a(2) t1 by (auto split: if_splits)
qed simp

text \<open>What a model file that was accepted looks like.\<close>

definition model_ok :: "byte list \<Rightarrow> ds4_model \<Rightarrow> bool" where
  "model_ok f m \<longleftrightarrow> m_map m = f \<and> m_version m = 3 \<and> m_alignment m \<noteq> 0
     \<and> (\<forall>kv\<in>set (m_kv m). kv_ok f kv)
     \<and> (\<forall>t\<in>set (m_tensors m). tensor_read t \<and> placed f (m_tensor_data_pos m) t \<and> t_bytes t \<le> m_max_tensor_bytes m)"

lemma parse_tensors_ok:
  assumes f: "length f < 2 ^ 64" and "unat pos \<le> length f"
  shows "gpost (\<lambda>(ts, data_pos, mx). \<forall>t\<in>set ts. tensor_read t \<and> placed f data_pos t \<and> t_bytes t \<le> mx)
    (parse_tensors mok f n al pos)"
proof (cases "mok (unat n)")
  case True
  have "gpost (\<lambda>(ts, data_pos, mx). \<forall>t\<in>set ts. tensor_read t \<and> placed f data_pos t \<and> t_bytes t \<le> mx)
    (gbind (tensors_loop f (unat n) pos) (\<lambda>(ts, e). let data_pos = align_up e al in
        Some (bind_res (place_tensors f data_pos ts 0) (\<lambda>(ts', mx). Inr (ts', data_pos, mx)))))"
  proof (rule gpost_bind [OF tensors_loop_ok [OF assms]], simp only: split_paired_all prod.case Let_def)
    fix ts and e :: u64 assume a: "unat e \<le> length f \<and> length ts = unat n \<and> (\<forall>t\<in>set ts. tensor_read t)"
    show "gpost (\<lambda>(ts, data_pos, mx). \<forall>t\<in>set ts. tensor_read t \<and> placed f data_pos t \<and> t_bytes t \<le> mx)
      (Some (bind_res (place_tensors f (align_up e al) ts 0) (\<lambda>(ts', mx). Inr (ts', align_up e al, mx))))"
    proof (cases "place_tensors f (align_up e al) ts 0")
      case (Inr r)
      then show ?thesis using place_tensors_ok [OF f, of "align_up e al" ts 0 "fst r" "snd r"] a by (cases r) simp
    qed simp
  qed
  then show ?thesis using True by (simp add: parse_tensors_def)
qed (simp add: parse_tensors_def)

lemma model_open_ok:
  assumes f: "length f < 2 ^ 64"
  shows "gpost (model_ok f) (model_open mok f)"
proof (cases "length f < 32")
  case False
  have m: "gpost (\<lambda>(kvs, al', e). unat e \<le> length f \<and> al' \<noteq> 0 \<and> (\<forall>kv\<in>set kvs. kv_ok f kv)) (parse_metadata mok f n pos)"
    if "unat pos \<le> length f" for n pos
  proof (cases "mok (unat n)")
    case True
    show ?thesis
      using metadata_loop_ok [OF f that, of 32 "unat n"] True by (auto simp: parse_metadata_def gpost_def)
  qed (simp add: parse_metadata_def)
  have fin: "gpost (model_ok f) (gbind (parse_metadata mok f n_kv s) (\<lambda>(kvs, alignment, e).
       gbind (parse_tensors mok f n_tensors alignment e) (\<lambda>(ts, data_pos, mx).
         gok \<lparr>m_map = f, m_version = 3, m_alignment = alignment, m_tensor_data_pos = data_pos,
              m_max_tensor_bytes = mx, m_kv = kvs, m_tensors = ts\<rparr>)))" if "unat s \<le> length f" for n_kv n_tensors s
    apply (rule gpost_bind [OF m [OF that]], simp only: split_paired_all prod.case)
    apply (rule gpost_bind [OF parse_tensors_ok [OF f]], blast)
    apply (auto simp: model_ok_def)
    done
  show ?thesis unfolding model_open_def if_not_P [OF False]
    apply (rule gpost_bind [OF gpost_read [OF rd_u32.reads [OF f]]], simp only: split_paired_all prod.case)
    apply (split if_split, intro conjI impI, simp)
    apply (rule gpost_bind [OF gpost_read [OF rd_u32.reads [OF f]]], simp only: split_paired_all prod.case)
    apply (rule gpost_bind [OF gpost_read [OF rd_u64.reads [OF f]]], simp only: split_paired_all prod.case)
    apply (rule gpost_bind [OF gpost_read [OF rd_u64.reads [OF f]]], simp only: split_paired_all prod.case)
    apply (split if_split, intro conjI impI, simp)
    apply (simp only: not_not)
    apply (rule fin)
    apply blast
    done
qed (simp add: model_open_def)

section \<open>Reading metadata\<close>

lemmas value_types = GGUF_VALUE_UINT32_def GGUF_VALUE_BOOL_def GGUF_VALUE_STRING_def GGUF_VALUE_ARRAY_def GGUF_VALUE_UINT64_def

lemma skip_read:
  assumes "length f < 2 ^ 64" "cursor_skip f n pos = gok p"
  shows "cursor_read f n pos = gok (take (unat n) (drop (unat pos) f), p)"
  using cursor_read_cases [OF assms(1), of n pos] cursor_has_iff [OF assms(1), of n pos] assms(2)
  by (auto simp: cursor_skip_def cursor_read_def)

lemma skip_nine: "skip_value f ty 0 pos = skip_nested (Suc 8) f ty pos"
  by (simp add: skip_value_def)

lemmas skip_outer = skip_nine [unfolded skip_nested.simps Let_def]

lemma kv_ok_scalar:
  assumes "length f < 2 ^ 64" "kv_ok f kv" "scalar_value_size (kv_type kv) \<noteq> 0"
  shows "\<exists>bs p. cursor_read f (scalar_value_size (kv_type kv)) (kv_value_pos kv) = gok (bs, p)"
  using assms(2,3) skip_read [OF assms(1)] unfolding kv_ok_def skip_outer by auto

lemma kv_ok_string: "kv_ok f kv \<Longrightarrow> kv_type kv = GGUF_VALUE_STRING \<Longrightarrow> \<exists>s p. cursor_string f (kv_value_pos kv) = gok (s, p)"
  unfolding kv_ok_def skip_outer
  by (auto simp: scalar_value_size_def value_types gbind_def split: option.splits sum.splits)

text \<open>An array of strings has been walked through.\<close>

definition skip_string :: "byte list \<Rightarrow> u64 \<Rightarrow> u64 gres" where
  "skip_string f pos = pos_of (cursor_string f pos)"

lemma kv_ok_array:
  assumes "kv_ok f kv" "kv_type kv = GGUF_VALUE_ARRAY"
  obtains ty p len q where "cursor_u32 f (kv_value_pos kv) = gok (ty, p)" "cursor_u64 f p = gok (len, q)"
    "ty = GGUF_VALUE_STRING \<Longrightarrow> \<exists>e. skip_items (skip_string f) (unat len) q = gok e"
proof -
  have "scalar_value_size (kv_type kv) = 0" "kv_type kv \<noteq> GGUF_VALUE_STRING" using assms(2) by (simp_all add: scalar_value_size_def value_types)
  then obtain e where e: "gbind (cursor_u32 f (kv_value_pos kv)) (\<lambda>(item_type, p).
           gbind (cursor_u64 f p) (\<lambda>(len, q).
             let item_size = scalar_value_size item_type in
             if item_size \<noteq> 0
             then (if - 1 div item_size < len then Some (Inl (cursor_error ''metadata array is too large'' q))
                   else cursor_skip f (len * item_size) q)
             else skip_items (skip_nested 8 f item_type) (unat len) q)) = gok e"
    using assms unfolding kv_ok_def skip_outer by (auto simp: Let_def)
  then obtain ty p where a: "cursor_u32 f (kv_value_pos kv) = gok (ty, p)"
    by (cases "cursor_u32 f (kv_value_pos kv)") (auto simp: gbind_def split: sum.splits)
  then obtain len q where b: "cursor_u64 f p = gok (len, q)"
    using e by (cases "cursor_u64 f p") (auto simp: gbind_def split: sum.splits)
  have n: "skip_nested (Suc k) f GGUF_VALUE_STRING = skip_string f" for k
    by (rule ext) (simp add: scalar_value_size_def value_types skip_string_def pos_of_def)
  have "ty = GGUF_VALUE_STRING \<Longrightarrow> \<exists>e. skip_items (skip_string f) (unat len) q = gok e"
  proof -
    assume t: "ty = GGUF_VALUE_STRING"
    have "skip_nested 8 f ty = skip_string f" using n [of 7] t by (simp add: eval_nat_numeral)
    then show ?thesis using e a b t by (simp add: scalar_value_size_def value_types)
  qed
  then show thesis using that a b by blast
qed

lemma skip_string_stays: "length f < 2 ^ 64 \<Longrightarrow> stays 8 f pos (skip_string f pos)"
  unfolding skip_string_def by (rule rd_string.reads)

text \<open>So the length of such an array is bounded by the size of the file.\<close>

lemma strings_bound:
  assumes "length f < 2 ^ 64" "skip_items (skip_string f) n q = gok e" "unat q \<le> length f"
  shows "8 * n \<le> length f"
  using skip_items_stays [of f 8 "skip_string f" q n] skip_string_stays [OF assms(1)] assms(2,3) by (auto simp: stays_def)

lemma find_kv_in: "model_find_kv m key = Some kv \<Longrightarrow> kv \<in> set (m_kv m) \<and> kv_key kv = key"
  by (auto simp: model_find_kv_def find_Some_iff dest: nth_mem)

text \<open>What the getters of an accepted model return.\<close>

lemmas getter_defs = model_get_string_def model_get_u32_def model_get_u64_def model_get_bool_def model_get_array_def

lemma rd_bool: "length f < 2 ^ 64 \<Longrightarrow> stays 1 f pos (pos_of (gbind (cursor_read f 1 pos) (\<lambda>(bs, p). gok (hd bs \<noteq> 0, p))))"
  using cursor_read_cases [of f 1 pos] by (auto simp: stays_def pos_of_def)

interpretation rd_bool: cursor_reader "\<lambda>f pos. gbind (cursor_read f 1 pos) (\<lambda>(bs, p). gok (hd bs \<noteq> 0, p))" 1
  by unfold_locales (rule rd_bool)

lemma rd_array: "length f < 2 ^ 64 \<Longrightarrow> stays 12 f pos (pos_of (gbind (cursor_u32 f pos) (\<lambda>(ty, p).
       gbind (cursor_u64 f p) (\<lambda>(len, q). gok (\<lparr>ar_type = ty, ar_len = len, ar_data_pos = q\<rparr>, q)))))"
  by (rule rd_u32.read_cases [of f pos], assumption, simp add: pos_of_def, erule rd_u64.read_cases [of f "snd (projr (the (cursor_u32 f pos)))"])
    (auto simp: stays_def pos_of_def)

interpretation rd_array: cursor_reader "\<lambda>f pos. gbind (cursor_u32 f pos) (\<lambda>(ty, p).
       gbind (cursor_u64 f p) (\<lambda>(len, q). gok (\<lparr>ar_type = ty, ar_len = len, ar_data_pos = q\<rparr>, q)))" 12
  by unfold_locales (rule rd_array)

lemma getters_return:
  assumes "length f < 2 ^ 64" "model_ok f m"
  shows "model_get_string m key \<noteq> None \<and> model_get_u32 m key \<noteq> None \<and> model_get_u64_compat m key \<noteq> None
      \<and> model_get_bool m key \<noteq> None \<and> model_get_array m key \<noteq> None"
proof -
  have f: "length (m_map m) < 2 ^ 64" using assms by (simp add: model_ok_def)
  note r = rd_string.get_returns [OF f] rd_u32.get_returns [OF f] rd_u64.get_returns [OF f] rd_bool.get_returns [OF f]
    rd_array.get_returns [OF f]
  have "model_get_u64_compat m key \<noteq> None"
    using r(2,3) by (simp add: model_get_u64_compat_def getter_defs split: option.split)
  then show ?thesis using r by (simp add: getter_defs)
qed

lemma getters_find:
  assumes f: "length f < 2 ^ 64" and m: "model_ok f m" and kv: "model_find_kv m key = Some kv"
  shows "(kv_type kv = GGUF_VALUE_STRING \<longrightarrow> (\<exists>s. model_get_string m key = Some (Some s)))
    \<and> (kv_type kv = GGUF_VALUE_UINT32 \<longrightarrow> (\<exists>w. model_get_u32 m key = Some (Some w)))
    \<and> (kv_type kv = GGUF_VALUE_UINT64 \<longrightarrow> (\<exists>w. model_get_u64_compat m key = Some (Some w)))
    \<and> (kv_type kv = GGUF_VALUE_BOOL \<longrightarrow> (\<exists>b. model_get_bool m key = Some (Some b)))
    \<and> (kv_type kv = GGUF_VALUE_ARRAY \<longrightarrow> (\<exists>a. model_get_array m key = Some (Some a)))"
proof -
  have mm: "m_map m = f" and ok: "kv_ok f kv" using m find_kv_in [OF kv] by (auto simp: model_ok_def)
  have sc: "\<exists>bs p. cursor_read f (scalar_value_size (kv_type kv)) (kv_value_pos kv) = gok (bs, p)"
    if "scalar_value_size (kv_type kv) \<noteq> 0" using kv_ok_scalar [OF f ok that] .
  show ?thesis
  proof (intro conjI impI)
    assume t: "kv_type kv = GGUF_VALUE_STRING"
    then show "\<exists>s. model_get_string m key = Some (Some s)"
      using kv_ok_string [OF ok] kv by (auto simp: model_get_string_def model_get_def mm)
  next
    assume t: "kv_type kv = GGUF_VALUE_UINT32"
    then have "\<exists>bs p. cursor_read f 4 (kv_value_pos kv) = gok (bs, p)" using sc by (simp add: scalar_value_size_def value_types)
    then show "\<exists>w. model_get_u32 m key = Some (Some w)"
      using t kv by (auto simp: model_get_u32_def model_get_def mm cursor_u32_def)
  next
    assume t: "kv_type kv = GGUF_VALUE_UINT64"
    then have "\<exists>bs p. cursor_read f 8 (kv_value_pos kv) = gok (bs, p)" using sc by (simp add: scalar_value_size_def value_types)
    then show "\<exists>w. model_get_u64_compat m key = Some (Some w)"
      using t kv by (auto simp: model_get_u64_compat_def model_get_u64_def model_get_def mm cursor_u64_def)
  next
    assume t: "kv_type kv = GGUF_VALUE_BOOL"
    then have "\<exists>bs p. cursor_read f 1 (kv_value_pos kv) = gok (bs, p)" using sc by (simp add: scalar_value_size_def value_types)
    then show "\<exists>b. model_get_bool m key = Some (Some b)"
      using t kv by (auto simp: model_get_bool_def model_get_def mm)
  next
    assume t: "kv_type kv = GGUF_VALUE_ARRAY"
    show "\<exists>a. model_get_array m key = Some (Some a)"
      by (rule kv_ok_array [OF ok t]) (use t kv in \<open>auto simp: model_get_array_def model_get_def mm\<close>)
  qed
qed

section \<open>Sizes\<close>

lemma gguf_type_sizes: "tensor_type ty = Some (name, elems, bytes) \<Longrightarrow> 0 < unat elems \<and> unat elems \<le> 256 \<and> 0 < unat bytes \<and> unat bytes \<le> 292"
proof -
  assume "tensor_type ty = Some (name, elems, bytes)"
  then have "Some (name, elems, bytes) \<in> set gguf_types" by (auto simp: tensor_type_def split: if_splits) (metis not_less nth_mem)
  then show ?thesis by (auto simp: gguf_types_def)
qed

lemma nbytes_exact:
  assumes t: "tensor_type ty = Some (name, elems, bytes)" and n: "unat n + unat elems \<le> 2 ^ 64"
  shows "0 < unat elems \<and> 0 < unat bytes \<and>
    (let size = (unat n + unat elems - 1) div unat elems * unat bytes in
     tensor_nbytes ty n = (if size < 2 ^ 64 then Some (of_nat size) else None))"
proof -
  note s = gguf_type_sizes [OF t]
  have ue: "unat (ucast elems :: u64) = unat elems" and ub: "unat (ucast bytes :: u64) = unat bytes"
    using ucast_of_nat32 [of "unat elems"] ucast_of_nat32 [of "unat bytes"] unat_lt32 [of elems] unat_lt32 [of bytes] by simp_all
  have e0: "elems \<noteq> 0" using s by auto
  have "unat (ucast elems - 1 :: u64) = unat elems - 1" using ue s
    by (subst unat_sub) (simp_all add: word_le_nat_alt)
  then have "unat (n + (ucast elems - 1)) = unat n + (unat elems - 1)"
    using n s by (subst unat_add_lem [THEN iffD1]) simp_all
  then have r: "unat (n + ucast elems - 1) = unat n + unat elems - 1" using s by (simp add: algebra_simps)
  let ?b = "(n + ucast elems - 1) div ucast elems :: u64"
  have b: "unat ?b = (unat n + unat elems - 1) div unat elems" by (simp only: unat_div r ue)
  have c: "(- 1 div ucast bytes < ?b) \<longleftrightarrow> 2 ^ 64 \<le> unat ?b * unat bytes"
  proof -
    have "(- 1 div ucast bytes < ?b) \<longleftrightarrow> (2 ^ 64 - 1) div unat bytes < unat ?b"
      unfolding word_less_nat_alt unat_div max64 ub ..
    also have "\<dots> \<longleftrightarrow> 2 ^ 64 - 1 < unat ?b * unat bytes" using s by (simp add: div_less_iff_less_mult)
    finally show ?thesis by auto
  qed
  have "tensor_nbytes ty n = (if 2 ^ 64 \<le> unat ?b * unat bytes then None else Some (?b * ucast bytes))"
    using c t e0 by (simp add: tensor_nbytes_def Let_def)
  moreover have "?b * ucast bytes = of_nat (unat ?b * unat bytes)" by simp
  ultimately show ?thesis using s unfolding b Let_def by (auto simp: not_less)
qed

end
