(* ===== verification/VocabLemmas.thy ===== *)
theory VocabLemmas
  imports TokenizerLemmas GgufLemmas
begin

text \<open>
  Loading a vocabulary from an accepted model file: the loops end, every read is inside the mapping, and
  the tables hold what the arrays of the file say.
\<close>

section \<open>Loading an array of strings\<close>

lemma load_strings_ok:
  assumes f: "length f < 2 ^ 64"
  shows "table_rel t ids \<Longrightarrow> card (dom ids) + n < table_room t \<Longrightarrow>
    gpost (\<lambda>(ss, t'). length ss = n \<and> (\<exists>ids'. table_rel t' ids' \<and> dom ids' = dom ids \<union> set ss
        \<and> (\<forall>s k. ids' s = Some k \<longrightarrow> ids s = Some k \<or> (\<exists>j<n. k = num (i + j) \<and> ss ! j = s))))
      (load_strings num f i n pos t)"
proof (induction n arbitrary: i pos t ids)
  case 0
  then show ?case by auto
next
  case (Suc n)
  show ?case
    unfolding load_strings.simps
  proof (rule gpost_bind [OF gpost_read [OF rd_string.reads [OF f]]], simp only: split_paired_all prod.case)
    fix s and p :: u64
    obtain t1 where t1: "table_put t s (num i) = Some t1" "table_rel t1 (ids(s \<mapsto> num i))" "table_room t1 = table_room t"
      using tab.put_rel [OF Suc.prems(1), of s "num i"] Suc.prems(2) by auto
    have "card (dom (ids(s \<mapsto> num i))) \<le> Suc (card (dom ids))" using card_insert_le_m1 [of "Suc (card (dom ids))" "dom ids" s] by simp
    then have "card (dom (ids(s \<mapsto> num i))) + n < table_room t1" using Suc.prems(2) t1(3) by simp
    note ih = Suc.IH [OF t1(2) this, of "Suc i" p]
    have post: "\<exists>ids'. table_rel t' ids' \<and> dom ids' = dom ids \<union> set (s # ss)
        \<and> (\<forall>x k. ids' x = Some k \<longrightarrow> ids x = Some k \<or> (\<exists>j<Suc n. k = num (i + j) \<and> (s # ss) ! j = x))"
      if "table_rel t' ids'" "dom ids' = dom (ids(s \<mapsto> num i)) \<union> set ss"
        "\<forall>x k. ids' x = Some k \<longrightarrow> (ids(s \<mapsto> num i)) x = Some k \<or> (\<exists>j<n. k = num (Suc i + j) \<and> ss ! j = x)" for t' ids' ss
    proof (intro exI [of _ ids'] conjI allI impI)
      fix x k assume k: "ids' x = Some k"
      from that(3) k have "(ids(s \<mapsto> num i)) x = Some k \<or> (\<exists>j<n. k = num (Suc i + j) \<and> ss ! j = x)" by blast
      then show "ids x = Some k \<or> (\<exists>j<Suc n. k = num (i + j) \<and> (s # ss) ! j = x)"
      proof
        assume "(ids(s \<mapsto> num i)) x = Some k"
        then show ?thesis by (cases "x = s") auto
      next
        assume "\<exists>j<n. k = num (Suc i + j) \<and> ss ! j = x"
        then obtain j where "j < n" "k = num (Suc i + j)" "ss ! j = x" by blast
        then show ?thesis by (intro disjI2 exI [of _ "Suc j"]) simp
      qed
    qed (use that in auto)
    show "gpost (\<lambda>(ss, t'). length ss = Suc n \<and> (\<exists>ids'. table_rel t' ids' \<and> dom ids' = dom ids \<union> set ss
        \<and> (\<forall>s k. ids' s = Some k \<longrightarrow> ids s = Some k \<or> (\<exists>j<Suc n. k = num (i + j) \<and> ss ! j = s))))
      (case table_put t s (num i) of None \<Rightarrow> None
       | Some t' \<Rightarrow> gbind (load_strings num f (Suc i) n p t') (\<lambda>(ss, t''). gok (s # ss, t'')))"
      unfolding t1(1) option.case
    proof (rule gpost_bind [OF ih], simp only: split_paired_all prod.case gpost_simps, elim conjE exE)
      fix ss t2 ids' assume "length ss = n" "table_rel t2 ids'" "dom ids' = dom (ids(s \<mapsto> num i)) \<union> set ss"
        "\<forall>sa k. ids' sa = Some k \<longrightarrow> (ids(s \<mapsto> num i)) sa = Some k \<or> (\<exists>j<n. k = num (Suc i + j) \<and> ss ! j = sa)"
      then show "length (s # ss) = Suc n \<and> (\<exists>ids'. table_rel t2 ids' \<and> dom ids' = dom ids \<union> set (s # ss)
        \<and> (\<forall>sa k. ids' sa = Some k \<longrightarrow> ids sa = Some k \<or> (\<exists>j<Suc n. k = num (i + j) \<and> (s # ss) ! j = sa)))"
        using post by simp
    qed
  qed
qed

text \<open>The table of an array holds its strings.\<close>

definition strings_of :: "(nat \<Rightarrow> int) \<Rightarrow> string list \<times> str_i32_table \<Rightarrow> (string \<rightharpoonup> int) \<Rightarrow> bool" where
  "strings_of num r ids \<longleftrightarrow> table_rel (snd r) ids \<and> dom ids = set (fst r)
     \<and> (\<forall>s k. ids s = Some k \<longrightarrow> (\<exists>j<length (fst r). k = num j \<and> fst r ! j = s))"

lemma load_array_ok:
  assumes f: "length f < 2 ^ 64" and len: "8 * unat (ar_len a) \<le> length f"
  shows "gpost (\<lambda>r. length (fst r) = unat (ar_len a) \<and> (\<exists>ids. strings_of num r ids)) (load_array num f a)"
proof -
  have "unat (ar_len a) < 2 ^ 61" using assms by simp
  from table_init_rel [OF this] obtain t where t: "table_init (ar_len a) = Some t" "table_rel t Map.empty"
    "2 * unat (ar_len a) + 16 \<le> table_room t" by blast
  have "card (dom (Map.empty :: string \<rightharpoonup> int)) + unat (ar_len a) < table_room t" using t(3) by simp
  note l = load_strings_ok [OF f t(2) this, of num 0 "ar_data_pos a"]
  show ?thesis unfolding load_array_def t(1) option.case
    by (rule gpost_mono [OF l]) (auto simp: strings_of_def)
qed

lemma string_array_ok:
  assumes f: "length f < 2 ^ 64" and m: "model_ok f m"
  shows "gpost (\<lambda>a. ok a \<and> 8 * unat (ar_len a) \<le> length f) (string_array m key ok msg)"
proof -
  have mm: "m_map m = f" "\<forall>kv\<in>set (m_kv m). kv_ok f kv" using m by (simp_all add: model_ok_def)
  show ?thesis
  proof (cases "model_get_array m key = Some None")
    case False
    then obtain kv where kv: "model_find_kv m key = Some kv" "kv_type kv = GGUF_VALUE_ARRAY"
      by (auto simp: model_get_array_def model_get_def split: option.splits if_splits)
    have "kv_ok f kv" using find_kv_in [OF kv(1)] mm(2) by blast
    then show ?thesis
    proof (rule kv_ok_array [OF _ kv(2)])
      fix ty p len q assume a: "cursor_u32 f (kv_value_pos kv) = gok (ty, p)" "cursor_u64 f p = gok (len, q)"
        and w: "ty = GGUF_VALUE_STRING \<Longrightarrow> \<exists>e. skip_items (skip_string f) (unat len) q = gok e"
      have q: "unat q \<le> length f" by (rule rd_u64.read_cases [OF f, of p]) (use a(2) in auto)
      have "ty = GGUF_VALUE_STRING \<Longrightarrow> 8 * unat len \<le> length f" using w strings_bound [OF f _ q] by blast
      moreover have "model_get_array m key = Some (Some \<lparr>ar_type = ty, ar_len = len, ar_data_pos = q\<rparr>)"
        using kv a mm(1) by (simp add: model_get_array_def model_get_def)
      ultimately show ?thesis by (simp add: string_array_def)
    qed
  qed (simp add: string_array_def)
qed

lemma vocab_lookup_ok: "table_rel t ids \<Longrightarrow> gpost (\<lambda>i. ids s = Some i) (vocab_lookup t s)"
  using tab.get_rel [of t ids s] by (cases "ids s") (simp_all add: vocab_lookup_def)

theorem vocab_load_ok:
  assumes f: "length f < 2 ^ 64" and m: "model_ok f m"
  shows "gpost vocab_tables (vocab_load m)"
proof -
  have mm: "m_map m = f" using m by (simp add: model_ok_def)
  show ?thesis
    unfolding vocab_load_def mm
  proof (rule gpost_bind [OF string_array_ok [OF f m]], rule gpost_bind [OF string_array_ok [OF f m]],
      rule gpost_bind [OF load_array_ok [OF f]], blast, simp only: split_paired_all prod.case fst_conv snd_conv,
      rule gpost_bind [OF load_array_ok [OF f]], blast, simp only: split_paired_all prod.case fst_conv snd_conv, elim conjE exE)
    fix tokens :: ds4_array_ref and toks ids_t merges_l ranks_t ids ranks
    assume i: "strings_of int (toks, ids_t) ids"
      and r: "strings_of (\<lambda>i. sint (of_nat i :: u32)) (merges_l, ranks_t) ranks"
    have t: "table_rel ids_t ids" using i by (simp add: strings_of_def)
    show "gpost vocab_tables (gbind (vocab_lookup ids_t BOS_TEXT) (\<lambda>bos. gbind (vocab_lookup ids_t EOS_TEXT) (\<lambda>eos.
       gbind (vocab_lookup ids_t USER_TEXT) (\<lambda>user. gbind (vocab_lookup ids_t ASSISTANT_TEXT) (\<lambda>assistant.
       gbind (vocab_lookup ids_t ''<think>'') (\<lambda>think_start. gbind (vocab_lookup ids_t ''</think>'') (\<lambda>think_end.
       gbind (vocab_lookup ids_t DS4_DSML) (\<lambda>dsml.
       gok \<lparr>v_token = toks, v_bos_id = bos, v_eos_id = eos, v_user_id = user, v_assistant_id = assistant,
            v_think_start_id = think_start, v_think_end_id = think_end, v_dsml_id = dsml,
            v_token_to_id = ids_t, v_merge_rank = ranks_t\<rparr>))))))))"
    proof (rule gpost_bind [OF vocab_lookup_ok [OF t]], rule gpost_bind [OF vocab_lookup_ok [OF t]],
        rule gpost_bind [OF vocab_lookup_ok [OF t]], rule gpost_bind [OF vocab_lookup_ok [OF t]],
        rule gpost_bind [OF vocab_lookup_ok [OF t]], rule gpost_bind [OF vocab_lookup_ok [OF t]],
        rule gpost_bind [OF vocab_lookup_ok [OF t]], simp only: gpost_simps)
      fix bos eos user assistant ts te dsml
      assume s: "ids BOS_TEXT = Some bos" "ids EOS_TEXT = Some eos" "ids USER_TEXT = Some user" "ids ASSISTANT_TEXT = Some assistant"
        "ids ''<think>'' = Some ts" "ids ''</think>'' = Some te" "ids DS4_DSML = Some dsml"
      have "0 \<le> k \<and> k < int (length toks) \<and> toks ! nat k = x" if "ids x = Some k" for x k
      proof -
        from i that have "\<exists>j<length toks. k = int j \<and> toks ! j = x" by (simp add: strings_of_def)
        then show ?thesis by auto
      qed
      then show "vocab_tables \<lparr>v_token = toks, v_bos_id = bos, v_eos_id = eos, v_user_id = user, v_assistant_id = assistant,
            v_think_start_id = ts, v_think_end_id = te, v_dsml_id = dsml, v_token_to_id = ids_t, v_merge_rank = ranks_t\<rparr>"
        unfolding vocab_tables_def using i r s
        by (intro exI [of _ ids] exI [of _ ranks]) (simp add: strings_of_def specials_def)
    qed
  qed
qed

section \<open>The best pair\<close>

definition pair_rank :: "ds4_vocab \<Rightarrow> string list \<Rightarrow> nat \<Rightarrow> int" where
  "pair_rank v syms k = the (bpe_rank v (syms ! k) (syms ! Suc k))"

text \<open>A pair is a candidate below a bound.\<close>

definition ranked :: "ds4_vocab \<Rightarrow> string list \<Rightarrow> int \<Rightarrow> nat \<Rightarrow> bool" where
  "ranked v syms bound k \<longleftrightarrow> Suc k < length syms \<and> 0 \<le> pair_rank v syms k \<and> pair_rank v syms k < bound"

definition leftmost_best :: "ds4_vocab \<Rightarrow> string list \<Rightarrow> int \<Rightarrow> nat \<Rightarrow> bool" where
  "leftmost_best v syms bound j \<longleftrightarrow> ranked v syms bound j
     \<and> (\<forall>k. ranked v syms bound k \<longrightarrow> pair_rank v syms j < pair_rank v syms k \<or> pair_rank v syms j = pair_rank v syms k \<and> j \<le> k)"

lemma pair_rank_Cons [simp]: "pair_rank v (a # syms) (Suc k) = pair_rank v syms k"
  by (simp add: pair_rank_def)

lemma ranked_Cons: "ranked v (a # b # syms) bound k \<longleftrightarrow>
    (case k of 0 \<Rightarrow> 0 \<le> the (bpe_rank v a b) \<and> the (bpe_rank v a b) < bound | Suc k \<Rightarrow> ranked v (b # syms) bound k)"
  by (cases k) (auto simp: ranked_def pair_rank_def)

lemma leftmost_Cons:
  assumes "leftmost_best v (b # syms) bound' j" "bound' \<le> bound"
    "\<forall>k. ranked v (b # syms) bound k \<longrightarrow> ranked v (b # syms) bound' k \<or> bound' \<le> pair_rank v (b # syms) k"
    "0 \<le> the (bpe_rank v a b) \<Longrightarrow> bound' \<le> the (bpe_rank v a b)"
  shows "leftmost_best v (a # b # syms) bound (Suc j)"
proof -
  have j: "ranked v (b # syms) bound' j" using assms(1) by (simp add: leftmost_best_def)
  then have lt: "pair_rank v (b # syms) j < bound'" by (simp add: ranked_def)
  have "pair_rank v (b # syms) j < pair_rank v (a # b # syms) k \<or>
      pair_rank v (b # syms) j = pair_rank v (a # b # syms) k \<and> Suc j \<le> k" if k: "ranked v (a # b # syms) bound k" for k
  proof (cases k)
    case 0
    then show ?thesis using k lt assms(4)  by (simp add: ranked_def pair_rank_def)
  next
    case (Suc k')
    then have "ranked v (b # syms) bound k'" using k by (simp add: ranked_Cons)
    then consider "ranked v (b # syms) bound' k'" | "bound' \<le> pair_rank v (b # syms) k'" using assms(3) by blast
    then show ?thesis
    proof cases
      case 1
      then show ?thesis using assms(1) Suc by (simp add: leftmost_best_def)
    next
      case 2
      then show ?thesis using lt Suc by simp
    qed
  qed
  moreover have "ranked v (a # b # syms) bound (Suc j)" using j assms(2) by (simp add: ranked_def)
  ultimately show ?thesis by (simp add: leftmost_best_def)
qed

lemma best_pair_least:
  assumes t: "table_rel (v_merge_rank v) ranks"
  shows "\<exists>r. best_pair v syms i bound best = Some r
    \<and> (r = best \<and> (\<forall>k. \<not> ranked v syms bound k) \<or> (\<exists>j. r = Some (i + j) \<and> leftmost_best v syms bound j))"
proof (induction syms arbitrary: i bound best rule: induct_list012)
  case (3 a b syms)
  obtain rank where rank: "bpe_rank v a b = Some rank" by (simp add: bpe_rank_def tab.get_rel [OF t])
  let ?c = "0 \<le> rank \<and> rank < bound"
  let ?bound = "if ?c then rank else bound" and ?best = "if ?c then Some i else best"
  obtain r where r: "best_pair v (b # syms) (Suc i) ?bound ?best = Some r"
    "r = ?best \<and> (\<forall>k. \<not> ranked v (b # syms) ?bound k) \<or> (\<exists>j. r = Some (Suc i + j) \<and> leftmost_best v (b # syms) ?bound j)"
    using 3(2) by blast
  have e: "best_pair v (a # b # syms) i bound best = Some r" using rank r(1) by (cases ?c) auto
  from r(2) show ?case
  proof (elim disjE conjE exE)
    fix j assume j: "r = Some (Suc i + j)" "leftmost_best v (b # syms) ?bound j"
    have "leftmost_best v (a # b # syms) bound (Suc j)"
      by (rule leftmost_Cons [OF j(2)]) (auto simp: rank ranked_def)
    then show ?thesis using e j(1) by auto
  next
    assume n: "r = ?best" "\<forall>k. \<not> ranked v (b # syms) ?bound k"
    show ?thesis
    proof (cases ?c)
      case True
      have "leftmost_best v (a # b # syms) bound 0"
        unfolding leftmost_best_def
      proof (intro conjI allI impI)
        show "ranked v (a # b # syms) bound 0" using True rank by (simp add: ranked_def pair_rank_def)
        fix k assume k: "ranked v (a # b # syms) bound k"
        have p0: "pair_rank v (a # b # syms) 0 = rank" using rank by (simp add: pair_rank_def)
        show "pair_rank v (a # b # syms) 0 < pair_rank v (a # b # syms) k
          \<or> pair_rank v (a # b # syms) 0 = pair_rank v (a # b # syms) k \<and> 0 \<le> k"
        proof (cases k)
          case (Suc k')
          have "\<not> ranked v (b # syms) rank k'" using n(2) True by simp
          then show ?thesis using k Suc p0 by (simp add: ranked_def) linarith
        qed simp
      qed
      then show ?thesis using e n(1) True by auto
    next
      case False
      have "\<forall>k. \<not> ranked v (a # b # syms) bound k" using n(2) False rank by (auto simp: ranked_Cons split: nat.splits)
      then show ?thesis using e n(1) False by auto
    qed
  qed
qed (auto simp: ranked_def)

section \<open>Special tokens\<close>

text \<open>The markers of a chat contain a byte that no encoding of bytes has.\<close>

lemma marker_not_plain:
  assumes "vocab_ok v" "(t, i) \<in> set (specials v)" "strstr t BAR"
  shows "\<not> plain_token v i"
proof
  assume p: "plain_token v i"
  obtain ids where ids: "\<forall>(t, i)\<in>set (specials v). ids t = Some i"
    "\<forall>s i. ids s = Some i \<longrightarrow> 0 \<le> i \<and> i < int (length (v_token v)) \<and> v_token v ! nat i = s"
    using assms(1) by (rule vocab_okE)
  have "ids t = Some i" using ids(1) assms(2) by blast
  then have "v_token v ! nat i = t" using ids(2) by blast
  then obtain q where "t = concat (map enc q)" using p by (auto simp: plain_token_def)
  then show False using enc_plain assms(3) by (simp add: vocab_token_is_literal_special_def)
qed

definition control_ids :: "ds4_vocab \<Rightarrow> int set" where
  "control_ids v = {v_bos_id v, v_eos_id v, v_user_id v, v_assistant_id v, v_dsml_id v}"

lemma control_not_plain: "vocab_ok v \<Longrightarrow> i \<in> control_ids v \<Longrightarrow> \<not> plain_token v i"
proof -
  assume v: "vocab_ok v" and i: "i \<in> control_ids v"
  have "strstr BOS_TEXT BAR" "strstr EOS_TEXT BAR" "strstr USER_TEXT BAR" "strstr ASSISTANT_TEXT BAR" "strstr DS4_DSML BAR"
    by code_simp+
  moreover have "(BOS_TEXT, v_bos_id v) \<in> set (specials v)" "(EOS_TEXT, v_eos_id v) \<in> set (specials v)"
    "(USER_TEXT, v_user_id v) \<in> set (specials v)" "(ASSISTANT_TEXT, v_assistant_id v) \<in> set (specials v)"
    "(DS4_DSML, v_dsml_id v) \<in> set (specials v)" by (simp_all add: specials_def)
  ultimately show ?thesis using i marker_not_plain [OF v] unfolding control_ids_def by blast
qed

section \<open>Chat messages\<close>

text \<open>A tool result is escaped like the server escapes it in a rendered prompt.\<close>

lemma tool_loop_reads:
  assumes "vocab_ok v"
  shows "reads_as v (plain_token v) (tool_result_loop v sp p) (sp @ append_tool_result_text p)"
proof (induction p arbitrary: sp)
  case Nil
  then show ?case using span_plain [OF assms] by (simp add: append_tool_result_text_def)
next
  case (Cons c p)
  have l: "length ''</tool_result>'' = 14" by simp
  show ?case
    using reads_oapp [OF span_plain [OF assms, of sp] reads_oapp [OF tokenize_reads [OF assms, of "''&lt;''"] Cons.IH [of "[]"]]]
      Cons.IH [of "sp @ [c]"] by (simp add: append_tool_result_text_def l del: list.size)
qed

lemma plain_valid: "reads_as v (plain_token v) r s \<Longrightarrow> reads_as v (valid_token v) r s"
  by (erule reads_weak) (simp add: plain_token_def)

lemma marker_reads:
  assumes "vocab_ok v"
  shows "reads_as v (valid_token v) (Some [v_bos_id v]) BOS_TEXT" "reads_as v (valid_token v) (Some [v_user_id v]) USER_TEXT"
    "reads_as v (valid_token v) (Some [v_assistant_id v]) ASSISTANT_TEXT"
    "reads_as v (valid_token v) (Some [v_think_start_id v]) ''<think>''"
    "reads_as v (valid_token v) (Some [v_think_end_id v]) ''</think>''"
  using special_id_reads [OF assms] by (simp_all add: specials_def)

end
