(* ===== verification/GgufProps.thy ===== *)
theory GgufProps
  imports VocabLemmas
begin

text \<open>The properties of the model-file reader and of loading a vocabulary from it.\<close>

section \<open>A small file\<close>

text \<open>Version 3, the metadata string \<^verbatim>\<open>k\<close> with the value \<^verbatim>\<open>hi\<close>, and one tensor \<^verbatim>\<open>w\<close> of four 32-bit floats.\<close>

definition sample_file :: "byte list" where
  "sample_file =
    [71, 71, 85, 70, 3, 0, 0, 0, 1, 0, 0, 0, 0, 0, 0, 0, 1, 0, 0, 0, 0, 0, 0, 0, 1, 0, 0, 0, 0, 0, 0, 0, 107, 8, 0,
     0, 0, 2, 0, 0, 0, 0, 0, 0, 0, 104, 105, 1, 0, 0, 0, 0, 0, 0, 0, 119, 1, 0, 0, 0, 4, 0, 0, 0, 0, 0, 0, 0, 0, 0,
     0, 0, 0, 0, 0, 0, 0, 0, 0, 0, 0, 0, 0, 0, 0, 0, 0, 0, 0, 0, 0, 0, 0, 0, 0, 0, 1, 2, 3, 4, 5, 6, 7, 8, 9, 10, 11,
     12, 13, 14, 15, 16]"

definition sample_model :: ds4_model where
  "sample_model = \<lparr>m_map = sample_file, m_version = 3, m_alignment = 32, m_tensor_data_pos = 96, m_max_tensor_bytes = 16,
     m_kv = [\<lparr>kv_key = ''k'', kv_type = 8, kv_value_pos = 37\<rparr>],
     m_tensors = [\<lparr>t_name = ''w'', t_dims = [4], t_type = 0, t_rel_offset = 0, t_abs_offset = 96,
       t_elements = 4, t_bytes = 16\<rparr>]\<rparr>"

lemma sample_opens: "model_open (\<lambda>_. True) sample_file = gok sample_model"
  by code_simp

lemma sample_length: "length sample_file < 2 ^ 64"
  by (simp add: sample_file_def)

text \<open>The same file with the largest count of elements, of the type \<^verbatim>\<open>q4_0\<close>, and no tensor data.\<close>

definition huge_file :: "byte list" where
  "huge_file =
    [71, 71, 85, 70, 3, 0, 0, 0, 1, 0, 0, 0, 0, 0, 0, 0, 1, 0, 0, 0, 0, 0, 0, 0, 1, 0, 0, 0, 0, 0, 0, 0, 107, 8, 0,
     0, 0, 2, 0, 0, 0, 0, 0, 0, 0, 104, 105, 1, 0, 0, 0, 0, 0, 0, 0, 119, 1, 0, 0, 0, 255, 255, 255, 255, 255, 255,
     255, 255, 2, 0, 0, 0, 0, 0, 0, 0, 0, 0, 0, 0, 0, 0, 0, 0, 0, 0, 0, 0, 0, 0, 0, 0, 0, 0, 0, 0]"

section \<open>Safety\<close>

text \<open>C6: Opening a model file reads nothing outside the file, whatever the file holds: it ends with an
  error or with a model. In a model the alignment is not 0, every tensor has the exact product of its
  1 to 8 dimensions as its number of elements, begins at its offset behind the directory without
  wrap-around, and lies inside the file if it has bytes.\<close>

theorem model_open_safe:
  assumes "length f < 2 ^ 64"
  shows "\<exists>r. model_open mok f = Some r \<and> (\<forall>m. r = Inr m \<longrightarrow> m_map m = f \<and> m_alignment m \<noteq> 0
    \<and> (\<forall>t\<in>set (m_tensors m). 1 \<le> length (t_dims t) \<and> length (t_dims t) \<le> 8
        \<and> unat (t_elements t) = prod_list (map unat (t_dims t))
        \<and> unat (t_abs_offset t) = unat (m_tensor_data_pos m) + unat (t_rel_offset t)
        \<and> (t_bytes t \<noteq> 0 \<longrightarrow> unat (t_abs_offset t) + unat (t_bytes t) \<le> length f)
        \<and> t_bytes t \<le> m_max_tensor_bytes m))"
  using model_open_ok [OF assms, of mok] by (auto simp: gpost_def model_ok_def tensor_read_def placed_def Suc_le_eq)

theorem model_open_safe_witness:
  "96 + unat (t_bytes (hd (m_tensors sample_model))) \<le> length sample_file"
  using model_open_safe [OF sample_length, of "\<lambda>_. True"] unfolding sample_opens by (simp add: sample_model_def)

text \<open>C30: An accepted file can be read: reading a metadata key as a string, a number, a truth value or an
  array stays inside the file, and finds a value when the key is there with the wanted type.\<close>

theorem metadata_readable:
  assumes "length f < 2 ^ 64" "model_open mok f = gok m"
  shows "(model_get_string m key \<noteq> None \<and> model_get_u32 m key \<noteq> None \<and> model_get_u64_compat m key \<noteq> None
      \<and> model_get_bool m key \<noteq> None \<and> model_get_array m key \<noteq> None)
    \<and> (case model_find_kv m key of None \<Rightarrow> True | Some kv \<Rightarrow>
       if kv_type kv = GGUF_VALUE_STRING then \<exists>s. model_get_string m key = Some (Some s)
       else if kv_type kv = GGUF_VALUE_UINT32 then \<exists>w. model_get_u32 m key = Some (Some w)
       else if kv_type kv = GGUF_VALUE_UINT64 then \<exists>w. model_get_u64_compat m key = Some (Some w)
       else if kv_type kv = GGUF_VALUE_BOOL then \<exists>b. model_get_bool m key = Some (Some b)
       else kv_type kv = GGUF_VALUE_ARRAY \<longrightarrow> (\<exists>a. model_get_array m key = Some (Some a)))"
proof -
  have m: "model_ok f m" using model_open_ok [OF assms(1), of mok] assms(2) by simp
  show ?thesis using getters_return [OF assms(1) m, of key] getters_find [OF assms(1) m, of key]
    by (auto split: option.splits)
qed

theorem metadata_readable_witness: "\<exists>s. model_get_string sample_model ''k'' = Some (Some s)"
  using metadata_readable [OF sample_length sample_opens, of "''k''"]
  by (simp add: sample_model_def model_find_kv_def value_types)

text \<open>The size of a tensor is exact as long as rounding up to whole blocks does not wrap: the number of
  blocks times the bytes of a block, refused when it does not fit 64 bits.\<close>

theorem tensor_nbytes_exact:
  assumes "tensor_type ty = Some (name, elems, bytes)" "unat n + unat elems \<le> 2 ^ 64"
  shows "0 < unat elems \<and> 0 < unat bytes \<and>
    (let size = (unat n + unat elems - 1) div unat elems * unat bytes in
     tensor_nbytes ty n = (if size < 2 ^ 64 then Some (of_nat size) else None))"
  by (rule nbytes_exact [OF assms])

theorem tensor_nbytes_exact_witness: "tensor_nbytes 2 33 = Some 36"
proof -
  have "tensor_type 2 = Some (''q4_0'', 32, 18)" by (simp add: tensor_type_def gguf_types_def)
  from tensor_nbytes_exact [OF this, of 33] show ?thesis by simp
qed

text \<open>When it wraps, the check is void: a file without tensor data is accepted with a quantized tensor
  of 2 ^ 64 - 1 elements, whose size is taken to be 0 bytes.\<close>

theorem huge_tensor_accepted:
  "model_open (\<lambda>_. True) huge_file =
     gok (sample_model\<lparr>m_map := huge_file, m_max_tensor_bytes := 0,
       m_tensors := [\<lparr>t_name = ''w'', t_dims = [2 ^ 64 - 1], t_type = 2, t_rel_offset = 0, t_abs_offset = 96,
         t_elements = 2 ^ 64 - 1, t_bytes = 0\<rparr>]\<rparr>)"
  by code_simp

section \<open>The vocabulary of a file\<close>

text \<open>C23: Loading the vocabulary of an accepted file ends, with an error or with a vocabulary, and reads
  nothing outside the file: no probe of its hash tables runs for ever. The table of tokens then finds
  exactly the tokens, under a number where the token is, and the special tokens under their numbers.\<close>

theorem vocab_load_ends:
  assumes "length f < 2 ^ 64" "model_open mok f = gok m"
  shows "\<exists>r. vocab_load m = Some r \<and> (\<forall>v. r = Inr v \<longrightarrow>
    (\<forall>s. case table_get (v_token_to_id v) s of
        None \<Rightarrow> False
      | Some None \<Rightarrow> s \<notin> set (v_token v)
      | Some (Some i) \<Rightarrow> 0 \<le> i \<and> i < int (length (v_token v)) \<and> v_token v ! nat i = s)
    \<and> (\<forall>(t, i)\<in>set (specials v). table_get (v_token_to_id v) t = Some (Some i))
    \<and> (\<forall>s. table_get (v_merge_rank v) s \<noteq> None))"
proof -
  have m: "model_ok f m" using model_open_ok [OF assms(1), of mok] assms(2) by simp
  obtain r where r: "vocab_load m = Some r" "\<And>v. r = Inr v \<Longrightarrow> vocab_tables v"
    using vocab_load_ok [OF assms(1) m] by (auto simp: gpost_def)
  show ?thesis
  proof (intro exI [of _ r] conjI allI impI)
    fix v assume "r = Inr v"
    from r(2) [OF this] obtain ids ranks where t: "table_rel (v_token_to_id v) ids" "table_rel (v_merge_rank v) ranks"
      "dom ids = set (v_token v)" "\<forall>s i. ids s = Some i \<longrightarrow> 0 \<le> i \<and> i < int (length (v_token v)) \<and> v_token v ! nat i = s"
      "\<forall>(t, i)\<in>set (specials v). ids t = Some i" unfolding vocab_tables_def by blast
    note g = tab.get_rel [OF t(1)]
    show "case table_get (v_token_to_id v) s of None \<Rightarrow> False | Some None \<Rightarrow> s \<notin> set (v_token v)
      | Some (Some i) \<Rightarrow> 0 \<le> i \<and> i < int (length (v_token v)) \<and> v_token v ! nat i = s" for s
      using t(3,4) by (cases "ids s") (auto simp: g)
    show "\<forall>(t, i)\<in>set (specials v). table_get (v_token_to_id v) t = Some (Some i)" using t(5) by (auto simp: g)
    show "table_get (v_merge_rank v) s \<noteq> None" for s by (simp add: tab.get_rel [OF t(2)])
  qed (rule r(1))
qed

theorem vocab_load_ends_witness: "vocab_load sample_model \<noteq> None"
  using vocab_load_ends [OF sample_length sample_opens] by auto

end
