(* ===== verification/TokenizerMarks.thy ===== *)
theory TokenizerMarks
  imports TokenizerLemmas "HOL-Library.Sublist"
begin

text \<open>
  Where a text is cut. No piece holds \<open>ink>\<close>: a letter is never followed by a closing angle in one
  piece. So no token of a piece is spelled \<open><think>\<close> or \<open></think>\<close>, even when these are single
  entries of the vocabulary and the text says them.
\<close>

section \<open>Runs\<close>

definition ink_at :: "string \<Rightarrow> nat \<Rightarrow> bool" where
  "ink_at s i \<longleftrightarrow> i + 3 < length s \<and> ord (s ! i) = 105 \<and> ord (s ! (i + 1)) = 110 \<and> ord (s ! (i + 2)) = 107
     \<and> ord (s ! (i + 3)) = 62"

lemma next_utf8_le: "next_utf8_char s \<le> 4" "1 < next_utf8_char s \<Longrightarrow> 128 \<le> ord (hd s)"
  by (auto simp: next_utf8_char_def utf8_len_from_first_byte_def Let_def split: if_splits)

lemma byte_run_all: "m < byte_run ok s \<Longrightarrow> ok (s ! m)"
  unfolding byte_run_def by (metis nth_mem set_takeWhileD takeWhile_nth)

text \<open>A closing angle is part of a run of letters only as a byte of a longer character.\<close>

lemma char_run_angle:
  assumes "\<And>t. t \<noteq> [] \<Longrightarrow> ok t \<Longrightarrow> 128 \<le> ord (hd t) \<or> ascii_alpha (hd t)"
    and "m < char_run ok s" "m < length s" "ord (s ! m) = 62"
  shows "\<exists>j<m. m \<le> j + 3 \<and> 128 \<le> ord (s ! j)"
  using assms
proof (induction ok s arbitrary: m rule: char_run.induct)
  case (1 ok s)
  let ?n = "next_utf8_char s"
  have go: "s \<noteq> []" "ok s" using 1(3) by (auto simp: char_run.simps [of ok s] split: if_splits)
  have h: "hd s = s ! 0" using go(1) by (simp add: hd_conv_nth)
  show ?case
  proof (cases "m < ?n")
    case True
    have "m \<noteq> 0" using 1(2) [OF go] 1(5) h by (cases m) (auto simp: ascii_alpha_def)
    then show ?thesis using True next_utf8_le [of s] h by (intro exI [of _ 0]) auto
  next
    case False
    then have m: "m = ?n + (m - ?n)" by simp
    have "m - ?n < char_run ok (drop ?n s)" using 1(3) False go by (simp add: char_run.simps [of ok s])
    moreover have "m - ?n < length (drop ?n s)" "ord (drop ?n s ! (m - ?n)) = 62" using 1(4,5) False by simp_all
    ultimately obtain j where j: "j < m - ?n" "m - ?n \<le> j + 3" "128 \<le> ord (drop ?n s ! j)"
      using 1(1) [of "m - ?n"] 1(2) go by blast
    then have "128 \<le> ord (s ! (?n + j))" using 1(4) by simp
    then show ?thesis using j False by (intro exI [of _ "?n + j"]) auto
  qed
qed

lemma letters_no_ink:
  assumes "\<And>t. t \<noteq> [] \<Longrightarrow> ok t \<Longrightarrow> 128 \<le> ord (hd t) \<or> ascii_alpha (hd t)" "k \<le> 1"
    and "ink_at s i" "i + 3 < k + char_run ok (drop k s)"
  shows False
proof -
  have p: "i + 3 - k < char_run ok (drop k s)" "i + 3 - k < length (drop k s)" "ord (drop k s ! (i + 3 - k)) = 62"
    using assms(2-4) by (auto simp: ink_at_def)
  obtain j where j: "j < i + 3 - k" "i + 3 - k \<le> j + 3" "128 \<le> ord (drop k s ! j)"
    using char_run_angle [of ok, OF assms(1) p] by blast
  moreover have "k \<le> length s" using assms(2,3) by (simp add: ink_at_def)
  ultimately have "128 \<le> ord (s ! (k + j))" by simp
  moreover have "k + j = i \<or> k + j = i + 1 \<or> k + j = i + 2" using j assms(2) by linarith
  ultimately show False using assms(3) by (auto simp: ink_at_def)
qed

lemma punct_run_all: "m < punct_run s \<Longrightarrow> joyai_ascii_punct_symbol (s ! m) \<or> ascii_newline (s ! m)"
proof -
  let ?n = "byte_run joyai_ascii_punct_symbol s"
  assume "m < punct_run s"
  then consider "m < ?n" | "?n \<le> m" "m - ?n < byte_run ascii_newline (drop ?n s)"
    unfolding punct_run_def Let_def by linarith
  then show ?thesis
  proof cases
    case 2
    then have "ascii_newline (drop ?n s ! (m - ?n))" using byte_run_all by blast
    moreover have "?n \<le> length s" by (simp add: byte_run_def length_takeWhile_le)
    ultimately show ?thesis using 2(1) by simp
  qed (use byte_run_all in blast)
qed

lemma space_scan_all:
  "space_scan s p e = (p', e') \<Longrightarrow> e \<le> p \<Longrightarrow>
     e' \<le> p' \<and> p \<le> p' \<and> (\<forall>m. m < p' - p \<longrightarrow> ascii_space (s ! m))"
proof (induction s p e rule: space_scan.induct)
  case (2 c s p e)
  show ?case
  proof (cases "ascii_space c")
    case True
    have "e' \<le> p' \<and> Suc p \<le> p' \<and> (\<forall>m. m < p' - Suc p \<longrightarrow> ascii_space (s ! m))"
      using 2(1) [OF True] 2(2,3) True by simp
    then show ?thesis using True by (auto simp: nth_Cons split: nat.splits)
  qed (use 2 in auto)
qed auto

section \<open>Pieces\<close>

lemma piece_no_ink:
  assumes "ink_at s i"
  shows "piece_len s \<le> i + 3"
proof (rule ccontr)
  assume "\<not> piece_len s \<le> i + 3"
  then have n: "i + 3 < piece_len s" by simp
  have l: "i + 3 < length s" "s \<noteq> []" using assms by (auto simp: ink_at_def)
  have tl_nth: "tl s ! m = s ! Suc m" for m using l(2) by (cases s) auto
  have k: "ord (s ! (i + 2)) = 107" "ord (s ! (i + 3)) = 62" using assms by (auto simp: ink_at_def)
  have one: False if "i + 3 < next_utf8_char s"
  proof -
    have "i = 0" "1 < next_utf8_char s" using that next_utf8_le(1) [of s] by auto
    then show False using next_utf8_le(2) [of s] assms l(2) by (simp add: ink_at_def hd_conv_nth)
  qed
  have digits: False if "i + 3 < byte_run ascii_digit (take 3 s)"
    using that length_takeWhile_le [of ascii_digit "take 3 s"] by (simp add: byte_run_def)
  have cjk: False if "i + 3 < char_run joyai_cjk_at s"
    by (rule letters_no_ink [of joyai_cjk_at 0, OF _ _ assms]) (use that in \<open>auto simp: joyai_cjk_at_def\<close>)
  have alpha: False if "i + 3 < 1 + byte_run ascii_alpha (tl s)"
    using byte_run_all [of "i + 2" ascii_alpha "tl s"] that k by (simp add: tl_nth eval_nat_numeral ascii_alpha_def)
  have lt: "\<And>t. t \<noteq> [] \<Longrightarrow> joyai_letter_like_at t \<Longrightarrow> 128 \<le> ord (hd t) \<or> ascii_alpha (hd t)"
    by (auto simp: joyai_letter_like_at_def split: if_splits)
  have letters: False if "i + 3 < joyai_consume_letters s"
    by (rule letters_no_ink [of joyai_letter_like_at 0, OF lt _ assms]) (use that in \<open>simp_all add: joyai_consume_letters_def\<close>)
  have letters1: False if "i + 3 < 1 + joyai_consume_letters (tl s)"
    by (rule letters_no_ink [of joyai_letter_like_at 1, OF lt _ assms])
      (use that in \<open>simp_all add: joyai_consume_letters_def drop_Suc\<close>)
  have punct1: False if "i + 3 < 1 + punct_run (tl s)"
    using punct_run_all [of "i + 1" "tl s"] that k
    by (simp add: tl_nth eval_nat_numeral joyai_ascii_punct_symbol_def ascii_newline_def)
  have punct: False if "i + 3 < punct_run s"
    using punct_run_all [of "i + 2" s] that k by (simp add: joyai_ascii_punct_symbol_def ascii_newline_def)
  obtain p e where pe: "space_scan s 0 0 = (p, e)" by (cases "space_scan s 0 0")
  have space: "\<not> i + 3 < x" if "x \<le> p \<or> x \<le> e" for x
    using space_scan_all [OF pe] that k by (auto simp: ascii_space_def dest!: spec [of _ "i + 3"])
  have spaces: "i + 3 < p \<Longrightarrow> False" "i + 3 < e \<Longrightarrow> False" "i + 3 < p - 1 \<Longrightarrow> False"
    using space [of p] space [of e] space [of "p - 1"] by auto
  show False
    using n one digits cjk alpha letters letters1 punct1 punct spaces
    unfolding piece_len_def Let_def pe prod.case
    by (auto split: if_splits)
qed

text \<open>A text without \<open>ink>\<close>; so are its parts.\<close>

definition no_mark :: "string \<Rightarrow> bool" where
  "no_mark q \<longleftrightarrow> \<not> sublist ''ink>'' q"

lemma no_mark_sublist: "no_mark q \<Longrightarrow> sublist p q \<Longrightarrow> no_mark p"
  unfolding no_mark_def using sublist_order.order_trans by blast

lemma piece_no_mark: "no_mark (take (piece_len s) s)"
proof -
  have False if sub: "sublist ''ink>'' (take (piece_len s) s)"
  proof -
    obtain a b where ab: "take (piece_len s) s = a @ ''ink>'' @ b" using sub unfolding sublist_def by blast
    then have "s = (a @ ''ink>'' @ b) @ drop (piece_len s) s" by (metis append_take_drop_id)
    then have s: "s = a @ ''ink>'' @ b @ drop (piece_len s) s" by simp
    have "ink_at (a @ ''ink>'' @ c) (length a)" for c by (simp add: ink_at_def nth_append ord_def)
    then have "ink_at s (length a)" using s by metis
    moreover have "length a + 4 \<le> piece_len s" using arg_cong [OF ab, of length] by simp
    ultimately show False using piece_no_ink by fastforce
  qed
  then show ?thesis by (auto simp: no_mark_def)
qed

section \<open>Tokens\<close>

definition text_token :: "ds4_vocab \<Rightarrow> int \<Rightarrow> bool" where
  "text_token v t \<longleftrightarrow> plain_token v t \<and> (\<exists>q. v_token v ! nat t = concat (map enc q) \<and> no_mark q)"

lemma emit_piece_text:
  assumes "vocab_ok v" "no_mark s"
  shows "reads_as v (text_token v) (bpe_emit_piece v s) s"
proof -
  obtain toks where t: "bpe_emit_piece v s = Some toks" "concat (map (ds4_token_text v) toks) = s" "\<forall>t\<in>set toks. plain_token v t"
    using emit_piece_reads [OF assms(1), of s] by (auto simp: reads_as_def)
  have "text_token v t" if tt: "t \<in> set toks" for t
  proof -
    obtain q where q: "v_token v ! nat t = concat (map enc q)" using t(3) tt by (auto simp: plain_token_def)
    have "0 \<le> t \<and> t < int (length (v_token v))" using t(3) tt by (auto simp: plain_token_def valid_token_def)
    then have "ds4_token_text v t = q" using q by (simp add: ds4_token_text_def Let_def enc_plain decode_enc)
    moreover obtain xs ys where "toks = xs @ t # ys" using split_list [OF tt] by blast
    ultimately have "sublist q s" using t(2) by (auto simp: sublist_def)
    then show ?thesis using q t(3) tt no_mark_sublist [OF assms(2)] by (auto simp: text_token_def)
  qed
  then show ?thesis using t by (auto simp: reads_as_def)
qed

lemma tokenize_text:
  assumes "vocab_ok v"
  shows "reads_as v (text_token v) (bpe_tokenize_text v s) s"
proof (induction "length s" arbitrary: s rule: less_induct)
  case less
  show ?case
  proof (cases "s = []")
    case True
    then show ?thesis by (simp add: bpe_tokenize_text.simps)
  next
    case False
    then have "length (drop (piece_len s) s) < length s" using piece_len_pos [of s] by (cases s) auto
    from reads_oapp [OF emit_piece_text [OF assms piece_no_mark [of s]] less.hyps [OF this]] show ?thesis
      using False by (subst bpe_tokenize_text.simps) simp
  qed
qed

text \<open>The tokens of \<open><think>\<close> and \<open></think>\<close> are no tokens of a text.\<close>

lemma think_ids_not_text:
  assumes "vocab_ok v"
  shows "\<not> text_token v (v_think_start_id v)" "\<not> text_token v (v_think_end_id v)"
proof -
  obtain ids where ids: "\<forall>s i. ids s = Some i \<longrightarrow> 0 \<le> i \<and> i < int (length (v_token v)) \<and> v_token v ! nat i = s"
    "\<forall>(t, i)\<in>set (specials v). ids t = Some i"
    using assms by (rule vocab_okE)
  have no: "\<not> text_token v i" if "(t, i) \<in> set (specials v)" "decode_bytes t = t" "\<not> no_mark t" for t i
  proof
    assume "text_token v i"
    then obtain q where q: "v_token v ! nat i = concat (map enc q)" "no_mark q" by (auto simp: text_token_def)
    moreover have "v_token v ! nat i = t" using ids that(1) by blast
    ultimately have "q = t" using decode_enc [of q] that(2) by simp
    then show False using q(2) that(3) by simp
  qed
  have d: "decode_bytes ''<think>'' = ''<think>''" "decode_bytes ''</think>'' = ''</think>''" by code_simp+
  have n: "\<not> no_mark ''<think>''" "\<not> no_mark ''</think>''"
    unfolding no_mark_def using sublist_append_leftI [of "''ink>''" "''<th''"] sublist_append_leftI [of "''ink>''" "''</th''"]
    by simp_all
  show "\<not> text_token v (v_think_start_id v)" by (rule no [OF _ d(1) n(1)]) (simp add: specials_def)
  show "\<not> text_token v (v_think_end_id v)" by (rule no [OF _ d(2) n(2)]) (simp add: specials_def)
qed

end
