(* ===== verification/TokenizerProps.thy ===== *)
theory TokenizerProps
  imports TokenizerMarks VocabLemmas ChatProps DsmlProps
begin

text \<open>The properties of the tokenizer and of its hash table.\<close>

section \<open>A vocabulary\<close>

text \<open>The 256 bytes and the special tokens, without merges.\<close>

definition sample_tokens :: "string list" where
  "sample_tokens = map (\<lambda>n. enc (char_of n)) [0..<256]
     @ [BOS_TEXT, EOS_TEXT, USER_TEXT, ASSISTANT_TEXT, ''<think>'', ''</think>'', DS4_DSML]"

definition sample_table :: str_i32_table where
  "sample_table = the (Option.bind (table_init 263) (tab.put_all (zip sample_tokens (map int [0..<263]))))"

definition sample_id :: "string \<Rightarrow> int" where
  "sample_id s = the (the (table_get sample_table s))"

definition sample_vocab :: ds4_vocab where
  "sample_vocab = \<lparr>v_token = sample_tokens, v_bos_id = sample_id BOS_TEXT, v_eos_id = sample_id EOS_TEXT,
     v_user_id = sample_id USER_TEXT, v_assistant_id = sample_id ASSISTANT_TEXT, v_think_start_id = sample_id ''<think>'',
     v_think_end_id = sample_id ''</think>'', v_dsml_id = sample_id DS4_DSML,
     v_token_to_id = sample_table, v_merge_rank = the (table_init 0)\<rparr>"

lemma sample_ok: "vocab_ok sample_vocab"
proof -
  let ?kvs = "zip sample_tokens (map int [0..<263])" and ?ids = "map_of (rev (zip sample_tokens (map int [0..<263])))"
  have l: "length sample_tokens = 263" by (simp add: sample_tokens_def)
  have u: "unat (263 :: u64) = 263" by simp
  from table_init_rel [of 263] obtain t where t: "table_init 263 = Some t" "table_rel t Map.empty"
    "2 * unat (263 :: u64) + 16 \<le> table_room t" by auto
  then have "card (dom (Map.empty :: string \<rightharpoonup> int)) + length ?kvs < table_room t" using l u by simp
  from tab.put_all_rel [OF t(2) this] obtain t' where t': "tab.put_all ?kvs t = Some t'" "table_rel t' ?ids"
    by (metis map_add_empty empty_map_add)
  then have st: "sample_table = t'" using t(1) by (simp add: sample_table_def)
  have d: "dom ?ids = set sample_tokens" using l map_fst_zip [of sample_tokens "map int [0..<263]"]
    by (simp only: dom_map_of_conv_image_fst set_rev set_map [symmetric] length_map length_upt)
  have i: "0 \<le> i \<and> i < int (length sample_tokens) \<and> sample_tokens ! nat i = s" if "?ids s = Some i" for s i
  proof -
    from map_of_SomeD [OF that] have "(s, i) \<in> set ?kvs" by simp
    then obtain j where "j < 263" "s = sample_tokens ! j" "i = int j" using l by (auto simp: in_set_zip)
    then show ?thesis using l by simp
  qed
  have k: "?ids s = Some (sample_id s)" if "s \<in> set sample_tokens" for s
  proof -
    have "?ids s \<noteq> None" using that d by blast
    then show ?thesis using tab.get_rel [OF t'(2), of s] by (auto simp: sample_id_def st)
  qed
  from table_init_rel [of 0] obtain m where m: "table_init 0 = Some m" "table_rel m Map.empty" by auto
  have "vocab_tables sample_vocab"
    unfolding vocab_tables_def
  proof (intro exI conjI)
    show "table_rel (v_token_to_id sample_vocab) ?ids" using t'(2) by (simp add: sample_vocab_def st)
    show "table_rel (v_merge_rank sample_vocab) Map.empty" using m by (simp add: sample_vocab_def)
    show "dom ?ids = set (v_token sample_vocab)" using d by (simp add: sample_vocab_def)
    show "\<forall>s i. ?ids s = Some i \<longrightarrow> 0 \<le> i \<and> i < int (length (v_token sample_vocab)) \<and> v_token sample_vocab ! nat i = s"
      using i by (simp add: sample_vocab_def)
    show "\<forall>(s, j)\<in>set (specials sample_vocab). ?ids s = Some j"
      using k by (simp add: specials_def sample_vocab_def sample_tokens_def)
  qed
  moreover have "vocab_complete sample_vocab"
    unfolding vocab_complete_def
  proof (intro conjI allI impI)
    fix c :: char
    have "enc c = enc (char_of (ord c))" by (simp add: ord_def)
    moreover have "ord c \<in> set [0..<256]" using ord_lt [of c] by simp
    ultimately show "enc c \<in> set (v_token sample_vocab)" unfolding sample_vocab_def sample_tokens_def by auto
  next
    fix a b assume "table_get (v_merge_rank sample_vocab) (a @ '' '' @ b) \<noteq> Some None"
    then show "a @ b \<in> set (v_token sample_vocab)" using m tab.get_rel [OF m(2)] by (simp add: sample_vocab_def)
  qed
  ultimately show ?thesis by (simp add: vocab_ok_def)
qed

section \<open>The table\<close>

text \<open>C28: The hash table is a map: with at most as many insertions as it was made for, all of them and
  every lookup end, and a lookup finds the value inserted last for the key, or nothing when there was
  none.\<close>

theorem table_is_a_map:
  assumes "unat expected < 2 ^ 61" "length kvs \<le> unat expected"
  shows "\<exists>t t'. table_init expected = Some t \<and> tab.put_all kvs t = Some t'
    \<and> (\<forall>k. table_get t' k = Some (map_of (rev kvs) k))"
proof -
  from table_init_rel [OF assms(1)] obtain t where t: "table_init expected = Some t" "table_rel t Map.empty"
    "2 * unat expected + 16 \<le> table_room t" by blast
  then have "card (dom (Map.empty :: string \<rightharpoonup> int)) + length kvs < table_room t" using assms(2) by simp
  from tab.put_all_rel [OF t(2) this] obtain t' where "tab.put_all kvs t = Some t'" "table_rel t' (map_of (rev kvs))"
    by (metis map_add_empty empty_map_add)
  then show ?thesis using t(1) tab.get_rel by blast
qed

theorem table_is_a_map_witness:
  "\<exists>t t'. table_init 3 = Some t \<and> tab.put_all [(''a'', 1), (''b'', 2), (''a'', 3)] t = Some t' \<and> table_get t' ''a'' = Some (Some 3)"
  using table_is_a_map [of 3 "[(''a'', 1), (''b'', 2), (''a'', 3)]"] by auto

section \<open>Pieces and merges\<close>

text \<open>C29: Each round of byte-pair encoding merges the pair with the lowest rank, the leftmost one if
  several have it, and the merging stops exactly when no pair has a rank.\<close>

theorem merges_lowest_rank:
  assumes "vocab_tables v"
  shows "case best_pair v syms 0 0x7FFFFFFF None of
      None \<Rightarrow> False
    | Some None \<Rightarrow> bpe_merge v syms = Some syms \<and> (\<forall>k. \<not> ranked v syms 0x7FFFFFFF k)
    | Some (Some j) \<Rightarrow> bpe_merge v syms = bpe_merge v (merge_at j syms) \<and> leftmost_best v syms 0x7FFFFFFF j"
proof -
  obtain ranks where "table_rel (v_merge_rank v) ranks" using assms unfolding vocab_tables_def by blast
  from best_pair_least [OF this, of syms 0 "0x7FFFFFFF" None] show ?thesis
    using bpe_merge.simps [of v syms] by auto
qed

theorem merges_lowest_rank_witness:
  "bpe_merge sample_vocab [''a'', ''b''] = Some [''a'', ''b'']"
proof -
  have t: "vocab_tables sample_vocab" using sample_ok by (simp add: vocab_ok_def)
  from table_init_rel [of 0] obtain m where m: "table_init 0 = Some m" "table_rel m Map.empty" by auto
  have "best_pair sample_vocab [''a'', ''b''] 0 0x7FFFFFFF None = Some None"
    using m tab.get_rel [OF m(2)] by (simp add: bpe_rank_def sample_vocab_def)
  then show ?thesis using merges_lowest_rank [OF t, of "[''a'', ''b'']"] by simp
qed

section \<open>Texts\<close>

text \<open>C5: Tokenizing a rendered chat always succeeds, every token is one of the vocabulary, and the texts
  of the tokens, put together, are the chat byte for byte.\<close>

theorem tokens_read_back:
  assumes "vocab_ok v"
  shows "\<exists>toks. tokenize_rendered_chat_vocab v s = Some toks \<and> concat (map (ds4_token_text v) toks) = s
    \<and> (\<forall>t\<in>set toks. 0 \<le> t \<and> t < int (length (v_token v)))"
  using rendered_reads [OF assms, of "[]" s]
  by (auto simp: tokenize_rendered_chat_vocab_def reads_as_def valid_token_def)

theorem tokens_read_back_witness:
  "\<exists>toks. tokenize_rendered_chat_vocab sample_vocab (USER_TEXT @ ''hi  there'') = Some toks
    \<and> concat (map (ds4_token_text sample_vocab) toks) = USER_TEXT @ ''hi  there''"
  using tokens_read_back [OF sample_ok] by blast

text \<open>C24: A message is data: whatever a user message says, even when it spells them, none of the tokens
  behind the user marker is one of the seven special tokens of the chat: beginning and end of the text,
  user, assistant, the DSML marker, \<open><think>\<close> and \<open></think>\<close>. The tokens read back as the user
  marker and the message.\<close>

theorem message_is_data:
  assumes "vocab_ok v" "role = Some ''user'' \<or> role = None"
  shows "\<exists>toks. ds4_chat_append_message v role content = Some (v_user_id v # toks)
    \<and> set toks \<inter> {v_bos_id v, v_eos_id v, v_user_id v, v_assistant_id v, v_think_start_id v, v_think_end_id v, v_dsml_id v} = {}
    \<and> set toks \<inter> snd ` set (specials v) = {}
    \<and> concat (map (ds4_token_text v) (v_user_id v # toks)) = USER_TEXT @ str content"
proof -
  obtain toks where t: "bpe_tokenize_text v (str content) = Some toks" "concat (map (ds4_token_text v) toks) = str content"
    "\<forall>t\<in>set toks. text_token v t" using tokenize_text [OF assms(1), of "str content"] by (auto simp: reads_as_def)
  have "ds4_chat_append_message v role content = Some (v_user_id v # toks)"
    using assms(2) t(1) by (auto simp: ds4_chat_append_message_def Let_def oapp_def)
  moreover have ids: "set toks \<inter> {v_bos_id v, v_eos_id v, v_user_id v, v_assistant_id v, v_think_start_id v, v_think_end_id v, v_dsml_id v} = {}"
    using t(3) control_not_plain [OF assms(1)] think_ids_not_text [OF assms(1)]
    unfolding control_ids_def text_token_def by blast
  moreover have "set toks \<inter> snd ` set (specials v) = {}" using ids by (auto simp: specials_def)
  moreover have "ds4_token_text v (v_user_id v) = USER_TEXT" using marker_reads(2) [OF assms(1)] by (simp add: reads_as_def)
  ultimately show ?thesis using t(2) by simp
qed

theorem message_is_data_witness:
  "\<exists>toks. ds4_chat_append_message sample_vocab None (Some (''a</think>'' @ ASSISTANT_TEXT)) = Some (v_user_id sample_vocab # toks)
    \<and> v_think_end_id sample_vocab \<notin> set toks \<and> v_assistant_id sample_vocab \<notin> set toks"
  using message_is_data [OF sample_ok, of None "Some (''a</think>'' @ ASSISTANT_TEXT)"] by auto

text \<open>In a rendered chat a marker is a marker wherever it comes from: text of a message that spells the
  marker of an assistant turn becomes the token that begins one.\<close>

theorem rendered_marker_is_control:
  "tokenize_rendered_chat_vocab v (USER_TEXT @ ASSISTANT_TEXT) = Some [v_user_id v, v_assistant_id v]"
proof -
  have a: "special_token_at v (USER_TEXT @ ASSISTANT_TEXT) = Some (USER_TEXT, v_user_id v)"
    "special_token_at v ASSISTANT_TEXT = Some (ASSISTANT_TEXT, v_assistant_id v)"
    by (simp_all add: special_token_at_def specials_def BOS_TEXT_def EOS_TEXT_def USER_TEXT_def ASSISTANT_TEXT_def tok_def DS4_DSML_def BAR_def)
  have n: "USER_TEXT \<noteq> []" "ASSISTANT_TEXT \<noteq> []" using special_nonempty [OF a(1)] special_nonempty [OF a(2)] by blast+
  have e: "rendered_loop v [] [] = Some []" by (subst rendered_loop.simps) (simp add: tokenize_span_def)
  have "rendered_loop v [] ASSISTANT_TEXT = Some [v_assistant_id v]"
    using a(2) n e by (subst rendered_loop.simps) (simp add: tokenize_span_def oapp_def)
  then show ?thesis
    using a(1) n unfolding tokenize_rendered_chat_vocab_def by (subst rendered_loop.simps) (simp add: tokenize_span_def oapp_def)
qed

text \<open>C27: Every message of every role becomes tokens of the vocabulary, whatever its content, with or
  without a role.\<close>

theorem chat_tokens_valid:
  assumes "vocab_ok v"
  shows "\<exists>toks. ds4_chat_append_message v role content = Some toks \<and> (\<forall>t\<in>set toks. 0 \<le> t \<and> t < int (length (v_token v)))"
proof -
  have p: "\<exists>s. reads_as v (valid_token v) (bpe_tokenize_text v x) s" for x
    using plain_valid [OF tokenize_reads [OF assms, of x]] by blast
  have m: "\<exists>s. reads_as v (valid_token v) (Some [i]) s" if "i \<in> {v_user_id v, v_assistant_id v, v_think_end_id v}" for i
    using that marker_reads [OF assms] by blast
  have o: "\<exists>s. reads_as v (valid_token v) (oapp x y) s"
    if "\<exists>s. reads_as v (valid_token v) x s" "\<exists>s. reads_as v (valid_token v) y s" for x y using that reads_oapp by blast
  have t: "\<exists>s. reads_as v (valid_token v) (tool_result_loop v [] (str content)) s"
    using plain_valid [OF tool_loop_reads [OF assms, of "[]" "str content"]] by blast
  have a: "Some [i, j] = oapp (Some [i]) (Some [j])" for i j :: int by (simp add: oapp_def)
  have "\<exists>s. reads_as v (valid_token v) (ds4_chat_append_message v role content) s"
    using p m o t a [of "v_assistant_id v"] by (simp add: ds4_chat_append_message_def Let_def bpe_tokenize_tool_result_text_def)
  then show ?thesis by (auto simp: reads_as_def valid_token_def)
qed

theorem chat_tokens_valid_witness:
  "\<exists>toks. ds4_chat_append_message sample_vocab (Some ''assistant'') (Some ''ok'') = Some toks \<and> set toks \<subseteq> {t. t < 263}"
  using chat_tokens_valid [OF sample_ok, of "Some ''assistant''" "Some ''ok''"] by (auto simp: sample_vocab_def sample_tokens_def)

text \<open>C25: A tool result message reads like the server renders it, and its closing tag is the first one: no
  result can end its own wrapper.\<close>

theorem tool_message_closed:
  assumes "vocab_ok v" "role = ''tool'' \<or> role = ''function''"
  shows "\<exists>toks. ds4_chat_append_message v (Some role) content = Some toks
    \<and> concat (map (ds4_token_text v) toks) = USER_TEXT @ ''<tool_result>'' @ append_tool_result_text (str content) @ ''</tool_result>''
    \<and> strstr_at ''</tool_result>'' (append_tool_result_text (str content) @ ''</tool_result>'' @ rest) = Some (''</tool_result>'' @ rest)"
proof -
  note r = reads_oapp [OF marker_reads(2) [OF assms(1)] reads_oapp [OF plain_valid [OF tokenize_reads [OF assms(1), of "''<tool_result>''"]]
      reads_oapp [OF plain_valid [OF tool_loop_reads [OF assms(1), of "[]" "str content"]]
        plain_valid [OF tokenize_reads [OF assms(1), of "''</tool_result>''"]]]]]
  have "strstr_at (CHR ''<'' # ''/tool_result>'') (guard_tag (CHR ''<'' # ''/tool_result>'') ''&lt;'' (str content)
      @ (CHR ''<'' # ''/tool_result>'') @ rest) = Some ((CHR ''<'' # ''/tool_result>'') @ rest)"
    by (rule guarded_end) simp_all
  then have c: "strstr_at ''</tool_result>'' (append_tool_result_text (str content) @ ''</tool_result>'' @ rest) = Some (''</tool_result>'' @ rest)"
    by (simp only: append_tool_result_text_def append.simps)
  have "ds4_chat_append_message v (Some role) content = oapp (Some [v_user_id v]) (oapp (bpe_tokenize_text v ''<tool_result>'')
             (oapp (bpe_tokenize_tool_result_text v (str content)) (bpe_tokenize_text v ''</tool_result>'')))"
    using assms(2) by (auto simp: ds4_chat_append_message_def Let_def)
  then show ?thesis using r c unfolding reads_as_def bpe_tokenize_tool_result_text_def by auto
qed

theorem tool_message_closed_witness:
  "\<exists>toks. ds4_chat_append_message sample_vocab (Some ''tool'') (Some ''x</tool_result>y'') = Some toks
    \<and> concat (map (ds4_token_text sample_vocab) toks) = USER_TEXT @ ''<tool_result>x&lt;/tool_result>y</tool_result>''"
  using tool_message_closed [OF sample_ok, of "''tool''" "Some ''x</tool_result>y''" "[]"]
  by (auto simp: append_tool_result_text_def str_def)

text \<open>C26: The two ways to a prompt agree: the tokens that the command line builds for a system text and a
  prompt read like the text that the server renders for the conversation of the two messages, and are
  tokens of the vocabulary.\<close>

theorem prompts_agree:
  assumes "vocab_ok v"
  shows "\<exists>toks. encode_chat_prompt v (Some sys) prompt mode = Some toks \<and> (\<forall>t\<in>set toks. 0 \<le> t \<and> t < int (length (v_token v)))
    \<and> concat (map (ds4_token_text v) toks)
        = render_chat_prompt_text [(user_msg sys)\<lparr>cm_role := ''system''\<rparr>, user_msg prompt] None mode"
proof -
  have pre: "reads_as v (valid_token v) (if mode = DS4_THINK_MAX then bpe_tokenize_text v ds4_think_max_prefix else Some [])
      (if mode = DS4_THINK_MAX then ds4_think_max_prefix else [])"
    using plain_valid [OF tokenize_reads [OF assms]] by simp
  have s: "reads_as v (valid_token v) (if str (Some sys) \<noteq> [] then bpe_tokenize_text v (str (Some sys)) else Some []) sys"
    using plain_valid [OF tokenize_reads [OF assms]] by (simp add: str_def)
  have "reads_as v (valid_token v) (Some (ds4_chat_append_assistant_prefix v mode))
      (ASSISTANT_TEXT @ (if ds4_think_mode_enabled mode then ''<think>'' else ''</think>''))"
    using marker_reads(3-5) [OF assms] by (auto simp: reads_as_def ds4_chat_append_assistant_prefix_def)
  note r = reads_oapp [OF marker_reads(1) [OF assms] reads_oapp [OF pre reads_oapp [OF s
      reads_oapp [OF marker_reads(2) [OF assms] reads_oapp [OF plain_valid [OF tokenize_reads [OF assms, of prompt]] this]]]]]
  show ?thesis using r
    by (auto simp: reads_as_def encode_chat_prompt_def valid_token_def render_chat_prompt_text_def Let_def render_msg_def
        render_end_def role_is_system_def append_tools_prompt_text_def str_def)
qed

theorem prompts_agree_witness:
  "\<exists>toks. encode_chat_prompt sample_vocab (Some ''Be brief.'') ''Hi'' DS4_THINK_NONE = Some toks
    \<and> concat (map (ds4_token_text sample_vocab) toks) = BOS_TEXT @ ''Be brief.'' @ USER_TEXT @ ''Hi'' @ ASSISTANT_TEXT @ ''</think>''"
  using prompts_agree [OF sample_ok, of "''Be brief.''" "''Hi''" DS4_THINK_NONE]
  by (auto simp: render_chat_prompt_text_def Let_def render_msg_def render_end_def role_is_system_def append_tools_prompt_text_def
      str_def ds4_think_mode_enabled_def)

section \<open>The live session\<close>

text \<open>The engine that a vocabulary makes.\<close>

definition vocab_engine :: "ds4_vocab \<Rightarrow> int \<Rightarrow> int \<Rightarrow> engine" where
  "vocab_engine v quant_bits model_id = \<lparr>eng_quant_bits = quant_bits, eng_model_id = model_id, eng_token_text = ds4_token_text v,
     eng_tokenize_rendered_chat = (\<lambda>s. the (tokenize_rendered_chat_vocab v s))\<rparr>"

lemma vocab_engine_reads:
  "vocab_ok v \<Longrightarrow> ds4_kvstore_render_tokens_text (vocab_engine v q i) (eng_tokenize_rendered_chat (vocab_engine v q i) s) = s"
  using rendered_reads [of v "[]" s]
  by (auto simp: vocab_engine_def ds4_kvstore_render_tokens_text_def tokenize_rendered_chat_vocab_def reads_as_def)

lemma common_prefix_self: "common_prefix_len p p = length p"
  by (induction p) simp_all

text \<open>C7: With the tokenizer of a model file the live session is reused whole, and a prompt that matches it
  by tokens or text reads exactly like the request.\<close>

theorem live_prefix_with_vocabulary:
  assumes "vocab_ok v" "choose_live_prefix (vocab_engine v q i) s valid (Some toks) r = Inr (c, src, p)" "0 < c"
    and "rq_prompt_text r = Some pt" "tokenize_rendered_chat_vocab v pt = Some (rq_prompt r)"
  shows "c = int (length toks) \<and> (\<exists>t. p = toks @ t)
    \<and> (src = MemoryToken \<or> src = MemoryText \<longrightarrow> concat (map (ds4_token_text v) p) = pt)"
proof -
  have t: "\<forall>x. ds4_kvstore_render_tokens_text (vocab_engine v q i) (eng_tokenize_rendered_chat (vocab_engine v q i) x) = x"
    using vocab_engine_reads [OF assms(1)] by blast
  have p: "rq_prompt r = eng_tokenize_rendered_chat (vocab_engine v q i) pt" using assms(5) by (simp add: vocab_engine_def)
  show ?thesis
    using live_prefix_whole [OF assms(2,3) t assms(4) p] by (simp add: vocab_engine_def ds4_kvstore_render_tokens_text_def)
qed

theorem live_prefix_with_vocabulary_witness:
  "\<exists>p. tokenize_rendered_chat_vocab sample_vocab (USER_TEXT @ ''hi'') = Some p
    \<and> concat (map (ds4_token_text sample_vocab) p) = USER_TEXT @ ''hi''"
proof -
  let ?s = "USER_TEXT @ ''hi''" and ?e = "vocab_engine sample_vocab 2 0"
  obtain p where p: "tokenize_rendered_chat_vocab sample_vocab ?s = Some p" "concat (map (ds4_token_text sample_vocab) p) = ?s"
    using rendered_reads [OF sample_ok, of "[]" ?s] by (auto simp: tokenize_rendered_chat_vocab_def reads_as_def)
  have "p \<noteq> []" using p(2) by auto
  let ?r = "(sample_request API_OPENAI (Some ?s))\<lparr>rq_prompt := p\<rparr>"
  have n: "ds4_session_common_prefix True p p = int (length p)"
    by (simp add: ds4_session_common_prefix_def common_prefix_self)
  have c: "choose_live_prefix ?e sample_live True (Some p) ?r = Inr (int (length p), MemoryToken, p)"
    using \<open>p \<noteq> []\<close> n by (simp add: choose_live_prefix_def responses_live_visible_prefix_prompt_def responses_live_continuation_prompt_def
        anthropic_live_continuation_prompt_def)
  have "int (length p) > 0" using \<open>p \<noteq> []\<close> by simp
  from live_prefix_with_vocabulary [OF sample_ok c this, of ?s] show ?thesis using p by auto
qed

end
