(* ===== verification/DistRoute.thy ===== *)
theory DistRoute
  imports CText Hash "HOL-Library.Monad_Syntax"
begin

text \<open>
  Distributed inference (\<^verbatim>\<open>ds4_distributed.c\<close>): a coordinator runs the first layers of a model and sends
  the rest of the work along a route of workers, each with a range of layers. Here are the registry of
  workers, the search for a route, the route as it goes over the wire and what a worker accepts. Sockets
  are numbers; \<open>mok\<close> says which allocations succeed; the order in which \<^verbatim>\<open>qsort\<close> leaves equal elements is
  not specified, so sorting is an argument. Debug messages are left out.
\<close>

section \<open>Workers\<close>

definition DS4_DIST_MAX_MODEL_NAME :: nat where "DS4_DIST_MAX_MODEL_NAME = 127"
definition NI_MAXHOST :: nat where "NI_MAXHOST = 1025"
definition NI_MAXSERV :: nat where "NI_MAXSERV = 32"
definition DS4_DIST_ROUTE_F_OUTPUT_LOGITS :: u32 where "DS4_DIST_ROUTE_F_OUTPUT_LOGITS = 1"
definition DS4_DIST_ROUTE_RETURN_UPSTREAM :: u32 where "DS4_DIST_ROUTE_RETURN_UPSTREAM = 1"

record dist_hello =
  he_model_id :: u32
  he_quant_bits :: u32
  he_layer_start :: u32
  he_layer_end :: u32
  he_has_output :: u32
  he_has_hidden :: u32
  he_ctx_size :: u32
  he_n_layers :: u32
  he_listen_port :: u32
  he_model_name_len :: u32

record dist_worker_entry =
  we_fd :: int
  we_peer_host :: string
  we_peer_port :: string
  we_model_name :: string
  we_model_id :: u32
  we_quant_bits :: u32
  we_layer_start :: u32
  we_layer_end :: u32
  we_has_output :: u32
  we_has_hidden :: u32
  we_ctx_size :: u32
  we_n_layers :: u32
  we_listen_port :: u32

record dist_coordinator =
  dc_model_id :: u32
  dc_n_layers :: u32
  dc_local_start :: u32
  dc_local_end :: u32
  dc_ctx_size :: u32
  dc_local_has_output :: bool
  dc_local_can_output_head :: bool
  dc_use_control_for_work :: bool
  dc_generation :: u64
  dc_workers :: "dist_worker_entry list"
  dc_shutting_down :: bool

definition u32_dec :: "u32 \<Rightarrow> string" where
  "u32_dec w = nat_dec (unat w)"

text \<open>Why the coordinator refuses a worker that has said hello, with the message it sends back.\<close>

definition hello_refusal :: "dist_coordinator \<Rightarrow> string \<Rightarrow> dist_hello \<Rightarrow> string \<Rightarrow> string option" where
  "hello_refusal co expected h name =
     map_option (take 255)
     (if he_model_id h \<noteq> dc_model_id co
      then Some (''model id mismatch: worker='' @ u32_dec (he_model_id h) @ '' coordinator='' @ u32_dec (dc_model_id co))
      else if name \<noteq> expected
      then Some (''model family mismatch: worker='' @ name @ '' coordinator='' @ expected)
      else if he_n_layers h \<noteq> dc_n_layers co
      then Some (''layer count mismatch: worker='' @ u32_dec (he_n_layers h) @ '' coordinator='' @ u32_dec (dc_n_layers co))
      else if he_quant_bits h \<noteq> 2 \<and> he_quant_bits h \<noteq> 4
      then Some (''unsupported worker quant profile Q'' @ u32_dec (he_quant_bits h))
      else if 1 < he_has_output h then Some (''invalid worker output-head flag '' @ u32_dec (he_has_output h))
      else if 1 < he_has_hidden h then Some (''invalid worker hidden-state flag '' @ u32_dec (he_has_hidden h))
      else if he_n_layers h \<le> he_layer_start h \<or> he_n_layers h \<le> he_layer_end h \<or> he_layer_end h < he_layer_start h
      then Some (''invalid worker layer range '' @ u32_dec (he_layer_start h) @ '':'' @ u32_dec (he_layer_end h) @ '' for '' @
                 u32_dec (he_n_layers h) @ '' layers'')
      else if he_has_output h \<noteq> 0 \<and> he_layer_end h + 1 \<noteq> he_n_layers h
      then Some (''worker output head requires final layer: range='' @ u32_dec (he_layer_start h) @ '':'' @ u32_dec (he_layer_end h) @
                 '' layers='' @ u32_dec (he_n_layers h))
      else if dc_ctx_size co \<noteq> 0 \<and> he_ctx_size h < dc_ctx_size co
      then Some (''worker context too small: worker='' @ u32_dec (he_ctx_size h) @ '' coordinator='' @ u32_dec (dc_ctx_size co))
      else if he_listen_port h = 0 \<or> 65535 < he_listen_port h
      then Some (''invalid worker data listen port '' @ u32_dec (he_listen_port h))
      else None)"

text \<open>Registering a worker drops older entries for the same host and layers.\<close>

definition stale :: "string \<Rightarrow> dist_hello \<Rightarrow> dist_worker_entry \<Rightarrow> bool" where
  "stale host h old \<longleftrightarrow> we_peer_host old = host \<and> we_model_id old = he_model_id h \<and> we_layer_start old = he_layer_start h
     \<and> we_layer_end old = he_layer_end h \<and> we_has_output old = he_has_output h"

definition dist_coordinator_add_worker ::
  "bool \<Rightarrow> dist_coordinator \<Rightarrow> int \<Rightarrow> string \<Rightarrow> string \<Rightarrow> dist_hello \<Rightarrow> string option \<Rightarrow> dist_coordinator" where
  "dist_coordinator_add_worker alloc_ok co fd host port h name =
     (if \<not> alloc_ok \<or> dc_shutting_down co then co
      else let entry = \<lparr>we_fd = fd, we_peer_host = take (NI_MAXHOST - 1) host, we_peer_port = take (NI_MAXSERV - 1) port,
             we_model_name = take DS4_DIST_MAX_MODEL_NAME (case name of None \<Rightarrow> ''unknown'' | Some n \<Rightarrow> n),
             we_model_id = he_model_id h, we_quant_bits = he_quant_bits h, we_layer_start = he_layer_start h,
             we_layer_end = he_layer_end h, we_has_output = he_has_output h, we_has_hidden = he_has_hidden h,
             we_ctx_size = he_ctx_size h, we_n_layers = he_n_layers h, we_listen_port = he_listen_port h\<rparr>
        in co\<lparr>dc_workers := entry # filter (\<lambda>w. \<not> stale host h w) (dc_workers co), dc_generation := dc_generation co + 1\<rparr>)"

text \<open>The first entry that satisfies a condition is taken out.\<close>

fun remove_first :: "('a \<Rightarrow> bool) \<Rightarrow> 'a list \<Rightarrow> ('a \<times> 'a list) option" where
  "remove_first P [] = None"
| "remove_first P (x # xs) = (if P x then Some (x, xs) else map_option (\<lambda>(y, ys). (y, x # ys)) (remove_first P xs))"

definition dist_coordinator_remove_worker :: "dist_coordinator \<Rightarrow> int \<Rightarrow> dist_coordinator" where
  "dist_coordinator_remove_worker co fd =
     (case remove_first (\<lambda>w. we_fd w = fd) (dc_workers co) of None \<Rightarrow> co
      | Some (_, ws) \<Rightarrow> co\<lparr>dc_workers := ws, dc_generation := dc_generation co + 1\<rparr>)"

section \<open>The search for a route\<close>

definition dist_worker_route_cmp :: "dist_worker_entry \<Rightarrow> dist_worker_entry \<Rightarrow> int" where
  "dist_worker_route_cmp a b =
     (if we_layer_start a < we_layer_start b then -1
      else if we_layer_start b < we_layer_start a then 1
      else if we_has_output a \<noteq> we_has_output b then (if we_has_output a \<noteq> 0 then -1 else 1)
      else if we_layer_end b < we_layer_end a then -1
      else if we_layer_end a < we_layer_end b then 1
      else 0)"

definition dist_worker_route_candidate_ok :: "dist_coordinator \<Rightarrow> dist_worker_entry \<Rightarrow> u32 \<Rightarrow> bool" where
  "dist_worker_route_candidate_ok co w final \<longleftrightarrow>
     (let needs_hidden = we_layer_end w < final \<or> we_has_output w = 0 in
      if needs_hidden \<and> we_has_hidden w = 0 then False
      else if final \<le> we_layer_end w \<and> we_has_output w = 0 \<and> \<not> dc_local_can_output_head co then False
      else True)"

text \<open>The loop over the sorted workers; \<open>cap\<close> is the length of the array for the path, and a write behind
  its end is the value \<open>None\<close>. The result has the missing layer found so far.\<close>

function search_loop ::
  "dist_coordinator \<Rightarrow> nat \<Rightarrow> dist_worker_entry list \<Rightarrow> dist_worker_entry list \<Rightarrow> bool \<Rightarrow> u32 \<Rightarrow> u32 \<Rightarrow> dist_worker_entry list
   \<Rightarrow> u32 \<Rightarrow> (bool \<times> dist_worker_entry list \<times> u32) option" where
  "search_loop co cap ws [] saw_start next final path missing =
     Some (False, path, if \<not> saw_start \<and> missing < next then next else missing)"
| "search_loop co cap ws (w # rest) saw_start next final path missing =
     (if we_layer_start w < next then search_loop co cap ws rest saw_start next final path missing
      else if next < we_layer_start w
      then Some (False, path, if \<not> saw_start \<and> missing < next then next else missing)
      else if \<not> dist_worker_route_candidate_ok co w final then search_loop co cap ws rest True next final path missing
      else if cap \<le> length path then None
      else if final \<le> we_layer_end w then Some (True, path @ [w], missing)
      else (case search_loop co cap ws ws False (we_layer_end w + 1) final (path @ [w]) (we_layer_end w + 1) of
              None \<Rightarrow> None
            | Some (True, p, _) \<Rightarrow> Some (True, p, missing)
            | Some (False, _, child_missing) \<Rightarrow>
                search_loop co cap ws rest True next final path (if missing < child_missing then child_missing else missing)))"
  by pat_completeness auto

termination
  by (relation "measures [\<lambda>(co, cap, ws, rest, saw, next, final, path, missing). cap - length path,
    \<lambda>(co, cap, ws, rest, saw, next, final, path, missing). length rest]") auto

declare search_loop.simps [simp del]

definition dist_route_search_workers ::
  "dist_coordinator \<Rightarrow> nat \<Rightarrow> dist_worker_entry list \<Rightarrow> u32 \<Rightarrow> u32 \<Rightarrow> dist_worker_entry list \<Rightarrow> u32
   \<Rightarrow> (bool \<times> dist_worker_entry list \<times> u32) option" where
  "dist_route_search_workers co cap ws next final path missing = search_loop co cap ws ws False next final path missing"

section \<open>The plan\<close>

record dist_route_entry =
  re_host :: string
  re_port :: u32
  re_layer_start :: u32
  re_layer_end :: u32
  re_flags :: u32
  re_fd :: int

record dist_route_plan =
  rp_entry :: "dist_route_entry list"
  rp_blob :: "byte list"

definition plan_zero :: dist_route_plan where
  "plan_zero = \<lparr>rp_entry = [], rp_blob = []\<rparr>"

text \<open>The descriptors that freeing a plan closes.\<close>

definition dist_route_plan_free :: "dist_route_plan \<Rightarrow> int list" where
  "dist_route_plan_free plan = filter (\<lambda>fd. 0 \<le> fd) (map re_fd (rp_entry plan))"

definition route_fixed :: "dist_route_entry \<Rightarrow> byte list" where
  "route_fixed e = concat (map be_bytes [of_nat (length (re_host e)), re_port e, re_layer_start e, re_layer_end e, re_flags e])"

definition dist_route_plan_append_blob ::
  "(nat \<Rightarrow> bool) \<Rightarrow> dist_route_plan \<Rightarrow> dist_route_entry \<Rightarrow> string + dist_route_plan" where
  "dist_route_plan_append_blob mok plan entry =
     (let host_len = length (re_host entry); add = 20 + host_len; bytes = length (rp_blob plan) in
      if host_len = 0 \<or> NI_MAXHOST \<le> host_len then Inl ''invalid route host''
      else if 2 ^ 32 - 1 < add \<or> 2 ^ 32 - 1 - add < bytes then Inl ''route payload is too large''
      else if \<not> mok (bytes + add) then Inl ''out of memory building route payload''
      else Inr (plan\<lparr>rp_blob := rp_blob plan @ route_fixed entry @ bytes_of (re_host entry)\<rparr>))"

definition dist_route_plan_append_return_upstream :: "(nat \<Rightarrow> bool) \<Rightarrow> dist_route_plan \<Rightarrow> string + dist_route_plan" where
  "dist_route_plan_append_return_upstream mok plan =
     (let bytes = length (rp_blob plan) in
      if 2 ^ 32 - 1 - 12 < bytes then Inl ''route payload is too large''
      else if \<not> mok (bytes + 12) then Inl ''out of memory building route payload''
      else Inr (plan\<lparr>rp_blob := rp_blob plan @ concat (map be_bytes [DS4_DIST_ROUTE_RETURN_UPSTREAM, 0, 0])\<rparr>))"

definition entry_of_worker :: "dist_worker_entry \<Rightarrow> dist_route_entry" where
  "entry_of_worker w = \<lparr>re_host = we_peer_host w, re_port = we_listen_port w, re_layer_start = we_layer_start w,
     re_layer_end = we_layer_end w, re_flags = (if we_has_output w \<noteq> 0 then DS4_DIST_ROUTE_F_OUTPUT_LOGITS else 0), re_fd = -1\<rparr>"

text \<open>The entries of the plan. \<open>dup\<close> gives a copy of a descriptor or the text of an error; an error comes
  with the descriptors that are closed.\<close>

fun plan_entries ::
  "(nat \<Rightarrow> bool) \<Rightarrow> (int \<Rightarrow> string + int) \<Rightarrow> bool \<Rightarrow> dist_worker_entry list \<Rightarrow> dist_route_plan
   \<Rightarrow> (string \<times> int list) + dist_route_plan" where
  "plan_entries mok dup control [] plan = Inr plan"
| "plan_entries mok dup control (w # path) plan =
     (case (if control \<and> rp_entry plan = [] then dup (we_fd w) else Inr (-1)) of
        Inl e \<Rightarrow> Inl (''failed to duplicate first-hop worker connection: '' @ e, dist_route_plan_free plan)
      | Inr fd \<Rightarrow>
          let entry = (entry_of_worker w)\<lparr>re_fd := fd\<rparr> in
          if \<not> mok (length (rp_entry plan) + 1)
          then Inl (''out of memory building route entries'', filter (\<lambda>fd. 0 \<le> fd) [fd] @ dist_route_plan_free plan)
          else let plan1 = plan\<lparr>rp_entry := rp_entry plan @ [entry]\<rparr> in
            (case dist_route_plan_append_blob mok plan1 entry of
               Inl e \<Rightarrow> Inl (e, dist_route_plan_free plan1)
             | Inr plan2 \<Rightarrow> plan_entries mok dup control path plan2))"

text \<open>The plan with the generation of the registry it was made from.\<close>

definition dist_coordinator_build_route_plan ::
  "(nat \<Rightarrow> bool) \<Rightarrow> (dist_worker_entry list \<Rightarrow> dist_worker_entry list) \<Rightarrow> (int \<Rightarrow> string + int) \<Rightarrow> dist_coordinator
   \<Rightarrow> ((string \<times> int list) + dist_route_plan \<times> u64) option" where
  "dist_coordinator_build_route_plan mok qsort dup co =
     (let n = length (dc_workers co); final = dc_n_layers co - 1; next = dc_local_end co + 1; workers = qsort (dc_workers co) in
      if n \<noteq> 0 \<and> \<not> mok n then Some (Inl (''out of memory building route'', []))
      else if dc_local_start co \<noteq> 0 then Some (Inl (''coordinator route does not start at layer 0'', []))
      else if dc_local_end co = final \<and> (dc_local_has_output co \<or> dc_local_can_output_head co)
      then Some (Inr (plan_zero, dc_generation co))
      else (case dist_route_search_workers co n workers next final [] next of
          None \<Rightarrow> None
        | Some (False, _, missing) \<Rightarrow> Some (Inl (''distributed route incomplete: missing layer '' @ u32_dec missing, []))
        | Some (True, path, _) \<Rightarrow>
            Some (case plan_entries mok dup (dc_use_control_for_work co) path plan_zero of
                Inl e \<Rightarrow> Inl e
              | Inr plan \<Rightarrow>
                  if rp_entry plan \<noteq> []
                  then (case dist_route_plan_append_return_upstream mok plan of
                          Inl e \<Rightarrow> Inl (e, dist_route_plan_free plan)
                        | Inr plan' \<Rightarrow> Inr (plan', dc_generation co))
                  else Inr (plan, dc_generation co))))"

section \<open>Forgetting the workers of a failed route\<close>

definition dist_route_entry_matches_worker :: "dist_route_entry \<Rightarrow> dist_worker_entry \<Rightarrow> bool" where
  "dist_route_entry_matches_worker route w \<longleftrightarrow>
     re_port route = we_listen_port w \<and> re_host route = we_peer_host w \<and> re_layer_start route = we_layer_start w
     \<and> re_layer_end route = we_layer_end w
     \<and> (re_flags route AND DS4_DIST_ROUTE_F_OUTPUT_LOGITS \<noteq> 0) = (we_has_output w \<noteq> 0)"

text \<open>The workers that stay, and the descriptors that are closed.\<close>

fun forget_entries :: "dist_route_entry list \<Rightarrow> dist_worker_entry list \<Rightarrow> dist_worker_entry list \<times> int list" where
  "forget_entries [] ws = (ws, [])"
| "forget_entries (e # es) ws =
     (case remove_first (dist_route_entry_matches_worker e) ws of
        None \<Rightarrow> forget_entries es ws
      | Some (w, ws') \<Rightarrow> (case forget_entries es ws' of (ws'', fds) \<Rightarrow> (ws'', we_fd w # fds)))"

definition dist_coordinator_forget_route_workers :: "dist_coordinator \<Rightarrow> dist_route_plan \<Rightarrow> dist_coordinator \<times> int list" where
  "dist_coordinator_forget_route_workers co plan =
     (case forget_entries (rp_entry plan) (dc_workers co) of (ws, fds) \<Rightarrow>
        (if fds = [] then co else co\<lparr>dc_workers := ws, dc_generation := dc_generation co + 1\<rparr>, fds))"

section \<open>Routes on the wire\<close>

definition dist_bytes_have_nul :: "byte list \<Rightarrow> bool" where
  "dist_bytes_have_nul bs \<longleftrightarrow> 0 \<in> set bs"

text \<open>The fields of the fixed part of an entry: host length, port, first and last layer, flags.\<close>

definition fixed_words :: "nat \<Rightarrow> byte list \<Rightarrow> u32 list" where
  "fixed_words n p = map (\<lambda>i. be_word (drop (4 * i) p)) [0..<n]"

fun get_entry_loop :: "byte list \<Rightarrow> nat \<Rightarrow> nat \<Rightarrow> string + dist_route_entry" where
  "get_entry_loop p 0 target = Inl (if p \<noteq> [] then ''route payload has trailing bytes'' else ''route entry not found'')"
| "get_entry_loop p (Suc n) target =
     (if length p < 20 then Inl ''truncated route entry''
      else let f = fixed_words 5 p; len = unat (f ! 0); q = drop 20 p; host = take len q in
        if len = 0 \<or> NI_MAXHOST \<le> len \<or> length q < len then Inl ''invalid route host length''
        else if dist_bytes_have_nul host then Inl ''route host contains NUL bytes''
        else (case target of
            0 \<Rightarrow> Inr \<lparr>re_host = text_of host, re_port = f ! 1, re_layer_start = f ! 2, re_layer_end = f ! 3, re_flags = f ! 4, re_fd = -1\<rparr>
          | Suc t \<Rightarrow> get_entry_loop (drop len q) n t))"

definition dist_route_get_entry :: "byte list option \<Rightarrow> u32 \<Rightarrow> u32 \<Rightarrow> string + dist_route_entry" where
  "dist_route_get_entry blob count target =
     (case blob of None \<Rightarrow> Inl ''invalid route entry index''
      | Some p \<Rightarrow> if count \<le> target then Inl ''invalid route entry index'' else get_entry_loop p (unat count) (unat target))"

record dist_route_return =
  rr_host :: string
  rr_port :: u32
  rr_kind :: u32

fun return_loop :: "byte list \<Rightarrow> nat \<Rightarrow> string + dist_route_return" where
  "return_loop p 0 =
     (if length p < 12 then Inl ''route payload missing final destination''
      else let f = fixed_words 3 p; len = unat (f ! 1); q = drop 12 p; host = take len q in
        if NI_MAXHOST \<le> len \<or> length q < len then Inl ''invalid route final destination host length''
        else if dist_bytes_have_nul host then Inl ''route final destination host contains NUL bytes''
        else if drop len q \<noteq> [] then Inl ''route payload has trailing bytes''
        else Inr \<lparr>rr_host = text_of host, rr_port = f ! 2, rr_kind = f ! 0\<rparr>)"
| "return_loop p (Suc n) =
     (if length p < 20 then Inl ''truncated route entry''
      else let len = unat (fixed_words 5 p ! 0); q = drop 20 p in
        if length q < len then Inl ''invalid route host length''
        else if dist_bytes_have_nul (take len q) then Inl ''route host contains NUL bytes''
        else return_loop (drop len q) n)"

definition dist_route_get_return_target :: "byte list option \<Rightarrow> u32 \<Rightarrow> string + dist_route_return" where
  "dist_route_get_return_target blob count =
     (case blob of None \<Rightarrow> Inl ''invalid route final destination''
      | Some p \<Rightarrow> if count = 0 then Inl ''invalid route final destination'' else return_loop p (unat count))"

text \<open>What a worker checks before it takes part in a route. \<open>first\<close> is true for the first entry.\<close>

fun validate_loop :: "byte list \<Rightarrow> nat \<Rightarrow> u32 \<Rightarrow> bool \<Rightarrow> u32 \<Rightarrow> string + unit" where
  "validate_loop p 0 n_layers first prev_end =
     (if length p < 12 then Inl ''route payload missing final destination''
      else let f = fixed_words 3 p; len = unat (f ! 1); q = drop 12 p in
        if NI_MAXHOST \<le> len \<or> length q < len then Inl ''invalid route final destination host length''
        else if dist_bytes_have_nul (take len q) then Inl ''route final destination host contains NUL bytes''
        else if f ! 0 \<noteq> DS4_DIST_ROUTE_RETURN_UPSTREAM then Inl ''unsupported route final destination''
        else if len \<noteq> 0 \<or> f ! 2 \<noteq> 0 then Inl ''invalid upstream route final destination''
        else if drop len q \<noteq> [] then Inl ''route payload has trailing bytes''
        else Inr ())"
| "validate_loop p (Suc n) n_layers first prev_end =
     (if length p < 20 then Inl ''truncated route entry''
      else let f = fixed_words 5 p; len = unat (f ! 0); q = drop 20 p in
        if len = 0 \<or> NI_MAXHOST \<le> len \<or> length q < len then Inl ''invalid route host length''
        else if dist_bytes_have_nul (take len q) then Inl ''route host contains NUL bytes''
        else if f ! 1 = 0 \<or> 65535 < f ! 1 then Inl ''invalid route port''
        else if n_layers \<le> f ! 2 \<or> n_layers \<le> f ! 3 \<or> f ! 3 < f ! 2 then Inl ''invalid route layer range''
        else if f ! 4 AND NOT DS4_DIST_ROUTE_F_OUTPUT_LOGITS \<noteq> 0 then Inl ''invalid route flags''
        else if f ! 4 AND DS4_DIST_ROUTE_F_OUTPUT_LOGITS \<noteq> 0 \<and> f ! 3 + 1 \<noteq> n_layers then Inl ''route logits require final layer''
        else if \<not> first \<and> f ! 2 \<noteq> prev_end + 1 then Inl ''route layer ranges are not contiguous''
        else validate_loop (drop len q) n n_layers False (f ! 3))"

definition dist_route_validate_blob :: "byte list option \<Rightarrow> u32 \<Rightarrow> u32 \<Rightarrow> string + unit" where
  "dist_route_validate_blob blob count n_layers =
     (if count = 0
      then (if (case blob of None \<Rightarrow> True | Some p \<Rightarrow> p = []) then Inr () else Inl ''route payload has entries without a route count'')
      else (case blob of None \<Rightarrow> Inl ''route payload is missing'' | Some p \<Rightarrow> validate_loop p (unat count) n_layers True (-1)))"

end
