(* ===== verification/DistLemmas.thy ===== *)
theory DistLemmas
  imports DistRoute "HOL-Library.Multiset"
begin

text \<open>The search for a route is exact and stays inside its array; a plan is read back as it was written.\<close>

section \<open>Chains of workers\<close>

text \<open>A route_chain from a layer to the last one: each worker starts where the previous one ended, and only the
  last one reaches the last layer.\<close>

fun route_chain :: "dist_coordinator \<Rightarrow> dist_worker_entry set \<Rightarrow> u32 \<Rightarrow> u32 \<Rightarrow> dist_worker_entry list \<Rightarrow> bool" where
  "route_chain co W next final [] = False"
| "route_chain co W next final (w # ws) \<longleftrightarrow> w \<in> W \<and> we_layer_start w = next \<and> dist_worker_route_candidate_ok co w final
     \<and> (if final \<le> we_layer_end w then ws = [] else route_chain co W (we_layer_end w + 1) final ws)"

definition starts_from :: "u32 \<Rightarrow> dist_worker_entry list \<Rightarrow> nat" where
  "starts_from next ws = length (filter (\<lambda>w. next \<le> we_layer_start w) ws)"

lemma starts_from_less:
  assumes "w \<in> set ws" "we_layer_start w < next"
  shows "Suc (starts_from next ws) \<le> starts_from (we_layer_start w) ws"
proof -
  obtain xs ys where ws: "ws = xs @ w # ys" using assms(1) by (meson split_list)
  have le: "starts_from next zs \<le> starts_from (we_layer_start w) zs" for zs
    using assms(2) unfolding starts_from_def by (induction zs) auto
  show ?thesis using assms(2) le [of xs] le [of ys] by (simp add: starts_from_def ws)
qed

lemma layer_succ: "(e :: u32) < final \<Longrightarrow> s \<le> e \<Longrightarrow> s < e + 1"
proof -
  assume e: "e < final" "s \<le> e"
  have "unat e + 1 < 2 ^ 32" using e(1) unat_lt32 [of final] by (simp add: word_less_nat_alt)
  then have "unat (e + 1) = unat e + 1" using unat_add_lem [of e 1] by simp
  then show ?thesis using e(2) by (simp add: word_less_nat_alt word_le_nat_alt)
qed

abbreviation by_start :: "dist_worker_entry list \<Rightarrow> bool" where
  "by_start ws \<equiv> sorted_wrt (\<lambda>a b. we_layer_start a \<le> we_layer_start b) ws"

lemma search_exact:
  assumes "by_start ws" "\<forall>w\<in>set ws. we_layer_start w \<le> we_layer_end w"
    and "by_start rest" "set rest \<subseteq> set ws" "length path + starts_from next ws \<le> cap"
  shows "\<exists>found p m. search_loop co cap ws rest saw next final path missing = Some (found, p, m)
    \<and> (if found then \<exists>q. p = path @ q \<and> route_chain co (set ws) next final q
       else \<forall>q. route_chain co (set ws) next final q \<longrightarrow> hd q \<notin> set rest)"
  using assms
proof (induction co cap ws rest saw "next" final path missing rule: search_loop.induct)
  case (1 co cap ws saw nx final path missing)
  show ?case by (intro exI [of _ False]) (simp add: search_loop.simps(1))
next
  case (2 co cap ws w rest saw nx final path missing)
  let ?P = "\<lambda>found p. if found then \<exists>q. p = path @ q \<and> route_chain co (set ws) nx final q
       else \<forall>q. route_chain co (set ws) nx final q \<longrightarrow> hd q \<notin> set (w # rest)"
  have rest: "by_start rest" "set rest \<subseteq> set ws" and w: "w \<in> set ws" "we_layer_start w \<le> we_layer_end w"
    using "2.prems" by auto
  have lift: "\<exists>found p m. r = Some (found, p, m) \<and> ?P found p"
    if "\<exists>found p m. r = Some (found, p, m) \<and> (if found then \<exists>q. p = path @ q \<and> route_chain co (set ws) nx final q
       else \<forall>q. route_chain co (set ws) nx final q \<longrightarrow> hd q \<notin> set rest)"
      "\<And>q. route_chain co (set ws) nx final q \<Longrightarrow> hd q \<noteq> w" for r
  proof -
    from that(1) obtain found p m where r: "r = Some (found, p, m)"
      "if found then \<exists>q. p = path @ q \<and> route_chain co (set ws) nx final q
       else \<forall>q. route_chain co (set ws) nx final q \<longrightarrow> hd q \<notin> set rest" by blast
    have "?P found p" using r(2) that(2) by (cases found) auto
    then show ?thesis using r(1) by blast
  qed
  consider "we_layer_start w < nx" | "nx < we_layer_start w" | "we_layer_start w = nx" by fastforce
  then show ?case
  proof cases
    case 1
    have e: "search_loop co cap ws (w # rest) saw nx final path missing = search_loop co cap ws rest saw nx final path missing"
      using 1 by (subst search_loop.simps) simp
    have "hd q \<noteq> w" if "route_chain co (set ws) nx final q" for q using that 1 by (cases q) auto
    then show ?thesis unfolding e using lift [OF "2.IH"(1) [OF 1 "2.prems"(1,2) rest "2.prems"(5)]] by blast
  next
    case gt: 2
    have "hd q \<notin> set (w # rest)" if "route_chain co (set ws) nx final q" for q
    proof -
      have "we_layer_start (hd q) = nx" using that by (cases q) auto
      moreover have "nx < we_layer_start v" if "v \<in> set (w # rest)" for v using that gt "2.prems"(3) by auto
      ultimately show ?thesis by blast
    qed
    moreover have "\<not> we_layer_start w < nx" using gt by simp
    ultimately show ?thesis using gt by (intro exI [of _ False]) (simp add: search_loop.simps(2))
  next
    case eq: 3
    then have n: "\<not> we_layer_start w < nx" "\<not> nx < we_layer_start w" by simp_all
    show ?thesis
    proof (cases "dist_worker_route_candidate_ok co w final")
      case False
      have e: "search_loop co cap ws (w # rest) saw nx final path missing = search_loop co cap ws rest True nx final path missing"
        using n False by (subst search_loop.simps) simp
      have "hd q \<noteq> w" if "route_chain co (set ws) nx final q" for q using that False by (cases q) auto
      then show ?thesis unfolding e using lift [OF "2.IH"(2) [OF n False "2.prems"(1,2) rest "2.prems"(5)]] by blast
    next
      case ok: True
      then have nn: "\<not> \<not> dist_worker_route_candidate_ok co w final" by simp
      have "0 < starts_from nx ws" using w(1) eq by (auto simp: starts_from_def filter_empty_conv)
      then have c: "\<not> cap \<le> length path" using "2.prems"(5) by simp
      show ?thesis
      proof (cases "final \<le> we_layer_end w")
        case True
        have "search_loop co cap ws (w # rest) saw nx final path missing = Some (True, path @ [w], missing)"
          using n ok c True by (subst search_loop.simps) simp
        moreover have "route_chain co (set ws) nx final [w]" using True ok eq w(1) by simp
        ultimately show ?thesis by (intro exI [of _ True]) (auto simp del: route_chain.simps)
      next
        case le: False
        have "we_layer_start w < we_layer_end w + 1" using layer_succ [of "we_layer_end w" final] le w(2) by simp
        then have "length (path @ [w]) + starts_from (we_layer_end w + 1) ws \<le> cap"
          using starts_from_less [OF w(1)] "2.prems"(5) eq by fastforce
        from "2.IH"(3) [OF n nn c le "2.prems"(1,2,1) subset_refl this] obtain found p m where child:
          "search_loop co cap ws ws False (we_layer_end w + 1) final (path @ [w]) (we_layer_end w + 1) = Some (found, p, m)"
          "if found then \<exists>q. p = (path @ [w]) @ q \<and> route_chain co (set ws) (we_layer_end w + 1) final q
           else \<forall>q. route_chain co (set ws) (we_layer_end w + 1) final q \<longrightarrow> hd q \<notin> set ws" by blast
        show ?thesis
        proof (cases found)
          case True
          then obtain q where q: "p = path @ (w # q)" "route_chain co (set ws) (we_layer_end w + 1) final q" using child(2) by auto
          have "search_loop co cap ws (w # rest) saw nx final path missing = Some (True, p, missing)"
            using n ok c le child(1) True by (subst search_loop.simps) simp
          moreover have "route_chain co (set ws) nx final (w # q)" using q(2) le ok eq w(1) by simp
          ultimately show ?thesis using q(1) by (intro exI [of _ True]) (auto simp del: route_chain.simps)
        next
          case nf: False
          let ?m = "if missing < m then m else missing"
          have e: "search_loop co cap ws (w # rest) saw nx final path missing = search_loop co cap ws rest True nx final path ?m"
            using n ok c le child(1) nf by (subst search_loop.simps) simp
          have hq: "hd q \<noteq> w" if ch: "route_chain co (set ws) nx final q" for q
          proof
            assume h: "hd q = w"
            obtain v vs where q: "q = v # vs" using ch by (cases q) auto
            then have "route_chain co (set ws) (we_layer_end w + 1) final vs" using ch h le by simp
            moreover from this have "hd vs \<in> set ws" by (cases vs) auto
            ultimately show False using child(2) nf by simp
          qed
          have ih: "\<exists>found p m'. search_loop co cap ws rest True nx final path ?m = Some (found, p, m') \<and>
              (if found then \<exists>q. p = path @ q \<and> route_chain co (set ws) nx final q
               else \<forall>q. route_chain co (set ws) nx final q \<longrightarrow> hd q \<notin> set rest)"
            by (rule "2.IH"(4) [OF n nn c le child(1) refl _ refl "2.prems"(1,2) rest "2.prems"(5)]) (use nf in simp)
          show ?thesis unfolding e by (rule lift [OF ih hq])
        qed
      qed
    qed
  qed
qed

text \<open>A search over all workers finds a route_chain exactly when there is one, and never writes behind the end of
  an array with one place for each worker.\<close>

lemma search_workers:
  assumes "by_start ws" "\<forall>w\<in>set ws. we_layer_start w \<le> we_layer_end w"
  obtains p m where "dist_route_search_workers co (length ws) ws nx final [] missing = Some (True, p, m)" "route_chain co (set ws) nx final p"
  | p m where "dist_route_search_workers co (length ws) ws nx final [] missing = Some (False, p, m)" "\<And>q. \<not> route_chain co (set ws) nx final q"
proof -
  have "length [] + starts_from nx ws \<le> length ws" by (simp add: starts_from_def)
  from search_exact [OF assms assms(1) subset_refl this, of co False final missing] obtain found p m where r:
    "search_loop co (length ws) ws ws False nx final [] missing = Some (found, p, m)"
    "if found then \<exists>q. p = [] @ q \<and> route_chain co (set ws) nx final q
     else \<forall>q. route_chain co (set ws) nx final q \<longrightarrow> hd q \<notin> set ws" by blast
  show thesis
  proof (cases found)
    case True
    then show thesis using that(1) r by (simp add: dist_route_search_workers_def)
  next
    case False
    have "\<not> route_chain co (set ws) nx final q" for q
    proof
      assume c: "route_chain co (set ws) nx final q"
      then have "hd q \<in> set ws" by (cases q) auto
      then show False using r(2) False c by simp
    qed
    then show thesis using that(2) r(1) False by (simp add: dist_route_search_workers_def)
  qed
qed

section \<open>Layers\<close>

definition layers_of :: "u32 \<Rightarrow> u32 \<Rightarrow> nat list" where
  "layers_of a b = [unat a..<Suc (unat b)]"

lemma route_chain_layers:
  assumes "route_chain co W nx final q" "\<forall>w\<in>W. we_layer_start w \<le> we_layer_end w \<and> we_layer_end w \<le> final"
  shows "concat (map (\<lambda>w. layers_of (we_layer_start w) (we_layer_end w)) q) = layers_of nx final \<and> set q \<subseteq> W \<and> nx \<le> final"
  using assms(1)
proof (induction q arbitrary: nx)
  case (Cons w q)
  then have w: "w \<in> W" "we_layer_start w = nx" "we_layer_start w \<le> we_layer_end w" "we_layer_end w \<le> final" using assms(2) by auto
  show ?case
  proof (cases "final \<le> we_layer_end w")
    case True
    then have "q = []" "we_layer_end w = final" using Cons.prems w(4) by auto
    then show ?thesis using w by simp
  next
    case False
    then have ih: "concat (map (\<lambda>w. layers_of (we_layer_start w) (we_layer_end w)) q) = layers_of (we_layer_end w + 1) final"
      "set q \<subseteq> W" "we_layer_end w + 1 \<le> final" using Cons by auto
    have "unat (we_layer_end w) + 1 < 2 ^ 32" using False unat_lt32 [of final] by (simp add: word_le_nat_alt)
    then have u: "unat (we_layer_end w + 1) = Suc (unat (we_layer_end w))" using unat_add_lem [of "we_layer_end w" 1] by simp
    have "layers_of nx (we_layer_end w) @ layers_of (we_layer_end w + 1) final = layers_of nx final"
      using w(2,3) ih(3) u upt_add_eq_append [of "unat nx" "Suc (unat (we_layer_end w))" "Suc (unat final) - Suc (unat (we_layer_end w))"]
      by (simp add: layers_of_def word_le_nat_alt del: upt_Suc)
    then show ?thesis using w ih by simp
  qed
qed simp

lemma route_chain_length:
  assumes "route_chain co W nx final q" "\<forall>w\<in>W. we_layer_start w \<le> we_layer_end w \<and> we_layer_end w \<le> final"
  shows "length q \<le> Suc (unat final) - unat nx"
proof -
  note c = route_chain_layers [OF assms]
  have "length q \<le> length (concat (map (\<lambda>w. layers_of (we_layer_start w) (we_layer_end w)) q))" if "set q \<subseteq> W" for q
    using that assms(2)
  proof (induction q)
    case (Cons w q)
    then have "we_layer_start w \<le> we_layer_end w" by simp
    then have "1 \<le> length (layers_of (we_layer_start w) (we_layer_end w))" by (simp add: layers_of_def word_le_nat_alt)
    moreover have "length q \<le> length (concat (map (\<lambda>w. layers_of (we_layer_start w) (we_layer_end w)) q))" using Cons by simp
    ultimately show ?case by (simp only: list.map concat.simps length_append list.size)
  qed simp
  from this [of q] show ?thesis using c by (simp add: layers_of_def del: upt_Suc)
qed

section \<open>Words on the wire\<close>

lemma be_word_bytes: "be_word (be_bytes w @ r) = w"
proof (rule bit_word_eqI)
  fix n assume n: "n < LENGTH(32)"
  consider "n < 8" | "8 \<le> n" "n < 16" | "16 \<le> n" "n < 24" | "24 \<le> n" by linarith
  then show "bit (be_word (be_bytes w @ r)) n = bit w n"
    by cases (use n in \<open>simp_all add: be_word_def be_bytes_def bit_simps, auto\<close>)
qed

lemma be_bytes_length [simp]: "length (be_bytes w) = 4"
  by (simp add: be_bytes_def)

lemma fixed_words_read: "fixed_words (length ws) (concat (map be_bytes ws) @ r) = ws"
proof (induction ws)
  case Nil
  then show ?case by (simp add: fixed_words_def)
next
  case (Cons w ws)
  have "map (\<lambda>i. be_word (drop (4 * i) (be_bytes w @ concat (map be_bytes ws) @ r))) (map Suc [0..<length ws]) = ws"
    using Cons by (simp add: fixed_words_def comp_def)
  moreover have "[0..<Suc (length ws)] = 0 # map Suc [0..<length ws]" by (simp only: upt_conv_Cons zero_less_Suc map_Suc_upt)
  ultimately show ?case using be_word_bytes [of w] by (simp only: fixed_words_def list.size add_0 Suc_eq_plus1 [symmetric] concat.simps list.map append_assoc) simp
qed

definition wire :: "dist_route_entry \<Rightarrow> byte list" where
  "wire e = route_fixed e @ bytes_of (re_host e)"

lemma route_fixed_length: "length (route_fixed e) = 20"
  by (simp add: route_fixed_def)

lemma route_fixed_read:
  "fixed_words 5 (route_fixed e @ r) = [of_nat (length (re_host e)), re_port e, re_layer_start e, re_layer_end e, re_flags e]"
proof -
  have "length [of_nat (length (re_host e)), re_port e, re_layer_start e, re_layer_end e, re_flags e :: u32] = 5" by simp
  then show ?thesis
    using fixed_words_read [of "[of_nat (length (re_host e)), re_port e, re_layer_start e, re_layer_end e, re_flags e]" r]
    unfolding route_fixed_def by metis
qed

text \<open>A host name that fits.\<close>

definition host_ok :: "string \<Rightarrow> bool" where
  "host_ok h \<longleftrightarrow> h \<noteq> [] \<and> length h < NI_MAXHOST \<and> NUL \<notin> set h"

definition the_return :: "byte list" where
  "the_return = concat (map be_bytes [DS4_DIST_ROUTE_RETURN_UPSTREAM, 0, 0])"

lemma wire_head:
  assumes "host_ok (re_host e)"
  shows "\<not> length (wire e @ r) < 20" "unat (fixed_words 5 (wire e @ r) ! 0) = length (re_host e)"
    "drop 20 (wire e @ r) = bytes_of (re_host e) @ r" "fixed_words 5 (wire e @ r) ! 1 = re_port e"
    "fixed_words 5 (wire e @ r) ! 2 = re_layer_start e" "fixed_words 5 (wire e @ r) ! 3 = re_layer_end e"
    "fixed_words 5 (wire e @ r) ! 4 = re_flags e"
  using assms route_fixed_read [of e "bytes_of (re_host e) @ r"] route_fixed_length [of e]
  by (simp_all add: wire_def host_ok_def NI_MAXHOST_def unat_of_nat32)

lemma no_nul: "host_ok h \<Longrightarrow> \<not> dist_bytes_have_nul (bytes_of h)"
proof -
  assume h: "host_ok h"
  have "c = NUL" if "of_char c = (0 :: byte)" for c
  proof -
    have "bytes_of [c] = bytes_of [NUL]" using that by (simp add: bytes_of_def)
    then show ?thesis by simp
  qed
  then show ?thesis using h unfolding host_ok_def dist_bytes_have_nul_def bytes_of_def set_map by (metis imageE)
qed

lemma wire_tail: "take (length (re_host e)) (bytes_of (re_host e) @ r) = bytes_of (re_host e)"
  "drop (length (re_host e)) (bytes_of (re_host e) @ r) = r"
  by simp_all

definition payload :: "dist_route_entry list \<Rightarrow> byte list" where
  "payload es = concat (map wire es) @ the_return"

lemma payload_Cons [simp]: "payload (e # es) = wire e @ payload es"
  by (simp add: payload_def)

lemma get_entry_read:
  assumes "\<forall>e\<in>set es. host_ok (re_host e)"
  shows "t < length es \<Longrightarrow> get_entry_loop (payload es) (length es) t = Inr ((es ! t)\<lparr>re_fd := -1\<rparr>)"
  using assms
proof (induction es arbitrary: t)
  case (Cons e es)
  then have h: "host_ok (re_host e)" by simp
  note w = wire_head [OF h, of "payload es"]
  have l: "\<not> (length (re_host e) = 0 \<or> NI_MAXHOST \<le> length (re_host e) \<or> length (bytes_of (re_host e) @ payload es) < length (re_host e))"
    using h by (simp add: host_ok_def)
  show ?case
  proof (cases t)
    case 0
    then show ?thesis using l no_nul [OF h]
      by (simp only: payload_Cons list.size add_0_right add_Suc_right get_entry_loop.simps(2) w if_False Let_def wire_tail text_of_bytes_of nat.case nth_Cons_0) simp
  next
    case (Suc t')
    then have "t' < length es" using Cons.prems(1) by simp
    then have ih: "get_entry_loop (payload es) (length es) t' = Inr ((es ! t')\<lparr>re_fd := -1\<rparr>)" using Cons by simp
    show ?thesis using l no_nul [OF h] ih
      by (simp only: Suc payload_Cons list.size add_0_right add_Suc_right get_entry_loop.simps(2) w if_False Let_def wire_tail nat.case nth_Cons_Suc)
  qed
qed simp

lemma the_return_read: "length the_return = 12" "fixed_words 3 the_return = [DS4_DIST_ROUTE_RETURN_UPSTREAM, 0, 0]"
proof -
  have "length [DS4_DIST_ROUTE_RETURN_UPSTREAM, 0, 0 :: u32] = 3" by simp
  then show "fixed_words 3 the_return = [DS4_DIST_ROUTE_RETURN_UPSTREAM, 0, 0]"
    using fixed_words_read [of "[DS4_DIST_ROUTE_RETURN_UPSTREAM, 0, 0]" "[]"] unfolding the_return_def by (metis append_Nil2)
qed (simp add: the_return_def)

lemma return_read:
  assumes "\<forall>e\<in>set es. host_ok (re_host e)"
  shows "return_loop (payload es) (length es) = Inr \<lparr>rr_host = [], rr_port = 0, rr_kind = DS4_DIST_ROUTE_RETURN_UPSTREAM\<rparr>"
  using assms
proof (induction es)
  case Nil
  then show ?case using the_return_read by (simp add: payload_def Let_def dist_bytes_have_nul_def NI_MAXHOST_def text_of_def)
next
  case (Cons e es)
  then have h: "host_ok (re_host e)" by simp
  note w = wire_head [OF h, of "payload es"]
  have l: "\<not> length (bytes_of (re_host e) @ payload es) < length (re_host e)" by simp
  have "return_loop (payload es) (length es) = Inr \<lparr>rr_host = [], rr_port = 0, rr_kind = DS4_DIST_ROUTE_RETURN_UPSTREAM\<rparr>"
    using Cons by simp
  then show ?case using l no_nul [OF h]
    by (simp only: payload_Cons list.size add_0_right add_Suc_right return_loop.simps(2) w if_False Let_def wire_tail)
qed

text \<open>Entries a worker accepts: their layers follow each other and end inside the model.\<close>

fun route_ok :: "u32 \<Rightarrow> bool \<Rightarrow> u32 \<Rightarrow> dist_route_entry list \<Rightarrow> bool" where
  "route_ok n first prev [] = True"
| "route_ok n first prev (e # es) \<longleftrightarrow> host_ok (re_host e) \<and> re_port e \<noteq> 0 \<and> re_port e \<le> 65535
     \<and> re_layer_start e < n \<and> re_layer_end e < n \<and> re_layer_start e \<le> re_layer_end e
     \<and> (re_flags e = 0 \<or> re_flags e = DS4_DIST_ROUTE_F_OUTPUT_LOGITS \<and> re_layer_end e + 1 = n)
     \<and> (first \<or> re_layer_start e = prev + 1) \<and> route_ok n False (re_layer_end e) es"

lemma validate_read: "route_ok n first prev es \<Longrightarrow> validate_loop (payload es) (length es) n first prev = Inr ()"
proof (induction es arbitrary: first prev)
  case Nil
  then show ?case using the_return_read by (simp add: payload_def Let_def dist_bytes_have_nul_def NI_MAXHOST_def)
next
  case (Cons e es)
  then have h: "host_ok (re_host e)" and r: "re_port e \<noteq> 0" "re_port e \<le> 65535" "re_layer_start e < n" "re_layer_end e < n"
    "re_layer_start e \<le> re_layer_end e" "re_flags e = 0 \<or> re_flags e = DS4_DIST_ROUTE_F_OUTPUT_LOGITS \<and> re_layer_end e + 1 = n"
    "first \<or> re_layer_start e = prev + 1" and ih: "validate_loop (payload es) (length es) n False (re_layer_end e) = Inr ()"
    by simp_all
  note w = wire_head [OF h, of "payload es"]
  have l: "\<not> (length (re_host e) = 0 \<or> NI_MAXHOST \<le> length (re_host e) \<or> length (bytes_of (re_host e) @ payload es) < length (re_host e))"
    using h by (simp add: host_ok_def)
  have c: "\<not> (re_port e = 0 \<or> 65535 < re_port e)" "\<not> (n \<le> re_layer_start e \<or> n \<le> re_layer_end e \<or> re_layer_end e < re_layer_start e)"
    "\<not> (\<not> first \<and> re_layer_start e \<noteq> prev + 1)" using r by auto
  have f: "\<not> (re_flags e AND NOT DS4_DIST_ROUTE_F_OUTPUT_LOGITS \<noteq> 0)"
    "\<not> (re_flags e AND DS4_DIST_ROUTE_F_OUTPUT_LOGITS \<noteq> 0 \<and> re_layer_end e + 1 \<noteq> n)" using r(6) by auto
  show ?case using l no_nul [OF h] c f ih
    by (simp only: payload_Cons list.size add_0_right add_Suc_right validate_loop.simps(2) w if_False Let_def wire_tail)
qed

section \<open>Plans\<close>

text \<open>A registered worker after the checks of its hello.\<close>

definition worker_ok :: "u32 \<Rightarrow> dist_worker_entry \<Rightarrow> bool" where
  "worker_ok n w \<longleftrightarrow> we_layer_start w \<le> we_layer_end w \<and> we_layer_end w < n \<and> (we_has_output w \<noteq> 0 \<longrightarrow> we_layer_end w + 1 = n)
     \<and> we_has_output w \<le> 1 \<and> we_listen_port w \<noteq> 0 \<and> we_listen_port w \<le> 65535 \<and> host_ok (we_peer_host w)"

definition same_place :: "dist_worker_entry \<Rightarrow> dist_worker_entry \<Rightarrow> bool" where
  "same_place v w \<longleftrightarrow> we_peer_host v = we_peer_host w \<and> we_model_id v = we_model_id w \<and> we_layer_start v = we_layer_start w
     \<and> we_layer_end v = we_layer_end w \<and> we_has_output v = we_has_output w"

definition registry_ok :: "dist_coordinator \<Rightarrow> bool" where
  "registry_ok co \<longleftrightarrow> (\<forall>w\<in>set (dc_workers co). worker_ok (dc_n_layers co) w \<and> we_model_id w = dc_model_id co)
     \<and> sorted_wrt (\<lambda>v w. \<not> same_place v w) (dc_workers co)"

definition unsent :: "dist_route_entry \<Rightarrow> dist_route_entry" where
  "unsent e = e\<lparr>re_fd := -1\<rparr>"

lemma unsent_entry: "unsent ((entry_of_worker w)\<lparr>re_fd := fd\<rparr>) = entry_of_worker w"
  by (simp add: unsent_def entry_of_worker_def)

lemma plan_entries_wire:
  "plan_entries mok dup control path plan = Inr plan' \<Longrightarrow> \<exists>es. rp_entry plan' = rp_entry plan @ es
     \<and> map unsent es = map entry_of_worker path \<and> rp_blob plan' = rp_blob plan @ concat (map wire es)"
proof (induction path arbitrary: plan)
  case (Cons w path)
  obtain fd where fd: "(if control \<and> rp_entry plan = [] then dup (we_fd w) else Inr (-1)) = Inr fd"
    using Cons.prems by (auto split: sum.splits)
  let ?e = "(entry_of_worker w)\<lparr>re_fd := fd\<rparr>"
  obtain plan2 where plan2: "dist_route_plan_append_blob mok (plan\<lparr>rp_entry := rp_entry plan @ [?e]\<rparr>) ?e = Inr plan2"
    "plan_entries mok dup control path plan2 = Inr plan'"
    using Cons.prems unfolding plan_entries.simps fd by (auto simp: Let_def split: sum.splits if_splits)
  then have p: "rp_entry plan2 = rp_entry plan @ [?e]" "rp_blob plan2 = rp_blob plan @ wire ?e"
    by (auto simp: dist_route_plan_append_blob_def Let_def wire_def split: if_splits)
  from Cons.IH [OF plan2(2)] obtain es where es: "rp_entry plan' = rp_entry plan2 @ es" "map unsent es = map entry_of_worker path"
    "rp_blob plan' = rp_blob plan2 @ concat (map wire es)" by blast
  then show ?case using p unsent_entry by (intro exI [of _ "?e # es"]) simp
qed simp

text \<open>Only the first entry has a copied descriptor, and a failing plan closes it.\<close>

lemma plan_entries_later:
  "rp_entry plan \<noteq> [] \<Longrightarrow> plan_entries mok dup control path plan = r \<Longrightarrow>
     (case r of Inl (e, fds) \<Rightarrow> fds = dist_route_plan_free plan | Inr plan' \<Rightarrow> dist_route_plan_free plan' = dist_route_plan_free plan)"
proof (induction path arbitrary: plan)
  case (Cons w path)
  let ?e = "(entry_of_worker w)\<lparr>re_fd := -1\<rparr>" and ?p = "plan\<lparr>rp_entry := rp_entry plan @ [(entry_of_worker w)\<lparr>re_fd := -1\<rparr>]\<rparr>"
  have f: "dist_route_plan_free ?p = dist_route_plan_free plan" by (simp add: dist_route_plan_free_def)
  show ?case
  proof (cases "dist_route_plan_append_blob mok ?p ?e")
    case (Inl x)
    then show ?thesis using Cons.prems f by (auto simp: Let_def split: if_splits)
  next
    case (Inr plan2)
    then have p: "rp_entry plan2 = rp_entry ?p" by (auto simp: dist_route_plan_append_blob_def Let_def split: if_splits)
    then have "dist_route_plan_free plan2 = dist_route_plan_free plan" "rp_entry plan2 \<noteq> []"
      using f by (simp_all add: dist_route_plan_free_def)
    then show ?thesis using Cons.IH [of plan2] Cons.prems Inr by (auto simp: Let_def split: if_splits sum.splits prod.splits)
  qed
qed auto

lemma chain_route_ok:
  assumes "route_chain co W nx final q" "\<forall>w\<in>W. worker_ok n w" "first \<or> nx = prev + 1" "map unsent es = map entry_of_worker q"
  shows "route_ok n first prev es"
  using assms(1,3,4)
proof (induction q arbitrary: nx first prev es)
  case (Cons w q)
  obtain e es' where es: "es = e # es'" "unsent e = entry_of_worker w" "map unsent es' = map entry_of_worker q"
    using Cons.prems(3) by (cases es) auto
  have w: "worker_ok n w" "we_layer_start w = nx" using Cons.prems(1) assms(2) by auto
  have e: "re_host e = we_peer_host w" "re_port e = we_listen_port w" "re_layer_start e = we_layer_start w"
    "re_layer_end e = we_layer_end w" "re_flags e = (if we_has_output w \<noteq> 0 then DS4_DIST_ROUTE_F_OUTPUT_LOGITS else 0)"
    using es(2) by (auto simp: unsent_def entry_of_worker_def) (metis dist_route_entry.select_convs dist_route_entry.update_convs(6) dist_route_entry.surjective)+
  have "route_ok n False (we_layer_end w) es'"
  proof (cases "final \<le> we_layer_end w")
    case True
    then have "q = []" using Cons.prems(1) by simp
    then show ?thesis using es(3) by simp
  next
    case False
    then have "route_chain co W (we_layer_end w + 1) final q" using Cons.prems(1) by simp
    then show ?thesis using Cons.IH es(3) by blast
  qed
  then show ?case using w e es(1) Cons.prems(2) by (auto simp: worker_ok_def)
qed simp

section \<open>The registry\<close>

lemma remove_first_some: "remove_first P xs = Some (x, ys) \<Longrightarrow> P x \<and> (\<exists>as bs. xs = as @ x # bs \<and> ys = as @ bs \<and> (\<forall>a\<in>set as. \<not> P a))"
proof (induction xs arbitrary: ys)
  case (Cons a xs)
  show ?case
  proof (cases "P a")
    case True
    then show ?thesis using Cons.prems by (intro conjI exI [of _ "[]"] exI [of _ xs]) simp_all
  next
    case False
    then obtain zs where z: "remove_first P xs = Some (x, zs)" "ys = a # zs" using Cons.prems by auto
    from Cons.IH [OF z(1)] obtain as bs where "P x" "xs = as @ x # bs" "zs = as @ bs" "\<forall>a\<in>set as. \<not> P a" by blast
    then show ?thesis using z(2) False by (intro conjI exI [of _ "a # as"] exI [of _ bs]) simp_all
  qed
qed simp

lemma remove_first_none: "remove_first P xs = None \<longleftrightarrow> (\<forall>x\<in>set xs. \<not> P x)"
  by (induction xs) auto

lemma registry_smaller:
  assumes "registry_ok co" "dc_workers co = as @ x # bs"
  shows "registry_ok (co\<lparr>dc_workers := as @ bs, dc_generation := g\<rparr>)"
  using assms by (simp add: registry_ok_def sorted_wrt_append)

lemma remove_worker_ok: "registry_ok co \<Longrightarrow> registry_ok (dist_coordinator_remove_worker co fd)"
  by (auto simp: dist_coordinator_remove_worker_def registry_smaller dest!: remove_first_some split: option.split)

lemma forget_entries_ok: "registry_ok co \<Longrightarrow> forget_entries es (dc_workers co) = (ws, fds) \<Longrightarrow> registry_ok (co\<lparr>dc_workers := ws, dc_generation := g\<rparr>)"
proof (induction es arbitrary: co fds)
  case Nil
  then show ?case by (simp add: registry_ok_def)
next
  case (Cons e es)
  show ?case
  proof (cases "remove_first (dist_route_entry_matches_worker e) (dc_workers co)")
    case None
    then show ?thesis using Cons by simp
  next
    case (Some r)
    obtain w ws' where r: "r = (w, ws')" by (cases r)
    obtain ws2 fds2 where f: "forget_entries es ws' = (ws2, fds2)" by fastforce
    from remove_first_some [OF Some [unfolded r]] obtain as bs where "dc_workers co = as @ w # bs" "ws' = as @ bs" by (elim conjE exE)
    then have "registry_ok (co\<lparr>dc_workers := ws', dc_generation := g\<rparr>)" using registry_smaller [OF Cons.prems(1)] by simp
    moreover have "ws2 = ws" using Cons.prems(2) Some r f by (simp split: prod.splits)
    then have "forget_entries es (dc_workers (co\<lparr>dc_workers := ws', dc_generation := g\<rparr>)) = (ws, fds2)" using f by simp
    ultimately have "registry_ok (co\<lparr>dc_workers := ws', dc_generation := g\<rparr>\<lparr>dc_workers := ws, dc_generation := g\<rparr>)" by (rule Cons.IH)
    then show ?thesis by simp
  qed
qed

lemma forget_ok:
  assumes "registry_ok co"
  shows "registry_ok (fst (dist_coordinator_forget_route_workers co plan))"
proof -
  obtain ws fds where f: "forget_entries (rp_entry plan) (dc_workers co) = (ws, fds)" by fastforce
  show ?thesis using forget_entries_ok [OF assms f] assms by (simp add: dist_coordinator_forget_route_workers_def f)
qed

text \<open>A worker whose hello is not refused is registered correctly.\<close>

lemma add_worker_ok:
  assumes "registry_ok co" "hello_refusal co expected h name = None" "host_ok host"
  shows "registry_ok (dist_coordinator_add_worker a co fd host port h (Some name))"
proof (cases "\<not> a \<or> dc_shutting_down co")
  case True
  then show ?thesis using assms(1) by (simp add: dist_coordinator_add_worker_def)
next
  case False
  have n: "he_model_id h = dc_model_id co" "he_n_layers h = dc_n_layers co"
    "he_layer_end h < he_n_layers h" "he_layer_start h \<le> he_layer_end h" "he_has_output h \<noteq> 0 \<longrightarrow> he_layer_end h + 1 = he_n_layers h"
    "he_has_output h \<le> 1" "he_listen_port h \<noteq> 0" "he_listen_port h \<le> 65535"
    using assms(2) by (auto simp: hello_refusal_def not_le not_less split: if_splits)
  have h: "take (NI_MAXHOST - Suc 0) host = host" using assms(3) by (simp add: host_ok_def NI_MAXHOST_def)
  have "sorted_wrt (\<lambda>v w. \<not> same_place v w) (filter (\<lambda>w. \<not> stale host h w) (dc_workers co))"
    using assms(1) by (simp add: registry_ok_def sorted_wrt_filter)
  then show ?thesis using False assms(1,3) n
    by (auto simp: dist_coordinator_add_worker_def Let_def registry_ok_def worker_ok_def h same_place_def stale_def)
qed

section \<open>Building a plan\<close>

text \<open>What is known of \<^verbatim>\<open>qsort\<close>: with a comparison that is consistent on the elements it puts them in order.\<close>

definition consistent :: "('a \<Rightarrow> 'a \<Rightarrow> int) \<Rightarrow> 'a set \<Rightarrow> bool" where
  "consistent cmp A \<longleftrightarrow> (\<forall>a\<in>A. \<forall>b\<in>A. (cmp a b < 0 \<longleftrightarrow> 0 < cmp b a) \<and> (\<forall>c\<in>A. cmp a b \<le> 0 \<longrightarrow> cmp b c \<le> 0 \<longrightarrow> cmp a c \<le> 0))"

definition sorts :: "('a list \<Rightarrow> 'a list) \<Rightarrow> ('a \<Rightarrow> 'a \<Rightarrow> int) \<Rightarrow> bool" where
  "sorts qs cmp \<longleftrightarrow> (\<forall>xs. consistent cmp (set xs) \<longrightarrow> mset (qs xs) = mset xs \<and> sorted_wrt (\<lambda>a b. cmp a b \<le> 0) (qs xs))"

lemma cmp_start: "dist_worker_route_cmp a b \<le> 0 \<Longrightarrow> we_layer_start a \<le> we_layer_start b"
  by (auto simp: dist_worker_route_cmp_def split: if_splits)

text \<open>The comparison is consistent because the output flag of a registered worker is 0 or 1.\<close>

lemma flag_cases: "(x :: u32) \<le> 1 \<Longrightarrow> x = 0 \<or> x = 1"
  by (metis linorder_not_less order_le_less word_gt_0 word_less_1 word_le_less_eq)

lemma cmp_consistent:
  assumes "\<forall>w\<in>A. we_has_output w \<le> 1"
  shows "consistent dist_worker_route_cmp A"
proof -
  have f: "w \<in> A \<Longrightarrow> we_has_output w = 0 \<or> we_has_output w = 1" for w using assms flag_cases by blast
  show ?thesis unfolding consistent_def
  proof (intro ballI conjI impI)
    fix a b assume "a \<in> A" "b \<in> A"
    then show "(dist_worker_route_cmp a b < 0) = (0 < dist_worker_route_cmp b a)"
      using f [of a] f [of b] by (auto simp: dist_worker_route_cmp_def)
  next
    fix a b c assume "a \<in> A" "b \<in> A" "c \<in> A" "dist_worker_route_cmp a b \<le> 0" "dist_worker_route_cmp b c \<le> 0"
    then show "dist_worker_route_cmp a c \<le> 0"
      using f [of a] f [of b] f [of c] by (auto simp: dist_worker_route_cmp_def split: if_splits)
  qed
qed

lemma sorts_start:
  assumes q: "sorts qs dist_worker_route_cmp" and r: "registry_ok co"
  shows "by_start (qs (dc_workers co))" "set (qs (dc_workers co)) = set (dc_workers co)" "length (qs (dc_workers co)) = length (dc_workers co)"
proof -
  have "consistent dist_worker_route_cmp (set (dc_workers co))"
    by (rule cmp_consistent) (use r in \<open>simp add: registry_ok_def worker_ok_def\<close>)
  then have s: "mset (qs (dc_workers co)) = mset (dc_workers co)" "sorted_wrt (\<lambda>a b. dist_worker_route_cmp a b \<le> 0) (qs (dc_workers co))"
    using q unfolding sorts_def by blast+
  show "by_start (qs (dc_workers co))" by (rule sorted_wrt_mono_rel [OF _ s(2)]) (rule cmp_start)
  show "set (qs (dc_workers co)) = set (dc_workers co)" "length (qs (dc_workers co)) = length (dc_workers co)"
    using s(1) by (metis mset_eq_setD, metis mset_eq_length)
qed

lemma return_bytes: "dist_route_plan_append_return_upstream mok plan = Inr plan' \<Longrightarrow>
    rp_entry plan' = rp_entry plan \<and> rp_blob plan' = rp_blob plan @ the_return"
  by (auto simp: dist_route_plan_append_return_upstream_def Let_def the_return_def split: if_splits)

text \<open>What a plan for a path of workers is like.\<close>

lemma path_plan_ok:
  assumes "plan_entries mok dup control path plan_zero = Inr plan" "dist_route_plan_append_return_upstream mok plan = Inr plan'"
    and c: "route_chain co W nx final path" and w: "\<forall>w\<in>W. worker_ok n w" and n: "n \<noteq> 0" "final = n - 1" "nx \<noteq> 0"
  shows "concat (map (\<lambda>e. layers_of (re_layer_start e) (re_layer_end e)) (rp_entry plan')) = layers_of nx final"
    and "dist_route_validate_blob (Some (rp_blob plan')) (of_nat (length (rp_entry plan'))) n = Inr ()"
    and "i < length (rp_entry plan') \<Longrightarrow>
      dist_route_get_entry (Some (rp_blob plan')) (of_nat (length (rp_entry plan'))) (of_nat i) = Inr ((rp_entry plan' ! i)\<lparr>re_fd := -1\<rparr>)"
    and "dist_route_get_return_target (Some (rp_blob plan')) (of_nat (length (rp_entry plan')))
      = Inr \<lparr>rr_host = [], rr_port = 0, rr_kind = DS4_DIST_ROUTE_RETURN_UPSTREAM\<rparr>"
proof -
  have fin: "w \<in> W \<Longrightarrow> we_layer_end w \<le> final" for w
    using w n(1,2) by (auto simp: worker_ok_def word_le_nat_alt word_less_nat_alt unat_sub_if' unat_gt_0 [symmetric] simp del: unat_gt_0)
  then have ww: "\<forall>w\<in>W. we_layer_start w \<le> we_layer_end w \<and> we_layer_end w \<le> final" using w by (auto simp: worker_ok_def)
  obtain es where es: "rp_entry plan = es" "map unsent es = map entry_of_worker path" "rp_blob plan = concat (map wire es)"
    using plan_entries_wire [OF assms(1)] by (auto simp: plan_zero_def)
  then have p: "rp_entry plan' = es" "rp_blob plan' = payload es" using return_bytes [OF assms(2)] by (simp_all add: payload_def)
  have len: "length es = length path" using es(2) by (metis length_map)
  have "0 < unat nx" using n(3) by (simp add: unat_gt_0)
  then have "length path < 2 ^ 32" using route_chain_length [OF c ww] unat_lt32 [of final] by linarith
  then have u: "unat (of_nat (length es) :: u32) = length es" using len by (simp add: unat_of_nat32)
  have ne: "path \<noteq> []" using c by (cases path) auto
  then have nz: "(of_nat (length es) :: u32) \<noteq> 0" using u len by (metis length_0_conv unsigned_0)
  have ro: "route_ok n True (-1) es" by (rule chain_route_ok [OF c w _ es(2)]) simp
  have ho: "route_ok n f pr xs \<Longrightarrow> \<forall>e\<in>set xs. host_ok (re_host e)" for f pr xs by (induction xs arbitrary: f pr) auto
  have ly: "map (\<lambda>e. layers_of (re_layer_start e) (re_layer_end e)) es = map (\<lambda>w. layers_of (we_layer_start w) (we_layer_end w)) path"
  proof -
    have "map (\<lambda>e. layers_of (re_layer_start e) (re_layer_end e)) (map unsent es)
      = map (\<lambda>e. layers_of (re_layer_start e) (re_layer_end e)) (map entry_of_worker path)" by (simp only: es(2))
    then show ?thesis by (simp add: unsent_def entry_of_worker_def comp_def)
  qed
  show "concat (map (\<lambda>e. layers_of (re_layer_start e) (re_layer_end e)) (rp_entry plan')) = layers_of nx final"
    using route_chain_layers [OF c ww] by (simp add: p ly)
  show "dist_route_validate_blob (Some (rp_blob plan')) (of_nat (length (rp_entry plan'))) n = Inr ()"
    using validate_read [OF ro] nz by (simp add: dist_route_validate_blob_def p u)
  show "dist_route_get_return_target (Some (rp_blob plan')) (of_nat (length (rp_entry plan')))
      = Inr \<lparr>rr_host = [], rr_port = 0, rr_kind = DS4_DIST_ROUTE_RETURN_UPSTREAM\<rparr>"
    using return_read [OF ho [OF ro]] nz by (simp add: dist_route_get_return_target_def p u)
  show "dist_route_get_entry (Some (rp_blob plan')) (of_nat (length (rp_entry plan'))) (of_nat i) = Inr ((rp_entry plan' ! i)\<lparr>re_fd := -1\<rparr>)"
    if i: "i < length (rp_entry plan')"
  proof -
    have ui: "unat (of_nat i :: u32) = i" using i \<open>length path < 2 ^ 32\<close> len by (simp add: unat_of_nat32 p)
    then have "\<not> (of_nat (length es) :: u32) \<le> of_nat i" using i u by (simp add: word_le_nat_alt p)
    then show ?thesis using get_entry_read [OF ho [OF ro]] i by (simp add: dist_route_get_entry_def p u ui)
  qed
qed

lemma split_layers: "a < b \<Longrightarrow> layers_of 0 a @ layers_of (a + 1) b = layers_of 0 b"
proof -
  assume ab: "a < b"
  then have "unat a + 1 < 2 ^ 32" using unat_lt32 [of b] by (simp add: word_less_nat_alt)
  then have u: "unat (a + 1) = Suc (unat a)" using unat_add_lem [of a 1] by simp
  show ?thesis using upt_add_eq_append [of 0 "Suc (unat a)" "unat b - unat a"] ab u
    by (simp add: layers_of_def word_less_nat_alt del: upt_Suc)
qed

lemma last_layer: "n \<noteq> (0 :: u32) \<Longrightarrow> Suc (unat (n - 1)) = unat n"
  by (simp add: unat_sub_if' unat_gt_0 [symmetric] word_le_nat_alt Suc_leI del: unat_gt_0)

lemma workers_end: "worker_ok n w \<Longrightarrow> n \<noteq> 0 \<Longrightarrow> we_layer_end w \<le> n - 1"
  using last_layer [of n] by (simp add: worker_ok_def word_le_nat_alt word_less_nat_alt)

lemma build_correct:
  assumes r: "registry_ok co" and q: "sorts qsort dist_worker_route_cmp" and e: "dc_local_end co < dc_n_layers co"
  shows "\<exists>x. dist_coordinator_build_route_plan mok qsort dup co = Some x \<and> (\<forall>plan g. x = Inr (plan, g) \<longrightarrow>
       g = dc_generation co
       \<and> layers_of 0 (dc_local_end co) @ concat (map (\<lambda>e. layers_of (re_layer_start e) (re_layer_end e)) (rp_entry plan))
           = [0..<unat (dc_n_layers co)]
       \<and> dist_route_validate_blob (Some (rp_blob plan)) (of_nat (length (rp_entry plan))) (dc_n_layers co) = Inr ()
       \<and> (\<forall>i<length (rp_entry plan). dist_route_get_entry (Some (rp_blob plan)) (of_nat (length (rp_entry plan))) (of_nat i)
             = Inr ((rp_entry plan ! i)\<lparr>re_fd := -1\<rparr>))
       \<and> (rp_entry plan \<noteq> [] \<longrightarrow> dist_route_get_return_target (Some (rp_blob plan)) (of_nat (length (rp_entry plan)))
             = Inr \<lparr>rr_host = [], rr_port = 0, rr_kind = DS4_DIST_ROUTE_RETURN_UPSTREAM\<rparr>))"
    (is "\<exists>x. ?b = Some x \<and> ?good x")
proof -
  let ?n = "dc_n_layers co" and ?ws = "qsort (dc_workers co)"
  have n: "?n \<noteq> 0" using e by auto
  have w: "\<forall>w\<in>set ?ws. worker_ok ?n w" using r sorts_start(2) [OF q r] by (simp add: registry_ok_def)
  then have wl: "\<forall>w\<in>set ?ws. we_layer_start w \<le> we_layer_end w" by (simp add: worker_ok_def)
  have all: "layers_of 0 (?n - 1) = [0..<unat ?n]" using last_layer [OF n] by (simp add: layers_of_def)
  have early: ?thesis if "\<exists>x. ?b = Some (Inl x)" using that by auto
  show ?thesis
  proof (cases "length (dc_workers co) \<noteq> 0 \<and> \<not> mok (length (dc_workers co)) \<or> dc_local_start co \<noteq> 0")
    case True
    then have "\<exists>x. ?b = Some (Inl x)" by (auto simp: dist_coordinator_build_route_plan_def Let_def)
    then show ?thesis by (rule early)
  next
    case go: False
    show ?thesis
    proof (cases "dc_local_end co = ?n - 1 \<and> (dc_local_has_output co \<or> dc_local_can_output_head co)")
      case True
      then have "?b = Some (Inr (plan_zero, dc_generation co))" using go by (auto simp: dist_coordinator_build_route_plan_def Let_def)
      then show ?thesis using all True by (simp add: plan_zero_def dist_route_validate_blob_def)
    next
      case False
      have g1: "\<not> (length (dc_workers co) \<noteq> 0 \<and> \<not> mok (length (dc_workers co)))" and g2: "\<not> dc_local_start co \<noteq> 0" using go by blast+
      have b: "?b = (case dist_route_search_workers co (length ?ws) ?ws (dc_local_end co + 1) (?n - 1) [] (dc_local_end co + 1) of
          None \<Rightarrow> None
        | Some (False, _, missing) \<Rightarrow> Some (Inl (''distributed route incomplete: missing layer '' @ u32_dec missing, []))
        | Some (True, path, _) \<Rightarrow>
            Some (case plan_entries mok dup (dc_use_control_for_work co) path plan_zero of
                Inl e \<Rightarrow> Inl e
              | Inr plan \<Rightarrow>
                  if rp_entry plan \<noteq> []
                  then (case dist_route_plan_append_return_upstream mok plan of
                          Inl e \<Rightarrow> Inl (e, dist_route_plan_free plan)
                        | Inr plan' \<Rightarrow> Inr (plan', dc_generation co))
                  else Inr (plan, dc_generation co)))"
        by (simp only: dist_coordinator_build_route_plan_def Let_def sorts_start(3) [OF q r] if_not_P [OF g1] if_not_P [OF g2] if_not_P [OF False])
      show ?thesis
      proof (rule search_workers [OF sorts_start(1) [OF q r] wl, of co "dc_local_end co + 1" "?n - 1" "dc_local_end co + 1"])
        fix p m assume "dist_route_search_workers co (length ?ws) ?ws (dc_local_end co + 1) (?n - 1) [] (dc_local_end co + 1) = Some (False, p, m)"
        then have "\<exists>x. ?b = Some (Inl x)" unfolding b by simp
        then show ?thesis by (rule early)
      next
        fix p m assume s: "dist_route_search_workers co (length ?ws) ?ws (dc_local_end co + 1) (?n - 1) [] (dc_local_end co + 1) = Some (True, p, m)"
          and c: "route_chain co (set ?ws) (dc_local_end co + 1) (?n - 1) p"
        show ?thesis
        proof (cases "plan_entries mok dup (dc_use_control_for_work co) p plan_zero")
          case (Inl x)
          then have "\<exists>x. ?b = Some (Inl x)" unfolding b s by simp
          then show ?thesis by (rule early)
        next
          case (Inr plan)
          have "p \<noteq> []" using c by (cases p) auto
          then have ne: "rp_entry plan \<noteq> []" using plan_entries_wire [OF Inr] by (auto simp: plan_zero_def)
          show ?thesis
          proof (cases "dist_route_plan_append_return_upstream mok plan")
            case (Inl x)
            then have "\<exists>x. ?b = Some (Inl x)" unfolding b s using Inr ne by simp
            then show ?thesis by (rule early)
          next
            case plan': (Inr plan')
            have bb: "?b = Some (Inr (plan', dc_generation co))" unfolding b s using Inr ne plan' by simp
            have "dc_local_end co + 1 \<noteq> 0"
            proof -
              have "unat (dc_local_end co) + 1 < 2 ^ 32" using e unat_lt32 [of ?n] by (simp add: word_less_nat_alt)
              then have "unat (dc_local_end co + 1) = Suc (unat (dc_local_end co))" using unat_add_lem [of "dc_local_end co" 1] by simp
              then show ?thesis by auto
            qed
            note ok = path_plan_ok [OF Inr plan' c w n refl this]
            have "dc_local_end co + 1 \<le> ?n - 1" using route_chain_layers [OF c] w workers_end [OF _ n]
              by (metis worker_ok_def)
            then have "dc_local_end co < ?n - 1" using e last_layer [OF n] unat_add_lem [of "dc_local_end co" 1] unat_lt32 [of ?n]
              by (simp add: word_le_nat_alt word_less_nat_alt)
            then have "layers_of 0 (dc_local_end co) @ layers_of (dc_local_end co + 1) (?n - 1) = [0..<unat ?n]"
              using split_layers all by metis
            then show ?thesis unfolding bb using ok by simp
          qed
        qed
      qed
    qed
  qed
qed

text \<open>With memory and descriptors a plan for a short path succeeds.\<close>

lemma wire_length: "length (wire e) = 20 + length (re_host e)"
  by (simp add: wire_def route_fixed_length)

lemma plan_entries_succeed:
  assumes m: "\<And>n. mok n" and d: "\<And>fd. \<exists>d. dup fd = Inr d"
  shows "\<forall>w\<in>set path. host_ok (we_peer_host w) \<Longrightarrow> length (rp_blob plan) + 1044 * length path \<le> 2 ^ 31 \<Longrightarrow>
    \<exists>plan'. plan_entries mok dup control path plan = Inr plan' \<and> length (rp_blob plan') \<le> length (rp_blob plan) + 1044 * length path"
proof (induction path arbitrary: plan)
  case (Cons w path)
  have h: "host_ok (we_peer_host w)" using Cons.prems(1) by simp
  obtain fd where fd: "(if control \<and> rp_entry plan = [] then dup (we_fd w) else Inr (-1)) = Inr fd" using d [of "we_fd w"]
    by (cases "control \<and> rp_entry plan = []") (simp_all, blast)
  let ?e = "(entry_of_worker w)\<lparr>re_fd := fd\<rparr>" and ?p = "plan\<lparr>rp_entry := rp_entry plan @ [(entry_of_worker w)\<lparr>re_fd := fd\<rparr>]\<rparr>"
  let ?p2 = "?p\<lparr>rp_blob := rp_blob plan @ route_fixed ?e @ bytes_of (re_host ?e)\<rparr>"
  have l: "re_host ?e = we_peer_host w" "we_peer_host w \<noteq> []" "length (we_peer_host w) < 1025"
    using h by (simp_all add: entry_of_worker_def host_ok_def NI_MAXHOST_def)
  then have a: "dist_route_plan_append_blob mok ?p ?e = Inr ?p2"
    using Cons.prems(2) m by (simp add: dist_route_plan_append_blob_def Let_def NI_MAXHOST_def)
  have e: "plan_entries mok dup control (w # path) plan = plan_entries mok dup control path ?p2"
    unfolding plan_entries.simps fd using m a by (simp add: Let_def)
  have b: "length (rp_blob ?p2) \<le> length (rp_blob plan) + 1044" using l by (simp add: route_fixed_length)
  then have "length (rp_blob ?p2) + 1044 * length path \<le> 2 ^ 31" using Cons.prems(2) by simp
  from Cons.IH [OF _ this] Cons.prems(1) obtain plan' where "plan_entries mok dup control path ?p2 = Inr plan'"
    "length (rp_blob plan') \<le> length (rp_blob ?p2) + 1044 * length path" by auto
  then show ?case unfolding e using b by (intro exI [of _ plan']) simp
qed simp

lemma build_complete:
  assumes r: "registry_ok co" and q: "sorts qsort dist_worker_route_cmp" and s0: "dc_local_start co = 0"
    and e: "dc_local_end co < dc_n_layers co" and small: "unat (dc_n_layers co) \<le> 2 ^ 20" and m: "\<And>n. mok n"
    and d: "\<And>fd. \<exists>d. dup fd = Inr d"
  shows "(\<exists>plan g. dist_coordinator_build_route_plan mok qsort dup co = Some (Inr (plan, g))) \<longleftrightarrow>
    dc_local_end co = dc_n_layers co - 1 \<and> (dc_local_has_output co \<or> dc_local_can_output_head co)
    \<or> (\<exists>ws. route_chain co (set (dc_workers co)) (dc_local_end co + 1) (dc_n_layers co - 1) ws)"
    (is "?lhs \<longleftrightarrow> ?local \<or> ?route_chain")
proof -
  let ?n = "dc_n_layers co" and ?ws = "qsort (dc_workers co)"
  have n: "?n \<noteq> 0" using e by auto
  have sw: "set ?ws = set (dc_workers co)" by (rule sorts_start(2) [OF q r])
  have w: "\<forall>w\<in>set ?ws. worker_ok ?n w" using r by (simp add: registry_ok_def sw)
  then have wl: "\<forall>w\<in>set ?ws. we_layer_start w \<le> we_layer_end w" by (simp add: worker_ok_def)
  have wf: "\<forall>w\<in>set ?ws. we_layer_start w \<le> we_layer_end w \<and> we_layer_end w \<le> ?n - 1"
    using w workers_end [OF _ n] by (metis worker_ok_def)
  have g1: "\<not> (length (dc_workers co) \<noteq> 0 \<and> \<not> mok (length (dc_workers co)))" and g2: "\<not> dc_local_start co \<noteq> 0" using m s0 by simp_all
  show ?thesis
  proof (cases ?local)
    case True
    then have "dist_coordinator_build_route_plan mok qsort dup co = Some (Inr (plan_zero, dc_generation co))"
      unfolding dist_coordinator_build_route_plan_def Let_def if_not_P [OF g1] if_not_P [OF g2] if_P [OF True] by simp
    then show ?thesis using True by blast
  next
    case False
    note b = dist_coordinator_build_route_plan_def [of mok qsort dup co, unfolded Let_def, unfolded if_not_P [OF g1] if_not_P [OF g2]
        if_not_P [OF False]] sorts_start(3) [OF q r, symmetric]
    show ?thesis
    proof (rule search_workers [OF sorts_start(1) [OF q r] wl, of co "dc_local_end co + 1" "?n - 1" "dc_local_end co + 1"])
      fix p m' assume s: "dist_route_search_workers co (length ?ws) ?ws (dc_local_end co + 1) (?n - 1) [] (dc_local_end co + 1) = Some (False, p, m')"
        and no: "\<And>p. \<not> route_chain co (set ?ws) (dc_local_end co + 1) (?n - 1) p"
      have "\<not> ?lhs" using b(1) s unfolding sorts_start(3) [OF q r] by simp
      then show ?thesis using False no unfolding sw by blast
    next
      fix p m' assume s: "dist_route_search_workers co (length ?ws) ?ws (dc_local_end co + 1) (?n - 1) [] (dc_local_end co + 1) = Some (True, p, m')"
        and c: "route_chain co (set ?ws) (dc_local_end co + 1) (?n - 1) p"
      have h: "\<forall>w\<in>set p. host_ok (we_peer_host w)" using route_chain_layers [OF c wf] w by (auto simp: worker_ok_def)
      have "length p \<le> 2 ^ 20" using route_chain_length [OF c wf] last_layer [OF n] small by linarith
      then have l: "length (rp_blob plan_zero) + 1044 * length p \<le> 2 ^ 31" by (simp add: plan_zero_def)
      obtain plan where plan: "plan_entries mok dup (dc_use_control_for_work co) p plan_zero = Inr plan"
        "length (rp_blob plan) \<le> length (rp_blob plan_zero) + 1044 * length p"
        using plan_entries_succeed [where mok = mok and dup = dup, OF m d h l] by blast
      then have "length (rp_blob plan) \<le> 2 ^ 31" using l by simp
      then obtain plan' where "dist_route_plan_append_return_upstream mok plan = Inr plan'"
        using m by (simp add: dist_route_plan_append_return_upstream_def Let_def)
      then have ?lhs using b(1) s plan(1) unfolding sorts_start(3) [OF q r] by (cases "rp_entry plan = []") simp_all
      then show ?thesis using c unfolding sw by blast
    qed
  qed
qed

lemma plan_entries_close:
  assumes "plan_entries mok dup control (w # path) plan_zero = Inl (e, fds)"
  shows "fds = (if control then (case dup (we_fd w) of Inl _ \<Rightarrow> [] | Inr d \<Rightarrow> if 0 \<le> d then [d] else []) else [])"
proof -
  have z: "rp_entry plan_zero = []" "dist_route_plan_free plan_zero = []" by (simp_all add: plan_zero_def dist_route_plan_free_def)
  show ?thesis
  proof (cases "if control \<and> rp_entry plan_zero = [] then dup (we_fd w) else Inr (-1)")
    case (Inl x)
    then show ?thesis using assms z by (auto simp: Let_def split: if_splits)
  next
    case (Inr d)
    let ?e = "(entry_of_worker w)\<lparr>re_fd := d\<rparr>" and ?p = "plan_zero\<lparr>rp_entry := rp_entry plan_zero @ [(entry_of_worker w)\<lparr>re_fd := d\<rparr>]\<rparr>"
    have g: "fds = (if control then (case dup (we_fd w) of Inl _ \<Rightarrow> [] | Inr d \<Rightarrow> if 0 \<le> d then [d] else []) else [])"
      if "fds = (if 0 \<le> d then [d] else [])" using that Inr z by (auto split: if_splits)
    have f: "dist_route_plan_free ?p = (if 0 \<le> d then [d] else [])" by (simp add: z dist_route_plan_free_def)
    show ?thesis
    proof (cases "mok (length (rp_entry plan_zero) + 1)")
      case False
      then show ?thesis using assms unfolding plan_entries.simps Inr by (intro g) (auto simp: Let_def z split: if_splits)
    next
      case mem: True
      show ?thesis
      proof (cases "dist_route_plan_append_blob mok ?p ?e")
        case (Inl x)
        then show ?thesis using assms mem f unfolding plan_entries.simps Inr by (intro g) (simp add: Let_def)
      next
        case (Inr plan2)
        then have p: "rp_entry plan2 = rp_entry ?p" by (auto simp: dist_route_plan_append_blob_def Let_def split: if_splits)
        then have pf: "dist_route_plan_free plan2 = dist_route_plan_free ?p" "rp_entry plan2 \<noteq> []" by (simp_all add: dist_route_plan_free_def)
        have pe: "plan_entries mok dup control path plan2 = Inl (e, fds)"
          using assms mem Inr \<open>(if control \<and> rp_entry plan_zero = [] then dup (we_fd w) else Inr (-1)) = Inr d\<close>
          unfolding plan_entries.simps by (simp add: Let_def)
        show ?thesis using plan_entries_later [OF pf(2) pe] pf(1) f by (intro g) simp
      qed
    qed
  qed
qed

end
