(* ===== verification/DistProps.thy ===== *)
theory DistProps
  imports DistLemmas
begin

text \<open>The properties of the coordinator's registry and routes.\<close>

section \<open>A registry\<close>

definition sample_worker :: "string \<Rightarrow> int \<Rightarrow> u32 \<Rightarrow> u32 \<Rightarrow> u32 \<Rightarrow> dist_worker_entry" where
  "sample_worker host fd a b out = \<lparr>we_fd = fd, we_peer_host = host, we_peer_port = ''1'', we_model_name = ''m'',
     we_model_id = 1, we_quant_bits = 4, we_layer_start = a, we_layer_end = b, we_has_output = out, we_has_hidden = 1,
     we_ctx_size = 4096, we_n_layers = 6, we_listen_port = 9000\<rparr>"

definition sample_coordinator :: dist_coordinator where
  "sample_coordinator = \<lparr>dc_model_id = 1, dc_n_layers = 6, dc_local_start = 0, dc_local_end = 1, dc_ctx_size = 0,
     dc_local_has_output = False, dc_local_can_output_head = False, dc_use_control_for_work = True, dc_generation = 7,
     dc_workers = [sample_worker ''b'' 4 4 5 1, sample_worker ''a'' 3 2 3 0], dc_shutting_down = False\<rparr>"

text \<open>Insertion sort is one of the sorting functions that \<^verbatim>\<open>qsort\<close> may be.\<close>

fun put_sorted :: "('a \<Rightarrow> 'a \<Rightarrow> int) \<Rightarrow> 'a \<Rightarrow> 'a list \<Rightarrow> 'a list" where
  "put_sorted cmp x [] = [x]"
| "put_sorted cmp x (y # ys) = (if cmp x y \<le> 0 then x # y # ys else y # put_sorted cmp x ys)"

definition sort_by :: "('a \<Rightarrow> 'a \<Rightarrow> int) \<Rightarrow> 'a list \<Rightarrow> 'a list" where
  "sort_by cmp xs = foldr (put_sorted cmp) xs []"

lemma cmp_chained: "consistent cmp A \<Longrightarrow> a \<in> A \<Longrightarrow> b \<in> A \<Longrightarrow> c \<in> A \<Longrightarrow> cmp a b \<le> 0 \<Longrightarrow> cmp b c \<le> 0 \<Longrightarrow> cmp a c \<le> 0"
  unfolding consistent_def by blast

lemma flipped: "consistent cmp A \<Longrightarrow> a \<in> A \<Longrightarrow> b \<in> A \<Longrightarrow> cmp a b < 0 \<longleftrightarrow> 0 < cmp b a"
  unfolding consistent_def by blast

lemma fewer: "consistent cmp A \<Longrightarrow> B \<subseteq> A \<Longrightarrow> consistent cmp B"
  unfolding consistent_def by blast

lemma sort_by_sorts: "sorts (sort_by cmp) cmp"
proof -
  have m: "mset (put_sorted cmp x ys) = mset (x # ys)" for x ys by (induction ys) auto
  have st: "set (put_sorted cmp x ys) = insert x (set ys)" for x ys using arg_cong [where f = set_mset, OF m [of x ys]] by simp
  have s: "sorted_wrt (\<lambda>a b. cmp a b \<le> 0) (put_sorted cmp x ys)"
    if "sorted_wrt (\<lambda>a b. cmp a b \<le> 0) ys" "consistent cmp (set (x # ys))" for x ys
    using that
  proof (induction ys)
    case (Cons y ys)
    have c: "consistent cmp (set (x # ys))" by (rule fewer [OF Cons.prems(2)]) auto
    show ?case
    proof (cases "cmp x y \<le> 0")
      case True
      have "cmp x z \<le> 0" if "z \<in> set ys" for z
        using cmp_chained [OF Cons.prems(2), of x y z] True that Cons.prems(1) by simp
      then show ?thesis using Cons.prems(1) True by simp
    next
      case False
      then have "0 < cmp x y" by simp
      then have "cmp y x < 0" using flipped [OF Cons.prems(2), of y x] by simp
      then show ?thesis using Cons.IH [OF _ c] Cons.prems(1) False st by simp
    qed
  qed simp
  have ms: "mset (sort_by cmp xs) = mset xs" for xs unfolding sort_by_def by (induction xs) (simp_all add: m)
  have "sorted_wrt (\<lambda>a b. cmp a b \<le> 0) (sort_by cmp xs)" if "consistent cmp (set xs)" for xs
    using that
  proof (induction xs)
    case (Cons x xs)
    have "set (sort_by cmp xs) = set xs" using ms by (metis mset_eq_setD)
    then have "consistent cmp (set (x # sort_by cmp xs))" using Cons.prems by simp
    moreover have "consistent cmp (set xs)" by (rule fewer [OF Cons.prems]) auto
    ultimately show ?case using s Cons.IH by (simp add: sort_by_def)
  qed (simp add: sort_by_def)
  then show ?thesis using ms by (simp add: sorts_def)
qed

lemma sample_registry: "registry_ok sample_coordinator"
  by (simp add: registry_ok_def sample_coordinator_def worker_ok_def sample_worker_def host_ok_def NI_MAXHOST_def same_place_def)

section \<open>Registering\<close>

text \<open>C20: Every operation on the registry keeps it sound: each worker has a range of layers inside the model,
  ends at the last layer if it computes the output, has a port, and no two workers stand for the same host
  and layers. A worker is registered after its hello was checked; workers leave when their connection ends
  or when a route through them fails.\<close>

theorem registry_preserved:
  assumes "registry_ok co"
  shows "(hello_refusal co expected h name = None \<longrightarrow> host_ok host
        \<longrightarrow> registry_ok (dist_coordinator_add_worker alloc_ok co fd host port h (Some name)))
    \<and> registry_ok (dist_coordinator_remove_worker co fd)
    \<and> registry_ok (fst (dist_coordinator_forget_route_workers co plan))"
  using add_worker_ok [OF assms] remove_worker_ok [OF assms] forget_ok [OF assms] by blast

theorem registry_preserved_witness:
  "registry_ok (dist_coordinator_add_worker True sample_coordinator 9 ''10.0.0.9'' ''1''
     \<lparr>he_model_id = 1, he_quant_bits = 2, he_layer_start = 2, he_layer_end = 5, he_has_output = 1, he_has_hidden = 1, he_ctx_size = 0,
      he_n_layers = 6, he_listen_port = 9000, he_model_name_len = 1\<rparr> (Some ''m''))"
  by (rule registry_preserved [OF sample_registry, THEN conjunct1, rule_format, of "''m''"])
    (simp_all add: hello_refusal_def sample_coordinator_def host_ok_def NI_MAXHOST_def)

section \<open>Routes\<close>

text \<open>C18: A route that is built computes every layer exactly once and in order, after the layers of the
  coordinator: the workers accept it, and each of them reads from it the entry that the coordinator put
  there. The search never writes behind the end of its array, whatever fails.\<close>

theorem route_plan_correct:
  assumes "registry_ok co" "sorts qsort dist_worker_route_cmp" "dc_local_end co < dc_n_layers co"
  shows "\<exists>r. dist_coordinator_build_route_plan mok qsort dup co = Some r \<and> (\<forall>plan g. r = Inr (plan, g) \<longrightarrow>
    (let es = rp_entry plan; blob = Some (rp_blob plan); count = of_nat (length es) in
       g = dc_generation co
       \<and> layers_of 0 (dc_local_end co) @ concat (map (\<lambda>e. layers_of (re_layer_start e) (re_layer_end e)) es)
           = [0..<unat (dc_n_layers co)]
       \<and> dist_route_validate_blob blob count (dc_n_layers co) = Inr ()
       \<and> (\<forall>i<length es. dist_route_get_entry blob count (of_nat i) = Inr ((es ! i)\<lparr>re_fd := -1\<rparr>))
       \<and> (es \<noteq> [] \<longrightarrow> dist_route_get_return_target blob count
             = Inr \<lparr>rr_host = [], rr_port = 0, rr_kind = DS4_DIST_ROUTE_RETURN_UPSTREAM\<rparr>)))"
  using build_correct [OF assms, of mok dup] by (simp only: Let_def)

theorem route_plan_correct_witness:
  "\<exists>plan. dist_coordinator_build_route_plan (\<lambda>_. True) (sort_by dist_worker_route_cmp) Inr sample_coordinator = Some (Inr (plan, 7))
     \<and> dist_route_validate_blob (Some (rp_blob plan)) (of_nat (length (rp_entry plan))) 6 = Inr ()
     \<and> layers_of 0 1 @ concat (map (\<lambda>e. layers_of (re_layer_start e) (re_layer_end e)) (rp_entry plan)) = [0..<6]"
proof -
  have c: "route_chain sample_coordinator (set (dc_workers sample_coordinator)) (dc_local_end sample_coordinator + 1)
      (dc_n_layers sample_coordinator - 1) [sample_worker ''a'' 3 2 3 0, sample_worker ''b'' 4 4 5 1]"
    by (simp add: sample_coordinator_def sample_worker_def dist_worker_route_candidate_ok_def)
  have s: "dc_local_start sample_coordinator = 0" "dc_local_end sample_coordinator < dc_n_layers sample_coordinator"
    "unat (dc_n_layers sample_coordinator) \<le> 2 ^ 20"
    by (simp_all add: sample_coordinator_def)
  have "\<exists>plan g. dist_coordinator_build_route_plan (\<lambda>_. True) (sort_by dist_worker_route_cmp) Inr sample_coordinator = Some (Inr (plan, g))"
    using build_complete [OF sample_registry sort_by_sorts s, of "\<lambda>_. True" Inr] c by blast
  then obtain plan g where p:
    "dist_coordinator_build_route_plan (\<lambda>_. True) (sort_by dist_worker_route_cmp) Inr sample_coordinator = Some (Inr (plan, g))"
    by blast
  have d: "dc_generation sample_coordinator = 7" "dc_n_layers sample_coordinator = 6" "dc_local_end sample_coordinator = 1"
    by (simp_all add: sample_coordinator_def)
  from route_plan_correct [OF sample_registry sort_by_sorts s(2), of "\<lambda>_. True" Inr] p d show ?thesis
    by (simp add: Let_def)
qed

text \<open>C19: A route is found whenever there is one: if memory suffices and the connection to the first worker
  can be copied, planning succeeds exactly when the coordinator itself computes the output, or some
  workers, one after the other and each able to hand over what the next one needs, cover the layers
  behind its own.\<close>

theorem route_found_iff:
  assumes "registry_ok co" "sorts qsort dist_worker_route_cmp" "dc_local_start co = 0" "dc_local_end co < dc_n_layers co"
    and "unat (dc_n_layers co) \<le> 2 ^ 20" "\<And>n. mok n" "\<And>fd. \<exists>d. dup fd = Inr d"
  shows "(\<exists>plan g. dist_coordinator_build_route_plan mok qsort dup co = Some (Inr (plan, g))) \<longleftrightarrow>
    dc_local_end co = dc_n_layers co - 1 \<and> (dc_local_has_output co \<or> dc_local_can_output_head co)
    \<or> (\<exists>ws. route_chain co (set (dc_workers co)) (dc_local_end co + 1) (dc_n_layers co - 1) ws)"
  by (rule build_complete [OF assms])

theorem route_found_iff_witness:
  "\<not> (\<exists>plan g. dist_coordinator_build_route_plan (\<lambda>_. True) (sort_by dist_worker_route_cmp) Inr
        (sample_coordinator\<lparr>dc_workers := [sample_worker ''a'' 3 2 4 0]\<rparr>) = Some (Inr (plan, g)))"
proof -
  let ?co = "sample_coordinator\<lparr>dc_workers := [sample_worker ''a'' 3 2 4 0]\<rparr>"
  have r: "registry_ok ?co"
    by (simp add: registry_ok_def sample_coordinator_def worker_ok_def sample_worker_def host_ok_def NI_MAXHOST_def)
  have s: "dc_local_start ?co = 0" "dc_local_end ?co < dc_n_layers ?co" "unat (dc_n_layers ?co) \<le> 2 ^ 20" "dc_local_end ?co \<noteq> dc_n_layers ?co - 1"
    by (simp_all add: sample_coordinator_def)
  have "\<not> route_chain ?co (set (dc_workers ?co)) (dc_local_end ?co + 1) (dc_n_layers ?co - 1) ws" for ws
  proof
    assume "route_chain ?co (set (dc_workers ?co)) (dc_local_end ?co + 1) (dc_n_layers ?co - 1) ws"
    then have "route_chain ?co {sample_worker ''a'' 3 2 4 0} 2 5 ws" by (simp add: sample_coordinator_def)
    then obtain v vs where "ws = v # vs" "v = sample_worker ''a'' 3 2 4 0" "route_chain ?co {sample_worker ''a'' 3 2 4 0} 5 5 vs"
      by (cases ws) (auto simp: sample_worker_def split: if_splits)
    then show False by (cases vs) (auto simp: sample_worker_def)
  qed
  then show ?thesis
    using route_found_iff [OF r sort_by_sorts s(1,2,3), of "\<lambda>_. True" Inr] s(4) by simp
qed

text \<open>C0: A plan that fails closes the copy of the first worker's connection, if it made one, and nothing else.\<close>

theorem failed_plan_closes:
  assumes "plan_entries mok dup control (w # path) plan_zero = Inl (e, fds)"
  shows "fds = (if control then (case dup (we_fd w) of Inl _ \<Rightarrow> [] | Inr d \<Rightarrow> if 0 \<le> d then [d] else []) else [])"
  by (rule plan_entries_close [OF assms])

theorem failed_plan_closes_witness:
  "\<exists>e. plan_entries (\<lambda>n. n < 2) (\<lambda>_. Inr 12) True [sample_worker ''a'' 3 2 3 0, sample_worker ''b'' 4 4 5 1] plan_zero = Inl (e, [12])"
proof -
  let ?r = "plan_entries (\<lambda>n. n < 2) (\<lambda>_. Inr 12) True [sample_worker ''a'' 3 2 3 0, sample_worker ''b'' 4 4 5 1] plan_zero"
  have "\<not> (\<exists>plan. ?r = Inr plan)" by (simp add: plan_zero_def dist_route_plan_append_blob_def Let_def)
  then obtain e fds where e: "?r = Inl (e, fds)" by (metis sum.exhaust surj_pair)
  from failed_plan_closes [OF e] show ?thesis using e by simp
qed

end
