(* ===== verification/DistRace.thy ===== *)
theory DistRace
  imports DistProps
begin

text \<open>
  The threads of the coordinator: one per connection (\<^verbatim>\<open>dist_coordinator_client_main\<close>), and the one that
  runs the session, which forgets the workers of a failed route. The state has the registry, the numbers
  of the open descriptors and the point of every client thread; a step is one critical section or one
  call that opens or closes a descriptor. A new connection gets some number that is not open.
\<close>

section \<open>Threads and steps\<close>

datatype client_pc =
    Gone
  | Greeting int
  | Watching int
  | Leaving int
  | Closing int

record dist_net =
  n_co :: dist_coordinator
  n_open :: "int set"
  n_pc :: "nat \<Rightarrow> client_pc"

definition go :: "dist_net \<Rightarrow> nat \<Rightarrow> client_pc \<Rightarrow> dist_coordinator \<Rightarrow> int set \<Rightarrow> dist_net" where
  "go c t pc co fds = \<lparr>n_co = co, n_open = fds, n_pc = (n_pc c)(t := pc)\<rparr>"

lemma go_simps [simp]: "n_co (go c t pc co fds) = co" "n_open (go c t pc co fds) = fds" "n_pc (go c t pc co fds) = (n_pc c)(t := pc)"
  by (simp_all add: go_def)

text \<open>The life of a connection.\<close>

inductive client_step :: "string \<Rightarrow> nat \<Rightarrow> dist_net \<Rightarrow> dist_net \<Rightarrow> bool" for expected t where
  Accept: "n_pc c t = Gone \<Longrightarrow> fd \<notin> n_open c \<Longrightarrow> 0 \<le> fd
    \<Longrightarrow> client_step expected t c (go c t (Greeting fd) (n_co c) (insert fd (n_open c)))"
| Refuse: "n_pc c t = Greeting fd \<Longrightarrow> client_step expected t c (go c t Gone (n_co c) (n_open c - {fd}))"
| Register: "n_pc c t = Greeting fd \<Longrightarrow> hello_refusal (n_co c) expected h name = None
    \<Longrightarrow> client_step expected t c
      (go c t (Watching fd) (dist_coordinator_add_worker alloc_ok (n_co c) fd host port h (Some name)) (n_open c))"
| Lost: "n_pc c t = Watching fd \<Longrightarrow> client_step expected t c (go c t (Leaving fd) (n_co c) (n_open c))"
| Remove: "n_pc c t = Leaving fd
    \<Longrightarrow> client_step expected t c (go c t (Closing fd) (dist_coordinator_remove_worker (n_co c) fd) (n_open c))"
| Close: "n_pc c t = Closing fd \<Longrightarrow> client_step expected t c (go c t Gone (n_co c) (n_open c - {fd}))"

text \<open>What the thread of the session does to the registry.\<close>

definition session_free :: "dist_net \<Rightarrow> dist_net" where
  "session_free c = c\<lparr>n_co := (n_co c)\<lparr>dc_shutting_down := True\<rparr>\<rparr>"

definition forget_route :: "dist_route_plan \<Rightarrow> dist_net \<Rightarrow> dist_net" where
  "forget_route plan c =
     (case dist_coordinator_forget_route_workers (n_co c) plan of (co, fds) \<Rightarrow> c\<lparr>n_co := co, n_open := n_open c - set fds\<rparr>)"

text \<open>The coordinator starts without workers.\<close>

definition net_started :: "dist_coordinator \<Rightarrow> int set \<Rightarrow> dist_net" where
  "net_started co fds = \<lparr>n_co = co\<lparr>dc_workers := []\<rparr>, n_open = fds, n_pc = (\<lambda>_. Gone)\<rparr>"

text \<open>The states that are reached, with failed routes (\<open>failures\<close>) or without.\<close>

inductive net_reach :: "bool \<Rightarrow> string \<Rightarrow> dist_coordinator \<Rightarrow> int set \<Rightarrow> dist_net \<Rightarrow> bool" for failures expected co fds where
  Start: "net_reach failures expected co fds (net_started co fds)"
| Client: "net_reach failures expected co fds c \<Longrightarrow> client_step expected t c c' \<Longrightarrow> net_reach failures expected co fds c'"
| Free: "net_reach failures expected co fds c \<Longrightarrow> net_reach failures expected co fds (session_free c)"
| Forget: "net_reach failures expected co fds c \<Longrightarrow> failures \<Longrightarrow> net_reach failures expected co fds (forget_route plan c)"

lemma client_stepE:
  assumes "client_step expected t c c'"
  obtains (Accept) fd where "c' = go c t (Greeting fd) (n_co c) (insert fd (n_open c))" "n_pc c t = Gone" "fd \<notin> n_open c"
  | (Refuse) fd where "c' = go c t Gone (n_co c) (n_open c - {fd})" "n_pc c t = Greeting fd"
  | (Register) fd h name alloc_ok host port where
      "c' = go c t (Watching fd) (dist_coordinator_add_worker alloc_ok (n_co c) fd host port h (Some name)) (n_open c)"
      "n_pc c t = Greeting fd" "hello_refusal (n_co c) expected h name = None"
  | (Lost) fd where "c' = go c t (Leaving fd) (n_co c) (n_open c)" "n_pc c t = Watching fd"
  | (Remove) fd where "c' = go c t (Closing fd) (dist_coordinator_remove_worker (n_co c) fd) (n_open c)" "n_pc c t = Leaving fd"
  | (Close) fd where "c' = go c t Gone (n_co c) (n_open c - {fd})" "n_pc c t = Closing fd"
  using assms by (rule client_step.cases) (blast intro: that)+

section \<open>Every worker is served by its own connection\<close>

fun pc_fd :: "client_pc \<Rightarrow> int option" where
  "pc_fd Gone = None"
| "pc_fd (Greeting fd) = Some fd"
| "pc_fd (Watching fd) = Some fd"
| "pc_fd (Leaving fd) = Some fd"
| "pc_fd (Closing fd) = Some fd"

fun serves :: "int \<Rightarrow> client_pc \<Rightarrow> bool" where
  "serves fd (Watching d) = (d = fd)"
| "serves fd (Leaving d) = (d = fd)"
| "serves fd _ = False"

lemma serves_pc_fd: "serves fd pc \<Longrightarrow> pc_fd pc = Some fd"
  by (cases pc) auto

text \<open>The descriptors of the threads are open and differ, and each worker's descriptor belongs to a thread
  that will take the worker out.\<close>

definition net_inv :: "dist_net \<Rightarrow> bool" where
  "net_inv c \<longleftrightarrow> (\<forall>t fd. pc_fd (n_pc c t) = Some fd \<longrightarrow> fd \<in> n_open c)
     \<and> (\<forall>t u fd. pc_fd (n_pc c t) = Some fd \<longrightarrow> pc_fd (n_pc c u) = Some fd \<longrightarrow> t = u)
     \<and> (\<forall>w\<in>set (dc_workers (n_co c)). \<exists>t. serves (we_fd w) (n_pc c t))
     \<and> distinct (map we_fd (dc_workers (n_co c)))"

lemma net_invI:
  assumes "\<And>t fd. pc_fd (n_pc c t) = Some fd \<Longrightarrow> fd \<in> n_open c"
    and "\<And>t u fd. pc_fd (n_pc c t) = Some fd \<Longrightarrow> pc_fd (n_pc c u) = Some fd \<Longrightarrow> t = u"
    and "\<And>w. w \<in> set (dc_workers (n_co c)) \<Longrightarrow> \<exists>t. serves (we_fd w) (n_pc c t)"
    and "distinct (map we_fd (dc_workers (n_co c)))"
  shows "net_inv c"
  using assms unfolding net_inv_def by blast

lemma net_invD:
  assumes "net_inv c"
  shows "pc_fd (n_pc c t) = Some fd \<Longrightarrow> fd \<in> n_open c"
    and "pc_fd (n_pc c t) = Some fd \<Longrightarrow> pc_fd (n_pc c u) = Some fd \<Longrightarrow> t = u"
    and "w \<in> set (dc_workers (n_co c)) \<Longrightarrow> \<exists>t. serves (we_fd w) (n_pc c t)"
    and "distinct (map we_fd (dc_workers (n_co c)))"
  using assms unfolding net_inv_def by blast+

text \<open>Which workers a registration and a removal leave.\<close>

lemma add_worker_workers:
  "dc_workers (dist_coordinator_add_worker a co fd host port h name) = dc_workers co
   \<or> (\<exists>w. we_fd w = fd \<and> dc_workers (dist_coordinator_add_worker a co fd host port h name)
        = w # filter (\<lambda>v. \<not> stale host h v) (dc_workers co))"
  by (simp add: dist_coordinator_add_worker_def Let_def)

lemma remove_worker_workers:
  assumes "distinct (map we_fd (dc_workers co))"
  shows "dc_workers (dist_coordinator_remove_worker co fd) = filter (\<lambda>w. we_fd w \<noteq> fd) (dc_workers co)"
proof (cases "remove_first (\<lambda>w. we_fd w = fd) (dc_workers co)")
  case None
  then have "\<forall>w\<in>set (dc_workers co). we_fd w \<noteq> fd" by (simp add: remove_first_none)
  then have "filter (\<lambda>w. we_fd w \<noteq> fd) (dc_workers co) = dc_workers co" by (simp add: filter_True)
  then show ?thesis by (simp add: dist_coordinator_remove_worker_def None)
next
  case (Some p)
  obtain x ys where p: "p = (x, ys)" by (cases p)
  from remove_first_some [OF Some [unfolded p]] obtain us vs where w: "we_fd x = fd"
    "dc_workers co = us @ x # vs" "ys = us @ vs" by (elim conjE exE)
  have "\<forall>w\<in>set us \<union> set vs. we_fd w \<noteq> fd" using assms w(1) unfolding w(2) by auto (metis image_eqI)+
  then have "filter (\<lambda>w. we_fd w \<noteq> fd) (us @ x # vs) = us @ vs" using w(1) by (simp add: filter_True)
  then show ?thesis using w Some p by (simp add: dist_coordinator_remove_worker_def)
qed

text \<open>Moving one thread.\<close>

lemma go_inv:
  assumes i: "net_inv c" and own: "\<And>d. pc_fd pc = Some d \<Longrightarrow> d \<in> fds"
    and others: "\<And>u d. u \<noteq> t \<Longrightarrow> pc_fd (n_pc c u) = Some d \<Longrightarrow> d \<in> fds \<and> pc_fd pc \<noteq> Some d"
    and workers: "\<And>w. w \<in> set (dc_workers co) \<Longrightarrow> serves (we_fd w) pc \<or> (\<exists>u. u \<noteq> t \<and> serves (we_fd w) (n_pc c u))"
    and d: "distinct (map we_fd (dc_workers co))"
  shows "net_inv (go c t pc co fds)"
proof (rule net_invI)
  fix u fd assume "pc_fd (n_pc (go c t pc co fds) u) = Some fd"
  then show "fd \<in> n_open (go c t pc co fds)" using own others by (cases "u = t") simp_all
next
  fix u v fd
  assume "pc_fd (n_pc (go c t pc co fds) u) = Some fd" "pc_fd (n_pc (go c t pc co fds) v) = Some fd"
  then show "u = v" using others [of u fd] others [of v fd] net_invD(2) [OF i, of u fd v]
    by (cases "u = t"; cases "v = t") simp_all
next
  fix w assume "w \<in> set (dc_workers (n_co (go c t pc co fds)))"
  then consider "serves (we_fd w) pc" | u where "u \<noteq> t" "serves (we_fd w) (n_pc c u)" using workers [of w] by auto
  then show "\<exists>u. serves (we_fd w) (n_pc (go c t pc co fds) u)"
  proof cases
    case 1
    then show ?thesis by (intro exI [of _ t]) simp
  next
    case (2 u)
    then show ?thesis by (intro exI [of _ u]) simp
  qed
next
  show "distinct (map we_fd (dc_workers (n_co (go c t pc co fds))))" using d by simp
qed

text \<open>Another thread has another descriptor.\<close>

lemma other_fd:
  assumes "net_inv c" "pc_fd (n_pc c t) = Some fd" "u \<noteq> t" "pc_fd (n_pc c u) = Some d"
  shows "d \<in> n_open c" "d \<noteq> fd"
  using net_invD(1) [OF assms(1,4)] net_invD(2) [OF assms(1,2), of u] assms(3,4) by auto

text \<open>A worker is served by another thread, or this one serves it.\<close>

lemma served:
  assumes "net_inv c" "w \<in> set (dc_workers (n_co c))"
  shows "serves (we_fd w) (n_pc c t) \<or> (\<exists>u. u \<noteq> t \<and> serves (we_fd w) (n_pc c u))"
proof -
  obtain u where u: "serves (we_fd w) (n_pc c u)" using net_invD(3) [OF assms] by blast
  show ?thesis
  proof (cases "u = t")
    case True
    then show ?thesis using u by simp
  next
    case False
    then show ?thesis using u by blast
  qed
qed

lemma client_step_inv:
  assumes "client_step expected t c c'" "net_inv c"
  shows "net_inv c'"
  using assms(1)
proof (cases rule: client_stepE)
  case (Accept fd)
  show ?thesis unfolding Accept(1)
  proof (rule go_inv [OF assms(2)])
    fix u d assume "u \<noteq> t" "pc_fd (n_pc c u) = Some d"
    then show "d \<in> insert fd (n_open c) \<and> pc_fd (Greeting fd) \<noteq> Some d" using net_invD(1) [OF assms(2)] Accept(3) by auto
  next
    fix w assume "w \<in> set (dc_workers (n_co c))"
    then show "serves (we_fd w) (Greeting fd) \<or> (\<exists>u. u \<noteq> t \<and> serves (we_fd w) (n_pc c u))"
      using served [OF assms(2), of w t] Accept(2) by simp
  qed (simp_all add: net_invD(4) [OF assms(2)])
next
  case (Refuse fd)
  show ?thesis unfolding Refuse(1)
  proof (rule go_inv [OF assms(2)])
    fix u d assume "u \<noteq> t" "pc_fd (n_pc c u) = Some d"
    then show "d \<in> n_open c - {fd} \<and> pc_fd Gone \<noteq> Some d" using other_fd [OF assms(2), of t fd u d] Refuse(2) by simp
  next
    fix w assume "w \<in> set (dc_workers (n_co c))"
    then show "serves (we_fd w) Gone \<or> (\<exists>u. u \<noteq> t \<and> serves (we_fd w) (n_pc c u))"
      using served [OF assms(2), of w t] Refuse(2) by simp
  qed (simp_all add: net_invD(4) [OF assms(2)])
next
  case (Register fd h name alloc_ok host port)
  let ?co = "dist_coordinator_add_worker alloc_ok (n_co c) fd host port h (Some name)"
  have p: "pc_fd (n_pc c t) = Some fd" using Register(2) by simp
  have old: "we_fd w \<noteq> fd \<and> (\<exists>u. u \<noteq> t \<and> serves (we_fd w) (n_pc c u))" if w: "w \<in> set (dc_workers (n_co c))" for w
  proof -
    obtain u where u: "u \<noteq> t" "serves (we_fd w) (n_pc c u)" using served [OF assms(2) w, of t] Register(2) by auto
    then show ?thesis using other_fd(2) [OF assms(2) p u(1) serves_pc_fd [OF u(2)]] by blast
  qed
  show ?thesis unfolding Register(1)
  proof (rule go_inv [OF assms(2)])
    fix d assume "pc_fd (Watching fd) = Some d"
    then show "d \<in> n_open c" using net_invD(1) [OF assms(2) p] by simp
  next
    fix u d assume "u \<noteq> t" "pc_fd (n_pc c u) = Some d"
    then show "d \<in> n_open c \<and> pc_fd (Watching fd) \<noteq> Some d" using other_fd [OF assms(2) p] by auto
  next
    fix w assume "w \<in> set (dc_workers ?co)"
    then have "w \<in> set (dc_workers (n_co c)) \<or> we_fd w = fd"
      using add_worker_workers [of alloc_ok "n_co c" fd host port h "Some name"] by auto
    then show "serves (we_fd w) (Watching fd) \<or> (\<exists>u. u \<noteq> t \<and> serves (we_fd w) (n_pc c u))" using old by auto
  next
    have d: "distinct (map we_fd (filter P (dc_workers (n_co c))))" for P
      using net_invD(4) [OF assms(2)] by (simp add: distinct_map_filter)
    have n: "fd \<notin> we_fd ` set (dc_workers (n_co c))" using old by auto
    from add_worker_workers [of alloc_ok "n_co c" fd host port h "Some name"] show "distinct (map we_fd (dc_workers ?co))"
    proof (elim disjE exE conjE)
      assume "dc_workers ?co = dc_workers (n_co c)"
      then show ?thesis using net_invD(4) [OF assms(2)] by simp
    next
      fix w assume "we_fd w = fd" "dc_workers ?co = w # filter (\<lambda>v. \<not> stale host h v) (dc_workers (n_co c))"
      then show ?thesis using d n by auto
    qed
  qed
next
  case (Lost fd)
  have p: "pc_fd (n_pc c t) = Some fd" using Lost(2) by simp
  show ?thesis unfolding Lost(1)
  proof (rule go_inv [OF assms(2)])
    fix d assume "pc_fd (Leaving fd) = Some d"
    then show "d \<in> n_open c" using net_invD(1) [OF assms(2) p] by simp
  next
    fix u d assume "u \<noteq> t" "pc_fd (n_pc c u) = Some d"
    then show "d \<in> n_open c \<and> pc_fd (Leaving fd) \<noteq> Some d" using other_fd [OF assms(2) p] by auto
  next
    fix w assume "w \<in> set (dc_workers (n_co c))"
    then show "serves (we_fd w) (Leaving fd) \<or> (\<exists>u. u \<noteq> t \<and> serves (we_fd w) (n_pc c u))"
      using served [OF assms(2), of w t] Lost(2) by simp
  qed (rule net_invD(4) [OF assms(2)])
next
  case (Remove fd)
  have p: "pc_fd (n_pc c t) = Some fd" using Remove(2) by simp
  note r = remove_worker_workers [OF net_invD(4) [OF assms(2)], of fd]
  show ?thesis unfolding Remove(1)
  proof (rule go_inv [OF assms(2)])
    fix d assume "pc_fd (Closing fd) = Some d"
    then show "d \<in> n_open c" using net_invD(1) [OF assms(2) p] by simp
  next
    fix u d assume "u \<noteq> t" "pc_fd (n_pc c u) = Some d"
    then show "d \<in> n_open c \<and> pc_fd (Closing fd) \<noteq> Some d" using other_fd [OF assms(2) p] by auto
  next
    fix w assume "w \<in> set (dc_workers (dist_coordinator_remove_worker (n_co c) fd))"
    then have "w \<in> set (dc_workers (n_co c))" "we_fd w \<noteq> fd" unfolding r by auto
    then show "serves (we_fd w) (Closing fd) \<or> (\<exists>u. u \<noteq> t \<and> serves (we_fd w) (n_pc c u))"
      using served [OF assms(2), of w t] Remove(2) by auto
  next
    show "distinct (map we_fd (dc_workers (dist_coordinator_remove_worker (n_co c) fd)))"
      unfolding r by (rule distinct_map_filter [OF net_invD(4) [OF assms(2)]])
  qed
next
  case (Close fd)
  have p: "pc_fd (n_pc c t) = Some fd" using Close(2) by simp
  show ?thesis unfolding Close(1)
  proof (rule go_inv [OF assms(2)])
    fix u d assume "u \<noteq> t" "pc_fd (n_pc c u) = Some d"
    then show "d \<in> n_open c - {fd} \<and> pc_fd Gone \<noteq> Some d" using other_fd [OF assms(2) p] by simp
  next
    fix w assume "w \<in> set (dc_workers (n_co c))"
    then show "serves (we_fd w) Gone \<or> (\<exists>u. u \<noteq> t \<and> serves (we_fd w) (n_pc c u))"
      using served [OF assms(2), of w t] Close(2) by simp
  qed (simp_all add: net_invD(4) [OF assms(2)])
qed

lemma net_reach_inv: "net_reach False expected co fds c \<Longrightarrow> net_inv c"
proof (induction rule: net_reach.induct)
  case Start
  show ?case by (rule net_invI) (simp_all add: net_started_def)
next
  case (Client c t c')
  then show ?case using client_step_inv by blast
next
  case (Free c)
  then show ?case by (simp add: net_inv_def session_free_def)
qed simp

text \<open>C21: While no route fails, every registered worker has an open connection of its own and exactly one
  thread, which will take it out of the registry and then close it: in every interleaving, a thread that
  closes a descriptor closes that of no registered worker.\<close>

theorem workers_served:
  assumes "net_reach False expected co fds c" "w \<in> set (dc_workers (n_co c))"
  shows "we_fd w \<in> n_open c \<and> (\<exists>!t. serves (we_fd w) (n_pc c t)) \<and> (\<forall>t. n_pc c t \<noteq> Closing (we_fd w) \<and> n_pc c t \<noteq> Greeting (we_fd w))"
proof -
  note i = net_reach_inv [OF assms(1)]
  obtain t where t: "serves (we_fd w) (n_pc c t)" using net_invD(3) [OF i assms(2)] by blast
  have u: "u = t" if "pc_fd (n_pc c u) = Some (we_fd w)" for u
    using net_invD(2) [OF i that serves_pc_fd [OF t]] .
  have "n_pc c u \<noteq> Closing (we_fd w) \<and> n_pc c u \<noteq> Greeting (we_fd w)" for u
    using u [of u] t by (cases "n_pc c u") auto
  then show ?thesis using net_invD(1) [OF i serves_pc_fd [OF t]] t u serves_pc_fd by blast
qed

section \<open>Forgetting a route closes descriptors that threads still use\<close>

definition late_hello :: dist_hello where
  "late_hello = \<lparr>he_model_id = 1, he_quant_bits = 2, he_layer_start = 2, he_layer_end = 5, he_has_output = 1, he_has_hidden = 1,
     he_ctx_size = 0, he_n_layers = 6, he_listen_port = 9000, he_model_name_len = 1\<rparr>"

definition net1 :: dist_net where
  "net1 = go (go (net_started sample_coordinator {3}) 0 (Greeting 5) ((sample_coordinator)\<lparr>dc_workers := []\<rparr>) {3, 5}) 0 (Watching 5)
     (dist_coordinator_add_worker True (sample_coordinator\<lparr>dc_workers := []\<rparr>) 5 ''a'' ''1'' late_hello (Some ''m'')) {3, 5}"

lemma greeted: "hello_refusal (sample_coordinator\<lparr>dc_workers := ws, dc_generation := g\<rparr>) ''m'' late_hello ''m'' = None"
  "hello_refusal (sample_coordinator\<lparr>dc_workers := ws\<rparr>) ''m'' late_hello ''m'' = None"
  by (simp_all add: hello_refusal_def late_hello_def sample_coordinator_def)

lemma net1_reach: "net_reach f ''m'' sample_coordinator {3} net1"
proof -
  let ?s = "net_started sample_coordinator {3}" and ?co = "sample_coordinator\<lparr>dc_workers := []\<rparr>"
  have "client_step ''m'' 0 ?s (go ?s 0 (Greeting 5) ?co {3, 5})"
    using client_step.Accept [of ?s 0 5 "''m''"] by (simp add: net_started_def insert_commute)
  note a = net_reach.Client [OF net_reach.Start this]
  have "client_step ''m'' 0 (go ?s 0 (Greeting 5) ?co {3, 5}) net1"
    using client_step.Register [of "go ?s 0 (Greeting 5) ?co {3, 5}" 0 5 "''m''" late_hello "''m''" True "''a''" "''1''"] greeted
    by (simp add: net1_def)
  then show ?thesis by (rule net_reach.Client [OF a])
qed

theorem workers_served_witness:
  "\<exists>w. dc_workers (n_co net1) = [w] \<and> we_fd w \<in> n_open net1 \<and> (\<exists>!t. serves (we_fd w) (n_pc net1 t))"
proof -
  obtain w where w: "dc_workers (n_co net1) = [w]" by (simp add: net1_def dist_coordinator_add_worker_def sample_coordinator_def Let_def)
  from workers_served [OF net1_reach, of w] w show ?thesis by simp
qed

text \<open>The route goes through the worker behind the connection 5. When it fails the connection is closed, and
  the number is given to the next connection while the first thread still watches it.\<close>

definition net2 :: dist_net where
  "net2 = forget_route \<lparr>rp_entry = map entry_of_worker (dc_workers (n_co net1)), rp_blob = []\<rparr> net1"

definition net3 :: dist_net where "net3 = go net2 1 (Greeting 5) (n_co net2) (insert 5 (n_open net2))"
definition net4 :: dist_net where "net4 = go net3 0 (Leaving 5) (n_co net3) (n_open net3)"
definition net5 :: dist_net where "net5 = go net4 0 (Closing 5) (dist_coordinator_remove_worker (n_co net4) 5) (n_open net4)"
definition net6 :: dist_net where
  "net6 = go net5 1 (Watching 5) (dist_coordinator_add_worker True (n_co net5) 5 ''b'' ''1'' late_hello (Some ''m'')) (n_open net5)"
definition net7 :: dist_net where "net7 = go net6 0 Gone (n_co net6) (n_open net6 - {5})"

lemma net1_worker: "\<exists>w. we_fd w = 5 \<and> dist_route_entry_matches_worker (entry_of_worker w) w
  \<and> net1 = \<lparr>n_co = sample_coordinator\<lparr>dc_workers := [w], dc_generation := 8\<rparr>, n_open = {3, 5}, n_pc = (\<lambda>_. Gone)(0 := Watching 5)\<rparr>"
  by (simp add: net1_def dist_coordinator_add_worker_def sample_coordinator_def Let_def go_def net_started_def NI_MAXHOST_def
      dist_route_entry_matches_worker_def entry_of_worker_def late_hello_def DS4_DIST_ROUTE_F_OUTPUT_LOGITS_def)

lemma net2_eq: "net2 = \<lparr>n_co = sample_coordinator\<lparr>dc_workers := [], dc_generation := 9\<rparr>, n_open = {3}, n_pc = (\<lambda>_. Gone)(0 := Watching 5)\<rparr>"
proof -
  obtain w where w: "we_fd w = 5" "dist_route_entry_matches_worker (entry_of_worker w) w"
    "net1 = \<lparr>n_co = sample_coordinator\<lparr>dc_workers := [w], dc_generation := 8\<rparr>, n_open = {3, 5}, n_pc = (\<lambda>_. Gone)(0 := Watching 5)\<rparr>"
    using net1_worker by blast
  then show ?thesis by (simp add: net2_def forget_route_def dist_coordinator_forget_route_workers_def w insert_Diff_if)
qed

lemma net7_reach: "net_reach True ''m'' sample_coordinator {3} net7"
proof -
  have r2: "net_reach True ''m'' sample_coordinator {3} net2"
    unfolding net2_def by (rule net_reach.Forget [OF net1_reach]) simp
  have s3: "client_step ''m'' 1 net2 net3" unfolding net3_def by (rule client_step.Accept) (simp_all add: net2_eq)
  have s4: "client_step ''m'' 0 net3 net4" unfolding net4_def by (rule client_step.Lost) (simp add: net3_def net2_eq)
  have s5: "client_step ''m'' 0 net4 net5" unfolding net5_def by (rule client_step.Remove) (simp add: net4_def)
  have s6: "client_step ''m'' 1 net5 net6" unfolding net6_def
  proof (rule client_step.Register)
    show "n_pc net5 1 = Greeting 5" by (simp add: net5_def net4_def net3_def)
    have "n_co net5 = sample_coordinator\<lparr>dc_workers := [], dc_generation := 9\<rparr>"
      by (simp add: net5_def net4_def net3_def net2_eq dist_coordinator_remove_worker_def)
    then show "hello_refusal (n_co net5) ''m'' late_hello ''m'' = None" using greeted(1) by simp
  qed
  have s7: "client_step ''m'' 0 net6 net7" unfolding net7_def by (rule client_step.Close) (simp add: net6_def net5_def)
  show ?thesis
    by (rule net_reach.Client [OF net_reach.Client [OF net_reach.Client [OF net_reach.Client [OF net_reach.Client [OF r2 s3] s4] s5] s6] s7])
qed

text \<open>C22: Forgetting the workers of a failed route breaks this: it closes their descriptors although their threads
  still use the numbers. A worker that connects next can get such a number, and the old thread closes its
  connection while it is registered and its own thread watches it.\<close>

theorem forget_closes_new_worker:
  "\<exists>c w. net_reach True ''m'' sample_coordinator {3} c \<and> dc_workers (n_co c) = [w] \<and> we_peer_host w = ''b''
     \<and> n_pc c 1 = Watching (we_fd w) \<and> we_fd w \<notin> n_open c"
proof -
  have "\<exists>w. dc_workers (n_co net7) = [w] \<and> we_peer_host w = ''b'' \<and> n_pc net7 1 = Watching (we_fd w) \<and> we_fd w \<notin> n_open net7"
    by (simp add: net7_def net6_def net5_def net4_def net3_def net2_eq dist_coordinator_add_worker_def
        dist_coordinator_remove_worker_def sample_coordinator_def Let_def NI_MAXHOST_def)
  then show ?thesis using net7_reach by blast
qed

end
