(* ===== verification/Spec2Isabelle.thy ===== *)
theory Spec2Isabelle
  imports BaseProps KvProps ToolProps WrapperProps WrapperConfig ServerProps
    ToolMemoryProps StreamProps ChatProps ToolReplayProps GgufProps TokenizerProps
    DistProps DistRace
begin

text \<open>
  A verification library for DS4 Studio's C core: the disk store for KV checkpoints and the blobs of
  tool outputs, the sessions that a wrapper shares between its server and its agent, the chat server's
  protocol core, the engine's model-file reader and tokenizer, and the routes of distributed inference.

  \<^bold>\<open>The program.\<close> \<^verbatim>\<open>src/\<close> is a local inference server and agent. Around the engine (\<^verbatim>\<open>ds4.c\<close> and the
  GPU back ends, floating point and device code) sit the parts that keep its state. The checkpoint
  store \<^verbatim>\<open>ds4_kvstore.c\<close> saves a session's graph state under the hash of its rendered text and finds the
  longest stored prefix of a new prompt. The chat server \<^verbatim>\<open>ds4_server.c\<close> reads requests as JSON, renders
  conversations into prompts, parses the tool calls the model writes in its markup (DSML), and keeps
  the sampled text of every tool call, so that the prompt of the next request repeats the tokens the
  session already holds. The wrapper \<^verbatim>\<open>ds4_wrapper*.c\<close> runs server and agent on one engine and freezes
  the session of one while the other is used. The agent's tool results go through
  \<^verbatim>\<open>ds4_tool_compress.c\<close>, which replaces long outputs by summaries after saving the original in
  \<^verbatim>\<open>ds4_context_blob.c\<close>; \<^verbatim>\<open>buf.c\<close> is the growable buffer of several files and \<^verbatim>\<open>ds4_ssd.c\<close> plans the
  memory of streamed experts. \<^verbatim>\<open>ds4.c\<close> itself opens the model file (GGUF version 3), reads the vocabulary
  from its metadata and turns prompts into tokens and tokens into text. \<^verbatim>\<open>ds4_distributed.c\<close> spreads the
  layers of a model over several machines: workers register with a coordinator, which plans a route
  through them and sends it along with the work.

  \<^bold>\<open>Theories.\<close>
  \<^item> \<^verbatim>\<open>Prelude\<close>: C types as words, characters, decimal numbers, memory blocks, results as sums;
    \<^verbatim>\<open>CText\<close>: the C library's text functions that several parts use.
  \<^item> \<^verbatim>\<open>DynBuf\<close> (\<^verbatim>\<open>buf.c\<close>): blocks as lists of cells, \<open>dynbuf\<close> with pointer, length and capacity; the
    interface \<open>text_buffer\<close>, provided by \<open>dynbuf_append\<close> here and by \<open>ds4_tc_buf_append\<close> in \<^verbatim>\<open>TcBuf\<close>.
  \<^item> \<^verbatim>\<open>Hash\<close>: SHA-1 of \<^verbatim>\<open>ds4_kvstore.c\<close> and SHA-256 of \<^verbatim>\<open>ds4_context_blob.c\<close> on words; the interface
    \<open>stream_hash\<close> of an incremental hash, provided by both.
  \<^item> \<^verbatim>\<open>KvFormat\<close>, \<^verbatim>\<open>KvPolicy\<close>, \<^verbatim>\<open>KvStore\<close> (\<^verbatim>\<open>ds4_kvstore.c\<close>): the file format, when and how much to store, and
    the store over a file system; \<^verbatim>\<open>KvTheorems\<close> and \<^verbatim>\<open>KvProps\<close> hold what they guarantee: a round trip
    through the disk, which files a load accepts, the budget, and what a failing store may leave behind.
  \<^item> \<^verbatim>\<open>Ssd\<close> (\<^verbatim>\<open>ds4_ssd.c\<close>): argument parsing, the cache plan, the simulated memory lock.
  \<^item> \<^verbatim>\<open>ContextBlob\<close> (\<^verbatim>\<open>ds4_context_blob.c\<close>): put and ranged read.
  \<^item> \<^verbatim>\<open>TcBuf\<close>, \<^verbatim>\<open>ToolCompress\<close>, \<^verbatim>\<open>ToolProps\<close> (\<^verbatim>\<open>ds4_tool_compress.c\<close>): the output buffer and line table,
    classification and the compressors, and their guarantees.
  \<^item> \<^verbatim>\<open>BaseProps\<close>: the guarantees of the shared building blocks.
  \<^item> \<^verbatim>\<open>SessionStore\<close> (\<^verbatim>\<open>ds4_agent_session_store.c\<close>, the snapshots of \<^verbatim>\<open>ds4.c\<close>): a session's state in RAM
    and in a session file; the serialised graph is a list of bytes that the engine produces and restores.
  \<^item> \<^verbatim>\<open>Wrapper\<close> (\<^verbatim>\<open>ds4_wrapper_state.c\<close> and its callers): requests, freezing, thawing and switching as
    transformations of the wrapper's state; \<^verbatim>\<open>WrapperRace\<close>: the same operations cut at the points where
    they hold the mutex, as the step relation \<open>wstep\<close> of any number of threads; \<^verbatim>\<open>WrapperProps\<close>: round
    trips, mutual exclusion, errors. \<^verbatim>\<open>WrapperConfig\<close>: the command line and its ranges.
  \<^item> \<^verbatim>\<open>ServerJson\<close>, \<^verbatim>\<open>ServerJsonSpec\<close> (the JSON reader and writer of \<^verbatim>\<open>ds4_server.c\<close>, and JSON documents as
    a datatype with a printer to compare them with); \<^verbatim>\<open>Dsml\<close>, \<^verbatim>\<open>DsmlParse\<close>: rendering tool calls, parsing
    a generated message, repairing a truncated one; \<^verbatim>\<open>JsonArgs\<close>, \<^verbatim>\<open>DsmlProps\<close>, \<^verbatim>\<open>DsmlRepair\<close>: the lemmas
    of the two directions; \<^verbatim>\<open>DsmlNesting\<close>: the tags read with the stack of the open ones, against which
    the repair by counting is checked; \<^verbatim>\<open>ServerProps\<close>: what they guarantee together.
  \<^item> \<^verbatim>\<open>ToolMemory\<close>: the memory of sampled tool calls, a doubly linked recency list with shared text
    blocks on a heap; \<^verbatim>\<open>ToolMemoryInv\<close>, \<^verbatim>\<open>ToolMemoryOps\<close>: its representation invariant \<open>tm_inv\<close> and the
    linked-list operations; \<^verbatim>\<open>ToolMemorySpec\<close>: the abstract memory, a list ordered by recency;
    \<^verbatim>\<open>ToolMemoryRun\<close>: the refinement \<open>repr\<close> and the runs \<open>tm_run\<close>; \<^verbatim>\<open>ToolMemoryProps\<close>.
  \<^item> \<^verbatim>\<open>StreamText\<close>, \<^verbatim>\<open>StreamProps\<close>: stop sequences, character boundaries, and the text a plain stream sends.
  \<^item> \<^verbatim>\<open>ChatPrompt\<close>: messages and the rendered prompt; \<^verbatim>\<open>LiveState\<close>: what a turn remembers of the live
    session and what the next request reuses; \<^verbatim>\<open>ChatLemmas\<close>, \<^verbatim>\<open>ChatProps\<close>: the two fit together.
  \<^item> \<^verbatim>\<open>ToolReplay\<close>: attaching remembered text to the calls of a request, and the tool map inside a
    checkpoint file; \<^verbatim>\<open>ToolReplayLemmas\<close>, \<^verbatim>\<open>ToolMapLemmas\<close>, \<^verbatim>\<open>ToolReplayProps\<close>.
  \<^item> \<^verbatim>\<open>Gguf\<close> (the loader of \<^verbatim>\<open>ds4.c\<close>): the cursor on the mapped file, metadata, tensors, the getters; a read
    outside the mapping is the value \<open>None\<close>. \<^verbatim>\<open>GgufLemmas\<close>: the interface \<open>cursor_reader\<close>, provided by the
    readers of numbers, strings, truth values and arrays; \<^verbatim>\<open>GgufProps\<close>: no file makes the loader read
    outside it, and what an accepted file guarantees.
  \<^item> \<^verbatim>\<open>StrTable\<close>: the open-addressing hash table of the tokenizer and the interface \<open>str_map\<close> that it
    provides; \<^verbatim>\<open>Tokenizer\<close>: byte-level BPE, the cut into pieces, rendered chats, messages, and the text of a
    token; \<^verbatim>\<open>TokenizerLemmas\<close>, \<^verbatim>\<open>VocabLemmas\<close>, \<^verbatim>\<open>TokenizerProps\<close>: loading a vocabulary gives tables that hold
    it (\<open>vocab_tables\<close>); with every byte and every merged pair among the tokens (\<open>vocab_complete\<close>) tokens
    read back as the text they came from; \<^verbatim>\<open>TokenizerMarks\<close>: no piece of a text holds a whole marker.
  \<^item> \<^verbatim>\<open>DistRoute\<close> (\<^verbatim>\<open>ds4_distributed.c\<close>): the coordinator's registry of workers, the search for a route, the
    route on the wire and its readers; \<^verbatim>\<open>DistLemmas\<close>: the routes there are (\<open>route_chain\<close>), the sound registry
    (\<open>registry_ok\<close>), the wire format both ways; \<^verbatim>\<open>DistProps\<close>: every layer once and in order, and a route
    whenever there is one; \<^verbatim>\<open>DistRace\<close>: the threads of the connections as a step relation.

  \<^bold>\<open>Correspondence.\<close> A definition has the name of the C function it models, a record the fields of
  the struct. A C \<^verbatim>\<open>uint32_t\<close>, \<^verbatim>\<open>uint64_t\<close> or \<^verbatim>\<open>size_t\<close> is a word and wraps where that can happen; an
  \<^verbatim>\<open>int\<close> is an integer; lengths of texts in memory are naturals; a string is a list of characters; a
  file is the list of its bytes and the file system a map from paths. What the operating system decides
  (clock, directory order, which calls fail, how much a write takes, the addresses that \<^verbatim>\<open>malloc\<close>
  returns) is an argument: the records \<open>io\<close> and \<open>blob_io\<close>, \<open>mok\<close>, which says which allocations succeed,
  the pointers passed to a put. The engine and the session are records of the functions that are called
  on them, the double that a numeral denotes is a function, and the C library's number parsers are
  written out. Every early return is a branch. Loops are structural recursions, functions with a
  measure, or, where they might not end (the growth loops, the locking loop, the walks along pointers,
  the probes of the hash table), \<open>partial_function (option)\<close>, with a theorem that they do end. The parsing loops of the server
  (\<open>array_loop\<close>, \<open>object_loop\<close>, \<open>args_loop\<close>, \<open>calls_loop\<close>, \<open>params_loop\<close>, \<open>scan_blocks\<close>) count down a number
  that starts at the length of the remaining text plus one; every round consumes a character, so it is
  never used up. Nesting of JSON values is limited to 256 levels by the code itself, that of arrays
  in a model file to 8 (\<open>skip_nested\<close> counts the levels that are left).

  \<^bold>\<open>Not modelled.\<close> Log messages and timings; the rounding of the eviction score, which is computed over
  the reals; the engine's inference and the GPU back ends, which compute with floating point; metadata
  read as floating point; mapping and prefetching the model file; how distributed inference moves
  activations and snapshots; the structured event streams of the three chat protocols and
  the socket code around them; the terminal, network and process parts of the front ends; the
  third-party \<^verbatim>\<open>rax.c\<close> and \<^verbatim>\<open>linenoise.c\<close>.
\<close>

end
